(* ===== verification/Prelude.thy ===== *)
theory Prelude
  imports Main "HOL-Library.Word"
begin

text \<open>
  Shared vocabulary of the development: the machine types of the Rust code, results as sums, bytes
  at an offset of a buffer, tables keyed by bytes, and little-endian integers.
  Machine integers are words of their width; \<^verbatim>\<open>usize\<close> values (lengths, offsets, indices) are
  natural numbers, as none of the modelled code can bring one near \<open>2 ^ 64\<close>. A Rust \<^verbatim>\<open>String\<close> is
  the list of its UTF-8 bytes, and an \<^verbatim>\<open>f64\<close> is its 64-bit pattern.
\<close>

unbundle bit_operations_syntax

section \<open>Types\<close>

type_synonym u8 = "8 word"
type_synonym u32 = "32 word"
type_synonym u64 = "64 word"
type_synonym i64 = "64 word"
type_synonym f64 = "64 word"
type_synonym usize = nat
type_synonym rstring = "u8 list"

text \<open>Byte string literals, \<^verbatim>\<open>b"..."\<close> in the source.\<close>

definition bytes_of :: "string \<Rightarrow> u8 list" where
  "bytes_of s = map of_char s"

lemma bytes_of_Nil [simp]: "bytes_of [] = []"
  by (simp add: bytes_of_def)

lemma bytes_of_Cons [simp]: "bytes_of (c # s) = of_char c # bytes_of s"
  by (simp add: bytes_of_def)

lemma length_bytes_of [simp]: "length (bytes_of s) = length s"
  by (simp add: bytes_of_def)

text \<open>Decimal digits, as \<^verbatim>\<open>{}\<close> prints an unsigned integer.\<close>

fun show_nat :: "nat \<Rightarrow> string" where
  "show_nat n =
     (if n < 10 then [''0123456789'' ! n] else show_nat (n div 10) @ [''0123456789'' ! (n mod 10)])"

declare show_nat.simps [simp del]

section \<open>Results\<close>

definition bind_res :: "'e + 'a \<Rightarrow> ('a \<Rightarrow> 'e + 'b) \<Rightarrow> 'e + 'b" where
  "bind_res r f = (case r of Inl e \<Rightarrow> Inl e | Inr x \<Rightarrow> f x)"

definition map_err :: "('e \<Rightarrow> 'f) \<Rightarrow> 'e + 'a \<Rightarrow> 'f + 'a" where
  "map_err f r = (case r of Inl e \<Rightarrow> Inl (f e) | Inr x \<Rightarrow> Inr x)"

definition is_ok :: "'e + 'a \<Rightarrow> bool" where
  "is_ok r = (case r of Inl _ \<Rightarrow> False | Inr _ \<Rightarrow> True)"

lemma bind_res_simps [simp]: "bind_res (Inl e) f = Inl e" "bind_res (Inr x) f = f x"
  by (simp_all add: bind_res_def)

lemma map_err_simps [simp]: "map_err f (Inl e) = Inl (f e)" "map_err f (Inr x) = Inr x"
  by (simp_all add: map_err_def)

lemma is_ok_simps [simp]: "is_ok (Inl e) = False" "is_ok (Inr x) = True"
  by (simp_all add: is_ok_def)

lemma bind_res_Inr: "bind_res r f = Inr y \<longleftrightarrow> (\<exists>x. r = Inr x \<and> f x = Inr y)"
  by (cases r) auto

lemma bind_res_Inl: "bind_res r f = Inl e \<longleftrightarrow> r = Inl e \<or> (\<exists>x. r = Inr x \<and> f x = Inl e)"
  by (cases r) auto

lemma map_err_Inr [simp]: "map_err f r = Inr y \<longleftrightarrow> r = Inr y"
  by (cases r) auto

lemma is_ok_iff: "is_ok r \<longleftrightarrow> (\<exists>x. r = Inr x)"
  by (cases r) auto

section \<open>Bytes at an offset\<close>

text \<open>\<open>bytes_at bs off xs\<close>: the bytes \<open>xs\<close> occur in \<open>bs\<close> from offset \<open>off\<close> on.\<close>

definition bytes_at :: "'b list \<Rightarrow> nat \<Rightarrow> 'b list \<Rightarrow> bool" where
  "bytes_at bs off xs \<longleftrightarrow> off + length xs \<le> length bs \<and> take (length xs) (drop off bs) = xs"

lemma bytes_at_Nil [simp]: "bytes_at bs off [] \<longleftrightarrow> off \<le> length bs"
  by (simp add: bytes_at_def)

lemma bytes_at_append [simp]:
  "bytes_at bs off (xs @ ys) \<longleftrightarrow> bytes_at bs off xs \<and> bytes_at bs (off + length xs) ys"
  by (auto simp: bytes_at_def take_add add.commute[of _ off] add.left_commute append_eq_append_conv)

lemma bytes_at_Cons:
  "bytes_at bs off (x # xs) \<longleftrightarrow> off < length bs \<and> bs ! off = x \<and> bytes_at bs (Suc off) xs"
proof -
  have "bytes_at bs off (x # xs) \<longleftrightarrow> bytes_at bs off [x] \<and> bytes_at bs (off + 1) xs"
    using bytes_at_append [of bs off "[x]" xs] by simp
  also have "bytes_at bs off [x] \<longleftrightarrow> off < length bs \<and> bs ! off = x"
    by (auto simp: bytes_at_def take_Suc_conv_app_nth hd_drop_conv_nth take_Suc)
  finally show ?thesis by auto
qed

lemma bytes_at_self: "bytes_at (xs @ ys @ zs) (length xs) ys"
  by (simp add: bytes_at_def)

lemma bytes_at_start: "bytes_at (ys @ zs) 0 ys"
  by (simp add: bytes_at_def)

lemma bytes_at_whole: "bytes_at bs 0 bs"
  by (simp add: bytes_at_def)

lemma bytes_at_le: "bytes_at bs off xs \<Longrightarrow> off + length xs \<le> length bs"
  by (simp add: bytes_at_def)

lemma bytes_at_same_length:
  "bytes_at bs off xs \<Longrightarrow> bytes_at bs off ys \<Longrightarrow> length xs = length ys \<Longrightarrow> xs = ys"
  by (auto simp: bytes_at_def)

lemma bytes_at_take:
  assumes "bytes_at bs off xs" and "off + length xs \<le> n"
  shows "bytes_at (take n bs) off xs"
  using assms by (auto simp: bytes_at_def drop_take min_def)

lemma bytes_at_of_take: "bytes_at (take n bs) off xs \<Longrightarrow> bytes_at bs off xs"
  by (auto simp: bytes_at_def drop_take min_def split: if_splits)

lemma bytes_at_0: "bytes_at bs 0 xs \<longleftrightarrow> take (length xs) bs = xs"
  by (metis add_0 bytes_at_def drop_0 length_take min.absorb_iff2)

lemma bytes_at_nth: "bytes_at bs off xs \<Longrightarrow> i < length xs \<Longrightarrow> off + i < length bs \<and> bs ! (off + i) = xs ! i"
proof -
  assume at: "bytes_at bs off xs" and i: "i < length xs"
  from bytes_at_le [OF at] i have "take (length xs) (drop off bs) ! i = bs ! (off + i)" by simp
  with at i show ?thesis by (simp add: bytes_at_def)
qed

section \<open>Tables keyed by bytes\<close>

text \<open>Distinctness of word keys is decided on their values, which are natural numbers.\<close>

lemma distinct_unat_keys:
  "distinct (map (unat \<circ> fst) t) \<Longrightarrow> distinct (map fst t)"
  by (auto simp: distinct_map dest: inj_on_imageI2)

section \<open>Little-endian integers\<close>

text \<open>\<^verbatim>\<open>to_le_bytes\<close> and \<^verbatim>\<open>from_le_bytes\<close>.\<close>

fun to_le :: "nat \<Rightarrow> 'w::len word \<Rightarrow> u8 list" where
  "to_le 0 w = []"
| "to_le (Suc k) w = ucast w # to_le k (drop_bit 8 w)"

fun from_le :: "u8 list \<Rightarrow> 'w::len word" where
  "from_le [] = 0"
| "from_le (b # bs) = ucast b OR push_bit 8 (from_le bs)"

lemma length_to_le [simp]: "length (to_le k w) = k"
  by (induction k arbitrary: w) auto

lemma bit_from_le:
  "bit (from_le bs :: 'w::len word) i \<longleftrightarrow>
     i < LENGTH('w) \<and> i div 8 < length bs \<and> bit (bs ! (i div 8)) (i mod 8)"
proof (induction bs arbitrary: i)
  case Nil
  then show ?case by simp
next
  case (Cons b bs)
  show ?case
  proof (cases "i < 8")
    case True
    then show ?thesis
      by (auto simp: bit_or_iff bit_ucast_iff bit_push_bit_iff dest: bit_imp_le_length)
  next
    case False
    then have "i div 8 = Suc ((i - 8) div 8)" and "i mod 8 = (i - 8) mod 8"
      by (simp_all add: div_if mod_if)
    moreover from False have "\<not> bit b i"
      using bit_imp_le_length [of b i] by auto
    ultimately show ?thesis
      using False Cons.IH [of "i - 8"] by (auto simp: bit_or_iff bit_ucast_iff bit_push_bit_iff)
  qed
qed

lemma nth_to_le: "j < k \<Longrightarrow> to_le k w ! j = ucast (drop_bit (8 * j) w)"
  by (induction k arbitrary: w j) (auto simp: nth_Cons' less_Suc_eq_0_disj algebra_simps)

lemma from_le_to_le [simp]:
  assumes "LENGTH('w::len) \<le> 8 * k"
  shows "from_le (to_le k w) = (w :: 'w word)"
proof (rule bit_word_eqI)
  fix i assume i: "i < LENGTH('w)"
  with assms have "i div 8 < k" by auto
  moreover have "8 * (i div 8) + i mod 8 = i" by simp
  ultimately show "bit (from_le (to_le k w) :: 'w word) i = bit w i"
    using i by (auto simp: bit_from_le nth_to_le bit_ucast_iff bit_drop_bit_eq)
qed

lemma to_le_from_le:
  assumes "8 * length bs \<le> LENGTH('w::len)"
  shows "to_le (length bs) (from_le bs :: 'w word) = bs"
proof (rule nth_equalityI)
  fix j assume "j < length (to_le (length bs) (from_le bs :: 'w word))"
  then have j: "j < length bs" by simp
  show "to_le (length bs) (from_le bs :: 'w word) ! j = bs ! j"
  proof (rule bit_word_eqI)
    fix i assume i: "i < LENGTH(8)"
    then have "(8 * j + i) div 8 = j" and "(8 * j + i) mod 8 = i" and "8 * j + i < 8 * length bs"
      using j by auto
    then show "bit (to_le (length bs) (from_le bs :: 'w word) ! j) i = bit (bs ! j) i"
      using i j assms by (simp add: nth_to_le bit_ucast_iff bit_drop_bit_eq bit_from_le)
  qed
qed simp

end
