(* ===== verification/Codec.thy ===== *)
theory Codec
  imports Prelude
begin

text \<open>
  The interface between a writer of bytes and the parser that reads them back at an offset: the
  locale \<open>codec\<close>. Everything the byte formats need is proved once from its two laws: the encoding
  is prefix-free and injective, a truncated encoding is refused, and a counted loop of readers
  inverts a concatenation of writers. The theory also models UTF-8 validation
  (\<^verbatim>\<open>String::from_utf8\<close>).
\<close>

section \<open>The contract\<close>

locale codec =
  fixes enc :: "'a \<Rightarrow> u8 list"
    and dec :: "u8 list \<Rightarrow> nat \<Rightarrow> 'e + 'a \<times> nat"
    and wf :: "'a \<Rightarrow> bool"
  assumes dec_enc: "wf x \<Longrightarrow> bytes_at bs off (enc x) \<Longrightarrow> dec bs off = Inr (x, off + length (enc x))"
    and dec_sound: "off \<le> length bs \<Longrightarrow> dec bs off = Inr (x, off') \<Longrightarrow>
      wf x \<and> off' = off + length (enc x) \<and> bytes_at bs off (enc x)"
begin

lemma dec_off_le: "off \<le> length bs \<Longrightarrow> dec bs off = Inr (x, off') \<Longrightarrow> off' \<le> length bs"
  using dec_sound bytes_at_le by fastforce

lemma dec_off_mono: "off \<le> length bs \<Longrightarrow> dec bs off = Inr (x, off') \<Longrightarrow> off \<le> off'"
  using dec_sound by fastforce

lemma prefix_free:
  assumes "wf x" and "wf y" and "enc x = enc y @ zs"
  shows "x = y \<and> zs = []"
proof -
  have "dec (enc x) 0 = Inr (x, length (enc x))"
    using dec_enc [OF assms(1), of "enc x" 0] by (simp add: bytes_at_whole)
  moreover have "dec (enc x) 0 = Inr (y, length (enc y))"
    using dec_enc [OF assms(2), of "enc x" 0] assms(3) by (simp add: bytes_at_start)
  ultimately show ?thesis using assms(3) by simp
qed

lemma enc_inj: "wf x \<Longrightarrow> wf y \<Longrightarrow> enc x = enc y \<Longrightarrow> x = y"
  using prefix_free [of x y "[]"] by simp

lemma unique: "wf x \<Longrightarrow> wf y \<Longrightarrow> bytes_at bs off (enc x) \<Longrightarrow> bytes_at bs off (enc y) \<Longrightarrow> x = y"
  using dec_enc [of x bs off] dec_enc [of y bs off] by simp

lemma truncated:
  assumes wf: "wf x" and off: "off \<le> length bs" and short: "length bs < off + length (enc x)"
    and pre: "drop off bs = take (length bs - off) (enc x)"
  shows "\<exists>e. dec bs off = Inl e"
proof (rule ccontr)
  assume "\<nexists>e. dec bs off = Inl e"
  then obtain y off' where "dec bs off = Inr (y, off')"
    by (metis old.sum.exhaust prod.exhaust)
  from dec_sound [OF off this] have y: "wf y" and at: "bytes_at bs off (enc y)"
    by auto
  then have le: "length (enc y) \<le> length bs - off" and "take (length (enc y)) (drop off bs) = enc y"
    by (auto simp: bytes_at_def)
  with pre have "take (length (enc y)) (enc x) = enc y"
    by (simp add: min_def)
  then have "enc x = enc y @ drop (length (enc y)) (enc x)"
    by (metis append_take_drop_id)
  from prefix_free [OF wf y this] have "enc x = enc y" by simp
  with le short off show False by simp
qed

end

section \<open>Counted loops of readers\<close>

text \<open>\<^verbatim>\<open>for _ in 0..n\<close> with a reader as its body: the first error ends the loop.\<close>

fun repeat_dec :: "nat \<Rightarrow> (nat \<Rightarrow> 'e + 'a \<times> nat) \<Rightarrow> nat \<Rightarrow> 'e + 'a list \<times> nat" where
  "repeat_dec 0 d off = Inr ([], off)"
| "repeat_dec (Suc n) d off =
     (case d off of
        Inl e \<Rightarrow> Inl e
      | Inr (x, off1) \<Rightarrow>
          (case repeat_dec n d off1 of
             Inl e \<Rightarrow> Inl e
           | Inr (xs, off2) \<Rightarrow> Inr (x # xs, off2)))"

context codec
begin

lemma repeat_dec_enc:
  "(\<forall>x\<in>set xs. wf x) \<Longrightarrow> bytes_at bs off (concat (map enc xs)) \<Longrightarrow>
   repeat_dec (length xs) (dec bs) off = Inr (xs, off + length (concat (map enc xs)))"
proof (induction xs arbitrary: off)
  case Nil
  then show ?case by simp
next
  case (Cons x xs)
  then have "dec bs off = Inr (x, off + length (enc x))"
    by (simp add: dec_enc)
  with Cons show ?case by (simp add: add.assoc)
qed

lemma repeat_dec_sound:
  "off \<le> length bs \<Longrightarrow> repeat_dec n (dec bs) off = Inr (xs, off') \<Longrightarrow>
   (\<forall>x\<in>set xs. wf x) \<and> length xs = n \<and> off' = off + length (concat (map enc xs)) \<and>
   bytes_at bs off (concat (map enc xs))"
proof (induction n arbitrary: off xs)
  case 0
  then show ?case by simp
next
  case (Suc n)
  from Suc.prems(2) obtain x off1 ys where x: "dec bs off = Inr (x, off1)"
    and ys: "repeat_dec n (dec bs) off1 = Inr (ys, off')" and xs: "xs = x # ys"
    by (auto split: sum.splits)
  from dec_sound [OF Suc.prems(1) x]
  have *: "wf x" "off1 = off + length (enc x)" "bytes_at bs off (enc x)" by auto
  from * have "off1 \<le> length bs" by (simp add: bytes_at_le)
  from Suc.IH [OF this ys] * xs show ?case by (auto simp: add.assoc)
qed

end

section \<open>One-byte enums\<close>

text \<open>
  A Rust \<^verbatim>\<open>repr(u8)\<close> enum is written by its discriminant and read by a partial function; the
  contract is that the two are inverse to each other.
\<close>

locale byte_enum =
  fixes as_u8 :: "'a \<Rightarrow> u8"
    and from_u8 :: "u8 \<Rightarrow> 'a option"
  assumes from_as: "from_u8 (as_u8 x) = Some x"
    and as_from: "from_u8 b = Some x \<Longrightarrow> as_u8 x = b"
begin

lemma as_u8_inj: "inj as_u8"
  by (metis from_as injI option.inject)

lemma from_u8_None: "from_u8 b = None \<longleftrightarrow> b \<notin> range as_u8"
  by (metis as_from from_as not_Some_eq option.distinct(1) rangeE rangeI)

end

text \<open>
  The usual form of \<open>from_u8\<close>, a \<^verbatim>\<open>match\<close> with one literal per variant, is a table; it meets the
  contract when its keys are distinct and it lists every variant under its discriminant.
\<close>

locale code_table =
  fixes table :: "(u8 \<times> 'a) list"
    and as_u8 :: "'a \<Rightarrow> u8"
  assumes keys: "distinct (map fst table)"
    and complete: "x \<in> set (map snd table)"
    and sound: "list_all (\<lambda>(b, x). as_u8 x = b) table"

sublocale code_table \<subseteq> byte_enum as_u8 "map_of table"
proof
  show "map_of table (as_u8 x) = Some x" for x
  proof -
    obtain b where "(b, x) \<in> set table" using complete [of x] by auto
    with sound have "(as_u8 x, x) \<in> set table" by (auto simp: list_all_iff)
    with keys show ?thesis by (rule map_of_is_SomeI)
  qed
  show "as_u8 x = b" if "map_of table b = Some x" for b x
    using sound map_of_SomeD [OF that] by (auto simp: list_all_iff)
qed

section \<open>UTF-8 validation\<close>

text \<open>
  \<^verbatim>\<open>core::str::from_utf8\<close>: the first error is the number of bytes that are valid UTF-8 and the
  length of the ill-formed sequence after them, \<open>None\<close> where the input ends inside a sequence.
\<close>

datatype utf8_error = Utf8Error (valid_up_to: nat) (error_len: "nat option")

definition is_cont :: "u8 \<Rightarrow> bool" where
  "is_cont b \<longleftrightarrow> 0x80 \<le> b \<and> b \<le> 0xBF"

definition second3_ok :: "u8 \<Rightarrow> u8 \<Rightarrow> bool" where
  "second3_ok first b \<longleftrightarrow>
     first = 0xE0 \<and> 0xA0 \<le> b \<and> b \<le> 0xBF \<or>
     0xE1 \<le> first \<and> first \<le> 0xEC \<and> is_cont b \<or>
     first = 0xED \<and> 0x80 \<le> b \<and> b \<le> 0x9F \<or>
     0xEE \<le> first \<and> first \<le> 0xEF \<and> is_cont b"

definition second4_ok :: "u8 \<Rightarrow> u8 \<Rightarrow> bool" where
  "second4_ok first b \<longleftrightarrow>
     first = 0xF0 \<and> 0x90 \<le> b \<and> b \<le> 0xBF \<or>
     0xF1 \<le> first \<and> first \<le> 0xF3 \<and> is_cont b \<or>
     first = 0xF4 \<and> 0x80 \<le> b \<and> b \<le> 0x8F"

fun utf8_check_from :: "nat \<Rightarrow> u8 list \<Rightarrow> utf8_error option" where
  "utf8_check_from i [] = None"
| "utf8_check_from i (b # bs) =
     (if b < 0x80 then utf8_check_from (i + 1) bs
      else if 0xC2 \<le> b \<and> b \<le> 0xDF then
        (case bs of
           [] \<Rightarrow> Some (Utf8Error i None)
         | b1 # r1 \<Rightarrow>
             if \<not> is_cont b1 then Some (Utf8Error i (Some 1)) else utf8_check_from (i + 2) r1)
      else if 0xE0 \<le> b \<and> b \<le> 0xEF then
        (case bs of
           [] \<Rightarrow> Some (Utf8Error i None)
         | b1 # r1 \<Rightarrow>
             if \<not> second3_ok b b1 then Some (Utf8Error i (Some 1))
             else (case r1 of
                     [] \<Rightarrow> Some (Utf8Error i None)
                   | b2 # r2 \<Rightarrow>
                       if \<not> is_cont b2 then Some (Utf8Error i (Some 2))
                       else utf8_check_from (i + 3) r2))
      else if 0xF0 \<le> b \<and> b \<le> 0xF4 then
        (case bs of
           [] \<Rightarrow> Some (Utf8Error i None)
         | b1 # r1 \<Rightarrow>
             if \<not> second4_ok b b1 then Some (Utf8Error i (Some 1))
             else (case r1 of
                     [] \<Rightarrow> Some (Utf8Error i None)
                   | b2 # r2 \<Rightarrow>
                       if \<not> is_cont b2 then Some (Utf8Error i (Some 2))
                       else (case r2 of
                               [] \<Rightarrow> Some (Utf8Error i None)
                             | b3 # r3 \<Rightarrow>
                                 if \<not> is_cont b3 then Some (Utf8Error i (Some 3))
                                 else utf8_check_from (i + 4) r3)))
      else Some (Utf8Error i (Some 1)))"

definition utf8_check :: "u8 list \<Rightarrow> utf8_error option" where
  "utf8_check bs = utf8_check_from 0 bs"

definition utf8_valid :: "u8 list \<Rightarrow> bool" where
  "utf8_valid bs \<longleftrightarrow> utf8_check bs = None"

lemma utf8_check_ascii:
  "(\<forall>b\<in>set bs. b < 0x80) \<Longrightarrow> utf8_check_from i bs = None"
  by (induction bs arbitrary: i) auto

lemma utf8_valid_ascii: "(\<forall>b\<in>set bs. b < 0x80) \<Longrightarrow> utf8_valid bs"
  by (simp add: utf8_valid_def utf8_check_def utf8_check_ascii)

lemma utf8_valid_Nil [simp]: "utf8_valid []"
  by (rule utf8_valid_ascii) simp

section \<open>Readers of the format's atoms\<close>

text \<open>
  The reader pattern of the source for an integer of \<open>k\<close> bytes: \<^verbatim>\<open>if off + k > bytes.len()\<close> is an
  error, otherwise \<^verbatim>\<open>from_le_bytes(bytes[off..off + k])\<close> and \<^verbatim>\<open>off += k\<close>.
\<close>

definition read_le ::
  "nat \<Rightarrow> (u8 list \<Rightarrow> usize \<Rightarrow> 'e) \<Rightarrow> u8 list \<Rightarrow> usize \<Rightarrow> 'e + 'w::len word \<times> usize" where
  "read_le k eof bs off =
     (if length bs < off + k then Inl (eof bs off)
      else Inr (from_le (take k (drop off bs)), off + k))"

definition read_byte :: "(u8 list \<Rightarrow> usize \<Rightarrow> 'e) \<Rightarrow> u8 list \<Rightarrow> usize \<Rightarrow> 'e + u8 \<times> usize" where
  "read_byte eof bs off = (if length bs \<le> off then Inl (eof bs off) else Inr (bs ! off, off + 1))"

definition read_tag ::
  "(u8 list \<Rightarrow> usize \<Rightarrow> 'e) \<Rightarrow> (u8 \<Rightarrow> 'e) \<Rightarrow> (u8 \<Rightarrow> 'a option) \<Rightarrow> u8 list \<Rightarrow> usize \<Rightarrow> 'e + 'a \<times> usize" where
  "read_tag eof unknown from_u8 bs off =
     bind_res (read_byte eof bs off) (\<lambda>(b, off1).
       case from_u8 b of None \<Rightarrow> Inl (unknown b) | Some x \<Rightarrow> Inr (x, off1))"

definition read_utf8 ::
  "(u8 list \<Rightarrow> usize \<Rightarrow> 'e) \<Rightarrow> (utf8_error \<Rightarrow> u8 list \<Rightarrow> usize \<Rightarrow> 'e) \<Rightarrow> nat \<Rightarrow>
     u8 list \<Rightarrow> usize \<Rightarrow> 'e + rstring \<times> usize" where
  "read_utf8 eof bad len bs off =
     (if length bs < off + len then Inl (eof bs off)
      else case utf8_check (take len (drop off bs)) of
             Some e \<Rightarrow> Inl (bad e bs off)
           | None \<Rightarrow> Inr (take len (drop off bs), off + len))"

lemma codec_read_le:
  assumes "LENGTH('w::len) = 8 * k"
  shows "codec (to_le k :: 'w word \<Rightarrow> u8 list) (read_le k eof) (\<lambda>_. True)"
proof
  show "read_le k eof bs off = Inr (x, off + length (to_le k x))"
    if "bytes_at bs off (to_le k x)" for x :: "'w word" and bs off
    using that assms by (auto simp: read_le_def bytes_at_def)
  show "True \<and> off' = off + length (to_le k x) \<and> bytes_at bs off (to_le k x)"
    if "off \<le> length bs" and "read_le k eof bs off = Inr (x, off')" for x :: "'w word" and bs off off'
    using that assms to_le_from_le [of "take k (drop off bs)", where 'w = 'w]
    by (auto simp: read_le_def bytes_at_def split: if_splits)
qed

lemma codec_read_byte: "codec (\<lambda>b. [b]) (read_byte eof) (\<lambda>_. True)"
  by standard (auto simp: read_byte_def bytes_at_Cons split: if_splits)

context byte_enum
begin

lemma codec_read_tag: "codec (\<lambda>x. [as_u8 x]) (read_tag eof unknown from_u8) (\<lambda>_. True)"
  by standard
    (auto simp: read_tag_def read_byte_def bytes_at_Cons from_as bind_res_Inr
      dest: as_from split: if_splits option.splits)

end

lemma codec_string:
  assumes "codec (to_le4 :: u32 \<Rightarrow> u8 list) rd (\<lambda>_. True)"
  shows "codec (\<lambda>s. to_le4 (of_nat (length s)) @ s)
    (\<lambda>bs off. bind_res (rd bs off) (\<lambda>(len, off1). read_utf8 eof bad (unat len) bs off1))
    (\<lambda>s. utf8_valid s \<and> length s < 2 ^ 32)"
proof
  show "bind_res (rd bs off) (\<lambda>(len, off1). read_utf8 eof bad (unat len) bs off1) =
      Inr (s, off + length (to_le4 (of_nat (length s)) @ s))"
    if "utf8_valid s \<and> length s < 2 ^ 32" and "bytes_at bs off (to_le4 (of_nat (length s)) @ s)"
    for s bs off
  proof -
    from that have "rd bs off = Inr (of_nat (length s), off + length (to_le4 (of_nat (length s))))"
      and "bytes_at bs (off + length (to_le4 (of_nat (length s)))) s"
      by (simp_all add: codec.dec_enc [OF assms])
    with that(1) show ?thesis
      by (auto simp: read_utf8_def utf8_valid_def bytes_at_def unsigned_of_nat take_bit_nat_eq_self)
  qed
  show "(utf8_valid s \<and> length s < 2 ^ 32) \<and>
      off' = off + length (to_le4 (of_nat (length s)) @ s) \<and>
      bytes_at bs off (to_le4 (of_nat (length s)) @ s)"
    if "off \<le> length bs"
      and "bind_res (rd bs off) (\<lambda>(len, off1). read_utf8 eof bad (unat len) bs off1) = Inr (s, off')"
    for s bs off off'
  proof -
    from that(2) obtain len off1 where rd: "rd bs off = Inr (len, off1)"
      and body: "read_utf8 eof bad (unat len) bs off1 = Inr (s, off')"
      by (auto simp: bind_res_Inr)
    note len = codec.dec_sound [OF assms that(1) rd]
    from body have s: "s = take (unat len) (drop off1 bs)" "off' = off1 + unat len" "utf8_valid s"
      and le: "off1 + unat len \<le> length bs"
      by (auto simp: read_utf8_def utf8_valid_def split: if_splits option.splits)
    then have "length s = unat len" by simp
    have "unat len < 2 ^ LENGTH(32)" by (rule unsigned_less)
    with \<open>length s = unat len\<close> have "of_nat (length s) = len" and "length s < 2 ^ 32" by auto
    moreover from s le have "bytes_at bs off1 s" by (auto simp: bytes_at_def)
    ultimately show ?thesis using len s(2,3) \<open>length s = unat len\<close> by simp
  qed
qed

section \<open>Counted lists\<close>

text \<open>A list is written as its length, as a \<^verbatim>\<open>u32\<close>, and its elements.\<close>

definition read_counted ::
  "(u8 list \<Rightarrow> usize \<Rightarrow> 'e + u32 \<times> usize) \<Rightarrow> (u8 list \<Rightarrow> usize \<Rightarrow> 'e + 'a \<times> usize) \<Rightarrow>
     u8 list \<Rightarrow> usize \<Rightarrow> 'e + 'a list \<times> usize" where
  "read_counted rd dec bs off =
     bind_res (rd bs off) (\<lambda>(n, off1). repeat_dec (unat n) (dec bs) off1)"

lemma codec_counted:
  assumes elem: "codec enc dec ok" and count: "codec wr rd (\<lambda>_ :: u32. True)"
  shows "codec (\<lambda>xs. wr (of_nat (length xs)) @ concat (map enc xs)) (read_counted rd dec)
    (\<lambda>xs. (\<forall>x\<in>set xs. ok x) \<and> length xs < 2 ^ 32)"
proof
  show "read_counted rd dec bs off =
      Inr (xs, off + length (wr (of_nat (length xs)) @ concat (map enc xs)))"
    if "(\<forall>x\<in>set xs. ok x) \<and> length xs < 2 ^ 32"
      and "bytes_at bs off (wr (of_nat (length xs)) @ concat (map enc xs))" for xs bs off
    using that codec.dec_enc [OF count TrueI, of bs off "of_nat (length xs)"]
      codec.repeat_dec_enc [OF elem, of xs bs "off + length (wr (of_nat (length xs)))"]
    by (simp add: read_counted_def unsigned_of_nat take_bit_nat_eq_self)
  show "((\<forall>x\<in>set xs. ok x) \<and> length xs < 2 ^ 32) \<and>
      off' = off + length (wr (of_nat (length xs)) @ concat (map enc xs)) \<and>
      bytes_at bs off (wr (of_nat (length xs)) @ concat (map enc xs))"
    if off: "off \<le> length bs" and "read_counted rd dec bs off = Inr (xs, off')" for xs bs off off'
  proof -
    from that(2) obtain n off1 where n: "rd bs off = Inr (n, off1)"
      and xs: "repeat_dec (unat n) (dec bs) off1 = Inr (xs, off')"
      by (auto simp: read_counted_def bind_res_Inr)
    note count_ok = codec.dec_sound [OF count off n]
    note xs_ok = codec.repeat_dec_sound [OF elem codec.dec_off_le [OF count off n] xs]
    then have "of_nat (length xs) = n" and "length xs < 2 ^ 32"
      using unsigned_less [of n, where 'a = nat] by auto
    with count_ok xs_ok show ?thesis by (simp add: add.assoc)
  qed
qed

end
