(* ===== verification/Host_Ops.thy ===== *)
theory Host_Ops
  imports Codec
begin

text \<open>
  The host-operation enums of \<^verbatim>\<open>crates/arth-vm/src/ops.rs\<close> for files, network, time and crypto.
  Each enum is a datatype with the source's constructors, \<open>as_u8\<close> is the discriminant
  (\<^verbatim>\<open>op as u8\<close>, \<^verbatim>\<open>repr(u8)\<close>) and \<open>from_u8\<close> the separately written decoding table; the
  interpretations of \<open>byte_enum\<close> show that the two tables agree.
\<close>

section \<open>\<^verbatim>\<open>HostIoOp\<close>\<close>

datatype (plugins only: code size) host_io_op =
  FileOpen | FileClose | FileRead | FileWrite | FileWriteStr | FileFlush | FileSeek |
  FileSize | FileExists | FileDelete | FileCopy | FileMove | DirCreate | DirCreateAll |
  DirDelete | DirList | DirExists | IsDir | IsFile | PathAbsolute | ConsoleReadLine |
  ConsoleWrite | ConsoleWriteErr

primrec host_io_op_as_u8 :: "host_io_op \<Rightarrow> u8" where
  "host_io_op_as_u8 FileOpen = 0"
| "host_io_op_as_u8 FileClose = 1"
| "host_io_op_as_u8 FileRead = 2"
| "host_io_op_as_u8 FileWrite = 3"
| "host_io_op_as_u8 FileWriteStr = 4"
| "host_io_op_as_u8 FileFlush = 5"
| "host_io_op_as_u8 FileSeek = 6"
| "host_io_op_as_u8 FileSize = 7"
| "host_io_op_as_u8 FileExists = 8"
| "host_io_op_as_u8 FileDelete = 9"
| "host_io_op_as_u8 FileCopy = 10"
| "host_io_op_as_u8 FileMove = 11"
| "host_io_op_as_u8 DirCreate = 20"
| "host_io_op_as_u8 DirCreateAll = 21"
| "host_io_op_as_u8 DirDelete = 22"
| "host_io_op_as_u8 DirList = 23"
| "host_io_op_as_u8 DirExists = 24"
| "host_io_op_as_u8 IsDir = 25"
| "host_io_op_as_u8 IsFile = 26"
| "host_io_op_as_u8 PathAbsolute = 30"
| "host_io_op_as_u8 ConsoleReadLine = 40"
| "host_io_op_as_u8 ConsoleWrite = 41"
| "host_io_op_as_u8 ConsoleWriteErr = 42"

definition host_io_op_table :: "(u8 \<times> host_io_op) list" where
  "host_io_op_table =
    [(0, FileOpen), (1, FileClose), (2, FileRead), (3, FileWrite), (4, FileWriteStr),
     (5, FileFlush), (6, FileSeek), (7, FileSize), (8, FileExists), (9, FileDelete),
     (10, FileCopy), (11, FileMove), (20, DirCreate), (21, DirCreateAll), (22, DirDelete),
     (23, DirList), (24, DirExists), (25, IsDir), (26, IsFile), (30, PathAbsolute),
     (40, ConsoleReadLine), (41, ConsoleWrite), (42, ConsoleWriteErr)]"

definition host_io_op_from_u8 :: "u8 \<Rightarrow> host_io_op option" where
  "host_io_op_from_u8 v = map_of host_io_op_table v"

lemma host_io_op_table_keys: "distinct (map fst host_io_op_table)"
  by (rule distinct_unat_keys) (simp add: host_io_op_table_def)

lemma host_io_op_table_complete: "x \<in> set (map snd host_io_op_table)"
  by (cases x) (simp_all add: host_io_op_table_def)

lemma host_io_op_table_sound: "list_all (\<lambda>(b, x). host_io_op_as_u8 x = b) host_io_op_table"
  by (simp add: host_io_op_table_def)

interpretation host_io_op_tbl: code_table host_io_op_table host_io_op_as_u8
  by unfold_locales (rule host_io_op_table_keys host_io_op_table_complete host_io_op_table_sound)+

interpretation host_io_op: byte_enum host_io_op_as_u8 host_io_op_from_u8
  unfolding host_io_op_from_u8_def [abs_def] by (rule host_io_op_tbl.byte_enum_axioms)

section \<open>\<^verbatim>\<open>HostNetOp\<close>\<close>

datatype (plugins only: code size) host_net_op =
  HttpFetch | HttpServe | HttpAccept | HttpRespond | WsServe | WsAccept | WsSendText |
  WsSendBinary | WsRecv | WsClose | WsIsOpen | SseServe | SseAccept | SseSend | SseClose |
  SseIsOpen

primrec host_net_op_as_u8 :: "host_net_op \<Rightarrow> u8" where
  "host_net_op_as_u8 HttpFetch = 0"
| "host_net_op_as_u8 HttpServe = 1"
| "host_net_op_as_u8 HttpAccept = 2"
| "host_net_op_as_u8 HttpRespond = 3"
| "host_net_op_as_u8 WsServe = 10"
| "host_net_op_as_u8 WsAccept = 11"
| "host_net_op_as_u8 WsSendText = 12"
| "host_net_op_as_u8 WsSendBinary = 13"
| "host_net_op_as_u8 WsRecv = 14"
| "host_net_op_as_u8 WsClose = 15"
| "host_net_op_as_u8 WsIsOpen = 16"
| "host_net_op_as_u8 SseServe = 20"
| "host_net_op_as_u8 SseAccept = 21"
| "host_net_op_as_u8 SseSend = 22"
| "host_net_op_as_u8 SseClose = 23"
| "host_net_op_as_u8 SseIsOpen = 24"

definition host_net_op_table :: "(u8 \<times> host_net_op) list" where
  "host_net_op_table =
    [(0, HttpFetch), (1, HttpServe), (2, HttpAccept), (3, HttpRespond), (10, WsServe),
     (11, WsAccept), (12, WsSendText), (13, WsSendBinary), (14, WsRecv), (15, WsClose),
     (16, WsIsOpen), (20, SseServe), (21, SseAccept), (22, SseSend), (23, SseClose),
     (24, SseIsOpen)]"

definition host_net_op_from_u8 :: "u8 \<Rightarrow> host_net_op option" where
  "host_net_op_from_u8 v = map_of host_net_op_table v"

lemma host_net_op_table_keys: "distinct (map fst host_net_op_table)"
  by (rule distinct_unat_keys) (simp add: host_net_op_table_def)

lemma host_net_op_table_complete: "x \<in> set (map snd host_net_op_table)"
  by (cases x) (simp_all add: host_net_op_table_def)

lemma host_net_op_table_sound: "list_all (\<lambda>(b, x). host_net_op_as_u8 x = b) host_net_op_table"
  by (simp add: host_net_op_table_def)

interpretation host_net_op_tbl: code_table host_net_op_table host_net_op_as_u8
  by unfold_locales (rule host_net_op_table_keys host_net_op_table_complete host_net_op_table_sound)+

interpretation host_net_op: byte_enum host_net_op_as_u8 host_net_op_from_u8
  unfolding host_net_op_from_u8_def [abs_def] by (rule host_net_op_tbl.byte_enum_axioms)

section \<open>\<^verbatim>\<open>HostTimeOp\<close>\<close>

datatype (plugins only: code size) host_time_op =
  DateTimeNow | DateTimeParse | DateTimeFormat | InstantNow | InstantElapsed | Sleep

primrec host_time_op_as_u8 :: "host_time_op \<Rightarrow> u8" where
  "host_time_op_as_u8 DateTimeNow = 0"
| "host_time_op_as_u8 DateTimeParse = 1"
| "host_time_op_as_u8 DateTimeFormat = 2"
| "host_time_op_as_u8 InstantNow = 10"
| "host_time_op_as_u8 InstantElapsed = 11"
| "host_time_op_as_u8 Sleep = 20"

definition host_time_op_table :: "(u8 \<times> host_time_op) list" where
  "host_time_op_table =
    [(0, DateTimeNow), (1, DateTimeParse), (2, DateTimeFormat), (10, InstantNow),
     (11, InstantElapsed), (20, Sleep)]"

definition host_time_op_from_u8 :: "u8 \<Rightarrow> host_time_op option" where
  "host_time_op_from_u8 v = map_of host_time_op_table v"

lemma host_time_op_table_keys: "distinct (map fst host_time_op_table)"
  by (rule distinct_unat_keys) (simp add: host_time_op_table_def)

lemma host_time_op_table_complete: "x \<in> set (map snd host_time_op_table)"
  by (cases x) (simp_all add: host_time_op_table_def)

lemma host_time_op_table_sound: "list_all (\<lambda>(b, x). host_time_op_as_u8 x = b) host_time_op_table"
  by (simp add: host_time_op_table_def)

interpretation host_time_op_tbl: code_table host_time_op_table host_time_op_as_u8
  by unfold_locales (rule host_time_op_table_keys host_time_op_table_complete host_time_op_table_sound)+

interpretation host_time_op: byte_enum host_time_op_as_u8 host_time_op_from_u8
  unfolding host_time_op_from_u8_def [abs_def] by (rule host_time_op_tbl.byte_enum_axioms)

section \<open>\<^verbatim>\<open>HostCryptoOp\<close>\<close>

datatype (plugins only: size) host_crypto_op =
  SecureAlloc | SecureFree | SecurePtr | SecureLen | SecureWrite | SecureRead | SecureZero |
  SecureCompare | Hash | HasherNew | HasherUpdate | HasherFinalize | Hmac | HmacNew |
  HmacUpdate | HmacFinalize | HmacVerify | AeadGenerateNonce | AeadEncrypt | AeadDecrypt |
  SignatureGenerateKeypair | SignatureDerivePublicKey | SignatureSign | SignatureVerify |
  SignatureSignHash | SignatureVerifyHash | KexGenerateKeypair | KexAgree | KexAgreeWithKdf |
  KdfHkdf | KdfPbkdf2 | KdfArgon2 | PasswordHashBcrypt | PasswordHashArgon2 | PasswordVerify |
  RandomBytes | RandomSalt | EncodingToHex | EncodingFromHex | EncodingToBase64 |
  EncodingFromBase64 | EncodingToBase64Url | EncodingFromBase64Url | NonceTrackingEnable |
  NonceCheck | NonceMarkUsed | NonceCheckAndMark | NonceClear

primrec host_crypto_op_as_u8 :: "host_crypto_op \<Rightarrow> u8" where
  "host_crypto_op_as_u8 SecureAlloc = 0"
| "host_crypto_op_as_u8 SecureFree = 1"
| "host_crypto_op_as_u8 SecurePtr = 2"
| "host_crypto_op_as_u8 SecureLen = 3"
| "host_crypto_op_as_u8 SecureWrite = 4"
| "host_crypto_op_as_u8 SecureRead = 5"
| "host_crypto_op_as_u8 SecureZero = 6"
| "host_crypto_op_as_u8 SecureCompare = 7"
| "host_crypto_op_as_u8 Hash = 10"
| "host_crypto_op_as_u8 HasherNew = 11"
| "host_crypto_op_as_u8 HasherUpdate = 12"
| "host_crypto_op_as_u8 HasherFinalize = 13"
| "host_crypto_op_as_u8 Hmac = 20"
| "host_crypto_op_as_u8 HmacNew = 21"
| "host_crypto_op_as_u8 HmacUpdate = 22"
| "host_crypto_op_as_u8 HmacFinalize = 23"
| "host_crypto_op_as_u8 HmacVerify = 24"
| "host_crypto_op_as_u8 AeadGenerateNonce = 30"
| "host_crypto_op_as_u8 AeadEncrypt = 31"
| "host_crypto_op_as_u8 AeadDecrypt = 32"
| "host_crypto_op_as_u8 SignatureGenerateKeypair = 40"
| "host_crypto_op_as_u8 SignatureDerivePublicKey = 41"
| "host_crypto_op_as_u8 SignatureSign = 42"
| "host_crypto_op_as_u8 SignatureVerify = 43"
| "host_crypto_op_as_u8 SignatureSignHash = 44"
| "host_crypto_op_as_u8 SignatureVerifyHash = 45"
| "host_crypto_op_as_u8 KexGenerateKeypair = 50"
| "host_crypto_op_as_u8 KexAgree = 51"
| "host_crypto_op_as_u8 KexAgreeWithKdf = 52"
| "host_crypto_op_as_u8 KdfHkdf = 60"
| "host_crypto_op_as_u8 KdfPbkdf2 = 61"
| "host_crypto_op_as_u8 KdfArgon2 = 62"
| "host_crypto_op_as_u8 PasswordHashBcrypt = 70"
| "host_crypto_op_as_u8 PasswordHashArgon2 = 71"
| "host_crypto_op_as_u8 PasswordVerify = 72"
| "host_crypto_op_as_u8 RandomBytes = 80"
| "host_crypto_op_as_u8 RandomSalt = 81"
| "host_crypto_op_as_u8 EncodingToHex = 90"
| "host_crypto_op_as_u8 EncodingFromHex = 91"
| "host_crypto_op_as_u8 EncodingToBase64 = 92"
| "host_crypto_op_as_u8 EncodingFromBase64 = 93"
| "host_crypto_op_as_u8 EncodingToBase64Url = 94"
| "host_crypto_op_as_u8 EncodingFromBase64Url = 95"
| "host_crypto_op_as_u8 NonceTrackingEnable = 100"
| "host_crypto_op_as_u8 NonceCheck = 101"
| "host_crypto_op_as_u8 NonceMarkUsed = 102"
| "host_crypto_op_as_u8 NonceCheckAndMark = 103"
| "host_crypto_op_as_u8 NonceClear = 104"

definition host_crypto_op_table :: "(u8 \<times> host_crypto_op) list" where
  "host_crypto_op_table =
    [(0, SecureAlloc), (1, SecureFree), (2, SecurePtr), (3, SecureLen), (4, SecureWrite),
     (5, SecureRead), (6, SecureZero), (7, SecureCompare), (10, Hash), (11, HasherNew),
     (12, HasherUpdate), (13, HasherFinalize), (20, Hmac), (21, HmacNew), (22, HmacUpdate),
     (23, HmacFinalize), (24, HmacVerify), (30, AeadGenerateNonce), (31, AeadEncrypt),
     (32, AeadDecrypt), (40, SignatureGenerateKeypair), (41, SignatureDerivePublicKey),
     (42, SignatureSign), (43, SignatureVerify), (44, SignatureSignHash),
     (45, SignatureVerifyHash), (50, KexGenerateKeypair), (51, KexAgree),
     (52, KexAgreeWithKdf), (60, KdfHkdf), (61, KdfPbkdf2), (62, KdfArgon2),
     (70, PasswordHashBcrypt), (71, PasswordHashArgon2), (72, PasswordVerify),
     (80, RandomBytes), (81, RandomSalt), (90, EncodingToHex), (91, EncodingFromHex),
     (92, EncodingToBase64), (93, EncodingFromBase64), (94, EncodingToBase64Url),
     (95, EncodingFromBase64Url), (100, NonceTrackingEnable), (101, NonceCheck),
     (102, NonceMarkUsed), (103, NonceCheckAndMark), (104, NonceClear)]"

definition host_crypto_op_from_u8 :: "u8 \<Rightarrow> host_crypto_op option" where
  "host_crypto_op_from_u8 v = map_of host_crypto_op_table v"

lemma host_crypto_op_table_keys: "distinct (map fst host_crypto_op_table)"
  by (rule distinct_unat_keys) (simp add: host_crypto_op_table_def)

lemma host_crypto_op_table_complete: "x \<in> set (map snd host_crypto_op_table)"
  by (cases x) (simp_all add: host_crypto_op_table_def)

lemma host_crypto_op_table_sound: "list_all (\<lambda>(b, x). host_crypto_op_as_u8 x = b) host_crypto_op_table"
  by (simp add: host_crypto_op_table_def)

interpretation host_crypto_op_tbl: code_table host_crypto_op_table host_crypto_op_as_u8
  by unfold_locales (rule host_crypto_op_table_keys host_crypto_op_table_complete host_crypto_op_table_sound)+

interpretation host_crypto_op: byte_enum host_crypto_op_as_u8 host_crypto_op_from_u8
  unfolding host_crypto_op_from_u8_def [abs_def] by (rule host_crypto_op_tbl.byte_enum_axioms)

instantiation host_crypto_op :: equal
begin

definition equal_host_crypto_op :: "host_crypto_op \<Rightarrow> host_crypto_op \<Rightarrow> bool" where
  "equal_host_crypto_op x y \<longleftrightarrow> host_crypto_op_as_u8 x = host_crypto_op_as_u8 y"

instance
  by standard (auto simp: equal_host_crypto_op_def dest: injD [OF host_crypto_op.as_u8_inj])

end

end
