(* ===== verification/Host_Db_Ops.thy ===== *)
theory Host_Db_Ops
  imports Codec
begin

text \<open>
  The database operations \<^verbatim>\<open>HostDbOp\<close> of \<^verbatim>\<open>crates/arth-vm/src/ops.rs\<close>.
  Each enum is a datatype with the source's constructors, \<open>as_u8\<close> is the discriminant
  (\<^verbatim>\<open>op as u8\<close>, \<^verbatim>\<open>repr(u8)\<close>) and \<open>from_u8\<close> the separately written decoding table; the
  interpretations of \<open>byte_enum\<close> show that the two tables agree.
\<close>

section \<open>\<^verbatim>\<open>HostDbOp\<close>\<close>

datatype (plugins only: size) host_db_op =
  SqliteOpen | SqliteClose | SqlitePrepare | SqliteStep | SqliteFinalize | SqliteReset |
  SqliteBindInt | SqliteBindInt64 | SqliteBindDouble | SqliteBindText | SqliteBindBlob |
  SqliteBindNull | SqliteColumnInt | SqliteColumnInt64 | SqliteColumnDouble |
  SqliteColumnText | SqliteColumnBlob | SqliteColumnType | SqliteColumnCount |
  SqliteColumnName | SqliteIsNull | SqliteChanges | SqliteLastInsertRowid | SqliteErrmsg |
  SqliteBegin | SqliteCommit | SqliteRollback | SqliteSavepoint | SqliteReleaseSavepoint |
  SqliteRollbackToSavepoint | SqliteQuery | SqliteExecute | PgConnect | PgDisconnect |
  PgStatus | PgQuery | PgExecute | PgPrepare | PgExecutePrepared | PgRowCount | PgColumnCount |
  PgColumnName | PgColumnType | PgGetValue | PgGetInt | PgGetInt64 | PgGetDouble | PgGetText |
  PgGetBytes | PgGetBool | PgIsNull | PgAffectedRows | PgBegin | PgCommit | PgRollback |
  PgSavepoint | PgReleaseSavepoint | PgRollbackToSavepoint | PgErrmsg | PgEscape |
  PgFreeResult | PgConnectAsync | PgDisconnectAsync | PgStatusAsync | PgQueryAsync |
  PgExecuteAsync | PgPrepareAsync | PgExecutePreparedAsync | PgIsReady | PgGetAsyncResult |
  PgCancelAsync | PgBeginAsync | PgCommitAsync | PgRollbackAsync | SqlitePoolCreate |
  SqlitePoolClose | SqlitePoolAcquire | SqlitePoolRelease | SqlitePoolStats | PgPoolCreate |
  PgPoolClose | PgPoolAcquire | PgPoolRelease | PgPoolStats | SqliteTxScopeBegin |
  SqliteTxScopeEnd | SqliteTxDepth | SqliteTxActive | PgTxScopeBegin | PgTxScopeEnd |
  PgTxDepth | PgTxActive

primrec host_db_op_as_u8 :: "host_db_op \<Rightarrow> u8" where
  "host_db_op_as_u8 SqliteOpen = 0"
| "host_db_op_as_u8 SqliteClose = 1"
| "host_db_op_as_u8 SqlitePrepare = 10"
| "host_db_op_as_u8 SqliteStep = 11"
| "host_db_op_as_u8 SqliteFinalize = 12"
| "host_db_op_as_u8 SqliteReset = 13"
| "host_db_op_as_u8 SqliteBindInt = 20"
| "host_db_op_as_u8 SqliteBindInt64 = 21"
| "host_db_op_as_u8 SqliteBindDouble = 22"
| "host_db_op_as_u8 SqliteBindText = 23"
| "host_db_op_as_u8 SqliteBindBlob = 24"
| "host_db_op_as_u8 SqliteBindNull = 25"
| "host_db_op_as_u8 SqliteColumnInt = 30"
| "host_db_op_as_u8 SqliteColumnInt64 = 31"
| "host_db_op_as_u8 SqliteColumnDouble = 32"
| "host_db_op_as_u8 SqliteColumnText = 33"
| "host_db_op_as_u8 SqliteColumnBlob = 34"
| "host_db_op_as_u8 SqliteColumnType = 35"
| "host_db_op_as_u8 SqliteColumnCount = 36"
| "host_db_op_as_u8 SqliteColumnName = 37"
| "host_db_op_as_u8 SqliteIsNull = 38"
| "host_db_op_as_u8 SqliteChanges = 40"
| "host_db_op_as_u8 SqliteLastInsertRowid = 41"
| "host_db_op_as_u8 SqliteErrmsg = 42"
| "host_db_op_as_u8 SqliteBegin = 50"
| "host_db_op_as_u8 SqliteCommit = 51"
| "host_db_op_as_u8 SqliteRollback = 52"
| "host_db_op_as_u8 SqliteSavepoint = 53"
| "host_db_op_as_u8 SqliteReleaseSavepoint = 54"
| "host_db_op_as_u8 SqliteRollbackToSavepoint = 55"
| "host_db_op_as_u8 SqliteQuery = 60"
| "host_db_op_as_u8 SqliteExecute = 61"
| "host_db_op_as_u8 PgConnect = 100"
| "host_db_op_as_u8 PgDisconnect = 101"
| "host_db_op_as_u8 PgStatus = 102"
| "host_db_op_as_u8 PgQuery = 110"
| "host_db_op_as_u8 PgExecute = 111"
| "host_db_op_as_u8 PgPrepare = 112"
| "host_db_op_as_u8 PgExecutePrepared = 113"
| "host_db_op_as_u8 PgRowCount = 120"
| "host_db_op_as_u8 PgColumnCount = 121"
| "host_db_op_as_u8 PgColumnName = 122"
| "host_db_op_as_u8 PgColumnType = 123"
| "host_db_op_as_u8 PgGetValue = 124"
| "host_db_op_as_u8 PgGetInt = 125"
| "host_db_op_as_u8 PgGetInt64 = 126"
| "host_db_op_as_u8 PgGetDouble = 127"
| "host_db_op_as_u8 PgGetText = 128"
| "host_db_op_as_u8 PgGetBytes = 129"
| "host_db_op_as_u8 PgGetBool = 130"
| "host_db_op_as_u8 PgIsNull = 131"
| "host_db_op_as_u8 PgAffectedRows = 132"
| "host_db_op_as_u8 PgBegin = 140"
| "host_db_op_as_u8 PgCommit = 141"
| "host_db_op_as_u8 PgRollback = 142"
| "host_db_op_as_u8 PgSavepoint = 143"
| "host_db_op_as_u8 PgReleaseSavepoint = 144"
| "host_db_op_as_u8 PgRollbackToSavepoint = 145"
| "host_db_op_as_u8 PgErrmsg = 150"
| "host_db_op_as_u8 PgEscape = 151"
| "host_db_op_as_u8 PgFreeResult = 152"
| "host_db_op_as_u8 PgConnectAsync = 160"
| "host_db_op_as_u8 PgDisconnectAsync = 161"
| "host_db_op_as_u8 PgStatusAsync = 162"
| "host_db_op_as_u8 PgQueryAsync = 165"
| "host_db_op_as_u8 PgExecuteAsync = 166"
| "host_db_op_as_u8 PgPrepareAsync = 167"
| "host_db_op_as_u8 PgExecutePreparedAsync = 168"
| "host_db_op_as_u8 PgIsReady = 175"
| "host_db_op_as_u8 PgGetAsyncResult = 176"
| "host_db_op_as_u8 PgCancelAsync = 177"
| "host_db_op_as_u8 PgBeginAsync = 180"
| "host_db_op_as_u8 PgCommitAsync = 181"
| "host_db_op_as_u8 PgRollbackAsync = 182"
| "host_db_op_as_u8 SqlitePoolCreate = 190"
| "host_db_op_as_u8 SqlitePoolClose = 191"
| "host_db_op_as_u8 SqlitePoolAcquire = 192"
| "host_db_op_as_u8 SqlitePoolRelease = 193"
| "host_db_op_as_u8 SqlitePoolStats = 194"
| "host_db_op_as_u8 PgPoolCreate = 200"
| "host_db_op_as_u8 PgPoolClose = 201"
| "host_db_op_as_u8 PgPoolAcquire = 202"
| "host_db_op_as_u8 PgPoolRelease = 203"
| "host_db_op_as_u8 PgPoolStats = 204"
| "host_db_op_as_u8 SqliteTxScopeBegin = 210"
| "host_db_op_as_u8 SqliteTxScopeEnd = 211"
| "host_db_op_as_u8 SqliteTxDepth = 212"
| "host_db_op_as_u8 SqliteTxActive = 213"
| "host_db_op_as_u8 PgTxScopeBegin = 220"
| "host_db_op_as_u8 PgTxScopeEnd = 221"
| "host_db_op_as_u8 PgTxDepth = 222"
| "host_db_op_as_u8 PgTxActive = 223"

definition host_db_op_table :: "(u8 \<times> host_db_op) list" where
  "host_db_op_table =
    [(0, SqliteOpen), (1, SqliteClose), (10, SqlitePrepare), (11, SqliteStep),
     (12, SqliteFinalize), (13, SqliteReset), (20, SqliteBindInt), (21, SqliteBindInt64),
     (22, SqliteBindDouble), (23, SqliteBindText), (24, SqliteBindBlob), (25, SqliteBindNull),
     (30, SqliteColumnInt), (31, SqliteColumnInt64), (32, SqliteColumnDouble),
     (33, SqliteColumnText), (34, SqliteColumnBlob), (35, SqliteColumnType),
     (36, SqliteColumnCount), (37, SqliteColumnName), (38, SqliteIsNull), (40, SqliteChanges),
     (41, SqliteLastInsertRowid), (42, SqliteErrmsg), (50, SqliteBegin), (51, SqliteCommit),
     (52, SqliteRollback), (53, SqliteSavepoint), (54, SqliteReleaseSavepoint),
     (55, SqliteRollbackToSavepoint), (60, SqliteQuery), (61, SqliteExecute), (100, PgConnect),
     (101, PgDisconnect), (102, PgStatus), (110, PgQuery), (111, PgExecute), (112, PgPrepare),
     (113, PgExecutePrepared), (120, PgRowCount), (121, PgColumnCount), (122, PgColumnName),
     (123, PgColumnType), (124, PgGetValue), (125, PgGetInt), (126, PgGetInt64),
     (127, PgGetDouble), (128, PgGetText), (129, PgGetBytes), (130, PgGetBool),
     (131, PgIsNull), (132, PgAffectedRows), (140, PgBegin), (141, PgCommit),
     (142, PgRollback), (143, PgSavepoint), (144, PgReleaseSavepoint),
     (145, PgRollbackToSavepoint), (150, PgErrmsg), (151, PgEscape), (152, PgFreeResult),
     (160, PgConnectAsync), (161, PgDisconnectAsync), (162, PgStatusAsync),
     (165, PgQueryAsync), (166, PgExecuteAsync), (167, PgPrepareAsync),
     (168, PgExecutePreparedAsync), (175, PgIsReady), (176, PgGetAsyncResult),
     (177, PgCancelAsync), (180, PgBeginAsync), (181, PgCommitAsync), (182, PgRollbackAsync),
     (190, SqlitePoolCreate), (191, SqlitePoolClose), (192, SqlitePoolAcquire),
     (193, SqlitePoolRelease), (194, SqlitePoolStats), (200, PgPoolCreate), (201, PgPoolClose),
     (202, PgPoolAcquire), (203, PgPoolRelease), (204, PgPoolStats), (210, SqliteTxScopeBegin),
     (211, SqliteTxScopeEnd), (212, SqliteTxDepth), (213, SqliteTxActive),
     (220, PgTxScopeBegin), (221, PgTxScopeEnd), (222, PgTxDepth), (223, PgTxActive)]"

definition host_db_op_from_u8 :: "u8 \<Rightarrow> host_db_op option" where
  "host_db_op_from_u8 v = map_of host_db_op_table v"

lemma host_db_op_table_keys: "distinct (map fst host_db_op_table)"
  by (rule distinct_unat_keys) (simp add: host_db_op_table_def)

lemma host_db_op_table_complete: "x \<in> set (map snd host_db_op_table)"
  by (cases x) (simp_all add: host_db_op_table_def)

lemma host_db_op_table_sound: "list_all (\<lambda>(b, x). host_db_op_as_u8 x = b) host_db_op_table"
  by (simp add: host_db_op_table_def)

interpretation host_db_op_tbl: code_table host_db_op_table host_db_op_as_u8
  by unfold_locales (rule host_db_op_table_keys host_db_op_table_complete host_db_op_table_sound)+

interpretation host_db_op: byte_enum host_db_op_as_u8 host_db_op_from_u8
  unfolding host_db_op_from_u8_def [abs_def] by (rule host_db_op_tbl.byte_enum_axioms)

instantiation host_db_op :: equal
begin

definition equal_host_db_op :: "host_db_op \<Rightarrow> host_db_op \<Rightarrow> bool" where
  "equal_host_db_op x y \<longleftrightarrow> host_db_op_as_u8 x = host_db_op_as_u8 y"

instance
  by standard (auto simp: equal_host_db_op_def dest: injD [OF host_db_op.as_u8_inj])

end

end
