(* ===== verification/Host_Mail_Ops.thy ===== *)
theory Host_Mail_Ops
  imports Codec
begin

text \<open>
  The mail operations \<^verbatim>\<open>HostMailOp\<close> of \<^verbatim>\<open>crates/arth-vm/src/ops.rs\<close>.
  Each enum is a datatype with the source's constructors, \<open>as_u8\<close> is the discriminant
  (\<^verbatim>\<open>op as u8\<close>, \<^verbatim>\<open>repr(u8)\<close>) and \<open>from_u8\<close> the separately written decoding table; the
  interpretations of \<open>byte_enum\<close> show that the two tables agree.
\<close>

section \<open>\<^verbatim>\<open>HostMailOp\<close>\<close>

datatype (plugins only: size) host_mail_op =
  SmtpConnect | SmtpStartTls | SmtpAuth | SmtpEhlo | SmtpQuit | SmtpNoop | SmtpReset |
  SmtpMailFrom | SmtpRcptTo | SmtpData | SmtpSendData | SmtpEndData | SmtpReadResponse |
  SmtpGetResponseCode | SmtpGetResponseMessage | SmtpGetCapabilities | SmtpSendMessage |
  SmtpVerify | SmtpExpand | ImapConnect | ImapStartTls | ImapAuth | ImapAuthOAuth |
  ImapLogout | ImapNoop | ImapCapability | ImapSelect | ImapExamine | ImapCreate | ImapDelete |
  ImapRename | ImapSubscribe | ImapUnsubscribe | ImapList | ImapLsub | ImapStatus | ImapFetch |
  ImapStore | ImapCopy | ImapMove | ImapExpunge | ImapSearch | ImapAppend | ImapIdle |
  ImapIdleDone | ImapIdlePoll | Pop3Connect | Pop3StartTls | Pop3Auth | Pop3AuthApop |
  Pop3Quit | Pop3Noop | Pop3Stat | Pop3List | Pop3Uidl | Pop3Retr | Pop3Dele | Pop3Reset |
  Pop3Top | MimeBase64Encode | MimeBase64Decode | MimeQuotedPrintableEncode |
  MimeQuotedPrintableDecode | MimeEncodeHeader | MimeDecodeHeader | MimeMessageNew |
  MimeMessageSetHeader | MimeMessageSetBody | MimeMessageAddAttachment | MimeMessageAddInline |
  MimeMessageBuildMultipart | MimeMessageSerialize | MimeMessageParse | MimeMessageGetHeader |
  MimeMessageGetBody | MimeMessageGetAttachments | MimeMessageGetAllHeaders | TlsContextNew |
  TlsUpgrade | TlsHandshake | TlsRead | TlsWrite | TlsClose | TlsSetCert | TlsSetVerify

primrec host_mail_op_as_u8 :: "host_mail_op \<Rightarrow> u8" where
  "host_mail_op_as_u8 SmtpConnect = 0"
| "host_mail_op_as_u8 SmtpStartTls = 1"
| "host_mail_op_as_u8 SmtpAuth = 2"
| "host_mail_op_as_u8 SmtpEhlo = 3"
| "host_mail_op_as_u8 SmtpQuit = 4"
| "host_mail_op_as_u8 SmtpNoop = 5"
| "host_mail_op_as_u8 SmtpReset = 6"
| "host_mail_op_as_u8 SmtpMailFrom = 10"
| "host_mail_op_as_u8 SmtpRcptTo = 11"
| "host_mail_op_as_u8 SmtpData = 12"
| "host_mail_op_as_u8 SmtpSendData = 13"
| "host_mail_op_as_u8 SmtpEndData = 14"
| "host_mail_op_as_u8 SmtpReadResponse = 20"
| "host_mail_op_as_u8 SmtpGetResponseCode = 21"
| "host_mail_op_as_u8 SmtpGetResponseMessage = 22"
| "host_mail_op_as_u8 SmtpGetCapabilities = 23"
| "host_mail_op_as_u8 SmtpSendMessage = 30"
| "host_mail_op_as_u8 SmtpVerify = 31"
| "host_mail_op_as_u8 SmtpExpand = 32"
| "host_mail_op_as_u8 ImapConnect = 50"
| "host_mail_op_as_u8 ImapStartTls = 51"
| "host_mail_op_as_u8 ImapAuth = 52"
| "host_mail_op_as_u8 ImapAuthOAuth = 53"
| "host_mail_op_as_u8 ImapLogout = 54"
| "host_mail_op_as_u8 ImapNoop = 55"
| "host_mail_op_as_u8 ImapCapability = 56"
| "host_mail_op_as_u8 ImapSelect = 60"
| "host_mail_op_as_u8 ImapExamine = 61"
| "host_mail_op_as_u8 ImapCreate = 62"
| "host_mail_op_as_u8 ImapDelete = 63"
| "host_mail_op_as_u8 ImapRename = 64"
| "host_mail_op_as_u8 ImapSubscribe = 65"
| "host_mail_op_as_u8 ImapUnsubscribe = 66"
| "host_mail_op_as_u8 ImapList = 67"
| "host_mail_op_as_u8 ImapLsub = 68"
| "host_mail_op_as_u8 ImapStatus = 69"
| "host_mail_op_as_u8 ImapFetch = 70"
| "host_mail_op_as_u8 ImapStore = 71"
| "host_mail_op_as_u8 ImapCopy = 72"
| "host_mail_op_as_u8 ImapMove = 73"
| "host_mail_op_as_u8 ImapExpunge = 74"
| "host_mail_op_as_u8 ImapSearch = 75"
| "host_mail_op_as_u8 ImapAppend = 76"
| "host_mail_op_as_u8 ImapIdle = 80"
| "host_mail_op_as_u8 ImapIdleDone = 81"
| "host_mail_op_as_u8 ImapIdlePoll = 82"
| "host_mail_op_as_u8 Pop3Connect = 100"
| "host_mail_op_as_u8 Pop3StartTls = 101"
| "host_mail_op_as_u8 Pop3Auth = 102"
| "host_mail_op_as_u8 Pop3AuthApop = 103"
| "host_mail_op_as_u8 Pop3Quit = 104"
| "host_mail_op_as_u8 Pop3Noop = 105"
| "host_mail_op_as_u8 Pop3Stat = 110"
| "host_mail_op_as_u8 Pop3List = 111"
| "host_mail_op_as_u8 Pop3Uidl = 112"
| "host_mail_op_as_u8 Pop3Retr = 113"
| "host_mail_op_as_u8 Pop3Dele = 114"
| "host_mail_op_as_u8 Pop3Reset = 115"
| "host_mail_op_as_u8 Pop3Top = 116"
| "host_mail_op_as_u8 MimeBase64Encode = 150"
| "host_mail_op_as_u8 MimeBase64Decode = 151"
| "host_mail_op_as_u8 MimeQuotedPrintableEncode = 152"
| "host_mail_op_as_u8 MimeQuotedPrintableDecode = 153"
| "host_mail_op_as_u8 MimeEncodeHeader = 154"
| "host_mail_op_as_u8 MimeDecodeHeader = 155"
| "host_mail_op_as_u8 MimeMessageNew = 160"
| "host_mail_op_as_u8 MimeMessageSetHeader = 161"
| "host_mail_op_as_u8 MimeMessageSetBody = 162"
| "host_mail_op_as_u8 MimeMessageAddAttachment = 163"
| "host_mail_op_as_u8 MimeMessageAddInline = 164"
| "host_mail_op_as_u8 MimeMessageBuildMultipart = 165"
| "host_mail_op_as_u8 MimeMessageSerialize = 166"
| "host_mail_op_as_u8 MimeMessageParse = 170"
| "host_mail_op_as_u8 MimeMessageGetHeader = 171"
| "host_mail_op_as_u8 MimeMessageGetBody = 172"
| "host_mail_op_as_u8 MimeMessageGetAttachments = 173"
| "host_mail_op_as_u8 MimeMessageGetAllHeaders = 174"
| "host_mail_op_as_u8 TlsContextNew = 180"
| "host_mail_op_as_u8 TlsUpgrade = 181"
| "host_mail_op_as_u8 TlsHandshake = 182"
| "host_mail_op_as_u8 TlsRead = 183"
| "host_mail_op_as_u8 TlsWrite = 184"
| "host_mail_op_as_u8 TlsClose = 185"
| "host_mail_op_as_u8 TlsSetCert = 186"
| "host_mail_op_as_u8 TlsSetVerify = 187"

definition host_mail_op_table :: "(u8 \<times> host_mail_op) list" where
  "host_mail_op_table =
    [(0, SmtpConnect), (1, SmtpStartTls), (2, SmtpAuth), (3, SmtpEhlo), (4, SmtpQuit),
     (5, SmtpNoop), (6, SmtpReset), (10, SmtpMailFrom), (11, SmtpRcptTo), (12, SmtpData),
     (13, SmtpSendData), (14, SmtpEndData), (20, SmtpReadResponse), (21, SmtpGetResponseCode),
     (22, SmtpGetResponseMessage), (23, SmtpGetCapabilities), (30, SmtpSendMessage),
     (31, SmtpVerify), (32, SmtpExpand), (50, ImapConnect), (51, ImapStartTls), (52, ImapAuth),
     (53, ImapAuthOAuth), (54, ImapLogout), (55, ImapNoop), (56, ImapCapability),
     (60, ImapSelect), (61, ImapExamine), (62, ImapCreate), (63, ImapDelete), (64, ImapRename),
     (65, ImapSubscribe), (66, ImapUnsubscribe), (67, ImapList), (68, ImapLsub),
     (69, ImapStatus), (70, ImapFetch), (71, ImapStore), (72, ImapCopy), (73, ImapMove),
     (74, ImapExpunge), (75, ImapSearch), (76, ImapAppend), (80, ImapIdle), (81, ImapIdleDone),
     (82, ImapIdlePoll), (100, Pop3Connect), (101, Pop3StartTls), (102, Pop3Auth),
     (103, Pop3AuthApop), (104, Pop3Quit), (105, Pop3Noop), (110, Pop3Stat), (111, Pop3List),
     (112, Pop3Uidl), (113, Pop3Retr), (114, Pop3Dele), (115, Pop3Reset), (116, Pop3Top),
     (150, MimeBase64Encode), (151, MimeBase64Decode), (152, MimeQuotedPrintableEncode),
     (153, MimeQuotedPrintableDecode), (154, MimeEncodeHeader), (155, MimeDecodeHeader),
     (160, MimeMessageNew), (161, MimeMessageSetHeader), (162, MimeMessageSetBody),
     (163, MimeMessageAddAttachment), (164, MimeMessageAddInline),
     (165, MimeMessageBuildMultipart), (166, MimeMessageSerialize), (170, MimeMessageParse),
     (171, MimeMessageGetHeader), (172, MimeMessageGetBody), (173, MimeMessageGetAttachments),
     (174, MimeMessageGetAllHeaders), (180, TlsContextNew), (181, TlsUpgrade),
     (182, TlsHandshake), (183, TlsRead), (184, TlsWrite), (185, TlsClose), (186, TlsSetCert),
     (187, TlsSetVerify)]"

definition host_mail_op_from_u8 :: "u8 \<Rightarrow> host_mail_op option" where
  "host_mail_op_from_u8 v = map_of host_mail_op_table v"

lemma host_mail_op_table_keys: "distinct (map fst host_mail_op_table)"
  by (rule distinct_unat_keys) (simp add: host_mail_op_table_def)

lemma host_mail_op_table_complete: "x \<in> set (map snd host_mail_op_table)"
  by (cases x) (simp_all add: host_mail_op_table_def)

lemma host_mail_op_table_sound: "list_all (\<lambda>(b, x). host_mail_op_as_u8 x = b) host_mail_op_table"
  by (simp add: host_mail_op_table_def)

interpretation host_mail_op_tbl: code_table host_mail_op_table host_mail_op_as_u8
  by unfold_locales (rule host_mail_op_table_keys host_mail_op_table_complete host_mail_op_table_sound)+

interpretation host_mail_op: byte_enum host_mail_op_as_u8 host_mail_op_from_u8
  unfolding host_mail_op_from_u8_def [abs_def] by (rule host_mail_op_tbl.byte_enum_axioms)

instantiation host_mail_op :: equal
begin

definition equal_host_mail_op :: "host_mail_op \<Rightarrow> host_mail_op \<Rightarrow> bool" where
  "equal_host_mail_op x y \<longleftrightarrow> host_mail_op_as_u8 x = host_mail_op_as_u8 y"

instance
  by standard (auto simp: equal_host_mail_op_def dest: injD [OF host_mail_op.as_u8_inj])

end

end
