(* ===== verification/Ops.thy ===== *)
theory Ops
  imports Host_Ops Host_Db_Ops Host_Mail_Ops
begin

text \<open>
  The instruction set, \<^verbatim>\<open>enum Op\<close> of \<^verbatim>\<open>crates/arth-vm/src/ops.rs\<close>. The source lists its 365
  variants in one flat enum under comment headings. Here every variant that carries an operand is
  a constructor of \<open>op\<close>, and the variants without operands are grouped, one datatype per heading
  with the source's names, each wrapped by one constructor of \<open>op\<close>; the two are in bijection, and
  case analysis stays feasible.
\<close>

datatype (plugins only: code size) base_op =
  PrintLn | Halt | Ret | Pop | PrintTop

datatype (plugins only: code size) arith_op =
  AddI64 | SubI64 | MulI64 | DivI64 | ModI64 | LtI64 | EqI64 | EqStr | ConcatStr | ShlI64 |
  ShrI64 | AndI64 | OrI64 | XorI64

datatype (plugins only: code size) conv_op =
  ToF64 | ToI64 | ToI64OrEnumTag | ToBool | ToChar | ToI8 | ToI16 | ToI32 | ToU8 | ToU16 |
  ToU32 | ToU64 | ToF32

datatype (plugins only: code size) float_op =
  SqrtF64 | PowF64 | SinF64 | CosF64 | TanF64 | FloorF64 | CeilF64 | RoundF64

datatype (plugins only: code size) list_op =
  ListNew | ListPush | ListGet | ListSet | ListLen | ListRemove | ListSort

datatype (plugins only: code size) map_op =
  MapNew | MapPut | MapGet | MapLen | MapContainsKey | MapRemove | MapKeys | MapMerge

datatype (plugins only: code size) str_op =
  StrLen | StrSubstring | StrIndexOf | StrLastIndexOf | StrStartsWith | StrEndsWith |
  StrSplit | StrTrim | StrToLower | StrToUpper | StrReplace | StrCharAt | StrContains |
  StrRepeat | StrParseInt | StrParseFloat | StrFromInt | StrFromFloat

datatype (plugins only: code size) opt_op =
  OptSome | OptNone | OptIsSome | OptUnwrap | OptOrElse

datatype (plugins only: code size) struct_op =
  StructNew | StructSet | StructGet | StructGetNamed | StructSetNamed | StructCopy |
  StructTypeName | StructFieldCount

datatype (plugins only: code size) enum_op =
  EnumNew | EnumSetPayload | EnumGetPayload | EnumGetTag | EnumGetVariant | EnumTypeName

datatype (plugins only: code size) json_op =
  JsonStringify | JsonParse | StructToJson | JsonToStruct | JsonGetField | JsonGetIndex |
  JsonGetString | JsonGetNumber | JsonGetBool | JsonIsNull | JsonIsObject | JsonIsArray |
  JsonArrayLen | JsonKeys

datatype (plugins only: code size) html_op =
  HtmlParse | HtmlParseFragment | HtmlStringify | HtmlStringifyPretty | HtmlFree |
  HtmlNodeType | HtmlTagName | HtmlTextContent | HtmlInnerHtml | HtmlOuterHtml | HtmlGetAttr |
  HtmlHasAttr | HtmlAttrNames | HtmlParent | HtmlChildren | HtmlElementChildren |
  HtmlFirstChild | HtmlLastChild | HtmlNextSibling | HtmlPrevSibling | HtmlQuerySelector |
  HtmlQuerySelectorAll | HtmlGetById | HtmlGetByTag | HtmlGetByClass | HtmlHasClass

datatype (plugins only: code size) template_op =
  TemplateCompile | TemplateCompileFile | TemplateRender | TemplateRegisterPartial |
  TemplateGetPartial | TemplateUnregisterPartial | TemplateFree | TemplateEscapeHtml |
  TemplateUnescapeHtml

datatype (plugins only: code size) shared_op =
  SharedNew | SharedStore | SharedLoad

datatype (plugins only: code size) rc_op =
  RcAlloc | RcInc | RcDec | RcLoad | RcStore | RcGetCount

datatype (plugins only: code size) unwind_op =
  ClearUnwindHandler | GetPanicMessage | Throw | GetException

datatype (plugins only: code size) bigdecimal_op =
  BigDecimalNew | BigDecimalFromInt | BigDecimalFromFloat | BigDecimalAdd | BigDecimalSub |
  BigDecimalMul | BigDecimalDiv | BigDecimalRem | BigDecimalPow | BigDecimalNegate |
  BigDecimalCompare | BigDecimalToString | BigDecimalToInt | BigDecimalToFloat |
  BigDecimalScale | BigDecimalSetScale | BigDecimalRound

datatype (plugins only: code size) bigint_op =
  BigIntNew | BigIntFromInt | BigIntAdd | BigIntSub | BigIntMul | BigIntDiv | BigIntRem |
  BigIntPow | BigIntNegate | BigIntCompare | BigIntToString | BigIntToInt

datatype (plugins only: code size) task_op =
  TaskSpawn | TaskPushArg | TaskAwait

datatype (plugins only: code size) executor_op =
  ExecutorInit | ExecutorThreadCount | ExecutorActiveWorkers | ExecutorSpawn | ExecutorJoin |
  ExecutorSpawnWithArg | ExecutorActiveExecutorCount | ExecutorWorkerTaskCount |
  ExecutorResetStats | ExecutorSpawnAwait

datatype (plugins only: code size) mpmc_op =
  MpmcChanCreate | MpmcChanSend | MpmcChanSendBlocking | MpmcChanRecv | MpmcChanRecvBlocking |
  MpmcChanClose | MpmcChanLen | MpmcChanIsEmpty | MpmcChanIsFull | MpmcChanIsClosed |
  MpmcChanCapacity | MpmcChanSendWithTask | MpmcChanRecvWithTask | MpmcChanRecvAndWake |
  MpmcChanPopWaitingSender | MpmcChanGetWaitingSenderValue | MpmcChanPopWaitingReceiver |
  MpmcChanWaitingSenderCount | MpmcChanWaitingReceiverCount | MpmcChanGetWokenSender |
  MpmcChanSendAndWake | MpmcChanGetWokenReceiver | MpmcChanSelectClear | MpmcChanSelectAdd |
  MpmcChanSelectCount | MpmcChanTrySelectRecv | MpmcChanSelectRecvBlocking |
  MpmcChanSelectRecvWithTask | MpmcChanSelectGetReadyIndex | MpmcChanSelectGetValue |
  MpmcChanSelectDeregister | MpmcChanSelectGetHandle

datatype (plugins only: code size) actor_op =
  ActorCreate | ActorSpawn | ActorSend | ActorSendBlocking | ActorRecv | ActorRecvBlocking |
  ActorClose | ActorStop | ActorGetTask | ActorGetMailbox | ActorIsRunning | ActorGetState |
  ActorMessageCount | ActorMailboxEmpty | ActorMailboxLen | ActorSetTask | ActorMarkStopped |
  ActorMarkFailed | ActorIsFailed

datatype (plugins only: code size) atomic_op =
  AtomicCreate | AtomicLoad | AtomicStore | AtomicCas | AtomicFetchAdd | AtomicFetchSub |
  AtomicSwap | AtomicGet | AtomicSet | AtomicInc | AtomicDec

datatype (plugins only: code size) event_loop_op =
  EventLoopCreate | EventLoopRegisterTimer | EventLoopRegisterFd | EventLoopDeregister |
  EventLoopPoll | EventLoopGetEvent | EventLoopGetEventType | EventLoopClose |
  EventLoopPipeCreate | EventLoopPipeGetWriteFd | EventLoopPipeWrite | EventLoopPipeRead |
  EventLoopPipeClose

datatype (plugins only: code size) timer_op =
  TimerSleep | TimerSleepAsync | TimerCheckExpired | TimerGetWaitingTask | TimerCancel |
  TimerPollExpired | TimerNow | TimerElapsed | TimerRemove | TimerRemaining

datatype (plugins only: code size) tcp_op =
  TcpListenerBind | TcpListenerAccept | TcpListenerAcceptAsync | TcpListenerClose |
  TcpListenerLocalPort | TcpStreamConnect | TcpStreamConnectAsync | TcpStreamRead |
  TcpStreamReadAsync | TcpStreamWrite | TcpStreamWriteAsync | TcpStreamClose |
  TcpStreamGetLastRead | TcpStreamSetTimeout | TcpCheckReady | TcpGetResult | TcpPollReady |
  TcpRemoveRequest

datatype (plugins only: code size) http_op =
  HttpGet | HttpPost | HttpGetAsync | HttpPostAsync | HttpResponseStatus | HttpResponseHeader |
  HttpResponseBody | HttpResponseClose | HttpCheckReady | HttpGetResult | HttpPollReady |
  HttpRemoveRequest | HttpGetBodyLength | HttpGetHeaderCount

datatype (plugins only: code size) http_server_op =
  HttpServerCreate | HttpServerClose | HttpServerGetPort | HttpServerAccept |
  HttpServerAcceptAsync | HttpRequestMethod | HttpRequestPath | HttpRequestHeader |
  HttpRequestBody | HttpRequestHeaderCount | HttpRequestBodyLength | HttpWriterStatus |
  HttpWriterHeader | HttpWriterBody | HttpWriterSend | HttpWriterSendAsync |
  HttpServerCheckReady | HttpServerGetResult | HttpServerPollReady | HttpServerRemoveRequest

text \<open>
  The enum itself. \<open>ExternCall\<close> has named fields in the source, in this order: \<open>sym\<close>, \<open>argc\<close>,
  \<open>float_mask\<close>, \<open>ret_kind\<close>.
\<close>

datatype (plugins only: size) op =
  Print u32 | PrintStrVal u32 | PrintRaw u32 | PrintRawStrVal u32 | PushI64 i64 | PushF64 f64 |
  PushBool u8 | PushStr u32 | Jump u32 | JumpIfFalse u32 | Call u32 | CallSymbol u32 |
  ExternCall u32 u8 u32 u8 | LocalGet u32 | LocalSet u32 | SharedGetByName u32 |
  ClosureNew u32 u32 | ClosureCapture | ClosureCall u32 | RcDecWithDeinit u32 |
  RegionEnter u32 | RegionExit u32 | Panic u32 | SetUnwindHandler u32 | HostCallIo host_io_op |
  HostCallNet host_net_op | HostCallTime host_time_op | HostCallDb host_db_op |
  HostCallMail host_mail_op | HostCallCrypto host_crypto_op | HostCallGeneric |
  TaskRunBody u32 | OpBase base_op | OpArith arith_op | OpConv conv_op | OpFloat float_op |
  OpList list_op | OpMap map_op | OpStr str_op | OpOpt opt_op | OpStruct struct_op |
  OpEnum enum_op | OpJson json_op | OpHtml html_op | OpTemplate template_op |
  OpShared shared_op | OpRc rc_op | OpUnwind unwind_op | OpBigDecimal bigdecimal_op |
  OpBigInt bigint_op | OpTask task_op | OpExecutor executor_op | OpMpmc mpmc_op |
  OpActor actor_op | OpAtomic atomic_op | OpEventLoop event_loop_op | OpTimer timer_op |
  OpTcp tcp_op | OpHttp http_op | OpHttpServer http_server_op

end
