(* ===== verification/Bytecode_Format.thy ===== *)
theory Bytecode_Format
  imports Ops
begin

text \<open>
  The parts of \<^verbatim>\<open>crates/arth-vm/src/bytecode.rs\<close> that the writer and the reader of the bytecode
  format share: structured decode errors (\<^verbatim>\<open>DecodeError\<close>) with their context window, the header
  \<^verbatim>\<open>ARTHBCnn\<close> with its version check, the opcode names used in error messages, and the integers
  and strings the format is made of, as interpretations of \<open>codec\<close>.
\<close>

section \<open>Decode errors\<close>

datatype decode_phase = Header | StringTable | Instructions | AsyncDispatch | DebugInfo

text \<open>
  Where the code turns an error into a \<^verbatim>\<open>String\<close>, the model keeps what the text is made from:
  \<open>Text\<close> is a literal or formatted message, \<open>Utf8Message\<close> the text of a UTF-8 error, \<open>Rendered\<close> the
  \<^verbatim>\<open>to_string\<close> of a decode error, \<open>Prefixed\<close> a message behind a literal prefix, and \<open>Lossy\<close> the
  \<^verbatim>\<open>from_utf8_lossy\<close> text of some bytes.
\<close>

datatype decode_error_kind =
    TooShort usize usize
  | InvalidMagic "u8 list"
  | WrongFileType string
  | UnsupportedVersion u8 u8 u8 bool
  | UnknownOpcode u8
  | UnknownSubOpcode string u8 u8
  | UnexpectedEof string
  | InvalidUtf8 message
  | OtherError message
and message =
    Text string
  | Utf8Message utf8_error
  | Prefixed string message
  | Lossy "u8 list"
  | Rendered decode_error
and decode_error =
    DecodeError (kind: decode_error_kind) (phase: decode_phase) (offset: usize)
      (total_size: usize) (context_bytes: "u8 list") (context_start: usize)

text \<open>\<^verbatim>\<open>DecodeError::new\<close>: up to 16 bytes before and after the error.\<close>

definition new_error :: "decode_error_kind \<Rightarrow> decode_phase \<Rightarrow> usize \<Rightarrow> u8 list \<Rightarrow> decode_error" where
  "new_error k p off bs =
     (let safe_offset = min off (length bs);
          start = safe_offset - 16;
          stop = min (safe_offset + 16) (length bs);
          ctxt = (if start < stop then take (stop - start) (drop start bs) else [])
      in DecodeError k p off (length bs) ctxt start)"

lemma new_error_fields [simp]:
  "kind (new_error k p off bs) = k" "phase (new_error k p off bs) = p"
  "offset (new_error k p off bs) = off" "total_size (new_error k p off bs) = length bs"
  by (simp_all add: new_error_def Let_def)

lemma new_error_context:
  "bytes_at bs (context_start (new_error k p off bs)) (context_bytes (new_error k p off bs))"
  by (cases bs) (auto simp: new_error_def Let_def bytes_at_def min_def)

lemma new_error_context_length: "length (context_bytes (new_error k p off bs)) \<le> 32"
proof -
  have "min (m + 16) n - (m - 16) \<le> 32" for m n :: nat by arith
  then show ?thesis by (auto simp: new_error_def Let_def)
qed

lemma new_error_context_start: "context_start (new_error k p off bs) \<le> off"
  by (auto simp: new_error_def Let_def)

section \<open>Opcode names in error messages\<close>

definition known_opcodes :: "(u8 \<times> string) list" where
  "known_opcodes =
    [(0x00, ''CallSymbol''), (0x01, ''Print''), (0x02, ''PrintStrVal''), (0x03, ''PrintRaw''),
     (0x04, ''PrintRawStrVal''), (0x05, ''PrintLn''), (0x10, ''PushI64''),
     (0x11, ''PushBool''), (0x12, ''PushF64''), (0x13, ''PushStr''), (0x20, ''AddI64''),
     (0x21, ''LtI64''), (0x22, ''SubI64''), (0x23, ''MulI64''), (0x24, ''DivI64''),
     (0x25, ''EqI64''), (0x26, ''ModI64''), (0x27, ''ShlI64''), (0x28, ''ShrI64''),
     (0x29, ''AndI64''), (0x2A, ''OrI64''), (0x2B, ''XorI64''), (0x2C, ''EqStr''),
     (0x2D, ''ConcatStr''), (0x30, ''Jump''), (0x31, ''JumpIfFalse''), (0x40, ''Pop''),
     (0x50, ''PrintTop''), (0x60, ''LocalGet''), (0x61, ''LocalSet''), (0x62, ''ToF64''),
     (0x63, ''ToI64''), (0x64, ''ToBool''), (0x65, ''ToChar''), (0x66, ''ToI64OrEnumTag''),
     (0x67, ''ToI8''), (0x68, ''ToI16''), (0x69, ''ToI32''), (0x6A, ''ToU8''),
     (0x6B, ''ToU16''), (0x6C, ''ToU32''), (0x6D, ''ToU64''), (0x6E, ''ToF32''),
     (0x70, ''Call''), (0x71, ''Ret''), (0x72, ''StructNew''), (0x73, ''StructSet''),
     (0x74, ''StructGet''), (0x75, ''StructGetNamed''), (0x76, ''StructCopy''),
     (0x77, ''StructTypeName''), (0x78, ''StructFieldCount''), (0x79, ''EnumNew''),
     (0x7A, ''EnumSetPayload''), (0x7B, ''EnumGetPayload''), (0x7C, ''EnumGetTag''),
     (0x7D, ''EnumGetVariant''), (0x7E, ''EnumTypeName''), (0x7F, ''HTTP sub-operations''),
     (0x80, ''TemplateCompile''), (0x81, ''TemplateCompileFile''), (0x82, ''TemplateRender''),
     (0x83, ''TemplateRegisterPartial''), (0x84, ''TemplateGetPartial''),
     (0x85, ''TemplateUnregisterPartial''), (0x86, ''TemplateFree''),
     (0x87, ''TemplateEscapeHtml''), (0x88, ''TemplateUnescapeHtml''),
     (0x89, ''StructSetNamed''), (0x8A, ''TCP sub-operations''),
     (0x8B, ''HTTP server sub-operations''), (0x8C, ''String sub-operations''),
     (0x90, ''SqrtF64''), (0x91, ''PowF64''), (0x92, ''SinF64''), (0x93, ''CosF64''),
     (0x94, ''TanF64''), (0x95, ''FloorF64''), (0x96, ''CeilF64''), (0x97, ''RoundF64''),
     (0xA1, ''HostCallIo''), (0xA2, ''HostCallNet''), (0xA3, ''HostCallTime''),
     (0xA4, ''OptSome''), (0xA5, ''OptNone''), (0xA6, ''OptIsSome''), (0xA7, ''OptUnwrap''),
     (0xA8, ''OptOrElse''), (0xA9, ''HostCallDb''), (0xAA, ''HostCallMail''),
     (0xB0, ''ListNew''), (0xB1, ''ListPush''), (0xB2, ''ListGet''), (0xB3, ''ListLen''),
     (0xB4, ''MapNew''), (0xB5, ''MapPut''), (0xB6, ''MapGet''), (0xB7, ''MapLen''),
     (0xB8, ''ListSet''), (0xBB, ''ListRemove''), (0xC0, ''SharedNew''),
     (0xC1, ''SharedStore''), (0xC2, ''SharedLoad''), (0xC3, ''SharedGetByName''),
     (0xC4, ''ListSort''), (0xC6, ''MapContainsKey''), (0xC8, ''MapRemove''),
     (0xCC, ''MapKeys''), (0xCD, ''MapMerge''), (0xCE, ''ClosureNew''),
     (0xCF, ''ClosureCapture''), (0xD0, ''ClosureCall''), (0xD1, ''RcAlloc''),
     (0xD2, ''RcInc''), (0xD3, ''RcDec''), (0xD4, ''RcDecWithDeinit''), (0xD5, ''RcLoad''),
     (0xD6, ''RcStore''), (0xD7, ''RcGetCount''), (0xD8, ''RegionEnter''),
     (0xD9, ''RegionExit''), (0xDA, ''Panic''), (0xDB, ''SetUnwindHandler''),
     (0xDC, ''ClearUnwindHandler''), (0xDD, ''GetPanicMessage''), (0xDE, ''Throw''),
     (0xDF, ''GetException''), (0xE0, ''ExternCall''), (0xE1, ''JsonStringify''),
     (0xE2, ''JsonParse''), (0xE3, ''StructToJson''), (0xE4, ''JsonToStruct''),
     (0xE5, ''HtmlParse''), (0xFF, ''Halt'')]"

text \<open>\<^verbatim>\<open>opcode_name\<close> takes the first entry for the opcode.\<close>

definition opcode_name :: "u8 \<Rightarrow> string option" where
  "opcode_name opcode = map_option snd (find (\<lambda>(op, _). op = opcode) known_opcodes)"

definition nearby_opcodes :: "u8 \<Rightarrow> (u8 \<times> string) list" where
  "nearby_opcodes opcode =
     filter (\<lambda>(op, _). \<bar>uint op - uint opcode\<bar> \<le> 5 \<and> op \<noteq> opcode) known_opcodes"

section \<open>The header\<close>

definition MAGIC_PREFIX :: "u8 list" where
  "MAGIC_PREFIX = bytes_of ''ARTHBC''"

definition BYTECODE_VERSION :: u8 where "BYTECODE_VERSION = 1"
definition MIN_SUPPORTED_VERSION :: u8 where "MIN_SUPPORTED_VERSION = 1"
definition MAX_SUPPORTED_VERSION :: u8 where "MAX_SUPPORTED_VERSION = 1"

definition make_magic_header :: "u8 \<Rightarrow> u8 list" where
  "make_magic_header version = bytes_of ''ARTHBC'' @ [48 + version div 10, 48 + version mod 10]"

definition MAGIC :: "u8 list" where
  "MAGIC = make_magic_header BYTECODE_VERSION"

record bytecode_version_info =
  version :: u8
  supported :: bool
  min_supported :: u8
  max_supported :: u8

definition current_version_info :: bytecode_version_info where
  "current_version_info =
     \<lparr>version = BYTECODE_VERSION, supported = True,
      min_supported = MIN_SUPPORTED_VERSION, max_supported = MAX_SUPPORTED_VERSION\<rparr>"

definition is_ascii_digit :: "u8 \<Rightarrow> bool" where
  "is_ascii_digit b \<longleftrightarrow> 48 \<le> b \<and> b \<le> 57"

definition extract_version :: "u8 list \<Rightarrow> u8 option" where
  "extract_version magic =
     (if length magic < 8 then None
      else if take 6 magic \<noteq> MAGIC_PREFIX then None
      else let v1 = magic ! 6; v2 = magic ! 7
           in if is_ascii_digit v1 \<and> is_ascii_digit v2 then Some ((v1 - 48) * 10 + (v2 - 48))
              else None)"

definition is_version_supported :: "u8 \<Rightarrow> bool" where
  "is_version_supported v \<longleftrightarrow> MIN_SUPPORTED_VERSION \<le> v \<and> v \<le> MAX_SUPPORTED_VERSION"

definition starts_with :: "u8 list \<Rightarrow> u8 list \<Rightarrow> bool" where
  "starts_with bs p \<longleftrightarrow> take (length p) bs = p"

definition validate_bytecode_header_detailed :: "u8 list \<Rightarrow> decode_error + u8" where
  "validate_bytecode_header_detailed bs =
     (if length bs < 8 then Inl (new_error (TooShort 8 (length bs)) Header 0 bs)
      else let header = take 8 bs in
      if take 6 header \<noteq> MAGIC_PREFIX then
        (if starts_with header (bytes_of ''ARTHLIB'') then
           Inl (new_error (WrongFileType
             ''Arth library (.alib) - use linker to load libraries'') Header 0 bs)
         else if starts_with header (0x7F # bytes_of ''ELF'') then
           Inl (new_error (WrongFileType ''ELF binary'') Header 0 bs)
         else if starts_with header (bytes_of ''MZ'') then
           Inl (new_error (WrongFileType ''Windows executable (PE)'') Header 0 bs)
         else if starts_with header (bytes_of ''PK'') then
           Inl (new_error (WrongFileType ''ZIP archive'') Header 0 bs)
         else Inl (new_error (InvalidMagic header) Header 0 bs))
      else (case extract_version header of
              None \<Rightarrow>
                Inl (new_error (OtherError (Text
                  (''invalid version format: expected digits, got '' @ [CHR 39] @
                   [char_of (unat (header ! 6)), char_of (unat (header ! 7))] @ [CHR 39]))) Header 6 bs)
            | Some v \<Rightarrow>
                if \<not> is_version_supported v then
                  Inl (new_error (UnsupportedVersion v MIN_SUPPORTED_VERSION
                    MAX_SUPPORTED_VERSION (v > MAX_SUPPORTED_VERSION)) Header 6 bs)
                else Inr v))"

definition validate_bytecode_header :: "u8 list \<Rightarrow> message + u8" where
  "validate_bytecode_header bs = map_err Rendered (validate_bytecode_header_detailed bs)"

definition get_bytecode_info :: "u8 list \<Rightarrow> message + bytecode_version_info" where
  "get_bytecode_info bs =
     bind_res (validate_bytecode_header bs) (\<lambda>v.
       Inr \<lparr>version = v, supported = is_version_supported v,
            min_supported = MIN_SUPPORTED_VERSION, max_supported = MAX_SUPPORTED_VERSION\<rparr>)"

definition is_valid_bytecode :: "u8 list \<Rightarrow> bool" where
  "is_valid_bytecode bs \<longleftrightarrow> is_ok (validate_bytecode_header bs)"

lemma MAGIC_eq: "MAGIC = [0x41, 0x52, 0x54, 0x48, 0x42, 0x43, 0x30, 0x31]"
  by (simp add: MAGIC_def make_magic_header_def BYTECODE_VERSION_def)

lemma length_MAGIC [simp]: "length MAGIC = 8"
  by (simp add: MAGIC_eq)

section \<open>Integers and strings of the format\<close>

definition write_u32_le :: "u32 \<Rightarrow> u8 list" where
  "write_u32_le n = to_le 4 n"

definition read_u32_le :: "u8 list \<Rightarrow> usize \<Rightarrow> message + u32 \<times> usize" where
  "read_u32_le = read_le 4 (\<lambda>_ _. Text ''unexpected EOF while reading u32'')"

interpretation u32_le: codec write_u32_le read_u32_le "\<lambda>_. True"
  unfolding write_u32_le_def [abs_def] read_u32_le_def by (rule codec_read_le) simp

lemma length_write_u32_le [simp]: "length (write_u32_le n) = 4"
  by (simp add: write_u32_le_def)

text \<open>A string is written as its length in bytes and its bytes.\<close>

definition write_string :: "rstring \<Rightarrow> u8 list" where
  "write_string s = write_u32_le (of_nat (length s)) @ s"

lemma length_write_string [simp]: "length (write_string s) = 4 + length s"
  by (simp add: write_string_def)

text \<open>
  Its reader in \<^verbatim>\<open>decode_program\<close>; \<open>phase\<close> and \<open>what\<close> appear in the errors only.
\<close>

definition read_string :: "decode_phase \<Rightarrow> string \<Rightarrow> u8 list \<Rightarrow> usize \<Rightarrow> message + rstring \<times> usize" where
  "read_string p what bs off =
     bind_res (read_u32_le bs off) (\<lambda>(len, off1).
       read_utf8 (\<lambda>bs o1. Rendered (new_error (UnexpectedEof what) p o1 bs))
         (\<lambda>e bs o1. Rendered (new_error (InvalidUtf8 (Utf8Message e)) p o1 bs))
         (unat len) bs off1)"

definition wf_string :: "rstring \<Rightarrow> bool" where
  "wf_string s \<longleftrightarrow> utf8_valid s \<and> length s < 2 ^ 32"

lemma codec_read_string: "codec write_string (read_string p what) wf_string"
  unfolding write_string_def [abs_def] read_string_def [abs_def] wf_string_def [abs_def]
  by (rule codec_string) (rule u32_le.codec_axioms)

interpretation str_table: codec write_string "read_string StringTable ''string data''" wf_string
  by (rule codec_read_string)

interpretation dbg_name: codec write_string "read_string DebugInfo ''debug entry function name''" wf_string
  by (rule codec_read_string)

end
