(* ===== verification/Programs.thy ===== *)
theory Programs
  imports Ops
begin

text \<open>
  A bytecode program, \<^verbatim>\<open>crates/arth-vm/src/program.rs\<close>: its string table, its instructions, the
  table of asynchronous bodies and the debug entries, with the two lookups on it.
\<close>

record debug_entry =
  entry_offset :: u32
  function_name :: rstring
  source_file :: "rstring option"
  line :: u32

definition debug_entry_new :: "u32 \<Rightarrow> rstring \<Rightarrow> debug_entry" where
  "debug_entry_new off name =
     \<lparr>entry_offset = off, function_name = name, source_file = None, line = 0\<rparr>"

definition debug_entry_with_location :: "u32 \<Rightarrow> rstring \<Rightarrow> rstring \<Rightarrow> u32 \<Rightarrow> debug_entry" where
  "debug_entry_with_location off name file ln =
     \<lparr>entry_offset = off, function_name = name, source_file = Some file, line = ln\<rparr>"

record program =
  strings :: "rstring list"
  code :: "op list"
  async_dispatch :: "(i64 \<times> u32) list"
  debug_entries :: "debug_entry list"

definition program_new :: "rstring list \<Rightarrow> op list \<Rightarrow> program" where
  "program_new strs ops =
     \<lparr>strings = strs, code = ops, async_dispatch = [], debug_entries = []\<rparr>"

definition program_with_async_dispatch ::
  "rstring list \<Rightarrow> op list \<Rightarrow> (i64 \<times> u32) list \<Rightarrow> program" where
  "program_with_async_dispatch strs ops asyncs =
     \<lparr>strings = strs, code = ops, async_dispatch = asyncs, debug_entries = []\<rparr>"

definition program_with_debug_info ::
  "rstring list \<Rightarrow> op list \<Rightarrow> (i64 \<times> u32) list \<Rightarrow> debug_entry list \<Rightarrow> program" where
  "program_with_debug_info strs ops asyncs dbg =
     \<lparr>strings = strs, code = ops, async_dispatch = asyncs, debug_entries = dbg\<rparr>"

text \<open>The first entry for the function id wins.\<close>

definition get_async_body_offset :: "program \<Rightarrow> i64 \<Rightarrow> u32 option" where
  "get_async_body_offset p fn_id =
     map_option snd (find (\<lambda>(i, _). i = fn_id) (async_dispatch p))"

section \<open>Function lookup by instruction offset\<close>

text \<open>
  \<^verbatim>\<open>slice::binary_search_by_key\<close> of the standard library: the size of the window is halved until
  one element is left, then the key decides between a hit and an insertion point.
\<close>

datatype search_result = Found nat | NotFound nat

function bsearch_loop :: "(nat \<Rightarrow> 'k::linorder) \<Rightarrow> 'k \<Rightarrow> nat \<Rightarrow> nat \<Rightarrow> nat" where
  "bsearch_loop key k base sz =
     (if sz > 1 then
        (let half = sz div 2; mid = base + half
         in bsearch_loop key k (if k < key mid then base else mid) (sz - half))
      else base)"
  by pat_completeness auto
termination
  by (relation "measure (\<lambda>(_, _, _, sz). sz)") auto

declare bsearch_loop.simps [simp del]

definition binary_search_by_key :: "('a \<Rightarrow> 'k::linorder) \<Rightarrow> 'k \<Rightarrow> 'a list \<Rightarrow> search_result" where
  "binary_search_by_key f k xs =
     (if xs = [] then NotFound 0
      else let base = bsearch_loop (\<lambda>i. f (xs ! i)) k 0 (length xs)
           in if f (xs ! base) = k then Found base
              else NotFound (if f (xs ! base) < k then base + 1 else base))"

definition lookup_function :: "program \<Rightarrow> u32 \<Rightarrow> debug_entry option" where
  "lookup_function p ip =
     (if debug_entries p = [] then None
      else case binary_search_by_key entry_offset ip (debug_entries p) of
             Found idx \<Rightarrow> Some (debug_entries p ! idx)
           | NotFound idx \<Rightarrow> if idx > 0 then Some (debug_entries p ! (idx - 1)) else None)"

lemma bsearch_loop_bounds:
  "0 < sz \<Longrightarrow> base \<le> bsearch_loop key k base sz \<and> bsearch_loop key k base sz < base + sz"
proof (induction key k base sz rule: bsearch_loop.induct)
  case (1 key k base sz)
  show ?case
  proof (cases "sz > 1")
    case True
    then have "0 < sz - sz div 2" and "sz div 2 < sz" by auto
    with 1(1) [OF True refl refl] True show ?thesis
      by (auto simp: bsearch_loop.simps [of key k base sz] Let_def split: if_splits)
  next
    case False
    with 1(2) show ?thesis by (simp add: bsearch_loop.simps [of key k base sz])
  qed
qed

text \<open>On sorted keys the loop ends at the last key that is not above the wanted one, if any is.\<close>

lemma bsearch_loop_last_le:
  assumes "0 < sz"
    and "\<And>i j. i \<le> j \<Longrightarrow> j < base + sz \<Longrightarrow> key i \<le> key j"
  shows "(\<forall>i. base \<le> i \<and> i < base + sz \<and> key i \<le> k \<longrightarrow> i \<le> bsearch_loop key k base sz) \<and>
    (key (bsearch_loop key k base sz) \<le> k \<or> bsearch_loop key k base sz = base)"
  using assms
proof (induction key k base sz rule: bsearch_loop.induct)
  case (1 key k base sz)
  note IH = 1(1) and mono = 1(3)
  show ?case
  proof (cases "sz > 1")
    case False
    then show ?thesis using 1(2) by (auto simp: bsearch_loop.simps [of key k base sz])
  next
    case True
    define half where "half = sz div 2"
    define next_base where "next_base = (if k < key (base + half) then base else base + half)"
    define r where "r = bsearch_loop key k next_base (sz - half)"
    have half: "0 < half" "half < sz" "half \<le> sz - half" using True by (auto simp: half_def)
    have r: "bsearch_loop key k base sz = r"
      using True by (simp add: bsearch_loop.simps [of key k base sz] r_def next_base_def half_def Let_def)
    have bounds: "next_base \<le> r"
      using half bsearch_loop_bounds [of "sz - half" next_base key k] by (simp add: r_def)
    have IH': "(\<forall>i. next_base \<le> i \<and> i < next_base + (sz - half) \<and> key i \<le> k \<longrightarrow> i \<le> r) \<and>
        (key r \<le> k \<or> r = next_base)"
      unfolding r_def next_base_def half_def
      by (rule IH [OF True refl refl]) (use half mono in \<open>auto simp: half_def split: if_splits\<close>)
    show ?thesis
    proof (cases "k < key (base + half)")
      case True
      have "\<not> key i \<le> k" if "base + (sz - half) \<le> i" "i < base + sz" for i
        using mono [of "base + half" i] that half True by auto
      then have "i \<le> r" if "base \<le> i" "i < base + sz" "key i \<le> k" for i
        using that IH' True by (cases "i < base + (sz - half)") (auto simp: next_base_def)
      then show ?thesis using IH' True by (simp add: r next_base_def)
    next
      case False
      then have "i \<le> r" if "base \<le> i" "i < base + sz" "key i \<le> k" for i
        using that IH' bounds half by (cases "base + half \<le> i") (auto simp: next_base_def)
      then show ?thesis using IH' False by (auto simp: r next_base_def)
    qed
  qed
qed

text \<open>
  On debug entries sorted by offset, the lookup returns the last entry that starts at or before
  the instruction.
\<close>

lemma lookup_function_Some:
  assumes sorted: "sorted (map entry_offset (debug_entries p))" and e: "lookup_function p ip = Some e"
  shows "e \<in> set (debug_entries p) \<and> entry_offset e \<le> ip \<and>
    (\<forall>e'\<in>set (debug_entries p). entry_offset e' \<le> ip \<longrightarrow> entry_offset e' \<le> entry_offset e)"
proof -
  define xs where "xs = debug_entries p"
  define b where "b = bsearch_loop (\<lambda>i. entry_offset (xs ! i)) ip 0 (length xs)"
  have ne: "xs \<noteq> []" using e by (auto simp: lookup_function_def xs_def split: if_splits)
  have mono: "entry_offset (xs ! i) \<le> entry_offset (xs ! j)" if "i \<le> j" "j < 0 + length xs" for i j
    using sorted that by (auto simp: xs_def sorted_iff_nth_mono)
  have b: "b < length xs"
    using bsearch_loop_bounds [of "length xs" 0 "\<lambda>i. entry_offset (xs ! i)" ip] ne by (auto simp: b_def)
  have last: "(\<forall>i<length xs. entry_offset (xs ! i) \<le> ip \<longrightarrow> i \<le> b) \<and> (entry_offset (xs ! b) \<le> ip \<or> b = 0)"
    using bsearch_loop_last_le [of "length xs" 0 "\<lambda>i. entry_offset (xs ! i)" ip] ne mono
    by (auto simp: b_def)
  have "e = xs ! b \<and> entry_offset (xs ! b) \<le> ip"
    using e ne last
    by (auto simp: lookup_function_def binary_search_by_key_def xs_def [symmetric] b_def [symmetric] Let_def
        split: if_splits)
  then show ?thesis using b last mono by (auto simp: in_set_conv_nth xs_def [symmetric])
qed

lemma lookup_function_None:
  assumes sorted: "sorted (map entry_offset (debug_entries p))" and none: "lookup_function p ip = None"
  shows "\<forall>e\<in>set (debug_entries p). ip < entry_offset e"
proof (cases "debug_entries p = []")
  case False
  define xs where "xs = debug_entries p"
  define b where "b = bsearch_loop (\<lambda>i. entry_offset (xs ! i)) ip 0 (length xs)"
  have mono: "entry_offset (xs ! i) \<le> entry_offset (xs ! j)" if "i \<le> j" "j < 0 + length xs" for i j
    using sorted that by (auto simp: xs_def sorted_iff_nth_mono)
  have last: "(\<forall>i<length xs. entry_offset (xs ! i) \<le> ip \<longrightarrow> i \<le> b) \<and> (entry_offset (xs ! b) \<le> ip \<or> b = 0)"
    using bsearch_loop_last_le [of "length xs" 0 "\<lambda>i. entry_offset (xs ! i)" ip] False mono
    by (auto simp: b_def xs_def)
  have b0: "b = 0 \<and> ip < entry_offset (xs ! 0)"
    using none False last
    by (auto simp: lookup_function_def binary_search_by_key_def xs_def [symmetric] b_def [symmetric] Let_def
        split: if_splits)
  have "ip < entry_offset (xs ! i)" if "i < length xs" for i
    using b0 mono [of 0 i] that by auto
  then show ?thesis by (auto simp: in_set_conv_nth xs_def [symmetric])
qed simp

end
