(* ===== verification/Bytecode_Encode.thy ===== *)
theory Bytecode_Encode
  imports Bytecode_Format Programs
begin

text \<open>
  The writer of the bytecode format, \<^verbatim>\<open>encode_program\<close> of \<^verbatim>\<open>crates/arth-vm/src/bytecode.rs\<close>: one
  function per group of operand-free instructions, \<open>encode_op\<close> for the whole instruction set, and
  the program's sections. An instruction without an encoding reaches \<^verbatim>\<open>unimplemented!\<close>, a panic;
  the model returns \<open>None\<close> there.
\<close>

section \<open>Instructions without operands\<close>

primrec enc_base :: "base_op \<Rightarrow> u8 list" where
  "enc_base PrintLn = [0x05]"
| "enc_base Halt = [0xFF]"
| "enc_base Ret = [0x71]"
| "enc_base Pop = [0x40]"
| "enc_base PrintTop = [0x50]"

primrec enc_arith :: "arith_op \<Rightarrow> u8 list" where
  "enc_arith AddI64 = [0x20]"
| "enc_arith SubI64 = [0x22]"
| "enc_arith MulI64 = [0x23]"
| "enc_arith DivI64 = [0x24]"
| "enc_arith ModI64 = [0x26]"
| "enc_arith LtI64 = [0x21]"
| "enc_arith EqI64 = [0x25]"
| "enc_arith EqStr = [0x2C]"
| "enc_arith ConcatStr = [0x2D]"
| "enc_arith ShlI64 = [0x27]"
| "enc_arith ShrI64 = [0x28]"
| "enc_arith AndI64 = [0x29]"
| "enc_arith OrI64 = [0x2A]"
| "enc_arith XorI64 = [0x2B]"

primrec enc_conv :: "conv_op \<Rightarrow> u8 list" where
  "enc_conv ToF64 = [0x62]"
| "enc_conv ToI64 = [0x63]"
| "enc_conv ToI64OrEnumTag = [0x66]"
| "enc_conv ToBool = [0x64]"
| "enc_conv ToChar = [0x65]"
| "enc_conv ToI8 = [0x67]"
| "enc_conv ToI16 = [0x68]"
| "enc_conv ToI32 = [0x69]"
| "enc_conv ToU8 = [0x6A]"
| "enc_conv ToU16 = [0x6B]"
| "enc_conv ToU32 = [0x6C]"
| "enc_conv ToU64 = [0x6D]"
| "enc_conv ToF32 = [0x6E]"

primrec enc_float :: "float_op \<Rightarrow> u8 list" where
  "enc_float SqrtF64 = [0x90]"
| "enc_float PowF64 = [0x91]"
| "enc_float SinF64 = [0x92]"
| "enc_float CosF64 = [0x93]"
| "enc_float TanF64 = [0x94]"
| "enc_float FloorF64 = [0x95]"
| "enc_float CeilF64 = [0x96]"
| "enc_float RoundF64 = [0x97]"

primrec enc_list :: "list_op \<Rightarrow> u8 list" where
  "enc_list ListNew = [0xB0]"
| "enc_list ListPush = [0xB1]"
| "enc_list ListGet = [0xB2]"
| "enc_list ListSet = [0xB8]"
| "enc_list ListLen = [0xB3]"
| "enc_list ListRemove = [0xBB]"
| "enc_list ListSort = [0xC4]"

primrec enc_map :: "map_op \<Rightarrow> u8 list" where
  "enc_map MapNew = [0xB4]"
| "enc_map MapPut = [0xB5]"
| "enc_map MapGet = [0xB6]"
| "enc_map MapLen = [0xB7]"
| "enc_map MapContainsKey = [0xC6]"
| "enc_map MapRemove = [0xC8]"
| "enc_map MapKeys = [0xCC]"
| "enc_map MapMerge = [0xCD]"

primrec enc_str :: "str_op \<Rightarrow> u8 list" where
  "enc_str StrLen = [0x4C, 0x00]"
| "enc_str StrSubstring = [0x4C, 0x01]"
| "enc_str StrIndexOf = [0x4C, 0x02]"
| "enc_str StrLastIndexOf = [0x4C, 0x03]"
| "enc_str StrStartsWith = [0x4C, 0x04]"
| "enc_str StrEndsWith = [0x4C, 0x05]"
| "enc_str StrSplit = [0x4C, 0x06]"
| "enc_str StrTrim = [0x4C, 0x07]"
| "enc_str StrToLower = [0x4C, 0x08]"
| "enc_str StrToUpper = [0x4C, 0x09]"
| "enc_str StrReplace = [0x4C, 0x0A]"
| "enc_str StrCharAt = [0x4C, 0x0B]"
| "enc_str StrContains = [0x4C, 0x0C]"
| "enc_str StrRepeat = [0x4C, 0x0D]"
| "enc_str StrParseInt = [0x4C, 0x0E]"
| "enc_str StrParseFloat = [0x4C, 0x0F]"
| "enc_str StrFromInt = [0x4C, 0x10]"
| "enc_str StrFromFloat = [0x4C, 0x11]"

primrec enc_opt :: "opt_op \<Rightarrow> u8 list" where
  "enc_opt OptSome = [0xA4]"
| "enc_opt OptNone = [0xA5]"
| "enc_opt OptIsSome = [0xA6]"
| "enc_opt OptUnwrap = [0xA7]"
| "enc_opt OptOrElse = [0xA8]"

primrec enc_struct :: "struct_op \<Rightarrow> u8 list" where
  "enc_struct StructNew = [0x72]"
| "enc_struct StructSet = [0x73]"
| "enc_struct StructGet = [0x74]"
| "enc_struct StructGetNamed = [0x75]"
| "enc_struct StructSetNamed = [0x7F, 0x20]"
| "enc_struct StructCopy = [0x76]"
| "enc_struct StructTypeName = [0x77]"
| "enc_struct StructFieldCount = [0x78]"

primrec enc_enum :: "enum_op \<Rightarrow> u8 list" where
  "enc_enum EnumNew = [0x79]"
| "enc_enum EnumSetPayload = [0x7A]"
| "enc_enum EnumGetPayload = [0x7B]"
| "enc_enum EnumGetTag = [0x7C]"
| "enc_enum EnumGetVariant = [0x7D]"
| "enc_enum EnumTypeName = [0x7E]"

primrec enc_json :: "json_op \<Rightarrow> u8 list" where
  "enc_json JsonStringify = [0xE1]"
| "enc_json JsonParse = [0xE2]"
| "enc_json StructToJson = [0xE3]"
| "enc_json JsonToStruct = [0xE4]"
| "enc_json JsonGetField = [0x7F, 0x30]"
| "enc_json JsonGetIndex = [0x7F, 0x31]"
| "enc_json JsonGetString = [0x7F, 0x32]"
| "enc_json JsonGetNumber = [0x7F, 0x33]"
| "enc_json JsonGetBool = [0x7F, 0x34]"
| "enc_json JsonIsNull = [0x7F, 0x35]"
| "enc_json JsonIsObject = [0x7F, 0x36]"
| "enc_json JsonIsArray = [0x7F, 0x37]"
| "enc_json JsonArrayLen = [0x7F, 0x38]"
| "enc_json JsonKeys = [0x7F, 0x39]"

primrec enc_html :: "html_op \<Rightarrow> u8 list" where
  "enc_html HtmlParse = [0xE5]"
| "enc_html HtmlParseFragment = [0xE6]"
| "enc_html HtmlStringify = [0xE7]"
| "enc_html HtmlStringifyPretty = [0xE8]"
| "enc_html HtmlFree = [0xE9]"
| "enc_html HtmlNodeType = [0xEA]"
| "enc_html HtmlTagName = [0xEB]"
| "enc_html HtmlTextContent = [0xEC]"
| "enc_html HtmlInnerHtml = [0xED]"
| "enc_html HtmlOuterHtml = [0xEE]"
| "enc_html HtmlGetAttr = [0xEF]"
| "enc_html HtmlHasAttr = [0xF0]"
| "enc_html HtmlAttrNames = [0xF1]"
| "enc_html HtmlParent = [0xF2]"
| "enc_html HtmlChildren = [0xF3]"
| "enc_html HtmlElementChildren = [0xF4]"
| "enc_html HtmlFirstChild = [0xF5]"
| "enc_html HtmlLastChild = [0xF6]"
| "enc_html HtmlNextSibling = [0xF7]"
| "enc_html HtmlPrevSibling = [0xF8]"
| "enc_html HtmlQuerySelector = [0xF9]"
| "enc_html HtmlQuerySelectorAll = [0xFA]"
| "enc_html HtmlGetById = [0xFB]"
| "enc_html HtmlGetByTag = [0xFC]"
| "enc_html HtmlGetByClass = [0xFD]"
| "enc_html HtmlHasClass = [0xFE]"

primrec enc_template :: "template_op \<Rightarrow> u8 list" where
  "enc_template TemplateCompile = [0x80]"
| "enc_template TemplateCompileFile = [0x81]"
| "enc_template TemplateRender = [0x82]"
| "enc_template TemplateRegisterPartial = [0x83]"
| "enc_template TemplateGetPartial = [0x84]"
| "enc_template TemplateUnregisterPartial = [0x85]"
| "enc_template TemplateFree = [0x86]"
| "enc_template TemplateEscapeHtml = [0x87]"
| "enc_template TemplateUnescapeHtml = [0x88]"

primrec enc_shared :: "shared_op \<Rightarrow> u8 list" where
  "enc_shared SharedNew = [0xC0]"
| "enc_shared SharedStore = [0xC1]"
| "enc_shared SharedLoad = [0xC2]"

primrec enc_rc :: "rc_op \<Rightarrow> u8 list" where
  "enc_rc RcAlloc = [0xD1]"
| "enc_rc RcInc = [0xD2]"
| "enc_rc RcDec = [0xD3]"
| "enc_rc RcLoad = [0xD5]"
| "enc_rc RcStore = [0xD6]"
| "enc_rc RcGetCount = [0xD7]"

primrec enc_unwind :: "unwind_op \<Rightarrow> u8 list" where
  "enc_unwind ClearUnwindHandler = [0xDC]"
| "enc_unwind GetPanicMessage = [0xDD]"
| "enc_unwind Throw = [0xDE]"
| "enc_unwind GetException = [0xDF]"

primrec enc_task :: "task_op \<Rightarrow> u8 list" where
  "enc_task TaskSpawn = [0xA9]"
| "enc_task TaskPushArg = [0xAA]"
| "enc_task TaskAwait = [0xAB]"

primrec enc_executor :: "executor_op \<Rightarrow> u8 list" where
  "enc_executor ExecutorInit = [0xAD]"
| "enc_executor ExecutorThreadCount = [0xAE]"
| "enc_executor ExecutorActiveWorkers = [0xAF]"
| "enc_executor ExecutorSpawn = [0x89]"
| "enc_executor ExecutorJoin = [0x8A]"
| "enc_executor ExecutorSpawnWithArg = [0x8B]"
| "enc_executor ExecutorActiveExecutorCount = [0x8C]"
| "enc_executor ExecutorWorkerTaskCount = [0x8D]"
| "enc_executor ExecutorResetStats = [0x8E]"
| "enc_executor ExecutorSpawnAwait = [0x8F]"

primrec enc_mpmc :: "mpmc_op \<Rightarrow> u8 list" where
  "enc_mpmc MpmcChanCreate = [0x98]"
| "enc_mpmc MpmcChanSend = [0x99]"
| "enc_mpmc MpmcChanSendBlocking = [0x9A]"
| "enc_mpmc MpmcChanRecv = [0x9B]"
| "enc_mpmc MpmcChanRecvBlocking = [0x9C]"
| "enc_mpmc MpmcChanClose = [0x9D]"
| "enc_mpmc MpmcChanLen = [0x9E]"
| "enc_mpmc MpmcChanIsEmpty = [0x9F]"
| "enc_mpmc MpmcChanIsFull = [0xA0]"
| "enc_mpmc MpmcChanIsClosed = [0x06]"
| "enc_mpmc MpmcChanCapacity = [0x07]"
| "enc_mpmc MpmcChanSendWithTask = [0xB9]"
| "enc_mpmc MpmcChanRecvWithTask = [0xBA]"
| "enc_mpmc MpmcChanRecvAndWake = [0xBC]"
| "enc_mpmc MpmcChanPopWaitingSender = [0xBD]"
| "enc_mpmc MpmcChanGetWaitingSenderValue = [0xBE]"
| "enc_mpmc MpmcChanPopWaitingReceiver = [0xBF]"
| "enc_mpmc MpmcChanWaitingSenderCount = [0xC5]"
| "enc_mpmc MpmcChanWaitingReceiverCount = [0xC7]"
| "enc_mpmc MpmcChanGetWokenSender = [0xC9]"
| "enc_mpmc MpmcChanSendAndWake = [0xCA]"
| "enc_mpmc MpmcChanGetWokenReceiver = [0xCB]"
| "enc_mpmc MpmcChanSelectClear = [0x14]"
| "enc_mpmc MpmcChanSelectAdd = [0x15]"
| "enc_mpmc MpmcChanSelectCount = [0x16]"
| "enc_mpmc MpmcChanTrySelectRecv = [0x17]"
| "enc_mpmc MpmcChanSelectRecvBlocking = [0x18]"
| "enc_mpmc MpmcChanSelectRecvWithTask = [0x19]"
| "enc_mpmc MpmcChanSelectGetReadyIndex = [0x1A]"
| "enc_mpmc MpmcChanSelectGetValue = [0x1B]"
| "enc_mpmc MpmcChanSelectDeregister = [0x1C]"
| "enc_mpmc MpmcChanSelectGetHandle = [0x1D]"

primrec enc_actor :: "actor_op \<Rightarrow> u8 list" where
  "enc_actor ActorCreate = [0x08]"
| "enc_actor ActorSpawn = [0x09]"
| "enc_actor ActorSend = [0x0A]"
| "enc_actor ActorSendBlocking = [0x0B]"
| "enc_actor ActorRecv = [0x0C]"
| "enc_actor ActorRecvBlocking = [0x0D]"
| "enc_actor ActorClose = [0x0E]"
| "enc_actor ActorStop = [0x0F]"
| "enc_actor ActorGetTask = [0x1E]"
| "enc_actor ActorGetMailbox = [0x1F]"
| "enc_actor ActorIsRunning = [0x2E]"
| "enc_actor ActorGetState = [0x2F]"
| "enc_actor ActorMessageCount = [0x3E]"
| "enc_actor ActorMailboxEmpty = [0x3F]"
| "enc_actor ActorMailboxLen = [0x4E]"
| "enc_actor ActorSetTask = [0x4F]"
| "enc_actor ActorMarkStopped = [0x5E]"
| "enc_actor ActorMarkFailed = [0x5F]"
| "enc_actor ActorIsFailed = [0x51]"

primrec enc_atomic :: "atomic_op \<Rightarrow> u8 list" where
  "enc_atomic AtomicCreate = [0x52]"
| "enc_atomic AtomicLoad = [0x53]"
| "enc_atomic AtomicStore = [0x54]"
| "enc_atomic AtomicCas = [0x55]"
| "enc_atomic AtomicFetchAdd = [0x56]"
| "enc_atomic AtomicFetchSub = [0x57]"
| "enc_atomic AtomicSwap = [0x58]"
| "enc_atomic AtomicGet = [0x59]"
| "enc_atomic AtomicSet = [0x5A]"
| "enc_atomic AtomicInc = [0x5B]"
| "enc_atomic AtomicDec = [0x5C]"

primrec enc_event_loop :: "event_loop_op \<Rightarrow> u8 list" where
  "enc_event_loop EventLoopCreate = [0x32]"
| "enc_event_loop EventLoopRegisterTimer = [0x33]"
| "enc_event_loop EventLoopRegisterFd = [0x34]"
| "enc_event_loop EventLoopDeregister = [0x35]"
| "enc_event_loop EventLoopPoll = [0x36]"
| "enc_event_loop EventLoopGetEvent = [0x37]"
| "enc_event_loop EventLoopGetEventType = [0x38]"
| "enc_event_loop EventLoopClose = [0x39]"
| "enc_event_loop EventLoopPipeCreate = [0x3A]"
| "enc_event_loop EventLoopPipeGetWriteFd = [0x3B]"
| "enc_event_loop EventLoopPipeWrite = [0x3C]"
| "enc_event_loop EventLoopPipeRead = [0x3D]"
| "enc_event_loop EventLoopPipeClose = [0x41]"

primrec enc_timer :: "timer_op \<Rightarrow> u8 list" where
  "enc_timer TimerSleep = [0x42]"
| "enc_timer TimerSleepAsync = [0x43]"
| "enc_timer TimerCheckExpired = [0x44]"
| "enc_timer TimerGetWaitingTask = [0x45]"
| "enc_timer TimerCancel = [0x46]"
| "enc_timer TimerPollExpired = [0x47]"
| "enc_timer TimerNow = [0x48]"
| "enc_timer TimerElapsed = [0x49]"
| "enc_timer TimerRemove = [0x4A]"
| "enc_timer TimerRemaining = [0x4B]"

primrec enc_tcp :: "tcp_op \<Rightarrow> u8 list" where
  "enc_tcp TcpListenerBind = [0x6F, 0x00]"
| "enc_tcp TcpListenerAccept = [0x6F, 0x01]"
| "enc_tcp TcpListenerAcceptAsync = [0x6F, 0x02]"
| "enc_tcp TcpListenerClose = [0x6F, 0x03]"
| "enc_tcp TcpListenerLocalPort = [0x6F, 0x04]"
| "enc_tcp TcpStreamConnect = [0x6F, 0x05]"
| "enc_tcp TcpStreamConnectAsync = [0x6F, 0x06]"
| "enc_tcp TcpStreamRead = [0x6F, 0x07]"
| "enc_tcp TcpStreamReadAsync = [0x6F, 0x08]"
| "enc_tcp TcpStreamWrite = [0x6F, 0x09]"
| "enc_tcp TcpStreamWriteAsync = [0x6F, 0x0A]"
| "enc_tcp TcpStreamClose = [0x6F, 0x0B]"
| "enc_tcp TcpStreamGetLastRead = [0x6F, 0x0C]"
| "enc_tcp TcpStreamSetTimeout = [0x6F, 0x0D]"
| "enc_tcp TcpCheckReady = [0x6F, 0x0E]"
| "enc_tcp TcpGetResult = [0x6F, 0x0F]"
| "enc_tcp TcpPollReady = [0x6F, 0x10]"
| "enc_tcp TcpRemoveRequest = [0x6F, 0x11]"

primrec enc_http :: "http_op \<Rightarrow> u8 list" where
  "enc_http HttpGet = [0x7F, 0x00]"
| "enc_http HttpPost = [0x7F, 0x01]"
| "enc_http HttpGetAsync = [0x7F, 0x02]"
| "enc_http HttpPostAsync = [0x7F, 0x03]"
| "enc_http HttpResponseStatus = [0x7F, 0x04]"
| "enc_http HttpResponseHeader = [0x7F, 0x05]"
| "enc_http HttpResponseBody = [0x7F, 0x06]"
| "enc_http HttpResponseClose = [0x7F, 0x07]"
| "enc_http HttpCheckReady = [0x7F, 0x08]"
| "enc_http HttpGetResult = [0x7F, 0x09]"
| "enc_http HttpPollReady = [0x7F, 0x0A]"
| "enc_http HttpRemoveRequest = [0x7F, 0x0B]"
| "enc_http HttpGetBodyLength = [0x7F, 0x0C]"
| "enc_http HttpGetHeaderCount = [0x7F, 0x0D]"

primrec enc_http_server :: "http_server_op \<Rightarrow> u8 list" where
  "enc_http_server HttpServerCreate = [0x5D, 0x00]"
| "enc_http_server HttpServerClose = [0x5D, 0x01]"
| "enc_http_server HttpServerGetPort = [0x5D, 0x02]"
| "enc_http_server HttpServerAccept = [0x5D, 0x03]"
| "enc_http_server HttpServerAcceptAsync = [0x5D, 0x04]"
| "enc_http_server HttpRequestMethod = [0x5D, 0x05]"
| "enc_http_server HttpRequestPath = [0x5D, 0x06]"
| "enc_http_server HttpRequestHeader = [0x5D, 0x07]"
| "enc_http_server HttpRequestBody = [0x5D, 0x08]"
| "enc_http_server HttpRequestHeaderCount = [0x5D, 0x09]"
| "enc_http_server HttpRequestBodyLength = [0x5D, 0x0A]"
| "enc_http_server HttpWriterStatus = [0x5D, 0x0B]"
| "enc_http_server HttpWriterHeader = [0x5D, 0x0C]"
| "enc_http_server HttpWriterBody = [0x5D, 0x0D]"
| "enc_http_server HttpWriterSend = [0x5D, 0x0E]"
| "enc_http_server HttpWriterSendAsync = [0x5D, 0x0F]"
| "enc_http_server HttpServerCheckReady = [0x5D, 0x10]"
| "enc_http_server HttpServerGetResult = [0x5D, 0x11]"
| "enc_http_server HttpServerPollReady = [0x5D, 0x12]"
| "enc_http_server HttpServerRemoveRequest = [0x5D, 0x13]"

section \<open>All instructions\<close>

definition HOST_CALL_EXT_DB :: u8 where "HOST_CALL_EXT_DB = 0xFD"
definition HOST_CALL_EXT_MAIL :: u8 where "HOST_CALL_EXT_MAIL = 0xFE"
definition HOST_CALL_EXT_CRYPTO :: u8 where "HOST_CALL_EXT_CRYPTO = 0xFF"

primrec encode_op :: "op \<Rightarrow> u8 list option" where
  "encode_op (Print ix) = Some (0x01 # write_u32_le ix)"
| "encode_op (PrintStrVal ix) = Some (0x02 # write_u32_le ix)"
| "encode_op (PrintRaw ix) = Some (0x03 # write_u32_le ix)"
| "encode_op (PrintRawStrVal ix) = Some (0x04 # write_u32_le ix)"
| "encode_op (PushI64 n) = Some (0x10 # to_le 8 n)"
| "encode_op (PushF64 x) = Some (0x12 # to_le 8 x)"
| "encode_op (PushBool b) = Some [0x11, b]"
| "encode_op (PushStr ix) = Some (0x13 # write_u32_le ix)"
| "encode_op (Jump tgt) = Some (0x30 # write_u32_le tgt)"
| "encode_op (JumpIfFalse tgt) = Some (0x31 # write_u32_le tgt)"
| "encode_op (Call tgt) = Some (0x70 # write_u32_le tgt)"
| "encode_op (CallSymbol s) = Some (0x00 # write_u32_le s)"
| "encode_op (ExternCall s argc float_mask ret_kind) =
     Some (0xE0 # write_u32_le s @ argc # write_u32_le float_mask @ [ret_kind])"
| "encode_op (LocalGet ix) = Some (0x60 # write_u32_le ix)"
| "encode_op (LocalSet ix) = Some (0x61 # write_u32_le ix)"
| "encode_op (SharedGetByName ix) = Some (0xC3 # write_u32_le ix)"
| "encode_op (ClosureNew func_id num_captures) =
     Some (0xCE # write_u32_le func_id @ write_u32_le num_captures)"
| "encode_op ClosureCapture = Some [0xCF]"
| "encode_op (ClosureCall num_args) = Some (0xD0 # write_u32_le num_args)"
| "encode_op (RcDecWithDeinit func_idx) = Some (0xD4 # write_u32_le func_idx)"
| "encode_op (RegionEnter region_id) = Some (0xD8 # write_u32_le region_id)"
| "encode_op (RegionExit region_id) = Some (0xD9 # write_u32_le region_id)"
| "encode_op (Panic msg_idx) = Some (0xDA # write_u32_le msg_idx)"
| "encode_op (SetUnwindHandler handler_ip) = Some (0xDB # write_u32_le handler_ip)"
| "encode_op (HostCallIo host_op) = Some [0xA1, host_io_op_as_u8 host_op]"
| "encode_op (HostCallNet host_op) = Some [0xA2, host_net_op_as_u8 host_op]"
| "encode_op (HostCallTime host_op) = Some [0xA3, host_time_op_as_u8 host_op]"
| "encode_op (HostCallDb host_op) = Some [0xA1, HOST_CALL_EXT_DB, host_db_op_as_u8 host_op]"
| "encode_op (HostCallMail host_op) = Some [0xA1, HOST_CALL_EXT_MAIL, host_mail_op_as_u8 host_op]"
| "encode_op (HostCallCrypto host_op) =
     Some [0xA1, HOST_CALL_EXT_CRYPTO, host_crypto_op_as_u8 host_op]"
| "encode_op HostCallGeneric = Some [0x4D]"
| "encode_op (TaskRunBody func_offset) = Some (0xAC # write_u32_le func_offset)"
| "encode_op (OpBase x) = Some (enc_base x)"
| "encode_op (OpArith x) = Some (enc_arith x)"
| "encode_op (OpConv x) = Some (enc_conv x)"
| "encode_op (OpFloat x) = Some (enc_float x)"
| "encode_op (OpList x) = Some (enc_list x)"
| "encode_op (OpMap x) = Some (enc_map x)"
| "encode_op (OpStr x) = Some (enc_str x)"
| "encode_op (OpOpt x) = Some (enc_opt x)"
| "encode_op (OpStruct x) = Some (enc_struct x)"
| "encode_op (OpEnum x) = Some (enc_enum x)"
| "encode_op (OpJson x) = Some (enc_json x)"
| "encode_op (OpHtml x) = Some (enc_html x)"
| "encode_op (OpTemplate x) = Some (enc_template x)"
| "encode_op (OpShared x) = Some (enc_shared x)"
| "encode_op (OpRc x) = Some (enc_rc x)"
| "encode_op (OpUnwind x) = Some (enc_unwind x)"
| "encode_op (OpTask x) = Some (enc_task x)"
| "encode_op (OpExecutor x) = Some (enc_executor x)"
| "encode_op (OpMpmc x) = Some (enc_mpmc x)"
| "encode_op (OpActor x) = Some (enc_actor x)"
| "encode_op (OpAtomic x) = Some (enc_atomic x)"
| "encode_op (OpEventLoop x) = Some (enc_event_loop x)"
| "encode_op (OpTimer x) = Some (enc_timer x)"
| "encode_op (OpTcp x) = Some (enc_tcp x)"
| "encode_op (OpHttp x) = Some (enc_http x)"
| "encode_op (OpHttpServer x) = Some (enc_http_server x)"
| "encode_op (OpBigDecimal x) = None"
| "encode_op (OpBigInt x) = None"

definition encodable :: "op \<Rightarrow> bool" where
  "encodable x \<longleftrightarrow> encode_op x \<noteq> None"

section \<open>The sections of a program\<close>

text \<open>\<^verbatim>\<open>for op in &p.code\<close>: a single instruction without an encoding makes the whole call panic.\<close>

fun encode_code :: "op list \<Rightarrow> u8 list option" where
  "encode_code [] = Some []"
| "encode_code (x # xs) =
     (case encode_op x of
        None \<Rightarrow> None
      | Some b \<Rightarrow> map_option ((@) b) (encode_code xs))"

definition encode_strings :: "rstring list \<Rightarrow> u8 list" where
  "encode_strings strs = write_u32_le (of_nat (length strs)) @ concat (map write_string strs)"

definition encode_async_entry :: "i64 \<times> u32 \<Rightarrow> u8 list" where
  "encode_async_entry e = to_le 8 (fst e) @ write_u32_le (snd e)"

definition encode_source_file :: "rstring option \<Rightarrow> u8 list" where
  "encode_source_file f = (case f of Some file \<Rightarrow> write_string file | None \<Rightarrow> write_u32_le 0)"

definition encode_debug_entry :: "debug_entry \<Rightarrow> u8 list" where
  "encode_debug_entry e =
     write_u32_le (entry_offset e) @ write_string (function_name e) @
     encode_source_file (source_file e) @ write_u32_le (line e)"

definition encode_async_dispatch :: "(i64 \<times> u32) list \<Rightarrow> u8 list" where
  "encode_async_dispatch d =
     write_u32_le (of_nat (length d)) @ concat (map encode_async_entry d)"

definition encode_debug_entries :: "debug_entry list \<Rightarrow> u8 list" where
  "encode_debug_entries d =
     write_u32_le (of_nat (length d)) @ concat (map encode_debug_entry d)"

definition encode_program :: "program \<Rightarrow> u8 list option" where
  "encode_program p =
     (case encode_code (code p) of
        None \<Rightarrow> None
      | Some c \<Rightarrow>
          Some (MAGIC @ encode_strings (strings p) @ write_u32_le (of_nat (length (code p))) @ c @
                encode_async_dispatch (async_dispatch p) @ encode_debug_entries (debug_entries p)))"

section \<open>Which instructions have an encoding\<close>

lemma encodable_iff: "encodable x \<longleftrightarrow> \<not> (\<exists>b. x = OpBigDecimal b) \<and> \<not> (\<exists>b. x = OpBigInt b)"
  by (cases x) (simp_all add: encodable_def)

lemma encode_code_Some_iff: "(\<exists>c. encode_code xs = Some c) \<longleftrightarrow> (\<forall>x\<in>set xs. encodable x)"
proof (induction xs)
  case Nil
  then show ?case by simp
next
  case (Cons x xs)
  then show ?case by (cases "encode_op x") (auto simp: encodable_def)
qed

lemma encode_code_eq:
  "encode_code xs = Some c \<Longrightarrow> c = concat (map (\<lambda>x. the (encode_op x)) xs)"
  by (induction xs arbitrary: c) (auto split: option.splits)

end
