(* ===== verification/Bytecode_Decode.thy ===== *)
theory Bytecode_Decode
  imports Bytecode_Encode
begin

text \<open>
  The readers of the bytecode format, \<^verbatim>\<open>decode_program\<close> and \<^verbatim>\<open>decode_program_detailed\<close> of
  \<^verbatim>\<open>crates/arth-vm/src/bytecode.rs\<close>. The arms of the source's \<^verbatim>\<open>match\<close> on the opcode that build an
  operand-free instruction are tables, one per instruction group; the arms that read operands are
  \<open>decode_operands\<close>. The interpretations of \<open>codec\<close> at the end tie each reader to its writer.
\<close>

section \<open>Opcodes without operands\<close>

definition base_table :: "(u8 \<times> base_op) list" where
  "base_table =
    [(0xFF, Halt), (0x05, PrintLn), (0x71, Ret), (0x40, Pop), (0x50, PrintTop)]"

definition arith_table :: "(u8 \<times> arith_op) list" where
  "arith_table =
    [(0x20, AddI64), (0x21, LtI64), (0x22, SubI64), (0x23, MulI64), (0x24, DivI64),
     (0x26, ModI64), (0x25, EqI64), (0x2C, EqStr), (0x2D, ConcatStr), (0x27, ShlI64),
     (0x28, ShrI64), (0x29, AndI64), (0x2A, OrI64), (0x2B, XorI64)]"

definition conv_table :: "(u8 \<times> conv_op) list" where
  "conv_table =
    [(0x62, ToF64), (0x63, ToI64), (0x66, ToI64OrEnumTag), (0x64, ToBool), (0x65, ToChar),
     (0x67, ToI8), (0x68, ToI16), (0x69, ToI32), (0x6A, ToU8), (0x6B, ToU16), (0x6C, ToU32),
     (0x6D, ToU64), (0x6E, ToF32)]"

definition float_table :: "(u8 \<times> float_op) list" where
  "float_table =
    [(0x90, SqrtF64), (0x91, PowF64), (0x92, SinF64), (0x93, CosF64), (0x94, TanF64),
     (0x95, FloorF64), (0x96, CeilF64), (0x97, RoundF64)]"

definition list_table :: "(u8 \<times> list_op) list" where
  "list_table =
    [(0xB0, ListNew), (0xB1, ListPush), (0xB2, ListGet), (0xB3, ListLen), (0xB8, ListSet),
     (0xBB, ListRemove), (0xC4, ListSort)]"

definition map_table :: "(u8 \<times> map_op) list" where
  "map_table =
    [(0xB4, MapNew), (0xB5, MapPut), (0xB6, MapGet), (0xB7, MapLen), (0xC6, MapContainsKey),
     (0xC8, MapRemove), (0xCC, MapKeys), (0xCD, MapMerge)]"

definition opt_table :: "(u8 \<times> opt_op) list" where
  "opt_table =
    [(0xA4, OptSome), (0xA5, OptNone), (0xA6, OptIsSome), (0xA7, OptUnwrap), (0xA8, OptOrElse)]"

definition struct_table :: "(u8 \<times> struct_op) list" where
  "struct_table =
    [(0x72, StructNew), (0x73, StructSet), (0x74, StructGet), (0x75, StructGetNamed),
     (0x76, StructCopy), (0x77, StructTypeName), (0x78, StructFieldCount)]"

definition enum_table :: "(u8 \<times> enum_op) list" where
  "enum_table =
    [(0x79, EnumNew), (0x7A, EnumSetPayload), (0x7B, EnumGetPayload), (0x7C, EnumGetTag),
     (0x7D, EnumGetVariant), (0x7E, EnumTypeName)]"

definition json_table :: "(u8 \<times> json_op) list" where
  "json_table =
    [(0xE1, JsonStringify), (0xE2, JsonParse), (0xE3, StructToJson), (0xE4, JsonToStruct)]"

definition html_table :: "(u8 \<times> html_op) list" where
  "html_table =
    [(0xE5, HtmlParse), (0xE6, HtmlParseFragment), (0xE7, HtmlStringify),
     (0xE8, HtmlStringifyPretty), (0xE9, HtmlFree), (0xEA, HtmlNodeType), (0xEB, HtmlTagName),
     (0xEC, HtmlTextContent), (0xED, HtmlInnerHtml), (0xEE, HtmlOuterHtml),
     (0xEF, HtmlGetAttr), (0xF0, HtmlHasAttr), (0xF1, HtmlAttrNames), (0xF2, HtmlParent),
     (0xF3, HtmlChildren), (0xF4, HtmlElementChildren), (0xF5, HtmlFirstChild),
     (0xF6, HtmlLastChild), (0xF7, HtmlNextSibling), (0xF8, HtmlPrevSibling),
     (0xF9, HtmlQuerySelector), (0xFA, HtmlQuerySelectorAll), (0xFB, HtmlGetById),
     (0xFC, HtmlGetByTag), (0xFD, HtmlGetByClass), (0xFE, HtmlHasClass)]"

definition template_table :: "(u8 \<times> template_op) list" where
  "template_table =
    [(0x80, TemplateCompile), (0x81, TemplateCompileFile), (0x82, TemplateRender),
     (0x83, TemplateRegisterPartial), (0x84, TemplateGetPartial),
     (0x85, TemplateUnregisterPartial), (0x86, TemplateFree), (0x87, TemplateEscapeHtml),
     (0x88, TemplateUnescapeHtml)]"

definition shared_table :: "(u8 \<times> shared_op) list" where
  "shared_table =
    [(0xC0, SharedNew), (0xC1, SharedStore), (0xC2, SharedLoad)]"

definition rc_table :: "(u8 \<times> rc_op) list" where
  "rc_table =
    [(0xD1, RcAlloc), (0xD2, RcInc), (0xD3, RcDec), (0xD5, RcLoad), (0xD6, RcStore),
     (0xD7, RcGetCount)]"

definition unwind_table :: "(u8 \<times> unwind_op) list" where
  "unwind_table =
    [(0xDC, ClearUnwindHandler), (0xDD, GetPanicMessage), (0xDE, Throw), (0xDF, GetException)]"

definition task_table :: "(u8 \<times> task_op) list" where
  "task_table =
    [(0xA9, TaskSpawn), (0xAA, TaskPushArg), (0xAB, TaskAwait)]"

definition executor_table :: "(u8 \<times> executor_op) list" where
  "executor_table =
    [(0xAD, ExecutorInit), (0xAE, ExecutorThreadCount), (0xAF, ExecutorActiveWorkers),
     (0x89, ExecutorSpawn), (0x8A, ExecutorJoin), (0x8B, ExecutorSpawnWithArg),
     (0x8C, ExecutorActiveExecutorCount), (0x8D, ExecutorWorkerTaskCount),
     (0x8E, ExecutorResetStats), (0x8F, ExecutorSpawnAwait)]"

definition mpmc_table :: "(u8 \<times> mpmc_op) list" where
  "mpmc_table =
    [(0x98, MpmcChanCreate), (0x99, MpmcChanSend), (0x9A, MpmcChanSendBlocking),
     (0x9B, MpmcChanRecv), (0x9C, MpmcChanRecvBlocking), (0x9D, MpmcChanClose),
     (0x9E, MpmcChanLen), (0x9F, MpmcChanIsEmpty), (0xA0, MpmcChanIsFull),
     (0x06, MpmcChanIsClosed), (0x07, MpmcChanCapacity), (0xB9, MpmcChanSendWithTask),
     (0xBA, MpmcChanRecvWithTask), (0xBC, MpmcChanRecvAndWake),
     (0xBD, MpmcChanPopWaitingSender), (0xBE, MpmcChanGetWaitingSenderValue),
     (0xBF, MpmcChanPopWaitingReceiver), (0xC5, MpmcChanWaitingSenderCount),
     (0xC7, MpmcChanWaitingReceiverCount), (0xC9, MpmcChanGetWokenSender),
     (0xCA, MpmcChanSendAndWake), (0xCB, MpmcChanGetWokenReceiver),
     (0x14, MpmcChanSelectClear), (0x15, MpmcChanSelectAdd), (0x16, MpmcChanSelectCount),
     (0x17, MpmcChanTrySelectRecv), (0x18, MpmcChanSelectRecvBlocking),
     (0x19, MpmcChanSelectRecvWithTask), (0x1A, MpmcChanSelectGetReadyIndex),
     (0x1B, MpmcChanSelectGetValue), (0x1C, MpmcChanSelectDeregister),
     (0x1D, MpmcChanSelectGetHandle)]"

definition actor_table :: "(u8 \<times> actor_op) list" where
  "actor_table =
    [(0x08, ActorCreate), (0x09, ActorSpawn), (0x0A, ActorSend), (0x0B, ActorSendBlocking),
     (0x0C, ActorRecv), (0x0D, ActorRecvBlocking), (0x0E, ActorClose), (0x0F, ActorStop),
     (0x1E, ActorGetTask), (0x1F, ActorGetMailbox), (0x2E, ActorIsRunning),
     (0x2F, ActorGetState), (0x3E, ActorMessageCount), (0x3F, ActorMailboxEmpty),
     (0x4E, ActorMailboxLen), (0x4F, ActorSetTask), (0x51, ActorIsFailed),
     (0x5E, ActorMarkStopped), (0x5F, ActorMarkFailed)]"

definition atomic_table :: "(u8 \<times> atomic_op) list" where
  "atomic_table =
    [(0x52, AtomicCreate), (0x53, AtomicLoad), (0x54, AtomicStore), (0x55, AtomicCas),
     (0x56, AtomicFetchAdd), (0x57, AtomicFetchSub), (0x58, AtomicSwap), (0x59, AtomicGet),
     (0x5A, AtomicSet), (0x5B, AtomicInc), (0x5C, AtomicDec)]"

definition event_loop_table :: "(u8 \<times> event_loop_op) list" where
  "event_loop_table =
    [(0x32, EventLoopCreate), (0x33, EventLoopRegisterTimer), (0x34, EventLoopRegisterFd),
     (0x35, EventLoopDeregister), (0x36, EventLoopPoll), (0x37, EventLoopGetEvent),
     (0x38, EventLoopGetEventType), (0x39, EventLoopClose), (0x3A, EventLoopPipeCreate),
     (0x3B, EventLoopPipeGetWriteFd), (0x3C, EventLoopPipeWrite), (0x3D, EventLoopPipeRead),
     (0x41, EventLoopPipeClose)]"

definition timer_table :: "(u8 \<times> timer_op) list" where
  "timer_table =
    [(0x42, TimerSleep), (0x43, TimerSleepAsync), (0x44, TimerCheckExpired),
     (0x45, TimerGetWaitingTask), (0x46, TimerCancel), (0x47, TimerPollExpired),
     (0x48, TimerNow), (0x49, TimerElapsed), (0x4A, TimerRemove), (0x4B, TimerRemaining)]"

definition nullary_table :: "(u8 \<times> op) list" where
  "nullary_table =
     map (apsnd OpBase) base_table @
     map (apsnd OpArith) arith_table @
     map (apsnd OpConv) conv_table @
     map (apsnd OpFloat) float_table @
     map (apsnd OpList) list_table @
     map (apsnd OpMap) map_table @
     map (apsnd OpOpt) opt_table @
     map (apsnd OpStruct) struct_table @
     map (apsnd OpEnum) enum_table @
     map (apsnd OpJson) json_table @
     map (apsnd OpHtml) html_table @
     map (apsnd OpTemplate) template_table @
     map (apsnd OpShared) shared_table @
     map (apsnd OpRc) rc_table @
     map (apsnd OpUnwind) unwind_table @
     map (apsnd OpTask) task_table @
     map (apsnd OpExecutor) executor_table @
     map (apsnd OpMpmc) mpmc_table @
     map (apsnd OpActor) actor_table @
     map (apsnd OpAtomic) atomic_table @
     map (apsnd OpEventLoop) event_loop_table @
     map (apsnd OpTimer) timer_table @
     [(0xCF, ClosureCapture), (0x4D, HostCallGeneric)]"

section \<open>Opcodes with a sub-opcode\<close>

definition tcp_sub_table :: "(u8 \<times> op) list" where
  "tcp_sub_table =
    [(0x00, OpTcp TcpListenerBind), (0x01, OpTcp TcpListenerAccept),
     (0x02, OpTcp TcpListenerAcceptAsync), (0x03, OpTcp TcpListenerClose),
     (0x04, OpTcp TcpListenerLocalPort), (0x05, OpTcp TcpStreamConnect),
     (0x06, OpTcp TcpStreamConnectAsync), (0x07, OpTcp TcpStreamRead),
     (0x08, OpTcp TcpStreamReadAsync), (0x09, OpTcp TcpStreamWrite),
     (0x0A, OpTcp TcpStreamWriteAsync), (0x0B, OpTcp TcpStreamClose),
     (0x0C, OpTcp TcpStreamGetLastRead), (0x0D, OpTcp TcpStreamSetTimeout),
     (0x0E, OpTcp TcpCheckReady), (0x0F, OpTcp TcpGetResult), (0x10, OpTcp TcpPollReady),
     (0x11, OpTcp TcpRemoveRequest)]"

definition http_sub_table :: "(u8 \<times> op) list" where
  "http_sub_table =
    [(0x00, OpHttp HttpGet), (0x01, OpHttp HttpPost), (0x02, OpHttp HttpGetAsync),
     (0x03, OpHttp HttpPostAsync), (0x04, OpHttp HttpResponseStatus),
     (0x05, OpHttp HttpResponseHeader), (0x06, OpHttp HttpResponseBody),
     (0x07, OpHttp HttpResponseClose), (0x08, OpHttp HttpCheckReady),
     (0x09, OpHttp HttpGetResult), (0x0A, OpHttp HttpPollReady),
     (0x0B, OpHttp HttpRemoveRequest), (0x0C, OpHttp HttpGetBodyLength),
     (0x0D, OpHttp HttpGetHeaderCount), (0x20, OpStruct StructSetNamed),
     (0x30, OpJson JsonGetField), (0x31, OpJson JsonGetIndex), (0x32, OpJson JsonGetString),
     (0x33, OpJson JsonGetNumber), (0x34, OpJson JsonGetBool), (0x35, OpJson JsonIsNull),
     (0x36, OpJson JsonIsObject), (0x37, OpJson JsonIsArray), (0x38, OpJson JsonArrayLen),
     (0x39, OpJson JsonKeys)]"

definition http_server_sub_table :: "(u8 \<times> op) list" where
  "http_server_sub_table =
    [(0x00, OpHttpServer HttpServerCreate), (0x01, OpHttpServer HttpServerClose),
     (0x02, OpHttpServer HttpServerGetPort), (0x03, OpHttpServer HttpServerAccept),
     (0x04, OpHttpServer HttpServerAcceptAsync), (0x05, OpHttpServer HttpRequestMethod),
     (0x06, OpHttpServer HttpRequestPath), (0x07, OpHttpServer HttpRequestHeader),
     (0x08, OpHttpServer HttpRequestBody), (0x09, OpHttpServer HttpRequestHeaderCount),
     (0x0A, OpHttpServer HttpRequestBodyLength), (0x0B, OpHttpServer HttpWriterStatus),
     (0x0C, OpHttpServer HttpWriterHeader), (0x0D, OpHttpServer HttpWriterBody),
     (0x0E, OpHttpServer HttpWriterSend), (0x0F, OpHttpServer HttpWriterSendAsync),
     (0x10, OpHttpServer HttpServerCheckReady), (0x11, OpHttpServer HttpServerGetResult),
     (0x12, OpHttpServer HttpServerPollReady), (0x13, OpHttpServer HttpServerRemoveRequest)]"

definition str_sub_table :: "(u8 \<times> op) list" where
  "str_sub_table =
    [(0x00, OpStr StrLen), (0x01, OpStr StrSubstring), (0x02, OpStr StrIndexOf),
     (0x03, OpStr StrLastIndexOf), (0x04, OpStr StrStartsWith), (0x05, OpStr StrEndsWith),
     (0x06, OpStr StrSplit), (0x07, OpStr StrTrim), (0x08, OpStr StrToLower),
     (0x09, OpStr StrToUpper), (0x0A, OpStr StrReplace), (0x0B, OpStr StrCharAt),
     (0x0C, OpStr StrContains), (0x0D, OpStr StrRepeat), (0x0E, OpStr StrParseInt),
     (0x0F, OpStr StrParseFloat), (0x10, OpStr StrFromInt), (0x11, OpStr StrFromFloat)]"

definition decode_sub ::
  "string \<Rightarrow> string \<Rightarrow> u8 \<Rightarrow> (u8 \<times> op) list \<Rightarrow> u8 list \<Rightarrow> usize \<Rightarrow> message + op \<times> usize" where
  "decode_sub expected category opcode table bs off =
     bind_res
       (read_byte (\<lambda>bs o1. Rendered (new_error (UnexpectedEof expected) Instructions o1 bs)) bs off)
       (\<lambda>(b, off1).
          case map_of table b of
            Some x \<Rightarrow> Inr (x, off1)
          | None \<Rightarrow>
              Inl (Rendered
                (new_error (UnknownSubOpcode category opcode b) Instructions (off1 - 1) bs)))"

section \<open>Opcodes with operands\<close>

text \<open>The two hex digits of \<^verbatim>\<open>{:02x}\<close>.\<close>

definition hex_digit :: "nat \<Rightarrow> char" where
  "hex_digit n = ''0123456789abcdef'' ! n"

definition hex02 :: "u8 \<Rightarrow> string" where
  "hex02 b = [hex_digit (unat b div 16), hex_digit (unat b mod 16)]"

definition with_u32 :: "(u32 \<Rightarrow> op) \<Rightarrow> u8 list \<Rightarrow> usize \<Rightarrow> message + op \<times> usize" where
  "with_u32 f bs off = bind_res (read_u32_le bs off) (\<lambda>(n, off1). Inr (f n, off1))"

definition read_host_op :: "string \<Rightarrow> (u8 \<Rightarrow> 'a option) \<Rightarrow> u8 list \<Rightarrow> usize \<Rightarrow> message + 'a \<times> usize" where
  "read_host_op name =
     read_tag (\<lambda>_ _. Text (''unexpected EOF while reading '' @ name))
       (\<lambda>b. Text (''unknown '' @ name @ '': 0x'' @ hex02 b))"

definition with_host_op ::
  "string \<Rightarrow> (u8 \<Rightarrow> 'a option) \<Rightarrow> ('a \<Rightarrow> op) \<Rightarrow> u8 list \<Rightarrow> usize \<Rightarrow> message + op \<times> usize" where
  "with_host_op name from_u8 f bs off =
     bind_res (read_host_op name from_u8 bs off) (\<lambda>(x, off1). Inr (f x, off1))"

text \<open>
  Opcode \<^verbatim>\<open>0xA1\<close>: a file operation, or one of three extension tags followed by an operation of
  that extension.
\<close>

definition decode_host_io :: "u8 list \<Rightarrow> usize \<Rightarrow> message + op \<times> usize" where
  "decode_host_io bs off =
     bind_res (read_byte (\<lambda>_ _. Text ''unexpected EOF while reading HostIoOp'') bs off)
       (\<lambda>(b, off1).
          if b = HOST_CALL_EXT_DB then
            with_host_op ''HostDbOp'' host_db_op_from_u8 HostCallDb bs off1
          else if b = HOST_CALL_EXT_MAIL then
            with_host_op ''HostMailOp'' host_mail_op_from_u8 HostCallMail bs off1
          else if b = HOST_CALL_EXT_CRYPTO then
            with_host_op ''HostCryptoOp'' host_crypto_op_from_u8 HostCallCrypto bs off1
          else
            (case host_io_op_from_u8 b of
               None \<Rightarrow> Inl (Text (''unknown HostIoOp: 0x'' @ hex02 b))
             | Some x \<Rightarrow> Inr (HostCallIo x, off1)))"

definition decode_extern_call :: "u8 list \<Rightarrow> usize \<Rightarrow> message + op \<times> usize" where
  "decode_extern_call bs off =
     bind_res (read_u32_le bs off) (\<lambda>(s, off1).
     bind_res (read_byte (\<lambda>_ _. Text ''unexpected EOF while reading extern argc'') bs off1)
       (\<lambda>(argc, off2).
     bind_res (read_u32_le bs off2) (\<lambda>(float_mask, off3).
     bind_res (read_byte (\<lambda>_ _. Text ''unexpected EOF while reading extern ret_kind'') bs off3)
       (\<lambda>(ret_kind, off4). Inr (ExternCall s argc float_mask ret_kind, off4)))))"

definition decode_closure_new :: "u8 list \<Rightarrow> usize \<Rightarrow> message + op \<times> usize" where
  "decode_closure_new bs off =
     bind_res (read_u32_le bs off) (\<lambda>(func_id, off1).
     bind_res (read_u32_le bs off1) (\<lambda>(num_captures, off2).
       Inr (ClosureNew func_id num_captures, off2)))"

definition decode_push_i64 :: "u8 list \<Rightarrow> usize \<Rightarrow> message + op \<times> usize" where
  "decode_push_i64 bs off =
     bind_res (read_le 8 (\<lambda>_ _. Text ''unexpected EOF while reading i64'') bs off)
       (\<lambda>(n, off1). Inr (PushI64 n, off1))"

definition decode_push_f64 :: "u8 list \<Rightarrow> usize \<Rightarrow> message + op \<times> usize" where
  "decode_push_f64 bs off =
     bind_res (read_le 8 (\<lambda>_ _. Text ''unexpected EOF while reading f64'') bs off)
       (\<lambda>(x, off1). Inr (PushF64 x, off1))"

definition decode_push_bool :: "u8 list \<Rightarrow> usize \<Rightarrow> message + op \<times> usize" where
  "decode_push_bool bs off =
     bind_res (read_byte (\<lambda>_ _. Text ''unexpected EOF while reading bool'') bs off)
       (\<lambda>(b, off1). Inr (PushBool b, off1))"

definition operand_readers :: "(u8 \<times> (u8 list \<Rightarrow> usize \<Rightarrow> message + op \<times> usize)) list" where
  "operand_readers =
     [(0x01, with_u32 Print), (0x02, with_u32 PrintStrVal), (0x03, with_u32 PrintRaw),
      (0x04, with_u32 PrintRawStrVal), (0x10, decode_push_i64), (0x12, decode_push_f64),
      (0x11, decode_push_bool), (0x13, with_u32 PushStr), (0x30, with_u32 Jump),
      (0x31, with_u32 JumpIfFalse), (0x70, with_u32 Call), (0x00, with_u32 CallSymbol),
      (0xE0, decode_extern_call), (0x60, with_u32 LocalGet), (0x61, with_u32 LocalSet),
      (0xC3, with_u32 SharedGetByName), (0xCE, decode_closure_new), (0xD0, with_u32 ClosureCall),
      (0xD4, with_u32 RcDecWithDeinit), (0xD8, with_u32 RegionEnter), (0xD9, with_u32 RegionExit),
      (0xDA, with_u32 Panic), (0xDB, with_u32 SetUnwindHandler), (0xA1, decode_host_io),
      (0xA2, with_host_op ''HostNetOp'' host_net_op_from_u8 HostCallNet),
      (0xA3, with_host_op ''HostTimeOp'' host_time_op_from_u8 HostCallTime),
      (0xAC, with_u32 TaskRunBody),
      (0x6F, decode_sub ''TCP sub-opcode'' ''TCP'' 0x6F tcp_sub_table),
      (0x7F, decode_sub ''HTTP client sub-opcode'' ''HTTP client'' 0x7F http_sub_table),
      (0x5D, decode_sub ''HTTP server sub-opcode'' ''HTTP server'' 0x5D http_server_sub_table),
      (0x4C, decode_sub ''String sub-opcode'' ''String'' 0x4C str_sub_table)]"

text \<open>One turn of the decoding loop: the opcode, then whatever its arm of the match reads.\<close>

definition decode_op :: "u8 list \<Rightarrow> usize \<Rightarrow> message + op \<times> usize" where
  "decode_op bs off =
     (if length bs \<le> off then
        Inl (Rendered (new_error (UnexpectedEof ''opcode'') Instructions off bs))
      else case map_of nullary_table (bs ! off) of
             Some x \<Rightarrow> Inr (x, off + 1)
           | None \<Rightarrow>
               (case map_of operand_readers (bs ! off) of
                  Some rd \<Rightarrow> rd bs (off + 1)
                | None \<Rightarrow>
                    Inl (Rendered (new_error (UnknownOpcode (bs ! off)) Instructions off bs))))"

section \<open>The opcode tables agree with the writer\<close>

lemmas single_table_defs =
  base_table_def arith_table_def conv_table_def float_table_def list_table_def map_table_def opt_table_def struct_table_def enum_table_def json_table_def html_table_def template_table_def shared_table_def rc_table_def unwind_table_def task_table_def executor_table_def mpmc_table_def actor_table_def atomic_table_def event_loop_table_def timer_table_def
lemmas sub_table_defs =
  tcp_sub_table_def http_sub_table_def http_server_sub_table_def str_sub_table_def

definition all_opcodes :: "nat list" where
  "all_opcodes = map (unat \<circ> fst) nullary_table @ map (unat \<circ> fst) operand_readers"

lemma all_opcodes_distinct: "distinct all_opcodes"
  by (simp add: all_opcodes_def nullary_table_def operand_readers_def single_table_defs)

lemma nullary_table_keys: "distinct (map fst nullary_table)"
  by (rule distinct_unat_keys) (use all_opcodes_distinct in \<open>simp add: all_opcodes_def\<close>)

lemma operand_readers_keys: "distinct (map fst operand_readers)"
  by (rule distinct_unat_keys) (use all_opcodes_distinct in \<open>simp add: all_opcodes_def\<close>)

lemma operand_nullary_disjoint:
  assumes "(b, rd) \<in> set operand_readers"
  shows "map_of nullary_table b = None"
proof (rule ccontr)
  assume "map_of nullary_table b \<noteq> None"
  then obtain x where "(b, x) \<in> set nullary_table" by (auto dest: map_of_SomeD)
  then have "unat b \<in> set (map (unat \<circ> fst) nullary_table)" by force
  moreover from assms have "unat b \<in> set (map (unat \<circ> fst) operand_readers)" by force
  ultimately show False using all_opcodes_distinct by (auto simp: all_opcodes_def)
qed

lemma nullary_table_sound: "list_all (\<lambda>(b, x). encode_op x = Some [b]) nullary_table"
  by (simp add: nullary_table_def single_table_defs)

end
