(* ===== verification/Op_Codec.thy ===== *)
theory Op_Codec
  imports Bytecode_Decode
begin

section \<open>Each arm of the reader inverts the writer\<close>

text \<open>
  What an arm of the match owes: after opcode \<open>b\<close>, whatever it accepts is an instruction whose
  encoding is \<open>b\<close> and exactly the bytes it consumed.
\<close>

definition reader_sound :: "u8 \<Rightarrow> (u8 list \<Rightarrow> usize \<Rightarrow> message + op \<times> usize) \<Rightarrow> bool" where
  "reader_sound b rd \<longleftrightarrow>
     (\<forall>bs off x off'. off \<le> length bs \<longrightarrow> rd bs off = Inr (x, off') \<longrightarrow>
       (\<exists>ys. encode_op x = Some (b # ys) \<and> off' = off + length ys \<and> bytes_at bs off ys))"

lemma reader_soundI:
  assumes "\<And>bs off x off'. off \<le> length bs \<Longrightarrow> rd bs off = Inr (x, off') \<Longrightarrow>
    \<exists>ys. encode_op x = Some (b # ys) \<and> off' = off + length ys \<and> bytes_at bs off ys"
  shows "reader_sound b rd"
  using assms by (auto simp: reader_sound_def)

lemma reader_sound_u32:
  assumes "\<And>n. encode_op (f n) = Some (b # write_u32_le n)"
  shows "reader_sound b (with_u32 f)"
  using assms by (intro reader_soundI) (auto simp: with_u32_def bind_res_Inr dest: u32_le.dec_sound)

lemma reader_sound_sub:
  assumes "list_all (\<lambda>(s, x). encode_op x = Some [b, s]) table"
  shows "reader_sound b (decode_sub expected category c table)"
  using assms
  by (intro reader_soundI)
    (auto simp: decode_sub_def bind_res_Inr read_byte_def list_all_iff bytes_at_Cons
      split: if_splits option.splits dest!: map_of_SomeD)

context byte_enum
begin

lemma with_host_op_sound:
  "with_host_op name from_u8 f bs off = Inr (x, off') \<Longrightarrow>
   \<exists>h. x = f h \<and> off' = Suc off \<and> bytes_at bs off [as_u8 h]"
  by (auto simp: with_host_op_def read_host_op_def read_tag_def bind_res_Inr read_byte_def bytes_at_Cons
      split: if_splits option.splits) (metis as_from)

lemma with_host_op_complete:
  "bytes_at bs off [as_u8 h] \<Longrightarrow> with_host_op name from_u8 f bs off = Inr (f h, Suc off)"
  by (auto simp: with_host_op_def read_host_op_def read_tag_def read_byte_def bytes_at_Cons from_as)

lemma reader_sound_host:
  assumes "\<And>h. encode_op (f h) = Some [b, as_u8 h]"
  shows "reader_sound b (with_host_op name from_u8 f)"
  using assms by (intro reader_soundI) (auto dest!: with_host_op_sound)

end

lemma host_ext_distinct [simp]:
  "HOST_CALL_EXT_DB \<noteq> HOST_CALL_EXT_MAIL" "HOST_CALL_EXT_DB \<noteq> HOST_CALL_EXT_CRYPTO"
  "HOST_CALL_EXT_MAIL \<noteq> HOST_CALL_EXT_CRYPTO"
  by (simp_all add: HOST_CALL_EXT_DB_def HOST_CALL_EXT_MAIL_def HOST_CALL_EXT_CRYPTO_def)

text \<open>No file operation has the discriminant of an extension tag.\<close>

lemma host_io_not_ext [simp]:
  "host_io_op_as_u8 h \<noteq> HOST_CALL_EXT_DB" "host_io_op_as_u8 h \<noteq> HOST_CALL_EXT_MAIL"
  "host_io_op_as_u8 h \<noteq> HOST_CALL_EXT_CRYPTO"
  by (cases h; simp add: HOST_CALL_EXT_DB_def HOST_CALL_EXT_MAIL_def HOST_CALL_EXT_CRYPTO_def)+

lemma reader_sound_host_io: "reader_sound 0xA1 decode_host_io"
  by (intro reader_soundI)
    (auto simp: decode_host_io_def bind_res_Inr read_byte_def bytes_at_Cons
      split: if_splits option.splits dest!: host_io_op.as_from host_db_op.with_host_op_sound
        host_mail_op.with_host_op_sound host_crypto_op.with_host_op_sound)

interpretation i64_le: codec "to_le 8 :: u64 \<Rightarrow> u8 list" "read_le 8 eof" "\<lambda>_. True" for eof
  by (rule codec_read_le) simp

interpretation one_byte: codec "\<lambda>b. [b]" "read_byte eof" "\<lambda>_. True" for eof
  by (rule codec_read_byte)

lemma reader_sound_push:
  "reader_sound 0x10 decode_push_i64" "reader_sound 0x12 decode_push_f64"
  "reader_sound 0x11 decode_push_bool"
  by (rule reader_soundI; auto simp: decode_push_i64_def decode_push_f64_def decode_push_bool_def bind_res_Inr
      dest: i64_le.dec_sound one_byte.dec_sound)+

lemma reader_sound_closure_new: "reader_sound 0xCE decode_closure_new"
proof (intro reader_soundI)
  fix bs off x off'
  assume off: "off \<le> length bs" and "decode_closure_new bs off = Inr (x, off')"
  then obtain f off1 n where f: "read_u32_le bs off = Inr (f, off1)"
    and n: "read_u32_le bs off1 = Inr (n, off')" and x: "x = ClosureNew f n"
    by (auto simp: decode_closure_new_def bind_res_Inr)
  note u32_le.dec_sound [OF off f] u32_le.dec_sound [OF u32_le.dec_off_le [OF off f] n]
  then show "\<exists>ys. encode_op x = Some (0xCE # ys) \<and> off' = off + length ys \<and> bytes_at bs off ys"
    using x by auto
qed

lemma reader_sound_extern_call: "reader_sound 0xE0 decode_extern_call"
proof (intro reader_soundI)
  let ?e1 = "\<lambda>_ _. Text ''unexpected EOF while reading extern argc''"
  let ?e2 = "\<lambda>_ _. Text ''unexpected EOF while reading extern ret_kind''"
  fix bs off x off'
  assume off: "off \<le> length bs" and "decode_extern_call bs off = Inr (x, off')"
  then obtain s o1 a o2 m o3 r where s: "read_u32_le bs off = Inr (s, o1)"
    and a: "read_byte ?e1 bs o1 = Inr (a, o2)" and m: "read_u32_le bs o2 = Inr (m, o3)"
    and r: "read_byte ?e2 bs o3 = Inr (r, off')" and x: "x = ExternCall s a m r"
    by (auto simp: decode_extern_call_def bind_res_Inr)
  note o1 = u32_le.dec_off_le [OF off s]
  note o2 = one_byte.dec_off_le [OF o1 a]
  note o3 = u32_le.dec_off_le [OF o2 m]
  from u32_le.dec_sound [OF off s] one_byte.dec_sound [OF o1 a] u32_le.dec_sound [OF o2 m]
    one_byte.dec_sound [OF o3 r]
  show "\<exists>ys. encode_op x = Some (0xE0 # ys) \<and> off' = off + length ys \<and> bytes_at bs off ys"
    using x by (auto simp: algebra_simps eval_nat_numeral bytes_at_Cons)
qed

lemma sub_tables_sound:
  "list_all (\<lambda>(s, x). encode_op x = Some [0x6F, s]) tcp_sub_table"
  "list_all (\<lambda>(s, x). encode_op x = Some [0x7F, s]) http_sub_table"
  "list_all (\<lambda>(s, x). encode_op x = Some [0x5D, s]) http_server_sub_table"
  "list_all (\<lambda>(s, x). encode_op x = Some [0x4C, s]) str_sub_table"
  by (simp_all add: sub_table_defs)

lemma operand_readers_sound: "list_all (\<lambda>(b, rd). reader_sound b rd) operand_readers"
  by (simp add: operand_readers_def reader_sound_u32 reader_sound_sub [OF sub_tables_sound(1)]
      reader_sound_sub [OF sub_tables_sound(2)] reader_sound_sub [OF sub_tables_sound(3)]
      reader_sound_sub [OF sub_tables_sound(4)] reader_sound_push reader_sound_closure_new
      reader_sound_extern_call reader_sound_host_io host_net_op.reader_sound_host
      host_time_op.reader_sound_host)

lemma decode_op_sound:
  assumes off: "off \<le> length bs" and ok: "decode_op bs off = Inr (x, off')"
  shows "encodable x \<and> off' = off + length (the (encode_op x)) \<and> bytes_at bs off (the (encode_op x))"
proof -
  have lt: "off < length bs" using ok by (simp add: decode_op_def split: if_splits)
  show ?thesis
  proof (cases "map_of nullary_table (bs ! off)")
    case (Some y)
    with ok lt have "x = y" "off' = off + 1" by (auto simp: decode_op_def)
    with Some nullary_table_sound have "encode_op x = Some [bs ! off]"
      by (auto simp: list_all_iff dest: map_of_SomeD)
    with lt \<open>off' = off + 1\<close> show ?thesis by (simp add: encodable_def bytes_at_Cons)
  next
    case None
    with ok lt obtain rd where rd: "map_of operand_readers (bs ! off) = Some rd"
      and r: "rd bs (off + 1) = Inr (x, off')"
      by (auto simp: decode_op_def split: option.splits)
    from map_of_SomeD [OF rd] operand_readers_sound have "reader_sound (bs ! off) rd"
      by (auto simp: list_all_iff)
    moreover from lt have "off + 1 \<le> length bs" by simp
    ultimately obtain ys where "encode_op x = Some (bs ! off # ys)" "off' = off + 1 + length ys"
        "bytes_at bs (off + 1) ys"
      using r unfolding reader_sound_def by blast
    with lt show ?thesis by (simp add: encodable_def bytes_at_Cons)
  qed
qed

section \<open>Every instruction the writer accepts has an arm\<close>

lemma decode_op_nullary:
  assumes "(b, x) \<in> set nullary_table" and "bytes_at bs off [b]"
  shows "decode_op bs off = Inr (x, off + 1)"
  using assms map_of_is_SomeI [OF nullary_table_keys assms(1)]
  by (auto simp: decode_op_def bytes_at_Cons)

lemma decode_op_operand:
  assumes "(b, rd) \<in> set operand_readers" and "bytes_at bs off (b # ys)"
  shows "decode_op bs off = rd bs (off + 1)"
  using assms map_of_is_SomeI [OF operand_readers_keys assms(1)] operand_nullary_disjoint [OF assms(1)]
  by (auto simp: decode_op_def bytes_at_Cons)

definition op_complete :: "op \<Rightarrow> bool" where
  "op_complete x \<longleftrightarrow>
     (\<forall>bs off. bytes_at bs off (the (encode_op x)) \<longrightarrow>
        decode_op bs off = Inr (x, off + length (the (encode_op x))))"

lemma op_complete_nullary: "x \<in> snd ` set nullary_table \<Longrightarrow> op_complete x"
  using nullary_table_sound by (auto simp: op_complete_def list_all_iff decode_op_nullary)

lemma op_complete_operand:
  assumes "(b, rd) \<in> set operand_readers" and "encode_op x = Some (b # ys)"
    and "\<And>bs off. bytes_at bs off ys \<Longrightarrow> rd bs off = Inr (x, off + length ys)"
  shows "op_complete x"
  using assms decode_op_operand [OF assms(1)] by (auto simp: op_complete_def bytes_at_Cons)

lemma op_complete_u32:
  assumes "(b, with_u32 f) \<in> set operand_readers" and "encode_op (f n) = Some (b # write_u32_le n)"
  shows "op_complete (f n)"
  using assms by (rule op_complete_operand) (simp add: with_u32_def u32_le.dec_enc)

lemma op_complete_sub:
  assumes "(b, decode_sub e c b table) \<in> set operand_readers"
    and "list_all (\<lambda>(s, x). encode_op x = Some [b, s]) table" and "distinct (map (unat \<circ> fst) table)"
    and "x \<in> snd ` set table"
  shows "op_complete x"
proof -
  from assms(4) obtain s where s: "(s, x) \<in> set table" by auto
  with assms(2) have enc: "encode_op x = Some [b, s]" by (auto simp: list_all_iff)
  have "map_of table s = Some x"
    using distinct_unat_keys [OF assms(3)] s by (rule map_of_is_SomeI)
  then show ?thesis
    by (intro op_complete_operand [OF assms(1) enc])
      (simp add: decode_sub_def read_byte_def bytes_at_Cons)
qed

lemma op_complete_tcp_sub: "x \<in> snd ` set tcp_sub_table \<Longrightarrow> op_complete x"
  by (rule op_complete_sub [OF _ sub_tables_sound(1)])
    (simp_all add: operand_readers_def tcp_sub_table_def)

lemma op_complete_http_sub: "x \<in> snd ` set http_sub_table \<Longrightarrow> op_complete x"
  by (rule op_complete_sub [OF _ sub_tables_sound(2)])
    (simp_all add: operand_readers_def http_sub_table_def)

lemma op_complete_http_server_sub: "x \<in> snd ` set http_server_sub_table \<Longrightarrow> op_complete x"
  by (rule op_complete_sub [OF _ sub_tables_sound(3)])
    (simp_all add: operand_readers_def http_server_sub_table_def)

lemma op_complete_str_sub: "x \<in> snd ` set str_sub_table \<Longrightarrow> op_complete x"
  by (rule op_complete_sub [OF _ sub_tables_sound(4)])
    (simp_all add: operand_readers_def str_sub_table_def)

text \<open>Every group's table lists every instruction of the group.\<close>

lemma in_tagged: "g \<in> snd ` set t \<Longrightarrow> f g \<in> snd ` set (map (apsnd f) t)"
  by force

lemma base_table_complete [simp]: "x \<in> snd ` set base_table"
  by (cases x) (simp_all add: base_table_def)

lemma arith_table_complete [simp]: "x \<in> snd ` set arith_table"
  by (cases x) (simp_all add: arith_table_def)

lemma conv_table_complete [simp]: "x \<in> snd ` set conv_table"
  by (cases x) (simp_all add: conv_table_def)

lemma float_table_complete [simp]: "x \<in> snd ` set float_table"
  by (cases x) (simp_all add: float_table_def)

lemma list_table_complete [simp]: "x \<in> snd ` set list_table"
  by (cases x) (simp_all add: list_table_def)

lemma map_table_complete [simp]: "x \<in> snd ` set map_table"
  by (cases x) (simp_all add: map_table_def)

lemma opt_table_complete [simp]: "x \<in> snd ` set opt_table"
  by (cases x) (simp_all add: opt_table_def)

lemma enum_table_complete [simp]: "x \<in> snd ` set enum_table"
  by (cases x) (simp_all add: enum_table_def)

lemma html_table_complete [simp]: "x \<in> snd ` set html_table"
  by (cases x) (simp_all add: html_table_def)

lemma template_table_complete [simp]: "x \<in> snd ` set template_table"
  by (cases x) (simp_all add: template_table_def)

lemma shared_table_complete [simp]: "x \<in> snd ` set shared_table"
  by (cases x) (simp_all add: shared_table_def)

lemma rc_table_complete [simp]: "x \<in> snd ` set rc_table"
  by (cases x) (simp_all add: rc_table_def)

lemma unwind_table_complete [simp]: "x \<in> snd ` set unwind_table"
  by (cases x) (simp_all add: unwind_table_def)

lemma task_table_complete [simp]: "x \<in> snd ` set task_table"
  by (cases x) (simp_all add: task_table_def)

lemma executor_table_complete [simp]: "x \<in> snd ` set executor_table"
  by (cases x) (simp_all add: executor_table_def)

lemma mpmc_table_complete [simp]: "x \<in> snd ` set mpmc_table"
  by (cases x) (simp_all add: mpmc_table_def)

lemma actor_table_complete [simp]: "x \<in> snd ` set actor_table"
  by (cases x) (simp_all add: actor_table_def)

lemma atomic_table_complete [simp]: "x \<in> snd ` set atomic_table"
  by (cases x) (simp_all add: atomic_table_def)

lemma event_loop_table_complete [simp]: "x \<in> snd ` set event_loop_table"
  by (cases x) (simp_all add: event_loop_table_def)

lemma timer_table_complete [simp]: "x \<in> snd ` set timer_table"
  by (cases x) (simp_all add: timer_table_def)

lemma json_table_complete: "x \<in> snd ` set json_table \<or> OpJson x \<in> snd ` set http_sub_table"
  by (cases x) (simp_all add: json_table_def http_sub_table_def)

lemma struct_table_complete: "x \<in> snd ` set struct_table \<or> OpStruct x \<in> snd ` set http_sub_table"
  by (cases x) (simp_all add: struct_table_def http_sub_table_def)

lemma tcp_sub_table_complete: "OpTcp x \<in> snd ` set tcp_sub_table"
  by (cases x) (simp_all add: tcp_sub_table_def)

lemma http_sub_table_complete: "OpHttp x \<in> snd ` set http_sub_table"
  by (cases x) (simp_all add: http_sub_table_def)

lemma http_server_sub_table_complete: "OpHttpServer x \<in> snd ` set http_server_sub_table"
  by (cases x) (simp_all add: http_server_sub_table_def)

lemma str_sub_table_complete: "OpStr x \<in> snd ` set str_sub_table"
  by (cases x) (simp_all add: str_sub_table_def)

lemma nullary_table_complete:
  "OpBase x1 \<in> snd ` set nullary_table" "OpArith x2 \<in> snd ` set nullary_table"
  "OpConv x3 \<in> snd ` set nullary_table" "OpFloat x4 \<in> snd ` set nullary_table"
  "OpList x5 \<in> snd ` set nullary_table" "OpMap x6 \<in> snd ` set nullary_table"
  "OpOpt x7 \<in> snd ` set nullary_table" "OpEnum x8 \<in> snd ` set nullary_table"
  "OpHtml x9 \<in> snd ` set nullary_table" "OpTemplate x10 \<in> snd ` set nullary_table"
  "OpShared x11 \<in> snd ` set nullary_table" "OpRc x12 \<in> snd ` set nullary_table"
  "OpUnwind x13 \<in> snd ` set nullary_table" "OpTask x14 \<in> snd ` set nullary_table"
  "OpExecutor x15 \<in> snd ` set nullary_table" "OpMpmc x16 \<in> snd ` set nullary_table"
  "OpActor x17 \<in> snd ` set nullary_table" "OpAtomic x18 \<in> snd ` set nullary_table"
  "OpEventLoop x19 \<in> snd ` set nullary_table" "OpTimer x20 \<in> snd ` set nullary_table"
  "x21 \<in> snd ` set struct_table \<Longrightarrow> OpStruct x21 \<in> snd ` set nullary_table"
  "x22 \<in> snd ` set json_table \<Longrightarrow> OpJson x22 \<in> snd ` set nullary_table"
  "ClosureCapture \<in> snd ` set nullary_table" "HostCallGeneric \<in> snd ` set nullary_table"
  unfolding nullary_table_def set_append image_Un Un_iff by (simp_all add: in_tagged del: set_map)

lemmas op_complete_intros =
  nullary_table_complete [THEN op_complete_nullary]
  op_complete_tcp_sub [OF tcp_sub_table_complete]
  op_complete_http_sub [OF http_sub_table_complete]
  op_complete_http_server_sub [OF http_server_sub_table_complete]
  op_complete_str_sub [OF str_sub_table_complete]

lemma op_complete_json: "op_complete (OpJson x)"
  using json_table_complete [of x] by (auto intro: op_complete_intros op_complete_http_sub simp del: set_map)

lemma op_complete_struct: "op_complete (OpStruct x)"
  using struct_table_complete [of x] by (auto intro: op_complete_intros op_complete_http_sub simp del: set_map)

lemma op_complete_push_i64: "op_complete (PushI64 x)"
  by (rule op_complete_operand [where b = "0x10" and rd = decode_push_i64],
      simp add: operand_readers_def, simp, simp add: decode_push_i64_def i64_le.dec_enc)

lemma op_complete_push_f64: "op_complete (PushF64 x)"
  by (rule op_complete_operand [where b = "0x12" and rd = decode_push_f64],
      simp add: operand_readers_def, simp, simp add: decode_push_f64_def i64_le.dec_enc)

lemma op_complete_push_bool: "op_complete (PushBool x)"
  by (rule op_complete_operand [where b = "0x11" and rd = decode_push_bool],
      simp add: operand_readers_def, simp, simp add: decode_push_bool_def one_byte.dec_enc)

text \<open>The instructions with one \<^verbatim>\<open>u32\<close> operand, with their opcodes.\<close>

definition u32_instrs :: "(u8 \<times> (u32 \<Rightarrow> op)) list" where
  "u32_instrs =
     [(0x01, Print), (0x02, PrintStrVal), (0x03, PrintRaw), (0x04, PrintRawStrVal),
      (0x13, PushStr), (0x30, Jump), (0x31, JumpIfFalse), (0x70, Call),
      (0x00, CallSymbol), (0x60, LocalGet), (0x61, LocalSet), (0xC3, SharedGetByName),
      (0xD0, ClosureCall), (0xD4, RcDecWithDeinit), (0xD8, RegionEnter), (0xD9, RegionExit),
      (0xDA, Panic), (0xDB, SetUnwindHandler), (0xAC, TaskRunBody)]"

lemma op_complete_u32_instrs: "(b, f) \<in> set u32_instrs \<Longrightarrow> op_complete (f n)"
proof (rule op_complete_u32)
  assume bf: "(b, f) \<in> set u32_instrs"
  have "list_all (\<lambda>(b, f). (b, with_u32 f) \<in> set operand_readers) u32_instrs"
    by (simp add: u32_instrs_def operand_readers_def)
  with bf show "(b, with_u32 f) \<in> set operand_readers" by (auto simp: list_all_iff)
  have "list_all (\<lambda>(b, f). encode_op (f n) = Some (b # write_u32_le n)) u32_instrs"
    by (simp add: u32_instrs_def)
  with bf show "encode_op (f n) = Some (b # write_u32_le n)" by (auto simp: list_all_iff)
qed

lemma op_complete_host_net: "op_complete (HostCallNet x)"
  by (rule op_complete_operand
      [where b = "0xA2" and rd = "with_host_op ''HostNetOp'' host_net_op_from_u8 HostCallNet"],
      simp add: operand_readers_def, simp, simp add: host_net_op.with_host_op_complete)

lemma op_complete_host_time: "op_complete (HostCallTime x)"
  by (rule op_complete_operand
      [where b = "0xA3" and rd = "with_host_op ''HostTimeOp'' host_time_op_from_u8 HostCallTime"],
      simp add: operand_readers_def, simp, simp add: host_time_op.with_host_op_complete)

lemma host_io_arm: "(0xA1, decode_host_io) \<in> set operand_readers"
  by (simp add: operand_readers_def)

lemmas decode_host_io_simps =
  decode_host_io_def read_byte_def bytes_at_Cons host_io_op.from_as
  host_db_op.with_host_op_complete host_mail_op.with_host_op_complete
  host_crypto_op.with_host_op_complete

lemma op_complete_host_io: "op_complete (HostCallIo x)"
  by (rule op_complete_operand [OF host_io_arm], simp, simp add: decode_host_io_simps)

lemma op_complete_host_ext:
  "op_complete (HostCallDb x)" "op_complete (HostCallMail y)" "op_complete (HostCallCrypto z)"
  by (rule op_complete_operand [OF host_io_arm], simp,
      simp add: decode_host_io_simps host_ext_distinct [symmetric])+

lemma op_complete_extern_call: "op_complete (ExternCall s argc m r)"
  by (rule op_complete_operand [where b = "0xE0" and rd = decode_extern_call],
      simp add: operand_readers_def, simp, clarsimp simp: decode_extern_call_def u32_le.dec_enc algebra_simps read_byte_def bytes_at_Cons)

lemma op_complete_closure_new: "op_complete (ClosureNew f n)"
  by (rule op_complete_operand [where b = "0xCE" and rd = decode_closure_new],
      simp add: operand_readers_def, simp, clarsimp simp: decode_closure_new_def u32_le.dec_enc)

lemma op_complete_all: "encodable x \<Longrightarrow> op_complete x"
proof (cases x)
  fix b assume "encodable x" and "x = OpBigDecimal b"
  then show ?thesis by (simp add: encodable_def)
next
  fix b assume "encodable x" and "x = OpBigInt b"
  then show ?thesis by (simp add: encodable_def)
qed (auto simp: op_complete_u32_instrs u32_instrs_def op_complete_push_i64
    op_complete_push_f64 op_complete_push_bool op_complete_host_net op_complete_host_time
    op_complete_host_io op_complete_host_ext op_complete_extern_call op_complete_closure_new op_complete_json
    op_complete_struct simp del: set_map intro: op_complete_intros
    op_complete_u32_instrs [unfolded u32_instrs_def])

interpretation op_codec: codec "\<lambda>x. the (encode_op x)" decode_op encodable
proof
  show "decode_op bs off = Inr (x, off + length (the (encode_op x)))"
    if "encodable x" and "bytes_at bs off (the (encode_op x))" for x bs off
    using op_complete_all [OF that(1)] that(2) by (auto simp: op_complete_def)
qed (rule decode_op_sound)

end
