(* ===== verification/Bytecode_Program.thy ===== *)
theory Bytecode_Program
  imports Op_Codec
begin

text \<open>
  Whole programs: \<^verbatim>\<open>decode_program\<close> and \<^verbatim>\<open>decode_program_detailed\<close> of
  \<^verbatim>\<open>crates/arth-vm/src/bytecode.rs\<close>. The sections after the header are counted lists; the
  last two, the table of asynchronous bodies and the debug entries, may be missing. Each section's
  reader is an interpretation of \<open>codec\<close> on its writer, and the program's round trip, the
  canonicity of what is accepted and the detection of truncation are built on these.
\<close>

section \<open>The readers of the sections\<close>

definition decode_strings :: "u8 list \<Rightarrow> usize \<Rightarrow> message + rstring list \<times> usize" where
  "decode_strings = read_counted read_u32_le (read_string StringTable ''string data'')"

definition decode_code :: "u8 list \<Rightarrow> usize \<Rightarrow> message + op list \<times> usize" where
  "decode_code = read_counted read_u32_le decode_op"

definition decode_async_entry :: "u8 list \<Rightarrow> usize \<Rightarrow> message + (i64 \<times> u32) \<times> usize" where
  "decode_async_entry bs off =
     (if length bs < off + 12 then
        Inl (Rendered (new_error (UnexpectedEof ''async dispatch entry (12 bytes)'') AsyncDispatch off bs))
      else
        bind_res (read_u32_le bs (off + 8)) (\<lambda>(body, off1).
          Inr ((from_le (take 8 (drop off bs)), body), off1)))"

definition decode_source_file :: "u8 list \<Rightarrow> usize \<Rightarrow> message + rstring option \<times> usize" where
  "decode_source_file bs off =
     bind_res (read_u32_le bs off) (\<lambda>(file_len, off1).
       if file_len > 0 then
         bind_res
           (read_utf8
             (\<lambda>bs o1. Rendered (new_error (UnexpectedEof ''debug entry source file'') DebugInfo o1 bs))
             (\<lambda>e bs o1. Rendered (new_error (InvalidUtf8 (Utf8Message e)) DebugInfo o1 bs))
             (unat file_len) bs off1)
           (\<lambda>(file, off2). Inr (Some file, off2))
       else Inr (None, off1))"

definition decode_debug_entry :: "u8 list \<Rightarrow> usize \<Rightarrow> message + debug_entry \<times> usize" where
  "decode_debug_entry bs off =
     bind_res (read_u32_le bs off) (\<lambda>(e_off, off1).
     bind_res (read_string DebugInfo ''debug entry function name'' bs off1) (\<lambda>(name, off2).
     bind_res (decode_source_file bs off2) (\<lambda>(file, off3).
     bind_res (read_u32_le bs off3) (\<lambda>(ln, off4).
       Inr (\<lparr>entry_offset = e_off, function_name = name, source_file = file, line = ln\<rparr>, off4)))))"

text \<open>The last two sections are read only if there are bytes left.\<close>

definition decode_async_dispatch :: "u8 list \<Rightarrow> usize \<Rightarrow> message + (i64 \<times> u32) list \<times> usize" where
  "decode_async_dispatch bs off =
     (if off < length bs then read_counted read_u32_le decode_async_entry bs off else Inr ([], off))"

definition decode_debug_entries :: "u8 list \<Rightarrow> usize \<Rightarrow> message + debug_entry list \<times> usize" where
  "decode_debug_entries bs off =
     (if off < length bs then read_counted read_u32_le decode_debug_entry bs off else Inr ([], off))"

definition decode_program :: "u8 list \<Rightarrow> message + program" where
  "decode_program bs =
     bind_res (validate_bytecode_header bs) (\<lambda>_.
     bind_res (decode_strings bs (length MAGIC)) (\<lambda>(strs, off1).
     bind_res (decode_code bs off1) (\<lambda>(ops, off2).
     bind_res (decode_async_dispatch bs off2) (\<lambda>(asyncs, off3).
     bind_res (decode_debug_entries bs off3) (\<lambda>(dbg, _).
       Inr \<lparr>strings = strs, code = ops, async_dispatch = asyncs, debug_entries = dbg\<rparr>)))))"

section \<open>Well-formed programs\<close>

text \<open>
  What the format can hold: Rust strings are valid UTF-8, and every length fits the \<^verbatim>\<open>u32\<close> it is
  written as. A debug entry with an empty file name is not representable, its length 0 means that
  there is no file name.
\<close>

definition wf_source_file :: "rstring option \<Rightarrow> bool" where
  "wf_source_file f = (case f of None \<Rightarrow> True | Some file \<Rightarrow> wf_string file \<and> file \<noteq> [])"

definition wf_debug_entry :: "debug_entry \<Rightarrow> bool" where
  "wf_debug_entry e \<longleftrightarrow> wf_string (function_name e) \<and> wf_source_file (source_file e)"

definition wf_program :: "program \<Rightarrow> bool" where
  "wf_program p \<longleftrightarrow>
     ((\<forall>s\<in>set (strings p). wf_string s) \<and> length (strings p) < 2 ^ 32) \<and>
     ((\<forall>x\<in>set (code p). encodable x) \<and> length (code p) < 2 ^ 32) \<and>
     length (async_dispatch p) < 2 ^ 32 \<and>
     ((\<forall>e\<in>set (debug_entries p). wf_debug_entry e) \<and> length (debug_entries p) < 2 ^ 32)"

section \<open>The sections are codecs\<close>

definition encode_instrs :: "op list \<Rightarrow> u8 list" where
  "encode_instrs ops =
     write_u32_le (of_nat (length ops)) @ concat (map (\<lambda>x. the (encode_op x)) ops)"

interpretation strings_sec: codec encode_strings decode_strings
  "\<lambda>strs. (\<forall>s\<in>set strs. wf_string s) \<and> length strs < 2 ^ 32"
  unfolding encode_strings_def [abs_def] decode_strings_def
  by (rule codec_counted [OF str_table.codec_axioms u32_le.codec_axioms])

interpretation code_sec: codec encode_instrs decode_code
  "\<lambda>ops. (\<forall>x\<in>set ops. encodable x) \<and> length ops < 2 ^ 32"
  unfolding encode_instrs_def [abs_def] decode_code_def
  by (rule codec_counted [OF op_codec.codec_axioms u32_le.codec_axioms])

interpretation async_entry: codec encode_async_entry decode_async_entry "\<lambda>_. True"
proof
  show "decode_async_entry bs off = Inr (e, off + length (encode_async_entry e))"
    if "bytes_at bs off (encode_async_entry e)" for e bs off
  proof -
    from that have "bytes_at bs off (to_le 8 (fst e))" and u: "bytes_at bs (off + 8) (write_u32_le (snd e))"
      by (simp_all add: encode_async_entry_def)
    then have "take 8 (drop off bs) = to_le 8 (fst e)" by (simp add: bytes_at_def)
    with u32_le.dec_enc [OF TrueI u] bytes_at_le [OF u] show ?thesis
      by (simp add: decode_async_entry_def encode_async_entry_def)
  qed
  show "True \<and> off' = off + length (encode_async_entry e) \<and> bytes_at bs off (encode_async_entry e)"
    if "off \<le> length bs" and "decode_async_entry bs off = Inr (e, off')" for e bs off off'
  proof -
    from that(2) have le: "off + 12 \<le> length bs" and
      rd: "read_u32_le bs (off + 8) = Inr (snd e, off')" and
      fst: "fst e = from_le (take 8 (drop off bs))"
      by (auto simp: decode_async_entry_def bind_res_Inr split: if_splits)
    from le have "bytes_at bs off (to_le 8 (fst e))"
      using to_le_from_le [of "take 8 (drop off bs)", where 'w = 64]
      by (simp add: fst bytes_at_def)
    moreover from le have "off + 8 \<le> length bs" by simp
    ultimately show ?thesis
      using u32_le.dec_sound [OF _ rd] le by (simp add: encode_async_entry_def)
  qed
qed

interpretation async_sec: codec encode_async_dispatch "read_counted read_u32_le decode_async_entry"
  "\<lambda>d. length d < 2 ^ 32"
  unfolding encode_async_dispatch_def [abs_def]
  using codec_counted [OF async_entry.codec_axioms u32_le.codec_axioms] by simp

lemma read_utf8_ok:
  "read_utf8 eof bad len bs off = Inr (s, off') \<longleftrightarrow>
     length s = len \<and> utf8_valid s \<and> off' = off + len \<and> bytes_at bs off s"
  by (auto simp: read_utf8_def utf8_valid_def bytes_at_def split: option.splits)

lemma read_utf8_complete:
  "utf8_valid s \<Longrightarrow> bytes_at bs off s \<Longrightarrow>
   read_utf8 eof bad (length s) bs off = Inr (s, off + length s)"
  by (simp add: read_utf8_ok)

interpretation source_file_codec: codec encode_source_file decode_source_file wf_source_file
proof
  show "decode_source_file bs off = Inr (f, off + length (encode_source_file f))"
    if wf: "wf_source_file f" and at: "bytes_at bs off (encode_source_file f)" for f bs off
  proof (cases f)
    case None
    with at have "bytes_at bs off (write_u32_le 0)" by (simp add: encode_source_file_def)
    with None show ?thesis
      by (simp add: decode_source_file_def encode_source_file_def u32_le.dec_enc)
  next
    case (Some s)
    with wf have len: "length s < 2 ^ 32" "s \<noteq> []" and utf8: "utf8_valid s"
      by (auto simp: wf_source_file_def wf_string_def)
    then have "unat (of_nat (length s) :: u32) = length s"
      by (simp add: unsigned_of_nat take_bit_nat_eq_self)
    moreover from this len have "(of_nat (length s) :: u32) > 0" by (auto simp: word_less_nat_alt)
    moreover from at Some have "bytes_at bs off (write_u32_le (of_nat (length s)))"
      and "bytes_at bs (off + 4) s"
      by (auto simp: encode_source_file_def write_string_def)
    ultimately show ?thesis
      using Some utf8
      by (simp add: decode_source_file_def encode_source_file_def u32_le.dec_enc read_utf8_complete)
  qed
  show "wf_source_file f \<and> off' = off + length (encode_source_file f) \<and>
      bytes_at bs off (encode_source_file f)"
    if "off \<le> length bs" and "decode_source_file bs off = Inr (f, off')" for f bs off off'
  proof -
    from that(2) obtain n off1 where n: "read_u32_le bs off = Inr (n, off1)"
      and f: "n > 0 \<and> (\<exists>s. f = Some s \<and> length s = unat n \<and> utf8_valid s \<and>
          off' = off1 + unat n \<and> bytes_at bs off1 s) \<or> n = 0 \<and> f = None \<and> off' = off1"
      by (auto simp: decode_source_file_def bind_res_Inr read_utf8_ok word_gt_0 split: if_splits)
    note len = u32_le.dec_sound [OF that(1) n]
    from f show ?thesis
    proof (elim disjE conjE exE)
      fix s assume "n > 0" "f = Some s" "length s = unat n" "utf8_valid s" "off' = off1 + unat n"
        "bytes_at bs off1 s"
      moreover from this(3) have "of_nat (length s) = n" by simp
      moreover have "unat n < 2 ^ 32" using unsigned_less [of n, where 'a = nat] by simp
      ultimately show ?thesis
        using len by (auto simp: wf_source_file_def wf_string_def encode_source_file_def
            write_string_def word_less_nat_alt)
    qed (use len in \<open>simp add: wf_source_file_def encode_source_file_def\<close>)
  qed
qed

interpretation debug_entry_codec: codec encode_debug_entry decode_debug_entry wf_debug_entry
proof
  show "decode_debug_entry bs off = Inr (e, off + length (encode_debug_entry e))"
    if "wf_debug_entry e" and "bytes_at bs off (encode_debug_entry e)" for e bs off
    using that dbg_name.dec_enc [of "function_name e" bs "off + 4"]
      source_file_codec.dec_enc [of "source_file e" bs "off + 4 + (4 + length (function_name e))"]
    by (clarsimp simp: decode_debug_entry_def encode_debug_entry_def wf_debug_entry_def
        u32_le.dec_enc add.assoc)
  show "wf_debug_entry e \<and> off' = off + length (encode_debug_entry e) \<and>
      bytes_at bs off (encode_debug_entry e)"
    if off: "off \<le> length bs" and "decode_debug_entry bs off = Inr (e, off')" for e bs off off'
  proof -
    from that(2) obtain o1 o2 o3 where 1: "read_u32_le bs off = Inr (entry_offset e, o1)"
      and 2: "read_string DebugInfo ''debug entry function name'' bs o1 = Inr (function_name e, o2)"
      and 3: "decode_source_file bs o2 = Inr (source_file e, o3)"
      and 4: "read_u32_le bs o3 = Inr (line e, off')"
      by (auto simp: decode_debug_entry_def bind_res_Inr)
    note o1 = u32_le.dec_off_le [OF off 1]
    note o2 = dbg_name.dec_off_le [OF o1 2]
    note o3 = source_file_codec.dec_off_le [OF o2 3]
    from u32_le.dec_sound [OF off 1] dbg_name.dec_sound [OF o1 2] source_file_codec.dec_sound [OF o2 3]
      u32_le.dec_sound [OF o3 4]
    show ?thesis by (simp add: wf_debug_entry_def encode_debug_entry_def add.assoc)
  qed
qed

interpretation debug_sec: codec encode_debug_entries "read_counted read_u32_le decode_debug_entry"
  "\<lambda>d. (\<forall>e\<in>set d. wf_debug_entry e) \<and> length d < 2 ^ 32"
  unfolding encode_debug_entries_def [abs_def]
  by (rule codec_counted [OF debug_entry_codec.codec_axioms u32_le.codec_axioms])

section \<open>Programs\<close>

text \<open>The four parts of an encoded program, in the order of the file.\<close>

definition program_head :: "program \<Rightarrow> u8 list" where
  "program_head p = MAGIC @ encode_strings (strings p) @ encode_instrs (code p)"

lemma encode_program_eq:
  "encode_program p =
     (if \<forall>x\<in>set (code p). encodable x then
        Some (program_head p @ encode_async_dispatch (async_dispatch p) @
              encode_debug_entries (debug_entries p))
      else None)"
proof (cases "encode_code (code p)")
  case None
  with encode_code_Some_iff [of "code p"] show ?thesis by (auto simp: encode_program_def)
next
  case (Some c)
  with encode_code_Some_iff [of "code p"] encode_code_eq [OF Some] show ?thesis
    by (auto simp: encode_program_def program_head_def encode_instrs_def)
qed

lemma header_MAGIC: "validate_bytecode_header (MAGIC @ bs) = Inr 1"
  by (simp add: validate_bytecode_header_def validate_bytecode_header_detailed_def MAGIC_eq
      MAGIC_PREFIX_def extract_version_def is_ascii_digit_def is_version_supported_def
      MIN_SUPPORTED_VERSION_def MAX_SUPPORTED_VERSION_def)

lemma unat_two_digits:
  fixes x y :: u8
  assumes "unat x \<le> 9" and "unat y \<le> 9"
  shows "unat (x * 10 + y) = unat x * 10 + unat y"
proof -
  have "unat (x * 10) = unat x * 10" using assms(1) by (simp add: unat_mult_lem [THEN iffD1])
  with assms show ?thesis by (simp add: unat_add_lem [THEN iffD1])
qed

lemma two_digits_one:
  fixes a b :: u8
  assumes "is_ascii_digit a" and "is_ascii_digit b" and "(a - 48) * 10 + (b - 48) = 1"
  shows "a = 48 \<and> b = 49"
proof -
  have "unat (a - 48) \<le> 9" and "unat (b - 48) \<le> 9"
    using assms(1,2) by (auto simp: is_ascii_digit_def word_le_nat_alt unat_sub)
  from unat_two_digits [OF this] have "unat (a - 48) * 10 + unat (b - 48) = unat (1 :: u8)"
    by (simp only: assms(3))
  then have *: "unat (a - 48) = 0" by auto
  with \<open>_ = unat (1 :: u8)\<close> have "unat (b - 48) = 1" by simp
  with * have "a - 48 = 0" and "b - 48 = 1" by (simp_all add: word_unat_eq_iff)
  then show ?thesis by (simp_all add: diff_eq_eq)
qed

lemma header_accepts:
  "validate_bytecode_header bs = Inr v \<longleftrightarrow> v = 1 \<and> bytes_at bs 0 MAGIC"
proof
  assume ok: "validate_bytecode_header bs = Inr v"
  then have 8: "8 \<le> length bs" and pre: "take 6 bs = MAGIC_PREFIX"
    and dig: "is_ascii_digit (bs ! 6)" "is_ascii_digit (bs ! 7)"
    and v: "v = (bs ! 6 - 48) * 10 + (bs ! 7 - 48)" "1 \<le> v" "v \<le> 1"
    by (auto simp: validate_bytecode_header_def validate_bytecode_header_detailed_def
        extract_version_def is_version_supported_def MIN_SUPPORTED_VERSION_def
        MAX_SUPPORTED_VERSION_def Let_def min_def split: if_splits option.splits)
  from v(2,3) have "v = 1" by simp
  with v(1) dig have "bs ! 6 = 48" "bs ! 7 = 49" using two_digits_one by auto
  moreover from 8 have "take 8 bs = take 6 bs @ [bs ! 6, bs ! 7]"
    using take_Suc_conv_app_nth [of 6 bs] take_Suc_conv_app_nth [of 7 bs] by simp
  ultimately have "take 8 bs = MAGIC" by (simp add: pre MAGIC_eq MAGIC_PREFIX_def)
  with 8 \<open>v = 1\<close> show "v = 1 \<and> bytes_at bs 0 MAGIC" by (simp add: bytes_at_def)
next
  assume *: "v = 1 \<and> bytes_at bs 0 MAGIC"
  then have "bs = MAGIC @ drop 8 bs" by (metis append_take_drop_id bytes_at_def drop_0 length_MAGIC)
  with * header_MAGIC [of "drop 8 bs"] show "validate_bytecode_header bs = Inr v" by simp
qed

text \<open>After the head, only the two optional sections are left to read.\<close>

definition decode_tail :: "program \<Rightarrow> u8 list \<Rightarrow> message + program" where
  "decode_tail p bs =
     bind_res (decode_async_dispatch bs (length (program_head p))) (\<lambda>(asyncs, off3).
     bind_res (decode_debug_entries bs off3) (\<lambda>(dbg, _).
       Inr \<lparr>strings = strings p, code = code p, async_dispatch = asyncs, debug_entries = dbg\<rparr>))"

lemma decode_program_head:
  assumes "wf_program p" and "bytes_at bs 0 (program_head p)"
  shows "decode_program bs = decode_tail p bs"
proof -
  from assms(2) have m: "bytes_at bs 0 MAGIC" and s: "bytes_at bs 8 (encode_strings (strings p))"
    and c: "bytes_at bs (8 + length (encode_strings (strings p))) (encode_instrs (code p))"
    by (simp_all add: program_head_def)
  from m have "validate_bytecode_header bs = Inr 1" by (simp add: header_accepts)
  moreover note strings_sec.dec_enc [OF _ s] code_sec.dec_enc [OF _ c]
  ultimately show ?thesis
    using assms(1)
    by (simp add: decode_program_def decode_tail_def wf_program_def program_head_def add.assoc)
qed

lemma decode_program_head_sound:
  assumes "decode_program bs = Inr p"
  shows "bytes_at bs 0 (program_head p)" and "decode_tail p bs = Inr p"
    and "(\<forall>s\<in>set (strings p). wf_string s) \<and> length (strings p) < 2 ^ 32"
    and "(\<forall>x\<in>set (code p). encodable x) \<and> length (code p) < 2 ^ 32"
proof -
  from assms obtain v o1 o2 where v: "validate_bytecode_header bs = Inr v"
    and s: "decode_strings bs 8 = Inr (strings p, o1)" and c: "decode_code bs o1 = Inr (code p, o2)"
    and rest: "bind_res (decode_async_dispatch bs o2) (\<lambda>(asyncs, off3).
      bind_res (decode_debug_entries bs off3) (\<lambda>(dbg, _).
        Inr \<lparr>strings = strings p, code = code p, async_dispatch = asyncs, debug_entries = dbg\<rparr>)) = Inr p"
    by (auto simp: decode_program_def bind_res_Inr)
  from v have m: "bytes_at bs 0 MAGIC" by (simp add: header_accepts)
  then have 8: "8 \<le> length bs" using bytes_at_le by fastforce
  note s_ok = strings_sec.dec_sound [OF 8 s] and c_ok = code_sec.dec_sound [OF strings_sec.dec_off_le [OF 8 s] c]
  from m s_ok c_ok show "bytes_at bs 0 (program_head p)" by (simp add: program_head_def)
  from s_ok c_ok have "o2 = length (program_head p)" by (simp add: program_head_def)
  with rest show "decode_tail p bs = Inr p" by (simp add: decode_tail_def)
  from s_ok show "(\<forall>s\<in>set (strings p). wf_string s) \<and> length (strings p) < 2 ^ 32" by blast
  from c_ok show "(\<forall>x\<in>set (code p). encodable x) \<and> length (code p) < 2 ^ 32" by blast
qed

text \<open>The three shapes of what may follow the head.\<close>

lemma decode_tail_Inr:
  assumes "h = length (program_head p)" and "h \<le> length bs"
  shows "decode_tail p bs = Inr q \<longleftrightarrow>
    strings q = strings p \<and> code q = code p \<and> length (async_dispatch q) < 2 ^ 32 \<and>
    ((\<forall>e\<in>set (debug_entries q). wf_debug_entry e) \<and> length (debug_entries q) < 2 ^ 32) \<and>
    (if length bs = h then async_dispatch q = [] \<and> debug_entries q = []
     else bytes_at bs h (encode_async_dispatch (async_dispatch q)) \<and>
       (if length bs = h + length (encode_async_dispatch (async_dispatch q)) then debug_entries q = []
        else bytes_at bs (h + length (encode_async_dispatch (async_dispatch q)))
               (encode_debug_entries (debug_entries q))))" (is "_ \<longleftrightarrow> ?rhs")
proof
  assume "decode_tail p bs = Inr q"
  then obtain o3 o4 where a: "decode_async_dispatch bs h = Inr (async_dispatch q, o3)"
    and d: "decode_debug_entries bs o3 = Inr (debug_entries q, o4)"
    and q: "strings q = strings p" "code q = code p"
    by (auto simp: decode_tail_def bind_res_Inr assms(1))
  show ?rhs
  proof (cases "length bs = h")
    case True
    with a d q show ?thesis by (auto simp: decode_async_dispatch_def decode_debug_entries_def)
  next
    case False
    with a assms(2) have a': "read_counted read_u32_le decode_async_entry bs h = Inr (async_dispatch q, o3)"
      by (simp add: decode_async_dispatch_def)
    note a_ok = async_sec.dec_sound [OF assms(2) a'] and o3 = async_sec.dec_off_le [OF assms(2) a']
    show ?thesis
    proof (cases "length bs = o3")
      case True
      with d a_ok q False show ?thesis by (auto simp: decode_debug_entries_def)
    next
      case o3': False
      with d o3 have "read_counted read_u32_le decode_debug_entry bs o3 = Inr (debug_entries q, o4)"
        by (simp add: decode_debug_entries_def)
      from debug_sec.dec_sound [OF o3 this] a_ok q False o3' show ?thesis by auto
    qed
  qed
next
  assume rhs: ?rhs
  then show "decode_tail p bs = Inr q"
    using assms async_sec.dec_enc [of "async_dispatch q" bs h]
      debug_sec.dec_enc [of "debug_entries q" bs "h + length (encode_async_dispatch (async_dispatch q))"]
      bytes_at_le [of bs h "encode_async_dispatch (async_dispatch q)"]
      bytes_at_le [of bs "h + length (encode_async_dispatch (async_dispatch q))" "encode_debug_entries (debug_entries q)"]
    by (auto simp: decode_tail_def decode_async_dispatch_def decode_debug_entries_def split: if_splits)
qed

lemma length_encode_async_dispatch: "0 < length (encode_async_dispatch d)"
  by (simp add: encode_async_dispatch_def)

lemma length_encode_debug_entries: "0 < length (encode_debug_entries d)"
  by (simp add: encode_debug_entries_def)

lemma wf_programD: "wf_program p \<Longrightarrow> \<forall>x\<in>set (code p). encodable x"
  by (simp add: wf_program_def)

lemma decode_encode:
  assumes "wf_program p" and "encode_program p = Some bs"
  shows "decode_program (bs @ rest) = Inr p"
proof -
  let ?h = "length (program_head p)"
  from assms have bs: "bs = program_head p @ encode_async_dispatch (async_dispatch p) @
      encode_debug_entries (debug_entries p)"
    by (simp add: encode_program_eq wf_programD)
  have "decode_program (bs @ rest) = decode_tail p (bs @ rest)"
    by (rule decode_program_head [OF assms(1)]) (simp add: bs bytes_at_start)
  also have "\<dots> = Inr p"
    unfolding decode_tail_Inr [OF refl, of p "bs @ rest", simplified bs, simplified]
    using assms(1) length_encode_async_dispatch length_encode_debug_entries
      bytes_at_self [of "program_head p" "encode_async_dispatch (async_dispatch p)"
        "encode_debug_entries (debug_entries p) @ rest"]
      bytes_at_self [of "program_head p @ encode_async_dispatch (async_dispatch p)"
        "encode_debug_entries (debug_entries p)" rest]
    by (simp add: wf_program_def bs decode_tail_Inr [OF refl])
  finally show ?thesis .
qed

lemma decode_wf:
  assumes "decode_program bs = Inr p"
  shows "wf_program p"
  using decode_program_head_sound [OF assms]
    decode_tail_Inr [OF refl, THEN iffD1, OF bytes_at_le [of bs 0 "program_head p", simplified] decode_program_head_sound(2) [OF assms]]
  by (auto simp: wf_program_def)

lemma decode_shape:
  assumes "decode_program bs = Inr p"
  obtains "bs = program_head p" "async_dispatch p = []" "debug_entries p = []"
  | "bs = program_head p @ encode_async_dispatch (async_dispatch p)" "debug_entries p = []"
  | rest where "bs = program_head p @ encode_async_dispatch (async_dispatch p) @
      encode_debug_entries (debug_entries p) @ rest"
proof -
  let ?h = "length (program_head p)" and ?a = "encode_async_dispatch (async_dispatch p)"
    and ?d = "encode_debug_entries (debug_entries p)"
  note head = decode_program_head_sound [OF assms]
  from head(1) have le: "?h \<le> length bs" using bytes_at_le by fastforce
  have split: "bs = take n bs @ drop n bs" for n by simp
  from head(1) have pre: "take ?h bs = program_head p" by (simp add: bytes_at_def)
  note tail = decode_tail_Inr [OF refl le, THEN iffD1, OF head(2)]
  show thesis
  proof (cases "length bs = ?h")
    case True
    with that(1) tail pre show thesis by simp
  next
    case False
    with tail have a: "bytes_at bs ?h ?a" by simp
    then have pre2: "take (?h + length ?a) bs = program_head p @ ?a"
      using pre by (simp add: bytes_at_def take_add)
    show thesis
    proof (cases "length bs = ?h + length ?a")
      case True
      with that(2) tail pre2 False show thesis by simp
    next
      case False': False
      with tail False have "bytes_at bs (?h + length ?a) ?d" by simp
      then have "take (?h + length ?a + length ?d) bs = program_head p @ ?a @ ?d"
        using pre2 by (simp add: bytes_at_def take_add)
      with that(3) split [of "?h + length ?a + length ?d"] show thesis by simp
    qed
  qed
qed

section \<open>What the format guarantees\<close>

text \<open>
  C2: decoding inverts encoding. A program the format can hold is encoded without a panic, and
  \<^verbatim>\<open>decode_program\<close> reads it back exactly, all four sections and all operands included, also when
  other bytes follow it.
\<close>

theorem bytecode_roundtrip:
  assumes "wf_program p"
  shows "\<exists>bs. encode_program p = Some bs \<and> (\<forall>rest. decode_program (bs @ rest) = Inr p)"
proof -
  obtain bs where "encode_program p = Some bs"
    using assms by (simp add: encode_program_eq wf_programD)
  with decode_encode [OF assms] show ?thesis by blast
qed

text \<open>A program with every section, used to instantiate the theorems.\<close>

definition sample_program :: program where
  "sample_program =
     \<lparr>strings = [bytes_of ''hi'', []],
      code = [PushStr 0, PushI64 (- 1), HostCallDb SqliteOpen, OpStr StrLen, ExternCall 1 2 3 4,
        OpArith AddI64, OpBase Halt],
      async_dispatch = [(- 5, 3)],
      debug_entries = [debug_entry_with_location 0 (bytes_of ''main'') (bytes_of ''m.arth'') 7,
        debug_entry_new 4 (bytes_of ''f'')]\<rparr>"

lemma wf_sample_program: "wf_program sample_program"
  by (simp add: sample_program_def wf_program_def wf_string_def wf_debug_entry_def
      wf_source_file_def encodable_def utf8_valid_ascii debug_entry_new_def
      debug_entry_with_location_def)

lemma bytecode_roundtrip_witness:
  "\<exists>bs. encode_program sample_program = Some bs \<and>
     (\<forall>rest. decode_program (bs @ rest) = Inr sample_program)"
  by (rule bytecode_roundtrip [OF wf_sample_program])

text \<open>
  C25: what \<^verbatim>\<open>decode_program\<close> accepts is a canonical encoding. The program it returns is well-formed,
  and the input is the encoding of that program, byte for byte, up to the two trailing sections an
  older writer leaves out (their tables are then empty) and bytes after the last section.
\<close>

theorem bytecode_canonical:
  assumes "decode_program bs = Inr p"
  shows "wf_program p \<and>
    (bs = program_head p \<and> async_dispatch p = [] \<and> debug_entries p = [] \<or>
     bs = program_head p @ encode_async_dispatch (async_dispatch p) \<and> debug_entries p = [] \<or>
     (\<exists>bs' rest. encode_program p = Some bs' \<and> bs = bs' @ rest))"
  using decode_wf [OF assms]
  by (cases rule: decode_shape [OF assms]) (auto simp: encode_program_eq wf_programD)

text \<open>The shortest program, \<^verbatim>\<open>Halt\<close>, in the layout without trailing sections, and in full.\<close>

definition halt_program :: program where
  "halt_program = \<lparr>strings = [], code = [OpBase Halt], async_dispatch = [], debug_entries = []\<rparr>"

lemma encode_halt_program:
  "encode_program halt_program =
     Some (MAGIC @ [0, 0, 0, 0, 1, 0, 0, 0, 0xFF, 0, 0, 0, 0, 0, 0, 0, 0])"
  by (simp add: halt_program_def encode_program_def encode_strings_def encode_async_dispatch_def
      encode_debug_entries_def write_u32_le_def eval_nat_numeral)

lemma wf_halt_program: "wf_program halt_program"
  by (simp add: halt_program_def wf_program_def encodable_def)

lemma bytecode_canonical_witness:
  "wf_program halt_program \<and>
    (MAGIC @ [0, 0, 0, 0, 1, 0, 0, 0, 0xFF, 0, 0, 0, 0, 0, 0, 0, 0, 9] = program_head halt_program \<and>
       async_dispatch halt_program = [] \<and> debug_entries halt_program = [] \<or>
     MAGIC @ [0, 0, 0, 0, 1, 0, 0, 0, 0xFF, 0, 0, 0, 0, 0, 0, 0, 0, 9] =
       program_head halt_program @ encode_async_dispatch (async_dispatch halt_program) \<and>
       debug_entries halt_program = [] \<or>
     (\<exists>bs' rest. encode_program halt_program = Some bs' \<and>
        MAGIC @ [0, 0, 0, 0, 1, 0, 0, 0, 0xFF, 0, 0, 0, 0, 0, 0, 0, 0, 9] = bs' @ rest))"
  by (rule bytecode_canonical)
    (use decode_encode [OF wf_halt_program encode_halt_program, of "[9]"] in simp)

text \<open>
  C26: truncation is detected. Cutting an encoded program anywhere but at the boundaries where a
  trailing section starts makes \<^verbatim>\<open>decode_program\<close> fail; cut at a boundary, the file is a valid one
  of the older layout.
\<close>

theorem bytecode_truncation:
  assumes wf: "wf_program p" and enc: "encode_program p = Some bs" and n: "n < length bs"
  shows "is_ok (decode_program (take n bs)) \<longleftrightarrow>
    n = length (program_head p) \<or>
    n = length (program_head p) + length (encode_async_dispatch (async_dispatch p))"
proof -
  let ?h = "length (program_head p)" and ?a = "encode_async_dispatch (async_dispatch p)"
    and ?d = "encode_debug_entries (debug_entries p)"
  from enc wf have bs: "bs = program_head p @ ?a @ ?d" by (simp add: encode_program_eq wf_programD)
  show ?thesis
  proof
    assume "is_ok (decode_program (take n bs))"
    then obtain q where q: "decode_program (take n bs) = Inr q" by (auto simp: is_ok_iff)
    note wfq = decode_wf [OF q]
    from decode_program_head_sound(1) [OF q] have "bytes_at bs 0 (program_head q)"
      by (rule bytes_at_of_take)
    moreover have "bytes_at bs 0 (program_head p)" by (simp add: bs bytes_at_start)
    ultimately have sc: "strings q = strings p" "code q = code p"
      using wf wfq strings_sec.unique [of "strings q" "strings p" bs 8]
        code_sec.unique [of "code q" "code p" bs "8 + length (encode_strings (strings p))"]
      by (auto simp: program_head_def wf_program_def)
    then have h: "program_head q = program_head p" by (simp add: program_head_def)
    have async: "async_dispatch q = async_dispatch p"
      if "take n bs = program_head q @ encode_async_dispatch (async_dispatch q) @ r" for r
    proof -
      have "bytes_at (take n bs) ?h (encode_async_dispatch (async_dispatch q))"
        unfolding that h by (rule bytes_at_self)
      then have "bytes_at bs ?h (encode_async_dispatch (async_dispatch q))" by (rule bytes_at_of_take)
      moreover have "bytes_at bs ?h ?a" by (simp add: bs bytes_at_self)
      ultimately show ?thesis
        using async_sec.unique wf wfq by (auto simp: wf_program_def)
    qed
    from q show "n = ?h \<or> n = ?h + length ?a"
    proof (cases rule: decode_shape)
      case 1
      then have "length (take n bs) = ?h" using h by simp
      with n show ?thesis by simp
    next
      case 2
      with async [of "[]"] h have "length (take n bs) = ?h + length ?a" by simp
      with n show ?thesis by simp
    next
      case (3 rest)
      note aq = async [OF 3]
      have "bytes_at (take n bs) (?h + length ?a) (encode_debug_entries (debug_entries q))"
        using 3 bytes_at_self [of "program_head p @ ?a" "encode_debug_entries (debug_entries q)" rest]
        by (simp add: h aq)
      then have dq: "bytes_at bs (?h + length ?a) (encode_debug_entries (debug_entries q))"
        by (rule bytes_at_of_take)
      have "bytes_at bs (?h + length ?a) ?d"
        using bytes_at_self [of "program_head p @ ?a" ?d "[]"] by (simp add: bs)
      with dq have "debug_entries q = debug_entries p"
        using debug_sec.unique [of "debug_entries q" "debug_entries p"] wf wfq
        by (auto simp: wf_program_def)
      then have "length (take n bs) = length bs + length rest"
        using 3 h aq by (simp add: bs)
      with n show ?thesis by simp
    qed
  next
    assume cut: "n = ?h \<or> n = ?h + length ?a"
    then have head: "bytes_at (take n bs) 0 (program_head p)"
      by (auto simp: bs bytes_at_start bytes_at_whole)
    define q where "q = p \<lparr>async_dispatch := (if n = ?h then [] else async_dispatch p), debug_entries := []\<rparr>"
    have "decode_tail p (take n bs) = Inr q"
      using cut n wf length_encode_async_dispatch [of "async_dispatch p"]
      by (subst decode_tail_Inr [OF refl])
        (auto simp: q_def bs bytes_at_def wf_program_def)
    with decode_program_head [OF wf head] show "is_ok (decode_program (take n bs))" by simp
  qed
qed

lemma bytecode_truncation_witness:
  "is_ok (decode_program (take 17
      (MAGIC @ [0, 0, 0, 0, 1, 0, 0, 0, 0xFF, 0, 0, 0, 0, 0, 0, 0, 0]))) \<longleftrightarrow>
    17 = length (program_head halt_program) \<or>
    17 = length (program_head halt_program) +
      length (encode_async_dispatch (async_dispatch halt_program))"
  by (rule bytecode_truncation [OF wf_halt_program encode_halt_program]) simp

text \<open>
  The header check accepts exactly the files that start with \<^verbatim>\<open>ARTHBC01\<close>, and reports version
  1 for them: every other magic, non-digit version or version number is an error.
\<close>

theorem header_accepts_iff:
  "validate_bytecode_header bs = Inr v \<longleftrightarrow>
     v = 1 \<and> take 8 bs = [0x41, 0x52, 0x54, 0x48, 0x42, 0x43, 0x30, 0x31]"
  using header_accepts [of bs v] bytes_at_0 [of bs MAGIC] by (simp only: length_MAGIC) (simp only: MAGIC_eq)

section \<open>The reader with detailed errors\<close>

text \<open>
  \<^verbatim>\<open>decode_program_detailed\<close> knows ten opcodes and does not look at the sections after the code.
  \<open>phase\<close> is the phase its errors carry.
\<close>

definition read_u32_detailed :: "decode_phase \<Rightarrow> u8 list \<Rightarrow> usize \<Rightarrow> decode_error + u32 \<times> usize" where
  "read_u32_detailed p = read_le 4 (\<lambda>bs off. new_error (UnexpectedEof ''u32 value'') p off bs)"

definition read_string_detailed :: "u8 list \<Rightarrow> usize \<Rightarrow> decode_error + rstring \<times> usize" where
  "read_string_detailed bs off =
     bind_res (read_u32_detailed StringTable bs off) (\<lambda>(len, off1).
       read_utf8 (\<lambda>bs o1. new_error (UnexpectedEof ''string data'') StringTable o1 bs)
         (\<lambda>e bs o1. new_error (InvalidUtf8 (Utf8Message e)) StringTable o1 bs)
         (unat len) bs off1)"

definition with_u32_detailed :: "(u32 \<Rightarrow> op) \<Rightarrow> u8 list \<Rightarrow> usize \<Rightarrow> decode_error + op \<times> usize" where
  "with_u32_detailed f bs off =
     bind_res (read_u32_detailed Instructions bs off) (\<lambda>(ix, off1). Inr (f ix, off1))"

definition decode_op_detailed :: "u8 list \<Rightarrow> usize \<Rightarrow> decode_error + op \<times> usize" where
  "decode_op_detailed bs off =
     (let eof = (\<lambda>expected bs off. new_error (UnexpectedEof expected) Instructions off bs) in
      if length bs \<le> off then Inl (eof ''opcode'' bs off)
      else let opcode = bs ! off; off1 = off + 1 in
        if opcode = 0x01 then with_u32_detailed Print bs off1
        else if opcode = 0xFF then Inr (OpBase Halt, off1)
        else if opcode = 0x02 then with_u32_detailed PrintStrVal bs off1
        else if opcode = 0x03 then with_u32_detailed PrintRaw bs off1
        else if opcode = 0x04 then with_u32_detailed PrintRawStrVal bs off1
        else if opcode = 0x05 then Inr (OpBase PrintLn, off1)
        else if opcode = 0x10 then
          bind_res (read_le 8 (eof ''i64 literal'') bs off1) (\<lambda>(n, off2). Inr (PushI64 n, off2))
        else if opcode = 0x12 then
          bind_res (read_le 8 (eof ''f64 literal'') bs off1) (\<lambda>(x, off2). Inr (PushF64 x, off2))
        else if opcode = 0x11 then
          bind_res (read_byte (eof ''bool value'') bs off1) (\<lambda>(b, off2). Inr (PushBool b, off2))
        else if opcode = 0x13 then with_u32_detailed PushStr bs off1
        else Inl (new_error (UnknownOpcode opcode) Instructions off bs))"

definition decode_program_detailed :: "u8 list \<Rightarrow> decode_error + program" where
  "decode_program_detailed bs =
     bind_res (validate_bytecode_header_detailed bs) (\<lambda>_.
     bind_res (read_counted (read_u32_detailed StringTable) read_string_detailed bs (length MAGIC))
       (\<lambda>(strs, off1).
     bind_res (read_counted (read_u32_detailed Instructions) decode_op_detailed bs off1)
       (\<lambda>(ops, _).
       Inr \<lparr>strings = strs, code = ops, async_dispatch = [], debug_entries = []\<rparr>)))"

text \<open>The instructions of those ten opcodes.\<close>

fun basic_op :: "op \<Rightarrow> bool" where
  "basic_op (Print _) = True"
| "basic_op (OpBase x) = (x = Halt \<or> x = PrintLn)"
| "basic_op (PrintStrVal _) = True"
| "basic_op (PrintRaw _) = True"
| "basic_op (PrintRawStrVal _) = True"
| "basic_op (PushI64 _) = True"
| "basic_op (PushF64 _) = True"
| "basic_op (PushBool _) = True"
| "basic_op (PushStr _) = True"
| "basic_op _ = False"

interpretation u32_detailed: codec write_u32_le "read_u32_detailed p" "\<lambda>_. True" for p
  unfolding write_u32_le_def [abs_def] read_u32_detailed_def by (rule codec_read_le) simp

interpretation str_detailed: codec write_string read_string_detailed wf_string
  unfolding write_string_def [abs_def] read_string_detailed_def [abs_def] wf_string_def [abs_def]
  by (rule codec_string) (rule u32_detailed.codec_axioms)

interpretation op_detailed: codec "\<lambda>x. the (encode_op x)" decode_op_detailed basic_op
proof
  show "decode_op_detailed bs off = Inr (x, off + length (the (encode_op x)))"
    if "basic_op x" and "bytes_at bs off (the (encode_op x))" for x bs off
    using that
    by (cases x rule: basic_op.cases)
      (auto simp: decode_op_detailed_def with_u32_detailed_def bytes_at_Cons u32_detailed.dec_enc
        i64_le.dec_enc one_byte.dec_enc)
  show "basic_op x \<and> off' = off + length (the (encode_op x)) \<and> bytes_at bs off (the (encode_op x))"
    if "off \<le> length bs" and "decode_op_detailed bs off = Inr (x, off')" for x bs off off'
  proof -
    from that(2) have le: "off + 1 \<le> length bs"
      by (auto simp: decode_op_detailed_def Let_def split: if_splits)
    with that(2) show ?thesis
      by (auto simp: decode_op_detailed_def with_u32_detailed_def bytes_at_Cons Let_def bind_res_Inr
          split: if_splits dest!: u32_detailed.dec_sound [OF le, simplified]
            i64_le.dec_sound [OF le, simplified] one_byte.dec_sound [OF le, simplified])
  qed
qed

interpretation strings_detailed: codec encode_strings
  "read_counted (read_u32_detailed StringTable) read_string_detailed"
  "\<lambda>strs. (\<forall>s\<in>set strs. wf_string s) \<and> length strs < 2 ^ 32"
  unfolding encode_strings_def [abs_def]
  by (rule codec_counted [OF str_detailed.codec_axioms u32_detailed.codec_axioms])

interpretation code_detailed: codec encode_instrs
  "read_counted (read_u32_detailed Instructions) decode_op_detailed"
  "\<lambda>ops. (\<forall>x\<in>set ops. basic_op x) \<and> length ops < 2 ^ 32"
  unfolding encode_instrs_def [abs_def]
  by (rule codec_counted [OF op_detailed.codec_axioms u32_detailed.codec_axioms])

lemma header_detailed_accepts:
  "validate_bytecode_header_detailed bs = Inr v \<longleftrightarrow> v = 1 \<and> bytes_at bs 0 MAGIC"
  using header_accepts [of bs v] by (simp add: validate_bytecode_header_def)

lemma decode_program_detailed_Inr:
  "decode_program_detailed bs = Inr p \<longleftrightarrow>
     take (length (program_head p)) bs = program_head p \<and>
     list_all wf_string (strings p) \<and> length (strings p) < 2 ^ 32 \<and>
     list_all basic_op (code p) \<and> length (code p) < 2 ^ 32 \<and>
     async_dispatch p = [] \<and> debug_entries p = []" (is "_ \<longleftrightarrow> ?rhs")
proof
  assume "decode_program_detailed bs = Inr p"
  then obtain v o1 o2 where v: "validate_bytecode_header_detailed bs = Inr v"
    and s: "read_counted (read_u32_detailed StringTable) read_string_detailed bs 8 = Inr (strings p, o1)"
    and c: "read_counted (read_u32_detailed Instructions) decode_op_detailed bs o1 = Inr (code p, o2)"
    and e: "async_dispatch p = []" "debug_entries p = []"
    by (auto simp: decode_program_detailed_def bind_res_Inr)
  from v have m: "bytes_at bs 0 MAGIC" by (simp add: header_detailed_accepts)
  then have 8: "8 \<le> length bs" using bytes_at_le by fastforce
  note s_ok = strings_detailed.dec_sound [OF 8 s]
    and c_ok = code_detailed.dec_sound [OF strings_detailed.dec_off_le [OF 8 s] c]
  from m s_ok c_ok have "bytes_at bs 0 (program_head p)" by (simp add: program_head_def)
  with s_ok c_ok e show ?rhs by (simp add: bytes_at_0 list_all_iff)
next
  assume *: ?rhs
  then have "bytes_at bs 0 (program_head p)" by (simp add: bytes_at_0)
  then have m: "bytes_at bs 0 MAGIC" and s: "bytes_at bs 8 (encode_strings (strings p))"
    and c: "bytes_at bs (8 + length (encode_strings (strings p))) (encode_instrs (code p))"
    by (simp_all add: program_head_def)
  from m have "validate_bytecode_header_detailed bs = Inr 1" by (simp add: header_detailed_accepts)
  moreover note strings_detailed.dec_enc [OF _ s] code_detailed.dec_enc [OF _ c]
  ultimately show "decode_program_detailed bs = Inr p"
    using * by (simp add: decode_program_detailed_def list_all_iff)
qed

text \<open>
  The function \<^verbatim>\<open>decode_program_detailed\<close> accepts exactly the files that begin with the header, a string table
  and a code section of the ten basic instructions; the program it returns never has asynchronous
  bodies or debug entries, whatever follows the code.
\<close>

theorem detailed_accepts_iff:
  "decode_program_detailed bs = Inr p \<longleftrightarrow>
     take (length (program_head p)) bs = program_head p \<and>
     list_all wf_string (strings p) \<and> length (strings p) < 2 ^ 32 \<and>
     list_all basic_op (code p) \<and> length (code p) < 2 ^ 32 \<and>
     async_dispatch p = [] \<and> debug_entries p = []"
  by (rule decode_program_detailed_Inr)

end
