(* ===== verification/Linker.thy ===== *)
theory Linker
  imports Bytecode_Encode Programs "HOL-Library.AList" "HOL-Library.Multiset"
begin

text \<open>
  Linking at load time, \<^verbatim>\<open>link_programs\<close> and \<^verbatim>\<open>remap_op\<close> of \<^verbatim>\<open>crates/arth-vm/src/link.rs\<close>:
  the libraries' strings, instructions, asynchronous bodies and debug entries are appended to the
  main program's with their indices moved, and every export gets its final offset in the symbol
  table. A \<^verbatim>\<open>HashMap\<close> is an association list with distinct keys; the order of the list stands for
  the unspecified iteration order. \<^verbatim>\<open>u32\<close> additions wrap, as in the release build.
\<close>

section \<open>Libraries\<close>

record export_entry =
  name :: rstring
  offset :: u32
  arity :: u8

record library =
  program :: program
  exports :: "(rstring \<times> export_entry) list"
  lib_id :: rstring

record linked_program =
  program :: program
  symbol_table :: "(rstring \<times> u32) list"

text \<open>\<^verbatim>\<open>collect\<close> inserts the exports one by one, a later export of a name replaces an earlier one.\<close>

definition library_new :: "rstring \<Rightarrow> program \<Rightarrow> export_entry list \<Rightarrow> library" where
  "library_new i p es =
     \<lparr>library.program = p, exports = fold (\<lambda>e. AList.update (name e) e) es [], lib_id = i\<rparr>"

definition get_export :: "library \<Rightarrow> rstring \<Rightarrow> export_entry option" where
  "get_export lib n = map_of (exports lib) n"

definition get_symbol :: "linked_program \<Rightarrow> rstring \<Rightarrow> u32 option" where
  "get_symbol l n = map_of (symbol_table l) n"

section \<open>Linking\<close>

fun remap_op :: "op \<Rightarrow> u32 \<Rightarrow> u32 \<Rightarrow> op" where
  "remap_op (Print ix) string_base code_base = Print (ix + string_base)"
| "remap_op (PrintStrVal ix) string_base code_base = PrintStrVal (ix + string_base)"
| "remap_op (PrintRaw ix) string_base code_base = PrintRaw (ix + string_base)"
| "remap_op (PrintRawStrVal ix) string_base code_base = PrintRawStrVal (ix + string_base)"
| "remap_op (PushStr ix) string_base code_base = PushStr (ix + string_base)"
| "remap_op (SharedGetByName ix) string_base code_base = SharedGetByName (ix + string_base)"
| "remap_op (Panic ix) string_base code_base = Panic (ix + string_base)"
| "remap_op (CallSymbol ix) string_base code_base = CallSymbol (ix + string_base)"
| "remap_op (ExternCall s argc float_mask ret_kind) string_base code_base =
     ExternCall (s + string_base) argc float_mask ret_kind"
| "remap_op (Jump tgt) string_base code_base = Jump (tgt + code_base)"
| "remap_op (JumpIfFalse tgt) string_base code_base = JumpIfFalse (tgt + code_base)"
| "remap_op (Call tgt) string_base code_base = Call (tgt + code_base)"
| "remap_op (SetUnwindHandler tgt) string_base code_base = SetUnwindHandler (tgt + code_base)"
| "remap_op (TaskRunBody tgt) string_base code_base = TaskRunBody (tgt + code_base)"
| "remap_op (RcDecWithDeinit tgt) string_base code_base = RcDecWithDeinit (tgt + code_base)"
| "remap_op (ClosureNew func_id captures) string_base code_base =
     ClosureNew (func_id + code_base) captures"
| "remap_op x string_base code_base = x"

record link_state =
  merged_strings :: "rstring list"
  merged_code :: "op list"
  merged_async :: "(i64 \<times> u32) list"
  merged_debug :: "debug_entry list"
  symbols :: "(rstring \<times> u32) list"
  current_code_offset :: u32

text \<open>One turn of the loop over the libraries.\<close>

definition link_library :: "library \<Rightarrow> link_state \<Rightarrow> link_state" where
  "link_library lib st =
     (let p = library.program lib;
          string_base = of_nat (length (merged_strings st));
          code_base = current_code_offset st
      in \<lparr>merged_strings = merged_strings st @ strings p,
          merged_code = merged_code st @ map (\<lambda>x. remap_op x string_base code_base) (code p),
          merged_async =
            merged_async st @ map (\<lambda>(fn_id, off). (fn_id, off + code_base)) (async_dispatch p),
          merged_debug =
            merged_debug st @
              map (\<lambda>e. e\<lparr>entry_offset := entry_offset e + code_base\<rparr>) (debug_entries p),
          symbols =
            fold (\<lambda>(n, e). AList.update n (offset e + code_base)) (exports lib) (symbols st),
          current_code_offset = code_base + of_nat (length (code p))\<rparr>)"

definition link_start :: "program \<Rightarrow> link_state" where
  "link_start main =
     \<lparr>merged_strings = strings main, merged_code = code main,
      merged_async = async_dispatch main, merged_debug = debug_entries main,
      symbols = [], current_code_offset = of_nat (length (code main))\<rparr>"

definition link_programs :: "program \<Rightarrow> library list \<Rightarrow> linked_program" where
  "link_programs main libraries =
     (if libraries = [] then \<lparr>linked_program.program = main, symbol_table = []\<rparr>
      else let st = fold link_library libraries (link_start main)
        in \<lparr>linked_program.program =
              \<lparr>strings = merged_strings st, code = merged_code st,
               async_dispatch = merged_async st,
               debug_entries = sort_key entry_offset (merged_debug st)\<rparr>,
            symbol_table = symbols st\<rparr>)"

section \<open>Relocation of single instructions\<close>

text \<open>The operand of an instruction that is an index into the string table, or into the code.\<close>

fun string_operand :: "op \<Rightarrow> u32 option" where
  "string_operand (Print ix) = Some ix"
| "string_operand (PrintStrVal ix) = Some ix"
| "string_operand (PrintRaw ix) = Some ix"
| "string_operand (PrintRawStrVal ix) = Some ix"
| "string_operand (PushStr ix) = Some ix"
| "string_operand (SharedGetByName ix) = Some ix"
| "string_operand (Panic ix) = Some ix"
| "string_operand (CallSymbol ix) = Some ix"
| "string_operand (ExternCall s _ _ _) = Some s"
| "string_operand _ = None"

fun code_operand :: "op \<Rightarrow> u32 option" where
  "code_operand (Jump tgt) = Some tgt"
| "code_operand (JumpIfFalse tgt) = Some tgt"
| "code_operand (Call tgt) = Some tgt"
| "code_operand (SetUnwindHandler tgt) = Some tgt"
| "code_operand (TaskRunBody tgt) = Some tgt"
| "code_operand (RcDecWithDeinit tgt) = Some tgt"
| "code_operand (ClosureNew tgt _) = Some tgt"
| "code_operand _ = None"

lemma string_operand_remap:
  "string_operand (remap_op x s c) = map_option (\<lambda>i. i + s) (string_operand x)"
  by (cases "(x, s, c)" rule: remap_op.cases) simp_all

lemma code_operand_remap:
  "code_operand (remap_op x s c) = map_option (\<lambda>i. i + c) (code_operand x)"
  by (cases "(x, s, c)" rule: remap_op.cases) simp_all

lemma remap_op_zero: "remap_op x 0 0 = x"
  by (cases "(x, 0 :: u32, 0 :: u32)" rule: remap_op.cases) simp_all

lemma remap_op_remap: "remap_op (remap_op x s c) s' c' = remap_op x (s + s') (c + c')"
  by (cases "(x, s, c)" rule: remap_op.cases) (simp_all add: add.assoc)

text \<open>Nothing else of the instruction changes.\<close>

lemma encodable_remap: "encodable (remap_op x s c) = encodable x"
  by (cases "(x, s, c)" rule: remap_op.cases) (simp_all add: encodable_def)

section \<open>Where linking puts a library\<close>

definition total_strings :: "program \<Rightarrow> library list \<Rightarrow> nat" where
  "total_strings main libs =
     length (strings main) + sum_list (map (\<lambda>l. length (strings (library.program l))) libs)"

definition total_code :: "program \<Rightarrow> library list \<Rightarrow> nat" where
  "total_code main libs =
     length (code main) + sum_list (map (\<lambda>l. length (code (library.program l))) libs)"

abbreviation linked_state :: "program \<Rightarrow> library list \<Rightarrow> link_state" where
  "linked_state main libs \<equiv> fold link_library libs (link_start main)"

lemma link_programs_fields:
  "strings (linked_program.program (link_programs main libs)) = merged_strings (linked_state main libs)"
  "code (linked_program.program (link_programs main libs)) = merged_code (linked_state main libs)"
  "async_dispatch (linked_program.program (link_programs main libs)) = merged_async (linked_state main libs)"
  "symbol_table (link_programs main libs) = symbols (linked_state main libs)"
  "libs \<noteq> [] \<Longrightarrow> debug_entries (linked_program.program (link_programs main libs)) =
     sort_key entry_offset (merged_debug (linked_state main libs))"
  by (auto simp: link_programs_def link_start_def Let_def)

lemma length_merged:
  "length (merged_strings (linked_state main libs)) = total_strings main libs"
  "length (merged_code (linked_state main libs)) = total_code main libs"
  "current_code_offset (linked_state main libs) = of_nat (total_code main libs)"
  by (induction libs rule: rev_induct)
    (simp_all add: link_start_def link_library_def Let_def total_strings_def total_code_def)

lemma total_append:
  "total_strings main libs \<le> total_strings main (libs @ ls)"
  "total_code main libs \<le> total_code main (libs @ ls)"
  by (simp_all add: total_strings_def total_code_def)

text \<open>Later libraries only append.\<close>

lemma merged_strings_extend:
  "\<exists>xs. merged_strings (fold link_library libs st) = merged_strings st @ xs"
proof (induction libs arbitrary: st)
  case (Cons lib libs)
  from Cons.IH [of "link_library lib st"] show ?case by (auto simp: link_library_def Let_def)
qed simp

lemma merged_code_extend:
  "\<exists>xs. merged_code (fold link_library libs st) = merged_code st @ xs"
proof (induction libs arbitrary: st)
  case (Cons lib libs)
  from Cons.IH [of "link_library lib st"] show ?case by (auto simp: link_library_def Let_def)
qed simp

lemma placement:
  fixes main :: program and lib :: library
  assumes "libs = ls1 @ lib # ls2"
  defines "sb \<equiv> of_nat (total_strings main ls1)" and "cb \<equiv> of_nat (total_code main ls1)"
  shows "bytes_at (merged_strings (linked_state main libs)) (total_strings main ls1)
      (strings (library.program lib))"
    and "bytes_at (merged_code (linked_state main libs)) (total_code main ls1)
      (map (\<lambda>x. remap_op x sb cb) (code (library.program lib)))"
proof -
  let ?st = "linked_state main ls1"
  have fold: "linked_state main libs = fold link_library ls2 (link_library lib ?st)"
    by (simp add: assms(1))
  from merged_strings_extend [of ls2 "link_library lib ?st"]
    merged_code_extend [of ls2 "link_library lib ?st"] obtain xs ys
    where "merged_strings (linked_state main libs) = merged_strings ?st @ strings (library.program lib) @ xs"
      and "merged_code (linked_state main libs) = merged_code ?st @
        map (\<lambda>x. remap_op x sb cb) (code (library.program lib)) @ ys"
    by (auto simp: fold link_library_def Let_def length_merged sb_def cb_def)
  then show "bytes_at (merged_strings (linked_state main libs)) (total_strings main ls1)
      (strings (library.program lib))"
    and "bytes_at (merged_code (linked_state main libs)) (total_code main ls1)
      (map (\<lambda>x. remap_op x sb cb) (code (library.program lib)))"
    by (simp_all only: length_merged [where main = main and libs = ls1, symmetric] bytes_at_self)
qed

lemma main_placement:
  "\<exists>xs. merged_strings (linked_state main libs) = strings main @ xs"
  "\<exists>xs. merged_code (linked_state main libs) = code main @ xs"
  using merged_strings_extend [of libs "link_start main"] merged_code_extend [of libs "link_start main"]
  by (simp_all add: link_start_def)

lemma unat_base_add:
  assumes "base + n \<le> 2 ^ 32" and "unat (ix :: u32) < n"
  shows "unat (ix + of_nat base) = base + unat ix"
proof -
  have "base < 2 ^ 32" using assms by auto
  then have "unat (of_nat base :: u32) = base" by (simp add: unsigned_of_nat take_bit_nat_eq_self)
  with assms show ?thesis by (simp add: unat_add_lem [THEN iffD1])
qed

section \<open>What linking guarantees\<close>

text \<open>
  C3: references inside a library survive linking. Whatever main program it is linked into and
  whichever libraries stand before and after it, an instruction of a library that names one of the
  library's strings names the same string in the merged table, and one that names an instruction of
  the library names that instruction, moved; all other parts of the instruction are unchanged and
  the main program's instructions are not touched.
\<close>

theorem link_references:
  assumes libs: "libs = ls1 @ lib # ls2" and i: "i < length (code (library.program lib))"
    and fits: "total_strings main libs \<le> 2 ^ 32" "total_code main libs \<le> 2 ^ 32"
  defines "p \<equiv> library.program lib" and "q \<equiv> linked_program.program (link_programs main libs)"
    and "base \<equiv> total_code main ls1"
  shows "take (length (code main)) (code q) = code main \<and>
    base + i < length (code q) \<and>
    code q ! (base + i) = remap_op (code p ! i) (of_nat (total_strings main ls1)) (of_nat base) \<and>
    (case string_operand (code p ! i) of
       Some ix \<Rightarrow> unat ix < length (strings p) \<longrightarrow>
         (\<exists>ix'. string_operand (code q ! (base + i)) = Some ix' \<and> unat ix' < length (strings q) \<and>
                strings q ! unat ix' = strings p ! unat ix)
     | None \<Rightarrow> string_operand (code q ! (base + i)) = None) \<and>
    (case code_operand (code p ! i) of
       Some tgt \<Rightarrow> unat tgt < length (code p) \<longrightarrow>
         (\<exists>tgt'. code_operand (code q ! (base + i)) = Some tgt' \<and> unat tgt' = base + unat tgt)
     | None \<Rightarrow> code_operand (code q ! (base + i)) = None)"
proof -
  note placed = placement [where main = main, OF libs, folded link_programs_fields(1,2) q_def p_def base_def]
  have "take (length (code main)) (code q) = code main"
    using main_placement(2) [where main = main and libs = libs] by (auto simp: q_def link_programs_fields)
  moreover have at: "base + i < length (code q) \<and>
      code q ! (base + i) = remap_op (code p ! i) (of_nat (total_strings main ls1)) (of_nat base)"
    using bytes_at_nth [OF placed(2), of i] i by (simp add: p_def)
  moreover have "total_strings main ls1 + length (strings p) \<le> 2 ^ 32"
    and "base + length (code p) \<le> 2 ^ 32"
    using fits libs total_append [where main = main and libs = "ls1 @ [lib]" and ls = ls2]
    by (simp_all add: total_strings_def total_code_def p_def base_def)
  ultimately show ?thesis
    using bytes_at_nth [OF placed(1)]
    by (auto simp: string_operand_remap code_operand_remap unat_base_add split: option.splits)
qed

text \<open>Two libraries that share a string, with calls and jumps, to instantiate the theorems.\<close>

definition sample_main :: program where
  "sample_main = program_new [bytes_of ''main''] [PushStr 0, CallSymbol 0, OpBase Halt]"

definition sample_lib :: library where
  "sample_lib = library_new (bytes_of ''lib'')
     \<lparr>strings = [bytes_of ''a'', bytes_of ''b''],
      code = [PushStr 1, OpBase PrintTop, JumpIfFalse 0, Call 0, OpBase Ret],
      async_dispatch = [(7, 1)],
      debug_entries = [debug_entry_new 3 (bytes_of ''g''), debug_entry_new 0 (bytes_of ''f'')]\<rparr>
     [\<lparr>name = bytes_of ''f'', offset = 0, arity = 1\<rparr>, \<lparr>name = bytes_of ''g'', offset = 3, arity = 0\<rparr>]"

lemmas sample_link_defs =
  sample_main_def sample_lib_def library_new_def program_new_def total_strings_def total_code_def

lemma sample_link_facts:
  "total_strings sample_main [sample_lib] = 3" "total_strings sample_main [sample_lib, sample_lib] = 5"
  "total_code sample_main [sample_lib] = 8" "total_code sample_main [sample_lib, sample_lib] = 13"
  "length (code (library.program sample_lib)) = 5" "code (library.program sample_lib) ! 0 = PushStr 1"
  "strings (library.program sample_lib) = [bytes_of ''a'', bytes_of ''b'']"
  "distinct (map fst (exports sample_lib))"
  "get_export sample_lib (bytes_of ''g'') = Some \<lparr>name = bytes_of ''g'', offset = 3, arity = 0\<rparr>"
  by (simp_all add: sample_link_defs get_export_def)

lemma link_references_witness:
  "\<exists>ix. string_operand
      (code (linked_program.program (link_programs sample_main [sample_lib, sample_lib])) ! 8) = Some ix \<and>
    strings (linked_program.program (link_programs sample_main [sample_lib, sample_lib])) ! unat ix =
      bytes_of ''b''"
  using link_references [of "[sample_lib, sample_lib]" "[sample_lib]" sample_lib "[]" 0 sample_main]
  by (auto simp: sample_link_facts simp del: bytes_of_Cons)

section \<open>The symbol table\<close>

lemma fold_update_map_of:
  "distinct (map fst es) \<Longrightarrow>
   map_of (fold (\<lambda>(n, e). AList.update n (f e)) es al) n =
     (case map_of es n of Some e \<Rightarrow> Some (f e) | None \<Rightarrow> map_of al n)"
proof (induction es arbitrary: al)
  case (Cons x es)
  obtain m e where x: "x = (m, e)" by fastforce
  from Cons x have "map_of es m = None" by (auto simp: map_of_eq_None_iff)
  with Cons x show ?case by (auto simp: update_conv' split: option.splits)
qed simp

lemma distinct_fold_update:
  "distinct (map fst al) \<Longrightarrow> distinct (map fst (fold (\<lambda>e. AList.update (k e) e) es al))"
  by (induction es arbitrary: al) (simp_all add: distinct_update)

lemma map_of_exports:
  assumes "distinct (map fst (exports lib))"
  shows "map_of (symbols (link_library lib st)) n =
    (case get_export lib n of
       Some e \<Rightarrow> Some (offset e + current_code_offset st)
     | None \<Rightarrow> map_of (symbols st) n)"
  using fold_update_map_of [OF assms, where f = "\<lambda>e. offset e + current_code_offset st"]
  by (simp add: link_library_def Let_def get_export_def)

lemma symbols_skip:
  assumes "\<forall>l\<in>set ls. distinct (map fst (exports l)) \<and> get_export l n = None"
  shows "map_of (symbols (fold link_library ls st)) n = map_of (symbols st) n"
  using assms by (induction ls arbitrary: st) (simp_all add: map_of_exports)

text \<open>
  C27: the symbol table holds the final offset of every export. A name resolves to the export of the
  last library that has it, at the offset where that library's code was put, and what stands there
  is the exported instruction; a name that no library exports is not in the table.
\<close>

theorem link_symbols:
  assumes maps: "\<forall>l\<in>set libs. distinct (map fst (exports l))"
    and libs: "libs = ls1 @ lib # ls2" and last: "\<forall>l\<in>set ls2. get_export l n = None"
    and e: "get_export lib n = Some e"
    and inside: "unat (offset e) < length (code (library.program lib))"
    and fits: "total_code main libs \<le> 2 ^ 32"
  shows "\<exists>off. get_symbol (link_programs main libs) n = Some off \<and>
    unat off = total_code main ls1 + unat (offset e) \<and>
    code (linked_program.program (link_programs main libs)) ! unat off =
      remap_op (code (library.program lib) ! unat (offset e))
        (of_nat (total_strings main ls1)) (of_nat (total_code main ls1)) \<and>
    (\<forall>m. get_symbol (link_programs main libs) m = None \<longleftrightarrow> (\<forall>l\<in>set libs. get_export l m = None))"
proof -
  let ?off = "offset e + of_nat (total_code main ls1)"
  have "map_of (symbols (linked_state main libs)) n = Some ?off"
    using maps last e by (simp add: libs symbols_skip map_of_exports length_merged)
  moreover have "unat ?off = total_code main ls1 + unat (offset e)"
    using fits libs total_append(2) [where main = main and libs = "ls1 @ [lib]" and ls = ls2] inside
    by (intro unat_base_add [where n = "length (code (library.program lib))"]) (simp_all add: total_code_def)
  moreover have "map_of (symbols (fold link_library ls st)) m = None \<longleftrightarrow>
      (\<forall>l\<in>set ls. get_export l m = None) \<and> map_of (symbols st) m = None"
    if "\<forall>l\<in>set ls. distinct (map fst (exports l))" for ls st m
    using that by (induction ls arbitrary: st) (auto simp: map_of_exports split: option.splits)
  ultimately show ?thesis
    using maps bytes_at_nth [OF placement(2) [where main = main, OF libs], of "unat (offset e)"] inside
    by (auto simp: get_symbol_def link_programs_fields link_start_def)
qed

lemma link_symbols_witness:
  "\<exists>off. get_symbol (link_programs sample_main [sample_lib, sample_lib]) (bytes_of ''g'') = Some off \<and>
    unat off = 11"
proof -
  let ?e = "\<lparr>name = bytes_of ''g'', offset = 3, arity = 0\<rparr>" and ?libs = "[sample_lib, sample_lib]"
  have "\<forall>l\<in>set ?libs. distinct (map fst (exports l))" and "?libs = [sample_lib] @ sample_lib # []"
    and "\<forall>l\<in>set []. get_export l (bytes_of ''g'') = None"
    and "unat (offset ?e) < length (code (library.program sample_lib))"
    and "total_code sample_main ?libs \<le> 2 ^ 32"
    by (simp_all add: sample_link_facts)
  from link_symbols [OF this(1-3) sample_link_facts(9) this(4,5)]
  show ?thesis by (elim exE conjE, intro exI conjI) (assumption, simp add: sample_link_facts)
qed

section \<open>Linking step by step\<close>

text \<open>
  Two states that agree up to the order of debug entries with different offsets lead to the same
  program; sorting is stable, so entries with the same offset keep their order.
\<close>

definition same_but_debug_order :: "link_state \<Rightarrow> link_state \<Rightarrow> bool" where
  "same_but_debug_order st st' \<longleftrightarrow>
     merged_strings st = merged_strings st' \<and> merged_code st = merged_code st' \<and>
     merged_async st = merged_async st' \<and> current_code_offset st = current_code_offset st' \<and>
     mset (merged_debug st) = mset (merged_debug st') \<and>
     (\<forall>k. filter (\<lambda>e. entry_offset e = k) (merged_debug st) =
          filter (\<lambda>e. entry_offset e = k) (merged_debug st'))"

lemma same_but_debug_order_step:
  "same_but_debug_order st st' \<Longrightarrow> same_but_debug_order (link_library lib st) (link_library lib st')"
  by (simp add: same_but_debug_order_def link_library_def Let_def)

lemma same_but_debug_order_fold:
  "same_but_debug_order st st' \<Longrightarrow>
   same_but_debug_order (fold link_library libs st) (fold link_library libs st')"
  by (induction libs arbitrary: st st') (simp_all add: same_but_debug_order_step)

lemma same_but_debug_order_sort:
  assumes "same_but_debug_order st st'"
  shows "sort_key entry_offset (merged_debug st) = sort_key entry_offset (merged_debug st')"
proof (rule properties_for_sort_key)
  show "mset (sort_key entry_offset (merged_debug st')) = mset (merged_debug st)"
    using assms by (simp add: same_but_debug_order_def)
  show "filter (\<lambda>x. entry_offset e = entry_offset x) (sort_key entry_offset (merged_debug st')) =
      filter (\<lambda>x. entry_offset e = entry_offset x) (merged_debug st)" for e
    using assms
    by (simp only: sort_key_stable same_but_debug_order_def eq_commute [of "entry_offset e"])
qed simp

lemma same_but_debug_order_restart:
  "libs \<noteq> [] \<Longrightarrow> same_but_debug_order
     (link_start (linked_program.program (link_programs main libs))) (linked_state main libs)"
  by (simp add: same_but_debug_order_def link_start_def [of "linked_program.program _"]
      link_programs_fields length_merged sort_key_stable)

text \<open>
  Linking is incremental. Linking some libraries and then further ones into the result gives the
  same program as linking all of them at once: the bases of the later libraries, every moved operand
  and the order of the debug entries do not depend on how the work is split.
\<close>

theorem link_incremental:
  "linked_program.program (link_programs (linked_program.program (link_programs main libs)) libs') =
   linked_program.program (link_programs main (libs @ libs'))"
proof (cases "libs = [] \<or> libs' = []")
  case True
  then show ?thesis by (auto simp: link_programs_def)
next
  case False
  then have "same_but_debug_order
      (linked_state (linked_program.program (link_programs main libs)) libs') (linked_state main (libs @ libs'))"
    by (simp add: same_but_debug_order_fold same_but_debug_order_restart)
  with False same_but_debug_order_sort [OF this] show ?thesis
    by (simp add: same_but_debug_order_def link_programs_def Let_def)
qed

text \<open>
  The linked program's debug entries are sorted by offset, as the binary search of
  \<^verbatim>\<open>lookup_function\<close> needs, and are those of the main program and of the libraries, moved. So a
  lookup finds the last function that starts at or before an instruction.
\<close>

theorem link_debug_lookup:
  assumes "libs \<noteq> []" and "lookup_function (linked_program.program (link_programs main libs)) ip = Some e"
  shows "e \<in> set (debug_entries (linked_program.program (link_programs main libs))) \<and> entry_offset e \<le> ip \<and>
    (\<forall>e'\<in>set (debug_entries (linked_program.program (link_programs main libs))).
       entry_offset e' \<le> ip \<longrightarrow> entry_offset e' \<le> entry_offset e)"
proof (rule lookup_function_Some [OF _ assms(2)])
  show "sorted (map entry_offset (debug_entries (linked_program.program (link_programs main libs))))"
    using assms(1) by (simp add: link_programs_fields)
qed

lemma link_debug_lookup_witness:
  "\<exists>e. lookup_function (linked_program.program (link_programs sample_main [sample_lib])) 5 = Some e \<and>
     e \<in> set (debug_entries (linked_program.program (link_programs sample_main [sample_lib]))) \<and>
     entry_offset e = 3"
proof -
  have look: "lookup_function (linked_program.program (link_programs sample_main [sample_lib])) 5 =
      Some (debug_entry_new 3 (bytes_of ''f''))"
    by (simp add: link_programs_def link_library_def link_start_def sample_link_defs Let_def
        debug_entry_new_def lookup_function_def binary_search_by_key_def bsearch_loop.simps)
  with link_debug_lookup [OF _ look] show ?thesis by (simp add: debug_entry_new_def)
qed

end
