(* ===== verification/Library_Format.thy ===== *)
theory Library_Format
  imports Bytecode_Program Linker
begin

text \<open>
  The library format of \<^verbatim>\<open>crates/arth-vm/src/link.rs\<close>: a header \<^verbatim>\<open>ARTHLIBn\<close>, the library's id, an
  encoded program and the table of exports. A library file is written by \<^verbatim>\<open>encode_library\<close> and read
  by \<^verbatim>\<open>decode_library\<close>, which takes a file without the library header for a plain program.
\<close>

section \<open>The header\<close>

definition LIB_MAGIC_PREFIX :: "u8 list" where
  "LIB_MAGIC_PREFIX = bytes_of ''ARTHLIB''"

definition LIBRARY_VERSION :: u8 where "LIBRARY_VERSION = 1"
definition MIN_SUPPORTED_LIB_VERSION :: u8 where "MIN_SUPPORTED_LIB_VERSION = 1"
definition MAX_SUPPORTED_LIB_VERSION :: u8 where "MAX_SUPPORTED_LIB_VERSION = 1"

definition make_library_magic :: "u8 \<Rightarrow> u8 list" where
  "make_library_magic v = bytes_of ''ARTHLIB'' @ [48 + v]"

definition LIB_MAGIC :: "u8 list" where
  "LIB_MAGIC = make_library_magic LIBRARY_VERSION"

record library_version_info =
  lib_version :: u8
  lib_supported :: bool
  lib_min_supported :: u8
  lib_max_supported :: u8

definition current_library_version_info :: library_version_info where
  "current_library_version_info =
     \<lparr>lib_version = LIBRARY_VERSION, lib_supported = True,
      lib_min_supported = MIN_SUPPORTED_LIB_VERSION, lib_max_supported = MAX_SUPPORTED_LIB_VERSION\<rparr>"

definition extract_lib_version :: "u8 list \<Rightarrow> u8 option" where
  "extract_lib_version header =
     (if length header < 8 then None
      else if take 7 header \<noteq> LIB_MAGIC_PREFIX then None
      else let v = header ! 7 in if is_ascii_digit v then Some (v - 48) else None)"

definition is_lib_version_supported :: "u8 \<Rightarrow> bool" where
  "is_lib_version_supported v \<longleftrightarrow> MIN_SUPPORTED_LIB_VERSION \<le> v \<and> v \<le> MAX_SUPPORTED_LIB_VERSION"

definition show_u8 :: "u8 \<Rightarrow> string" where
  "show_u8 b = show_nat (unat b)"

definition supported_range :: string where
  "supported_range =
     '': this VM supports versions '' @ show_u8 MIN_SUPPORTED_LIB_VERSION @ ''-'' @
       show_u8 MAX_SUPPORTED_LIB_VERSION"

definition validate_library_header :: "u8 list \<Rightarrow> message + u8" where
  "validate_library_header bs =
     (if length bs < 8 then
        Inl (Text (''library too short: expected at least 8 bytes, got '' @ show_nat (length bs)))
      else let header = take 8 bs in
      if take 7 header \<noteq> LIB_MAGIC_PREFIX then
        (if starts_with header (bytes_of ''ARTHBC'') then
           Inl (Text ''invalid library: file appears to be an Arth program (.abc), not a library (.alib). Use 'arth run' to execute programs directly.'')
         else
           Inl (Prefixed ''invalid library magic: expected 'ARTHLIB', got '' (Lossy (take 7 header))))
      else (case extract_lib_version header of
              None \<Rightarrow>
                Inl (Text (''invalid library version format: expected digit, got '' @
                  [CHR 39, char_of (unat (header ! 7)), CHR 39]))
            | Some v \<Rightarrow>
                if \<not> is_lib_version_supported v then
                  (if v > MAX_SUPPORTED_LIB_VERSION then
                     Inl (Text (''library version '' @ show_u8 v @ '' is too new'' @ supported_range @
                       ''. Please upgrade your Arth VM to load this library.''))
                   else
                     Inl (Text (''library version '' @ show_u8 v @ '' is too old'' @ supported_range @
                       ''. Please recompile the library with a newer Arth compiler.'')))
                else Inr v))"

definition get_library_info :: "u8 list \<Rightarrow> message + library_version_info" where
  "get_library_info bs =
     bind_res (validate_library_header bs) (\<lambda>v.
       Inr \<lparr>lib_version = v, lib_supported = is_lib_version_supported v,
            lib_min_supported = MIN_SUPPORTED_LIB_VERSION,
            lib_max_supported = MAX_SUPPORTED_LIB_VERSION\<rparr>)"

definition is_valid_library :: "u8 list \<Rightarrow> bool" where
  "is_valid_library bs \<longleftrightarrow> is_ok (validate_library_header bs)"

section \<open>Writing\<close>

definition encode_export :: "rstring \<times> export_entry \<Rightarrow> u8 list" where
  "encode_export x = write_string (fst x) @ write_u32_le (offset (snd x)) @ [arity (snd x)]"

definition encode_library :: "library \<Rightarrow> u8 list option" where
  "encode_library lib =
     map_option (\<lambda>program_bytes.
         LIB_MAGIC @ write_string (lib_id lib) @
         write_u32_le (of_nat (length program_bytes)) @ program_bytes @
         write_u32_le (of_nat (length (exports lib))) @ concat (map encode_export (exports lib)))
       (encode_program (library.program lib))"

section \<open>Reading\<close>

definition lib_eof :: "string \<Rightarrow> u8 list \<Rightarrow> usize \<Rightarrow> decode_error" where
  "lib_eof expected bs off = new_error (UnexpectedEof expected) Header off bs"

definition lib_read_u32 :: "u8 list \<Rightarrow> usize \<Rightarrow> decode_error + u32 \<times> usize" where
  "lib_read_u32 = read_le 4 (lib_eof ''u32 value'')"

text \<open>A length and a UTF-8 string of that length; \<open>what\<close> and \<open>prefix\<close> are for the errors.\<close>

definition lib_read_string ::
  "string \<Rightarrow> string \<Rightarrow> u8 list \<Rightarrow> usize \<Rightarrow> decode_error + rstring \<times> usize" where
  "lib_read_string what prefix bs off =
     bind_res (lib_read_u32 bs off) (\<lambda>(len, off1).
       read_utf8 (lib_eof what)
         (\<lambda>e bs o1. new_error (InvalidUtf8 (Prefixed prefix (Utf8Message e))) Header o1 bs)
         (unat len) bs off1)"

definition decode_export :: "nat \<Rightarrow> u8 list \<Rightarrow> usize \<Rightarrow> decode_error + export_entry \<times> usize" where
  "decode_export i bs off =
     bind_res (lib_read_string ''export name'' (''invalid export name #'' @ show_nat i @ '': '') bs off)
       (\<lambda>(n, off1).
     bind_res (lib_read_u32 bs off1) (\<lambda>(e_off, off2).
     bind_res (read_byte (lib_eof ''export arity'') bs off2) (\<lambda>(ar, off3).
       Inr (\<lparr>name = n, offset = e_off, arity = ar\<rparr>, off3))))"

text \<open>\<^verbatim>\<open>for i in 0..export_count\<close>\<close>

fun decode_exports_from ::
  "nat \<Rightarrow> nat \<Rightarrow> u8 list \<Rightarrow> usize \<Rightarrow> decode_error + export_entry list \<times> usize" where
  "decode_exports_from i 0 bs off = Inr ([], off)"
| "decode_exports_from i (Suc n) bs off =
     bind_res (decode_export i bs off) (\<lambda>(e, off1).
     bind_res (decode_exports_from (Suc i) n bs off1) (\<lambda>(es, off2). Inr (e # es, off2)))"

definition decode_library_format_detailed ::
  "u8 list \<Rightarrow> decode_error + program \<times> export_entry list" where
  "decode_library_format_detailed bs =
     bind_res (lib_read_string ''library ID'' ''invalid library ID: '' bs (length LIB_MAGIC)) (\<lambda>(_, off1).
     bind_res (lib_read_u32 bs off1) (\<lambda>(program_len, off2).
       if length bs < off2 + unat program_len then Inl (lib_eof ''program bytes'' bs off2)
       else
         let program_bytes = take (unat program_len) (drop off2 bs) in
         bind_res
           (map_err (\<lambda>e. new_error (OtherError e) Instructions off2 program_bytes)
             (decode_program program_bytes)) (\<lambda>p.
         bind_res (lib_read_u32 bs (off2 + unat program_len)) (\<lambda>(export_count, off3).
         bind_res (decode_exports_from 0 (unat export_count) bs off3) (\<lambda>(es, _).
           Inr (p, es))))))"

definition validate_library_header_detailed :: "u8 list \<Rightarrow> decode_error + u8" where
  "validate_library_header_detailed bs =
     map_err (\<lambda>e. new_error (OtherError e) Header 0 bs) (validate_library_header bs)"

definition decode_library_detailed :: "u8 list \<Rightarrow> decode_error + program \<times> export_entry list" where
  "decode_library_detailed bs =
     (if length bs < 8 then Inl (new_error (TooShort 8 (length bs)) Header 0 bs)
      else if starts_with bs LIB_MAGIC_PREFIX then
        bind_res (validate_library_header_detailed bs) (\<lambda>_. decode_library_format_detailed bs)
      else
        bind_res (decode_program_detailed bs) (\<lambda>p. Inr (p, [])))"

definition decode_library :: "u8 list \<Rightarrow> message + program \<times> export_entry list" where
  "decode_library bs = map_err Rendered (decode_library_detailed bs)"

definition library_from_bytes :: "rstring \<Rightarrow> u8 list \<Rightarrow> message + library" where
  "library_from_bytes i bs =
     bind_res (decode_library bs) (\<lambda>(p, es). Inr (library_new i p es))"

text \<open>
  \<^verbatim>\<open>load_and_link\<close>, with the contents of the files, or the error of reading one, in place of the
  paths: the first library that cannot be read or decoded ends the load.
\<close>

definition load_library :: "message + u8 list \<Rightarrow> rstring \<Rightarrow> message + library" where
  "load_library file i = bind_res file (library_from_bytes i)"

fun load_libraries :: "(rstring \<times> (message + u8 list)) list \<Rightarrow> message + library list" where
  "load_libraries [] = Inr []"
| "load_libraries ((i, file) # rest) =
     bind_res (load_library file i) (\<lambda>lib.
     bind_res (load_libraries rest) (\<lambda>libs. Inr (lib # libs)))"

definition load_and_link ::
  "program \<Rightarrow> (rstring \<times> (message + u8 list)) list \<Rightarrow> message + linked_program" where
  "load_and_link main files = bind_res (load_libraries files) (\<lambda>libs. Inr (link_programs main libs))"

section \<open>The reader without error positions\<close>

text \<open>
  \<^verbatim>\<open>decode_library_format\<close> is a second version of the reader, with \<^verbatim>\<open>String\<close> errors.
\<close>

definition link_read_u32_le :: "u8 list \<Rightarrow> usize \<Rightarrow> message + u32 \<times> usize" where
  "link_read_u32_le = read_le 4 (\<lambda>_ _. Text ''unexpected EOF reading u32'')"

definition plain_read_string ::
  "string \<Rightarrow> string \<Rightarrow> u8 list \<Rightarrow> usize \<Rightarrow> message + rstring \<times> usize" where
  "plain_read_string what prefix bs off =
     bind_res (link_read_u32_le bs off) (\<lambda>(len, off1).
       read_utf8 (\<lambda>_ _. Text (''unexpected EOF reading '' @ what))
         (\<lambda>e _ _. Prefixed prefix (Utf8Message e)) (unat len) bs off1)"

definition plain_decode_export :: "u8 list \<Rightarrow> usize \<Rightarrow> message + export_entry \<times> usize" where
  "plain_decode_export bs off =
     bind_res (plain_read_string ''export name'' ''invalid export name: '' bs off) (\<lambda>(n, off1).
     bind_res (link_read_u32_le bs off1) (\<lambda>(e_off, off2).
     bind_res (read_byte (\<lambda>_ _. Text ''unexpected EOF reading export arity'') bs off2) (\<lambda>(ar, off3).
       Inr (\<lparr>name = n, offset = e_off, arity = ar\<rparr>, off3))))"

definition decode_library_format :: "u8 list \<Rightarrow> message + program \<times> export_entry list" where
  "decode_library_format bs =
     bind_res (plain_read_string ''library ID'' ''invalid library ID: '' bs (length LIB_MAGIC)) (\<lambda>(_, off1).
     bind_res (link_read_u32_le bs off1) (\<lambda>(program_len, off2).
       if length bs < off2 + unat program_len then
         Inl (Text ''unexpected EOF reading program bytes'')
       else
         bind_res (decode_program (take (unat program_len) (drop off2 bs))) (\<lambda>p.
         bind_res (link_read_u32_le bs (off2 + unat program_len)) (\<lambda>(export_count, off3).
         bind_res (repeat_dec (unat export_count) (plain_decode_export bs) off3) (\<lambda>(es, _).
           Inr (p, es))))))"

section \<open>The two readers accept the same files\<close>

text \<open>What the atoms accept does not depend on the error they would report.\<close>

lemma read_le_Inr:
  "read_le k eof bs off = Inr (w, off') \<longleftrightarrow>
     off + k \<le> length bs \<and> w = from_le (take k (drop off bs)) \<and> off' = off + k"
  by (auto simp: read_le_def)

lemma read_byte_Inr:
  "read_byte eof bs off = Inr (b, off') \<longleftrightarrow> off < length bs \<and> b = bs ! off \<and> off' = off + 1"
  by (auto simp: read_byte_def)

lemmas atoms_Inr = read_le_Inr read_byte_Inr read_utf8_ok

lemma lib_read_u32_Inr: "lib_read_u32 bs off = Inr r \<longleftrightarrow> link_read_u32_le bs off = Inr r"
  by (cases r) (simp add: lib_read_u32_def link_read_u32_le_def read_le_Inr)

lemma lib_read_string_Inr:
  "lib_read_string what pre bs off = Inr r \<longleftrightarrow> plain_read_string what' pre' bs off = Inr r"
  by (cases r)
    (auto simp: lib_read_string_def plain_read_string_def bind_res_Inr lib_read_u32_Inr read_utf8_ok)

lemma decode_export_Inr: "decode_export i bs off = Inr r \<longleftrightarrow> plain_decode_export bs off = Inr r"
  unfolding decode_export_def plain_decode_export_def bind_res_Inr split_paired_Ex split_conv
    lib_read_string_Inr [where what' = "''export name''" and pre' = "''invalid export name: ''"]
    lib_read_u32_Inr read_byte_Inr sum.inject
  by (rule refl)

lemma decode_exports_Inr:
  "decode_exports_from i n bs off = Inr r \<longleftrightarrow> repeat_dec n (plain_decode_export bs) off = Inr r"
proof (induction n arbitrary: i off r)
  case (Suc n)
  have "repeat_dec (Suc n) (plain_decode_export bs) off =
      bind_res (plain_decode_export bs off) (\<lambda>(e, off1).
        bind_res (repeat_dec n (plain_decode_export bs) off1) (\<lambda>(es, off2). Inr (e # es, off2)))"
    by (simp add: bind_res_def split: sum.split)
  then show ?case by (simp add: bind_res_Inr decode_export_Inr Suc.IH)
qed simp

lemma decode_library_format_Inr:
  "decode_library_format_detailed bs = Inr x \<longleftrightarrow> decode_library_format bs = Inr x"
proof -
  have if_Inr: "(if b then Inl e else f) = Inr x \<longleftrightarrow> \<not> b \<and> f = Inr x" for b e f and x :: 'c
    by simp
  show ?thesis
    unfolding decode_library_format_detailed_def decode_library_format_def bind_res_Inr split_paired_Ex
      split_conv lib_read_string_Inr [where what' = "''library ID''" and pre' = "''invalid library ID: ''"]
      lib_read_u32_Inr decode_exports_Inr if_Inr Let_def map_err_Inr sum.inject
    by (rule refl)
qed

section \<open>Round trip\<close>

interpretation link_u32: codec write_u32_le link_read_u32_le "\<lambda>_. True"
  unfolding write_u32_le_def [abs_def] link_read_u32_le_def by (rule codec_read_le) simp

interpretation link_str: codec write_string "plain_read_string what pre" wf_string for what pre
  unfolding write_string_def [abs_def] plain_read_string_def [abs_def] wf_string_def [abs_def]
  by (rule codec_string) (rule link_u32.codec_axioms)

interpretation export_codec: codec "\<lambda>e. encode_export (name e, e)" plain_decode_export
  "\<lambda>e. wf_string (name e)"
proof
  show "plain_decode_export bs off = Inr (e, off + length (encode_export (name e, e)))"
    if "wf_string (name e)" and "bytes_at bs off (encode_export (name e, e))" for e bs off
    using that by (clarsimp simp: plain_decode_export_def encode_export_def link_str.dec_enc
        link_u32.dec_enc one_byte.dec_enc add.assoc)
  show "wf_string (name e) \<and> off' = off + length (encode_export (name e, e)) \<and>
      bytes_at bs off (encode_export (name e, e))"
    if off: "off \<le> length bs" and "plain_decode_export bs off = Inr (e, off')" for e bs off off'
  proof -
    let ?str = "plain_read_string ''export name'' ''invalid export name: ''"
    let ?byte = "read_byte (\<lambda>_ _. Text ''unexpected EOF reading export arity'')"
    from that(2) obtain o1 o2 where 1: "?str bs off = Inr (name e, o1)"
      and 2: "link_read_u32_le bs o1 = Inr (offset e, o2)" and 3: "?byte bs o2 = Inr (arity e, off')"
      by (auto simp: plain_decode_export_def bind_res_Inr)
    note o1 = link_str.dec_off_le [OF off 1] and o2 = link_u32.dec_off_le [OF link_str.dec_off_le [OF off 1] 2]
    from link_str.dec_sound [OF off 1] link_u32.dec_sound [OF o1 2] one_byte.dec_sound [OF o2 3]
    show ?thesis by (simp add: encode_export_def)
  qed
qed

definition wf_library :: "library \<Rightarrow> bool" where
  "wf_library lib \<longleftrightarrow>
     wf_string (lib_id lib) \<and> wf_program (library.program lib) \<and>
     length (the (encode_program (library.program lib))) < 2 ^ 32 \<and>
     distinct (map fst (exports lib)) \<and> length (exports lib) < 2 ^ 32 \<and>
     (\<forall>(n, e)\<in>set (exports lib). name e = n \<and> wf_string n)"

lemma library_new_exports:
  assumes "distinct (map fst al @ map name es)"
  shows "fold (\<lambda>e. AList.update (name e) e) es al = al @ map (\<lambda>e. (name e, e)) es"
  using assms
proof (induction es arbitrary: al)
  case (Cons e es)
  then have "name e \<notin> fst ` set al" by auto
  then have "AList.update (name e) e al = al @ [(name e, e)]" by (induction al) auto
  with Cons show ?case by simp
qed simp

lemma library_header_ok: "validate_library_header (LIB_MAGIC @ bs) = Inr 1"
  by (simp add: validate_library_header_def LIB_MAGIC_def make_library_magic_def LIBRARY_VERSION_def
      LIB_MAGIC_PREFIX_def extract_lib_version_def is_ascii_digit_def is_lib_version_supported_def
      MIN_SUPPORTED_LIB_VERSION_def MAX_SUPPORTED_LIB_VERSION_def)

lemma decode_library_format_encoded:
  assumes wf: "wf_library lib" and enc: "encode_library lib = Some bs"
  shows "decode_library_format (bs @ rest) = Inr (library.program lib, map snd (exports lib))"
proof -
  from enc obtain pb where pb: "encode_program (library.program lib) = Some pb"
    and bs: "bs = LIB_MAGIC @ write_string (lib_id lib) @ write_u32_le (of_nat (length pb)) @ pb @
      write_u32_le (of_nat (length (exports lib))) @ concat (map encode_export (exports lib))"
    by (auto simp: encode_library_def)
  let ?all = "bs @ rest" and ?o1 = "8 + (4 + length (lib_id lib))"
  let ?o2 = "?o1 + 4" and ?o3 = "?o1 + 4 + length pb"
  have m: "length LIB_MAGIC = 8" by (simp add: LIB_MAGIC_def make_library_magic_def)
  have "bytes_at ?all 0 bs" by (rule bytes_at_start)
  then have at: "bytes_at ?all 8 (write_string (lib_id lib))"
      "bytes_at ?all ?o1 (write_u32_le (of_nat (length pb)))" "bytes_at ?all ?o2 pb"
      "bytes_at ?all ?o3 (write_u32_le (of_nat (length (exports lib))))"
      "bytes_at ?all (?o3 + 4) (concat (map encode_export (exports lib)))"
    by (simp_all add: bs m add.assoc)
  have es: "map encode_export (exports lib) = map (\<lambda>e. encode_export (name e, e)) (map snd (exports lib))"
    using wf by (auto simp: wf_library_def)
  from wf pb have len: "length pb < 2 ^ 32" "length (exports lib) < 2 ^ 32"
    by (auto simp: wf_library_def)
  then have un: "unat (of_nat (length pb) :: u32) = length pb"
      "unat (of_nat (length (exports lib)) :: u32) = length (map snd (exports lib))"
    by (simp_all add: unsigned_of_nat take_bit_nat_eq_self)
  have exps: "repeat_dec (length (map snd (exports lib))) (plain_decode_export ?all) (?o3 + 4) =
      Inr (map snd (exports lib), ?o3 + 4 + length (concat (map (\<lambda>e. encode_export (name e, e)) (map snd (exports lib)))))"
    using wf at(5) unfolding es by (intro export_codec.repeat_dec_enc) (auto simp: wf_library_def)
  have prog: "decode_program (take (length pb) (drop ?o2 ?all)) = Inr (library.program lib)"
    using at(3) decode_encode [OF _ pb, of "[]"] wf by (simp add: wf_library_def bytes_at_def)
  have "wf_string (lib_id lib)" using wf by (simp add: wf_library_def)
  note steps = link_str.dec_enc [OF this at(1)] link_u32.dec_enc [OF TrueI at(2)]
    link_u32.dec_enc [OF TrueI at(4)]
  show ?thesis
    using steps un exps prog bytes_at_le [OF at(3)]
    by (simp add: decode_library_format_def m add.assoc)
qed

text \<open>
  C30: a library survives being written and loaded. \<^verbatim>\<open>Library::from_bytes\<close> on an encoded library
  returns it, program and exports, under the id it is loaded as, in whatever order the export map
  was written; so the linked program and its symbol table are those of the library in memory.
\<close>

theorem library_roundtrip:
  assumes "wf_library lib"
  shows "\<exists>bs. encode_library lib = Some bs \<and>
    (\<forall>i rest. library_from_bytes i (bs @ rest) = Inr (lib\<lparr>lib_id := i\<rparr>))"
proof -
  from assms obtain bs where bs: "encode_library lib = Some bs"
    by (auto simp: wf_library_def encode_program_eq wf_programD encode_library_def)
  have "library_from_bytes i (bs @ rest) = Inr (lib\<lparr>lib_id := i\<rparr>)" for i rest
  proof -
    from bs obtain xs where xs: "bs = LIB_MAGIC @ xs" by (auto simp: encode_library_def)
    have "validate_library_header (bs @ rest) = Inr 1" by (simp add: xs library_header_ok)
    moreover have "starts_with (bs @ rest) LIB_MAGIC_PREFIX" and "8 \<le> length (bs @ rest)"
      by (simp_all add: xs starts_with_def LIB_MAGIC_def make_library_magic_def LIB_MAGIC_PREFIX_def)
    ultimately have "decode_library (bs @ rest) = Inr (library.program lib, map snd (exports lib))"
      using decode_library_format_encoded [OF assms bs, of rest]
      by (simp add: decode_library_def decode_library_detailed_def validate_library_header_detailed_def
          decode_library_format_Inr)
    moreover have "fold (\<lambda>e. AList.update (name e) e) (map snd (exports lib)) [] = exports lib"
    proof -
      have m1: "map (\<lambda>e. (name e, e)) (map snd (exports lib)) = exports lib"
        using assms by (auto simp: wf_library_def intro!: map_idI)
      have m2: "map name (map snd (exports lib)) = map fst (exports lib)"
        using assms by (auto simp: wf_library_def)
      have "distinct (map fst (exports lib))" using assms by (simp add: wf_library_def)
      then show ?thesis
        using library_new_exports [of "[]" "map snd (exports lib)", unfolded m1 m2] by simp
    qed
    ultimately show ?thesis by (simp add: library_from_bytes_def library_new_def)
  qed
  with bs show ?thesis by blast
qed

definition sample_export_library :: library where
  "sample_export_library =
     \<lparr>library.program = halt_program,
      exports = [(bytes_of ''f'', \<lparr>name = bytes_of ''f'', offset = 0, arity = 2\<rparr>),
        (bytes_of ''g'', \<lparr>name = bytes_of ''g'', offset = 0, arity = 0\<rparr>)],
      lib_id = bytes_of ''pkg''\<rparr>"

lemma wf_sample_export_library: "wf_library sample_export_library"
  using wf_halt_program
  by (simp add: sample_export_library_def wf_library_def wf_string_def utf8_valid_ascii encode_halt_program)

lemma library_roundtrip_witness:
  "\<exists>bs. encode_library sample_export_library = Some bs \<and>
    (\<forall>i rest. library_from_bytes i (bs @ rest) = Inr (sample_export_library\<lparr>lib_id := i\<rparr>))"
  by (rule library_roundtrip [OF wf_sample_export_library])

section \<open>Plain programs loaded as libraries\<close>

text \<open>
  What the fallback for plain programs really accepts. A well-formed encoded program is loaded
  as a library without exports exactly when its code uses only the ten instructions that
  \<^verbatim>\<open>decode_program_detailed\<close> knows, and then its asynchronous bodies and debug entries are lost;
  \<^verbatim>\<open>decode_program\<close> accepts all of these programs and keeps the tables.
\<close>

theorem library_fallback:
  assumes wf: "wf_program p" and enc: "encode_program p = Some bs"
  shows "decode_program bs = Inr p \<and>
    (is_ok (decode_library bs) \<longleftrightarrow> list_all basic_op (code p)) \<and>
    (list_all basic_op (code p) \<longrightarrow>
       decode_library bs = Inr (p\<lparr>async_dispatch := [], debug_entries := []\<rparr>, []))"
proof -
  from wf enc have bs: "bs = program_head p @ encode_async_dispatch (async_dispatch p) @
      encode_debug_entries (debug_entries p)"
    by (simp add: encode_program_eq wf_programD)
  have head: "take (length (program_head p)) bs = program_head p" by (simp add: bs)
  have pre: "\<not> starts_with bs LIB_MAGIC_PREFIX" "8 \<le> length bs"
    by (simp_all add: bs program_head_def MAGIC_eq starts_with_def LIB_MAGIC_PREFIX_def)
  then have lib: "decode_library bs = Inr x \<longleftrightarrow>
      (\<exists>q. decode_program_detailed bs = Inr q \<and> x = (q, []))" for x
    by (auto simp: decode_library_def decode_library_detailed_def bind_res_Inr)
  let ?q = "p\<lparr>async_dispatch := [], debug_entries := []\<rparr>"
  have "program_head ?q = program_head p" by (simp add: program_head_def)
  then have basic: "list_all basic_op (code p) \<Longrightarrow> decode_program_detailed bs = Inr ?q"
    using wf head by (simp add: decode_program_detailed_Inr wf_program_def list_all_iff)
  moreover have "list_all basic_op (code p)" if "decode_program_detailed bs = Inr q" for q
  proof -
    from that have "bytes_at bs 0 (program_head q)" and q: "list_all basic_op (code q)"
      "list_all wf_string (strings q)" "length (strings q) < 2 ^ 32" "length (code q) < 2 ^ 32"
      by (simp_all add: decode_program_detailed_Inr bytes_at_0)
    moreover have "bytes_at bs 0 (program_head p)" using head by (simp add: bytes_at_0)
    moreover have "encodable x" if "basic_op x" for x
      using that by (cases x rule: basic_op.cases) (simp_all add: encodable_def)
    ultimately have "strings q = strings p" and "code q = code p"
      using wf strings_sec.unique [of "strings q" "strings p" bs 8]
        code_sec.unique [of "code q" "code p" bs "8 + length (encode_strings (strings p))"]
      by (auto simp: program_head_def wf_program_def list_all_iff)
    with q show ?thesis by simp
  qed
  moreover have "decode_program bs = Inr p" using decode_encode [OF wf enc, of "[]"] by simp
  ultimately show ?thesis by (auto simp: lib is_ok_iff)
qed

lemma library_fallback_witness:
  "\<exists>bs. encode_program sample_program = Some bs \<and> decode_program bs = Inr sample_program \<and>
    \<not> is_ok (decode_library bs)"
proof -
  obtain bs where "encode_program sample_program = Some bs"
    using wf_sample_program by (auto simp: encode_program_eq wf_programD)
  with library_fallback [OF wf_sample_program this] show ?thesis
    by (simp add: sample_program_def)
qed

text \<open>
  The library header check accepts exactly the files that start with \<^verbatim>\<open>ARTHLIB1\<close>.
\<close>

theorem library_header_iff:
  "validate_library_header bs = Inr v \<longleftrightarrow> v = 1 \<and> take 8 bs = LIB_MAGIC"
proof
  assume ok: "validate_library_header bs = Inr v"
  then have 8: "8 \<le> length bs" and pre: "take 7 bs = LIB_MAGIC_PREFIX" and v: "v = bs ! 7 - 48" "v = 1"
    by (auto simp: validate_library_header_def extract_lib_version_def is_lib_version_supported_def
        MIN_SUPPORTED_LIB_VERSION_def MAX_SUPPORTED_LIB_VERSION_def Let_def min_def
        split: if_splits option.splits)
  from v have "bs ! 7 = 48 + 1" by (simp only: eq_diff_eq add.commute)
  then have "bs ! 7 = 49" by simp
  with 8 pre have "take 8 bs = LIB_MAGIC_PREFIX @ [49]"
    using take_Suc_conv_app_nth [of 7 bs] by simp
  with v show "v = 1 \<and> take 8 bs = LIB_MAGIC"
    by (simp add: LIB_MAGIC_def make_library_magic_def LIB_MAGIC_PREFIX_def LIBRARY_VERSION_def)
next
  assume "v = 1 \<and> take 8 bs = LIB_MAGIC"
  then show "validate_library_header bs = Inr v"
    using library_header_ok [of "drop 8 bs"] append_take_drop_id [of 8 bs] by simp
qed

end
