(* ===== verification/Values.thy ===== *)
theory Values
  imports Prelude "HOL-Library.Multiset"
begin

text \<open>
  The values of the virtual machine (\<^verbatim>\<open>Value\<close> in \<^verbatim>\<open>crates/arth-vm/src/runtime/core.inc.rs\<close>) with
  their equality and order, and the standard-library operations on integers, strings and floats the
  interpreter uses. Strings are UTF-8 byte lists; their characters are decoded from the bytes.
  IEEE arithmetic and the printing and parsing of floats are a record of operations the rest of the
  model takes as a parameter; so are the Unicode case tables.
\<close>

section \<open>Floats and case tables\<close>

record rust_std =
  f_add :: "f64 \<Rightarrow> f64 \<Rightarrow> f64"
  f_sub :: "f64 \<Rightarrow> f64 \<Rightarrow> f64"
  f_mul :: "f64 \<Rightarrow> f64 \<Rightarrow> f64"
  f_div :: "f64 \<Rightarrow> f64 \<Rightarrow> f64"
  f_rem :: "f64 \<Rightarrow> f64 \<Rightarrow> f64"
  f_pow :: "f64 \<Rightarrow> f64 \<Rightarrow> f64"
  f_sqrt :: "f64 \<Rightarrow> f64"
  f_sin :: "f64 \<Rightarrow> f64"
  f_cos :: "f64 \<Rightarrow> f64"
  f_tan :: "f64 \<Rightarrow> f64"
  f_floor :: "f64 \<Rightarrow> f64"
  f_ceil :: "f64 \<Rightarrow> f64"
  f_round :: "f64 \<Rightarrow> f64"
  f_lt :: "f64 \<Rightarrow> f64 \<Rightarrow> bool"
  f_eq :: "f64 \<Rightarrow> f64 \<Rightarrow> bool"
  f_integral :: "f64 \<Rightarrow> bool"
  f_of_i64 :: "i64 \<Rightarrow> f64"
  f_to_i64 :: "f64 \<Rightarrow> i64"
  f_to_u32 :: "f64 \<Rightarrow> u32"
  f_to_usize :: "f64 \<Rightarrow> usize"
  f_to_f32 :: "f64 \<Rightarrow> f64"
  f_show :: "f64 \<Rightarrow> rstring"
  f_show1 :: "f64 \<Rightarrow> rstring"
  f_parse :: "rstring \<Rightarrow> f64 option"
  to_lowercase :: "rstring \<Rightarrow> rstring"
  to_uppercase :: "rstring \<Rightarrow> rstring"

text \<open>The bit patterns of the constants \<^verbatim>\<open>0.0\<close> and \<^verbatim>\<open>1.0\<close>, and the classification of patterns.\<close>

definition f_zero :: f64 where "f_zero = 0"
definition f_one :: f64 where "f_one = 0x3FF0000000000000"

definition f_exponent :: "f64 \<Rightarrow> f64" where
  "f_exponent x = drop_bit 52 x AND 0x7FF"

definition is_finite :: "f64 \<Rightarrow> bool" where
  "is_finite x \<longleftrightarrow> f_exponent x \<noteq> 0x7FF"

definition is_nan :: "f64 \<Rightarrow> bool" where
  "is_nan x \<longleftrightarrow> f_exponent x = 0x7FF \<and> x AND 0xFFFFFFFFFFFFF \<noteq> 0"

section \<open>Integers\<close>

text \<open>\<^verbatim>\<open>wrapping_div\<close> and \<^verbatim>\<open>wrapping_rem\<close> on \<^verbatim>\<open>i64\<close>: truncated division, wrapped to 64 bits.\<close>

definition trunc_div :: "int \<Rightarrow> int \<Rightarrow> int" where
  "trunc_div a b = sgn a * sgn b * (\<bar>a\<bar> div \<bar>b\<bar>)"

definition trunc_rem :: "int \<Rightarrow> int \<Rightarrow> int" where
  "trunc_rem a b = sgn a * (\<bar>a\<bar> mod \<bar>b\<bar>)"

definition wrapping_div :: "i64 \<Rightarrow> i64 \<Rightarrow> i64" where
  "wrapping_div a b = word_of_int (trunc_div (sint a) (sint b))"

definition wrapping_rem :: "i64 \<Rightarrow> i64 \<Rightarrow> i64" where
  "wrapping_rem a b = word_of_int (trunc_rem (sint a) (sint b))"

text \<open>A cast \<^verbatim>\<open>as iN\<close> or \<^verbatim>\<open>as uN\<close> and back to \<^verbatim>\<open>i64\<close>: sign or zero extension of the low bits.\<close>

definition as_signed :: "nat \<Rightarrow> i64 \<Rightarrow> i64" where
  "as_signed k n = signed_take_bit (k - 1) n"

definition as_unsigned :: "nat \<Rightarrow> i64 \<Rightarrow> i64" where
  "as_unsigned k n = take_bit k n"

text \<open>\<^verbatim>\<open>as usize\<close> of an \<^verbatim>\<open>i64\<close>: a negative number becomes at least \<open>2 ^ 63\<close>.\<close>

definition as_usize :: "i64 \<Rightarrow> usize" where
  "as_usize n = unat n"

text \<open>\<^verbatim>\<open>to_string\<close> of an integer.\<close>

definition show_int :: "int \<Rightarrow> rstring" where
  "show_int n = bytes_of ((if n < 0 then [CHR 0x2D] else []) @ show_nat (nat \<bar>n\<bar>))"

definition show_i64 :: "i64 \<Rightarrow> rstring" where
  "show_i64 n = show_int (sint n)"

text \<open>\<^verbatim>\<open>parse::<i64>\<close>: an optional sign, at least one decimal digit, no overflow.\<close>

definition is_digit :: "u8 \<Rightarrow> bool" where
  "is_digit b \<longleftrightarrow> 48 \<le> b \<and> b \<le> 57"

definition digits_value :: "u8 list \<Rightarrow> int" where
  "digits_value ds = foldl (\<lambda>n d. n * 10 + (uint d - 48)) 0 ds"

definition parse_digits :: "int \<Rightarrow> u8 list \<Rightarrow> i64 option" where
  "parse_digits sign ds =
     (if ds = [] \<or> list_ex (\<lambda>d. \<not> is_digit d) ds then None
      else let n = sign * digits_value ds
           in if - (2 ^ 63) \<le> n \<and> n < 2 ^ 63 then Some (word_of_int n) else None)"

definition parse_i64 :: "rstring \<Rightarrow> i64 option" where
  "parse_i64 s =
     (case s of
        [] \<Rightarrow> None
      | b # ds \<Rightarrow>
          if b = 0x2D then parse_digits (- 1) ds
          else if b = 0x2B then parse_digits 1 ds
          else parse_digits 1 s)"

section \<open>Strings\<close>

text \<open>The characters of a valid UTF-8 string, as code points with the bytes they stand for.\<close>

fun utf8_width :: "u8 \<Rightarrow> nat" where
  "utf8_width b = (if b < 0x80 then 1 else if b < 0xE0 then 2 else if b < 0xF0 then 3 else 4)"

declare utf8_width.simps [simp del]

function char_bytes :: "rstring \<Rightarrow> rstring list" where
  "char_bytes [] = []"
| "char_bytes (b # bs) = take (utf8_width b) (b # bs) # char_bytes (drop (utf8_width b - 1) bs)"
  by pat_completeness auto
termination
  by (relation "measure length") (auto simp: utf8_width.simps)

definition code_point :: "rstring \<Rightarrow> nat" where
  "code_point c =
     (case c of
        [b0] \<Rightarrow> unat b0
      | [b0, b1] \<Rightarrow> (unat b0 - 0xC0) * 64 + (unat b1 - 0x80)
      | [b0, b1, b2] \<Rightarrow> ((unat b0 - 0xE0) * 64 + (unat b1 - 0x80)) * 64 + (unat b2 - 0x80)
      | [b0, b1, b2, b3] \<Rightarrow>
          (((unat b0 - 0xF0) * 64 + (unat b1 - 0x80)) * 64 + (unat b2 - 0x80)) * 64 + (unat b3 - 0x80)
      | _ \<Rightarrow> 0)"

text \<open>\<^verbatim>\<open>char::from_u32\<close> and the encoding of a character.\<close>

definition is_scalar :: "nat \<Rightarrow> bool" where
  "is_scalar n \<longleftrightarrow> n < 0xD800 \<or> 0xE000 \<le> n \<and> n < 0x110000"

definition utf8_encode :: "nat \<Rightarrow> rstring" where
  "utf8_encode n =
     (if n < 0x80 then [of_nat n]
      else if n < 0x800 then [of_nat (0xC0 + n div 64), of_nat (0x80 + n mod 64)]
      else if n < 0x10000 then
        [of_nat (0xE0 + n div 4096), of_nat (0x80 + n div 64 mod 64), of_nat (0x80 + n mod 64)]
      else
        [of_nat (0xF0 + n div 262144), of_nat (0x80 + n div 4096 mod 64),
         of_nat (0x80 + n div 64 mod 64), of_nat (0x80 + n mod 64)])"

definition char_from_u32 :: "u32 \<Rightarrow> rstring" where
  "char_from_u32 n = (if is_scalar (unat n) then utf8_encode (unat n) else [0])"

text \<open>\<^verbatim>\<open>trim\<close> removes the characters with the property \<^verbatim>\<open>White_Space\<close> at both ends.\<close>

definition is_whitespace :: "nat \<Rightarrow> bool" where
  "is_whitespace n \<longleftrightarrow>
     0x09 \<le> n \<and> n \<le> 0x0D \<or> n = 0x20 \<or> n = 0x85 \<or> n = 0xA0 \<or> n = 0x1680 \<or>
     0x2000 \<le> n \<and> n \<le> 0x200A \<or> n = 0x2028 \<or> n = 0x2029 \<or> n = 0x202F \<or> n = 0x205F \<or> n = 0x3000"

definition trim :: "rstring \<Rightarrow> rstring" where
  "trim s =
     (let strip = dropWhile (\<lambda>c. is_whitespace (code_point c))
      in concat (rev (strip (rev (strip (char_bytes s))))))"

text \<open>Substring search: the byte offsets at which a pattern occurs.\<close>

definition occurs_at :: "rstring \<Rightarrow> rstring \<Rightarrow> nat \<Rightarrow> bool" where
  "occurs_at pat s i \<longleftrightarrow> take (length pat) (drop i s) = pat"

definition str_find :: "rstring \<Rightarrow> rstring \<Rightarrow> nat option" where
  "str_find s pat = find (occurs_at pat s) [0..<Suc (length s - length pat)]"

definition str_rfind :: "rstring \<Rightarrow> rstring \<Rightarrow> nat option" where
  "str_rfind s pat = find (occurs_at pat s) (rev [0..<Suc (length s - length pat)])"

definition str_contains :: "rstring \<Rightarrow> rstring \<Rightarrow> bool" where
  "str_contains s pat \<longleftrightarrow> str_find s pat \<noteq> None"

definition str_starts_with :: "rstring \<Rightarrow> rstring \<Rightarrow> bool" where
  "str_starts_with s pat \<longleftrightarrow> take (length pat) s = pat"

definition str_ends_with :: "rstring \<Rightarrow> rstring \<Rightarrow> bool" where
  "str_ends_with s pat \<longleftrightarrow> length pat \<le> length s \<and> drop (length s - length pat) s = pat"

text \<open>
  \<^verbatim>\<open>split\<close> cuts at the matches from left to right, none overlapping the one before; the empty pattern
  matches before every character and at the end.
\<close>

function split_at_matches :: "rstring \<Rightarrow> rstring \<Rightarrow> rstring \<Rightarrow> rstring list" where
  "split_at_matches pat acc [] = [rev acc]"
| "split_at_matches pat acc (b # bs) =
     (if pat \<noteq> [] \<and> occurs_at pat (b # bs) 0 then
        rev acc # split_at_matches pat [] (drop (length pat) (b # bs))
      else split_at_matches pat (b # acc) bs)"
  by pat_completeness auto
termination
  by (relation "measure (\<lambda>(_, _, s). length s)") (auto simp: neq_Nil_conv less_Suc_eq_le)

definition str_split :: "rstring \<Rightarrow> rstring \<Rightarrow> rstring list" where
  "str_split s pat =
     (if pat = [] then [] # char_bytes s @ [[]] else split_at_matches pat [] s)"

definition join_with :: "rstring \<Rightarrow> rstring list \<Rightarrow> rstring" where
  "join_with sep parts = (case parts of [] \<Rightarrow> [] | p # ps \<Rightarrow> p @ concat (map (\<lambda>q. sep @ q) ps))"

definition str_replace :: "rstring \<Rightarrow> rstring \<Rightarrow> rstring \<Rightarrow> rstring" where
  "str_replace s from to = join_with to (str_split s from)"

section \<open>Values\<close>

datatype vm_value = I64 i64 | F64 f64 | Bool bool | Str rstring

text \<open>\<^verbatim>\<open>values_equal\<close>\<close>

fun values_equal :: "rust_std \<Rightarrow> vm_value \<Rightarrow> vm_value \<Rightarrow> bool" where
  "values_equal fl (I64 x) (I64 y) \<longleftrightarrow> x = y"
| "values_equal fl (F64 x) (F64 y) \<longleftrightarrow> f_eq fl x y"
| "values_equal fl (Bool x) (Bool y) \<longleftrightarrow> x = y"
| "values_equal fl (Str x) (Str y) \<longleftrightarrow> x = y"
| "values_equal fl _ _ \<longleftrightarrow> False"

text \<open>
  When two map keys meet: \<^verbatim>\<open>HashableValue\<close> hashes a float by its bits and compares it with \<^verbatim>\<open>==\<close>, so
  a lookup succeeds for a key that is equal and has the same bits. (A key that is equal but has
  other bits, \<^verbatim>\<open>0.0\<close> and \<^verbatim>\<open>-0.0\<close>, has another hash; that the two may still meet when hashes collide
  is left out.)
\<close>

definition same_key :: "rust_std \<Rightarrow> vm_value \<Rightarrow> vm_value \<Rightarrow> bool" where
  "same_key fl a b \<longleftrightarrow> a = b \<and> values_equal fl a b"

text \<open>The comparison \<^verbatim>\<open>list_sort\<close> sorts by.\<close>

datatype ordering = Less | Equal | Greater

definition cmp_of :: "bool \<Rightarrow> bool \<Rightarrow> ordering" where
  "cmp_of lt eq = (if lt then Less else if eq then Equal else Greater)"

fun lex_less :: "u8 list \<Rightarrow> u8 list \<Rightarrow> bool" where
  "lex_less [] ys \<longleftrightarrow> ys \<noteq> []"
| "lex_less (x # xs) [] \<longleftrightarrow> False"
| "lex_less (x # xs) (y # ys) \<longleftrightarrow> x < y \<or> x = y \<and> lex_less xs ys"

fun value_cmp :: "rust_std \<Rightarrow> vm_value \<Rightarrow> vm_value \<Rightarrow> ordering" where
  "value_cmp fl (I64 x) (I64 y) = cmp_of (sint x < sint y) (x = y)"
| "value_cmp fl (F64 x) (F64 y) =
     (if is_nan x \<and> is_nan y then Equal
      else if is_nan x then Less
      else if is_nan y then Greater
      else if f_lt fl x y then Less
      else if f_lt fl y x then Greater
      else Equal)"
| "value_cmp fl (Str x) (Str y) = cmp_of (lex_less x y) (x = y)"
| "value_cmp fl (Bool x) (Bool y) = cmp_of (\<not> x \<and> y) (x = y)"
| "value_cmp fl (I64 _) _ = Less"
| "value_cmp fl _ (I64 _) = Greater"
| "value_cmp fl (F64 _) (Bool _) = Less"
| "value_cmp fl (F64 _) (Str _) = Less"
| "value_cmp fl (Bool _) (F64 _) = Greater"
| "value_cmp fl (Str _) (F64 _) = Greater"
| "value_cmp fl (Bool _) (Str _) = Less"
| "value_cmp fl (Str _) (Bool _) = Greater"

text \<open>\<^verbatim>\<open>sort_by\<close> is a stable sort.\<close>

fun insert_by :: "('a \<Rightarrow> 'a \<Rightarrow> ordering) \<Rightarrow> 'a \<Rightarrow> 'a list \<Rightarrow> 'a list" where
  "insert_by cmp x [] = [x]"
| "insert_by cmp x (y # ys) = (if cmp x y = Greater then y # insert_by cmp x ys else x # y # ys)"

definition sort_by :: "('a \<Rightarrow> 'a \<Rightarrow> ordering) \<Rightarrow> 'a list \<Rightarrow> 'a list" where
  "sort_by cmp xs = foldr (insert_by cmp) xs []"

section \<open>Facts about integers\<close>

lemma trunc_div_rem: "trunc_div a b * b + trunc_rem a b = a"
proof -
  have "trunc_div a b * b = sgn a * (\<bar>a\<bar> div \<bar>b\<bar> * \<bar>b\<bar>)"
    by (simp add: trunc_div_def abs_sgn mult.assoc mult.left_commute)
  then have "trunc_div a b * b + trunc_rem a b = sgn a * (\<bar>a\<bar> div \<bar>b\<bar> * \<bar>b\<bar> + \<bar>a\<bar> mod \<bar>b\<bar>)"
    by (simp only: trunc_rem_def distrib_left)
  also have "\<dots> = sgn a * \<bar>a\<bar>" by (simp only: div_mult_mod_eq)
  also have "\<dots> = a" by (simp add: sgn_mult_abs)
  finally show ?thesis .
qed

lemma trunc_rem_bound: "b \<noteq> 0 \<Longrightarrow> \<bar>trunc_rem a b\<bar> < \<bar>b\<bar>"
  by (simp add: trunc_rem_def abs_mult sgn_if)

text \<open>The wrapped remainder never wraps, and quotient and remainder recompose in 64-bit arithmetic.\<close>

lemma wrapping_div_rem: "wrapping_div a b * b + wrapping_rem a b = a"
proof -
  have "wrapping_div a b * b + wrapping_rem a b =
      word_of_int (trunc_div (sint a) (sint b) * sint b + trunc_rem (sint a) (sint b))"
    by (simp add: wrapping_div_def wrapping_rem_def)
  then show ?thesis by (simp add: trunc_div_rem)
qed

lemma sint_range: "- (2 ^ 63) \<le> sint (w :: i64)" "sint (w :: i64) < 2 ^ 63"
  using sint_ge [of w] sint_lt [of w] by simp_all

lemma sint_word_of_int: "- (2 ^ 63) \<le> n \<Longrightarrow> n < 2 ^ 63 \<Longrightarrow> sint (word_of_int n :: i64) = n"
  by (simp add: signed_of_int signed_take_bit_int_eq_self)

lemma sint_wrapping_rem:
  assumes "b \<noteq> 0"
  shows "sint (wrapping_rem a b) = trunc_rem (sint a) (sint b)"
proof -
  have "sint b \<noteq> 0" using assms by (simp add: signed_eq_0_iff)
  from trunc_rem_bound [OF this, of "sint a"] sint_range [of b]
  show ?thesis unfolding wrapping_rem_def by (intro sint_word_of_int) auto
qed

text \<open>The only quotient that wraps is the smallest integer divided by \<open>- 1\<close>.\<close>

lemma sint_wrapping_div:
  assumes "b \<noteq> 0" and "\<not> (sint a = - (2 ^ 63) \<and> b = - 1)"
  shows "sint (wrapping_div a b) = trunc_div (sint a) (sint b)"
proof -
  have b: "sint b \<noteq> 0" using assms by (simp add: signed_eq_0_iff)
  let ?q = "\<bar>sint a\<bar> div \<bar>sint b\<bar>"
  have q: "\<bar>trunc_div (sint a) (sint b)\<bar> \<le> ?q"
  proof -
    have "0 \<le> ?q" using b by (simp add: pos_imp_zdiv_nonneg_iff)
    then show ?thesis by (simp add: trunc_div_def abs_mult abs_sgn_eq)
  qed
  have le: "?q \<le> \<bar>sint a\<bar>" using b zdiv_mono2 [of "\<bar>sint a\<bar>" 1 "\<bar>sint b\<bar>"] by simp
  have "\<bar>trunc_div (sint a) (sint b)\<bar> < 2 ^ 63 \<or> trunc_div (sint a) (sint b) = - (2 ^ 63)"
  proof (cases "sint a = - (2 ^ 63)")
    case False
    with q le sint_range [of a] show ?thesis by auto
  next
    case True
    show ?thesis
    proof (cases "\<bar>sint b\<bar> = 1")
      case True
      have "sint b \<noteq> - 1"
        using assms(2) \<open>sint a = _\<close> by (metis sint_n1 signed_word_eqI)
      with True have "sint b = 1" by auto
      with \<open>sint a = _\<close> show ?thesis by (simp add: trunc_div_def)
    next
      case False
      with b have "2 \<le> \<bar>sint b\<bar>" by auto
      then have "?q \<le> \<bar>sint a\<bar> div 2" by (intro zdiv_mono2) auto
      with q True show ?thesis by auto
    qed
  qed
  then show ?thesis unfolding wrapping_div_def by (intro sint_word_of_int) auto
qed

section \<open>Printing and parsing integers\<close>

lemma digit_byte:
  "n < 10 \<Longrightarrow> (of_char (''0123456789'' ! n) :: u8) = of_nat (48 + n)"
proof -
  assume "n < 10"
  then have "n \<in> {0, 1, 2, 3, 4, 5, 6, 7, 8, 9}" by auto
  then show ?thesis by auto
qed

lemma digit_byte_props:
  assumes "n < 10"
  shows "is_digit (of_nat (48 + n))" and "uint (of_nat (48 + n) :: u8) - 48 = int n"
proof -
  from assms have "n \<in> {0, 1, 2, 3, 4, 5, 6, 7, 8, 9}" by auto
  then show "is_digit (of_nat (48 + n))" and "uint (of_nat (48 + n) :: u8) - 48 = int n"
    by (auto simp: is_digit_def)
qed

lemma bytes_of_append [simp]: "bytes_of (s @ t) = bytes_of s @ bytes_of t"
  by (simp add: bytes_of_def)

lemma show_nat_digits:
  "digits_value (bytes_of (show_nat n)) = int n \<and> (\<forall>d\<in>set (bytes_of (show_nat n)). is_digit d) \<and>
   show_nat n \<noteq> []"
proof (induction n rule: show_nat.induct)
  case (1 n)
  show ?case
  proof (cases "n < 10")
    case True
    then show ?thesis
      by (simp add: show_nat.simps [of n] digits_value_def digit_byte digit_byte_props
          del: of_nat_add)
  next
    case False
    have "n mod 10 < 10" by simp
    note d = digit_byte [OF this] digit_byte_props [OF this]
    have "int n = int (n div 10) * 10 + int (n mod 10)" by presburger
    with 1 [OF False] False show ?thesis
      by (simp add: show_nat.simps [of n] digits_value_def d del: of_nat_add)
  qed
qed

lemma not_digit_sign: "is_digit b \<Longrightarrow> b \<noteq> 0x2D \<and> b \<noteq> 0x2B"
  by (auto simp: is_digit_def)

lemma parse_show_i64: "parse_i64 (show_i64 n) = Some n"
proof -
  let ?ds = "bytes_of (show_nat (nat \<bar>sint n\<bar>))"
  note d = show_nat_digits [of "nat \<bar>sint n\<bar>"]
  from d have ok: "?ds \<noteq> []" "list_ex (\<lambda>d. \<not> is_digit d) ?ds = False" "digits_value ?ds = \<bar>sint n\<bar>"
    by (auto simp: list_ex_iff bytes_of_def)
  show ?thesis
  proof (cases "sint n < 0")
    case True
    then show ?thesis using ok sint_range [of n]
      by (simp add: show_i64_def show_int_def parse_i64_def parse_digits_def Let_def)
  next
    case False
    from ok(1) obtain b bs where bs: "?ds = b # bs" by (cases ?ds) auto
    with d have "is_digit b" by auto
    with not_digit_sign bs have "parse_i64 ?ds = parse_digits 1 ?ds" by (auto simp: parse_i64_def)
    then show ?thesis using False ok sint_range [of n]
      by (simp add: show_i64_def show_int_def parse_digits_def Let_def)
  qed
qed

section \<open>Splitting and joining\<close>

lemma concat_char_bytes [simp]: "concat (char_bytes s) = s"
proof (induction s rule: char_bytes.induct)
  case (2 b bs)
  have "utf8_width b \<noteq> 0" by (simp add: utf8_width.simps)
  then have "drop (utf8_width b - 1) bs = drop (utf8_width b) (b # bs)" by (cases "utf8_width b") auto
  with 2 show ?case by simp
qed simp

lemma join_with_Cons: "ps \<noteq> [] \<Longrightarrow> join_with sep (p # ps) = p @ sep @ join_with sep ps"
  by (cases ps) (simp_all add: join_with_def)

lemma split_at_matches_not_Nil [simp]: "split_at_matches pat acc s \<noteq> []"
  by (induction pat acc s rule: split_at_matches.induct) auto

lemma join_split_at_matches: "join_with pat (split_at_matches pat acc s) = rev acc @ s"
proof (induction pat acc s rule: split_at_matches.induct)
  case (1 pat acc)
  then show ?case by (simp add: join_with_def)
next
  case (2 pat acc b bs)
  show ?case
  proof (cases "pat \<noteq> [] \<and> occurs_at pat (b # bs) 0")
    case True
    then have "b # bs = pat @ drop (length pat) (b # bs)"
      by (metis append_take_drop_id drop_0 occurs_at_def)
    with 2(1) [OF True] True show ?thesis by (simp add: join_with_Cons)
  next
    case False
    from 2(2) [OF False] show ?thesis by (simp only: split_at_matches.simps if_not_P [OF False]) simp
  qed
qed

lemma join_split: "join_with pat (str_split s pat) = s"
proof (cases "pat = []")
  case True
  have "map ((@) []) ps = ps" for ps :: "rstring list" by (rule map_idI) simp
  then have "join_with [] ps = concat ps" for ps by (cases ps) (simp_all add: join_with_def)
  with True show ?thesis by (simp add: str_split_def)
qed (simp add: str_split_def join_split_at_matches)

lemma find_upt_Some:
  "find P [0..<n] = Some i \<Longrightarrow> i < n \<and> P i \<and> (\<forall>j<i. \<not> P j)"
  by (auto simp: find_Some_iff)

lemma str_find_Some:
  assumes "str_find s pat = Some i"
  shows "(\<exists>u v. s = u @ pat @ v \<and> length u = i) \<and> (\<forall>j<i. \<not> occurs_at pat s j)"
proof -
  from find_upt_Some [OF assms [unfolded str_find_def]]
  have i: "i < Suc (length s - length pat)" and at: "occurs_at pat s i" and first: "\<forall>j<i. \<not> occurs_at pat s j"
    by auto
  have "length pat \<le> length s"
  proof (rule ccontr)
    assume "\<not> length pat \<le> length s"
    moreover have "length pat = length (take (length pat) (drop i s))" using at by (simp add: occurs_at_def)
    ultimately show False by simp
  qed
  with i have "i \<le> length s" by simp
  have "s = take i s @ pat @ drop (length pat) (drop i s)"
    using at by (metis append_take_drop_id occurs_at_def)
  moreover have "length (take i s) = i" using \<open>i \<le> length s\<close> by simp
  ultimately show ?thesis using first by blast
qed

section \<open>Sorting\<close>

text \<open>
  What \<^verbatim>\<open>sort_by\<close> asks of a comparison: on the elements of the list it is a total preorder. Then the
  result is sorted, a permutation, and keeps the order of elements that compare equal.
\<close>

locale total_cmp =
  fixes cmp :: "'a \<Rightarrow> 'a \<Rightarrow> ordering" and S :: "'a set"
  assumes total: "x \<in> S \<Longrightarrow> y \<in> S \<Longrightarrow> cmp x y = Greater \<Longrightarrow> cmp y x = Less"
    and trans: "x \<in> S \<Longrightarrow> y \<in> S \<Longrightarrow> z \<in> S \<Longrightarrow> cmp x y \<noteq> Greater \<Longrightarrow> cmp y z \<noteq> Greater \<Longrightarrow>
      cmp x z \<noteq> Greater"
begin

lemma set_insert_by: "set (insert_by cmp x ys) = insert x (set ys)"
  by (induction ys) auto

lemma sorted_insert_by:
  assumes "x \<in> S" and "set ys \<subseteq> S" and "sorted_wrt (\<lambda>a b. cmp a b \<noteq> Greater) ys"
  shows "sorted_wrt (\<lambda>a b. cmp a b \<noteq> Greater) (insert_by cmp x ys)"
  using assms
proof (induction ys)
  case (Cons y ys)
  show ?case
  proof (cases "cmp x y = Greater")
    case True
    with total [of x y] Cons.prems have "cmp y x \<noteq> Greater" by auto
    with Cons True show ?thesis by (auto simp: set_insert_by)
  next
    case False
    with Cons.prems trans [of x y] show ?thesis by (auto simp: subset_iff)
  qed
qed simp

lemma set_sort_by: "set (sort_by cmp xs) = set xs"
  by (induction xs) (simp_all add: sort_by_def set_insert_by)

lemma sorted_sort_by:
  "set xs \<subseteq> S \<Longrightarrow> sorted_wrt (\<lambda>a b. cmp a b \<noteq> Greater) (sort_by cmp xs)"
proof (induction xs)
  case (Cons x xs)
  then show ?case
    using sorted_insert_by [of x "sort_by cmp xs"] set_sort_by [of xs] by (simp add: sort_by_def)
qed (simp add: sort_by_def)

end

lemma mset_insert_by [simp]: "mset (insert_by cmp x ys) = add_mset x (mset ys)"
  by (induction ys) auto

lemma mset_sort_by [simp]: "mset (sort_by cmp xs) = mset xs"
  by (induction xs) (simp_all add: sort_by_def)

lemma length_sort_by [simp]: "length (sort_by cmp xs) = length xs"
  by (metis mset_sort_by size_mset)

lemma lex_less_irrefl [simp]: "\<not> lex_less x x"
  by (induction x) auto

lemma lex_less_total: "lex_less x y \<or> x = y \<or> lex_less y x"
  by (induction x y rule: lex_less.induct) auto

lemma lex_less_trans: "lex_less x y \<Longrightarrow> lex_less y z \<Longrightarrow> lex_less x z"
proof (induction x y arbitrary: z rule: lex_less.induct)
  case (1 ys)
  then show ?case by (cases ys; cases z) auto
next
  case (3 x xs y ys)
  then show ?case by (cases z) auto
qed simp

lemma cmp_of_not_Greater: "cmp_of lt eq = Greater \<longleftrightarrow> \<not> lt \<and> \<not> eq"
  by (simp add: cmp_of_def)

lemma sint_total: "sint x < sint y \<or> x = y \<or> sint y < sint x"
  by (metis linorder_neqE signed_word_eqI)

definition no_floats :: "vm_value set" where
  "no_floats = {v. \<forall>x. v \<noteq> F64 x}"

text \<open>Integers, booleans and strings are totally ordered, whatever the float operations are.\<close>

interpretation no_floats: total_cmp "value_cmp fl" no_floats for fl
proof
  show "value_cmp fl y x = Less"
    if "x \<in> no_floats" "y \<in> no_floats" "value_cmp fl x y = Greater" for x y
    using that lex_less_total sint_total
    by (cases x; cases y) (auto simp: no_floats_def cmp_of_def split: if_splits)
  show "value_cmp fl x z \<noteq> Greater"
    if "x \<in> no_floats" "y \<in> no_floats" "z \<in> no_floats" "value_cmp fl x y \<noteq> Greater"
      "value_cmp fl y z \<noteq> Greater" for x y z
    using that
    by (cases x; cases y; cases z)
      (auto simp: no_floats_def cmp_of_not_Greater dest: lex_less_trans)
qed

end
