(* ===== verification/Heap.thy ===== *)
theory Heap
  imports Values
begin

text \<open>
  The global stores behind the handles a program works with, \<^verbatim>\<open>crates/arth-vm/src/runtime/core.inc.rs\<close>:
  lists, maps, optionals, structs, enums, closures, shared cells, reference-counted cells, regions
  and parsed JSON values. A store is a partial map from handles, its counter the next handle; the
  mutexes are left out, as no operation keeps one locked across a call of another. A \<^verbatim>\<open>HashMap\<close> of
  program values is an association list in its unspecified iteration order.
\<close>

section \<open>The stores\<close>

record native_struct =
  struct_name :: rstring
  struct_fields :: "vm_value list"
  field_names :: "rstring list"

record native_enum =
  enum_name :: rstring
  variant_name :: rstring
  tag :: i64
  payload :: "vm_value list"

record closure =
  func_id :: u32
  captures :: "vm_value list"

record rc_cell =
  cell_value :: vm_value
  count :: u64

datatype json_val =
  JNull | JBool bool | JNumber f64 | JString rstring | JArray "json_val list" |
  JObject "(rstring \<times> json_val) list"

record heap =
  list_store :: "i64 \<Rightarrow> vm_value list option"
  next_list :: i64
  map_store :: "i64 \<Rightarrow> (vm_value \<times> vm_value) list option"
  next_map :: i64
  opt_store :: "i64 \<Rightarrow> vm_value option option"
  next_opt :: i64
  struct_store :: "i64 \<Rightarrow> native_struct option"
  next_struct :: i64
  enum_store :: "i64 \<Rightarrow> native_enum option"
  next_enum :: i64
  closure_store :: "i64 \<Rightarrow> closure option"
  next_closure :: i64
  shared_store :: "i64 \<Rightarrow> vm_value option"
  next_shared :: i64
  named_shared :: "rstring \<Rightarrow> i64 option"
  rc_store :: "i64 \<Rightarrow> rc_cell option"
  next_rc :: i64
  region_store :: "u32 \<Rightarrow> vm_value list option"
  region_stack :: "u32 list"
  json_store :: "i64 \<Rightarrow> json_val option"
  next_json :: i64

definition empty_heap :: heap where
  "empty_heap =
     \<lparr>list_store = Map.empty, next_list = 50000, map_store = Map.empty, next_map = 60000,
      opt_store = Map.empty, next_opt = 70000, struct_store = Map.empty, next_struct = 90000,
      enum_store = Map.empty, next_enum = 100000, closure_store = Map.empty, next_closure = 80000,
      shared_store = Map.empty, next_shared = 70000, named_shared = Map.empty,
      rc_store = Map.empty, next_rc = 90000, region_store = Map.empty, region_stack = [],
      json_store = Map.empty, next_json = 110000\<rparr>"

text \<open>The limits \<^verbatim>\<open>ARTH_VM_MAX_LIST_LEN\<close> and \<^verbatim>\<open>ARTH_VM_MAX_MAP_LEN\<close>, a million each by default.\<close>

record heap_limits =
  max_list_len :: usize
  max_map_len :: usize

section \<open>Lists\<close>

definition list_new :: "heap \<Rightarrow> i64 \<times> heap" where
  "list_new hp =
     (let h = next_list hp
      in (h, hp\<lparr>list_store := (list_store hp)(h \<mapsto> []), next_list := h + 1\<rparr>))"

definition list_push :: "heap_limits \<Rightarrow> i64 \<Rightarrow> vm_value \<Rightarrow> heap \<Rightarrow> usize \<times> heap" where
  "list_push lim h v hp =
     (case list_store hp h of
        None \<Rightarrow> (0, hp)
      | Some vec \<Rightarrow>
          if max_list_len lim \<le> length vec then (length vec, hp)
          else (length vec + 1, hp\<lparr>list_store := (list_store hp)(h \<mapsto> vec @ [v])\<rparr>))"

text \<open>The loops that push a sequence of values.\<close>

definition push_all :: "heap_limits \<Rightarrow> i64 \<Rightarrow> vm_value list \<Rightarrow> heap \<Rightarrow> heap" where
  "push_all lim h vs hp = fold (\<lambda>v hp'. snd (list_push lim h v hp')) vs hp"

definition list_get :: "i64 \<Rightarrow> usize \<Rightarrow> heap \<Rightarrow> vm_value option" where
  "list_get h idx hp =
     (case list_store hp h of
        None \<Rightarrow> None
      | Some vec \<Rightarrow> if idx < length vec then Some (vec ! idx) else None)"

definition list_len :: "i64 \<Rightarrow> heap \<Rightarrow> usize" where
  "list_len h hp = (case list_store hp h of None \<Rightarrow> 0 | Some vec \<Rightarrow> length vec)"

definition list_set :: "i64 \<Rightarrow> usize \<Rightarrow> vm_value \<Rightarrow> heap \<Rightarrow> bool \<times> heap" where
  "list_set h idx v hp =
     (case list_store hp h of
        None \<Rightarrow> (False, hp)
      | Some vec \<Rightarrow>
          if idx < length vec then (True, hp\<lparr>list_store := (list_store hp)(h \<mapsto> vec[idx := v])\<rparr>)
          else (False, hp))"

definition list_remove :: "i64 \<Rightarrow> usize \<Rightarrow> heap \<Rightarrow> vm_value option \<times> heap" where
  "list_remove h idx hp =
     (case list_store hp h of
        None \<Rightarrow> (None, hp)
      | Some vec \<Rightarrow>
          if idx < length vec then
            (Some (vec ! idx),
             hp\<lparr>list_store := (list_store hp)(h \<mapsto> take idx vec @ drop (Suc idx) vec)\<rparr>)
          else (None, hp))"

definition list_sort :: "rust_std \<Rightarrow> i64 \<Rightarrow> heap \<Rightarrow> heap" where
  "list_sort fl h hp =
     (case list_store hp h of
        None \<Rightarrow> hp
      | Some vec \<Rightarrow> hp\<lparr>list_store := (list_store hp)(h \<mapsto> sort_by (value_cmp fl) vec)\<rparr>)"

section \<open>Maps\<close>

text \<open>The hash map itself: lookup, insertion and removal by \<open>same_key\<close>.\<close>

definition hm_get :: "rust_std \<Rightarrow> vm_value \<Rightarrow> (vm_value \<times> vm_value) list \<Rightarrow> vm_value option" where
  "hm_get fl k mm = map_option snd (find (\<lambda>(k', _). same_key fl k k') mm)"

fun hm_insert :: "rust_std \<Rightarrow> vm_value \<Rightarrow> vm_value \<Rightarrow> (vm_value \<times> vm_value) list \<Rightarrow> (vm_value \<times> vm_value) list" where
  "hm_insert fl k v [] = [(k, v)]"
| "hm_insert fl k v ((k', v') # mm) =
     (if same_key fl k k' then (k', v) # mm else (k', v') # hm_insert fl k v mm)"

fun hm_remove :: "rust_std \<Rightarrow> vm_value \<Rightarrow> (vm_value \<times> vm_value) list \<Rightarrow> (vm_value \<times> vm_value) list" where
  "hm_remove fl k [] = []"
| "hm_remove fl k ((k', v') # mm) =
     (if same_key fl k k' then mm else (k', v') # hm_remove fl k mm)"

definition map_new :: "heap \<Rightarrow> i64 \<times> heap" where
  "map_new hp =
     (let h = next_map hp
      in (h, hp\<lparr>map_store := (map_store hp)(h \<mapsto> []), next_map := h + 1\<rparr>))"

definition map_put ::
  "rust_std \<Rightarrow> heap_limits \<Rightarrow> i64 \<Rightarrow> vm_value \<Rightarrow> vm_value \<Rightarrow> heap \<Rightarrow> bool \<times> heap" where
  "map_put fl lim h k v hp =
     (case map_store hp h of
        None \<Rightarrow> (False, hp)
      | Some mm \<Rightarrow>
          if max_map_len lim \<le> length mm \<and> hm_get fl k mm = None then (False, hp)
          else (True, hp\<lparr>map_store := (map_store hp)(h \<mapsto> hm_insert fl k v mm)\<rparr>))"

definition map_get :: "rust_std \<Rightarrow> i64 \<Rightarrow> vm_value \<Rightarrow> heap \<Rightarrow> vm_value option" where
  "map_get fl h k hp = (case map_store hp h of None \<Rightarrow> None | Some mm \<Rightarrow> hm_get fl k mm)"

definition map_len :: "i64 \<Rightarrow> heap \<Rightarrow> usize" where
  "map_len h hp = (case map_store hp h of None \<Rightarrow> 0 | Some mm \<Rightarrow> length mm)"

definition map_contains_key :: "rust_std \<Rightarrow> i64 \<Rightarrow> vm_value \<Rightarrow> heap \<Rightarrow> bool" where
  "map_contains_key fl h k hp =
     (case map_store hp h of None \<Rightarrow> False | Some mm \<Rightarrow> hm_get fl k mm \<noteq> None)"

definition map_remove :: "rust_std \<Rightarrow> i64 \<Rightarrow> vm_value \<Rightarrow> heap \<Rightarrow> vm_value option \<times> heap" where
  "map_remove fl h k hp =
     (case map_store hp h of
        None \<Rightarrow> (None, hp)
      | Some mm \<Rightarrow>
          (hm_get fl k mm, hp\<lparr>map_store := (map_store hp)(h \<mapsto> hm_remove fl k mm)\<rparr>))"

definition map_keys :: "i64 \<Rightarrow> heap \<Rightarrow> i64 \<times> heap" where
  "map_keys h hp =
     (let (list_handle, hp1) = list_new hp
      in case map_store hp1 h of
           None \<Rightarrow> (list_handle, hp1)
         | Some mm \<Rightarrow>
             (list_handle, hp1\<lparr>list_store := (list_store hp1)(list_handle \<mapsto> map fst mm)\<rparr>))"

definition map_merge :: "rust_std \<Rightarrow> i64 \<Rightarrow> i64 \<Rightarrow> heap \<Rightarrow> i64 \<times> heap" where
  "map_merge fl dest src hp =
     (let entries = (case map_store hp src of None \<Rightarrow> [] | Some mm \<Rightarrow> mm)
      in case map_store hp dest of
           None \<Rightarrow> (dest, hp)
         | Some dm \<Rightarrow>
             (dest, hp\<lparr>map_store := (map_store hp)(dest \<mapsto>
                fold (\<lambda>(k, v). hm_insert fl k v) entries dm)\<rparr>))"

section \<open>Optionals\<close>

definition opt_some :: "vm_value \<Rightarrow> heap \<Rightarrow> i64 \<times> heap" where
  "opt_some v hp =
     (let h = next_opt hp
      in (h, hp\<lparr>opt_store := (opt_store hp)(h \<mapsto> Some v), next_opt := h + 1\<rparr>))"

definition opt_none :: "heap \<Rightarrow> i64 \<times> heap" where
  "opt_none hp =
     (let h = next_opt hp
      in (h, hp\<lparr>opt_store := (opt_store hp)(h \<mapsto> None), next_opt := h + 1\<rparr>))"

definition opt_is_some :: "i64 \<Rightarrow> heap \<Rightarrow> bool" where
  "opt_is_some h hp = (case opt_store hp h of Some opt \<Rightarrow> opt \<noteq> None | None \<Rightarrow> False)"

definition opt_unwrap :: "i64 \<Rightarrow> heap \<Rightarrow> vm_value" where
  "opt_unwrap h hp = (case opt_store hp h of Some (Some v) \<Rightarrow> v | _ \<Rightarrow> I64 0)"

definition opt_or_else :: "i64 \<Rightarrow> vm_value \<Rightarrow> heap \<Rightarrow> vm_value" where
  "opt_or_else h dflt hp = (case opt_store hp h of Some (Some v) \<Rightarrow> v | _ \<Rightarrow> dflt)"

section \<open>Structs\<close>

definition struct_new :: "rstring \<Rightarrow> usize \<Rightarrow> heap \<Rightarrow> i64 \<times> heap" where
  "struct_new type_name field_count hp =
     (let h = next_struct hp;
          s = \<lparr>struct_name = type_name, struct_fields = replicate field_count (I64 0),
               field_names = replicate field_count []\<rparr>
      in (h, hp\<lparr>struct_store := (struct_store hp)(h \<mapsto> s), next_struct := h + 1\<rparr>))"

definition struct_set :: "i64 \<Rightarrow> usize \<Rightarrow> vm_value \<Rightarrow> rstring \<Rightarrow> heap \<Rightarrow> heap" where
  "struct_set h idx v fname hp =
     (case struct_store hp h of
        None \<Rightarrow> hp
      | Some s \<Rightarrow>
          if idx < length (struct_fields s) then
            hp\<lparr>struct_store := (struct_store hp)(h \<mapsto>
              s\<lparr>struct_fields := (struct_fields s)[idx := v],
                field_names := (if fname \<noteq> [] then (field_names s)[idx := fname] else field_names s)\<rparr>)\<rparr>
          else hp)"

definition struct_get :: "i64 \<Rightarrow> usize \<Rightarrow> heap \<Rightarrow> vm_value" where
  "struct_get h idx hp =
     (case struct_store hp h of
        None \<Rightarrow> I64 0
      | Some s \<Rightarrow> if idx < length (struct_fields s) then struct_fields s ! idx else I64 0)"

text \<open>The index of the first field with a name.\<close>

definition field_index :: "rstring \<Rightarrow> native_struct \<Rightarrow> nat option" where
  "field_index fname s = find (\<lambda>i. field_names s ! i = fname) [0..<length (field_names s)]"

definition struct_set_named :: "i64 \<Rightarrow> rstring \<Rightarrow> vm_value \<Rightarrow> heap \<Rightarrow> heap" where
  "struct_set_named h fname v hp =
     (case struct_store hp h of
        None \<Rightarrow> hp
      | Some s \<Rightarrow>
          (case field_index fname s of
             None \<Rightarrow> hp
           | Some idx \<Rightarrow>
               hp\<lparr>struct_store := (struct_store hp)(h \<mapsto> s\<lparr>struct_fields := (struct_fields s)[idx := v]\<rparr>)\<rparr>))"

text \<open>The source's loop over the zipped fields stops writing at the end of the destination.\<close>

definition struct_copy :: "i64 \<Rightarrow> i64 \<Rightarrow> heap \<Rightarrow> heap" where
  "struct_copy dest src hp =
     (let copied = (case struct_store hp src of None \<Rightarrow> [] | Some s \<Rightarrow> zip (struct_fields s) (field_names s))
      in case struct_store hp dest of
           None \<Rightarrow> hp
         | Some d \<Rightarrow>
             let n = min (length copied) (length (struct_fields d))
             in hp\<lparr>struct_store := (struct_store hp)(dest \<mapsto>
                  d\<lparr>struct_fields := map fst (take n copied) @ drop n (struct_fields d),
                    field_names := map snd (take n copied) @ drop n (field_names d)\<rparr>)\<rparr>)"

definition struct_type_name :: "i64 \<Rightarrow> heap \<Rightarrow> rstring" where
  "struct_type_name h hp = (case struct_store hp h of None \<Rightarrow> [] | Some s \<Rightarrow> struct_name s)"

definition struct_field_count :: "i64 \<Rightarrow> heap \<Rightarrow> usize" where
  "struct_field_count h hp = (case struct_store hp h of None \<Rightarrow> 0 | Some s \<Rightarrow> length (struct_fields s))"

section \<open>Handle ranges\<close>

definition is_list_handle :: "i64 \<Rightarrow> bool" where
  "is_list_handle h \<longleftrightarrow> 50000 \<le> sint h \<and> sint h < 60000"

definition is_map_handle :: "i64 \<Rightarrow> bool" where
  "is_map_handle h \<longleftrightarrow> 60000 \<le> sint h \<and> sint h < 70000"

definition is_opt_handle :: "i64 \<Rightarrow> bool" where
  "is_opt_handle h \<longleftrightarrow> 70000 \<le> sint h \<and> sint h < 90000"

definition is_struct_handle :: "i64 \<Rightarrow> bool" where
  "is_struct_handle h \<longleftrightarrow> 90000 \<le> sint h \<and> sint h < 100000"

definition is_json_handle :: "i64 \<Rightarrow> bool" where
  "is_json_handle h \<longleftrightarrow> 110000 \<le> sint h"

section \<open>JSON values\<close>

definition json_new :: "json_val \<Rightarrow> heap \<Rightarrow> i64 \<times> heap" where
  "json_new j hp =
     (let h = next_json hp
      in (h, hp\<lparr>json_store := (json_store hp)(h \<mapsto> j), next_json := h + 1\<rparr>))"

definition json_get_field_as_value :: "rust_std \<Rightarrow> i64 \<Rightarrow> rstring \<Rightarrow> heap \<Rightarrow> vm_value \<times> heap" where
  "json_get_field_as_value fl h fname hp =
     (case json_store hp h of
        Some (JObject pairs) \<Rightarrow>
          (case find (\<lambda>(k, _). k = fname) pairs of
             None \<Rightarrow> (I64 0, hp)
           | Some (_, j) \<Rightarrow>
               (case j of
                  JString s \<Rightarrow> (Str s, hp)
                | JNumber n \<Rightarrow> (if f_integral fl n then I64 (f_to_i64 fl n) else F64 n, hp)
                | JBool b \<Rightarrow> (I64 (if b then 1 else 0), hp)
                | JNull \<Rightarrow> (I64 0, hp)
                | _ \<Rightarrow> (let (nh, hp1) = json_new j hp in (I64 nh, hp1))))
      | _ \<Rightarrow> (I64 0, hp))"

text \<open>
  Named access on any handle: lists have a \<^verbatim>\<open>length\<close>, optionals are unwrapped, JSON objects and
  structs are searched. Unwrapping follows the optional's value, a handle, and never ends for an
  optional that contains itself.
\<close>

partial_function (option) struct_get_named ::
  "rust_std \<Rightarrow> i64 \<Rightarrow> rstring \<Rightarrow> heap \<Rightarrow> (vm_value \<times> heap) option" where
  "struct_get_named fl h fname hp =
     (if is_list_handle h then
        Some (if fname = bytes_of ''length'' then I64 (of_nat (list_len h hp)) else I64 0, hp)
      else if is_opt_handle h then
        (case opt_unwrap h hp of
           I64 inner \<Rightarrow> if inner \<noteq> 0 then struct_get_named fl inner fname hp else Some (I64 0, hp)
         | _ \<Rightarrow> Some (I64 0, hp))
      else if is_json_handle h then Some (json_get_field_as_value fl h fname hp)
      else
        Some (case struct_store hp h of
                None \<Rightarrow> I64 0
              | Some s \<Rightarrow>
                  (case field_index fname s of Some idx \<Rightarrow> struct_fields s ! idx | None \<Rightarrow> I64 0), hp))"

definition json_child :: "i64 \<Rightarrow> (json_val \<Rightarrow> json_val option) \<Rightarrow> heap \<Rightarrow> i64 \<times> heap" where
  "json_child h select hp =
     (case Option.bind (json_store hp h) select of
        Some j \<Rightarrow> json_new j hp
      | None \<Rightarrow> (- 1, hp))"

definition json_get_field :: "i64 \<Rightarrow> rstring \<Rightarrow> heap \<Rightarrow> i64 \<times> heap" where
  "json_get_field h key =
     json_child h (\<lambda>j. case j of
       JObject pairs \<Rightarrow> map_option snd (find (\<lambda>(k, _). k = key) pairs) | _ \<Rightarrow> None)"

definition json_get_index :: "i64 \<Rightarrow> i64 \<Rightarrow> heap \<Rightarrow> i64 \<times> heap" where
  "json_get_index h index hp =
     (if sint index < 0 then (- 1, hp)
      else json_child h (\<lambda>j. case j of
        JArray arr \<Rightarrow> if as_usize index < length arr then Some (arr ! as_usize index) else None
      | _ \<Rightarrow> None) hp)"

definition json_get_string :: "i64 \<Rightarrow> heap \<Rightarrow> rstring" where
  "json_get_string h hp = (case json_store hp h of Some (JString s) \<Rightarrow> s | _ \<Rightarrow> [])"

definition json_get_number :: "i64 \<Rightarrow> heap \<Rightarrow> f64" where
  "json_get_number h hp = (case json_store hp h of Some (JNumber n) \<Rightarrow> n | _ \<Rightarrow> f_zero)"

definition json_get_bool :: "i64 \<Rightarrow> heap \<Rightarrow> i64" where
  "json_get_bool h hp = (case json_store hp h of Some (JBool b) \<Rightarrow> if b then 1 else 0 | _ \<Rightarrow> 0)"

definition json_is_null :: "i64 \<Rightarrow> heap \<Rightarrow> i64" where
  "json_is_null h hp = (case json_store hp h of Some JNull \<Rightarrow> 1 | _ \<Rightarrow> 0)"

definition json_is_object :: "i64 \<Rightarrow> heap \<Rightarrow> i64" where
  "json_is_object h hp = (case json_store hp h of Some (JObject _) \<Rightarrow> 1 | _ \<Rightarrow> 0)"

definition json_is_array :: "i64 \<Rightarrow> heap \<Rightarrow> i64" where
  "json_is_array h hp = (case json_store hp h of Some (JArray _) \<Rightarrow> 1 | _ \<Rightarrow> 0)"

definition json_array_len :: "i64 \<Rightarrow> heap \<Rightarrow> i64" where
  "json_array_len h hp =
     (case json_store hp h of Some (JArray arr) \<Rightarrow> of_nat (length arr) | _ \<Rightarrow> - 1)"

definition json_keys :: "heap_limits \<Rightarrow> i64 \<Rightarrow> heap \<Rightarrow> i64 \<times> heap" where
  "json_keys lim h hp =
     (let keys = (case json_store hp h of Some (JObject pairs) \<Rightarrow> map fst pairs | _ \<Rightarrow> []);
          (list_h, hp1) = list_new hp
      in (list_h, push_all lim list_h (map Str keys) hp1))"

section \<open>Enums\<close>

definition enum_new :: "rstring \<Rightarrow> rstring \<Rightarrow> i64 \<Rightarrow> usize \<Rightarrow> heap \<Rightarrow> i64 \<times> heap" where
  "enum_new ename vname t payload_count hp =
     (let h = next_enum hp;
          e = \<lparr>enum_name = ename, variant_name = vname, tag = t,
               payload = replicate payload_count (I64 0)\<rparr>
      in (h, hp\<lparr>enum_store := (enum_store hp)(h \<mapsto> e), next_enum := h + 1\<rparr>))"

definition enum_set_payload :: "i64 \<Rightarrow> usize \<Rightarrow> vm_value \<Rightarrow> heap \<Rightarrow> heap" where
  "enum_set_payload h idx v hp =
     (case enum_store hp h of
        None \<Rightarrow> hp
      | Some e \<Rightarrow>
          if idx < length (payload e) then
            hp\<lparr>enum_store := (enum_store hp)(h \<mapsto> e\<lparr>payload := (payload e)[idx := v]\<rparr>)\<rparr>
          else hp)"

definition enum_get_payload :: "i64 \<Rightarrow> usize \<Rightarrow> heap \<Rightarrow> vm_value" where
  "enum_get_payload h idx hp =
     (case enum_store hp h of
        None \<Rightarrow> I64 0
      | Some e \<Rightarrow> if idx < length (payload e) then payload e ! idx else I64 0)"

definition enum_get_tag :: "i64 \<Rightarrow> heap \<Rightarrow> i64" where
  "enum_get_tag h hp = (case enum_store hp h of None \<Rightarrow> - 1 | Some e \<Rightarrow> tag e)"

definition enum_get_variant :: "i64 \<Rightarrow> heap \<Rightarrow> rstring" where
  "enum_get_variant h hp = (case enum_store hp h of None \<Rightarrow> [] | Some e \<Rightarrow> variant_name e)"

definition enum_type_name :: "i64 \<Rightarrow> heap \<Rightarrow> rstring" where
  "enum_type_name h hp = (case enum_store hp h of None \<Rightarrow> [] | Some e \<Rightarrow> enum_name e)"

section \<open>Closures\<close>

definition closure_new :: "u32 \<Rightarrow> u32 \<Rightarrow> heap \<Rightarrow> i64 \<times> heap" where
  "closure_new f num_captures hp =
     (let h = next_closure hp
      in (h, hp\<lparr>closure_store := (closure_store hp)(h \<mapsto> \<lparr>func_id = f, captures = []\<rparr>),
              next_closure := h + 1\<rparr>))"

definition closure_capture :: "i64 \<Rightarrow> vm_value \<Rightarrow> heap \<Rightarrow> heap" where
  "closure_capture h v hp =
     (case closure_store hp h of
        None \<Rightarrow> hp
      | Some c \<Rightarrow>
          hp\<lparr>closure_store := (closure_store hp)(h \<mapsto> c\<lparr>captures := captures c @ [v]\<rparr>)\<rparr>)"

definition closure_get_func_id :: "i64 \<Rightarrow> heap \<Rightarrow> u32 option" where
  "closure_get_func_id h hp = map_option func_id (closure_store hp h)"

definition closure_get_captures :: "i64 \<Rightarrow> heap \<Rightarrow> vm_value list" where
  "closure_get_captures h hp =
     (case closure_store hp h of None \<Rightarrow> [] | Some c \<Rightarrow> captures c)"

section \<open>Shared cells\<close>

definition shared_new :: "heap \<Rightarrow> i64 \<times> heap" where
  "shared_new hp =
     (let h = next_shared hp
      in (h, hp\<lparr>shared_store := (shared_store hp)(h \<mapsto> I64 0), next_shared := h + 1\<rparr>))"

definition shared_store_val :: "i64 \<Rightarrow> vm_value \<Rightarrow> heap \<Rightarrow> heap" where
  "shared_store_val h v hp = hp\<lparr>shared_store := (shared_store hp)(h \<mapsto> v)\<rparr>"

definition shared_load_val :: "i64 \<Rightarrow> heap \<Rightarrow> vm_value" where
  "shared_load_val h hp = (case shared_store hp h of None \<Rightarrow> I64 0 | Some v \<Rightarrow> v)"

text \<open>The body of \<^verbatim>\<open>SharedGetByName\<close>: the cell of a name is made on first use.\<close>

definition shared_get_by_name :: "rstring \<Rightarrow> heap \<Rightarrow> i64 \<times> heap" where
  "shared_get_by_name n hp =
     (case named_shared hp n of
        Some h \<Rightarrow> (h, hp)
      | None \<Rightarrow>
          (let (nh, hp1) = shared_new hp
           in (nh, hp1\<lparr>named_shared := (named_shared hp1)(n \<mapsto> nh)\<rparr>)))"

section \<open>Reference counting\<close>

definition saturating_inc :: "u64 \<Rightarrow> u64" where
  "saturating_inc n = (if n = - 1 then n else n + 1)"

definition saturating_dec :: "u64 \<Rightarrow> u64" where
  "saturating_dec n = (if n = 0 then 0 else n - 1)"

definition rc_alloc :: "vm_value \<Rightarrow> heap \<Rightarrow> i64 \<times> heap" where
  "rc_alloc v hp =
     (let h = next_rc hp
      in (h, hp\<lparr>rc_store := (rc_store hp)(h \<mapsto> \<lparr>cell_value = v, count = 1\<rparr>), next_rc := h + 1\<rparr>))"

definition rc_inc :: "i64 \<Rightarrow> heap \<Rightarrow> bool \<times> heap" where
  "rc_inc h hp =
     (case rc_store hp h of
        None \<Rightarrow> (False, hp)
      | Some c \<Rightarrow>
          (True, hp\<lparr>rc_store := (rc_store hp)(h \<mapsto> c\<lparr>count := saturating_inc (count c)\<rparr>)\<rparr>))"

definition rc_dec :: "i64 \<Rightarrow> heap \<Rightarrow> vm_value option \<times> heap" where
  "rc_dec h hp =
     (case rc_store hp h of
        None \<Rightarrow> (None, hp)
      | Some c \<Rightarrow>
          let n = saturating_dec (count c)
          in if n = 0 then (Some (cell_value c), hp\<lparr>rc_store := (rc_store hp)(h := None)\<rparr>)
             else (None, hp\<lparr>rc_store := (rc_store hp)(h \<mapsto> c\<lparr>count := n\<rparr>)\<rparr>))"

definition rc_load :: "i64 \<Rightarrow> heap \<Rightarrow> vm_value option" where
  "rc_load h hp = map_option cell_value (rc_store hp h)"

definition rc_store_value :: "i64 \<Rightarrow> vm_value \<Rightarrow> heap \<Rightarrow> bool \<times> heap" where
  "rc_store_value h v hp =
     (case rc_store hp h of
        None \<Rightarrow> (False, hp)
      | Some c \<Rightarrow> (True, hp\<lparr>rc_store := (rc_store hp)(h \<mapsto> c\<lparr>cell_value := v\<rparr>)\<rparr>))"

definition rc_get_count :: "i64 \<Rightarrow> heap \<Rightarrow> u64" where
  "rc_get_count h hp = (case rc_store hp h of None \<Rightarrow> 0 | Some c \<Rightarrow> count c)"

section \<open>Regions\<close>

text \<open>The stack of regions has its top at the end of the list.\<close>

definition region_enter :: "u32 \<Rightarrow> heap \<Rightarrow> heap" where
  "region_enter r hp =
     hp\<lparr>region_store := (region_store hp)(r \<mapsto> []), region_stack := region_stack hp @ [r]\<rparr>"

definition region_exit :: "u32 \<Rightarrow> heap \<Rightarrow> vm_value list \<times> heap" where
  "region_exit r hp =
     (let st = region_stack hp;
          st' = (if st \<noteq> [] \<and> last st = r then butlast st else st)
      in case region_store hp r of
           None \<Rightarrow> ([], hp\<lparr>region_stack := st'\<rparr>)
         | Some vs \<Rightarrow> (vs, hp\<lparr>region_stack := st', region_store := (region_store hp)(r := None)\<rparr>))"

definition region_alloc :: "vm_value \<Rightarrow> heap \<Rightarrow> heap" where
  "region_alloc v hp =
     (if region_stack hp = [] then hp
      else let r = last (region_stack hp)
        in case region_store hp r of
             None \<Rightarrow> hp
           | Some vs \<Rightarrow> hp\<lparr>region_store := (region_store hp)(r \<mapsto> vs @ [v])\<rparr>)"

definition is_in_region :: "heap \<Rightarrow> bool" where
  "is_in_region hp \<longleftrightarrow> region_stack hp \<noteq> []"

end
