(* ===== verification/Machine.thy ===== *)
theory Machine
  imports Heap Programs
begin

text \<open>
  The state of the bytecode interpreter, \<^verbatim>\<open>run_program_internal\<close> of
  \<^verbatim>\<open>crates/arth-vm/src/runtime/interpreter.inc.rs\<close>: its local variables \<^verbatim>\<open>ip\<close>, \<^verbatim>\<open>stack\<close>, \<^verbatim>\<open>frames\<close> and
  \<^verbatim>\<open>ret_stack\<close>, and the process-wide state it works on: the stores, the panic and exception state, the
  unwind handlers (\<^verbatim>\<open>ffi.inc.rs\<close>) and what it printed on stderr. The source pushes at the end of its
  vectors; here the top of every stack is the head of a list. What the subsystems outside the model
  keep (tasks, documents, sockets) is the component \<open>world\<close>.
\<close>

record panic_state =
  is_panicking :: bool
  panic_message :: rstring

record exception_state =
  has_exception :: bool
  exception_value :: i64

record unwind_handler =
  handler_ip :: u32
  frame_depth :: usize

type_synonym frame = "vm_value option list"

record 'w vm =
  ip :: usize
  stack :: "vm_value list"
  frames :: "frame list"
  ret_stack :: "usize list"
  heap_of :: heap
  panic_of :: panic_state
  exception_of :: exception_state
  handlers :: "unwind_handler list"
  stderr :: rstring
  world :: 'w

text \<open>
  How an instruction ends: the loop goes on, it is left with \<^verbatim>\<open>break\<close>, the interpreter returns a
  result, the Rust code itself panics, or it never comes back.
\<close>

datatype interpreter_result = ExitCode int | ReturnValue "i64 option" | Failed int

datatype crash = Frame_Unwrap | Slice_Range | Capacity_Overflow | Foreign_Crash

datatype 'w outcome =
  Next "'w vm" | Break "'w vm" | Return interpreter_result "'w vm" | Crash crash | Hang

text \<open>
  What a run depends on besides the program: the standard library's float operations, the limits
  (environment variables with defaults), the linked symbol table in the iteration order of its hash
  map, and the instructions that are not modelled.
\<close>

record 'w env =
  std :: rust_std
  limits :: heap_limits
  max_steps :: nat
  max_stack_depth :: usize
  max_call_depth :: usize
  linked_symbols :: "(rstring \<times> u32) list option"
  other_op :: "op \<Rightarrow> program \<Rightarrow> 'w vm \<Rightarrow> 'w outcome"

section \<open>Stack access\<close>

definition advance :: "'w vm \<Rightarrow> 'w outcome" where
  "advance s = Next (s\<lparr>ip := ip s + 1\<rparr>)"

definition advance_with :: "vm_value \<Rightarrow> 'w vm \<Rightarrow> 'w outcome" where
  "advance_with v s = Next (s\<lparr>stack := v # stack s, ip := ip s + 1\<rparr>)"

definition advance_heap :: "('a \<Rightarrow> vm_value) \<Rightarrow> 'a \<times> heap \<Rightarrow> 'w vm \<Rightarrow> 'w outcome" where
  "advance_heap f r s = advance_with (f (fst r)) (s\<lparr>heap_of := snd r\<rparr>)"

definition fail_with :: "int \<Rightarrow> 'w vm \<Rightarrow> 'w outcome" where
  "fail_with c s = Return (Failed c) s"

definition pop1 :: "'w vm \<Rightarrow> (vm_value \<Rightarrow> 'w vm \<Rightarrow> 'w outcome) \<Rightarrow> 'w outcome" where
  "pop1 s k = (case stack s of [] \<Rightarrow> fail_with 1 s | v # st \<Rightarrow> k v (s\<lparr>stack := st\<rparr>))"

definition pop2 :: "'w vm \<Rightarrow> (vm_value \<Rightarrow> vm_value \<Rightarrow> 'w vm \<Rightarrow> 'w outcome) \<Rightarrow> 'w outcome" where
  "pop2 s k = pop1 s (\<lambda>vb s1. pop1 s1 (\<lambda>va. k va vb))"

definition pop_i64 :: "'w vm \<Rightarrow> (i64 \<Rightarrow> 'w vm \<Rightarrow> 'w outcome) \<Rightarrow> 'w outcome" where
  "pop_i64 s k = pop1 s (\<lambda>v s1. case v of I64 n \<Rightarrow> k n s1 | _ \<Rightarrow> fail_with 1 s1)"

text \<open>\<^verbatim>\<open>stack.pop().unwrap_or(Value::I64(0))\<close>\<close>

definition pop_or_0 :: "'w vm \<Rightarrow> (vm_value \<Rightarrow> 'w vm \<Rightarrow> 'w outcome) \<Rightarrow> 'w outcome" where
  "pop_or_0 s k = (case stack s of [] \<Rightarrow> k (I64 0) s | v # st \<Rightarrow> k v (s\<lparr>stack := st\<rparr>))"

text \<open>
  A string operand is a string, or an integer that is looked up in the string table of the program
  (\<^verbatim>\<open>unwrap_or_default\<close> when it is out of range). Names accept anything else as the empty string.
\<close>

definition pool_string :: "program \<Rightarrow> nat \<Rightarrow> rstring" where
  "pool_string p i = (if i < length (strings p) then strings p ! i else [])"

definition pop_str :: "program \<Rightarrow> 'w vm \<Rightarrow> (rstring \<Rightarrow> 'w vm \<Rightarrow> 'w outcome) \<Rightarrow> 'w outcome" where
  "pop_str p s k = pop1 s (\<lambda>v s1.
     case v of Str t \<Rightarrow> k t s1 | I64 i \<Rightarrow> k (pool_string p (as_usize i)) s1 | _ \<Rightarrow> fail_with 1 s1)"

definition pop_name :: "program \<Rightarrow> 'w vm \<Rightarrow> (rstring \<Rightarrow> 'w vm \<Rightarrow> 'w outcome) \<Rightarrow> 'w outcome" where
  "pop_name p s k =
     (case stack s of
        [] \<Rightarrow> k [] s
      | v # st \<Rightarrow>
          k (case v of Str t \<Rightarrow> t | I64 i \<Rightarrow> pool_string p (as_usize i) | _ \<Rightarrow> [])
            (s\<lparr>stack := st\<rparr>))"

text \<open>Writing to stderr, and \<^verbatim>\<open>panic_with_message\<close>.\<close>

definition eprint :: "rstring \<Rightarrow> 'w vm \<Rightarrow> 'w vm" where
  "eprint t s = s\<lparr>stderr := stderr s @ t\<rparr>"

definition eprintln :: "rstring \<Rightarrow> 'w vm \<Rightarrow> 'w vm" where
  "eprintln t = eprint (t @ [0x0A])"

definition set_panic :: "rstring \<Rightarrow> 'w vm \<Rightarrow> 'w vm" where
  "set_panic msg s = s\<lparr>panic_of := \<lparr>is_panicking = True, panic_message = msg\<rparr>\<rparr>"

definition panic_with_message :: "rstring \<Rightarrow> 'w vm \<Rightarrow> 'w outcome" where
  "panic_with_message msg s = fail_with 2 (set_panic msg s)"

section \<open>Numbers and text\<close>

text \<open>Promotion of an operand to \<^verbatim>\<open>f64\<close>.\<close>

definition to_f64 :: "rust_std \<Rightarrow> vm_value \<Rightarrow> f64" where
  "to_f64 fl v =
     (case v of F64 f \<Rightarrow> f | I64 n \<Rightarrow> f_of_i64 fl n | Bool b \<Rightarrow> (if b then f_one else f_zero)
      | Str _ \<Rightarrow> f_zero)"

definition show_bool :: "bool \<Rightarrow> rstring" where
  "show_bool b = bytes_of (if b then ''true'' else ''false'')"

text \<open>\<^verbatim>\<open>to_string\<close> of a value, as \<^verbatim>\<open>AddI64\<close> and the messages use it.\<close>

definition value_to_text :: "rust_std \<Rightarrow> vm_value \<Rightarrow> rstring" where
  "value_to_text fl v =
     (case v of I64 n \<Rightarrow> show_i64 n | F64 f \<Rightarrow> f_show fl f | Bool b \<Rightarrow> show_bool b | Str s \<Rightarrow> s)"

text \<open>\<^verbatim>\<open>value_to_string\<close> of \<^verbatim>\<open>ConcatStr\<close> and the print instructions: integral floats keep one decimal.\<close>

definition value_to_string :: "rust_std \<Rightarrow> vm_value \<Rightarrow> rstring" where
  "value_to_string fl v =
     (case v of
        F64 f \<Rightarrow> if is_finite f \<and> f_integral fl f then f_show1 fl f else f_show fl f
      | _ \<Rightarrow> value_to_text fl v)"

definition first_char :: "rstring \<Rightarrow> nat option" where
  "first_char s = (case char_bytes s of [] \<Rightarrow> None | c # _ \<Rightarrow> Some (code_point c))"

definition i64_of_bool :: "bool \<Rightarrow> i64" where
  "i64_of_bool b = (if b then 1 else 0)"

definition or_else :: "'a option \<Rightarrow> 'a \<Rightarrow> 'a" where
  "or_else x d = (case x of Some y \<Rightarrow> y | None \<Rightarrow> d)"

end
