(* ===== verification/Interp_Values.thy ===== *)
theory Interp_Values
  imports Machine
begin

text \<open>
  The instructions that compute on values of the stack: arithmetic, comparison and bit operations,
  conversions, floating-point functions and strings; the arms of these names in
  \<^verbatim>\<open>run_program_internal\<close>. Each definition is the bodies of the arms of one group of instructions.
\<close>

section \<open>Arithmetic\<close>

definition add_values :: "rust_std \<Rightarrow> vm_value \<Rightarrow> vm_value \<Rightarrow> vm_value" where
  "add_values fl va vb =
     (case (va, vb) of
        (Str a, b) \<Rightarrow> Str (a @ value_to_text fl b)
      | (a, Str b) \<Rightarrow> Str (value_to_text fl a @ b)
      | (I64 a, I64 b) \<Rightarrow> I64 (a + b)
      | (a, b) \<Rightarrow> F64 (f_add fl (to_f64 fl a) (to_f64 fl b)))"

definition sub_values :: "rust_std \<Rightarrow> vm_value \<Rightarrow> vm_value \<Rightarrow> vm_value" where
  "sub_values fl va vb =
     (case (va, vb) of
        (I64 a, I64 b) \<Rightarrow> I64 (a - b)
      | (a, b) \<Rightarrow> F64 (f_sub fl (to_f64 fl a) (to_f64 fl b)))"

definition mul_values :: "rust_std \<Rightarrow> vm_value \<Rightarrow> vm_value \<Rightarrow> vm_value" where
  "mul_values fl va vb =
     (case (va, vb) of
        (I64 a, I64 b) \<Rightarrow> I64 (a * b)
      | (a, b) \<Rightarrow> F64 (f_mul fl (to_f64 fl a) (to_f64 fl b)))"

text \<open>Division and remainder give no value for a zero divisor.\<close>

definition div_values :: "rust_std \<Rightarrow> vm_value \<Rightarrow> vm_value \<Rightarrow> vm_value option" where
  "div_values fl va vb =
     (case (va, vb) of
        (I64 a, I64 b) \<Rightarrow> if b = 0 then None else Some (I64 (wrapping_div a b))
      | (a, b) \<Rightarrow>
          if f_eq fl (to_f64 fl b) f_zero then None
          else Some (F64 (f_div fl (to_f64 fl a) (to_f64 fl b))))"

definition mod_values :: "rust_std \<Rightarrow> vm_value \<Rightarrow> vm_value \<Rightarrow> vm_value option" where
  "mod_values fl va vb =
     (case (va, vb) of
        (I64 a, I64 b) \<Rightarrow> if b = 0 then None else Some (I64 (wrapping_rem a b))
      | (a, b) \<Rightarrow>
          if f_eq fl (to_f64 fl b) f_zero then None
          else Some (F64 (f_rem fl (to_f64 fl a) (to_f64 fl b))))"

text \<open>Comparisons are undefined on operands of other types.\<close>

definition lt_values :: "rust_std \<Rightarrow> vm_value \<Rightarrow> vm_value \<Rightarrow> bool option" where
  "lt_values fl va vb =
     (case (va, vb) of
        (I64 a, I64 b) \<Rightarrow> Some (sint a < sint b)
      | (F64 a, F64 b) \<Rightarrow> Some (f_lt fl a b)
      | (I64 a, F64 b) \<Rightarrow> Some (f_lt fl (f_of_i64 fl a) b)
      | (F64 a, I64 b) \<Rightarrow> Some (f_lt fl a (f_of_i64 fl b))
      | (Str a, Str b) \<Rightarrow> Some (lex_less a b)
      | _ \<Rightarrow> None)"

definition eq_values :: "rust_std \<Rightarrow> vm_value \<Rightarrow> vm_value \<Rightarrow> bool option" where
  "eq_values fl va vb =
     (case (va, vb) of
        (I64 a, I64 b) \<Rightarrow> Some (a = b)
      | (F64 a, F64 b) \<Rightarrow> Some (f_eq fl a b)
      | (I64 a, F64 b) \<Rightarrow> Some (f_eq fl (f_of_i64 fl a) b)
      | (F64 a, I64 b) \<Rightarrow> Some (f_eq fl a (f_of_i64 fl b))
      | (Bool a, Bool b) \<Rightarrow> Some (a = b)
      | (Str a, Str b) \<Rightarrow> Some (a = b)
      | _ \<Rightarrow> None)"

definition eq_str_values :: "vm_value \<Rightarrow> vm_value \<Rightarrow> bool" where
  "eq_str_values va vb = (case (va, vb) of (Str a, Str b) \<Rightarrow> a = b | _ \<Rightarrow> False)"

text \<open>The shift amount is the low six bits; \<^verbatim>\<open>wrapping_shr\<close> keeps the sign.\<close>

definition shift_amount :: "i64 \<Rightarrow> nat" where
  "shift_amount b = unat ((ucast b :: u32) AND 63)"

definition bit_values :: "arith_op \<Rightarrow> i64 \<Rightarrow> i64 \<Rightarrow> i64" where
  "bit_values aop a b =
     (case aop of
        ShlI64 \<Rightarrow> push_bit (shift_amount b) a
      | ShrI64 \<Rightarrow> signed_drop_bit (shift_amount b) a
      | AndI64 \<Rightarrow> a AND b
      | OrI64 \<Rightarrow> a OR b
      | _ \<Rightarrow> a XOR b)"

definition exec_arith :: "rust_std \<Rightarrow> arith_op \<Rightarrow> 'w vm \<Rightarrow> 'w outcome" where
  "exec_arith fl aop s =
     (case aop of
        AddI64 \<Rightarrow> pop2 s (\<lambda>va vb. advance_with (add_values fl va vb))
      | SubI64 \<Rightarrow> pop2 s (\<lambda>va vb. advance_with (sub_values fl va vb))
      | MulI64 \<Rightarrow> pop2 s (\<lambda>va vb. advance_with (mul_values fl va vb))
      | DivI64 \<Rightarrow> pop2 s (\<lambda>va vb s1.
          case div_values fl va vb of
            None \<Rightarrow> panic_with_message (bytes_of ''division by zero'') s1
          | Some v \<Rightarrow> advance_with v s1)
      | ModI64 \<Rightarrow> pop2 s (\<lambda>va vb s1.
          case mod_values fl va vb of
            None \<Rightarrow> panic_with_message (bytes_of ''modulo by zero'') s1
          | Some v \<Rightarrow> advance_with v s1)
      | LtI64 \<Rightarrow> pop2 s (\<lambda>va vb s1.
          case lt_values fl va vb of None \<Rightarrow> fail_with 1 s1 | Some b \<Rightarrow> advance_with (Bool b) s1)
      | EqI64 \<Rightarrow> pop2 s (\<lambda>va vb s1.
          case eq_values fl va vb of None \<Rightarrow> fail_with 1 s1 | Some b \<Rightarrow> advance_with (Bool b) s1)
      | EqStr \<Rightarrow> pop2 s (\<lambda>va vb. advance_with (Bool (eq_str_values va vb)))
      | ConcatStr \<Rightarrow> pop2 s (\<lambda>va vb.
          advance_with (Str (value_to_string fl va @ value_to_string fl vb)))
      | _ \<Rightarrow> pop_i64 s (\<lambda>b s1. pop_i64 s1 (\<lambda>a. advance_with (I64 (bit_values aop a b)))))"

section \<open>Conversions\<close>

text \<open>
  A string converts by its value as a number, or else by the code of its first character. \<^verbatim>\<open>ToI64\<close>
  and \<^verbatim>\<open>ToF64\<close> trim the string first, the narrow conversions do not.
\<close>

definition str_to_i64 :: "rstring \<Rightarrow> rstring \<Rightarrow> i64" where
  "str_to_i64 t s =
     (case parse_i64 t of Some n \<Rightarrow> n | None \<Rightarrow> (case first_char s of Some c \<Rightarrow> of_nat c | None \<Rightarrow> 0))"

definition str_to_f64 :: "rust_std \<Rightarrow> rstring \<Rightarrow> rstring \<Rightarrow> f64" where
  "str_to_f64 fl t s =
     (case f_parse fl t of
        Some x \<Rightarrow> x
      | None \<Rightarrow> (case first_char s of Some c \<Rightarrow> f_of_i64 fl (of_nat c) | None \<Rightarrow> f_zero))"

definition to_i64 :: "rust_std \<Rightarrow> vm_value \<Rightarrow> i64" where
  "to_i64 fl v =
     (case v of I64 n \<Rightarrow> n | F64 f \<Rightarrow> f_to_i64 fl f | Bool b \<Rightarrow> i64_of_bool b
      | Str s \<Rightarrow> str_to_i64 (trim s) s)"

definition to_i64_untrimmed :: "rust_std \<Rightarrow> vm_value \<Rightarrow> i64" where
  "to_i64_untrimmed fl v =
     (case v of I64 n \<Rightarrow> n | F64 f \<Rightarrow> f_to_i64 fl f | Bool b \<Rightarrow> i64_of_bool b
      | Str s \<Rightarrow> str_to_i64 s s)"

text \<open>A list handle stands for an enum: its tag is the element at index 0.\<close>

definition enum_tag_or_i64 :: "rust_std \<Rightarrow> heap \<Rightarrow> vm_value \<Rightarrow> i64" where
  "enum_tag_or_i64 fl hp v =
     (case v of
        I64 h \<Rightarrow> (case list_store hp h of Some (I64 t # _) \<Rightarrow> t | _ \<Rightarrow> h)
      | _ \<Rightarrow> to_i64 fl v)"

definition to_bool :: "rust_std \<Rightarrow> vm_value \<Rightarrow> bool" where
  "to_bool fl v =
     (case v of Bool b \<Rightarrow> b | I64 n \<Rightarrow> n \<noteq> 0 | F64 f \<Rightarrow> \<not> f_eq fl f f_zero | Str s \<Rightarrow> s \<noteq> [])"

definition to_char :: "rust_std \<Rightarrow> vm_value \<Rightarrow> rstring" where
  "to_char fl v =
     (case v of
        I64 n \<Rightarrow> char_from_u32 (ucast n)
      | F64 f \<Rightarrow> char_from_u32 (f_to_u32 fl f)
      | Bool b \<Rightarrow> bytes_of (if b then ''1'' else ''0'')
      | Str s \<Rightarrow> (case char_bytes s of [] \<Rightarrow> [0] | c # _ \<Rightarrow> c))"

definition convert :: "rust_std \<Rightarrow> conv_op \<Rightarrow> heap \<Rightarrow> vm_value \<Rightarrow> vm_value" where
  "convert fl cop hp v =
     (case cop of
        ToF64 \<Rightarrow> F64 (case v of Str s \<Rightarrow> str_to_f64 fl (trim s) s | _ \<Rightarrow> to_f64 fl v)
      | ToI64 \<Rightarrow> I64 (to_i64 fl v)
      | ToI64OrEnumTag \<Rightarrow> I64 (enum_tag_or_i64 fl hp v)
      | ToBool \<Rightarrow> Bool (to_bool fl v)
      | ToChar \<Rightarrow> Str (to_char fl v)
      | ToI8 \<Rightarrow> I64 (as_signed 8 (to_i64_untrimmed fl v))
      | ToI16 \<Rightarrow> I64 (as_signed 16 (to_i64_untrimmed fl v))
      | ToI32 \<Rightarrow> I64 (as_signed 32 (to_i64_untrimmed fl v))
      | ToU8 \<Rightarrow> I64 (as_unsigned 8 (to_i64_untrimmed fl v))
      | ToU16 \<Rightarrow> I64 (as_unsigned 16 (to_i64_untrimmed fl v))
      | ToU32 \<Rightarrow> I64 (as_unsigned 32 (to_i64_untrimmed fl v))
      | ToU64 \<Rightarrow> I64 (to_i64_untrimmed fl v)
      | ToF32 \<Rightarrow> F64 (f_to_f32 fl (case v of Str s \<Rightarrow> str_to_f64 fl s s | _ \<Rightarrow> to_f64 fl v)))"

definition exec_conv :: "rust_std \<Rightarrow> conv_op \<Rightarrow> 'w vm \<Rightarrow> 'w outcome" where
  "exec_conv fl cop s = pop_or_0 s (\<lambda>v. advance_with (convert fl cop (heap_of s) v))"

section \<open>Floating-point functions\<close>

text \<open>\<^verbatim>\<open>SqrtF64\<close> and \<^verbatim>\<open>PowF64\<close> take strings as zero, the other functions refuse them.\<close>

definition float_unary :: "rust_std \<Rightarrow> float_op \<Rightarrow> f64 \<Rightarrow> f64" where
  "float_unary fl fop x =
     (case fop of
        SqrtF64 \<Rightarrow> f_sqrt fl x | SinF64 \<Rightarrow> f_sin fl x | CosF64 \<Rightarrow> f_cos fl x | TanF64 \<Rightarrow> f_tan fl x
      | FloorF64 \<Rightarrow> f_floor fl x | CeilF64 \<Rightarrow> f_ceil fl x | _ \<Rightarrow> f_round fl x)"

definition exec_float :: "rust_std \<Rightarrow> float_op \<Rightarrow> 'w vm \<Rightarrow> 'w outcome" where
  "exec_float fl fop s =
     (case fop of
        PowF64 \<Rightarrow> pop2 s (\<lambda>va vb. advance_with (F64 (f_pow fl (to_f64 fl va) (to_f64 fl vb))))
      | SqrtF64 \<Rightarrow> pop1 s (\<lambda>v. advance_with (F64 (f_sqrt fl (to_f64 fl v))))
      | _ \<Rightarrow> pop1 s (\<lambda>v s1.
          case v of
            Str _ \<Rightarrow> fail_with 1 s1
          | _ \<Rightarrow> advance_with (F64 (float_unary fl fop (to_f64 fl v))) s1))"

section \<open>Strings\<close>

definition i64_of_index :: "nat option \<Rightarrow> i64" where
  "i64_of_index i = (case i of Some n \<Rightarrow> of_nat n | None \<Rightarrow> - 1)"

text \<open>
  \<^verbatim>\<open>chars[start..end.min(len)]\<close> panics when the range is decreasing; bounds below zero count as zero,
  and a start behind the string gives the empty string.
\<close>

definition substring :: "rstring \<Rightarrow> i64 \<Rightarrow> i64 \<Rightarrow> rstring option" where
  "substring s from until =
     (let cs = char_bytes s;
          a = (if sint from < 0 then 0 else as_usize from);
          b = min (if sint until < 0 then 0 else as_usize until) (length cs)
      in if a < length cs then if b < a then None else Some (concat (take (b - a) (drop a cs)))
         else Some [])"

definition exec_str :: "'w env \<Rightarrow> program \<Rightarrow> str_op \<Rightarrow> 'w vm \<Rightarrow> 'w outcome" where
  "exec_str env p sop s =
     (let fl = std env;
          with2 = (\<lambda>f. pop_str p s (\<lambda>u s1. pop_str p s1 (\<lambda>t. advance_with (f t u))))
      in case sop of
        StrLen \<Rightarrow> pop_str p s (\<lambda>t. advance_with (I64 (of_nat (length (char_bytes t)))))
      | StrSubstring \<Rightarrow>
          pop_i64 s (\<lambda>b s1. pop_i64 s1 (\<lambda>a s2. pop_str p s2 (\<lambda>t s3.
            case substring t a b of None \<Rightarrow> Crash Slice_Range | Some u \<Rightarrow> advance_with (Str u) s3)))
      | StrIndexOf \<Rightarrow> with2 (\<lambda>t u. I64 (i64_of_index (str_find t u)))
      | StrLastIndexOf \<Rightarrow> with2 (\<lambda>t u. I64 (i64_of_index (str_rfind t u)))
      | StrStartsWith \<Rightarrow> with2 (\<lambda>t u. I64 (i64_of_bool (str_starts_with t u)))
      | StrEndsWith \<Rightarrow> with2 (\<lambda>t u. I64 (i64_of_bool (str_ends_with t u)))
      | StrContains \<Rightarrow> with2 (\<lambda>t u. I64 (i64_of_bool (str_contains t u)))
      | StrSplit \<Rightarrow>
          pop_str p s (\<lambda>d s1. pop_str p s1 (\<lambda>t s2.
            let (h, hp) = list_new (heap_of s2)
            in advance_with (I64 h)
                 (s2\<lparr>heap_of := push_all (limits env) h (map Str (str_split t d)) hp\<rparr>)))
      | StrTrim \<Rightarrow> pop_str p s (\<lambda>t. advance_with (Str (trim t)))
      | StrToLower \<Rightarrow> pop_str p s (\<lambda>t. advance_with (Str (to_lowercase fl t)))
      | StrToUpper \<Rightarrow> pop_str p s (\<lambda>t. advance_with (Str (to_uppercase fl t)))
      | StrReplace \<Rightarrow>
          pop_str p s (\<lambda>new s1. pop_str p s1 (\<lambda>old s2. pop_str p s2 (\<lambda>t.
            advance_with (Str (str_replace t old new)))))
      | StrCharAt \<Rightarrow>
          pop_i64 s (\<lambda>i s1. pop_str p s1 (\<lambda>t s2.
            let cs = char_bytes t
            in if sint i < 0 \<or> length cs \<le> as_usize i then
                 panic_with_message (bytes_of ''string index out of bounds: index '' @ show_i64 i @
                   bytes_of '' but length is '' @ bytes_of (show_nat (length cs))) s2
               else advance_with (I64 (of_nat (code_point (cs ! as_usize i)))) s2))
      | StrRepeat \<Rightarrow>
          pop_i64 s (\<lambda>n s1. pop_str p s1 (\<lambda>t s2.
            if 0 < sint n then
              if 2 ^ 63 \<le> length t * as_usize n then Crash Capacity_Overflow
              else advance_with (Str (concat (replicate (as_usize n) t))) s2
            else advance_with (Str []) s2))
      | StrParseInt \<Rightarrow> pop_str p s (\<lambda>t. advance_with (I64 (or_else (parse_i64 (trim t)) 0)))
      | StrParseFloat \<Rightarrow> pop_str p s (\<lambda>t. advance_with (F64 (or_else (f_parse fl (trim t)) f_zero)))
      | StrFromInt \<Rightarrow> pop_i64 s (\<lambda>n. advance_with (Str (show_i64 n)))
      | StrFromFloat \<Rightarrow> pop1 s (\<lambda>v s1.
          case v of
            F64 f \<Rightarrow> advance_with (Str (f_show fl f)) s1
          | I64 n \<Rightarrow> advance_with (Str (f_show fl (f_of_i64 fl n))) s1
          | _ \<Rightarrow> fail_with 1 s1))"

end
