(* ===== verification/Json.thy ===== *)
theory Json
  imports Heap
begin

text \<open>
  JSON of the virtual machine, \<^verbatim>\<open>core.inc.rs\<close>: the serializers of values, stores and parsed
  documents, the recursive-descent parser, and the conversion between lists and JSON by a field
  table (\<^verbatim>\<open>struct_to_json\<close>, \<^verbatim>\<open>json_to_struct\<close>). The parser works on the characters of its input; a
  character is the list of its bytes.
\<close>

type_synonym chars = "rstring list"

abbreviation ch :: "u8 \<Rightarrow> rstring" where "ch b \<equiv> [b]"

section \<open>Serializing\<close>

definition hex_digit :: "nat \<Rightarrow> u8" where
  "hex_digit n = (if n < 10 then of_nat (48 + n) else of_nat (87 + n))"

text \<open>\<^verbatim>\<open>char::is_control\<close>: the general category Cc.\<close>

definition is_control :: "nat \<Rightarrow> bool" where
  "is_control n \<longleftrightarrow> n < 0x20 \<or> 0x7F \<le> n \<and> n < 0xA0"

definition escape_char :: "rstring \<Rightarrow> rstring" where
  "escape_char c =
     (if c = ch 0x22 then [0x5C, 0x22]
      else if c = ch 0x5C then [0x5C, 0x5C]
      else if c = ch 0x0A then [0x5C, 0x6E]
      else if c = ch 0x0D then [0x5C, 0x72]
      else if c = ch 0x09 then [0x5C, 0x74]
      else if is_control (code_point c) then
        (let n = code_point c
         in [0x5C, 0x75, hex_digit (n div 4096 mod 16), hex_digit (n div 256 mod 16),
             hex_digit (n div 16 mod 16), hex_digit (n mod 16)])
      else c)"

definition json_escape_string :: "rstring \<Rightarrow> rstring" where
  "json_escape_string s = [0x22] @ concat (map escape_char (char_bytes s)) @ [0x22]"

definition json_number :: "rust_std \<Rightarrow> f64 \<Rightarrow> rstring" where
  "json_number fl x = (if is_finite x then f_show fl x else bytes_of ''null'')"

definition json_bool :: "bool \<Rightarrow> rstring" where
  "json_bool b = bytes_of (if b then ''true'' else ''false'')"

definition json_stringify_value :: "rust_std \<Rightarrow> vm_value \<Rightarrow> rstring" where
  "json_stringify_value fl v =
     (case v of
        I64 n \<Rightarrow> show_i64 n | F64 x \<Rightarrow> json_number fl x | Bool b \<Rightarrow> json_bool b
      | Str s \<Rightarrow> json_escape_string s)"

definition json_array :: "rstring list \<Rightarrow> rstring" where
  "json_array parts = [0x5B] @ join_with [0x2C] parts @ [0x5D]"

definition json_object :: "(rstring \<times> rstring) list \<Rightarrow> rstring" where
  "json_object parts = [0x7B] @ join_with [0x2C] (map (\<lambda>(k, v). k @ [0x3A] @ v) parts) @ [0x7D]"

text \<open>Keys of maps that are not strings are quoted after they are printed.\<close>

definition json_key :: "rust_std \<Rightarrow> vm_value \<Rightarrow> rstring" where
  "json_key fl k =
     (case k of Str s \<Rightarrow> json_escape_string s | _ \<Rightarrow> json_escape_string (json_stringify_value fl k))"

text \<open>
  \<^verbatim>\<open>json_stringify\<close> follows the handles of lists, maps and structs; the fields of a struct without a
  name are left out. \<open>json_parts\<close> gives the values to serialize first and how to put their texts
  together.
\<close>

definition json_parts ::
  "rust_std \<Rightarrow> heap \<Rightarrow> vm_value \<Rightarrow> vm_value list \<times> (rstring list \<Rightarrow> rstring)" where
  "json_parts fl hp v =
     (case v of
        I64 h \<Rightarrow>
          if is_list_handle h then
            (case list_store hp h of
               None \<Rightarrow> ([], json_array)
             | Some xs \<Rightarrow> (xs, json_array))
          else if is_map_handle h then
            (case map_store hp h of
               None \<Rightarrow> ([], \<lambda>_. json_object [])
             | Some es \<Rightarrow> (map snd es, \<lambda>ts. json_object (zip (map (json_key fl \<circ> fst) es) ts)))
          else if is_struct_handle h then
            (case struct_store hp h of
               None \<Rightarrow> ([], \<lambda>_. json_object [])
             | Some st \<Rightarrow>
                 let named = filter (\<lambda>(n, _). n \<noteq> []) (zip (field_names st) (struct_fields st))
                 in (map snd named, \<lambda>ts. json_object (zip (map (json_escape_string \<circ> fst) named) ts)))
          else ([], \<lambda>_. json_stringify_value fl v)
      | _ \<Rightarrow> ([], \<lambda>_. json_stringify_value fl v))"

text \<open>
  The texts of a list of values, one after the other. There is no result where the source recurses
  without end, on a store that refers to itself.
\<close>

partial_function (option) stringify_all ::
  "rust_std \<Rightarrow> heap \<Rightarrow> vm_value list \<Rightarrow> rstring list option" where
  "stringify_all fl hp vs =
     (case vs of
        [] \<Rightarrow> Some []
      | v # vs' \<Rightarrow>
          Option.bind (stringify_all fl hp (fst (json_parts fl hp v))) (\<lambda>ts.
            Option.bind (stringify_all fl hp vs') (\<lambda>rest.
              Some (snd (json_parts fl hp v) ts # rest))))"

definition json_stringify :: "rust_std \<Rightarrow> heap \<Rightarrow> vm_value \<Rightarrow> rstring option" where
  "json_stringify fl hp v = map_option hd (stringify_all fl hp [v])"

fun json_stringify_jsonval :: "rust_std \<Rightarrow> json_val \<Rightarrow> rstring" where
  "json_stringify_jsonval fl JNull = bytes_of ''null''"
| "json_stringify_jsonval fl (JBool b) = json_bool b"
| "json_stringify_jsonval fl (JNumber x) = json_number fl x"
| "json_stringify_jsonval fl (JString s) = json_escape_string s"
| "json_stringify_jsonval fl (JArray js) = json_array (map (json_stringify_jsonval fl) js)"
| "json_stringify_jsonval fl (JObject ps) =
     json_object (map (\<lambda>(k, j). (json_escape_string k, json_stringify_jsonval fl j)) ps)"

section \<open>Parsing\<close>

definition trim_start :: "chars \<Rightarrow> chars" where
  "trim_start = dropWhile (\<lambda>c. is_whitespace (code_point c))"

definition starts_with :: "chars \<Rightarrow> string \<Rightarrow> bool" where
  "starts_with cs lit \<longleftrightarrow> take (length lit) cs = map (\<lambda>c. [of_char c]) lit"

text \<open>\<^verbatim>\<open>u32::from_str_radix\<close> with radix 16 takes an optional plus sign.\<close>

definition hex_value :: "u8 \<Rightarrow> nat option" where
  "hex_value b =
     (if 48 \<le> b \<and> b \<le> 57 then Some (unat b - 48)
      else if 65 \<le> b \<and> b \<le> 70 then Some (unat b - 55)
      else if 97 \<le> b \<and> b \<le> 102 then Some (unat b - 87)
      else None)"

definition from_hex :: "rstring \<Rightarrow> nat option" where
  "from_hex s =
     (let ds = (case s of b # r \<Rightarrow> if b = 0x2B then r else s | [] \<Rightarrow> [])
      in if ds = [] \<or> list_ex (\<lambda>d. hex_value d = None) ds then None
         else Some (foldl (\<lambda>n d. 16 * n + the (hex_value d)) 0 ds))"

definition hex_char :: "chars \<Rightarrow> rstring" where
  "hex_char hs =
     (case from_hex (concat hs) of
        None \<Rightarrow> []
      | Some n \<Rightarrow> if is_scalar n then utf8_encode n else [])"

definition unescape :: "rstring \<Rightarrow> rstring" where
  "unescape e =
     (if e = ch 0x6E then [0x0A] else if e = ch 0x72 then [0x0D] else if e = ch 0x74 then [0x09]
      else if e = ch 0x62 then [0x08] else if e = ch 0x66 then [0x0C] else e)"

text \<open>The body of a string literal behind the opening quote, with the text read so far.\<close>

function string_body :: "rstring \<Rightarrow> chars \<Rightarrow> (rstring \<times> chars) option" where
  "string_body acc [] = None"
| "string_body acc (c # cs) =
     (if c = ch 0x22 then Some (acc, cs)
      else if c = ch 0x5C then
        (case cs of
           [] \<Rightarrow> None
         | e # r \<Rightarrow>
             if e = ch 0x75 then string_body (acc @ hex_char (take 4 r)) (drop 4 r)
             else string_body (acc @ unescape e) r)
      else string_body (acc @ c) cs)"
  by pat_completeness auto
termination
  by (relation "measure (\<lambda>(_, cs). length cs)") auto

definition parse_json_string :: "chars \<Rightarrow> (rstring \<times> chars) option" where
  "parse_json_string cs =
     (case cs of [] \<Rightarrow> None | c # r \<Rightarrow> if c = ch 0x22 then string_body [] r else None)"

text \<open>The longest prefix that has the shape of a number.\<close>

definition is_digit_char :: "rstring \<Rightarrow> bool" where
  "is_digit_char c = (case c of [b] \<Rightarrow> is_digit b | _ \<Rightarrow> False)"

definition span_one :: "rstring list \<Rightarrow> chars \<Rightarrow> chars \<times> chars" where
  "span_one alts cs =
     (case cs of [] \<Rightarrow> ([], []) | c # r \<Rightarrow> if c \<in> set alts then ([c], r) else ([], cs))"

definition span_digits :: "chars \<Rightarrow> chars \<times> chars" where
  "span_digits cs = (takeWhile is_digit_char cs, dropWhile is_digit_char cs)"

definition number_span :: "chars \<Rightarrow> chars \<times> chars" where
  "number_span cs =
     (let (sg, r1) = span_one [ch 0x2D] cs;
          (int, r2) = span_digits r1;
          (dot, r3) = span_one [ch 0x2E] r2;
          (frac, r4) = (if dot = [] then ([], r3) else span_digits r3);
          (e, r5) = span_one [ch 0x65, ch 0x45] r4;
          (esg, r6) = (if e = [] then ([], r5) else span_one [ch 0x2B, ch 0x2D] r5);
          (ex, r7) = (if e = [] then ([], r6) else span_digits r6)
      in (sg @ int @ dot @ frac @ e @ esg @ ex, r7))"

definition parse_json_number :: "rust_std \<Rightarrow> chars \<Rightarrow> (json_val \<times> chars) option" where
  "parse_json_number fl cs =
     (let (num, rest) = number_span cs
      in if num = [] then None
         else case f_parse fl (concat num) of None \<Rightarrow> None | Some x \<Rightarrow> Some (JNumber x, rest))"

text \<open>
  The parser proper. Every call consumes a character or is followed by one that does, so twice the
  length of the input bounds the depth; the fuel is only there to make that explicit.
\<close>

function (sequential) parse_fuel :: "nat \<Rightarrow> rust_std \<Rightarrow> chars \<Rightarrow> (json_val \<times> chars) option"
  and array_loop :: "nat \<Rightarrow> rust_std \<Rightarrow> json_val list \<Rightarrow> chars \<Rightarrow> (json_val \<times> chars) option"
  and object_loop ::
    "nat \<Rightarrow> rust_std \<Rightarrow> (rstring \<times> json_val) list \<Rightarrow> chars \<Rightarrow> (json_val \<times> chars) option" where
  "parse_fuel 0 fl s = None"
| "parse_fuel (Suc n) fl s =
     (let cs = trim_start s
      in case cs of
           [] \<Rightarrow> None
         | c # r \<Rightarrow>
             if starts_with cs ''null'' then Some (JNull, drop 4 cs)
             else if starts_with cs ''true'' then Some (JBool True, drop 4 cs)
             else if starts_with cs ''false'' then Some (JBool False, drop 5 cs)
             else if c = ch 0x22 then map_option (\<lambda>(t, r'). (JString t, r')) (parse_json_string cs)
             else if c = ch 0x5B then
               (let r1 = trim_start r
                in if starts_with r1 '']'' then Some (JArray [], tl r1) else array_loop n fl [] r1)
             else if c = ch 0x7B then
               (let r1 = trim_start r
                in if starts_with r1 ''}'' then Some (JObject [], tl r1) else object_loop n fl [] r1)
             else if c = ch 0x2D \<or> is_digit_char c then parse_json_number fl cs
             else None)"
| "array_loop 0 fl items s = None"
| "array_loop (Suc n) fl items s =
     (case parse_fuel n fl s of
        None \<Rightarrow> None
      | Some (j, rest) \<Rightarrow>
          (let r = trim_start rest
           in if starts_with r '']'' then Some (JArray (items @ [j]), tl r)
              else if starts_with r '','' then array_loop n fl (items @ [j]) (trim_start (tl r))
              else None))"
| "object_loop 0 fl items s = None"
| "object_loop (Suc n) fl items s =
     (case parse_json_string s of
        None \<Rightarrow> None
      | Some (k, rest) \<Rightarrow>
          (let r = trim_start rest
           in if \<not> starts_with r '':'' then None
              else case parse_fuel n fl (trim_start (tl r)) of
                     None \<Rightarrow> None
                   | Some (j, rest') \<Rightarrow>
                       (let r' = trim_start rest'
                        in if starts_with r' ''}'' then Some (JObject (items @ [(k, j)]), tl r')
                           else if starts_with r' '','' then
                             object_loop n fl (items @ [(k, j)]) (trim_start (tl r'))
                           else None)))"
  by pat_completeness auto
termination
  by (relation "measure (\<lambda>x. case x of Inl (n, _) \<Rightarrow> n | Inr (Inl (n, _)) \<Rightarrow> n | Inr (Inr (n, _)) \<Rightarrow> n)")
    simp_all

definition parse_json :: "rust_std \<Rightarrow> chars \<Rightarrow> (json_val \<times> chars) option" where
  "parse_json fl cs = parse_fuel (2 * length cs + 2) fl cs"

definition parse_document :: "rust_std \<Rightarrow> rstring \<Rightarrow> json_val option" where
  "parse_document fl s =
     (case parse_json fl (char_bytes (trim s)) of
        Some (j, rest) \<Rightarrow> if trim (concat rest) = [] then Some j else None
      | None \<Rightarrow> None)"

definition json_parse_and_store :: "rust_std \<Rightarrow> rstring \<Rightarrow> heap \<Rightarrow> i64 \<times> heap" where
  "json_parse_and_store fl s hp =
     (case parse_document fl s of Some j \<Rightarrow> json_new j hp | None \<Rightarrow> (- 1, hp))"

section \<open>Structs by a field table\<close>

record json_meta =
  meta_fields :: "(rstring \<times> usize) list"
  total_fields :: usize
  ignore_unknown :: bool

text \<open>\<^verbatim>\<open>parse::<usize>\<close>\<close>

definition parse_usize :: "rstring \<Rightarrow> usize option" where
  "parse_usize s =
     (let ds = (case s of b # r \<Rightarrow> if b = 0x2B then r else s | [] \<Rightarrow> [])
      in if ds = [] \<or> list_ex (\<lambda>d. \<not> is_digit d) ds then None
         else if digits_value ds < 2 ^ 64 then Some (nat (digits_value ds)) else None)"

text \<open>
  A table \<^verbatim>\<open>name:idx,...;flags\<close>, or the older \<^verbatim>\<open>x,y,z\<close> with positions as indices. The index after the
  largest is computed without overflow check.
\<close>

definition meta_pair :: "rstring \<Rightarrow> (rstring \<times> usize) option" where
  "meta_pair pair =
     (case str_find pair [0x3A] of
        None \<Rightarrow> None
      | Some i \<Rightarrow> map_option (Pair (take i pair)) (parse_usize (drop (i + 1) pair)))"

definition parse_struct_json_meta :: "rstring \<Rightarrow> json_meta" where
  "parse_struct_json_meta m =
     (if str_contains m [0x3A] \<or> str_contains m [0x3B] then
        let (fields_part, flags_part) =
              (case str_find m [0x3B] of
                 Some i \<Rightarrow> (take i m, drop (i + 1) m)
               | None \<Rightarrow> (m, []));
            fs = List.map_filter meta_pair (str_split fields_part [0x2C])
        in \<lparr>meta_fields = fs,
            total_fields = fold (\<lambda>(_, i). max ((i + 1) mod 2 ^ 64)) fs 0,
            ignore_unknown = str_contains flags_part [0x49]\<rparr>
      else
        let fs = map (\<lambda>(i, n). (n, i)) (filter (\<lambda>(_, n). n \<noteq> []) (enumerate 0 (str_split m [0x2C])))
        in \<lparr>meta_fields = fs, total_fields = length fs, ignore_unknown = False\<rparr>)"

text \<open>
  The object of the fields that exist, names unescaped and values without following handles; \<open>None\<close>
  is a detected cycle.
\<close>

definition struct_to_json_with_cycle_check ::
  "rust_std \<Rightarrow> i64 \<Rightarrow> rstring \<Rightarrow> i64 set \<Rightarrow> heap \<Rightarrow> rstring option" where
  "struct_to_json_with_cycle_check fl h m visited hp =
     (if h \<in> visited then None
      else Some (case list_store hp h of
                   None \<Rightarrow> bytes_of ''{}''
                 | Some vals \<Rightarrow>
                     json_object (List.map_filter (\<lambda>(n, i).
                       if i < length vals then
                         Some ([0x22] @ n @ [0x22], json_stringify_value fl (vals ! i))
                       else None) (meta_fields (parse_struct_json_meta m)))))"

definition struct_to_json :: "rust_std \<Rightarrow> i64 \<Rightarrow> rstring \<Rightarrow> heap \<Rightarrow> rstring option" where
  "struct_to_json fl h m hp = struct_to_json_with_cycle_check fl h m {} hp"

definition f_le :: "rust_std \<Rightarrow> f64 \<Rightarrow> f64 \<Rightarrow> bool" where
  "f_le fl x y \<longleftrightarrow> f_lt fl x y \<or> f_eq fl x y"

definition json_val_to_vm_value :: "rust_std \<Rightarrow> json_val \<Rightarrow> vm_value" where
  "json_val_to_vm_value fl j =
     (case j of
        JNull \<Rightarrow> I64 0
      | JBool b \<Rightarrow> I64 (if b then 1 else 0)
      | JNumber n \<Rightarrow>
          if f_integral fl n \<and> f_le fl (f_of_i64 fl (2 ^ 63)) n \<and> f_le fl n (f_of_i64 fl (2 ^ 63 - 1))
          then I64 (f_to_i64 fl n) else F64 n
      | JString s \<Rightarrow> Str s
      | _ \<Rightarrow> I64 0)"

definition json_to_struct ::
  "rust_std \<Rightarrow> heap_limits \<Rightarrow> rstring \<Rightarrow> rstring \<Rightarrow> heap \<Rightarrow> i64 \<times> heap" where
  "json_to_struct fl lim s m hp =
     (let meta = parse_struct_json_meta m;
          (jh, hp1) = json_parse_and_store fl s hp
      in if sint jh < 0 then (- 1, hp1)
         else
           let (sh, hp2) = list_new hp1;
               hp3 = push_all lim sh (replicate (total_fields meta) (I64 0)) hp2
           in case json_store hp3 jh of
                Some (JObject obj) \<Rightarrow>
                  if \<not> ignore_unknown meta \<and>
                     list_ex (\<lambda>(k, _). k \<notin> set (map fst (meta_fields meta))) obj then (- 2, hp3)
                  else
                    (sh, fold (\<lambda>(n, i) hp'.
                       case find (\<lambda>(k, _). k = n) obj of
                         Some (_, j) \<Rightarrow> snd (list_set sh i (json_val_to_vm_value fl j) hp')
                       | None \<Rightarrow> hp') (meta_fields meta) hp3)
              | _ \<Rightarrow> (sh, hp3))"

end
