(* ===== verification/Interp_Heap.thy ===== *)
theory Interp_Heap
  imports Interp_Values Json
begin

text \<open>
  The instructions on the stores of \<open>Heap\<close>: lists, maps, optionals, structs, enums, JSON values,
  shared cells and reference counts; the arms of these names in \<^verbatim>\<open>run_program_internal\<close>.
\<close>

text \<open>\<^verbatim>\<open>vec![v; n]\<close> panics when its size, 24 bytes for a value or a string, exceeds \<^verbatim>\<open>isize::MAX\<close>.\<close>

definition capacity_overflow :: "nat \<Rightarrow> bool" where
  "capacity_overflow n \<longleftrightarrow> 2 ^ 63 \<le> 24 * n"

section \<open>Lists\<close>

definition out_of_bounds :: "string \<Rightarrow> i64 \<Rightarrow> nat \<Rightarrow> rstring" where
  "out_of_bounds what i n =
     bytes_of (what @ '' index out of bounds: index '') @ show_i64 i @
     bytes_of '' but length is '' @ bytes_of (show_nat n)"

definition list_index :: "rust_std \<Rightarrow> vm_value \<Rightarrow> i64 option" where
  "list_index fl v = (case v of I64 i \<Rightarrow> Some i | F64 f \<Rightarrow> Some (f_to_i64 fl f) | _ \<Rightarrow> None)"

definition exec_list :: "'w env \<Rightarrow> list_op \<Rightarrow> 'w vm \<Rightarrow> 'w outcome" where
  "exec_list env lop s =
     (case lop of
        ListNew \<Rightarrow> advance_heap I64 (list_new (heap_of s)) s
      | ListPush \<Rightarrow>
          pop1 s (\<lambda>v s1. pop_i64 s1 (\<lambda>h s2.
            advance_heap (\<lambda>n. I64 (of_nat n)) (list_push (limits env) h v (heap_of s2)) s2))
      | ListGet \<Rightarrow>
          pop1 s (\<lambda>v s1.
            case list_index (std env) v of
              None \<Rightarrow> fail_with 1 s1
            | Some i \<Rightarrow> pop_i64 s1 (\<lambda>h s2.
                case list_get h (as_usize i) (heap_of s2) of
                  Some x \<Rightarrow> advance_with x s2
                | None \<Rightarrow>
                    panic_with_message (out_of_bounds ''list'' i (list_len h (heap_of s2))) s2))
      | ListSet \<Rightarrow>
          pop1 s (\<lambda>v s1. pop_i64 s1 (\<lambda>i s2. pop_i64 s2 (\<lambda>h s3.
            let (ok, hp) = list_set h (as_usize i) v (heap_of s3)
            in if ok then advance_with (I64 0) (s3\<lparr>heap_of := hp\<rparr>)
               else panic_with_message (out_of_bounds ''list set'' i (list_len h hp)) s3)))
      | ListLen \<Rightarrow> pop_i64 s (\<lambda>h s1. advance_with (I64 (of_nat (list_len h (heap_of s1)))) s1)
      | ListRemove \<Rightarrow>
          pop_i64 s (\<lambda>i s1. pop_i64 s1 (\<lambda>h s2.
            let (r, hp) = list_remove h (as_usize i) (heap_of s2)
            in case r of
                 Some v \<Rightarrow> advance_with v (s2\<lparr>heap_of := hp\<rparr>)
               | None \<Rightarrow> panic_with_message (out_of_bounds ''list remove'' i (list_len h hp)) s2))
      | ListSort \<Rightarrow>
          pop_i64 s (\<lambda>h s1.
            advance_with (I64 0) (s1\<lparr>heap_of := list_sort (std env) h (heap_of s1)\<rparr>)))"

section \<open>Maps\<close>

definition key_text :: "rust_std \<Rightarrow> vm_value \<Rightarrow> rstring" where
  "key_text fl k = (case k of Str s \<Rightarrow> 0x22 # s @ [0x22] | _ \<Rightarrow> value_to_text fl k)"

definition exec_map :: "'w env \<Rightarrow> map_op \<Rightarrow> 'w vm \<Rightarrow> 'w outcome" where
  "exec_map env mop s =
     (let fl = std env
      in case mop of
        MapNew \<Rightarrow> advance_heap I64 (map_new (heap_of s)) s
      | MapPut \<Rightarrow>
          pop1 s (\<lambda>v s1. pop1 s1 (\<lambda>k s2. pop_i64 s2 (\<lambda>h s3.
            advance_heap (\<lambda>_. I64 0) (map_put fl (limits env) h k v (heap_of s3)) s3)))
      | MapGet \<Rightarrow>
          pop1 s (\<lambda>k s1. pop_i64 s1 (\<lambda>h s2.
            case map_get fl h k (heap_of s2) of
              Some v \<Rightarrow> advance_with v s2
            | None \<Rightarrow>
                panic_with_message (bytes_of ''map key not found: '' @ key_text fl k) s2))
      | MapLen \<Rightarrow> pop_i64 s (\<lambda>h s1. advance_with (I64 (of_nat (map_len h (heap_of s1)))) s1)
      | MapContainsKey \<Rightarrow>
          pop1 s (\<lambda>k s1. pop_i64 s1 (\<lambda>h s2.
            advance_with (I64 (i64_of_bool (map_contains_key fl h k (heap_of s2)))) s2))
      | MapRemove \<Rightarrow>
          pop1 s (\<lambda>k s1. pop_i64 s1 (\<lambda>h s2.
            let (r, hp) = map_remove fl h k (heap_of s2)
            in case r of
                 Some v \<Rightarrow> advance_with v (s2\<lparr>heap_of := hp\<rparr>)
               | None \<Rightarrow>
                   panic_with_message (bytes_of ''map remove key not found: '' @ key_text fl k) s2))
      | MapKeys \<Rightarrow> pop_i64 s (\<lambda>h s1. advance_heap I64 (map_keys h (heap_of s1)) s1)
      | MapMerge \<Rightarrow>
          pop_i64 s (\<lambda>src s1. pop_i64 s1 (\<lambda>dest s2.
            advance_heap I64 (map_merge fl dest src (heap_of s2)) s2)))"

section \<open>Optionals\<close>

definition exec_opt :: "opt_op \<Rightarrow> 'w vm \<Rightarrow> 'w outcome" where
  "exec_opt oop s =
     (case oop of
        OptSome \<Rightarrow> pop1 s (\<lambda>v s1. advance_heap I64 (opt_some v (heap_of s1)) s1)
      | OptNone \<Rightarrow> advance_heap I64 (opt_none (heap_of s)) s
      | OptIsSome \<Rightarrow> pop_i64 s (\<lambda>h s1. advance_with (I64 (i64_of_bool (opt_is_some h (heap_of s1)))) s1)
      | OptUnwrap \<Rightarrow> pop_i64 s (\<lambda>h s1. advance_with (opt_unwrap h (heap_of s1)) s1)
      | OptOrElse \<Rightarrow>
          pop1 s (\<lambda>d s1. pop_i64 s1 (\<lambda>h s2. advance_with (opt_or_else h d (heap_of s2)) s2)))"

section \<open>Structs\<close>

definition exec_struct :: "'w env \<Rightarrow> program \<Rightarrow> struct_op \<Rightarrow> 'w vm \<Rightarrow> 'w outcome" where
  "exec_struct env p sop s =
     (case sop of
        StructNew \<Rightarrow>
          pop_i64 s (\<lambda>n s1. pop_name p s1 (\<lambda>t s2.
            if capacity_overflow (as_usize n) then Crash Capacity_Overflow
            else advance_heap I64 (struct_new t (as_usize n) (heap_of s2)) s2))
      | StructSet \<Rightarrow>
          pop_name p s (\<lambda>f s1. pop1 s1 (\<lambda>v s2. pop_i64 s2 (\<lambda>i s3. pop_i64 s3 (\<lambda>h s4.
            advance_with (I64 0) (s4\<lparr>heap_of := struct_set h (as_usize i) v f (heap_of s4)\<rparr>)))))
      | StructGet \<Rightarrow>
          pop_i64 s (\<lambda>i s1. pop_i64 s1 (\<lambda>h s2.
            advance_with (struct_get h (as_usize i) (heap_of s2)) s2))
      | StructGetNamed \<Rightarrow>
          pop_name p s (\<lambda>f s1. pop_i64 s1 (\<lambda>h s2.
            case struct_get_named (std env) h f (heap_of s2) of
              None \<Rightarrow> Hang
            | Some r \<Rightarrow> advance_heap (\<lambda>v. v) r s2))
      | StructSetNamed \<Rightarrow>
          pop1 s (\<lambda>v s1. pop_name p s1 (\<lambda>f s2. pop_i64 s2 (\<lambda>h s3.
            advance_with (I64 0) (s3\<lparr>heap_of := struct_set_named h f v (heap_of s3)\<rparr>))))
      | StructCopy \<Rightarrow>
          pop_i64 s (\<lambda>src s1. pop_i64 s1 (\<lambda>dest s2.
            advance_with (I64 0) (s2\<lparr>heap_of := struct_copy dest src (heap_of s2)\<rparr>)))
      | StructTypeName \<Rightarrow> pop_i64 s (\<lambda>h s1. advance_with (Str (struct_type_name h (heap_of s1))) s1)
      | StructFieldCount \<Rightarrow>
          pop_i64 s (\<lambda>h s1. advance_with (I64 (of_nat (struct_field_count h (heap_of s1)))) s1))"

section \<open>Enums\<close>

definition exec_enum :: "program \<Rightarrow> enum_op \<Rightarrow> 'w vm \<Rightarrow> 'w outcome" where
  "exec_enum p eop s =
     (case eop of
        EnumNew \<Rightarrow>
          pop_i64 s (\<lambda>n s1. pop_i64 s1 (\<lambda>t s2. pop_name p s2 (\<lambda>vn s3. pop_name p s3 (\<lambda>en s4.
            if capacity_overflow (as_usize n) then Crash Capacity_Overflow
            else advance_heap I64 (enum_new en vn t (as_usize n) (heap_of s4)) s4))))
      | EnumSetPayload \<Rightarrow>
          pop1 s (\<lambda>v s1. pop_i64 s1 (\<lambda>i s2. pop_i64 s2 (\<lambda>h s3.
            advance_with (I64 0) (s3\<lparr>heap_of := enum_set_payload h (as_usize i) v (heap_of s3)\<rparr>))))
      | EnumGetPayload \<Rightarrow>
          pop_i64 s (\<lambda>i s1. pop_i64 s1 (\<lambda>h s2.
            advance_with (enum_get_payload h (as_usize i) (heap_of s2)) s2))
      | EnumGetTag \<Rightarrow> pop_i64 s (\<lambda>h s1. advance_with (I64 (enum_get_tag h (heap_of s1))) s1)
      | EnumGetVariant \<Rightarrow> pop_i64 s (\<lambda>h s1. advance_with (Str (enum_get_variant h (heap_of s1))) s1)
      | EnumTypeName \<Rightarrow> pop_i64 s (\<lambda>h s1. advance_with (Str (enum_type_name h (heap_of s1))) s1))"

section \<open>Shared cells and reference counts\<close>

definition exec_shared :: "shared_op \<Rightarrow> 'w vm \<Rightarrow> 'w outcome" where
  "exec_shared sop s =
     (case sop of
        SharedNew \<Rightarrow> advance_heap I64 (shared_new (heap_of s)) s
      | SharedStore \<Rightarrow>
          pop1 s (\<lambda>v s1. pop_i64 s1 (\<lambda>h s2.
            advance_with (I64 0) (s2\<lparr>heap_of := shared_store_val h v (heap_of s2)\<rparr>)))
      | SharedLoad \<Rightarrow> pop_i64 s (\<lambda>h s1. advance_with (shared_load_val h (heap_of s1)) s1))"

definition exec_rc :: "rc_op \<Rightarrow> 'w vm \<Rightarrow> 'w outcome" where
  "exec_rc rop s =
     (case rop of
        RcAlloc \<Rightarrow> pop1 s (\<lambda>v s1. advance_heap I64 (rc_alloc v (heap_of s1)) s1)
      | RcInc \<Rightarrow> pop_i64 s (\<lambda>h s1. advance_heap (\<lambda>_. I64 h) (rc_inc h (heap_of s1)) s1)
      | RcDec \<Rightarrow> pop_i64 s (\<lambda>h s1. advance_heap (\<lambda>_. I64 0) (rc_dec h (heap_of s1)) s1)
      | RcLoad \<Rightarrow> pop_i64 s (\<lambda>h s1. advance_with (or_else (rc_load h (heap_of s1)) (I64 0)) s1)
      | RcStore \<Rightarrow>
          pop1 s (\<lambda>v s1. pop_i64 s1 (\<lambda>h s2.
            advance_heap (\<lambda>_. I64 0) (rc_store_value h v (heap_of s2)) s2))
      | RcGetCount \<Rightarrow> pop_i64 s (\<lambda>h s1. advance_with (I64 (rc_get_count h (heap_of s1))) s1))"

section \<open>JSON\<close>

definition pop_text :: "'w vm \<Rightarrow> (rstring \<Rightarrow> 'w vm \<Rightarrow> 'w outcome) \<Rightarrow> 'w outcome" where
  "pop_text s k = pop1 s (\<lambda>v s1. case v of Str t \<Rightarrow> k t s1 | _ \<Rightarrow> fail_with 1 s1)"

definition exec_json :: "'w env \<Rightarrow> json_op \<Rightarrow> 'w vm \<Rightarrow> 'w outcome" where
  "exec_json env jop s =
     (let fl = std env;
          query = (\<lambda>f. pop_i64 s (\<lambda>h s1. advance_with (f h (heap_of s1)) s1))
      in case jop of
        JsonStringify \<Rightarrow>
          pop1 s (\<lambda>v s1.
            case json_stringify fl (heap_of s1) v of
              None \<Rightarrow> Hang
            | Some t \<Rightarrow> advance_with (Str t) s1)
      | JsonParse \<Rightarrow>
          pop1 s (\<lambda>v s1.
            advance_heap I64 (json_parse_and_store fl (value_to_text fl v) (heap_of s1)) s1)
      | StructToJson \<Rightarrow>
          pop_text s (\<lambda>m s1. pop_i64 s1 (\<lambda>h s2.
            case struct_to_json fl h m (heap_of s2) of
              Some t \<Rightarrow> advance_with (Str t) s2
            | None \<Rightarrow>
                fail_with 1 (eprintln (bytes_of
                  ''[PANIC] Cycle detected during JSON serialization of struct handle '' @
                  show_i64 h) s2)))
      | JsonToStruct \<Rightarrow>
          pop_text s (\<lambda>m s1. pop1 s1 (\<lambda>v s2.
            case v of
              Str t \<Rightarrow> advance_heap I64 (json_to_struct fl (limits env) t m (heap_of s2)) s2
            | _ \<Rightarrow> advance_with (I64 (- 1)) s2))
      | JsonGetField \<Rightarrow>
          pop_text s (\<lambda>key s1. pop_i64 s1 (\<lambda>h s2.
            advance_heap I64 (json_get_field h key (heap_of s2)) s2))
      | JsonGetIndex \<Rightarrow>
          pop1 s (\<lambda>v s1.
            case list_index fl v of
              None \<Rightarrow> fail_with 1 s1
            | Some i \<Rightarrow> pop_i64 s1 (\<lambda>h s2. advance_heap I64 (json_get_index h i (heap_of s2)) s2))
      | JsonGetString \<Rightarrow> query (\<lambda>h hp. Str (json_get_string h hp))
      | JsonGetNumber \<Rightarrow> query (\<lambda>h hp. F64 (json_get_number h hp))
      | JsonGetBool \<Rightarrow> query (\<lambda>h hp. I64 (json_get_bool h hp))
      | JsonIsNull \<Rightarrow> query (\<lambda>h hp. I64 (json_is_null h hp))
      | JsonIsObject \<Rightarrow> query (\<lambda>h hp. I64 (json_is_object h hp))
      | JsonIsArray \<Rightarrow> query (\<lambda>h hp. I64 (json_is_array h hp))
      | JsonArrayLen \<Rightarrow> query (\<lambda>h hp. I64 (json_array_len h hp))
      | JsonKeys \<Rightarrow> pop_i64 s (\<lambda>h s1. advance_heap I64 (json_keys (limits env) h (heap_of s1)) s1))"

end
