(* ===== verification/Interp_Control.thy ===== *)
theory Interp_Control
  imports Interp_Heap
begin

text \<open>
  The instructions that move the instruction pointer or the frames: jumps, calls, returns, panics
  and exceptions with their handlers, locals, and the printing instructions; the arms of these names
  in \<^verbatim>\<open>run_program_internal\<close>, with the scans of a callee's code that \<^verbatim>\<open>Call\<close> makes.
\<close>

section \<open>Scanning a function\<close>

text \<open>What the scans distinguish.\<close>

datatype scan_kind = Gets u32 | Sets u32 | Returns | Halts | Jumps u32 | Skips

definition kind_of :: "op \<Rightarrow> scan_kind" where
  "kind_of i =
     (case i of
        LocalGet ix \<Rightarrow> Gets ix | LocalSet ix \<Rightarrow> Sets ix | Jump tgt \<Rightarrow> Jumps tgt
      | OpBase b \<Rightarrow> (case b of Ret \<Rightarrow> Returns | Halt \<Rightarrow> Halts | _ \<Rightarrow> Skips)
      | _ \<Rightarrow> Skips)"

text \<open>
  \<^verbatim>\<open>scan_function_local_count\<close> looks at no more than 10001 instructions from the entry, to the first
  \<^verbatim>\<open>Ret\<close> or jump to before the entry, for the largest local; \<open>m\<close> is one more than the largest so
  far. A local from \<open>2 ^ 31\<close> on is negative as \<^verbatim>\<open>i32\<close> and never the largest.
\<close>

definition max_local :: "nat \<Rightarrow> u32 \<Rightarrow> nat" where
  "max_local m ix = (if unat ix < 2 ^ 31 then max m (unat ix + 1) else m)"

fun scan_locals :: "nat \<Rightarrow> u32 \<Rightarrow> op list \<Rightarrow> nat \<Rightarrow> nat" where
  "scan_locals fuel off [] m = m"
| "scan_locals 0 off (i # is) m = m"
| "scan_locals (Suc fuel) off (i # is) m =
     (case kind_of i of
        Gets ix \<Rightarrow> scan_locals fuel off is (max_local m ix)
      | Sets ix \<Rightarrow> scan_locals fuel off is (max_local m ix)
      | Returns \<Rightarrow> m
      | Jumps tgt \<Rightarrow> if tgt < off then m else scan_locals fuel off is m
      | _ \<Rightarrow> scan_locals fuel off is m)"

definition scan_function_local_count :: "program \<Rightarrow> u32 \<Rightarrow> nat" where
  "scan_function_local_count p off = scan_locals 10001 off (drop (unat off) (code p)) 0"

text \<open>
  \<^verbatim>\<open>find_first_local_get\<close> follows jumps, and leaves the loop only after an instruction that is not a
  jump: there is no result for code that jumps forever.
\<close>

partial_function (option) find_local_get ::
  "program \<Rightarrow> usize \<Rightarrow> usize \<Rightarrow> u32 list \<Rightarrow> u32 option option" where
  "find_local_get p start i seen =
     (if i < length (code p) then
        (case kind_of (code p ! i) of
           Sets ix \<Rightarrow> if start + 100 < i + 1 then Some None else find_local_get p start (i + 1) (ix # seen)
         | Gets ix \<Rightarrow>
             if ix \<notin> set seen then Some (Some ix)
             else if start + 100 < i + 1 then Some None else find_local_get p start (i + 1) seen
         | Returns \<Rightarrow> Some None
         | Halts \<Rightarrow> Some None
         | Jumps tgt \<Rightarrow> find_local_get p start (unat tgt) seen
         | Skips \<Rightarrow> if start + 100 < i + 1 then Some None else find_local_get p start (i + 1) seen)
      else Some None)"

definition find_first_local_get :: "program \<Rightarrow> u32 \<Rightarrow> u32 option option" where
  "find_first_local_get p off = find_local_get p (unat off) (unat off) []"

section \<open>Calls and returns\<close>

text \<open>Saving the return address, a new frame, and the jump.\<close>

definition enter :: "frame \<Rightarrow> usize \<Rightarrow> 'w vm \<Rightarrow> 'w outcome" where
  "enter locals tgt s =
     Next (s\<lparr>ret_stack := (ip s + 1) # ret_stack s, frames := locals # frames s, ip := tgt\<rparr>)"

text \<open>A function with a prologue, one that starts with \<^verbatim>\<open>LocalSet\<close>, pops its arguments itself.\<close>

definition has_prologue :: "program \<Rightarrow> usize \<Rightarrow> bool" where
  "has_prologue p tgt \<longleftrightarrow>
     tgt < length (code p) \<and> (case kind_of (code p ! tgt) of Sets _ \<Rightarrow> True | _ \<Rightarrow> False)"

definition exec_call :: "program \<Rightarrow> u32 \<Rightarrow> 'w vm \<Rightarrow> 'w outcome" where
  "exec_call p tgt s =
     (let new_frame = replicate (scan_function_local_count p tgt) None
      in if has_prologue p (unat tgt) \<or> stack s = [] then enter new_frame (unat tgt) s
         else
           (case find_first_local_get p tgt of
              None \<Rightarrow> Hang
            | Some first \<Rightarrow>
                let target = (case first of Some ix \<Rightarrow> unat ix | None \<Rightarrow> 0)
                in enter (new_frame[target := Some (hd (stack s))]) (unat tgt)
                     (s\<lparr>stack := tl (stack s)\<rparr>)))"

text \<open>In an export call the top of the stack is the value a function returns.\<close>

definition i64_result :: "vm_value option \<Rightarrow> i64 option" where
  "i64_result v = (case v of Some (I64 n) \<Rightarrow> Some n | _ \<Rightarrow> None)"

definition exec_ret :: "bool \<Rightarrow> 'w vm \<Rightarrow> 'w outcome" where
  "exec_ret is_export s =
     (let (rv, st) =
            (if is_export then (case stack s of [] \<Rightarrow> (None, []) | v # st \<Rightarrow> (Some v, st))
             else (None, stack s));
          s1 = s\<lparr>stack := st, frames := tl (frames s)\<rparr>
      in case ret_stack s of
           rip # rs \<Rightarrow>
             Next (s1\<lparr>stack := (case rv of Some v \<Rightarrow> v # st | None \<Rightarrow> st), ret_stack := rs, ip := rip\<rparr>)
         | [] \<Rightarrow> if is_export then Return (ReturnValue (i64_result rv)) s1 else Break s1)"

text \<open>
  The captured values are pushed in their order below the arguments, which keep theirs.
\<close>

definition exec_closure_call :: "u32 \<Rightarrow> 'w vm \<Rightarrow> 'w outcome" where
  "exec_closure_call num_args s =
     pop_i64 s (\<lambda>h s1.
       case closure_get_func_id h (heap_of s1) of
         None \<Rightarrow> fail_with 1 s1
       | Some f \<Rightarrow>
           let n = unat num_args; st = stack s1
           in if length st < n then fail_with 1 s1
              else enter [] (unat f)
                (s1\<lparr>stack := take n st @ rev (closure_get_captures h (heap_of s1)) @ drop n st\<rparr>))"

text \<open>\<^verbatim>\<open>RcDecWithDeinit\<close> calls the deinitializer with the value of a cell that it frees.\<close>

definition exec_rc_dec_with_deinit :: "u32 \<Rightarrow> 'w vm \<Rightarrow> 'w outcome" where
  "exec_rc_dec_with_deinit func_offset s =
     pop_i64 s (\<lambda>h s1.
       let (r, hp) = rc_dec h (heap_of s1)
       in case r of
            Some v \<Rightarrow> enter [] (unat func_offset) (s1\<lparr>heap_of := hp, stack := v # stack s1\<rparr>)
          | None \<Rightarrow> advance_with (I64 0) (s1\<lparr>heap_of := hp\<rparr>))"

section \<open>Calls by name\<close>

text \<open>
  The linked symbols: an exact match, else the first name in the table that ends with a dot and the
  name.
\<close>

definition lookup_symbol :: "'w env \<Rightarrow> rstring \<Rightarrow> u32 option" where
  "lookup_symbol env n =
     (case linked_symbols env of
        None \<Rightarrow> None
      | Some table \<Rightarrow>
          (case map_of table n of
             Some off \<Rightarrow> Some off
           | None \<Rightarrow>
               map_option snd (find (\<lambda>(sym, _). str_ends_with sym (0x2E # n) \<or> sym = n) table)))"

text \<open>Operands of the built-in string methods: anything of another type has a default.\<close>

definition pop_any :: "'w vm \<Rightarrow> (vm_value option \<Rightarrow> 'w vm \<Rightarrow> 'w outcome) \<Rightarrow> 'w outcome" where
  "pop_any s k = (case stack s of [] \<Rightarrow> k None s | v # st \<Rightarrow> k (Some v) (s\<lparr>stack := st\<rparr>))"

definition str_or_empty :: "vm_value option \<Rightarrow> rstring" where
  "str_or_empty v = (case v of Some (Str t) \<Rightarrow> t | _ \<Rightarrow> [])"

definition index_or_0 :: "rust_std \<Rightarrow> vm_value option \<Rightarrow> usize" where
  "index_or_0 fl v =
     (case v of Some (I64 i) \<Rightarrow> as_usize i | Some (F64 f) \<Rightarrow> f_to_usize fl f | _ \<Rightarrow> 0)"

text \<open>\<^verbatim>\<open>s.charAt\<close> looks for the string in local 1 when the stack has none.\<close>

definition str_or_local_1 :: "'w vm \<Rightarrow> vm_value option \<Rightarrow> rstring" where
  "str_or_local_1 s v =
     (case v of
        Some (Str t) \<Rightarrow> t
      | _ \<Rightarrow>
          (case frames s of
             f # _ \<Rightarrow> if 1 < length f then str_or_empty (f ! 1) else []
           | [] \<Rightarrow> []))"

text \<open>\<^verbatim>\<open>s.substring\<close> swaps its bounds when they are in the wrong order.\<close>

definition substring_swapped :: "rstring \<Rightarrow> usize \<Rightarrow> usize \<Rightarrow> rstring" where
  "substring_swapped t a b =
     (let cs = char_bytes t; a' = min a (length cs); b' = min b (length cs)
      in if a' \<le> b' then concat (take (b' - a') (drop a' cs))
         else concat (take (a' - b') (drop b' cs)))"

definition json_encode :: "rust_std \<Rightarrow> heap \<Rightarrow> vm_value option \<Rightarrow> rstring" where
  "json_encode fl hp v =
     (case v of
        Some (I64 h) \<Rightarrow>
          (case json_store hp h of Some j \<Rightarrow> json_stringify_jsonval fl j | None \<Rightarrow> show_i64 h)
      | Some v' \<Rightarrow> json_stringify_value fl v'
      | None \<Rightarrow> bytes_of ''null'')"

definition exec_call_symbol :: "'w env \<Rightarrow> program \<Rightarrow> u32 \<Rightarrow> 'w vm \<Rightarrow> 'w outcome" where
  "exec_call_symbol env p ix s =
     (let fl = std env;
          with2 = (\<lambda>f. pop_any s (\<lambda>u s1. pop_any s1 (\<lambda>t.
                     advance_with (f (str_or_empty t) (str_or_empty u)))))
      in if length (strings p) \<le> unat ix then
           panic_with_message (bytes_of ''CallSymbol: invalid symbol string index '' @
             bytes_of (show_nat (unat ix))) s
         else
           let n = strings p ! unat ix
           in if n = bytes_of ''s.charAt'' then
                pop_any s (\<lambda>i s1. pop_any s1 (\<lambda>t s2.
                  let cs = char_bytes (str_or_local_1 s2 t); k = index_or_0 fl i
                  in advance_with (Str (if k < length cs then cs ! k else [])) s2))
              else if n = bytes_of ''s.length'' then
                pop_any s (\<lambda>t. advance_with (I64 (of_nat (length (char_bytes (str_or_empty t))))))
              else if n = bytes_of ''Json.decode'' then
                pop_any s (\<lambda>t s1.
                  advance_heap I64
                    (json_parse_and_store fl (case t of Some (Str j) \<Rightarrow> j | _ \<Rightarrow> bytes_of ''{}'') (heap_of s1))
                    s1)
              else if n = bytes_of ''Json.encode'' then
                pop_any s (\<lambda>v s1. advance_with (Str (json_encode fl (heap_of s1) v)) s1)
              else if n = bytes_of ''s.indexOf'' then with2 (\<lambda>t u. I64 (i64_of_index (str_find t u)))
              else if n = bytes_of ''s.substring'' then
                pop_any s (\<lambda>b s1. pop_any s1 (\<lambda>a s2. pop_any s2 (\<lambda>t.
                  advance_with
                    (Str (substring_swapped (str_or_empty t) (index_or_0 fl a) (index_or_0 fl b))))))
              else if n = bytes_of ''s.includes'' then with2 (\<lambda>t u. I64 (i64_of_bool (str_contains t u)))
              else if n = bytes_of ''s.startsWith'' then
                with2 (\<lambda>t u. I64 (i64_of_bool (str_starts_with t u)))
              else if n = bytes_of ''s.endsWith'' then
                with2 (\<lambda>t u. I64 (i64_of_bool (str_ends_with t u)))
              else
                (case lookup_symbol env n of
                   Some off \<Rightarrow> enter [] (unat off) s
                 | None \<Rightarrow>
                     panic_with_message (bytes_of ''CallSymbol: undefined symbol '' @ [0x27] @ n @
                       [0x27] @ bytes_of '' - ensure the library is linked'') s))"

section \<open>Panics and exceptions\<close>

text \<open>
  Unwinding to a handler: frames and return addresses above its depth are dropped, and the loop goes
  on at its address.
\<close>

definition unwind_to :: "unwind_handler \<Rightarrow> 'w vm \<Rightarrow> 'w outcome" where
  "unwind_to h s =
     (let n = length (frames s) - frame_depth h
      in Next (s\<lparr>frames := drop n (frames s), ret_stack := drop n (ret_stack s),
                ip := unat (handler_ip h)\<rparr>))"

definition exec_panic :: "program \<Rightarrow> u32 \<Rightarrow> 'w vm \<Rightarrow> 'w outcome" where
  "exec_panic p msg s =
     (let m = (if unat msg < length (strings p) then strings p ! unat msg else bytes_of ''panic'');
          s1 = set_panic m s
      in case handlers s1 of
           h # hs \<Rightarrow> unwind_to h (s1\<lparr>handlers := hs\<rparr>)
         | [] \<Rightarrow> fail_with 2 s1)"

definition exec_throw :: "'w vm \<Rightarrow> 'w outcome" where
  "exec_throw s =
     pop1 s (\<lambda>v s1.
       let e = (case v of I64 h \<Rightarrow> h | _ \<Rightarrow> 0);
           s2 = s1\<lparr>exception_of := \<lparr>has_exception = True, exception_value = e\<rparr>\<rparr>
       in case handlers s2 of
            h # hs \<Rightarrow> unwind_to h (s2\<lparr>handlers := hs\<rparr>)
          | [] \<Rightarrow> fail_with 3 (eprintln (bytes_of ''uncaught exception'') s2))"

definition exec_unwind :: "unwind_op \<Rightarrow> 'w vm \<Rightarrow> 'w outcome" where
  "exec_unwind uop s =
     (case uop of
        ClearUnwindHandler \<Rightarrow> advance (s\<lparr>handlers := tl (handlers s)\<rparr>)
      | GetPanicMessage \<Rightarrow>
          advance_with (Str (if is_panicking (panic_of s) then panic_message (panic_of s) else [])) s
      | Throw \<Rightarrow> exec_throw s
      | GetException \<Rightarrow>
          advance_with (I64 (exception_value (exception_of s)))
            (s\<lparr>exception_of := \<lparr>has_exception = False, exception_value = 0\<rparr>\<rparr>))"

section \<open>Locals\<close>

text \<open>Both arms unwrap the innermost frame; reading a local that is not set gives 0.\<close>

definition exec_local_get :: "u32 \<Rightarrow> 'w vm \<Rightarrow> 'w outcome" where
  "exec_local_get ix s =
     (case frames s of
        [] \<Rightarrow> Crash Frame_Unwrap
      | locals # _ \<Rightarrow>
          advance_with (if unat ix < length locals then or_else (locals ! unat ix) (I64 0) else I64 0) s)"

definition resize :: "nat \<Rightarrow> frame \<Rightarrow> frame" where
  "resize n f = f @ replicate (n - length f) None"

definition exec_local_set :: "u32 \<Rightarrow> 'w vm \<Rightarrow> 'w outcome" where
  "exec_local_set ix s =
     (case frames s of
        [] \<Rightarrow> Crash Frame_Unwrap
      | locals # fs \<Rightarrow>
          pop_or_0 s (\<lambda>v s1.
            advance (s1\<lparr>frames := (resize (unat ix + 1) locals)[unat ix := Some v] # fs\<rparr>)))"

section \<open>Printing\<close>

definition print_value :: "rust_std \<Rightarrow> vm_value option \<Rightarrow> rstring" where
  "print_value fl v = (case v of Some v' \<Rightarrow> value_to_string fl v' | None \<Rightarrow> [])"

definition exec_base :: "rust_std \<Rightarrow> bool \<Rightarrow> base_op \<Rightarrow> 'w vm \<Rightarrow> 'w outcome" where
  "exec_base fl is_export b s =
     (case b of
        PrintLn \<Rightarrow> advance (eprintln [] s)
      | Halt \<Rightarrow> Break s
      | Ret \<Rightarrow> exec_ret is_export s
      | Pop \<Rightarrow> advance (s\<lparr>stack := tl (stack s)\<rparr>)
      | PrintTop \<Rightarrow>
          pop_any s (\<lambda>v s1. advance (if v = None then s1 else eprintln (print_value fl v) s1)))"

section \<open>One instruction\<close>

text \<open>
  The instruction at the instruction pointer. \<^verbatim>\<open>Call\<close> is the arm without the \<^verbatim>\<open>jit\<close> feature. The
  instructions of the subsystems that are not modelled, and \<^verbatim>\<open>TaskRunBody\<close>, are those of \<open>other_op\<close>.
\<close>

definition exec_op :: "'w env \<Rightarrow> bool \<Rightarrow> program \<Rightarrow> op \<Rightarrow> 'w vm \<Rightarrow> 'w outcome" where
  "exec_op env is_export p i s =
     (case i of
        Print ix \<Rightarrow>
          advance (if unat ix < length (strings p) then eprintln (strings p ! unat ix) s else s)
      | PrintStrVal ix \<Rightarrow>
          pop_any s (\<lambda>v s1.
            advance (eprintln (pool_string p (unat ix) @ print_value (std env) v) s1))
      | PrintRaw ix \<Rightarrow>
          advance (if unat ix < length (strings p) then eprint (strings p ! unat ix) s else s)
      | PrintRawStrVal ix \<Rightarrow>
          pop_any s (\<lambda>v s1.
            advance (eprint (pool_string p (unat ix) @ print_value (std env) v) s1))
      | PushStr ix \<Rightarrow> advance_with (Str (pool_string p (unat ix))) s
      | PushI64 n \<Rightarrow> advance_with (I64 n) s
      | PushF64 x \<Rightarrow> advance_with (F64 x) s
      | PushBool b \<Rightarrow> advance_with (Bool (b \<noteq> 0)) s
      | Jump tgt \<Rightarrow> Next (s\<lparr>ip := unat tgt\<rparr>)
      | JumpIfFalse tgt \<Rightarrow>
          pop1 s (\<lambda>v s1.
            case v of
              Bool c \<Rightarrow> if c then advance s1 else Next (s1\<lparr>ip := unat tgt\<rparr>)
            | _ \<Rightarrow> fail_with 1 s1)
      | Call tgt \<Rightarrow> exec_call p tgt s
      | CallSymbol ix \<Rightarrow> exec_call_symbol env p ix s
      | LocalGet ix \<Rightarrow> exec_local_get ix s
      | LocalSet ix \<Rightarrow> exec_local_set ix s
      | SharedGetByName ix \<Rightarrow>
          advance_heap I64 (shared_get_by_name (pool_string p (unat ix)) (heap_of s)) s
      | ClosureNew f n \<Rightarrow> advance_heap I64 (closure_new f n (heap_of s)) s
      | ClosureCapture \<Rightarrow>
          pop_i64 s (\<lambda>h s1. pop1 s1 (\<lambda>v s2.
            advance_with (I64 0) (s2\<lparr>heap_of := closure_capture h v (heap_of s2)\<rparr>)))
      | ClosureCall n \<Rightarrow> exec_closure_call n s
      | RcDecWithDeinit f \<Rightarrow> exec_rc_dec_with_deinit f s
      | RegionEnter r \<Rightarrow> advance_with (I64 0) (s\<lparr>heap_of := region_enter r (heap_of s)\<rparr>)
      | RegionExit r \<Rightarrow> advance_heap (\<lambda>_. I64 0) (region_exit r (heap_of s)) s
      | Panic msg \<Rightarrow> exec_panic p msg s
      | SetUnwindHandler h \<Rightarrow>
          advance (s\<lparr>handlers := \<lparr>handler_ip = h, frame_depth = length (frames s)\<rparr> # handlers s\<rparr>)
      | OpBase b \<Rightarrow> exec_base (std env) is_export b s
      | OpArith b \<Rightarrow> exec_arith (std env) b s
      | OpConv b \<Rightarrow> exec_conv (std env) b s
      | OpFloat b \<Rightarrow> exec_float (std env) b s
      | OpList b \<Rightarrow> exec_list env b s
      | OpMap b \<Rightarrow> exec_map env b s
      | OpStr b \<Rightarrow> exec_str env p b s
      | OpOpt b \<Rightarrow> exec_opt b s
      | OpStruct b \<Rightarrow> exec_struct env p b s
      | OpEnum b \<Rightarrow> exec_enum p b s
      | OpJson b \<Rightarrow> exec_json env b s
      | OpShared b \<Rightarrow> exec_shared b s
      | OpRc b \<Rightarrow> exec_rc b s
      | OpUnwind b \<Rightarrow> exec_unwind b s
      | _ \<Rightarrow> other_op env i p s)"

end
