(* ===== verification/Interp.thy ===== *)
theory Interp
  imports Interp_Control
begin

text \<open>
  The main loop of the interpreter with its budgets, \<^verbatim>\<open>run_program\<close> and the entry points for calling
  an export directly, \<^verbatim>\<open>interpreter.inc.rs\<close>; then the invariants of a run.
\<close>

section \<open>The loop\<close>

text \<open>How a run ends: with a result and the final state, by a panic of the Rust code, or never.\<close>

datatype ('r, 'w) run = Finished 'r "'w vm" | Crashed crash | Hung

text \<open>The value left on the stack, in an export call, or exit code 0.\<close>

definition finish :: "bool \<Rightarrow> 'w vm \<Rightarrow> (interpreter_result, 'w) run" where
  "finish is_export s =
     Finished
       (if is_export then ReturnValue (i64_result (case stack s of [] \<Rightarrow> None | v # _ \<Rightarrow> Some v))
        else ExitCode 0) s"

text \<open>
  The stack and call depths are checked before every instruction; \<open>call_depth\<close> is
  \<^verbatim>\<open>frames.len().saturating_sub(1)\<close>.
\<close>

definition within_limits :: "'w env \<Rightarrow> 'w vm \<Rightarrow> bool" where
  "within_limits env s \<longleftrightarrow>
     length (stack s) \<le> max_stack_depth env \<and> length (frames s) - 1 \<le> max_call_depth env"

text \<open>\<open>run_loop\<close> takes the number of instructions that may still be executed.\<close>

fun run_loop ::
  "'w env \<Rightarrow> bool \<Rightarrow> program \<Rightarrow> nat \<Rightarrow> 'w vm \<Rightarrow> (interpreter_result, 'w) run" where
  "run_loop env is_export p 0 s =
     (if ip s < length (code p) then Finished (Failed 1) s else finish is_export s)"
| "run_loop env is_export p (Suc n) s =
     (if \<not> ip s < length (code p) then finish is_export s
      else if \<not> within_limits env s then Finished (Failed 1) s
      else case exec_op env is_export p (code p ! ip s) s of
             Next s' \<Rightarrow> run_loop env is_export p n s'
           | Break s' \<Rightarrow> finish is_export s'
           | Return r s' \<Rightarrow> Finished r s'
           | Crash c \<Rightarrow> Crashed c
           | Hang \<Rightarrow> Hung)"

section \<open>Entry points\<close>

text \<open>
  A run starts with fresh locals in the process-wide state an earlier run left: \<open>g\<close>.
\<close>

definition start_vm :: "usize \<Rightarrow> 'w vm \<Rightarrow> 'w vm" where
  "start_vm start g = g\<lparr>ip := start, stack := [], frames := [[]], ret_stack := []\<rparr>"

fun place_args :: "nat \<Rightarrow> rstring list \<Rightarrow> frame \<Rightarrow> frame" where
  "place_args i [] f = f"
| "place_args i (a # as) f = place_args (i + 1) as (f[i := Some (Str a)])"

text \<open>
  The arguments of an export call are pushed, the first on top, for a function with a prologue, and
  otherwise placed in the locals from the first one it reads; those that do not fit are dropped. The
  scan is made in both cases.
\<close>

definition run_program_internal ::
  "'w env \<Rightarrow> (usize \<times> rstring list) option \<Rightarrow> program \<Rightarrow> 'w vm \<Rightarrow> (interpreter_result, 'w) run" where
  "run_program_internal env cfg p g =
     (case cfg of
        None \<Rightarrow> run_loop env False p (max_steps env) (start_vm 0 g)
      | Some (start, args) \<Rightarrow>
          let s = start_vm start g
          in if args = [] then run_loop env True p (max_steps env) s
             else
               let locals = replicate (scan_function_local_count p (of_nat start)) None
               in case find_first_local_get p (of_nat start) of
                    None \<Rightarrow> Hung
                  | Some first \<Rightarrow>
                      run_loop env True p (max_steps env)
                        (if has_prologue p start then s\<lparr>stack := map Str args, frames := [locals]\<rparr>
                         else s\<lparr>frames :=
                           [place_args (case first of Some ix \<Rightarrow> unat ix | None \<Rightarrow> 0) args locals]\<rparr>))"

definition run_program :: "'w env \<Rightarrow> program \<Rightarrow> 'w vm \<Rightarrow> (int, 'w) run" where
  "run_program env p g =
     (case run_program_internal env None p g of
        Finished r s \<Rightarrow>
          Finished (case r of ExitCode c \<Rightarrow> c | Failed c \<Rightarrow> c | ReturnValue _ \<Rightarrow> 0) s
      | Crashed c \<Rightarrow> Crashed c
      | Hung \<Rightarrow> Hung)"

datatype call_export_result =
  Success "i64 option" | Export_Failed int | ExportNotFound | InvalidArgument rstring

definition call_export_internal ::
  "'w env \<Rightarrow> program \<Rightarrow> u32 \<Rightarrow> rstring list \<Rightarrow> 'w vm \<Rightarrow> (call_export_result, 'w) run" where
  "call_export_internal env p off args g =
     (case run_program_internal env (Some (unat off, args)) p g of
        Finished r s \<Rightarrow>
          Finished (case r of
            ReturnValue v \<Rightarrow> Success v | ExitCode _ \<Rightarrow> Success None | Failed c \<Rightarrow> Export_Failed c) s
      | Crashed c \<Rightarrow> Crashed c
      | Hung \<Rightarrow> Hung)"

definition call_export ::
  "'w env \<Rightarrow> program \<Rightarrow> u32 \<Rightarrow> u32 \<Rightarrow> rstring list \<Rightarrow> 'w vm \<Rightarrow> (call_export_result, 'w) run" where
  "call_export env p off arity args g =
     (if length (code p) \<le> unat off then Finished ExportNotFound g
      else if length args \<noteq> unat arity then
        Finished (InvalidArgument (bytes_of ''expected '' @ bytes_of (show_nat (unat arity)) @
          bytes_of '' arguments, got '' @ bytes_of (show_nat (length args)))) g
      else call_export_internal env p off args g)"

text \<open>\<^verbatim>\<open>OnceLock::set\<close> keeps the table of the first call.\<close>

definition set_linked_symbol_table :: "(rstring \<times> u32) list \<Rightarrow> 'w env \<Rightarrow> 'w env" where
  "set_linked_symbol_table table env =
     (case linked_symbols env of None \<Rightarrow> env\<lparr>linked_symbols := Some table\<rparr> | Some _ \<Rightarrow> env)"

definition call_export_with_symbols ::
  "'w env \<Rightarrow> program \<Rightarrow> u32 \<Rightarrow> u32 \<Rightarrow> rstring list \<Rightarrow> (rstring \<times> u32) list \<Rightarrow> 'w vm \<Rightarrow>
     (call_export_result, 'w) run" where
  "call_export_with_symbols env p off arity args symbols g =
     call_export (set_linked_symbol_table symbols env) p off arity args g"

section \<open>Steps\<close>

text \<open>One instruction of the loop as a relation, and any number of them.\<close>

inductive step :: "'w env \<Rightarrow> bool \<Rightarrow> program \<Rightarrow> 'w vm \<Rightarrow> 'w vm \<Rightarrow> bool" for env ex p where
  instr: "ip s < length (code p) \<Longrightarrow> within_limits env s \<Longrightarrow>
    exec_op env ex p (code p ! ip s) s = Next s' \<Longrightarrow> step env ex p s s'"

inductive steps :: "'w env \<Rightarrow> bool \<Rightarrow> program \<Rightarrow> nat \<Rightarrow> 'w vm \<Rightarrow> 'w vm \<Rightarrow> bool" for env ex p where
  none: "steps env ex p 0 s s"
| more: "step env ex p s s' \<Longrightarrow> steps env ex p n s' t \<Longrightarrow> steps env ex p (Suc n) s t"

inductive_cases step_elim: "step env ex p s s'"
inductive_simps step_iff: "step env ex p s s'"
inductive_cases steps_0: "steps env ex p 0 s t"
inductive_cases steps_Suc: "steps env ex p (Suc n) s t"

text \<open>A state after which the loop stops whatever the budget, and with what.\<close>

definition stops :: "'w env \<Rightarrow> bool \<Rightarrow> program \<Rightarrow> 'w vm \<Rightarrow> (interpreter_result, 'w) run \<Rightarrow> bool" where
  "stops env ex p s r \<longleftrightarrow>
     (if \<not> ip s < length (code p) then r = finish ex s
      else if \<not> within_limits env s then r = Finished (Failed 1) s
      else case exec_op env ex p (code p ! ip s) s of
             Next _ \<Rightarrow> False
           | Break s' \<Rightarrow> r = finish ex s'
           | Return x s' \<Rightarrow> r = Finished x s'
           | Crash c \<Rightarrow> r = Crashed c
           | Hang \<Rightarrow> r = Hung)"

lemma run_loop_step: "step env ex p s s' \<Longrightarrow> run_loop env ex p (Suc n) s = run_loop env ex p n s'"
  by (auto elim!: step_elim)

lemma run_loop_steps: "steps env ex p k s t \<Longrightarrow> run_loop env ex p (k + n) s = run_loop env ex p n t"
  by (induction k arbitrary: s) (auto elim!: steps_0 steps_Suc simp: run_loop_step simp del: run_loop.simps)

lemma run_loop_stops: "stops env ex p s r \<Longrightarrow> run_loop env ex p (Suc n) s = r"
  by (auto simp: stops_def split: if_splits outcome.splits)

lemma step_or_stops: "(\<exists>s'. step env ex p s s') \<or> (\<exists>r. stops env ex p s r)"
  by (cases "exec_op env ex p (code p ! ip s) s") (auto simp: stops_def step_iff)

text \<open>
  A run makes at most as many steps as the budget allows: either it stops on the way with its own
  result, or it is cut after exactly that many.
\<close>

lemma run_loop_cases:
  "(\<exists>k t. k < n \<and> steps env ex p k s t \<and> stops env ex p t (run_loop env ex p n s)) \<or>
   (\<exists>t. steps env ex p n s t \<and> run_loop env ex p n s = run_loop env ex p 0 t)"
proof (induction n arbitrary: s)
  case 0
  show ?case by (auto intro: steps.none)
next
  case (Suc n)
  from step_or_stops [of env ex p s] show ?case
  proof
    assume "\<exists>s'. step env ex p s s'"
    then obtain s' where s': "step env ex p s s'" ..
    from Suc.IH [of s'] s' show ?thesis
      by (fastforce simp: run_loop_step [OF s'] simp del: run_loop.simps intro: steps.more)
  next
    assume "\<exists>r. stops env ex p s r"
    then obtain r where r: "stops env ex p s r" ..
    show ?thesis
      by (rule disjI1, rule exI [of _ 0], rule exI [of _ s])
        (use r in \<open>simp add: steps.none run_loop_stops [OF r] del: run_loop.simps\<close>)
  qed
qed

end
