(* ===== verification/Samples.thy ===== *)
theory Samples
  imports Interp
begin

text \<open>
  Concrete parameters for the examples: a float record in which a float is the natural number of its
  pattern, limits, and a machine that has not run anything. The instructions outside the model fail.
\<close>

definition sample_std :: rust_std where
  "sample_std =
     \<lparr>f_add = (\<lambda>x y. x + y), f_sub = (\<lambda>x y. x - y), f_mul = (\<lambda>x y. x * y), f_div = (\<lambda>x y. x div y),
      f_rem = (\<lambda>x y. x mod y), f_pow = (\<lambda>x y. x ^ unat y), f_sqrt = (\<lambda>x. x), f_sin = (\<lambda>x. x),
      f_cos = (\<lambda>x. x), f_tan = (\<lambda>x. x), f_floor = (\<lambda>x. x), f_ceil = (\<lambda>x. x), f_round = (\<lambda>x. x),
      f_lt = (\<lambda>x y. x < y), f_eq = (\<lambda>x y. x = y), f_integral = (\<lambda>x. True), f_of_i64 = (\<lambda>n. n),
      f_to_i64 = (\<lambda>x. x), f_to_u32 = ucast, f_to_usize = unat, f_to_f32 = (\<lambda>x. x),
      f_show = (\<lambda>x. bytes_of (show_nat (unat x))), f_show1 = (\<lambda>x. bytes_of (show_nat (unat x))),
      f_parse = (\<lambda>s. if s = [] \<or> list_ex (\<lambda>d. \<not> is_digit d) s then None
                     else Some (word_of_int (digits_value s))),
      to_lowercase = (\<lambda>s. s), to_uppercase = (\<lambda>s. s)\<rparr>"

definition sample_env :: "nat \<Rightarrow> unit env" where
  "sample_env n =
     \<lparr>std = sample_std, limits = \<lparr>max_list_len = 1000000, max_map_len = 1000000\<rparr>, max_steps = n,
      max_stack_depth = 1000000, max_call_depth = 64000, linked_symbols = None,
      other_op = (\<lambda>_ _ s. Return (Failed 1) s)\<rparr>"

definition idle_vm :: "unit vm" where
  "idle_vm =
     \<lparr>ip = 0, stack = [], frames = [[]], ret_stack = [], heap_of = empty_heap,
      panic_of = \<lparr>is_panicking = False, panic_message = []\<rparr>,
      exception_of = \<lparr>has_exception = False, exception_value = 0\<rparr>, handlers = [], stderr = [],
      world = ()\<rparr>"

lemmas sample_defs = sample_env_def idle_vm_def sample_std_def

text \<open>The definitions that executing a few instructions unfolds.\<close>

lemmas exec_defs =
  exec_op_def advance_def advance_with_def advance_heap_def fail_with_def pop1_def pop2_def
  pop_i64_def pop_or_0_def pop_any_def

end
