(* ===== verification/Interp_Safety.thy ===== *)
theory Interp_Safety
  imports Samples
begin

text \<open>
  Invariants of the interpreter. An instruction that only works on data is \<open>straight\<close>: it leaves
  frames, return addresses and handlers alone and goes on with the next instruction, or it fails.
  On top of that, the frames and the return addresses stay in step (\<open>balanced\<close>) through calls,
  returns and unwinding, so that the \<^verbatim>\<open>unwrap\<close> of the innermost frame never panics.
\<close>

section \<open>Straight-line instructions\<close>

named_theorems straight_intros

definition same_control :: "'w vm \<Rightarrow> 'w vm \<Rightarrow> bool" where
  "same_control s t \<longleftrightarrow>
     ip t = ip s \<and> frames t = frames s \<and> ret_stack t = ret_stack s \<and> handlers t = handlers s"

definition straight :: "'w vm \<Rightarrow> 'w outcome \<Rightarrow> bool" where
  "straight s r \<longleftrightarrow>
     (case r of
        Next t \<Rightarrow> ip t = ip s + 1 \<and> frames t = frames s \<and> ret_stack t = ret_stack s \<and>
                  handlers t = handlers s
      | Break t \<Rightarrow> False
      | Return x t \<Rightarrow> x = Failed 1 \<or> x = Failed 2
      | Crash c \<Rightarrow> c = Slice_Range \<or> c = Capacity_Overflow
      | Hang \<Rightarrow> True)"

lemma same_control_refl [straight_intros]: "same_control s s"
  by (simp add: same_control_def)

lemma same_control_stack [simp]: "same_control s (t\<lparr>stack := st\<rparr>) \<longleftrightarrow> same_control s t"
  by (simp add: same_control_def)

lemma same_control_heap [simp]: "same_control s (t\<lparr>heap_of := hp\<rparr>) \<longleftrightarrow> same_control s t"
  by (simp add: same_control_def)

lemma same_control_exception [simp]: "same_control s (t\<lparr>exception_of := e\<rparr>) \<longleftrightarrow> same_control s t"
  by (simp add: same_control_def)

lemma same_control_eprint [simp]: "same_control s (eprint x t) \<longleftrightarrow> same_control s t"
  by (simp add: same_control_def eprint_def)

lemma same_control_eprintln [simp]: "same_control s (eprintln x t) \<longleftrightarrow> same_control s t"
  by (simp add: eprintln_def)

lemma straight_advance [straight_intros]: "same_control s t \<Longrightarrow> straight s (advance t)"
  by (simp add: straight_def advance_def same_control_def)

lemma straight_advance_with [straight_intros]: "same_control s t \<Longrightarrow> straight s (advance_with v t)"
  by (simp add: straight_def advance_with_def same_control_def)

lemma straight_advance_heap [straight_intros]: "same_control s t \<Longrightarrow> straight s (advance_heap f r t)"
  by (simp add: straight_def advance_heap_def advance_with_def same_control_def)

lemma straight_fail [straight_intros]: "straight s (fail_with 1 t)"
  by (simp add: straight_def fail_with_def)

lemma straight_panic [straight_intros]: "straight s (panic_with_message m t)"
  by (simp add: straight_def panic_with_message_def fail_with_def)

lemma straight_crash [straight_intros]:
  "straight s (Crash Slice_Range)" "straight s (Crash Capacity_Overflow)"
  by (simp_all add: straight_def)

lemma straight_hang [straight_intros]: "straight s Hang"
  by (simp add: straight_def)

lemma straight_pop1 [straight_intros]:
  assumes "same_control s t" and "\<And>v t'. same_control s t' \<Longrightarrow> straight s (k v t')"
  shows "straight s (pop1 t k)"
  using assms by (auto simp: pop1_def intro!: straight_intros split: list.split)

lemma straight_pop2 [straight_intros]:
  assumes "same_control s t" and "\<And>va vb t'. same_control s t' \<Longrightarrow> straight s (k va vb t')"
  shows "straight s (pop2 t k)"
  using assms by (auto simp: pop2_def intro!: straight_intros)

lemma straight_pop_i64 [straight_intros]:
  assumes "same_control s t" and "\<And>n t'. same_control s t' \<Longrightarrow> straight s (k n t')"
  shows "straight s (pop_i64 t k)"
  using assms by (auto simp: pop_i64_def intro!: straight_intros split: vm_value.split)

lemma straight_pop_or_0 [straight_intros]:
  assumes "same_control s t" and "\<And>v t'. same_control s t' \<Longrightarrow> straight s (k v t')"
  shows "straight s (pop_or_0 t k)"
  using assms by (auto simp: pop_or_0_def split: list.split)

lemma straight_pop_str [straight_intros]:
  assumes "same_control s t" and "\<And>x t'. same_control s t' \<Longrightarrow> straight s (k x t')"
  shows "straight s (pop_str p t k)"
  using assms by (auto simp: pop_str_def intro!: straight_intros split: vm_value.split)

lemma straight_pop_name [straight_intros]:
  assumes "same_control s t" and "\<And>x t'. same_control s t' \<Longrightarrow> straight s (k x t')"
  shows "straight s (pop_name p t k)"
  using assms by (auto simp: pop_name_def split: list.split)

lemma straight_pop_text [straight_intros]:
  assumes "same_control s t" and "\<And>x t'. same_control s t' \<Longrightarrow> straight s (k x t')"
  shows "straight s (pop_text t k)"
  using assms by (auto simp: pop_text_def intro!: straight_intros split: vm_value.split)

lemma straight_pop_any [straight_intros]:
  assumes "same_control s t" and "\<And>x t'. same_control s t' \<Longrightarrow> straight s (k x t')"
  shows "straight s (pop_any t k)"
  using assms by (auto simp: pop_any_def split: list.split)

lemma straight_arith: "straight s (exec_arith fl a s)"
  by (cases a) (auto simp: exec_arith_def intro!: straight_intros split: option.splits)

lemma straight_conv: "straight s (exec_conv fl c s)"
  by (auto simp: exec_conv_def intro!: straight_intros)

lemma straight_float: "straight s (exec_float fl f s)"
  by (cases f) (auto simp: exec_float_def intro!: straight_intros split: vm_value.splits)

lemma straight_list: "straight s (exec_list env l s)"
  by (cases l) (auto simp: exec_list_def intro!: straight_intros split: option.splits prod.splits)

lemma straight_map: "straight s (exec_map env m s)"
  by (cases m) (auto simp: exec_map_def Let_def intro!: straight_intros split: option.splits prod.splits)

lemma straight_str: "straight s (exec_str env p x s)"
  by (cases x) (auto simp: exec_str_def Let_def intro!: straight_intros
      split: option.splits prod.splits vm_value.splits)

lemma straight_opt: "straight s (exec_opt x s)"
  by (cases x) (auto simp: exec_opt_def intro!: straight_intros)

lemma straight_struct: "straight s (exec_struct env p x s)"
  by (cases x) (auto simp: exec_struct_def intro!: straight_intros split: option.splits)

lemma straight_enum: "straight s (exec_enum p x s)"
  by (cases x) (auto simp: exec_enum_def intro!: straight_intros)

lemma straight_json: "straight s (exec_json env x s)"
  by (cases x) (auto simp: exec_json_def Let_def intro!: straight_intros
      split: option.splits vm_value.splits)

lemma straight_shared: "straight s (exec_shared x s)"
  by (cases x) (auto simp: exec_shared_def intro!: straight_intros)

lemma straight_rc: "straight s (exec_rc x s)"
  by (cases x) (auto simp: exec_rc_def intro!: straight_intros)

lemmas straight_data =
  straight_arith straight_conv straight_float straight_list straight_map straight_str straight_opt
  straight_struct straight_enum straight_json straight_shared straight_rc

section \<open>Frames and return addresses\<close>

definition balanced :: "'w vm \<Rightarrow> bool" where
  "balanced s \<longleftrightarrow>
     length (frames s) = Suc (length (ret_stack s)) \<and> list_all (\<lambda>h. 0 < frame_depth h) (handlers s)"

text \<open>What an outcome may be in a run that keeps the invariant.\<close>

definition balanced_outcome :: "'w outcome \<Rightarrow> bool" where
  "balanced_outcome r \<longleftrightarrow>
     (case r of Next t \<Rightarrow> balanced t | Crash c \<Rightarrow> c \<noteq> Frame_Unwrap | _ \<Rightarrow> True)"

lemma straight_balanced: "straight s r \<Longrightarrow> balanced s \<Longrightarrow> balanced_outcome r"
  by (cases r) (auto simp: straight_def balanced_outcome_def balanced_def)

lemma balanced_outcome_simps [simp]:
  "balanced_outcome (Next t) = balanced t" "balanced_outcome (Break t)"
  "balanced_outcome (Return x t)" "balanced_outcome Hang"
  "balanced_outcome (fail_with c t)" "balanced_outcome (panic_with_message m t)"
  by (simp_all add: balanced_outcome_def fail_with_def panic_with_message_def)

lemma balanced_updates [simp]:
  "balanced (s\<lparr>ip := a\<rparr>) = balanced s" "balanced (s\<lparr>stack := b\<rparr>) = balanced s"
  "balanced (s\<lparr>heap_of := c\<rparr>) = balanced s" "balanced (s\<lparr>exception_of := d\<rparr>) = balanced s"
  "balanced (set_panic m s) = balanced s" "balanced (eprint m s) = balanced s"
  "balanced (eprintln m s) = balanced s"
  by (simp_all add: balanced_def set_panic_def eprint_def eprintln_def)

lemma balanced_advance [simp]:
  "balanced_outcome (advance s) = balanced s" "balanced_outcome (advance_with v s) = balanced s"
  "balanced_outcome (advance_heap f r s) = balanced s"
  by (simp_all add: advance_def advance_with_def advance_heap_def balanced_def)

lemma balanced_enter [simp]: "balanced s \<Longrightarrow> balanced_outcome (enter f tgt s)"
  by (simp add: enter_def balanced_def)

lemma balanced_unwind:
  assumes "balanced s" and "handlers s = h # hs"
  shows "balanced_outcome (unwind_to h (s\<lparr>handlers := hs\<rparr>))"
  using assms by (auto simp: balanced_def unwind_to_def Let_def)

lemma balanced_call: "balanced s \<Longrightarrow> balanced_outcome (exec_call p tgt s)"
  by (auto simp: exec_call_def Let_def split: option.split)

lemma balanced_ret: "balanced s \<Longrightarrow> balanced_outcome (exec_ret ex s)"
  by (auto simp: exec_ret_def Let_def balanced_def split: list.splits)

lemma balanced_closure_call: "balanced s \<Longrightarrow> balanced_outcome (exec_closure_call n s)"
  by (auto simp: exec_closure_call_def pop_i64_def pop1_def Let_def
      split: list.split vm_value.split option.split)

lemma balanced_rc_dec: "balanced s \<Longrightarrow> balanced_outcome (exec_rc_dec_with_deinit f s)"
  by (auto simp: exec_rc_dec_with_deinit_def pop_i64_def pop1_def
      split: list.split vm_value.split option.split prod.split)

lemma balanced_call_symbol: "balanced s \<Longrightarrow> balanced_outcome (exec_call_symbol env p x s)"
  by (auto simp: exec_call_symbol_def Let_def pop_any_def split: list.split option.split)

lemma balanced_panic: "balanced s \<Longrightarrow> balanced_outcome (exec_panic p m s)"
  using balanced_unwind [of "set_panic _ s"]
  by (auto simp: exec_panic_def Let_def simp del: balanced_outcome_simps(1) split: list.split)

lemma balanced_throw: "balanced s \<Longrightarrow> balanced_outcome (exec_throw s)"
  by (auto simp: exec_throw_def Let_def pop1_def intro!: balanced_unwind split: list.split)

lemma balanced_unwind_op: "balanced s \<Longrightarrow> balanced_outcome (exec_unwind u s)"
  by (cases u; cases "handlers s") (simp_all add: exec_unwind_def balanced_throw, simp_all add: balanced_def)

lemma balanced_locals:
  assumes "balanced s"
  shows "balanced_outcome (exec_local_get ix s)" and "balanced_outcome (exec_local_set ix s)"
  using assms
  by (auto simp: exec_local_get_def exec_local_set_def pop_or_0_def split: list.split)
    (auto simp: balanced_def)

lemma balanced_base: "balanced s \<Longrightarrow> balanced_outcome (exec_base fl ex b s)"
  by (cases b) (auto simp: exec_base_def balanced_ret pop_any_def split: list.split)

section \<open>The invariant of a run\<close>

text \<open>What the instructions outside the model must keep: they neither pop the last frame nor register
  a handler for no frame.\<close>

definition other_balanced :: "'w env \<Rightarrow> bool" where
  "other_balanced env \<longleftrightarrow> (\<forall>i p s. balanced s \<longrightarrow> balanced_outcome (other_op env i p s))"

lemma balanced_exec_op:
  assumes "other_balanced env" and "balanced s"
  shows "balanced_outcome (exec_op env ex p i s)"
proof -
  note data = straight_data [THEN straight_balanced, OF assms(2)]
  note other = assms(1) [unfolded other_balanced_def, rule_format, OF assms(2)]
  show ?thesis
    by (cases i)
      (use assms(2) in \<open>simp_all add: exec_op_def data other balanced_call balanced_call_symbol
        balanced_locals balanced_closure_call balanced_rc_dec balanced_panic balanced_base
        balanced_unwind_op pop_any_def pop1_def pop_i64_def split: list.split vm_value.split\<close>,
       simp_all add: balanced_def advance_def)
qed

text \<open>
  A property of states that every instruction keeps. It holds in every state a run passes through,
  and a panic of the Rust code comes from an instruction in such a state.
\<close>

locale loop_invariant =
  fixes env :: "'w env" and ex :: bool and p :: program and inv :: "'w vm \<Rightarrow> bool"
  assumes keeps: "inv s \<Longrightarrow> i \<in> set (code p) \<Longrightarrow> exec_op env ex p i s = Next s' \<Longrightarrow> inv s'"
begin

lemma inv_step: "step env ex p s s' \<Longrightarrow> inv s \<Longrightarrow> inv s'"
  by (elim step_elim) (rule keeps, auto)

lemma inv_steps: "steps env ex p n s t \<Longrightarrow> inv s \<Longrightarrow> inv t"
  by (induction n s t rule: steps.induct) (auto intro: inv_step)

lemma crash_origin:
  assumes "inv s" and "run_loop env ex p n s = Crashed c"
  shows "\<exists>t. inv t \<and> ip t < length (code p) \<and> exec_op env ex p (code p ! ip t) t = Crash c"
proof -
  from run_loop_cases [of n env ex p s] assms obtain k t
    where t: "steps env ex p k s t" "stops env ex p t (Crashed c)"
    by (auto simp: finish_def split: if_splits)
  with assms inv_steps have "inv t" by blast
  with t show ?thesis
    by (auto simp: stops_def finish_def split: if_splits outcome.splits)
qed

end

interpretation frames: loop_invariant env ex p "\<lambda>s. balanced s \<and> other_balanced env" for env ex p
proof
  show "balanced s' \<and> other_balanced env"
    if "balanced s \<and> other_balanced env" "exec_op env ex p i s = Next s'" for s i s'
    using that balanced_exec_op [of env s ex p i] by simp
qed

lemma balanced_start:
  "list_all (\<lambda>h. 0 < frame_depth h) (handlers g) \<Longrightarrow>
   balanced ((start_vm i g)\<lparr>stack := st, frames := [f]\<rparr>)"
  by (simp add: balanced_def start_vm_def)

lemma run_loop_no_frame_unwrap:
  assumes "other_balanced env" and "balanced s"
  shows "run_loop env ex p n s \<noteq> Crashed Frame_Unwrap"
proof
  assume "run_loop env ex p n s = Crashed Frame_Unwrap"
  with frames.crash_origin [OF conjI [OF assms(2,1)]] obtain t
    where "balanced t" "exec_op env ex p (code p ! ip t) t = Crash Frame_Unwrap" by blast
  with balanced_exec_op [OF assms(1), of t ex p "code p ! ip t"] show False
    by (simp add: balanced_outcome_def)
qed



section \<open>Isolation of the callers\<close>

text \<open>
  The frames and return addresses of the outermost \<open>k\<close> calls. An instruction only changes them by
  returning or unwinding into them.
\<close>

definition lastn :: "nat \<Rightarrow> 'a list \<Rightarrow> 'a list" where
  "lastn k xs = drop (length xs - k) xs"

definition same_below :: "nat \<Rightarrow> 'w vm \<Rightarrow> 'w vm \<Rightarrow> bool" where
  "same_below k s t \<longleftrightarrow>
     lastn k (ret_stack t) = lastn k (ret_stack s) \<and> lastn k (frames t) = lastn k (frames s)"

definition isolated :: "'w vm \<Rightarrow> 'w outcome \<Rightarrow> bool" where
  "isolated s r \<longleftrightarrow>
     (case r of
        Next t \<Rightarrow> \<forall>k. k \<le> length (ret_stack s) \<longrightarrow> k \<le> length (ret_stack t) \<longrightarrow> same_below k s t
      | _ \<Rightarrow> True)"

lemma lastn_Cons: "k \<le> length xs \<Longrightarrow> lastn k (x # xs) = lastn k xs"
  by (simp add: lastn_def Suc_diff_le)

lemma lastn_drop: "k \<le> length xs - n \<Longrightarrow> lastn k (drop n xs) = lastn k xs"
  by (cases "n \<le> length xs") (auto simp: lastn_def)

lemma lastn_length: "lastn (length xs) xs = xs"
  by (simp add: lastn_def)

lemma lastn_tl: "k < length xs \<Longrightarrow> lastn k (tl xs) = lastn k xs"
  by (cases xs) (simp_all add: lastn_Cons)

lemma same_below_refl: "same_below k s s"
  by (simp add: same_below_def)

lemma same_below_trans: "same_below k s t \<Longrightarrow> same_below k t u \<Longrightarrow> same_below k s u"
  by (simp add: same_below_def)

lemma isolated_simps [simp]:
  "isolated s (Break t)" "isolated s (Return x t)" "isolated s (Crash c)" "isolated s Hang"
  "isolated s (fail_with n t)" "isolated s (panic_with_message m t)"
  by (simp_all add: isolated_def fail_with_def panic_with_message_def)

text \<open>Instructions that leave frames and return addresses alone.\<close>

lemma isolated_unchanged:
  assumes "frames t = frames s" and "ret_stack t = ret_stack s"
  shows "isolated s (Next t)" and "isolated s (advance t)" and "isolated s (advance_with v t)"
    and "isolated s (advance_heap f r t)"
  using assms
  by (simp_all add: isolated_def same_below_def advance_def advance_with_def advance_heap_def)

lemma straight_isolated: "straight s r \<Longrightarrow> isolated s r"
  by (cases r) (auto simp: straight_def intro!: isolated_unchanged)

lemma isolated_enter:
  assumes "balanced s" and "frames t = frames s" and "ret_stack t = ret_stack s"
  shows "isolated s (enter f tgt t)"
  using assms by (auto simp: isolated_def same_below_def enter_def balanced_def lastn_Cons)

lemma isolated_unwind:
  assumes "balanced s" and "frames t = frames s" and "ret_stack t = ret_stack s"
  shows "isolated s (unwind_to h t)"
  using assms
  by (auto simp: isolated_def same_below_def unwind_to_def Let_def balanced_def intro!: lastn_drop)

lemma isolated_local_get: "isolated s (exec_local_get ix s)"
  by (auto simp: exec_local_get_def intro: isolated_unchanged split: list.split)

lemma isolated_local_set: "balanced s \<Longrightarrow> isolated s (exec_local_set ix s)"
  by (auto simp: exec_local_set_def pop_or_0_def isolated_def same_below_def advance_def
      balanced_def lastn_Cons split: list.split)

lemma isolated_ret:
  assumes "balanced s"
  shows "isolated s (exec_ret ex s)"
  using assms
  by (auto simp: exec_ret_def Let_def isolated_def same_below_def balanced_def lastn_Cons lastn_tl
      split: list.splits)

text \<open>What the instructions outside the model must keep.\<close>

definition other_isolated :: "'w env \<Rightarrow> bool" where
  "other_isolated env \<longleftrightarrow> (\<forall>i p s. balanced s \<longrightarrow> isolated s (other_op env i p s))"

lemma frame_fields_set_panic [simp]:
  "frames (set_panic m s) = frames s" "ret_stack (set_panic m s) = ret_stack s"
  "handlers (set_panic m s) = handlers s" "stack (set_panic m s) = stack s"
  by (simp_all add: set_panic_def)

lemma frame_fields_eprint [simp]:
  "frames (eprint m s) = frames s" "ret_stack (eprint m s) = ret_stack s"
  "frames (eprintln m s) = frames s" "ret_stack (eprintln m s) = ret_stack s"
  by (simp_all add: eprint_def eprintln_def)

lemma isolated_call: "balanced s \<Longrightarrow> isolated s (exec_call p tgt s)"
  by (auto simp: exec_call_def Let_def intro!: isolated_enter split: option.split)

lemma isolated_closure_call: "balanced s \<Longrightarrow> isolated s (exec_closure_call n s)"
  by (auto simp: exec_closure_call_def pop_i64_def pop1_def Let_def intro!: isolated_enter
      split: list.split vm_value.split option.split)

lemma isolated_rc_dec: "balanced s \<Longrightarrow> isolated s (exec_rc_dec_with_deinit f s)"
  by (auto simp: exec_rc_dec_with_deinit_def pop_i64_def pop1_def
      intro!: isolated_enter isolated_unchanged split: list.split vm_value.split option.split prod.split)

lemma isolated_pop_any:
  assumes "same_control s t" and "\<And>x t'. same_control s t' \<Longrightarrow> isolated s (k x t')"
  shows "isolated s (pop_any t k)"
  using assms by (auto simp: pop_any_def split: list.split)

lemma isolated_same_control:
  assumes "same_control s t"
  shows "isolated s (advance_with v t)" and "isolated s (advance_heap f r t)"
  using assms by (simp_all add: isolated_unchanged same_control_def)

lemma isolated_call_symbol: "balanced s \<Longrightarrow> isolated s (exec_call_symbol env p x s)"
  by (auto simp: exec_call_symbol_def Let_def intro!: isolated_enter isolated_pop_any
      isolated_same_control same_control_refl split: option.split)

lemma isolated_panic: "balanced s \<Longrightarrow> isolated s (exec_panic p m s)"
  by (auto simp: exec_panic_def Let_def intro!: isolated_unwind split: list.split)

lemma isolated_unwind_op: "balanced s \<Longrightarrow> isolated s (exec_unwind u s)"
  by (cases u) (auto simp: exec_unwind_def exec_throw_def pop1_def Let_def
      intro!: isolated_unwind isolated_unchanged split: list.split)

lemma isolated_base: "balanced s \<Longrightarrow> isolated s (exec_base fl ex b s)"
  by (cases b) (auto simp: exec_base_def isolated_ret pop_any_def intro!: isolated_unchanged
      split: list.split)

lemma isolated_exec_op:
  assumes "other_isolated env" and "balanced s"
  shows "isolated s (exec_op env ex p i s)"
proof -
  note data = straight_data [THEN straight_isolated]
  note other = assms(1) [unfolded other_isolated_def, rule_format, OF assms(2)]
  show ?thesis
    by (cases i)
      (use assms(2) in \<open>simp_all add: exec_op_def data other isolated_call isolated_call_symbol
        isolated_local_get isolated_local_set isolated_closure_call isolated_rc_dec isolated_panic
        isolated_base isolated_unwind_op isolated_unchanged pop_any_def pop1_def pop_i64_def
        split: list.split vm_value.split\<close>)
qed

end
