(* ===== verification/Interp_Calls.thy ===== *)
theory Interp_Calls
  imports Interp_Safety
begin

text \<open>
  The call protocol and unwinding: what holds of the caller when a callee returns, and of the
  function that registered a handler when an exception or panic reaches it.
\<close>

section \<open>Nested execution\<close>

text \<open>Steps that stay at a call depth of at least \<open>k\<close>.\<close>

inductive nested :: "'w env \<Rightarrow> bool \<Rightarrow> program \<Rightarrow> nat \<Rightarrow> 'w vm \<Rightarrow> 'w vm \<Rightarrow> bool" for env ex p k where
  here: "k \<le> length (ret_stack s) \<Longrightarrow> nested env ex p k s s"
| there: "k \<le> length (ret_stack s) \<Longrightarrow> step env ex p s s' \<Longrightarrow> nested env ex p k s' t \<Longrightarrow>
    nested env ex p k s t"

lemma nested_depth: "nested env ex p k s t \<Longrightarrow> k \<le> length (ret_stack s) \<and> k \<le> length (ret_stack t)"
  by (induction rule: nested.induct) auto

definition other_ok :: "'w env \<Rightarrow> bool" where
  "other_ok env \<longleftrightarrow> other_balanced env \<and> other_isolated env"

lemma step_balanced: "step env ex p s s' \<Longrightarrow> other_ok env \<Longrightarrow> balanced s \<Longrightarrow> balanced s'"
  using frames.inv_step [of env ex p s s'] by (simp add: other_ok_def)

lemma nested_same_below:
  "nested env ex p k s t \<Longrightarrow> other_ok env \<Longrightarrow> balanced s \<Longrightarrow> same_below k s t \<and> balanced t"
proof (induction rule: nested.induct)
  case (here s)
  then show ?case by (simp add: same_below_refl)
next
  case (there s s' t)
  from there.hyps(2) have "exec_op env ex p (code p ! ip s) s = Next s'" by (rule step_elim)
  with there.prems isolated_exec_op [of env s ex p "code p ! ip s"] have "isolated s (Next s')"
    by (simp add: other_ok_def)
  with there.hyps nested_depth [OF there.hyps(3)] have "same_below k s s'"
    by (simp add: isolated_def)
  with there step_balanced show ?case by (blast intro: same_below_trans)
qed

section \<open>Calls\<close>

definition is_call :: "op \<Rightarrow> bool" where
  "is_call i \<longleftrightarrow>
     (case i of Call _ \<Rightarrow> True | CallSymbol _ \<Rightarrow> True | ClosureCall _ \<Rightarrow> True
      | RcDecWithDeinit _ \<Rightarrow> True | _ \<Rightarrow> False)"

definition entered :: "'w vm \<Rightarrow> 'w outcome \<Rightarrow> bool" where
  "entered s r \<longleftrightarrow>
     (case r of
        Next t \<Rightarrow> ret_stack t = ret_stack s \<or>
          ret_stack t = (ip s + 1) # ret_stack s \<and> tl (frames t) = frames s \<and> frames t \<noteq> []
      | _ \<Rightarrow> True)"

lemma entered_simps [simp]:
  "entered s (Break t)" "entered s (Return x t)" "entered s (Crash c)" "entered s Hang"
  "entered s (fail_with n t)" "entered s (panic_with_message m t)"
  by (simp_all add: entered_def fail_with_def panic_with_message_def)

lemma entered_enter:
  "ip t = ip s \<Longrightarrow> frames t = frames s \<Longrightarrow> ret_stack t = ret_stack s \<Longrightarrow> entered s (enter f tgt t)"
  by (simp add: entered_def enter_def)

lemma entered_advance:
  "ret_stack t = ret_stack s \<Longrightarrow> entered s (advance_with v t)"
  "ret_stack t = ret_stack s \<Longrightarrow> entered s (advance_heap f r t)"
  by (simp_all add: entered_def advance_with_def advance_heap_def)

lemma entered_pop_any:
  assumes "ret_stack t = ret_stack s"
    and "\<And>x t'. ret_stack t' = ret_stack s \<Longrightarrow> entered s (k x t')"
  shows "entered s (pop_any t k)"
  using assms by (auto simp: pop_any_def split: list.split)

lemma entered_call_symbol: "entered s (exec_call_symbol env p x s)"
  by (auto simp: exec_call_symbol_def Let_def intro!: entered_enter entered_pop_any entered_advance
      split: option.split)

lemma entered_is_call: "is_call i \<Longrightarrow> entered s (exec_op env ex p i s)"
  by (cases i) (auto simp: is_call_def exec_op_def entered_call_symbol exec_call_def
      exec_closure_call_def exec_rc_dec_with_deinit_def pop_i64_def pop1_def Let_def
      intro!: entered_enter entered_advance
      split: option.split list.split vm_value.split prod.split)

lemma is_call_step:
  assumes "step env ex p s s1" and "is_call (code p ! ip s)"
    and "length (ret_stack s) < length (ret_stack s1)"
  obtains f where "ret_stack s1 = (ip s + 1) # ret_stack s" and "frames s1 = f # frames s"
proof -
  from assms(1) have "exec_op env ex p (code p ! ip s) s = Next s1" by (rule step_elim)
  with entered_is_call [OF assms(2), of s env ex p] assms(3)
  have r: "ret_stack s1 = (ip s + 1) # ret_stack s" and f: "tl (frames s1) = frames s" "frames s1 \<noteq> []"
    by (auto simp: entered_def)
  from f have "frames s1 = hd (frames s1) # frames s" by (metis list.collapse)
  with r that show thesis by blast
qed

text \<open>
  C24: a call that returns is transparent to its caller: execution goes on behind the call, with the
  frames of the caller and its callers as they were and the same return addresses, whatever the
  callee did, other calls, panics and exceptions handled inside it included.
\<close>

theorem call_returns:
  assumes "other_ok env" and "balanced s"
    and call: "step env ex p s s1" "is_call (code p ! ip s)"
      "length (ret_stack s) < length (ret_stack s1)"
    and body: "nested env ex p (length (ret_stack s1)) s1 t"
    and ret: "step env ex p t u" "code p ! ip t = OpBase Ret"
      "length (ret_stack t) = length (ret_stack s1)"
  shows "ip u = ip s + 1 \<and> frames u = frames s \<and> ret_stack u = ret_stack s"
proof -
  from call obtain f where s1: "ret_stack s1 = (ip s + 1) # ret_stack s" "frames s1 = f # frames s"
    by (rule is_call_step)
  have "balanced s1" using call(1) assms(1,2) by (rule step_balanced)
  with body assms(1) have below: "same_below (length (ret_stack s1)) s1 t" and bt: "balanced t"
    using nested_same_below by blast+
  have rt: "ret_stack t = ret_stack s1"
    using below ret(3) by (metis lastn_length same_below_def)
  have "lastn (length (frames s)) (frames t) = frames s"
    using below s1 assms(2) by (simp add: same_below_def balanced_def lastn_def)
  moreover have "length (frames t) = Suc (length (frames s))"
    using bt assms(2) rt s1 by (simp add: balanced_def)
  ultimately have ft: "tl (frames t) = frames s"
    by (cases "frames t") (simp_all add: lastn_Cons, metis lastn_length)
  from ret(1,2) have "exec_ret ex t = Next u" by (auto elim!: step_elim simp: exec_op_def exec_base_def)
  with ft rt s1 show ?thesis by (auto simp: exec_ret_def Let_def split: if_splits list.splits)
qed

section \<open>Exceptions\<close>

text \<open>
  C18: an exception thrown anywhere below a function that registered a handler brings control to that
  handler in that function's own frame: the frames and return addresses of its callers are intact,
  the handler is used up, and the exception is recorded.
\<close>

theorem throw_reaches_handler:
  assumes "other_ok env" and "balanced s"
    and reg: "step env ex p s s1" "code p ! ip s = SetUnwindHandler h"
    and body: "nested env ex p (length (ret_stack s)) s1 t" "handlers t = handlers s1"
    and throw: "step env ex p t u" "code p ! ip t = OpUnwind Throw" "stack t = I64 e # st"
  shows "ip u = unat h \<and> ret_stack u = ret_stack s \<and> length (frames u) = length (frames s) \<and>
    tl (frames u) = tl (frames s) \<and> handlers u = handlers s \<and> stack u = st \<and>
    exception_of u = \<lparr>has_exception = True, exception_value = e\<rparr>"
proof -
  let ?k = "length (ret_stack s)"
  from reg have s1: "ret_stack s1 = ret_stack s" "frames s1 = frames s"
    "handlers s1 = \<lparr>handler_ip = h, frame_depth = length (frames s)\<rparr> # handlers s"
    by (auto elim!: step_elim simp: exec_op_def advance_def)
  have "balanced s1" using reg(1) assms(1,2) by (rule step_balanced)
  with body assms(1) have below: "same_below ?k s1 t" and bt: "balanced t"
    using nested_same_below by blast+
  from assms(2) have fs: "length (frames s) = Suc ?k" by (simp add: balanced_def)
  define n where "n = length (frames t) - length (frames s)"
  have rt: "length (ret_stack t) = n + ?k" and ft: "length (frames t) = n + Suc ?k"
    using bt fs nested_depth [OF body(1)] by (auto simp: n_def balanced_def)
  from throw s1 body(2) have u: "ip u = unat h" "frames u = drop n (frames t)"
    "ret_stack u = drop n (ret_stack t)" "handlers u = handlers s" "stack u = st"
    "exception_of u = \<lparr>has_exception = True, exception_value = e\<rparr>"
    by (auto elim!: step_elim simp: exec_op_def exec_unwind_def exec_throw_def pop1_def unwind_to_def
        Let_def n_def)
  have "ret_stack u = lastn ?k (ret_stack t)" using u rt by (simp add: lastn_def)
  also have "\<dots> = ret_stack s" using below s1 by (simp add: same_below_def lastn_length)
  finally have "ret_stack u = ret_stack s" .
  moreover have "tl (frames u) = lastn ?k (frames t)"
    using u ft by (simp add: lastn_def drop_Suc tl_drop)
  then have "tl (frames u) = tl (frames s)"
    using below s1 fs by (simp add: same_below_def lastn_def drop_Suc)
  ultimately show ?thesis using u ft fs by simp
qed

section \<open>A run of both\<close>

text \<open>
  A program that calls a function with an argument, and one that throws in a callee to a handler of
  the caller.
\<close>

definition call_demo :: program where
  "call_demo = program_new [] [PushI64 7, Call 3, OpBase Halt, LocalGet 0, OpBase Ret]"

definition throw_demo :: program where
  "throw_demo =
     program_new [] [SetUnwindHandler 3, Call 4, OpBase Halt, OpUnwind GetException, PushI64 9,
       OpUnwind Throw]"

lemma scan_locals_numeral:
  "scan_locals (numeral k) off (i # is) m =
     (case kind_of i of
        Gets ix \<Rightarrow> scan_locals (pred_numeral k) off is (max_local m ix)
      | Sets ix \<Rightarrow> scan_locals (pred_numeral k) off is (max_local m ix)
      | Returns \<Rightarrow> m
      | Jumps tgt \<Rightarrow> if tgt < off then m else scan_locals (pred_numeral k) off is m
      | _ \<Rightarrow> scan_locals (pred_numeral k) off is m)"
  by (simp add: numeral_eq_Suc)

lemmas demo_defs =
  exec_defs sample_defs program_new_def call_demo_def throw_demo_def exec_base_def exec_ret_def
  exec_call_def exec_unwind_def exec_throw_def exec_local_get_def enter_def unwind_to_def
  within_limits_def has_prologue_def kind_of_def scan_function_local_count_def max_local_def
  find_first_local_get_def find_local_get.simps or_else_def
  scan_locals_numeral

lemma other_ok_sample: "other_ok (sample_env n)"
  by (simp add: other_ok_def other_balanced_def other_isolated_def sample_defs)

lemma call_returns_witness:
  "\<exists>u. step (sample_env 9) False call_demo
         (idle_vm\<lparr>ip := 4, stack := [I64 7], frames := [[Some (I64 7)], []], ret_stack := [2]\<rparr>) u \<and>
       ip u = 2 \<and> frames u = [[]] \<and> ret_stack u = []"
proof -
  let ?env = "sample_env 9" and ?p = call_demo
  define s where "s = idle_vm\<lparr>ip := 1, stack := [I64 7]\<rparr>"
  define s1 where "s1 = idle_vm\<lparr>ip := 3, frames := [[Some (I64 7)], []], ret_stack := [2]\<rparr>"
  define t where "t = s1\<lparr>ip := 4, stack := [I64 7]\<rparr>"
  define u where "u = s\<lparr>ip := 2\<rparr>"
  have call: "step ?env False ?p s s1" and ret: "step ?env False ?p t u"
    and get: "step ?env False ?p s1 t"
    by (simp_all add: step_iff s_def s1_def t_def u_def demo_defs)
  have body: "nested ?env False ?p (length (ret_stack s1)) s1 t"
    by (rule nested.there [OF _ get nested.here]) (simp_all add: t_def)
  have "balanced s" by (simp add: s_def balanced_def idle_vm_def)
  then have "ip u = ip s + 1 \<and> frames u = frames s \<and> ret_stack u = ret_stack s"
    by (rule call_returns [OF other_ok_sample _ call _ _ body ret])
      (simp_all add: s_def s1_def t_def is_call_def demo_defs)
  moreover have "t = idle_vm\<lparr>ip := 4, stack := [I64 7], frames := [[Some (I64 7)], []], ret_stack := [2]\<rparr>"
    by (simp add: t_def s1_def)
  ultimately show ?thesis using ret by (auto simp: s_def idle_vm_def)
qed

lemma throw_reaches_handler_witness:
  "\<exists>u. step (sample_env 9) False throw_demo
         (idle_vm\<lparr>ip := 5, stack := [I64 9], frames := [[], []], ret_stack := [2],
            handlers := [\<lparr>handler_ip = 3, frame_depth = 1\<rparr>]\<rparr>) u \<and>
       ip u = 3 \<and> ret_stack u = [] \<and> exception_value (exception_of u) = 9"
proof -
  let ?env = "sample_env 9" and ?p = throw_demo
  define s where "s = idle_vm"
  define s1 where "s1 = idle_vm\<lparr>ip := 1, handlers := [\<lparr>handler_ip = 3, frame_depth = 1\<rparr>]\<rparr>"
  define c where "c = s1\<lparr>ip := 4, frames := [[], []], ret_stack := [2]\<rparr>"
  define t where "t = c\<lparr>ip := 5, stack := [I64 9]\<rparr>"
  define u where "u = s\<lparr>ip := 3, exception_of := \<lparr>has_exception = True, exception_value = 9\<rparr>\<rparr>"
  have reg: "step ?env False ?p s s1" and call: "step ?env False ?p s1 c"
    and push: "step ?env False ?p c t" and throw: "step ?env False ?p t u"
    by (simp_all add: step_iff s_def s1_def c_def t_def u_def demo_defs)
  have body: "nested ?env False ?p (length (ret_stack s)) s1 t"
    by (rule nested.there [OF _ call nested.there [OF _ push nested.here]])
      (simp_all add: s_def s1_def c_def t_def idle_vm_def)
  have "balanced s" by (simp add: s_def balanced_def idle_vm_def)
  then have "ip u = unat (3 :: u32) \<and> ret_stack u = ret_stack s \<and> length (frames u) = length (frames s) \<and>
      tl (frames u) = tl (frames s) \<and> handlers u = handlers s \<and> stack u = [] \<and>
      exception_of u = \<lparr>has_exception = True, exception_value = 9\<rparr>"
    by (rule throw_reaches_handler [OF other_ok_sample _ reg _ body _ throw])
      (simp_all add: s_def s1_def c_def t_def demo_defs)
  moreover have "t = idle_vm\<lparr>ip := 5, stack := [I64 9], frames := [[], []], ret_stack := [2],
      handlers := [\<lparr>handler_ip = 3, frame_depth = 1\<rparr>]\<rparr>"
    by (simp add: t_def c_def s1_def)
  ultimately show ?thesis using throw by (auto simp: s_def idle_vm_def)
qed

end
