(* ===== verification/Interp_Results.thy ===== *)
theory Interp_Results
  imports Interp_Calls
begin

text \<open>
  What single instructions compute, and what a run amounts to: integer division and the narrowing
  conversions, the instructions that can bring the host down, the step budget and the arguments of
  export calls.
\<close>

section \<open>Integers\<close>

text \<open>
  Integer division. A zero divisor ends the run with exit code 2 and the panic message; otherwise
  the quotient is pushed, and quotient and remainder of the two instructions recompose the dividend
  in 64-bit arithmetic. The quotient is the truncated one except for the smallest integer divided by
  \<open>- 1\<close>, which wraps to itself.
\<close>

theorem div_i64:
  assumes "stack s = I64 b # I64 a # st"
  shows "exec_arith fl DivI64 s =
    (if b = 0 then
       Return (Failed 2) (set_panic (bytes_of ''division by zero'') (s\<lparr>stack := st\<rparr>))
     else Next (s\<lparr>stack := I64 (wrapping_div a b) # st, ip := ip s + 1\<rparr>)) \<and>
    wrapping_div a b * b + wrapping_rem a b = a \<and>
    (b \<noteq> 0 \<and> \<not> (sint a = - (2 ^ 63) \<and> b = - 1) \<longrightarrow>
       sint (wrapping_div a b) = sgn (sint a) * sgn (sint b) * (\<bar>sint a\<bar> div \<bar>sint b\<bar>)) \<and>
    (b = - 1 \<longrightarrow> wrapping_div a b = - a)"
proof -
  have "wrapping_div a (- 1) = - a"
    by (simp add: wrapping_div_def trunc_div_def sgn_mult_abs)
  then show ?thesis
    using assms sint_wrapping_div [of b a]
    by (auto simp: exec_arith_def pop2_def pop1_def div_values_def panic_with_message_def
        fail_with_def advance_with_def wrapping_div_rem trunc_div_def)
qed

lemma div_i64_witness:
  "exec_arith sample_std DivI64 (idle_vm\<lparr>stack := [I64 (- 2), I64 7]\<rparr>) =
     Next (idle_vm\<lparr>stack := [I64 (wrapping_div 7 (- 2))], ip := 1\<rparr>)"
  using div_i64 [of "idle_vm\<lparr>stack := [I64 (- 2), I64 7]\<rparr>" "- 2" 7 "[]" sample_std]
  by (simp add: idle_vm_def)

text \<open>The width and signedness of the narrowing conversions.\<close>

definition narrow_width :: "conv_op \<Rightarrow> (nat \<times> bool) option" where
  "narrow_width c =
     (case c of
        ToI8 \<Rightarrow> Some (8, True) | ToI16 \<Rightarrow> Some (16, True) | ToI32 \<Rightarrow> Some (32, True)
      | ToU8 \<Rightarrow> Some (8, False) | ToU16 \<Rightarrow> Some (16, False) | ToU32 \<Rightarrow> Some (32, False)
      | _ \<Rightarrow> None)"

lemma sint_as_signed:
  assumes "k < 63"
  shows "sint (signed_take_bit k (n :: i64)) = (sint n + 2 ^ k) mod 2 ^ Suc k - 2 ^ k"
proof -
  have "sint (signed_take_bit k n) = signed_take_bit k (sint n)"
    by (rule bit_eqI) (use assms in \<open>auto simp: bit_simps min_def\<close>)
  then show ?thesis by (simp add: signed_take_bit_eq_take_bit_shift take_bit_eq_mod)
qed

lemma sint_as_unsigned:
  assumes "k < 64"
  shows "sint (take_bit k (n :: i64)) = sint n mod 2 ^ k"
proof -
  have "sint (take_bit k n) = take_bit k (sint n)" using assms by (simp add: signed_take_bit_eq)
  then show ?thesis by (simp only: take_bit_eq_mod)
qed

text \<open>
  The narrowing conversions wrap. The result is the operand modulo the width, in the range of
  the signed or unsigned type, for operands of every type and value.
\<close>

theorem narrowing_wraps:
  assumes "narrow_width c = Some (k, sg)"
  shows "\<exists>n. convert fl c hp v = I64 n \<and>
    sint n = (let x = sint (to_i64_untrimmed fl v)
              in if sg then (x + 2 ^ (k - 1)) mod 2 ^ k - 2 ^ (k - 1) else x mod 2 ^ k)"
proof -
  define x where "x = to_i64_untrimmed fl v"
  have s: "sint (as_signed 8 x) = (sint x + 2 ^ 7) mod 2 ^ 8 - 2 ^ 7"
    "sint (as_signed 16 x) = (sint x + 2 ^ 15) mod 2 ^ 16 - 2 ^ 15"
    "sint (as_signed 32 x) = (sint x + 2 ^ 31) mod 2 ^ 32 - 2 ^ 31"
    using sint_as_signed [of 7 x] sint_as_signed [of 15 x] sint_as_signed [of 31 x]
    by (simp_all add: as_signed_def)
  have u: "sint (as_unsigned 8 x) = sint x mod 2 ^ 8" "sint (as_unsigned 16 x) = sint x mod 2 ^ 16"
    "sint (as_unsigned 32 x) = sint x mod 2 ^ 32"
    by (simp_all only: as_unsigned_def sint_as_unsigned)
  from assms show ?thesis
    by (cases c) (auto simp: narrow_width_def convert_def Let_def s u simp flip: x_def)
qed

lemma narrowing_wraps_witness:
  "\<exists>n. convert sample_std ToI8 empty_heap (I64 200) = I64 n \<and> sint n = - 56"
  using narrowing_wraps [of ToI8 8 True sample_std empty_heap "I64 200"]
  by (simp add: narrow_width_def to_i64_untrimmed_def)

section \<open>Bringing down the host\<close>

text \<open>
  \<^verbatim>\<open>StrSubstring\<close> panics the Rust process, not the guest program, exactly when the start lies
  inside the string and behind the end; with bounds in order it is the characters between them.
\<close>

theorem substring_panics:
  assumes "stack s = I64 until # I64 from # Str t # st"
  defines "cs \<equiv> char_bytes t"
  defines "a \<equiv> max 0 (sint from)" and "b \<equiv> min (max 0 (sint until)) (int (length cs))"
  shows "exec_str env p StrSubstring s =
    (if a < int (length cs) \<and> b < a then Crash Slice_Range
     else Next (s\<lparr>stack := Str (concat (take (nat (b - a)) (drop (nat a) cs))) # st, ip := ip s + 1\<rparr>))"
proof -
  have u: "int (unat n) = sint n" if "\<not> sint n < 0" for n :: i64
    using that uint_sint [of n] sint_range [of n] by (simp add: take_bit_int_eq_self not_less)
  have a: "a = int (if sint from < 0 then 0 else as_usize from)"
    using u [of "from"] by (simp add: a_def as_usize_def)
  have b: "b = int (min (if sint until < 0 then 0 else as_usize until) (length cs))"
    using u [of until] by (auto simp: b_def as_usize_def of_nat_min)
  show ?thesis
    using assms(1) unfolding a b
    by (auto simp: exec_str_def Let_def pop_i64_def pop_str_def pop1_def substring_def
        advance_with_def cs_def nat_diff_distrib' simp del: of_nat_min)
qed

lemma substring_panics_witness:
  "exec_str (sample_env 9) call_demo StrSubstring
     (idle_vm\<lparr>stack := [I64 1, I64 2, Str (bytes_of ''abc'')]\<rparr>) = Crash Slice_Range"
  using substring_panics [of "idle_vm\<lparr>stack := [I64 1, I64 2, Str (bytes_of ''abc'')]\<rparr>" 1 2
      "bytes_of ''abc''" "[]" "sample_env 9" call_demo]
  by (simp add: utf8_width.simps idle_vm_def)

lemma find_local_get_not_self_jump:
  assumes "find_local_get p start i seen = Some r"
  shows "\<not> (i < length (code p) \<and> (\<exists>tgt. kind_of (code p ! i) = Jumps tgt \<and> unat tgt = i))"
  by (rule find_local_get.raw_induct [where P = "\<lambda>p start i seen r. \<not> (i < length (code p) \<and>
      (\<exists>tgt. kind_of (code p ! i) = Jumps tgt \<and> unat tgt = i))", OF _ assms])
    (auto split: if_splits, blast+)

text \<open>
  C37: a callee that jumps to itself hangs the host. The scan of \<^verbatim>\<open>Call\<close> follows jumps before it looks
  at its limit, so calling such a function never comes back, whatever the step budget.
\<close>

theorem self_jump_hangs:
  assumes "code p ! unat tgt = Jump tgt" and "unat tgt < length (code p)" and "stack s \<noteq> []"
    and "ip s < length (code p)" and "code p ! ip s = Call tgt" and "within_limits env s"
  shows "run_loop env ex p (Suc n) s = Hung"
proof -
  have "kind_of (code p ! unat tgt) = Jumps tgt" using assms(1) by (simp add: kind_of_def)
  with assms(2) find_local_get_not_self_jump [of p "unat tgt" "unat tgt" "[]"]
  have "find_first_local_get p tgt = None"
    by (cases "find_first_local_get p tgt") (auto simp: find_first_local_get_def)
  then have "exec_op env ex p (Call tgt) s = Hang"
    using assms by (simp add: exec_op_def exec_call_def has_prologue_def kind_of_def)
  with assms show ?thesis by simp
qed

definition self_jump_demo :: program where
  "self_jump_demo = program_new [] [PushI64 0, Call 2, Jump 2]"

lemma self_jump_hangs_witness:
  "run_loop (sample_env 9) False self_jump_demo (Suc 5) (idle_vm\<lparr>ip := 1, stack := [I64 0]\<rparr>) = Hung"
  by (rule self_jump_hangs [of _ 2])
    (simp_all add: self_jump_demo_def program_new_def within_limits_def sample_defs)

section \<open>The budget\<close>


text \<open>
  Raising the budget does not change what a program does: a run that ends otherwise than by an
  abort or failure of code 1 ends the same way under every larger budget.
\<close>

theorem larger_budget_same_result:
  assumes "run_loop env ex p n s = r" and "\<And>t. r \<noteq> Finished (Failed 1) t" and "n \<le> m"
  shows "run_loop env ex p m s = r"
proof -
  from run_loop_cases [of n env ex p s] show ?thesis
  proof (elim disjE exE conjE)
    fix k t assume k: "k < n" "steps env ex p k s t" "stops env ex p t (run_loop env ex p n s)"
    then obtain j where "m = k + Suc j" using assms(3) by (metis add_Suc_right less_imp_Suc_add order_less_le_trans)
    with run_loop_steps [OF k(2), of "Suc j"] run_loop_stops [OF k(3), of j] assms(1)
    show ?thesis by (simp only: )
  next
    fix t assume t: "steps env ex p n s t" "run_loop env ex p n s = run_loop env ex p 0 t"
    with assms(1) have r: "r = (if ip t < length (code p) then Finished (Failed 1) t else finish ex t)"
      by simp
    have end_of_code: "\<not> ip t < length (code p)"
    proof
      assume "ip t < length (code p)"
      with r have "r = Finished (Failed 1) t" by (simp only: if_True)
      with assms(2) show False by blast
    qed
    have "run_loop env ex p j t = finish ex t" for j using end_of_code by (cases j) simp_all
    moreover have "r = finish ex t" using r end_of_code by (simp only: if_False)
    moreover obtain j where "m = n + j" using le_Suc_ex [OF assms(3)] by blast
    ultimately show ?thesis using run_loop_steps [OF t(1)] by (simp only: )
  qed
qed

lemma larger_budget_same_result_witness:
  "\<exists>t. run_loop (sample_env 9) False (program_new [] [PushBool 1, OpBase Halt]) (Suc (Suc (Suc 0))) idle_vm =
     Finished (ExitCode 0) t"
proof -
  let ?p = "program_new [] [PushBool 1, OpBase Halt]"
  have "run_loop (sample_env 9) False ?p 2 idle_vm =
      Finished (ExitCode 0) (idle_vm\<lparr>stack := [Bool True], ip := 1\<rparr>)"
    by (simp add: numeral_2_eq_2 demo_defs finish_def)
  from larger_budget_same_result [OF this, of "Suc (Suc (Suc 0))"] show ?thesis by simp
qed

section \<open>Export calls\<close>

lemma length_place_args [simp]: "length (place_args i as f) = length f"
  by (induction i as f rule: place_args.induct) auto

lemma nth_place_args:
  "j < length f \<Longrightarrow> place_args i as f ! j =
     (if i \<le> j \<and> j < i + length as then Some (Str (as ! (j - i))) else f ! j)"
proof (induction i as f rule: place_args.induct)
  case (2 i a as f)
  then show ?case by (cases "j = i") (auto simp: nth_Cons' Suc_diff_le)
qed auto

text \<open>
  The arguments of a direct export call, a function without prologue: they are in consecutive
  locals from the first one the function reads, as far as the frame reaches, and every other local
  is unset.
\<close>

theorem export_arguments:
  assumes "unat off < length (code p)" and "length args = unat arity" and "args \<noteq> []"
    and "\<not> has_prologue p (unat off)" and "find_first_local_get p off = Some (Some first)"
  shows "\<exists>locals. call_export env p off arity args g =
      (case run_loop env True p (max_steps env) ((start_vm (unat off) g)\<lparr>frames := [locals]\<rparr>) of
         Finished r s \<Rightarrow> Finished (case r of ReturnValue v \<Rightarrow> Success v | ExitCode _ \<Rightarrow> Success None
                                          | Failed c \<Rightarrow> Export_Failed c) s
       | Crashed c \<Rightarrow> Crashed c
       | Hung \<Rightarrow> Hung) \<and>
    length locals = scan_function_local_count p off \<and>
    (\<forall>j < length locals. locals ! j =
       (if unat first \<le> j \<and> j < unat first + length args then Some (Str (args ! (j - unat first)))
        else None))"
proof -
  define locals where
    "locals = place_args (unat first) args (replicate (scan_function_local_count p off) None)"
  have "call_export env p off arity args g = call_export_internal env p off args g"
    using assms by (simp add: call_export_def)
  then show ?thesis
    using assms
    by (intro exI [of _ locals])
      (simp add: call_export_internal_def run_program_internal_def Let_def nth_place_args locals_def)
qed

definition echo_demo :: program where
  "echo_demo = program_new [] [LocalGet 1, OpStr StrLen, OpBase Ret]"

lemma export_arguments_witness:
  "\<exists>locals. length locals = 2 \<and> locals ! 1 = Some (Str (bytes_of ''hey''))"
proof -
  have "find_first_local_get echo_demo 0 = Some (Some 1)"
    by (simp add: demo_defs echo_demo_def)
  moreover have "scan_function_local_count echo_demo 0 = 2"
    by (simp add: demo_defs echo_demo_def)
  ultimately show ?thesis
    using export_arguments [of 0 echo_demo "[bytes_of ''hey'']" 1 1 "sample_env 9" idle_vm]
    by (auto simp: echo_demo_def program_new_def has_prologue_def kind_of_def)
qed

end
