(* ===== verification/Heap_Laws.thy ===== *)
theory Heap_Laws
  imports Heap
begin

text \<open>
  Laws of the stores: allocation never hands out a handle that is in use, the well-formedness of the
  heap with every operation's preservation lemma, maps as finite functions, sorting, the life of a
  reference-counted cell, regions, and the limits of the handle ranges.
\<close>

section \<open>Well-formed stores\<close>

text \<open>
  Every handle in use is between the start of the store's range and its counter, the counter has
  room for \<open>n\<close> more handles before it wraps, and every entry satisfies \<open>ok\<close>.
\<close>

definition store_ok :: "int \<Rightarrow> ('a \<Rightarrow> bool) \<Rightarrow> nat \<Rightarrow> (i64 \<Rightarrow> 'a option) \<Rightarrow> i64 \<Rightarrow> bool" where
  "store_ok base ok n store next \<longleftrightarrow>
     base \<le> sint next \<and> sint next + int n < 2 ^ 63 \<and>
     (\<forall>h x. store h = Some x \<longrightarrow> base \<le> sint h \<and> sint h < sint next \<and> ok x)"

lemma sint_plus_1: "sint (w :: i64) + 1 < 2 ^ 63 \<Longrightarrow> sint (w + 1) = sint w + 1"
proof -
  assume "sint w + 1 < 2 ^ 63"
  moreover have "w + 1 = word_of_int (sint w + 1)" by simp
  moreover have "- (2 ^ 63) \<le> sint w" using sint_ge [of w] by simp
  ultimately show ?thesis using sint_word_of_int [of "sint w + 1"] by simp
qed

lemma store_ok_new:
  assumes "store_ok base ok (Suc n) store next" and "ok x"
  shows "store_ok base ok n (store(next \<mapsto> x)) (next + 1)"
proof -
  from assms have "sint (next + 1) = sint next + 1" by (intro sint_plus_1) (simp add: store_ok_def)
  with assms show ?thesis by (fastforce simp: store_ok_def)
qed

lemma store_ok_update:
  "store_ok base ok n store next \<Longrightarrow> store h = Some y \<Longrightarrow> ok x \<Longrightarrow>
   store_ok base ok n (store(h \<mapsto> x)) next"
  by (auto simp: store_ok_def)

lemma store_ok_delete: "store_ok base ok n store next \<Longrightarrow> store_ok base ok n (store(h := None)) next"
  by (auto simp: store_ok_def)

lemma store_ok_mono: "store_ok base ok n store next \<Longrightarrow> m \<le> n \<Longrightarrow> store_ok base ok m store next"
  by (auto simp: store_ok_def)

lemma store_ok_entry: "store_ok base ok n store next \<Longrightarrow> store h = Some x \<Longrightarrow> ok x"
  by (auto simp: store_ok_def)

lemma store_ok_fresh: "store_ok base ok n store next \<Longrightarrow> store next = None"
  by (cases "store next") (auto simp: store_ok_def)

section \<open>The interface of a store\<close>

text \<open>
  All stores allocate alike: the counter is the new handle, and only that handle changes. Under a
  well-formed store the new handle was not in use and no other handle is affected.
\<close>

locale handle_store =
  fixes lookup :: "heap \<Rightarrow> i64 \<Rightarrow> 'a option" and counter :: "heap \<Rightarrow> i64"
    and create :: "'k \<Rightarrow> heap \<Rightarrow> i64 \<times> heap" and init :: "'k \<Rightarrow> 'a"
  assumes create_handle: "fst (create k hp) = counter hp"
    and create_counter: "counter (snd (create k hp)) = counter hp + 1"
    and create_lookup: "lookup (snd (create k hp)) = (lookup hp)(counter hp \<mapsto> init k)"
begin

lemma create_fresh:
  assumes "store_ok base ok n (lookup hp) (counter hp)" and "create k hp = (h, hp')"
  shows "lookup hp h = None" and "lookup hp' h = Some (init k)"
    and "h' \<noteq> h \<Longrightarrow> lookup hp' h' = lookup hp h'"
  using assms create_handle [of k hp] create_lookup [of k hp] by (auto intro: store_ok_fresh)

lemma create_unused: "store_ok base ok n (lookup hp) (counter hp) \<Longrightarrow> lookup hp (fst (create k hp)) = None"
  by (simp add: create_handle store_ok_fresh)

lemma create_ok:
  assumes "store_ok base ok (Suc n) (lookup hp) (counter hp)" and "ok (init k)"
  shows "store_ok base ok n (lookup (snd (create k hp))) (counter (snd (create k hp)))"
  using store_ok_new [OF assms] by (simp add: create_counter create_lookup)

lemma create_twice:
  assumes "store_ok base ok (Suc n) (lookup hp) (counter hp)" and "ok (init k)"
  shows "fst (create k' (snd (create k hp))) \<noteq> fst (create k hp)"
proof -
  from store_ok_fresh [OF create_ok [OF assms]] create_lookup [of k hp]
  have "counter (snd (create k hp)) \<noteq> counter hp" by auto
  then show ?thesis by (simp add: create_handle)
qed

end

interpretation lists: handle_store list_store next_list "\<lambda>_ :: unit. list_new" "\<lambda>_. []"
  by unfold_locales (simp_all add: list_new_def Let_def)

interpretation maps: handle_store map_store next_map "\<lambda>_ :: unit. map_new" "\<lambda>_. []"
  by unfold_locales (simp_all add: map_new_def Let_def)

interpretation optionals: handle_store opt_store next_opt
  "\<lambda>x. case x of Some v \<Rightarrow> opt_some v | None \<Rightarrow> opt_none" "\<lambda>x. x"
  by unfold_locales (simp_all add: opt_some_def opt_none_def Let_def split: option.split)

interpretation structs: handle_store struct_store next_struct "\<lambda>(t, n). struct_new t n"
  "\<lambda>(t, n). \<lparr>struct_name = t, struct_fields = replicate n (I64 0), field_names = replicate n []\<rparr>"
  by unfold_locales (auto simp: struct_new_def Let_def)

interpretation enums: handle_store enum_store next_enum "\<lambda>(e, v, t, n). enum_new e v t n"
  "\<lambda>(e, v, t, n). \<lparr>enum_name = e, variant_name = v, tag = t, payload = replicate n (I64 0)\<rparr>"
  by unfold_locales (auto simp: enum_new_def Let_def)

interpretation closures: handle_store closure_store next_closure "\<lambda>(f, n). closure_new f n"
  "\<lambda>(f, n). \<lparr>func_id = f, captures = []\<rparr>"
  by unfold_locales (auto simp: closure_new_def Let_def)

interpretation shared_cells: handle_store shared_store next_shared "\<lambda>_ :: unit. shared_new" "\<lambda>_. I64 0"
  by unfold_locales (simp_all add: shared_new_def Let_def)

interpretation rc_cells: handle_store rc_store next_rc rc_alloc
  "\<lambda>v. \<lparr>cell_value = v, count = 1\<rparr>"
  by unfold_locales (simp_all add: rc_alloc_def Let_def)

interpretation json_values: handle_store json_store next_json json_new "\<lambda>j. j"
  by unfold_locales (simp_all add: json_new_def Let_def)

section \<open>The well-formed heap\<close>

text \<open>
  Maps have no two entries for the same key, structs as many names as fields, and no cell in use has
  a count of zero. A shared cell may be stored under any handle, so that store is left out.
\<close>

fun distinct_keys :: "rust_std \<Rightarrow> (vm_value \<times> vm_value) list \<Rightarrow> bool" where
  "distinct_keys fl [] \<longleftrightarrow> True"
| "distinct_keys fl ((k, v) # mm) \<longleftrightarrow> hm_get fl k mm = None \<and> distinct_keys fl mm"

definition heap_ok :: "rust_std \<Rightarrow> nat \<Rightarrow> heap \<Rightarrow> bool" where
  "heap_ok fl n hp \<longleftrightarrow>
     store_ok 50000 (\<lambda>_. True) n (list_store hp) (next_list hp) \<and>
     store_ok 60000 (distinct_keys fl) n (map_store hp) (next_map hp) \<and>
     store_ok 70000 (\<lambda>_. True) n (opt_store hp) (next_opt hp) \<and>
     store_ok 90000 (\<lambda>s. length (field_names s) = length (struct_fields s)) n
       (struct_store hp) (next_struct hp) \<and>
     store_ok 100000 (\<lambda>_. True) n (enum_store hp) (next_enum hp) \<and>
     store_ok 80000 (\<lambda>_. True) n (closure_store hp) (next_closure hp) \<and>
     store_ok 90000 (\<lambda>c. count c \<noteq> 0) n (rc_store hp) (next_rc hp) \<and>
     store_ok 110000 (\<lambda>_. True) n (json_store hp) (next_json hp)"

lemma heap_ok_empty: "n < 2 ^ 62 \<Longrightarrow> heap_ok fl n empty_heap"
  by (simp add: heap_ok_def store_ok_def empty_heap_def)

lemma heap_ok_mono: "heap_ok fl n hp \<Longrightarrow> m \<le> n \<Longrightarrow> heap_ok fl m hp"
  unfolding heap_ok_def by (blast intro: store_ok_mono)

section \<open>Hash maps as finite functions\<close>

text \<open>A key can be found when it equals itself: every value but the float NaN.\<close>

definition findable :: "rust_std \<Rightarrow> vm_value \<Rightarrow> bool" where
  "findable fl k \<longleftrightarrow> values_equal fl k k"

lemma same_key_iff: "same_key fl a b \<longleftrightarrow> a = b \<and> findable fl a"
  by (auto simp: same_key_def findable_def)

lemma hm_get_simps [simp]:
  "hm_get fl k [] = None"
  "hm_get fl k ((k', v) # mm) = (if same_key fl k k' then Some v else hm_get fl k mm)"
  by (simp_all add: hm_get_def)

lemma hm_get_insert:
  "hm_get fl k' (hm_insert fl k v mm) =
     (if k' = k \<and> findable fl k then Some v else hm_get fl k' mm)"
  by (induction mm) (auto simp: same_key_iff)

lemma hm_get_not_findable: "\<not> findable fl k \<Longrightarrow> hm_get fl k mm = None"
  by (induction mm) (auto simp: same_key_iff)

lemma distinct_keys_insert: "distinct_keys fl mm \<Longrightarrow> distinct_keys fl (hm_insert fl k v mm)"
  by (induction mm) (auto simp: same_key_iff hm_get_insert)

lemma hm_get_remove_other: "k' \<noteq> k \<Longrightarrow> hm_get fl k' (hm_remove fl k mm) = hm_get fl k' mm"
  by (induction mm) (auto simp: same_key_iff)

lemma hm_get_remove: "distinct_keys fl mm \<Longrightarrow> hm_get fl k (hm_remove fl k mm) = None"
proof (induction mm)
  case (Cons e mm)
  then show ?case by (cases e) (auto simp: same_key_iff)
qed simp

lemma hm_get_remove_None: "hm_get fl k mm = None \<Longrightarrow> hm_get fl k (hm_remove fl k' mm) = None"
  by (induction mm) (auto split: if_splits)

lemma distinct_keys_remove: "distinct_keys fl mm \<Longrightarrow> distinct_keys fl (hm_remove fl k mm)"
  by (induction mm) (auto simp: hm_get_remove_None)

lemma distinct_keys_merge:
  "distinct_keys fl dm \<Longrightarrow> distinct_keys fl (fold (\<lambda>(k, v). hm_insert fl k v) es dm)"
  by (induction es arbitrary: dm) (auto simp: distinct_keys_insert)

lemma hm_get_merge:
  "distinct_keys fl es \<Longrightarrow>
   hm_get fl k (fold (\<lambda>(k, v). hm_insert fl k v) es dm) =
     (case hm_get fl k es of Some v \<Rightarrow> Some v | None \<Rightarrow> hm_get fl k dm)"
proof (induction es arbitrary: dm)
  case (Cons e es)
  obtain k' v where "e = (k', v)" by force
  with Cons show ?case
    by (auto simp: hm_get_insert same_key_iff split: option.split)
qed simp

section \<open>Operations keep the heap well-formed\<close>

named_theorems heap_keeps

text \<open>Operations that allocate use up one handle of the room.\<close>

lemma heap_ok_creates [heap_keeps]:
  assumes "heap_ok fl (Suc n) hp"
  shows "heap_ok fl n (snd (list_new hp))" and "heap_ok fl n (snd (map_new hp))"
    and "heap_ok fl n (snd (opt_some v hp))" and "heap_ok fl n (snd (opt_none hp))"
    and "heap_ok fl n (snd (struct_new t c hp))" and "heap_ok fl n (snd (enum_new e w g c hp))"
    and "heap_ok fl n (snd (closure_new f k hp))" and "heap_ok fl n (snd (rc_alloc v hp))"
    and "heap_ok fl n (snd (json_new j hp))" and "heap_ok fl n (snd (shared_new hp))"
    and "heap_ok fl n (snd (shared_get_by_name w hp))"
  using assms heap_ok_mono [OF assms, of n]
  by (auto simp: list_new_def map_new_def opt_some_def opt_none_def struct_new_def enum_new_def
      closure_new_def rc_alloc_def json_new_def shared_new_def shared_get_by_name_def heap_ok_def
      Let_def intro: store_ok_new split: option.split prod.split)

lemma heap_ok_list_updates [heap_keeps]:
  assumes "heap_ok fl n hp"
  shows "heap_ok fl n (snd (list_push lim h v hp))" and "heap_ok fl n (snd (list_set h i v hp))"
    and "heap_ok fl n (snd (list_remove h i hp))" and "heap_ok fl n (list_sort fl' h hp)"
  using assms
  by (auto simp: list_push_def list_set_def list_remove_def list_sort_def heap_ok_def
      intro: store_ok_update split: option.split)

lemma heap_ok_map_updates [heap_keeps]:
  assumes "heap_ok fl n hp"
  shows "heap_ok fl n (snd (map_put fl lim h k v hp))" and "heap_ok fl n (snd (map_remove fl h k hp))"
    and "heap_ok fl n (snd (map_merge fl d src hp))"
  using assms
  by (auto simp: map_put_def map_remove_def map_merge_def heap_ok_def Let_def
      intro!: store_ok_update distinct_keys_insert distinct_keys_remove distinct_keys_merge
      dest: store_ok_entry split: option.split)

lemma heap_ok_struct_updates [heap_keeps]:
  assumes "heap_ok fl n hp"
  shows "heap_ok fl n (struct_set h i v f hp)" and "heap_ok fl n (struct_set_named h f v hp)"
    and "heap_ok fl n (struct_copy d src hp)" and "heap_ok fl n (enum_set_payload h i v hp)"
    and "heap_ok fl n (closure_capture h v hp)" and "heap_ok fl n (shared_store_val h v hp)"
  using assms
  by (auto simp: struct_set_def struct_set_named_def struct_copy_def enum_set_payload_def
      closure_capture_def shared_store_val_def heap_ok_def Let_def
      intro!: store_ok_update dest: store_ok_entry split: option.split)

lemma saturating_nonzero: "saturating_inc n \<noteq> 0"
  by (auto simp: saturating_inc_def) (metis add.inverse_unique add.commute)

lemma heap_ok_rc_updates [heap_keeps]:
  assumes "heap_ok fl n hp"
  shows "heap_ok fl n (snd (rc_inc h hp))" and "heap_ok fl n (snd (rc_dec h hp))"
    and "heap_ok fl n (snd (rc_store_value h v hp))"
  using assms
  by (auto simp: rc_inc_def rc_dec_def rc_store_value_def heap_ok_def Let_def saturating_nonzero
      intro!: store_ok_update store_ok_delete dest: store_ok_entry split: option.split)

lemma heap_ok_regions [heap_keeps]:
  assumes "heap_ok fl n hp"
  shows "heap_ok fl n (region_enter r hp)" and "heap_ok fl n (snd (region_exit r hp))"
    and "heap_ok fl n (region_alloc v hp)"
  using assms
  by (auto simp: region_enter_def region_exit_def region_alloc_def heap_ok_def Let_def
      split: option.split)

lemma heap_ok_push_all [heap_keeps]: "heap_ok fl n hp \<Longrightarrow> heap_ok fl n (push_all lim h vs hp)"
  by (induction vs arbitrary: hp) (auto simp: push_all_def heap_ok_list_updates)

lemma heap_ok_map_keys [heap_keeps]:
  assumes "heap_ok fl (Suc n) hp"
  shows "heap_ok fl n (snd (map_keys h hp))"
  using heap_ok_creates(1) [OF assms] lists.create_lookup [of hp] lists.create_handle [of hp]
  by (auto simp: map_keys_def heap_ok_def intro: store_ok_update split: option.split prod.split)

lemma heap_ok_json_child [heap_keeps]:
  assumes "heap_ok fl (Suc n) hp"
  shows "heap_ok fl n (snd (json_get_field h k hp))" and "heap_ok fl n (snd (json_get_index h i hp))"
  using heap_ok_creates(9) [OF assms] heap_ok_mono [OF assms, of n]
  by (auto simp: json_get_field_def json_get_index_def json_child_def split: option.split)

lemma heap_ok_json_keys [heap_keeps]:
  assumes "heap_ok fl (Suc n) hp"
  shows "heap_ok fl n (snd (json_keys lim h hp))"
  using heap_ok_creates(1) [OF assms]
  by (auto simp: json_keys_def heap_ok_push_all split: prod.split)

lemma heap_ok_json_field_value:
  assumes "heap_ok fl (Suc n) hp"
  shows "heap_ok fl n (snd (json_get_field_as_value fl' h f hp))"
  using heap_ok_creates(9) [OF assms] heap_ok_mono [OF assms, of n]
  by (auto simp: json_get_field_as_value_def case_prod_beta split: option.split json_val.split)

lemma struct_get_named_Some:
  assumes "struct_get_named fl h f hp = Some r"
  shows "snd r = hp \<or> (\<exists>h'. snd r = snd (json_get_field_as_value fl h' f hp))"
  by (rule struct_get_named.raw_induct [where P = "\<lambda>fl h f hp r.
      snd r = hp \<or> (\<exists>h'. snd r = snd (json_get_field_as_value fl h' f hp))", OF _ assms])
    (auto split: if_splits vm_value.splits, metis snd_conv)

lemma heap_ok_struct_get_named [heap_keeps]:
  assumes "struct_get_named fl' h f hp = Some r" and "heap_ok fl (Suc n) hp"
  shows "heap_ok fl n (snd r)"
  using struct_get_named_Some [OF assms(1)] heap_ok_json_field_value [OF assms(2)]
    heap_ok_mono [OF assms(2), of n]
  by auto

section \<open>Properties of the stores\<close>

text \<open>
  Allocation never hands out a handle that is in use, whichever store it comes from, as long as
  the counters have not wrapped.
\<close>

theorem handles_are_fresh:
  assumes "heap_ok fl 0 hp"
  shows "list_store hp (fst (list_new hp)) = None \<and> map_store hp (fst (map_new hp)) = None \<and>
    opt_store hp (fst (opt_some v hp)) = None \<and> struct_store hp (fst (struct_new t n hp)) = None \<and>
    enum_store hp (fst (enum_new e w g n hp)) = None \<and>
    closure_store hp (fst (closure_new f k hp)) = None \<and> rc_store hp (fst (rc_alloc v hp)) = None \<and>
    json_store hp (fst (json_new j hp)) = None"
  using assms
  by (auto simp: heap_ok_def intro: lists.create_unused maps.create_unused rc_cells.create_unused
      json_values.create_unused optionals.create_unused [where k = "Some v", simplified]
      structs.create_unused [where k = "(t, n)", simplified]
      enums.create_unused [where k = "(e, w, g, n)", simplified]
      closures.create_unused [where k = "(f, k)", simplified])

lemma handles_are_fresh_witness:
  "list_store empty_heap (fst (list_new empty_heap)) = None \<and>
   json_store empty_heap (fst (json_new JNull empty_heap)) = None"
  using handles_are_fresh [OF heap_ok_empty [of 0], where j = JNull] by simp

end
