(* ===== verification/Heap_Props.thy ===== *)
theory Heap_Props
  imports Heap_Laws Samples
begin

text \<open>
  Abstract views of the stores and what the operations mean for them: a map handle is a finite
  function, a sorted list a permutation in order, a reference-counted cell lives as long as its count
  is positive, a region returns what was allocated in it. The last section shows where the handle
  ranges that tell the kinds of handles apart end.
\<close>

section \<open>Maps\<close>

text \<open>The function a map handle stands for.\<close>

definition map_view :: "rust_std \<Rightarrow> i64 \<Rightarrow> heap \<Rightarrow> vm_value \<Rightarrow> vm_value option" where
  "map_view fl h hp = (\<lambda>k. map_get fl h k hp)"

text \<open>
  C28: maps are finite functions. On a handle of a well-formed heap, putting a findable key updates
  the function at that key (when the limit admits it), removing a key undefines it and returns its
  value, merging overrides by the source, the other maps do not change, and membership and lookup are
  those of the function.
\<close>

theorem map_refines_function:
  assumes "heap_ok fl n hp" and "map_store hp h \<noteq> None" and "map_store hp h2 \<noteq> None"
    and "findable fl k"
  shows "(fst (map_put fl lim h k v hp) \<longrightarrow>
      map_view fl h (snd (map_put fl lim h k v hp)) = (map_view fl h hp)(k \<mapsto> v)) \<and>
    (map_len h hp < max_map_len lim \<or> map_view fl h hp k \<noteq> None \<longrightarrow> fst (map_put fl lim h k v hp)) \<and>
    fst (map_remove fl h k hp) = map_view fl h hp k \<and>
    map_view fl h (snd (map_remove fl h k hp)) = (map_view fl h hp)(k := None) \<and>
    map_view fl h (snd (map_merge fl h h2 hp)) = map_view fl h hp ++ map_view fl h2 hp \<and>
    (map_contains_key fl h k hp \<longleftrightarrow> map_view fl h hp k \<noteq> None) \<and>
    (h' \<noteq> h \<longrightarrow> map_view fl h' (snd (map_put fl lim h k v hp)) = map_view fl h' hp \<and>
       map_view fl h' (snd (map_remove fl h k hp)) = map_view fl h' hp \<and>
       map_view fl h' (snd (map_merge fl h h2 hp)) = map_view fl h' hp)"
proof -
  from assms(2,3) obtain mm mm2 where mm: "map_store hp h = Some mm" "map_store hp h2 = Some mm2"
    by auto
  with assms(1) have d: "distinct_keys fl mm" "distinct_keys fl mm2"
    by (auto simp: heap_ok_def dest: store_ok_entry)
  note defs = map_view_def map_get_def map_put_def map_remove_def map_merge_def map_contains_key_def
    map_len_def Let_def mm
  have "map_view fl h (snd (map_remove fl h k hp)) = (map_view fl h hp)(k := None)"
    using d hm_get_remove [OF d(1), of k] hm_get_remove_other [of _ k fl mm] by (auto simp: defs)
  moreover have "map_view fl h (snd (map_merge fl h h2 hp)) = map_view fl h hp ++ map_view fl h2 hp"
    using d(2) by (auto simp: defs hm_get_merge map_add_def)
  ultimately show ?thesis
    using assms(4) by (auto simp: defs hm_get_insert)
qed

definition one_map :: heap where
  "one_map = snd (map_new empty_heap)"

lemma map_refines_function_witness:
  "map_view sample_std 60000
     (snd (map_put sample_std \<lparr>max_list_len = 5, max_map_len = 5\<rparr> 60000 (I64 1) (Bool True) one_map)) =
   [I64 1 \<mapsto> Bool True]"
proof -
  have "heap_ok sample_std 9 one_map"
    unfolding one_map_def by (rule heap_ok_creates) (simp add: heap_ok_empty)
  moreover have s: "map_store one_map 60000 = Some []"
    by (simp add: one_map_def map_new_def empty_heap_def)
  moreover have "map_view sample_std 60000 one_map = Map.empty"
    using s by (auto simp: map_view_def map_get_def)
  ultimately show ?thesis
    using map_refines_function [of sample_std 9 one_map 60000 60000 "I64 1"
        "\<lparr>max_list_len = 5, max_map_len = 5\<rparr>" "Bool True"]
    by (simp add: findable_def map_len_def)
qed

section \<open>Sorting\<close>

text \<open>
  \<^verbatim>\<open>ListSort\<close> sorts. A list without floats is put in non-decreasing order of the comparison, with
  the same elements, and no other list changes.
\<close>

theorem list_sort_sorts:
  assumes "list_store hp h = Some xs" and "set xs \<subseteq> no_floats"
  shows "\<exists>ys. list_store (list_sort fl h hp) = (list_store hp)(h \<mapsto> ys) \<and> mset ys = mset xs \<and>
    sorted_wrt (\<lambda>a b. value_cmp fl a b \<noteq> Greater) ys"
  by (rule exI [of _ "sort_by (value_cmp fl) xs"])
    (simp add: assms(1) list_sort_def no_floats.sorted_sort_by [OF assms(2)])

lemma list_sort_sorts_witness:
  "\<exists>ys. list_store (list_sort sample_std 7 (empty_heap\<lparr>list_store := [7 \<mapsto> [I64 2, Bool False, I64 1]]\<rparr>))
      = [7 \<mapsto> ys] \<and> mset ys = {#I64 2, Bool False, I64 1#}"
  using list_sort_sorts [of "empty_heap\<lparr>list_store := [7 \<mapsto> [I64 2, Bool False, I64 1]]\<rparr>" 7
      "[I64 2, Bool False, I64 1]" sample_std]
  by (auto simp: no_floats_def)

section \<open>Reference counting\<close>

text \<open>A sequence of increments (\<open>True\<close>) and decrements of one cell.\<close>

definition rc_use :: "i64 \<Rightarrow> bool \<Rightarrow> heap \<Rightarrow> heap" where
  "rc_use h up hp = (if up then snd (rc_inc h hp) else snd (rc_dec h hp))"

fun balance :: "bool list \<Rightarrow> int" where
  "balance [] = 0"
| "balance (up # us) = (if up then 1 else - 1) + balance us"

lemma rc_use_None: "rc_store hp h = None \<Longrightarrow> rc_store (fold (rc_use h) us hp) h = None"
  by (induction us arbitrary: hp) (simp_all add: rc_use_def rc_inc_def rc_dec_def)

lemma uint_nat_bound: "uint (c :: u64) + 1 < 2 ^ 64 \<Longrightarrow> uint (c + 1) = uint c + 1"
  by (simp add: uint_plus_if')

lemma rc_use_Some:
  assumes "rc_store hp h = Some \<lparr>cell_value = v, count = c\<rparr>" and "c \<noteq> 0"
    and "uint c + int (length us) < 2 ^ 64"
  shows "rc_load h (fold (rc_use h) us hp) =
    (if \<exists>k \<le> length us. uint c + balance (take k us) = 0 then None else Some v)"
  using assms
proof (induction us arbitrary: hp c)
  case Nil
  then show ?case by (simp add: rc_load_def uint_0_iff)
next
  case (Cons u us)
  have split: "(\<exists>k \<le> Suc (length us). P k) \<longleftrightarrow> P 0 \<or> (\<exists>k \<le> length us. P (Suc k))" for P
    by (metis le0 less_Suc_eq_0_disj less_Suc_eq_le)
  have c0: "uint c \<noteq> 0" using Cons.prems by (simp add: uint_0_iff)
  show ?case
  proof (cases u)
    case True
    have inc: "uint (c + 1) = uint c + 1" using Cons.prems by (intro uint_nat_bound) simp
    moreover have "uint (- 1 :: u64) = 2 ^ 64 - 1"
      by (simp add: unsigned_minus_1_eq_mask mask_eq_exp_minus_1)
    then have "c \<noteq> - 1" using Cons.prems by auto
    moreover have "c + 1 \<noteq> 0" using inc c0 uint_ge_0 [of c] by (metis add_nonneg_eq_0_iff uint_0_eq zero_le_one zero_neq_one)
    ultimately show ?thesis
      using True Cons.prems c0 Cons.IH [of "rc_use h True hp" "c + 1"]
      by (simp add: rc_use_def rc_inc_def saturating_inc_def split algebra_simps)
  next
    case False
    show ?thesis
    proof (cases "c = 1")
      case True
      with False Cons.prems have "rc_store (rc_use h u hp) h = None"
        by (simp add: rc_use_def rc_dec_def saturating_dec_def)
      from rc_use_None [OF this, of us] True False show ?thesis
        by (auto simp: rc_load_def split intro: exI [of _ 0])
    next
      case c1: False
      have "1 \<le> uint c" using c0 uint_ge_0 [of c] by linarith
      then have dec: "uint (c - 1) = uint c - 1" by (simp add: uint_sub_if')
      have eq: "balance x + uint (c - 1) = 0 \<longleftrightarrow> uint c + balance x = 1" for x using dec by linarith
      have "c - 1 \<noteq> 0" using c1 by simp
      with dec show ?thesis
        using False Cons.prems c0 Cons.IH [of "rc_use h False hp" "c - 1"]
        by (simp add: rc_use_def rc_dec_def saturating_dec_def split eq algebra_simps)
    qed
  qed
qed

text \<open>
  C33: a reference-counted cell lives exactly as long as it is referred to. After its allocation and
  any sequence of increments and decrements, loading its handle gives the value, unless at some point
  the decrements had used up all references: then the cell is gone and stays gone.
\<close>

theorem rc_lifetime:
  assumes "length us < 2 ^ 63" and "rc_alloc v hp = (h, hp')"
  shows "rc_load h (fold (rc_use h) us hp') =
    (if \<exists>k \<le> length us. 1 + balance (take k us) = 0 then None else Some v)"
proof -
  from assms(2) have "rc_store hp' h = Some \<lparr>cell_value = v, count = 1\<rparr>"
    by (auto simp: rc_alloc_def Let_def)
  from rc_use_Some [OF this, of us] assms(1) show ?thesis by simp
qed

lemma rc_lifetime_witness:
  "rc_load (fst (rc_alloc (I64 5) empty_heap))
     (fold (rc_use (fst (rc_alloc (I64 5) empty_heap))) [True, False] (snd (rc_alloc (I64 5) empty_heap)))
   = Some (I64 5)"
proof -
  have "k = 0 \<or> k = 1 \<or> k = 2" if "k \<le> length [True, False]" for k using that by auto
  then have "\<not> (\<exists>k \<le> length [True, False]. 1 + balance (take k [True, False]) = 0)" by fastforce
  with rc_lifetime [of "[True, False]" "I64 5" empty_heap] show ?thesis by (simp del: fold_simps)
qed

section \<open>Regions\<close>

lemma fold_region_alloc:
  assumes "region_stack hp = st @ [r]" and "region_store hp r = Some ws"
  shows "fold region_alloc vs hp = hp\<lparr>region_store := (region_store hp)(r \<mapsto> ws @ vs)\<rparr>"
  using assms
proof (induction vs arbitrary: hp ws)
  case Nil
  then have "(region_store hp)(r \<mapsto> ws) = region_store hp" by auto
  then show ?case by simp
next
  case (Cons v vs)
  have "region_alloc v hp = hp\<lparr>region_store := (region_store hp)(r \<mapsto> ws @ [v])\<rparr>"
    using Cons.prems by (simp add: region_alloc_def)
  moreover have "fold region_alloc vs (hp\<lparr>region_store := (region_store hp)(r \<mapsto> ws @ [v])\<rparr>) =
      hp\<lparr>region_store := (region_store hp)(r \<mapsto> (ws @ [v]) @ vs)\<rparr>"
    by (subst Cons.IH [of _ "ws @ [v]"]) (simp_all add: Cons.prems)
  ultimately show ?case by (simp add: fun_upd_def)
qed

text \<open>
  A region returns what was allocated in it. Entering a region, allocating values and leaving it
  gives back exactly these values in order, with the stack of regions and the contents of the other
  regions as before.
\<close>

theorem region_returns_its_allocations:
  "region_exit r (fold region_alloc vs (region_enter r hp)) =
     (vs, hp\<lparr>region_store := (region_store hp)(r := None)\<rparr>)"
proof -
  have "fold region_alloc vs (region_enter r hp) =
      (region_enter r hp)\<lparr>region_store := (region_store hp)(r \<mapsto> vs)\<rparr>"
    using fold_region_alloc [of "region_enter r hp" "region_stack hp" r "[]" vs]
    by (simp add: region_enter_def)
  then show ?thesis by (simp add: region_exit_def region_enter_def)
qed

section \<open>Where the handle ranges end\<close>

lemma next_list_new: "next_list (((\<lambda>hp. snd (list_new hp)) ^^ n) hp) = next_list hp + of_nat n"
  by (induction n) (simp_all add: list_new_def Let_def)

lemma map_store_list_new: "map_store (((\<lambda>hp. snd (list_new hp)) ^^ n) hp) = map_store hp"
  by (induction n) (simp_all add: list_new_def Let_def)

text \<open>
  After ten thousand lists, the handle of the next one is in the range of maps: the tests by
  which JSON and named access tell lists and maps apart take it for a map.
\<close>

theorem list_handles_run_into_maps:
  "let (h, hp) = list_new (((\<lambda>hp. snd (list_new hp)) ^^ 10000) empty_heap)
   in h = 60000 \<and> list_store hp h = Some [] \<and> \<not> is_list_handle h \<and> is_map_handle h \<and>
      map_store hp h = None"
proof -
  define hp where "hp = ((\<lambda>hp. snd (list_new hp)) ^^ 10000) empty_heap"
  have "next_list hp = 60000" unfolding hp_def next_list_new by (simp add: empty_heap_def)
  moreover have "map_store hp = Map.empty"
    unfolding hp_def map_store_list_new by (simp add: empty_heap_def)
  ultimately show ?thesis
    unfolding hp_def [symmetric]
    by (simp add: list_new_def is_list_handle_def is_map_handle_def)
qed

end
