(* ===== verification/Heap_Invariant.thy ===== *)
theory Heap_Invariant
  imports Heap_Laws Interp_Calls
begin

text \<open>
  The well-formedness of the heap is an invariant of the interpreter: no instruction breaks it, and
  each allocates at most one handle of a kind.
\<close>

section \<open>Instructions\<close>

named_theorems heap_intros

definition heap_kept :: "rust_std \<Rightarrow> nat \<Rightarrow> 'w outcome \<Rightarrow> bool" where
  "heap_kept fl n r \<longleftrightarrow> (case r of Next t \<Rightarrow> heap_ok fl n (heap_of t) | _ \<Rightarrow> True)"

lemma heap_kept_simps [simp]:
  "heap_kept fl n (Next t) = heap_ok fl n (heap_of t)" "heap_kept fl n (Break t)"
  "heap_kept fl n (Return x t)" "heap_kept fl n (Crash c)" "heap_kept fl n Hang"
  "heap_kept fl n (fail_with i t)" "heap_kept fl n (panic_with_message m t)"
  by (simp_all add: heap_kept_def fail_with_def panic_with_message_def)

lemma heap_kept_advance [simp]:
  "heap_kept fl n (advance t) = heap_ok fl n (heap_of t)"
  "heap_kept fl n (advance_with v t) = heap_ok fl n (heap_of t)"
  "heap_kept fl n (advance_heap f r t) = heap_ok fl n (snd r)"
  "heap_kept fl n (enter fr tgt t) = heap_ok fl n (heap_of t)"
  by (simp_all add: advance_def advance_with_def advance_heap_def enter_def)

lemma heap_of_prints [simp]:
  "heap_of (eprint m t) = heap_of t" "heap_of (eprintln m t) = heap_of t"
  "heap_of (set_panic m t) = heap_of t"
  by (simp_all add: eprint_def eprintln_def set_panic_def)

lemma heap_kept_pops [heap_intros]:
  assumes "\<And>v t'. heap_of t' = heap_of t \<Longrightarrow> heap_kept fl n (k v t')"
  shows "heap_kept fl n (pop1 t k)" and "heap_kept fl n (pop_or_0 t k)"
  using assms by (auto simp: pop1_def pop_or_0_def split: list.split)

lemma heap_kept_pop2 [heap_intros]:
  assumes "\<And>va vb t'. heap_of t' = heap_of t \<Longrightarrow> heap_kept fl n (k va vb t')"
  shows "heap_kept fl n (pop2 t k)"
  using assms by (auto simp: pop2_def intro!: heap_intros)

lemma heap_kept_pop_i64 [heap_intros]:
  assumes "\<And>i t'. heap_of t' = heap_of t \<Longrightarrow> heap_kept fl n (k i t')"
  shows "heap_kept fl n (pop_i64 t k)"
  using assms by (auto simp: pop_i64_def intro!: heap_intros split: vm_value.split)

lemma heap_kept_pop_strs [heap_intros]:
  assumes "\<And>x t'. heap_of t' = heap_of t \<Longrightarrow> heap_kept fl n (k x t')"
  shows "heap_kept fl n (pop_str p t k)" and "heap_kept fl n (pop_name p t k)"
    and "heap_kept fl n (pop_text t k)"
  using assms
  by (auto simp: pop_str_def pop_name_def pop_text_def intro!: heap_intros
      split: vm_value.split list.split)

lemma heap_kept_pop_any [heap_intros]:
  assumes "\<And>x t'. heap_of t' = heap_of t \<Longrightarrow> heap_kept fl n (k x t')"
  shows "heap_kept fl n (pop_any t k)"
  using assms by (auto simp: pop_any_def split: list.split)

lemma heap_ok_json_parse [heap_keeps]:
  assumes "heap_ok fl (Suc n) hp"
  shows "heap_ok fl n (snd (json_parse_and_store fl' s hp))"
  using heap_ok_creates(9) [OF assms] heap_ok_mono [OF assms, of n]
  by (auto simp: json_parse_and_store_def split: option.split)

text \<open>\<^verbatim>\<open>json_to_struct\<close> allocates one handle of two kinds.\<close>

lemma heap_ok_set_fields:
  "heap_ok fl n hp \<Longrightarrow>
   heap_ok fl n (fold (\<lambda>(m, i) hp'. case find (\<lambda>(k, _). k = m) obj of
     Some (_, j) \<Rightarrow> snd (list_set sh i (json_val_to_vm_value fl' j) hp') | None \<Rightarrow> hp') fs hp)"
proof (induction fs arbitrary: hp)
  case (Cons f fs)
  then show ?case
    by (cases f) (auto simp: heap_ok_list_updates split: option.split prod.split)
qed simp

lemma heap_ok_new_pair:
  assumes "heap_ok fl (Suc n) hp"
  shows "heap_ok fl n (snd (list_new (snd (json_new j hp))))"
  using assms
  by (auto simp: heap_ok_def list_new_def json_new_def Let_def
      intro: store_ok_new store_ok_mono [of _ _ "Suc n"])

lemma heap_ok_json_to_struct [heap_keeps]:
  assumes "heap_ok fl (Suc n) hp"
  shows "heap_ok fl n (snd (json_to_struct fl' lim s m hp))"
  using heap_ok_creates(1) [OF assms] heap_ok_mono [OF assms, of n] heap_ok_new_pair [OF assms]
    heap_ok_json_parse [OF assms]
  by (auto simp: json_to_struct_def json_parse_and_store_def Let_def case_prod_beta
      intro!: heap_ok_set_fields heap_ok_push_all split: option.split json_val.split)

lemma kept_arith: "heap_ok fl n (heap_of s) \<Longrightarrow> heap_kept fl n (exec_arith fl' a s)"
  by (cases a) (auto simp: exec_arith_def intro!: heap_intros split: option.split)

lemma kept_conv: "heap_ok fl n (heap_of s) \<Longrightarrow> heap_kept fl n (exec_conv fl' c s)"
  by (auto simp: exec_conv_def intro!: heap_intros)

lemma kept_float: "heap_ok fl n (heap_of s) \<Longrightarrow> heap_kept fl n (exec_float fl' f s)"
  by (cases f) (auto simp: exec_float_def intro!: heap_intros split: vm_value.split)

lemma kept_str:
  assumes "heap_ok fl (Suc n) (heap_of s)"
  shows "heap_kept fl n (exec_str env p x s)"
  using assms heap_ok_mono [OF assms, of n]
  by (cases x) (auto simp: exec_str_def Let_def case_prod_beta intro!: heap_intros heap_keeps
      split: option.split vm_value.split)

lemma kept_list:
  assumes "heap_ok fl (Suc n) (heap_of s)"
  shows "heap_kept fl n (exec_list env x s)"
  using assms heap_ok_mono [OF assms, of n]
  by (cases x) (auto simp: exec_list_def Let_def case_prod_beta intro!: heap_intros heap_keeps
      split: option.split)

lemma kept_map:
  assumes "heap_ok (std env) (Suc n) (heap_of s)"
  shows "heap_kept (std env) n (exec_map env x s)"
  using assms heap_ok_mono [OF assms, of n]
  by (cases x) (auto simp: exec_map_def Let_def case_prod_beta intro!: heap_intros heap_keeps
      split: option.split)

lemma kept_opt:
  assumes "heap_ok fl (Suc n) (heap_of s)"
  shows "heap_kept fl n (exec_opt x s)"
  using assms heap_ok_mono [OF assms, of n]
  by (cases x) (auto simp: exec_opt_def intro!: heap_intros heap_keeps)

lemma kept_struct:
  assumes "heap_ok fl (Suc n) (heap_of s)"
  shows "heap_kept fl n (exec_struct env p x s)"
  using assms heap_ok_mono [OF assms, of n]
  by (cases x) (auto simp: exec_struct_def intro!: heap_intros heap_keeps split: option.split
      dest!: heap_ok_struct_get_named)

lemma kept_enum:
  assumes "heap_ok fl (Suc n) (heap_of s)"
  shows "heap_kept fl n (exec_enum p x s)"
  using assms heap_ok_mono [OF assms, of n]
  by (cases x) (auto simp: exec_enum_def intro!: heap_intros heap_keeps)

lemma kept_json:
  assumes "heap_ok fl (Suc n) (heap_of s)"
  shows "heap_kept fl n (exec_json env x s)"
  using assms heap_ok_mono [OF assms, of n]
  by (cases x) (auto simp: exec_json_def Let_def intro!: heap_intros heap_keeps
      split: option.split vm_value.split)

lemma kept_shared:
  assumes "heap_ok fl (Suc n) (heap_of s)"
  shows "heap_kept fl n (exec_shared x s)"
  using assms heap_ok_mono [OF assms, of n]
  by (cases x) (auto simp: exec_shared_def intro!: heap_intros heap_keeps)

lemma kept_rc:
  assumes "heap_ok fl (Suc n) (heap_of s)"
  shows "heap_kept fl n (exec_rc x s)"
  using assms heap_ok_mono [OF assms, of n]
  by (cases x) (auto simp: exec_rc_def intro!: heap_intros heap_keeps)

lemma kept_call_symbol:
  assumes "heap_ok fl (Suc n) (heap_of s)"
  shows "heap_kept fl n (exec_call_symbol env p x s)"
  using assms heap_ok_mono [OF assms, of n]
  by (auto simp: exec_call_symbol_def Let_def intro!: heap_intros heap_keeps split: option.split)

lemma kept_control:
  assumes "heap_ok fl (Suc n) (heap_of s)"
  shows "heap_kept fl n (exec_call p tgt s)" and "heap_kept fl n (exec_closure_call k s)"
    and "heap_kept fl n (exec_rc_dec_with_deinit f s)" and "heap_kept fl n (exec_panic p m s)"
    and "heap_kept fl n (exec_local_get ix s)" and "heap_kept fl n (exec_local_set ix s)"
  using heap_ok_mono [OF assms, of n]
  by (auto simp: exec_call_def exec_closure_call_def exec_rc_dec_with_deinit_def exec_panic_def
      exec_local_get_def exec_local_set_def unwind_to_def Let_def case_prod_beta
      intro!: heap_intros heap_keeps split: option.split list.split)

lemma kept_unwind: "heap_ok fl n (heap_of s) \<Longrightarrow> heap_kept fl n (exec_unwind u s)"
  by (cases u) (auto simp: exec_unwind_def exec_throw_def unwind_to_def Let_def intro!: heap_intros
      split: list.split)

lemma kept_base: "heap_ok fl n (heap_of s) \<Longrightarrow> heap_kept fl n (exec_base fl' ex b s)"
  by (cases b) (auto simp: exec_base_def exec_ret_def Let_def case_prod_beta intro!: heap_intros
      split: list.split)

section \<open>Runs\<close>

text \<open>What the instructions outside the model must keep: the same invariant.\<close>

definition other_keeps_heap :: "'w env \<Rightarrow> bool" where
  "other_keeps_heap env \<longleftrightarrow>
     (\<forall>i p s n. heap_ok (std env) (Suc n) (heap_of s) \<longrightarrow> heap_kept (std env) n (other_op env i p s))"

lemma kept_exec_op:
  assumes "other_keeps_heap env" and "heap_ok (std env) (Suc n) (heap_of s)"
  shows "heap_kept (std env) n (exec_op env ex p i s)"
proof -
  note now = heap_ok_mono [OF assms(2), of n, simplified]
  note other = assms(1) [unfolded other_keeps_heap_def, rule_format, OF assms(2)]
  note data = kept_arith kept_conv kept_float kept_base kept_unwind
  note kept = kept_str kept_list kept_map kept_opt kept_struct kept_enum kept_json kept_shared kept_rc
    kept_call_symbol kept_control
  show ?thesis
    by (cases i)
      (use assms(2) now in \<open>auto simp: exec_op_def data kept other intro!: heap_intros heap_keeps
        split: vm_value.split\<close>)
qed

lemma heap_ok_steps:
  "steps env ex p k s t \<Longrightarrow> other_keeps_heap env \<Longrightarrow> heap_ok (std env) (k + n) (heap_of s) \<Longrightarrow>
   heap_ok (std env) n (heap_of t)"
proof (induction k s t rule: steps.induct)
  case (more s s' k t)
  from more.hyps(1) have "exec_op env ex p (code p ! ip s) s = Next s'" by (rule step_elim)
  with kept_exec_op [OF more.prems(1), of "k + n" s ex p "code p ! ip s"] more.prems(2)
  have "heap_ok (std env) (k + n) (heap_of s')" by simp
  with more show ?case by blast
qed simp



end
