(* ===== verification/Json_Text.thy ===== *)
theory Json_Text
  imports Json Codec
begin

text \<open>
  The characters of texts, and the string literals of JSON: splitting a text into characters respects
  concatenation of complete characters, encoding the code point of a character gives its bytes, and
  a printed string literal reads back.
\<close>

section \<open>Characters of a text\<close>

text \<open>
  A character is well-formed when its first byte announces its length, and a text is \<open>whole\<close> when it
  ends with a complete character, whatever follows.
\<close>

definition whole_char :: "rstring \<Rightarrow> bool" where
  "whole_char c \<longleftrightarrow> c \<noteq> [] \<and> utf8_width (hd c) = length c"

definition whole :: "rstring \<Rightarrow> bool" where
  "whole a \<longleftrightarrow> (\<forall>t. char_bytes (a @ t) = char_bytes a @ char_bytes t)"

lemma whole_Nil [simp]: "whole []"
  by (simp add: whole_def)

lemma whole_append [simp]: "whole a \<Longrightarrow> whole b \<Longrightarrow> whole (a @ b)"
  by (simp add: whole_def)

lemma char_bytes_whole_char: "whole_char c \<Longrightarrow> char_bytes (c @ t) = c # char_bytes t"
  by (cases c) (auto simp: whole_char_def)

lemma whole_char_whole: "whole_char c \<Longrightarrow> whole c"
  using char_bytes_whole_char [of c] char_bytes_whole_char [of c "[]"] by (simp add: whole_def)

lemma whole_concat: "(\<forall>c\<in>set cs. whole c) \<Longrightarrow> whole (concat cs)"
  by (induction cs) auto

lemma char_bytes_concat:
  "(\<forall>c\<in>set cs. whole c) \<Longrightarrow> char_bytes (concat cs @ t) = concat (map char_bytes cs) @ char_bytes t"
  by (induction cs) (auto simp: whole_def)

lemma whole_char_ascii: "b < 0x80 \<Longrightarrow> whole_char [b]"
  by (simp add: whole_char_def utf8_width.simps)

lemma char_bytes_ascii_Cons [simp]: "b < 0x80 \<Longrightarrow> char_bytes (b # t) = [b] # char_bytes t"
  using char_bytes_whole_char [OF whole_char_ascii, of b t] by simp

declare char_bytes.simps(2) [simp del]

lemma whole_ascii: "(\<forall>b\<in>set a. b < 0x80) \<Longrightarrow> whole a"
proof (induction a)
  case (Cons b a)
  then show ?case
    using whole_append [OF whole_char_whole [OF whole_char_ascii, of b], of a] by simp
qed simp

lemma char_bytes_ascii: "(\<forall>b\<in>set a. b < 0x80) \<Longrightarrow> char_bytes a = map (\<lambda>b. [b]) a"
proof (induction a)
  case (Cons b a)
  then show ?case using char_bytes_whole_char [OF whole_char_ascii, of b a] by simp
qed simp

text \<open>The shapes of the characters of a valid string.\<close>

definition utf8_char :: "rstring \<Rightarrow> bool" where
  "utf8_char c \<longleftrightarrow>
     (case c of
        [b0] \<Rightarrow> b0 < 0x80
      | [b0, b1] \<Rightarrow> 0xC2 \<le> b0 \<and> b0 \<le> 0xDF \<and> is_cont b1
      | [b0, b1, b2] \<Rightarrow> 0xE0 \<le> b0 \<and> b0 \<le> 0xEF \<and> second3_ok b0 b1 \<and> is_cont b2
      | [b0, b1, b2, b3] \<Rightarrow>
          0xF0 \<le> b0 \<and> b0 \<le> 0xF4 \<and> second4_ok b0 b1 \<and> is_cont b2 \<and> is_cont b3
      | _ \<Rightarrow> False)"

lemma utf8_char_whole: "utf8_char c \<Longrightarrow> whole_char c"
  by (auto simp: utf8_char_def whole_char_def utf8_width.simps split: list.splits)
    (unat_arith | simp)+

lemma utf8_chars_step:
  "utf8_char c \<Longrightarrow> \<forall>x\<in>set (char_bytes t). utf8_char x \<Longrightarrow> \<forall>x\<in>set (char_bytes (c @ t)). utf8_char x"
  by (simp add: char_bytes_whole_char [OF utf8_char_whole])

lemma utf8_valid_chars: "utf8_check_from i s = None \<Longrightarrow> \<forall>c\<in>set (char_bytes s). utf8_char c"
proof (induction i s rule: utf8_check_from.induct)
  case (2 i b bs)
  note ok = 2(5)
  show ?case
  proof (cases "b < 0x80")
    case True
    with ok 2(1) utf8_chars_step [of "[b]" bs] show ?thesis by (simp add: utf8_char_def)
  next
    case b1: False
    show ?thesis
    proof (cases "0xC2 \<le> b \<and> b \<le> 0xDF")
      case True
      with b1 ok obtain c1 r where "bs = c1 # r" "is_cont c1" "utf8_check_from (i + 2) r = None"
        by (auto split: list.splits if_splits)
      with b1 True 2(2) utf8_chars_step [of "[b, c1]" r] show ?thesis by (simp add: utf8_char_def)
    next
      case b2: False
      show ?thesis
      proof (cases "0xE0 \<le> b \<and> b \<le> 0xEF")
        case True
        with b1 b2 ok obtain c1 c2 r where "bs = c1 # c2 # r" "second3_ok b c1" "is_cont c2"
          "utf8_check_from (i + 3) r = None"
          by (auto split: list.splits if_splits)
        with b1 b2 True 2(3) utf8_chars_step [of "[b, c1, c2]" r] show ?thesis
          by (simp add: utf8_char_def)
      next
        case b3: False
        with b1 b2 ok obtain c1 c2 c3 r where "0xF0 \<le> b \<and> b \<le> 0xF4" "bs = c1 # c2 # c3 # r"
          "second4_ok b c1" "is_cont c2" "is_cont c3" "utf8_check_from (i + 4) r = None"
          by (auto split: list.splits if_splits)
        with b1 b2 b3 2(4) utf8_chars_step [of "[b, c1, c2, c3]" r] show ?thesis
          by (simp add: utf8_char_def)
      qed
    qed
  qed
qed simp

text \<open>Encoding the code point of a character gives its bytes back.\<close>

lemma base_64: "c < 64 \<Longrightarrow> (a * 64 + c) div 64 = a" "c < 64 \<Longrightarrow> (a * 64 + c) mod 64 = (c :: nat)"
  by simp_all

lemma div_4096: "n div 4096 = n div 64 div (64 :: nat)" "n div 262144 = n div 64 div 64 div (64 :: nat)"
  by (simp_all flip: div_mult2_eq)

lemma byte_eq: "unat (b :: u8) = k \<Longrightarrow> of_nat k = b"
  by auto

lemma encode_two:
  assumes "unat b0 = 0xC0 + a" "unat b1 = 0x80 + c" "2 \<le> a" "a < 32" "c < 64"
  shows "utf8_encode (a * 64 + c) = [b0, b1]"
proof -
  have "0x80 \<le> a * 64 + c" "a * 64 + c < 0x800" using assms by simp_all
  with assms show ?thesis
    by (simp add: utf8_encode_def base_64 byte_eq [OF assms(1)] byte_eq [OF assms(2)] del: of_nat_add)
qed

lemma encode_three:
  assumes "unat b0 = 0xE0 + a" "unat b1 = 0x80 + c" "unat b2 = 0x80 + d" "a < 16" "c < 64" "d < 64"
    and "32 \<le> a * 64 + c"
  shows "utf8_encode ((a * 64 + c) * 64 + d) = [b0, b1, b2]"
proof -
  define m where "m = a * 64 + c"
  define n where "n = m * 64 + d"
  have "n div 64 = m" "n mod 64 = d" unfolding n_def by (rule base_64, fact)+
  moreover have "m div 64 = a" "m mod 64 = c" unfolding m_def by (rule base_64, fact)+
  moreover have "0x800 \<le> n" "n < 0x10000" using assms by (simp_all add: m_def n_def)
  ultimately have "utf8_encode n = [of_nat (0xE0 + a), of_nat (0x80 + c), of_nat (0x80 + d)]"
    by (simp add: utf8_encode_def div_4096 del: of_nat_add)
  then show ?thesis
    by (simp add: m_def n_def byte_eq [OF assms(1)] byte_eq [OF assms(2)] byte_eq [OF assms(3)]
        del: of_nat_add)
qed

lemma encode_four:
  assumes "unat b0 = 0xF0 + a" "unat b1 = 0x80 + c" "unat b2 = 0x80 + d" "unat b3 = 0x80 + e"
    "c < 64" "d < 64" "e < 64" and "16 \<le> a * 64 + c"
  shows "utf8_encode (((a * 64 + c) * 64 + d) * 64 + e) = [b0, b1, b2, b3]"
proof -
  define m where "m = a * 64 + c"
  define n where "n = m * 64 + d"
  define k where "k = n * 64 + e"
  have "k div 64 = n" "k mod 64 = e" unfolding k_def by (rule base_64, fact)+
  moreover have "n div 64 = m" "n mod 64 = d" unfolding n_def by (rule base_64, fact)+
  moreover have "m div 64 = a" "m mod 64 = c" unfolding m_def by (rule base_64, fact)+
  moreover have "0x10000 \<le> k" using assms by (simp add: m_def n_def k_def)
  ultimately have "utf8_encode k = [of_nat (0xF0 + a), of_nat (0x80 + c), of_nat (0x80 + d), of_nat (0x80 + e)]"
    by (simp add: utf8_encode_def div_4096 del: of_nat_add)
  then show ?thesis
    by (simp add: m_def n_def k_def byte_eq [OF assms(1)] byte_eq [OF assms(2)] byte_eq [OF assms(3)]
        byte_eq [OF assms(4)] del: of_nat_add)
qed

lemma cont_digit: "is_cont b \<Longrightarrow> \<exists>c. unat b = 0x80 + c \<and> c < 64"
  by (rule exI [of _ "unat b - 0x80"]) (auto simp: is_cont_def word_le_nat_alt)

lemma utf8_encode_code_point:
  assumes "utf8_char c"
  shows "utf8_encode (code_point c) = c"
proof -
  consider b0 where "c = [b0]" "b0 < 0x80"
    | b0 b1 where "c = [b0, b1]" "0xC2 \<le> b0" "b0 \<le> 0xDF" "is_cont b1"
    | b0 b1 b2 where "c = [b0, b1, b2]" "0xE0 \<le> b0" "b0 \<le> 0xEF" "second3_ok b0 b1" "is_cont b2"
    | b0 b1 b2 b3 where "c = [b0, b1, b2, b3]" "0xF0 \<le> b0" "b0 \<le> 0xF4" "second4_ok b0 b1"
        "is_cont b2" "is_cont b3"
    using assms by (auto simp: utf8_char_def split: list.splits)
  then show ?thesis
  proof cases
    case 1
    then show ?thesis by (simp add: code_point_def utf8_encode_def word_less_nat_alt)
  next
    case 2
    obtain a where "unat b0 = 0xC0 + a" "2 \<le> a" "a < 32"
      using 2 by (intro that [of "unat b0 - 0xC0"]) (auto simp: word_le_nat_alt)
    moreover obtain d where "unat b1 = 0x80 + d" "d < 64" using 2 cont_digit by blast
    ultimately show ?thesis using 2 encode_two [of b0 a b1 d] by (simp add: code_point_def)
  next
    case 3
    obtain a where a: "unat b0 = 0xE0 + a" "a < 16"
      using 3 by (intro that [of "unat b0 - 0xE0"]) (auto simp: word_le_nat_alt)
    have "is_cont b1" and lead: "b0 = 0xE0 \<Longrightarrow> 0xA0 \<le> unat b1"
      using 3 by (auto simp: second3_ok_def is_cont_def word_le_nat_alt)
    then obtain d where d: "unat b1 = 0x80 + d" "d < 64" using cont_digit by blast
    obtain e where e: "unat b2 = 0x80 + e" "e < 64" using 3 cont_digit by blast
    have "32 \<le> a * 64 + d"
    proof (cases "a = 0")
      case True
      with a byte_eq [of b0 "0xE0"] lead d show ?thesis by simp
    qed simp
    with encode_three [OF a(1) d(1) e(1)] a d e 3 show ?thesis by (simp add: code_point_def)
  next
    case 4
    obtain a where a: "unat b0 = 0xF0 + a"
      using 4 by (intro that [of "unat b0 - 0xF0"]) (auto simp: word_le_nat_alt)
    have "is_cont b1" and lead: "b0 = 0xF0 \<Longrightarrow> 0x90 \<le> unat b1"
      using 4 by (auto simp: second4_ok_def is_cont_def word_le_nat_alt)
    then obtain d where d: "unat b1 = 0x80 + d" "d < 64" using cont_digit by blast
    obtain e where e: "unat b2 = 0x80 + e" "e < 64" using 4 cont_digit by blast
    obtain f where f: "unat b3 = 0x80 + f" "f < 64" using 4 cont_digit by blast
    have "16 \<le> a * 64 + d"
    proof (cases "a = 0")
      case True
      with a byte_eq [of b0 "0xF0"] lead d show ?thesis by simp
    qed simp
    with encode_four [OF a(1) d(1) e(1) f(1)] d e f a 4 show ?thesis by (simp add: code_point_def)
  qed
qed

section \<open>String literals\<close>

lemma hex_digit_cases:
  assumes "k < 16"
  shows "hex_value (hex_digit k) = Some k" and "hex_digit k < 0x80" and "hex_digit k \<noteq> 0x2B"
proof -
  have "unat (hex_digit k) = (if k < 10 then 48 + k else 87 + k)"
    using assms by (auto simp: hex_digit_def unat_of_nat simp del: of_nat_add)
  with assms show "hex_value (hex_digit k) = Some k" and "hex_digit k < 0x80" and "hex_digit k \<noteq> 0x2B"
    by (auto simp: hex_value_def word_le_nat_alt word_less_nat_alt split: if_splits)
qed

lemma from_hex_digits:
  assumes "n < 65536"
  shows "from_hex [hex_digit (n div 4096 mod 16), hex_digit (n div 256 mod 16),
    hex_digit (n div 16 mod 16), hex_digit (n mod 16)] = Some n"
proof -
  define m where "m = n div 16"
  define l where "l = m div 16"
  have "n div 4096 = l div 16" "n div 256 = l"
    by (simp_all add: m_def l_def flip: div_mult2_eq)
  moreover have "l div 16 mod 16 = l div 16" using assms by (simp add: m_def l_def flip: div_mult2_eq)
  moreover have "l div 16 < 16" using assms by (simp add: m_def l_def flip: div_mult2_eq)
  moreover have "16 * (l div 16) + l mod 16 = l" "16 * l + m mod 16 = m" "16 * m + n mod 16 = n"
    by (simp_all add: m_def l_def)
  ultimately show ?thesis by (simp add: from_hex_def hex_digit_cases m_def)
qed

lemma escape_char_ascii_or_same:
  "escape_char c = c \<or> (\<forall>b\<in>set (escape_char c). b < 0x80)"
proof (cases "escape_char c = c")
  case False
  then have "set (escape_char c) \<subseteq> {0x5C, 0x22, 0x6E, 0x72, 0x74, 0x75} \<union> hex_digit ` {..<16}"
    by (auto simp: escape_char_def Let_def split: if_splits)
  then show ?thesis using hex_digit_cases(2) by fastforce
qed simp

lemma whole_escape: "utf8_char c \<Longrightarrow> whole (escape_char c)"
  using escape_char_ascii_or_same [of c] whole_ascii whole_char_whole utf8_char_whole by metis

lemma control_is_scalar: "is_control n \<Longrightarrow> is_scalar n \<and> n < 65536"
  by (auto simp: is_control_def is_scalar_def)

lemma string_body_escape:
  assumes "utf8_char c"
  shows "string_body acc (char_bytes (escape_char c) @ rest) = string_body (acc @ c) rest"
proof -
  consider "c \<in> {[0x22], [0x5C], [0x0A], [0x0D], [0x09]}"
    | "c \<notin> {[0x22], [0x5C], [0x0A], [0x0D], [0x09]}" "is_control (code_point c)"
    | "c \<notin> {[0x22], [0x5C]}" "escape_char c = c"
  proof (cases "c \<in> {[0x22], [0x5C], [0x0A], [0x0D], [0x09]}")
    case False
    with that show ?thesis by (cases "is_control (code_point c)") (simp_all add: escape_char_def)
  qed (use that in blast)
  then show ?thesis
  proof cases
    case 1
    then show ?thesis by (auto simp: escape_char_def char_bytes_ascii unescape_def)
  next
    case 2
    define n where "n = code_point c"
    let ?hs = "[hex_digit (n div 4096 mod 16), hex_digit (n div 256 mod 16), hex_digit (n div 16 mod 16),
      hex_digit (n mod 16)]"
    have "escape_char c = [0x5C, 0x75] @ ?hs" using 2 by (simp add: escape_char_def Let_def n_def)
    then have "char_bytes (escape_char c) = [[0x5C], [0x75]] @ map (\<lambda>b. [b]) ?hs"
      by (subst char_bytes_ascii) (auto simp: hex_digit_cases)
    moreover have "hex_char (map (\<lambda>b. [b]) ?hs) = c"
      using 2 control_is_scalar [of n] from_hex_digits [of n] utf8_encode_code_point [OF assms]
      by (simp add: hex_char_def n_def)
    ultimately show ?thesis by simp
  next
    case 3
    have "char_bytes c = [c]" using char_bytes_whole_char [OF utf8_char_whole [OF assms], of "[]"] by simp
    with 3 show ?thesis by simp
  qed
qed

lemma string_body_escaped:
  "\<forall>c\<in>set cs. utf8_char c \<Longrightarrow>
   string_body acc (concat (map (\<lambda>c. char_bytes (escape_char c)) cs) @ [[0x22]] @ rest) =
     Some (acc @ concat cs, rest)"
  by (induction cs arbitrary: acc) (simp_all add: string_body_escape)

lemma whole_escape_string: "utf8_valid s \<Longrightarrow> whole (json_escape_string s)"
  unfolding json_escape_string_def
  using utf8_valid_chars [of 0 s]
  by (intro whole_append whole_concat) (auto simp: whole_ascii whole_escape utf8_valid_def utf8_check_def)

lemma char_bytes_escape_string:
  assumes "utf8_valid s"
  shows "char_bytes (json_escape_string s) =
    [[0x22]] @ concat (map (\<lambda>c. char_bytes (escape_char c)) (char_bytes s)) @ [[0x22]]"
proof -
  have "\<forall>c\<in>set (char_bytes s). utf8_char c"
    using utf8_valid_chars [of 0 s] assms by (simp add: utf8_valid_def utf8_check_def)
  then have "char_bytes (concat (map escape_char (char_bytes s)) @ [0x22]) =
      concat (map char_bytes (map escape_char (char_bytes s))) @ char_bytes [0x22]"
    by (intro char_bytes_concat) (auto simp: whole_escape)
  then show ?thesis by (simp add: json_escape_string_def comp_def)
qed

lemma parse_json_string_escaped:
  assumes "utf8_valid s"
  shows "parse_json_string (char_bytes (json_escape_string s) @ rest) = Some (s, rest)"
proof -
  have "\<forall>c\<in>set (char_bytes s). utf8_char c"
    using utf8_valid_chars [of 0 s] assms by (simp add: utf8_valid_def utf8_check_def)
  from string_body_escaped [OF this, of "[]" rest] show ?thesis
    by (simp add: parse_json_string_def char_bytes_escape_string [OF assms])
qed

lemma starts_with_Cons [simp]:
  "starts_with ([b] # cs) (c # lit) \<longleftrightarrow> b = of_char c \<and> starts_with cs lit"
  "starts_with [] (c # lit) = False" "starts_with cs []"
  by (auto simp: starts_with_def)

end
