(* ===== verification/Json_Roundtrip.thy ===== *)
theory Json_Roundtrip
  imports Json_Text Samples
begin

text \<open>
  Parsing what the serializer of documents wrote gives the document back.
\<close>

declare char_bytes.simps(2) [simp del]

section \<open>Texts of documents\<close>

text \<open>
  The documents the printer keeps: numbers are finite (others print as \<^verbatim>\<open>null\<close>) and strings are UTF-8.
\<close>

fun json_ok :: "json_val \<Rightarrow> bool" where
  "json_ok (JNumber x) = is_finite x"
| "json_ok (JString s) = utf8_valid s"
| "json_ok (JArray js) = list_all json_ok js"
| "json_ok (JObject ps) = list_all (\<lambda>(k, j). utf8_valid k \<and> json_ok j) ps"
| "json_ok _ = True"

text \<open>What is relied on of the standard library: floats print as decimals that parse to themselves.\<close>

definition decimal :: "rstring \<Rightarrow> bool" where
  "decimal s \<longleftrightarrow>
     (\<exists>sg i frac. s = sg @ i @ frac \<and> sg \<in> {[], [0x2D]} \<and> i \<noteq> [] \<and> list_all is_digit i \<and>
        (frac = [] \<or> (\<exists>d. frac = 0x2E # d \<and> list_all is_digit d)))"

definition floats_print :: "rust_std \<Rightarrow> bool" where
  "floats_print fl \<longleftrightarrow>
     (\<forall>x. is_finite x \<longrightarrow> decimal (f_show fl x) \<and> f_parse fl (f_show fl x) = Some x)"

lemma digit_ascii: "is_digit b \<Longrightarrow> b < 0x80 \<and> is_digit_char [b]"
  by (auto simp: is_digit_def is_digit_char_def word_le_nat_alt word_less_nat_alt)

lemma whole_Cons [simp]: "b < 0x80 \<Longrightarrow> whole t \<Longrightarrow> whole (b # t)"
  using whole_append [OF whole_char_whole [OF whole_char_ascii], of b t] by simp

lemma decimal_bytes: "decimal s \<Longrightarrow> s \<noteq> [] \<and> (\<forall>b\<in>set s. is_digit b \<or> b = 0x2D \<or> b = 0x2E)"
  unfolding decimal_def list_all_iff by auto

definition solid :: "rstring \<Rightarrow> bool" where
  "solid c \<longleftrightarrow> (\<exists>b. c = [b] \<and> b < 0x80 \<and> \<not> is_whitespace (unat b))"

lemma solid_code_point: "solid c \<Longrightarrow> \<not> is_whitespace (code_point c)"
  by (auto simp: solid_def code_point_def)

lemma solid_byte: "solid [b] \<longleftrightarrow> b < 0x80 \<and> \<not> is_whitespace (unat b)"
  by (simp add: solid_def)

lemma solid_decimal_byte: "is_digit b \<or> b = 0x2D \<or> b = 0x2E \<Longrightarrow> solid [b]"
  by (auto simp: solid_byte is_digit_def is_whitespace_def word_le_nat_alt word_less_nat_alt)

lemma trim_start_solid [simp]: "solid c \<Longrightarrow> trim_start (c # cs) = c # cs"
  by (simp add: trim_start_def solid_code_point)

definition text_ok :: "rstring \<Rightarrow> bool" where
  "text_ok s \<longleftrightarrow> whole s \<and> char_bytes s \<noteq> [] \<and> solid (hd (char_bytes s)) \<and> solid (last (char_bytes s))"

lemma text_ok_whole: "text_ok s \<Longrightarrow> whole s"
  by (simp add: text_ok_def)

lemma trim_text_ok:
  assumes "text_ok s"
  shows "trim s = s"
proof -
  let ?strip = "dropWhile (\<lambda>c. is_whitespace (code_point c))"
  have "?strip (char_bytes s) = char_bytes s" "?strip (rev (char_bytes s)) = rev (char_bytes s)"
    using assms by (simp_all add: dropWhile_eq_self_iff hd_rev text_ok_def solid_code_point)
  then show ?thesis by (simp add: trim_def)
qed

lemma text_ok_ascii:
  assumes "s \<noteq> []" and "\<forall>b\<in>set s. solid [b]"
  shows "text_ok s"
proof -
  have "\<forall>b\<in>set s. b < 0x80" using assms(2) by (simp add: solid_byte)
  then show ?thesis
    using assms by (simp add: text_ok_def whole_ascii char_bytes_ascii hd_map last_map)
qed

lemma text_ok_between:
  assumes "whole m" and "solid [b]" and "solid [b']"
  shows "text_ok (b # m @ [b'])"
proof -
  have b: "b < 0x80" "b' < 0x80" using assms by (simp_all add: solid_byte)
  then have "whole (b # m @ [b'])" using assms(1) by simp
  moreover have "char_bytes (b # m @ [b']) = [b] # char_bytes m @ [[b']]"
    using b assms(1) by (simp add: whole_def)
  ultimately show ?thesis using assms unfolding text_ok_def by simp
qed

lemma whole_join: "(\<forall>p\<in>set ps. whole p) \<Longrightarrow> whole (join_with [0x2C] ps)"
  by (cases ps) (auto simp: join_with_def intro!: whole_append whole_concat)

lemma solid_marks [simp]:
  "solid [0x22]" "solid [0x2C]" "solid [0x3A]" "solid [0x5B]" "solid [0x5D]" "solid [0x7B]" "solid [0x7D]"
  "solid [0x6E]" "solid [0x74]" "solid [0x66]"
  by (simp_all add: solid_byte is_whitespace_def)

lemma text_ok_string: "utf8_valid s \<Longrightarrow> text_ok (json_escape_string s)"
  unfolding json_escape_string_def append_Cons append_Nil
  using utf8_valid_chars [of 0 s]
  by (intro text_ok_between whole_concat) (auto simp: whole_escape utf8_valid_def utf8_check_def)

lemma text_ok_words [simp]: "text_ok (bytes_of ''null'')" "text_ok (bytes_of ''true'')" "text_ok (bytes_of ''false'')"
  by (rule text_ok_ascii; simp add: solid_byte is_whitespace_def)+

lemma text_ok_number: "floats_print fl \<Longrightarrow> text_ok (json_number fl x)"
  using decimal_bytes [of "f_show fl x"] text_ok_ascii [of "f_show fl x"] solid_decimal_byte
  by (auto simp: json_number_def floats_print_def simp del: bytes_of_Cons)

lemma text_ok_json:
  assumes "floats_print fl"
  shows "json_ok j \<Longrightarrow> text_ok (json_stringify_jsonval fl j)"
proof (induction j)
  case (JArray js)
  then show ?case
    by (auto simp: json_array_def list_all_iff text_ok_whole intro!: text_ok_between whole_join)
next
  case (JObject ps)
  then have "\<forall>(k, j)\<in>set ps. whole (json_escape_string k) \<and> whole (json_stringify_jsonval fl j)"
    by (force simp: list_all_iff text_ok_whole text_ok_string)
  then show ?case
    by (auto 0 4 simp: json_object_def intro!: text_ok_between whole_join whole_append whole_Cons)
qed (auto simp: json_bool_def text_ok_string text_ok_number [OF assms] simp del: bytes_of_Cons)

section \<open>Parsing what was printed\<close>

text \<open>What may follow a document inside a larger one: nothing, or a mark.\<close>

definition ends_here :: "chars \<Rightarrow> bool" where
  "ends_here cs \<longleftrightarrow> cs = [] \<or> hd cs \<in> {[0x2C], [0x5D], [0x7D]}"

lemma is_digit_char_marks [simp]:
  "\<not> is_digit_char [0x2C]" "\<not> is_digit_char [0x5D]" "\<not> is_digit_char [0x7D]" "\<not> is_digit_char [0x2E]"
  "\<not> is_digit_char [0x2D]"
  by (simp_all add: is_digit_char_def is_digit_def)

lemma span_digits_append:
  assumes "list_all is_digit d" and "rest = [] \<or> \<not> is_digit_char (hd rest)"
  shows "span_digits (map (\<lambda>b. [b]) d @ rest) = (map (\<lambda>b. [b]) d, rest)"
proof -
  have "\<forall>c\<in>set (map (\<lambda>b. [b]) d). is_digit_char c"
    using assms(1) by (auto simp: list_all_iff digit_ascii)
  moreover have "takeWhile is_digit_char rest = []" "dropWhile is_digit_char rest = rest"
    using assms(2) by (cases rest; simp)+
  ultimately show ?thesis unfolding span_digits_def
    by (subst takeWhile_append2, blast, subst dropWhile_append2, blast, simp)
qed

lemma number_span_decimal:
  assumes "decimal s" and "ends_here rest"
  shows "number_span (map (\<lambda>b. [b]) s @ rest) = (map (\<lambda>b. [b]) s, rest)"
proof -
  from assms(1) obtain sg i frac where s: "s = sg @ i @ frac" "sg \<in> {[], [0x2D]}" "i \<noteq> []"
    "list_all is_digit i" "frac = [] \<or> (\<exists>d. frac = 0x2E # d \<and> list_all is_digit d)"
    unfolding decimal_def by blast
  let ?c = "map (\<lambda>b. [b])"
  have "\<not> is_digit 0x2D" by (simp add: is_digit_def)
  with s(3,4) obtain a i' where i: "i = a # i'" "a \<noteq> 0x2D" by (cases i) auto
  have sgn: "span_one [ch 0x2D] (?c s @ rest) = (?c sg, ?c i @ ?c frac @ rest)"
    using s(2) i by (auto simp: s(1) span_one_def)
  have stop: "rest = [] \<or> \<not> is_digit_char (hd rest)" "span_one [ch 0x65, ch 0x45] rest = ([], rest)"
    "span_one [ch 0x2E] rest = ([], rest)"
    using assms(2) by (cases rest; auto simp: ends_here_def span_one_def)+
  show ?thesis
  proof (cases "frac = []")
    case True
    then show ?thesis using s(4) stop sgn by (simp add: number_span_def Let_def span_digits_append s(1))
  next
    case False
    with s(5) obtain d where d: "frac = 0x2E # d" "list_all is_digit d" by blast
    have "span_digits (?c i @ ?c frac @ rest) = (?c i, ?c frac @ rest)"
      using s(4) d by (intro span_digits_append) simp_all
    moreover have "span_one [ch 0x2E] (?c frac @ rest) = ([ch 0x2E], ?c d @ rest)"
      by (simp add: d span_one_def)
    moreover have "span_digits (?c d @ rest) = (?c d, rest)" using d stop by (intro span_digits_append)
    ultimately show ?thesis using stop sgn by (simp add: number_span_def Let_def s(1) d(1))
  qed
qed

lemma parse_number_printed:
  assumes "floats_print fl" and "is_finite x" and "ends_here rest"
  shows "parse_json_number fl (char_bytes (json_number fl x) @ rest) = Some (JNumber x, rest)"
proof -
  let ?s = "f_show fl x"
  have "decimal ?s" "f_parse fl ?s = Some x" using assms by (simp_all add: floats_print_def)
  moreover from this have "char_bytes ?s = map (\<lambda>b. [b]) ?s"
    using decimal_bytes [of ?s] digit_ascii by (intro char_bytes_ascii) auto
  ultimately show ?thesis
    using number_span_decimal [of ?s rest] assms(2,3) decimal_bytes [of ?s]
    by (simp add: parse_json_number_def json_number_def comp_def)
qed

text \<open>The claim for one document, with the text of the document as the bound on the fuel.\<close>

definition reads_back :: "rust_std \<Rightarrow> json_val \<Rightarrow> bool" where
  "reads_back fl j \<longleftrightarrow>
     (\<forall>n rest. length (char_bytes (json_stringify_jsonval fl j)) \<le> n \<longrightarrow> ends_here rest \<longrightarrow>
        parse_fuel n fl (char_bytes (json_stringify_jsonval fl j) @ rest) = Some (j, rest))"

lemma char_bytes_join:
  assumes "whole p" and "\<forall>q\<in>set ps. whole q"
  shows "char_bytes (join_with [0x2C] (p # ps)) =
    char_bytes p @ (if ps = [] then [] else [0x2C] # char_bytes (join_with [0x2C] ps))"
  using assms by (auto simp: join_with_Cons whole_def) (simp add: join_with_def)

lemma array_loop_printed:
  assumes "js \<noteq> []" and "\<forall>j\<in>set js. reads_back fl j \<and> text_ok (json_stringify_jsonval fl j)"
    and "length (char_bytes (join_with [0x2C] (map (json_stringify_jsonval fl) js))) < n"
  shows "array_loop n fl items
      (char_bytes (join_with [0x2C] (map (json_stringify_jsonval fl) js)) @ [0x5D] # rest) =
    Some (JArray (items @ js), rest)"
  using assms
proof (induction js arbitrary: n items)
  case (Cons j js)
  let ?t = "json_stringify_jsonval fl"
  from Cons.prems obtain m where m: "n = Suc m" by (cases n) auto
  have ok: "\<forall>q\<in>set (map ?t js). whole q" "whole (?t j)" using Cons.prems(2) by (auto simp: text_ok_whole)
  note joined = char_bytes_join [OF ok(2,1)]
  show ?case
  proof (cases "js = []")
    case True
    have "parse_fuel m fl (char_bytes (?t j) @ [0x5D] # rest) = Some (j, [0x5D] # rest)"
      using Cons.prems True joined m by (auto simp: reads_back_def ends_here_def)
    with True joined m show ?thesis by simp
  next
    case False
    let ?more = "char_bytes (join_with [0x2C] (map ?t js))"
    have "parse_fuel m fl (char_bytes (?t j) @ [0x2C] # ?more @ [0x5D] # rest) =
        Some (j, [0x2C] # ?more @ [0x5D] # rest)"
      using Cons.prems False joined m by (auto simp: reads_back_def ends_here_def)
    moreover obtain j' js' where "js = j' # js'" using False by (cases js) auto
    then have "trim_start (?more @ [0x5D] # rest) = ?more @ [0x5D] # rest"
      using Cons.prems(2) ok char_bytes_join [of "?t j'" "map ?t js'"]
      by (cases "char_bytes (?t j')") (auto simp: text_ok_def)
    ultimately show ?thesis
      using Cons.IH [OF False, of m "items @ [j]"] Cons.prems False joined m by simp
  qed
qed simp

abbreviation pair_text :: "rust_std \<Rightarrow> rstring \<times> json_val \<Rightarrow> rstring" where
  "pair_text fl p \<equiv> json_escape_string (fst p) @ [0x3A] @ json_stringify_jsonval fl (snd p)"

lemma json_object_texts:
  "json_stringify_jsonval fl (JObject ps) = [0x7B] @ join_with [0x2C] (map (pair_text fl) ps) @ [0x7D]"
  by (simp add: json_object_def comp_def case_prod_beta)

lemma char_bytes_pair:
  assumes "utf8_valid k" and "text_ok (json_stringify_jsonval fl j)"
  shows "whole (pair_text fl (k, j))" and "char_bytes (pair_text fl (k, j)) =
    char_bytes (json_escape_string k) @ [0x3A] # char_bytes (json_stringify_jsonval fl j)"
  using whole_escape_string [OF assms(1)] text_ok_whole [OF assms(2)]
  by (auto intro!: whole_append whole_Cons simp: whole_def [of "json_escape_string k"])

lemma trim_start_text_ok [simp]: "text_ok s \<Longrightarrow> trim_start (char_bytes s @ r) = char_bytes s @ r"
  by (cases "char_bytes s") (auto simp: text_ok_def)

lemma object_loop_printed:
  assumes "ps \<noteq> []"
    and "\<forall>(k, j)\<in>set ps. utf8_valid k \<and> reads_back fl j \<and> text_ok (json_stringify_jsonval fl j)"
    and "length (char_bytes (join_with [0x2C] (map (pair_text fl) ps))) < n"
  shows "object_loop n fl items (char_bytes (join_with [0x2C] (map (pair_text fl) ps)) @ [0x7D] # rest) =
    Some (JObject (items @ ps), rest)"
  using assms
proof (induction ps arbitrary: n items)
  case (Cons p ps)
  obtain k j where p: "p = (k, j)" by (cases p)
  let ?t = "char_bytes (json_stringify_jsonval fl j)"
  from Cons.prems obtain m where m: "n = Suc m" by (cases n) auto
  have k: "utf8_valid k" and j: "text_ok (json_stringify_jsonval fl j)" using Cons.prems(2) p by auto
  have ok: "\<forall>q\<in>set (map (pair_text fl) ps). whole q"
    using Cons.prems(2) char_bytes_pair(1) by force
  note joined = char_bytes_join [OF char_bytes_pair(1) [OF k j] ok, unfolded char_bytes_pair(2) [OF k j]]
  show ?case
  proof (cases "ps = []")
    case True
    have "parse_fuel m fl (?t @ [0x7D] # rest) = Some (j, [0x7D] # rest)"
      using Cons.prems True joined m p by (auto simp: reads_back_def ends_here_def)
    with True joined m p j show ?thesis by (simp add: parse_json_string_escaped [OF k])
  next
    case False
    let ?more = "char_bytes (join_with [0x2C] (map (pair_text fl) ps))"
    have "parse_fuel m fl (?t @ [0x2C] # ?more @ [0x7D] # rest) = Some (j, [0x2C] # ?more @ [0x7D] # rest)"
      using Cons.prems False joined m p by (auto simp: reads_back_def ends_here_def)
    moreover obtain k' j' ps' where p': "ps = (k', j') # ps'" using False by (cases ps) auto
    have k': "utf8_valid k'" "text_ok (json_stringify_jsonval fl j')" using Cons.prems(2) p' by auto
    have "\<forall>q\<in>set (map (pair_text fl) ps'). whole q" using ok p' by simp
    note more = char_bytes_join [OF char_bytes_pair(1) [OF k'] this, unfolded char_bytes_pair(2) [OF k']]
    have "trim_start (?more @ [0x7D] # rest) = ?more @ [0x7D] # rest"
      using more by (simp add: p' text_ok_string [OF k'(1)])
    ultimately show ?thesis
      using Cons.IH [OF False, of m "items @ [(k, j)]"] Cons.prems False joined m p j
      by (simp add: parse_json_string_escaped [OF k])
  qed
qed simp

lemma decimal_head:
  assumes "decimal s"
  shows "\<exists>b r. s = b # r \<and> (b = 0x2D \<or> is_digit b)"
proof -
  from assms obtain sg i frac where "s = sg @ i @ frac" "sg \<in> {[], [0x2D]}" "i \<noteq> []" "list_all is_digit i"
    unfolding decimal_def by blast
  then show ?thesis by (cases i) auto
qed

lemma json_text_head:
  assumes "floats_print fl" and "json_ok j"
  shows "hd (char_bytes (json_stringify_jsonval fl j)) \<noteq> [0x5D]"
proof (cases j)
  case (JNumber x)
  with assms obtain b r where "json_number fl x = b # r" "b = 0x2D \<or> is_digit b"
    using decimal_head [of "f_show fl x"] by (auto simp: floats_print_def json_number_def)
  with JNumber digit_ascii [of b] is_digit_char_marks(2) show ?thesis
    by (auto simp: is_digit_char_def)
qed (use assms in \<open>auto simp: json_bool_def json_array_def json_object_def json_escape_string_def\<close>)

lemma reads_backI:
  assumes "text_ok (json_stringify_jsonval fl j)"
    and "\<And>m rest. \<lbrakk>length (char_bytes (json_stringify_jsonval fl j)) \<le> Suc m; ends_here rest\<rbrakk> \<Longrightarrow>
      parse_fuel (Suc m) fl (char_bytes (json_stringify_jsonval fl j) @ rest) = Some (j, rest)"
  shows "reads_back fl j"
  unfolding reads_back_def
proof (intro allI impI)
  fix n rest
  assume n: "length (char_bytes (json_stringify_jsonval fl j)) \<le> n" and r: "ends_here rest"
  have "n \<noteq> 0" using n assms(1) by (metis le_zero_eq length_0_conv text_ok_def)
  then obtain m where "n = Suc m" using not0_implies_Suc by blast
  with n r show "parse_fuel n fl (char_bytes (json_stringify_jsonval fl j) @ rest) = Some (j, rest)"
    using assms(2) by blast
qed

lemma reads_back_json:
  assumes fl: "floats_print fl"
  shows "json_ok j \<Longrightarrow> reads_back fl j"
proof (induction j)
  case JNull
  show ?case by (rule reads_backI [OF text_ok_json [OF fl JNull]]) simp
next
  case (JBool b)
  show ?case
    by (rule reads_backI [OF text_ok_json [OF fl JBool]]) (cases b; simp add: json_bool_def)
next
  case (JNumber x)
  show ?case
  proof (rule reads_backI [OF text_ok_json [OF fl JNumber]])
    fix m rest assume "ends_here rest"
    from parse_number_printed [OF fl _ this, of x] JNumber
    have "parse_json_number fl (char_bytes (json_number fl x) @ rest) = Some (JNumber x, rest)" by simp
    moreover obtain b r where b: "json_number fl x = b # r" "b = 0x2D \<or> is_digit b"
      using fl JNumber decimal_head [of "f_show fl x"] by (auto simp: floats_print_def json_number_def)
    moreover from this have "b \<notin> {0x6E, 0x74, 0x66, 0x22, 0x5B, 0x7B}" "b < 0x80" "solid [b]"
      "[b] = [0x2D] \<or> is_digit_char [b]"
      using digit_ascii [of b] solid_decimal_byte [of b] by (auto simp: is_digit_def)
    ultimately show "parse_fuel (Suc m) fl (char_bytes (json_stringify_jsonval fl (JNumber x)) @ rest) =
        Some (JNumber x, rest)" by auto
  qed
next
  case (JString s)
  show ?case
    by (rule reads_backI [OF text_ok_json [OF fl JString]])
      (use JString parse_json_string_escaped [of s] in \<open>simp add: char_bytes_escape_string\<close>)
next
  case (JArray js)
  show ?case
  proof (rule reads_backI [OF text_ok_json [OF fl JArray.prems]])
    fix m rest
    let ?t = "json_stringify_jsonval fl"
    assume m: "length (char_bytes (?t (JArray js))) \<le> Suc m"
    have js: "\<forall>j\<in>set js. reads_back fl j \<and> text_ok (?t j)"
      using JArray text_ok_json [OF fl] by (auto simp: list_all_iff)
    then have "whole (join_with [0x2C] (map ?t js))" by (auto intro!: whole_join simp: text_ok_whole)
    then have cs: "char_bytes (?t (JArray js)) = [0x5B] # char_bytes (join_with [0x2C] (map ?t js)) @ [[0x5D]]"
      by (simp add: json_array_def whole_def)
    show "parse_fuel (Suc m) fl (char_bytes (?t (JArray js)) @ rest) = Some (JArray js, rest)"
    proof (cases js)
      case Nil
      then show ?thesis by (simp add: json_array_def join_with_def)
    next
      case (Cons j js')
      with js have j: "text_ok (?t j)" "\<forall>q\<in>set (map ?t js'). whole q" by (auto simp: text_ok_whole)
      then obtain b r where c: "char_bytes (?t j) = [b] # r" "solid [b]"
        by (cases "char_bytes (?t j)") (auto simp: text_ok_def solid_def)
      then have "b \<noteq> 0x5D" using json_text_head [OF fl, of j] JArray.prems Cons by auto
      with c have "trim_start (char_bytes (join_with [0x2C] (map ?t js)) @ [0x5D] # rest) =
          char_bytes (join_with [0x2C] (map ?t js)) @ [0x5D] # rest"
        "\<not> starts_with (char_bytes (join_with [0x2C] (map ?t js)) @ [0x5D] # rest) '']''"
        using char_bytes_join [OF text_ok_whole [OF j(1)] j(2)] by (simp_all add: Cons)
      with array_loop_printed [of js fl m "[]" rest] js cs m Cons show ?thesis by simp
    qed
  qed
next
  case (JObject ps)
  show ?case
  proof (rule reads_backI [OF text_ok_json [OF fl JObject.prems]])
    fix m rest
    let ?t = "json_stringify_jsonval fl" and ?ps = "join_with [0x2C] (map (pair_text fl) ps)"
    assume m: "length (char_bytes (?t (JObject ps))) \<le> Suc m"
    have ok: "\<forall>(k, j)\<in>set ps. utf8_valid k \<and> reads_back fl j \<and> text_ok (?t j)"
      using JObject text_ok_json [OF fl] by (force simp: list_all_iff)
    then have whole: "\<forall>q\<in>set (map (pair_text fl) ps). whole q"
      using char_bytes_pair(1) by force
    then have cs: "char_bytes (?t (JObject ps)) = [0x7B] # char_bytes ?ps @ [[0x7D]]"
      using whole_join [OF whole] unfolding json_object_texts by (simp add: whole_def)
    show "parse_fuel (Suc m) fl (char_bytes (?t (JObject ps)) @ rest) = Some (JObject ps, rest)"
    proof (cases ps)
      case Nil
      then show ?thesis by (simp add: json_object_def join_with_def)
    next
      case (Cons p ps')
      obtain k j where p: "p = (k, j)" by (cases p)
      with ok Cons have k: "utf8_valid k" "text_ok (?t j)" by auto
      have "\<forall>q\<in>set (map (pair_text fl) ps'). whole q" using whole Cons by simp
      note joined = char_bytes_join [OF char_bytes_pair(1) [OF k] this, unfolded char_bytes_pair(2) [OF k]]
      have "trim_start (char_bytes ?ps @ [0x7D] # rest) = char_bytes ?ps @ [0x7D] # rest"
        "\<not> starts_with (char_bytes ?ps @ [0x7D] # rest) ''}''"
        using joined by (simp_all add: Cons p char_bytes_escape_string [OF k(1)])
      with object_loop_printed [of ps fl m "[]" rest] ok cs m Cons show ?thesis by simp
    qed
  qed
qed

text \<open>
  C19: documents survive printing and parsing. What the parser makes of the text of a document with
  finite numbers and valid strings is the document, with the same order of fields and elements,
  duplicate keys included, if floats print as decimals that parse to themselves.
\<close>

theorem json_roundtrip:
  assumes "floats_print fl" and "json_ok j"
  shows "parse_document fl (json_stringify_jsonval fl j) = Some j"
proof -
  let ?s = "json_stringify_jsonval fl j" and ?cs = "char_bytes (json_stringify_jsonval fl j)"
  have ok: "text_ok ?s" using text_ok_json assms .
  then have "trim ?s = ?s" by (rule trim_text_ok)
  moreover have "parse_json fl ?cs = Some (j, [])"
    using reads_back_json [OF assms]
    unfolding reads_back_def parse_json_def ends_here_def by (metis append_Nil2 le_add1 mult_2 trans_le_add1)
  ultimately show ?thesis by (simp add: parse_document_def trim_def)
qed

lemma floats_print_sample: "floats_print sample_std"
proof -
  have "decimal (bytes_of (show_nat n))" for n
    unfolding decimal_def using show_nat_digits [of n]
    by (intro exI [of _ "[]"] exI [of _ "bytes_of (show_nat n)"]) (auto simp: list_all_iff bytes_of_def)
  then show ?thesis
    using show_nat_digits
    by (auto simp: floats_print_def sample_std_def bytes_of_def list_ex_iff)
qed

lemma json_roundtrip_witness:
  "parse_document sample_std (json_stringify_jsonval sample_std
     (JObject [(bytes_of ''a'', JArray [JNumber 7, JNull]), (bytes_of ''b'', JString [0x22, 0xC3, 0xA9])])) =
   Some (JObject [(bytes_of ''a'', JArray [JNumber 7, JNull]), (bytes_of ''b'', JString [0x22, 0xC3, 0xA9])])"
  by (rule json_roundtrip [OF floats_print_sample])
    (simp add: utf8_valid_def utf8_check_def is_cont_def is_finite_def f_exponent_def)

end
