(* ===== verification/Json_Depth.thy ===== *)
theory Json_Depth
  imports Json_Text Samples
begin

text \<open>
  The depth of the parser: every answer leaves less to read than it got, so that nested calls end, and
  the fuel of the model is always enough.
\<close>

section \<open>The fuel of the parser\<close>

lemma trim_start_length: "length (trim_start cs) \<le> length cs"
  by (simp add: trim_start_def length_dropWhile_le)

lemma string_body_shorter: "string_body acc cs = Some (t, r) \<Longrightarrow> length r < length cs"
  by (induction acc cs rule: string_body.induct) (fastforce split: if_splits list.splits)+

lemma parse_json_string_shorter: "parse_json_string cs = Some (t, r) \<Longrightarrow> length r < length cs"
  by (auto simp: parse_json_string_def split: list.splits if_splits dest!: string_body_shorter)

lemma span_append:
  "span_one alts cs = (a, r) \<Longrightarrow> cs = a @ r" "span_digits cs = (a, r) \<Longrightarrow> cs = a @ r"
  by (auto simp: span_one_def span_digits_def split: list.splits if_splits)

lemma number_span_append: "number_span cs = (num, r) \<Longrightarrow> cs = num @ r"
  by (auto simp: number_span_def Let_def split: if_splits prod.splits dest!: span_append)

lemma parse_json_number_shorter: "parse_json_number fl cs = Some (j, r) \<Longrightarrow> length r < length cs"
  by (auto simp: parse_json_number_def split: prod.splits if_splits option.splits
      dest!: number_span_append)

definition shrinks :: "nat \<Rightarrow> ('a \<times> chars) option \<Rightarrow> bool" where
  "shrinks k r \<longleftrightarrow> (\<forall>x s. r = Some (x, s) \<longrightarrow> length s < k)"

lemma shrinks_simps [simp]:
  "shrinks k None" "shrinks k (Some (x, s)) \<longleftrightarrow> length s < k"
  "shrinks k (map_option (\<lambda>(x, s). (f x, s)) r) \<longleftrightarrow> shrinks k r"
  by (auto simp: shrinks_def)

lemma shrinks_mono: "shrinks k r \<Longrightarrow> k \<le> k' \<Longrightarrow> shrinks k' r"
  by (force simp: shrinks_def)

lemma tl_shorter: "starts_with cs (c # lit) \<Longrightarrow> length (tl cs) < length cs"
  by (cases cs) auto

lemma trim_tl_shorter: "starts_with (trim_start cs) (c # lit) \<Longrightarrow> length (trim_start (tl (trim_start cs))) < length cs"
  using tl_shorter [of "trim_start cs"] trim_start_length [of cs] trim_start_length [of "tl (trim_start cs)"]
  by (meson le_less_trans less_le_trans)

lemma parser_shrinks:
  "shrinks (length cs) (parse_fuel n fl cs) \<and> shrinks (length cs) (array_loop n fl items cs) \<and>
   shrinks (length cs) (object_loop n fl ps cs)"
proof (induction n arbitrary: cs items ps)
  case (Suc n)
  have "shrinks (length cs) (parse_fuel (Suc n) fl cs)"
  proof (cases "trim_start cs")
    case (Cons c s)
    have len: "length (trim_start s) \<le> length s" "Suc (length s) \<le> length cs"
      using trim_start_length [of s] trim_start_length [of cs] Cons by simp_all
    have "shrinks (length cs) (array_loop n fl [] (trim_start s))"
      "shrinks (length cs) (object_loop n fl [] (trim_start s))"
      using Suc [of "trim_start s"] len by (meson Suc_leD le_trans shrinks_mono)+
    moreover have "shrinks (length cs) (parse_json_string (c # s))"
      "shrinks (length cs) (parse_json_number fl (c # s))"
      using parse_json_string_shorter [of "c # s"] parse_json_number_shorter [of fl "c # s"] len
      by (fastforce simp: shrinks_def)+
    moreover have "length (tl (trim_start s)) < length cs" using len by simp
    ultimately show ?thesis using Cons len by (auto simp: Let_def)
  qed simp
  moreover have sub: "shrinks (length cs) (parse_fuel n fl (trim_start (tl (trim_start r)))) \<and>
      shrinks (length cs) (array_loop n fl items' (trim_start (tl (trim_start r)))) \<and>
      shrinks (length cs) (object_loop n fl ps' (trim_start (tl (trim_start r)))) \<and>
      length (tl (trim_start r)) < length cs"
    if "starts_with (trim_start r) [c]" "length r < length cs" for r c items' ps'
    using that Suc [of "trim_start (tl (trim_start r))" items' ps'] trim_tl_shorter [OF that(1)]
      tl_shorter [OF that(1)] trim_start_length [of r]
    by (auto elim!: shrinks_mono simp del: length_tl)
  have "shrinks (length cs) (array_loop (Suc n) fl items cs)"
  proof (cases "parse_fuel n fl cs")
    case (Some x)
    then have "length (snd x) < length cs" using Suc [of cs] by (cases x) simp
    with sub [of "snd x"] Some show ?thesis by (auto simp: Let_def simp del: length_tl split: prod.split)
  qed simp
  moreover have "shrinks (length cs) (object_loop (Suc n) fl ps cs)"
  proof (cases "parse_json_string cs")
    case (Some x)
    then have x: "length (snd x) < length cs" using parse_json_string_shorter [of cs] by (cases x) simp
    show ?thesis
    proof (cases "starts_with (trim_start (snd x)) '':''")
      case True
      then have "length (snd y) < length cs"
        if "parse_fuel n fl (trim_start (tl (trim_start (snd x)))) = Some y" for y
        using sub [OF True x] that by (cases y) simp
      with sub True Some show ?thesis
        by (auto simp: Let_def simp del: length_tl split: prod.split option.split)
    qed (use Some in \<open>auto simp: Let_def split: prod.split\<close>)
  qed simp
  ultimately show ?case by blast
qed simp

text \<open>One step at two fuels gives the same when the calls it makes do.\<close>

lemma parse_fuel_step:
  assumes "\<And>c s. trim_start cs = c # s \<Longrightarrow> array_loop m fl [] (trim_start s) = array_loop n fl [] (trim_start s)"
    and "\<And>c s. trim_start cs = c # s \<Longrightarrow> object_loop m fl [] (trim_start s) = object_loop n fl [] (trim_start s)"
  shows "parse_fuel (Suc m) fl cs = parse_fuel (Suc n) fl cs"
  using assms by (cases "trim_start cs") (auto simp: Let_def)

lemma array_loop_step:
  assumes "parse_fuel m fl cs = parse_fuel n fl cs"
    and "\<And>j r. parse_fuel n fl cs = Some (j, r) \<Longrightarrow> starts_with (trim_start r) '','' \<Longrightarrow>
      array_loop m fl (items @ [j]) (trim_start (tl (trim_start r))) =
      array_loop n fl (items @ [j]) (trim_start (tl (trim_start r)))"
  shows "array_loop (Suc m) fl items cs = array_loop (Suc n) fl items cs"
  using assms by (cases "parse_fuel n fl cs") (auto simp: Let_def)

lemma object_loop_step:
  assumes "\<And>k r. parse_json_string cs = Some (k, r) \<Longrightarrow> starts_with (trim_start r) '':'' \<Longrightarrow>
      parse_fuel m fl (trim_start (tl (trim_start r))) = parse_fuel n fl (trim_start (tl (trim_start r)))"
    and "\<And>k r j r'. \<lbrakk>parse_json_string cs = Some (k, r); starts_with (trim_start r) '':'';
      parse_fuel n fl (trim_start (tl (trim_start r))) = Some (j, r'); starts_with (trim_start r') '',''\<rbrakk> \<Longrightarrow>
      object_loop m fl (ps @ [(k, j)]) (trim_start (tl (trim_start r'))) =
      object_loop n fl (ps @ [(k, j)]) (trim_start (tl (trim_start r')))"
  shows "object_loop (Suc m) fl ps cs = object_loop (Suc n) fl ps cs"
  using assms by (cases "parse_json_string cs") (auto simp: Let_def split: option.split)

lemma parser_stable:
  "(2 * length cs + 1 \<le> n \<longrightarrow> parse_fuel (Suc n) fl cs = parse_fuel n fl cs) \<and>
   (2 * length cs + 2 \<le> n \<longrightarrow> array_loop (Suc n) fl items cs = array_loop n fl items cs) \<and>
   (2 * length cs + 2 \<le> n \<longrightarrow> object_loop (Suc n) fl ps cs = object_loop n fl ps cs)"
proof (induction n arbitrary: cs items ps)
  case (Suc n)
  have deeper: "(2 * length s + 1 \<le> n \<longrightarrow> parse_fuel (Suc n) fl s = parse_fuel n fl s) \<and>
      (2 * length s + 2 \<le> n \<longrightarrow> array_loop (Suc n) fl xs s = array_loop n fl xs s) \<and>
      (2 * length s + 2 \<le> n \<longrightarrow> object_loop (Suc n) fl qs s = object_loop n fl qs s)" for s xs qs
    by (rule Suc)
  have left: "length r < length s" if "parse_fuel n fl s = Some (j, r)" for s j r
    using parser_shrinks [of s n fl] that by (simp add: shrinks_def)
  show ?case
  proof (intro conjI impI)
    assume n: "2 * length cs + 1 \<le> Suc n"
    have "2 * length (trim_start s) + 2 \<le> n" if "trim_start cs = c # s" for c s
      using trim_start_length [of s] trim_start_length [of cs] that n by simp
    with deeper show "parse_fuel (Suc (Suc n)) fl cs = parse_fuel (Suc n) fl cs"
      by (intro parse_fuel_step) blast+
  next
    assume n: "2 * length cs + 2 \<le> Suc n"
    have "2 * length (trim_start (tl (trim_start r))) + 2 \<le> n"
      if "parse_fuel n fl cs = Some (j, r)" "starts_with (trim_start r) '',''" for j r
      using left [OF that(1)] trim_tl_shorter [OF that(2)] n by linarith
    with deeper n show "array_loop (Suc (Suc n)) fl items cs = array_loop (Suc n) fl items cs"
      by (intro array_loop_step) auto
  next
    assume n: "2 * length cs + 2 \<le> Suc n"
    have a: "2 * length (trim_start (tl (trim_start r))) + 2 \<le> n"
      if "parse_json_string cs = Some (k, r)" "starts_with (trim_start r) '':''" for k r
      using parse_json_string_shorter [OF that(1)] trim_tl_shorter [OF that(2)] n by linarith
    have "2 * length (trim_start (tl (trim_start r'))) + 2 \<le> n"
      if "parse_json_string cs = Some (k, r)" "starts_with (trim_start r) '':''"
        "parse_fuel n fl (trim_start (tl (trim_start r))) = Some (j, r')"
        "starts_with (trim_start r') '',''" for k r j r'
      using a [OF that(1,2)] left [OF that(3)] trim_tl_shorter [OF that(4)] by linarith
    moreover have "parse_fuel (Suc n) fl s = parse_fuel n fl s" if "2 * length s + 2 \<le> n" for s
      using deeper [of s] that by simp
    ultimately show "object_loop (Suc (Suc n)) fl ps cs = object_loop (Suc n) fl ps cs"
      using a deeper by (intro object_loop_step) blast+
  qed
qed simp



end
