(* ===== verification/Ir.thy ===== *)
theory Ir
  imports Prelude
begin

text \<open>
  The intermediate representation of the compiler, \<^verbatim>\<open>src/compiler/ir/mod.rs\<close>: types, instructions,
  terminators, blocks, functions and modules. A value and a block are the numbers of their newtypes.
  Constructors of instructions, terminators and types carry the prefixes \<open>I\<close>, \<open>T\<close> and \<open>Ty\<close>, as
  several share their names with instructions of the virtual machine.
\<close>

section \<open>Types and operators\<close>

type_synonym block_id = u32
type_synonym ir_value = u32

record ir_span =
  span_file :: rstring
  span_start :: u32
  span_end :: u32

datatype (plugins only: code size) ty =
  Ty_I64 | Ty_F64 | Ty_I1 | Ty_Ptr | Ty_Void | Ty_Struct rstring | Ty_Enum rstring | Ty_Optional ty |
  Ty_String

datatype (plugins only: code size) bin_op =
  Bin_Add | Bin_Sub | Bin_Mul | Bin_Div | Bin_Mod | Bin_Shl | Bin_Shr | Bin_And | Bin_Or | Bin_Xor

datatype (plugins only: code size) cmp_pred = Cmp_Eq | Cmp_Ne | Cmp_Lt | Cmp_Le | Cmp_Gt | Cmp_Ge

record provider_field =
  pf_name :: rstring
  pf_ty :: ty
  pf_is_shared :: bool

record provider =
  provider_name :: rstring
  provider_fields :: "provider_field list"

record struct_field_def =
  sfd_name :: rstring
  sfd_ty :: ty

record struct_def =
  sd_name :: rstring
  sd_fields :: "struct_field_def list"

record enum_variant_def =
  ev_name :: rstring
  ev_payload_types :: "ty list"

record enum_def =
  ed_name :: rstring
  ed_variants :: "enum_variant_def list"

text \<open>What is known of a borrow that is live across an await point.\<close>

record await_borrow_meta =
  holder :: "ir_value option"
  is_exclusive :: bool
  origin :: rstring
  borrow_value :: "ir_value option"
  borrow_span :: "ir_span option"

section \<open>Instructions\<close>

text \<open>The fields of the named variants are in the order of the source.\<close>

datatype (plugins only: size) inst_kind =
  IConstI64 i64 | IConstF64 f64 | IConstStr u32 | ICopy ir_value |
  IBinary bin_op ir_value ir_value | ICmp cmp_pred ir_value ir_value |
  IStrEq ir_value ir_value | IStrConcat ir_value ir_value |
  IAlloca | ILoad ir_value | IStore ir_value ir_value |
  IStructAlloc rstring |
  IStructFieldGet ir_value rstring rstring u32 |
  IStructFieldSet ir_value rstring rstring u32 ir_value |
  IEnumAlloc rstring | IEnumGetTag ir_value rstring | IEnumSetTag ir_value rstring "32 word" |
  IEnumGetPayload ir_value rstring u32 | IEnumSetPayload ir_value rstring u32 ir_value |
  ICall rstring "ir_value list" ty |
  IExternCall rstring "ir_value list" "ty list" ty |
  IMakeClosure rstring "ir_value list" |
  IClosureCall ir_value "ir_value list" ty |
  ILandingPad "rstring list" bool |
  ISetUnwindHandler block_id | IClearUnwindHandler |
  IPhi "(block_id \<times> ir_value) list" |
  IDrop ir_value rstring | ICondDrop ir_value ir_value rstring | IFieldDrop ir_value rstring rstring |
  IRcAlloc ir_value | IRcInc ir_value | IRcDec ir_value "rstring option" | IRcLoad ir_value |
  IRcStore ir_value ir_value | IRcGetCount ir_value |
  IRegionEnter u32 | IRegionExit u32 "(ir_value \<times> rstring) list" |
  IGetTypeName ir_value |
  IAsyncFrameAlloc rstring u32 | IAsyncFrameFree ir_value | IAsyncFrameGetState ir_value |
  IAsyncFrameSetState ir_value u32 | IAsyncFrameLoad ir_value u32 ty |
  IAsyncFrameStore ir_value u32 ir_value | IAsyncCheckCancelled ir_value | IAsyncYield ir_value |
  IAwaitPoint ir_value "await_borrow_meta list" |
  IProviderNew rstring "(rstring \<times> ir_value) list" |
  IProviderFieldGet ir_value rstring rstring |
  IProviderFieldSet ir_value rstring rstring ir_value

record inst =
  result :: ir_value
  kind :: inst_kind
  inst_span :: "ir_span option"

section \<open>Blocks, functions, modules\<close>

datatype (plugins only: code size) poll_result = Ready | Pending | Cancelled | Panicked | Poll_Error

datatype (plugins only: code size) terminator =
  TRet "ir_value option" | TBr block_id | TCondBr ir_value block_id block_id |
  TSwitch ir_value block_id "(i64 \<times> block_id) list" |
  TUnreachable | TThrow "ir_value option" | TPanic "ir_value option" |
  TInvoke rstring "ir_value list" ty "ir_value option" block_id block_id |
  TPollReturn poll_result "ir_value option"

record block_data =
  block_name :: rstring
  insts :: "inst list"
  block_term :: terminator
  block_span :: "ir_span option"

datatype (plugins only: code size) linkage =
  Link_External | Link_Internal | Link_Private | Link_Weak | Link_OnceODR

definition to_llvm_str :: "linkage \<Rightarrow> string" where
  "to_llvm_str l =
     (case l of
        Link_External \<Rightarrow> '''' | Link_Internal \<Rightarrow> ''internal '' | Link_Private \<Rightarrow> ''private ''
      | Link_Weak \<Rightarrow> ''weak '' | Link_OnceODR \<Rightarrow> ''linkonce_odr '')"

record func =
  func_name :: rstring
  params :: "ty list"
  func_ret :: ty
  blocks :: "block_data list"
  func_linkage :: linkage
  func_span :: "ir_span option"

record extern_func =
  ef_name :: rstring
  ef_abi :: rstring
  ef_params :: "ty list"
  ef_ret :: ty

record ir_module =
  ir_module_name :: rstring
  funcs :: "func list"
  extern_funcs :: "extern_func list"
  providers :: "provider list"
  module_strings :: "rstring list"
  structs :: "struct_def list"
  enums :: "enum_def list"

definition module_new :: "rstring \<Rightarrow> ir_module" where
  "module_new n =
     \<lparr>ir_module_name = n, funcs = [], extern_funcs = [], providers = [], module_strings = [],
      structs = [], enums = []\<rparr>"

text \<open>The example module of the source: a function that adds its parameters, values 0 and 1.\<close>

definition demo_add_func :: func where
  "demo_add_func =
     \<lparr>func_name = bytes_of ''add'', params = [Ty_I64, Ty_I64], func_ret = Ty_I64,
      blocks =
        [\<lparr>block_name = bytes_of ''entry'',
          insts = [\<lparr>result = 2, kind = IBinary Bin_Add 0 1, inst_span = None\<rparr>],
          block_term = TRet (Some 2), block_span = None\<rparr>],
      func_linkage = Link_External, func_span = None\<rparr>"

definition demo_add_module :: ir_module where
  "demo_add_module = (module_new (bytes_of ''demo''))\<lparr>funcs := [demo_add_func]\<rparr>"

section \<open>Borrow events\<close>

datatype (plugins only: code size) borrow_kind =
  Borrow_ExclusiveLocal | Borrow_Provider | Borrow_Release

record borrow_event =
  be_kind :: borrow_kind
  be_span :: "ir_span option"

definition borrow_kind_of :: "rstring \<Rightarrow> borrow_kind option" where
  "borrow_kind_of n =
     (if n = bytes_of ''borrowMut'' then Some Borrow_ExclusiveLocal
      else if n = bytes_of ''borrowFromProvider'' then Some Borrow_Provider
      else if n = bytes_of ''release'' then Some Borrow_Release
      else None)"

definition borrow_event_of :: "inst \<Rightarrow> borrow_event option" where
  "borrow_event_of i =
     (case kind i of
        ICall n args ret \<Rightarrow> map_option (\<lambda>k. \<lparr>be_kind = k, be_span = inst_span i\<rparr>) (borrow_kind_of n)
      | _ \<Rightarrow> None)"

definition collect_borrow_events :: "func \<Rightarrow> borrow_event list" where
  "collect_borrow_events f = List.map_filter borrow_event_of (concat (map insts (blocks f)))"

end
