(* ===== verification/Cfg.thy ===== *)
theory Cfg
  imports Ir
begin

text \<open>
  Control-flow graphs, \<^verbatim>\<open>ir/cfg.rs\<close>: successors and predecessors of the blocks, the blocks reachable
  from the entry by a breadth-first search, and their reverse postorder by a depth-first search with
  an explicit stack. Vectors indexed by blocks are lists; every index the code uses is a block of the
  function, and where the model tests it is in range the source would panic.
\<close>

record cfg =
  succs :: "nat list list"
  preds :: "nat list list"
  reachable :: "bool list"
  rpo :: "nat list"

section \<open>Building the graph\<close>

definition block_index :: "block_id \<Rightarrow> nat \<Rightarrow> nat option" where
  "block_index b n = (if unat b < n then Some (unat b) else None)"

definition term_targets :: "terminator \<Rightarrow> block_id list" where
  "term_targets t =
     (case t of
        TRet v \<Rightarrow> [] | TBr bb \<Rightarrow> [bb] | TCondBr c then_bb else_bb \<Rightarrow> [then_bb, else_bb]
      | TSwitch scrut dflt cases \<Rightarrow> dflt # map snd cases
      | TUnreachable \<Rightarrow> [] | TThrow v \<Rightarrow> [] | TPanic v \<Rightarrow> []
      | TInvoke callee args ret res normal unwind \<Rightarrow> [normal, unwind]
      | TPollReturn r v \<Rightarrow> [])"

definition build_succs :: "func \<Rightarrow> nat list list" where
  "build_succs f =
     map (\<lambda>b. List.map_filter (\<lambda>bb. block_index bb (length (blocks f))) (term_targets (block_term b)))
       (blocks f)"

definition build_preds :: "nat list list \<Rightarrow> nat list list" where
  "build_preds ss =
     fold (\<lambda>(i, ts) ps. fold (\<lambda>t ps. ps[t := ps ! t @ [i]]) ts ps) (enumerate 0 ss)
       (replicate (length ss) [])"

text \<open>The queue of the breadth-first search holds the blocks that are marked and not yet expanded.\<close>

definition mark :: "nat \<Rightarrow> bool list \<times> nat list \<Rightarrow> bool list \<times> nat list" where
  "mark v s = (if v < length (fst s) \<and> \<not> fst s ! v then ((fst s)[v := True], snd s @ [v]) else s)"

definition unmarked :: "bool list \<Rightarrow> nat" where
  "unmarked vis = length (filter Not vis)"

lemma unmarked_update: "v < length vis \<Longrightarrow> \<not> vis ! v \<Longrightarrow> Suc (unmarked (vis[v := True])) = unmarked vis"
  unfolding unmarked_def by (induction vis arbitrary: v) (auto split: nat.split simp: nth_Cons')

lemma mark_measure:
  "2 * unmarked (fst (fold mark vs s)) + length (snd (fold mark vs s)) \<le> 2 * unmarked (fst s) + length (snd s)"
proof (induction vs arbitrary: s)
  case (Cons v vs)
  have "2 * unmarked (fst (mark v s)) + length (snd (mark v s)) \<le> 2 * unmarked (fst s) + length (snd s)"
    using unmarked_update [of v "fst s"] by (auto simp: mark_def)
  with Cons [of "mark v s"] show ?case by simp
qed simp

function bfs :: "nat list list \<Rightarrow> bool list \<Rightarrow> nat list \<Rightarrow> bool list" where
  "bfs ss vis [] = vis"
| "bfs ss vis (u # q) = (let s = fold mark (ss ! u) (vis, q) in bfs ss (fst s) (snd s))"
  by pat_completeness auto
termination
proof (relation "measure (\<lambda>(_, vis, q). 2 * unmarked vis + length q)")
  fix ss vis and u :: nat and q s
  assume "s = fold mark (ss ! u) (vis, q)"
  with mark_measure [of "ss ! u" "(vis, q)"]
  show "((ss, fst s, snd s), ss, vis, u # q) \<in> measure (\<lambda>(_, vis, q). 2 * unmarked vis + length q)"
    by (simp add: case_prod_beta)
qed simp

definition mark_reachable :: "nat list list \<Rightarrow> nat \<Rightarrow> bool list" where
  "mark_reachable ss entry =
     (if ss = [] then [] else bfs ss ((replicate (length ss) False)[entry := True]) [entry])"

text \<open>The stack of the depth-first search holds blocks with the index of their next edge.\<close>

definition pending :: "nat list list \<Rightarrow> bool list \<Rightarrow> nat" where
  "pending ss visited = sum_list (map (\<lambda>(v, b). if b then 0 else length (ss ! v) + 2) (enumerate 0 visited))"

lemma pending_update:
  assumes "v < length visited" and "\<not> visited ! v"
  shows "pending ss (visited[v := True]) + length (ss ! v) + 2 = pending ss visited"
proof -
  have "sum_list (map (\<lambda>(v, b). if b then 0 else f v) (enumerate k (visited[v := True]))) + f (k + v) =
      sum_list (map (\<lambda>(v, b). if b then 0 else f v) (enumerate k visited))" for f :: "nat \<Rightarrow> nat" and k
    using assms
  proof (induction visited arbitrary: v k)
    case (Cons b visited)
    show ?case
    proof (cases v)
      case (Suc v')
      then show ?thesis using Cons.IH [of v' "Suc k"] Cons.prems by simp
    qed (use Cons.prems in simp)
  qed simp
  from this [where k = 0 and f = "\<lambda>v. length (ss ! v) + 2"] show ?thesis by (simp add: pending_def)
qed

function dfs ::
  "nat list list \<Rightarrow> bool list \<Rightarrow> bool list \<Rightarrow> (nat \<times> nat) list \<Rightarrow> nat list \<Rightarrow> nat list" where
  "dfs ss reach visited [] order = order"
| "dfs ss reach visited ((u, ei) # stk) order =
     (if ei < length (ss ! u) then
        let v = ss ! u ! ei
        in if v < length visited \<and> reach ! v \<and> \<not> visited ! v then
             dfs ss reach (visited[v := True]) ((v, 0) # (u, ei + 1) # stk) order
           else dfs ss reach visited ((u, ei + 1) # stk) order
      else dfs ss reach visited stk (order @ [u]))"
  by pat_completeness auto
termination
proof (relation "measure (\<lambda>(ss, _, visited, stk, _).
    pending ss visited + sum_list (map (\<lambda>(u, ei). length (ss ! u) - ei + 1) stk))", goal_cases)
  case (2 ss reach visited u ei stk order v)
  with pending_update [of v visited ss] show ?case by simp
qed simp_all

definition compute_rpo :: "nat list list \<Rightarrow> bool list \<Rightarrow> nat \<Rightarrow> nat list" where
  "compute_rpo ss reach entry =
     (if ss = [] then []
      else if reach ! entry then
        rev (dfs ss reach ((replicate (length ss) False)[entry := True]) [(entry, 0)] [])
      else [])"

definition build :: "func \<Rightarrow> cfg" where
  "build f =
     (let ss = build_succs f; reach = mark_reachable ss 0
      in \<lparr>succs = ss, preds = build_preds ss, reachable = reach, rpo = compute_rpo ss reach 0\<rparr>)"

end
