(* ===== verification/Dom.thy ===== *)
theory Dom
  imports Cfg
begin

text \<open>
  Dominators, \<^verbatim>\<open>ir/dom.rs\<close>: immediate dominators by the iteration of Cooper, Harvey and Kennedy,
  the dominator tree, dominance frontiers, and the check of these properties. A loop that the source
  writes without a bound has no result where it would not end, and neither does a failing \<^verbatim>\<open>expect\<close>.
\<close>

type_synonym idoms = "nat option list"

record dom_info =
  idom :: idoms
  tree :: "nat list list"
  frontier :: "nat list list"

section \<open>Immediate dominators\<close>

text \<open>The positions in the reverse postorder, \<^verbatim>\<open>usize::MAX\<close> for a block that is not in it.\<close>

definition rpo_index :: "nat \<Rightarrow> nat list \<Rightarrow> nat list" where
  "rpo_index n order = fold (\<lambda>(i, b) ix. ix[b := i]) (enumerate 0 order) (replicate n (2 ^ 64 - 1))"

text \<open>
  The two inner loops of \<^verbatim>\<open>intersect\<close> move one finger each while it is the farther one; the outer loop
  goes on until they meet.
\<close>

partial_function (option) intersect :: "idoms \<Rightarrow> nat list \<Rightarrow> nat \<Rightarrow> nat \<Rightarrow> nat option" where
  "intersect idoms ix b1 b2 =
     (if b1 = b2 then Some b1
      else if ix ! b1 > ix ! b2 then
        Option.bind (idoms ! b1) (\<lambda>d. intersect idoms ix d b2)
      else if ix ! b2 > ix ! b1 then
        Option.bind (idoms ! b2) (\<lambda>d. intersect idoms ix b1 d)
      else intersect idoms ix b1 b2)"

fun new_idom :: "cfg \<Rightarrow> nat list \<Rightarrow> idoms \<Rightarrow> nat list \<Rightarrow> nat option \<Rightarrow> nat option option" where
  "new_idom c ix idoms [] acc = Some acc"
| "new_idom c ix idoms (p # ps) acc =
     (if \<not> reachable c ! p \<or> idoms ! p = None then new_idom c ix idoms ps acc
      else
        case acc of
          None \<Rightarrow> new_idom c ix idoms ps (Some p)
        | Some q \<Rightarrow>
            Option.bind (intersect idoms ix p q) (\<lambda>d. new_idom c ix idoms ps (Some d)))"

fun idom_pass :: "cfg \<Rightarrow> nat list \<Rightarrow> nat list \<Rightarrow> idoms \<Rightarrow> bool \<Rightarrow> (idoms \<times> bool) option" where
  "idom_pass c ix [] idoms changed = Some (idoms, changed)"
| "idom_pass c ix (b # bs) idoms changed =
     (if \<not> reachable c ! b then idom_pass c ix bs idoms changed
      else
        Option.bind (new_idom c ix idoms (preds c ! b) None) (\<lambda>new.
          if new \<noteq> None \<and> idoms ! b \<noteq> new then idom_pass c ix bs (idoms[b := new]) True
          else idom_pass c ix bs idoms changed))"

partial_function (option) idom_iterate :: "cfg \<Rightarrow> nat list \<Rightarrow> idoms \<Rightarrow> idoms option" where
  "idom_iterate c ix idoms =
     Option.bind (idom_pass c ix (tl (rpo c)) idoms False) (\<lambda>s.
       if snd s then idom_iterate c ix (fst s) else Some (fst s))"

definition entry_block :: "cfg \<Rightarrow> nat" where
  "entry_block c = (case rpo c of [] \<Rightarrow> 0 | b # _ \<Rightarrow> b)"

definition compute_idoms :: "nat \<Rightarrow> cfg \<Rightarrow> idoms option" where
  "compute_idoms n c =
     idom_iterate c (rpo_index n (rpo c)) ((replicate n None)[entry_block c := Some (entry_block c)])"

section \<open>Tree and frontiers\<close>

definition dom_tree :: "idoms \<Rightarrow> nat list list" where
  "dom_tree idoms =
     fold (\<lambda>(b, d) t. case d of Some p \<Rightarrow> if p \<noteq> b then t[p := t ! p @ [b]] else t | None \<Rightarrow> t)
       (enumerate 0 idoms) (replicate (length idoms) [])"

partial_function (option) frontier_run ::
  "idoms \<Rightarrow> nat \<Rightarrow> nat \<Rightarrow> nat list list \<Rightarrow> nat list list option" where
  "frontier_run idoms b runner fr =
     (if Some runner = idoms ! b then Some fr
      else
        let fr' = fr[runner := fr ! runner @ [b]]
        in case idoms ! runner of
             Some d \<Rightarrow> frontier_run idoms b d fr'
           | None \<Rightarrow> Some fr')"

fun frontier_preds :: "idoms \<Rightarrow> nat \<Rightarrow> nat list \<Rightarrow> nat list list \<Rightarrow> nat list list option" where
  "frontier_preds idoms b [] fr = Some fr"
| "frontier_preds idoms b (p # ps) fr =
     Option.bind (frontier_run idoms b p fr) (frontier_preds idoms b ps)"

fun frontier_blocks :: "cfg \<Rightarrow> idoms \<Rightarrow> nat list \<Rightarrow> nat list list \<Rightarrow> nat list list option" where
  "frontier_blocks c idoms [] fr = Some fr"
| "frontier_blocks c idoms (b # bs) fr =
     (if reachable c ! b \<and> length (preds c ! b) \<ge> 2 then
        Option.bind (frontier_preds idoms b (preds c ! b) fr) (frontier_blocks c idoms bs)
      else frontier_blocks c idoms bs fr)"

text \<open>Later copies of an element are dropped.\<close>

definition dedup :: "nat list \<Rightarrow> nat list" where
  "dedup xs = rev (remdups (rev xs))"

definition compute_frontier :: "cfg \<Rightarrow> idoms \<Rightarrow> nat list list option" where
  "compute_frontier c idoms =
     map_option (map dedup)
       (frontier_blocks c idoms [0..<length idoms] (replicate (length idoms) []))"

definition compute :: "func \<Rightarrow> cfg \<Rightarrow> dom_info option" where
  "compute f c =
     (let n = length (blocks f)
      in if n = 0 then Some \<lparr>idom = [], tree = [], frontier = []\<rparr>
         else
           Option.bind (compute_idoms n c) (\<lambda>idoms.
             Option.bind (compute_frontier c idoms) (\<lambda>fr.
               Some \<lparr>idom = idoms, tree = dom_tree idoms, frontier = fr\<rparr>)))"

section \<open>Queries and checks\<close>

partial_function (option) climbs_to :: "idoms \<Rightarrow> nat \<Rightarrow> nat \<Rightarrow> bool option" where
  "climbs_to idoms a v =
     (if v = a then Some True
      else
        case idoms ! v of
          None \<Rightarrow> Some False
        | Some d \<Rightarrow> if d = v then Some False else climbs_to idoms a d)"

definition dominates :: "dom_info \<Rightarrow> nat \<Rightarrow> nat \<Rightarrow> bool option" where
  "dominates d a b = climbs_to (idom d) a b"

text \<open>The messages of \<^verbatim>\<open>verify_properties\<close>, without their wording.\<close>

datatype dom_error =
  Entry_Idom nat nat | Own_Idom nat | No_Idom nat | Tree_Violation nat nat | Frontier_Mismatch nat

definition idom_errors :: "dom_info \<Rightarrow> cfg \<Rightarrow> nat \<Rightarrow> dom_error list" where
  "idom_errors d c b =
     (if \<not> reachable c ! b then []
      else
        case idom d ! b of
          Some p \<Rightarrow>
            if b = entry_block c then (if p \<noteq> b then [Entry_Idom b p] else [])
            else if p = b then [Own_Idom b] else []
        | None \<Rightarrow> [No_Idom b])"

text \<open>
  A tree edge whose check does not return counts as not returning; the frontiers are recomputed by
  the loop that computed them.
\<close>

fun tree_errors :: "dom_info \<Rightarrow> (nat \<times> nat) list \<Rightarrow> dom_error list option" where
  "tree_errors d [] = Some []"
| "tree_errors d ((p, k) # es) =
     Option.bind (dominates d p k) (\<lambda>ok.
       map_option (\<lambda>errs. (if ok then [] else [Tree_Violation p k]) @ errs) (tree_errors d es))"

definition verify_properties :: "dom_info \<Rightarrow> cfg \<Rightarrow> dom_error list option" where
  "verify_properties d c =
     (let n = length (idom d)
      in if n = 0 then Some []
         else
           Option.bind (tree_errors d (concat (map (\<lambda>(p, ks). map (Pair p) ks) (enumerate 0 (tree d)))))
             (\<lambda>terrs. Option.bind (compute_frontier c (idom d)) (\<lambda>expected.
                Some (concat (map (idom_errors d c) [0..<n]) @ terrs @
                  concat (map (\<lambda>(b, rhs).
                    if set (frontier d ! b) \<noteq> set rhs then [Frontier_Mismatch b] else [])
                    (enumerate 0 expected))))))"

section \<open>Evaluation\<close>

text \<open>One step of each loop, for evaluating them on concrete graphs.\<close>

lemma intersect_steps:
  "intersect \<sigma> ix b b = Some b"
  "ix ! b2 < ix ! b1 \<Longrightarrow> \<sigma> ! b1 = Some d \<Longrightarrow> b1 \<noteq> b2 \<Longrightarrow> intersect \<sigma> ix b1 b2 = intersect \<sigma> ix d b2"
  "ix ! b1 < ix ! b2 \<Longrightarrow> \<sigma> ! b2 = Some d \<Longrightarrow> b1 \<noteq> b2 \<Longrightarrow> intersect \<sigma> ix b1 b2 = intersect \<sigma> ix b1 d"
  by (simp_all add: intersect.simps)

lemma iterate_steps:
  "idom_pass c ix (tl (rpo c)) \<sigma> False = Some (\<sigma>', True) \<Longrightarrow> idom_iterate c ix \<sigma> = idom_iterate c ix \<sigma>'"
  "idom_pass c ix (tl (rpo c)) \<sigma> False = Some (\<sigma>', False) \<Longrightarrow> idom_iterate c ix \<sigma> = Some \<sigma>'"
  by (simp_all add: idom_iterate.simps)

lemma frontier_run_steps:
  "Some r = \<sigma> ! b \<Longrightarrow> frontier_run \<sigma> b r fr = Some fr"
  "Some r \<noteq> \<sigma> ! b \<Longrightarrow> \<sigma> ! r = Some d \<Longrightarrow>
   frontier_run \<sigma> b r fr = frontier_run \<sigma> b d (fr[r := fr ! r @ [b]])"
  "Some r \<noteq> \<sigma> ! b \<Longrightarrow> \<sigma> ! r = None \<Longrightarrow> frontier_run \<sigma> b r fr = Some (fr[r := fr ! r @ [b]])"
  by (simp_all add: frontier_run.simps Let_def)

lemmas dom_steps = intersect_steps iterate_steps frontier_run_steps

end
