(* ===== verification/Cfg_Search.thy ===== *)
theory Cfg_Search
  imports Cfg
begin

text \<open>
  What the searches of the control-flow graph compute: the predecessor lists invert the successor
  lists, the marked blocks are those reachable from the entry, and the reverse postorder lists each
  of them once, a block behind one of its predecessors and, cycles aside, behind all of them.
\<close>

definition wf_graph :: "nat list list \<Rightarrow> bool" where
  "wf_graph ss \<longleftrightarrow> (\<forall>ts\<in>set ss. \<forall>t\<in>set ts. t < length ss)"

definition edges :: "nat list list \<Rightarrow> (nat \<times> nat) set" where
  "edges ss = {(u, v). u < length ss \<and> v \<in> set (ss ! u)}"

lemma wf_graphD: "wf_graph ss \<Longrightarrow> u < length ss \<Longrightarrow> v \<in> set (ss ! u) \<Longrightarrow> v < length ss"
  by (auto simp: wf_graph_def)

lemma edges_range: "wf_graph ss \<Longrightarrow> (u, v) \<in> edges ss \<Longrightarrow> u < length ss \<and> v < length ss"
  by (auto simp: wf_graph_def edges_def)

lemma length_build_succs [simp]: "length (build_succs f) = length (blocks f)"
  by (simp add: build_succs_def)

lemma wf_build_succs: "wf_graph (build_succs f)"
  by (auto simp: wf_graph_def build_succs_def List.map_filter_def block_index_def split: if_splits)

section \<open>Predecessors\<close>

lemma length_push_preds [simp]: "length (fold (\<lambda>t ps. ps[t := ps ! t @ [i]]) ts ps) = length ps"
  by (induction ts arbitrary: ps) auto

lemma nth_push_preds:
  "x < length ps \<Longrightarrow>
   fold (\<lambda>t ps. ps[t := ps ! t @ [i]]) ts ps ! x = ps ! x @ replicate (count_list ts x) i"
proof (induction ts arbitrary: ps)
  case (Cons t ts)
  then show ?case
    using Cons.IH [of "ps[t := ps ! t @ [i]]"] by (simp add: nth_list_update replicate_append_same)
qed simp

lemma nth_build_preds:
  assumes "x < length ss"
  shows "build_preds ss ! x = concat (map (\<lambda>(i, ts). replicate (count_list ts x) i) (enumerate 0 ss))"
proof -
  have "fold (\<lambda>(i, ts) ps. fold (\<lambda>t ps. ps[t := ps ! t @ [i]]) ts ps) es ps ! x =
      ps ! x @ concat (map (\<lambda>(i, ts). replicate (count_list ts x) i) es)" if "x < length ps" for es ps
    using that by (induction es arbitrary: ps) (auto simp: nth_push_preds)
  from this [of "replicate (length ss) []"] assms show ?thesis by (simp add: build_preds_def)
qed

lemma length_build_preds [simp]: "length (build_preds ss) = length ss"
proof -
  have "length (fold (\<lambda>(i, ts) ps. fold (\<lambda>t ps. ps[t := ps ! t @ [i]]) ts ps) es ps) = length ps"
    for es :: "(nat \<times> nat list) list" and ps
    by (induction es arbitrary: ps) auto
  then show ?thesis by (simp add: build_preds_def)
qed

lemma set_build_preds:
  assumes "x < length ss"
  shows "set (build_preds ss ! x) = {u. (u, x) \<in> edges ss}"
proof -
  have "u \<in> set (build_preds ss ! x) \<longleftrightarrow> u < length ss \<and> count_list (ss ! u) x \<noteq> 0" for u
  proof -
    have "u \<in> set (build_preds ss ! x) \<longleftrightarrow>
        (\<exists>p\<in>set (enumerate 0 ss). count_list (snd p) x \<noteq> 0 \<and> u = fst p)"
      unfolding nth_build_preds [OF assms] by (simp add: case_prod_beta) blast
    also have "\<dots> \<longleftrightarrow> u < length ss \<and> count_list (ss ! u) x \<noteq> 0"
      unfolding Bex_def in_set_enumerate_eq by simp
    finally show ?thesis .
  qed
  then show ?thesis by (auto simp: edges_def count_list_0_iff)
qed

section \<open>Reachability\<close>

definition reaches :: "nat list list \<Rightarrow> nat \<Rightarrow> nat \<Rightarrow> bool" where
  "reaches ss u v \<longleftrightarrow> (u, v) \<in> (edges ss)\<^sup>*"

lemma reaches_refl [simp]: "reaches ss u u"
  by (simp add: reaches_def)

lemma reaches_step: "reaches ss u v \<Longrightarrow> (v, w) \<in> edges ss \<Longrightarrow> reaches ss u w"
  by (auto simp: reaches_def)

lemma reaches_trans: "reaches ss u v \<Longrightarrow> reaches ss v w \<Longrightarrow> reaches ss u w"
  by (auto simp: reaches_def)

lemma reaches_range:
  assumes "wf_graph ss" and "reaches ss u v" and "u < length ss"
  shows "v < length ss"
  using assms(2) unfolding reaches_def
  by (induction rule: rtrancl_induct) (use assms(1,3) in \<open>auto dest: edges_range\<close>)

lemma fold_mark:
  defines "step \<equiv> fold mark"
  shows "length (fst (step vs s)) = length (fst s)"
    and "w < length (fst s) \<Longrightarrow> fst (step vs s) ! w \<longleftrightarrow> fst s ! w \<or> w \<in> set vs"
    and "set (snd (step vs s)) = set (snd s) \<union> {w \<in> set vs. w < length (fst s) \<and> \<not> fst s ! w}"
proof -
  have mark: "length (fst (mark v s)) = length (fst s)"
    "w < length (fst s) \<Longrightarrow> fst (mark v s) ! w \<longleftrightarrow> fst s ! w \<or> w = v"
    "set (snd (mark v s)) = set (snd s) \<union> {w \<in> {v}. w < length (fst s) \<and> \<not> fst s ! w}" for v s w
    by (auto simp: mark_def nth_list_update)
  show "length (fst (step vs s)) = length (fst s)" unfolding step_def
    by (induction vs arbitrary: s) (auto simp: mark)
  show "w < length (fst s) \<Longrightarrow> fst (step vs s) ! w \<longleftrightarrow> fst s ! w \<or> w \<in> set vs" unfolding step_def
    by (induction vs arbitrary: s) (auto simp: mark)
  show "set (snd (step vs s)) = set (snd s) \<union> {w \<in> set vs. w < length (fst s) \<and> \<not> fst s ! w}"
    unfolding step_def by (induction vs arbitrary: s) (auto simp: mark)
qed

lemma bfs_correct:
  assumes "wf_graph ss" and "length vis = length ss"
    and "\<forall>u\<in>set q. u < length ss \<and> vis ! u"
    and "\<forall>u<length ss. vis ! u \<longrightarrow> reaches ss e u"
    and "\<forall>u<length ss. vis ! u \<longrightarrow> u \<notin> set q \<longrightarrow> (\<forall>v\<in>set (ss ! u). vis ! v)"
  shows "length (bfs ss vis q) = length ss \<and>
    (\<forall>u<length ss. (vis ! u \<longrightarrow> bfs ss vis q ! u) \<and> (bfs ss vis q ! u \<longrightarrow> reaches ss e u) \<and>
       (bfs ss vis q ! u \<longrightarrow> (\<forall>v\<in>set (ss ! u). bfs ss vis q ! v)))"
  using assms
proof (induction ss vis q rule: bfs.induct)
  case (1 ss vis)
  then show ?case by auto
next
  case (2 ss vis u q)
  note prems = 2(2-)
  define s where "s = fold mark (ss ! u) (vis, q)"
  note s = fold_mark [where vs = "ss ! u" and s = "(vis, q)", folded s_def, simplified]
  have wf: "wf_graph ss" by (rule prems)
  have u: "u < length ss" "vis ! u" "reaches ss e u" using prems by auto
  have out: "\<forall>v\<in>set (ss ! u). v < length ss \<and> reaches ss e v"
    using u wf_graphD [OF wf u(1)] reaches_step [OF u(3)] by (auto simp: edges_def)
  have "length (fst s) = length ss" using s(1) prems by simp
  moreover have "\<forall>w\<in>set (snd s). w < length ss \<and> fst s ! w" using s(2,3) prems(2,3) out by auto
  moreover have "\<forall>w<length ss. fst s ! w \<longrightarrow> reaches ss e w" using s(2) prems(2,4) out by auto
  moreover have "\<forall>w<length ss. fst s ! w \<longrightarrow> w \<notin> set (snd s) \<longrightarrow> (\<forall>v\<in>set (ss ! w). fst s ! v)"
  proof (intro allI impI ballI)
    fix w v assume w: "w < length ss" "fst s ! w" "w \<notin> set (snd s)" and v: "v \<in> set (ss ! w)"
    have "v < length ss" using wf_graphD [OF wf w(1) v] .
    moreover have "v \<in> set (ss ! u) \<or> vis ! v"
    proof (cases "w = u")
      case False
      with w s(2,3) prems(2) have "vis ! w" "w \<notin> set (u # q)" by auto
      with prems w v show ?thesis by blast
    qed (use v in simp)
    ultimately show "fst s ! v" using s(2) prems(2) by auto
  qed
  ultimately have "length (bfs ss (fst s) (snd s)) = length ss \<and>
      (\<forall>u<length ss. (fst s ! u \<longrightarrow> bfs ss (fst s) (snd s) ! u) \<and> (bfs ss (fst s) (snd s) ! u \<longrightarrow> reaches ss e u) \<and>
       (bfs ss (fst s) (snd s) ! u \<longrightarrow> (\<forall>v\<in>set (ss ! u). bfs ss (fst s) (snd s) ! v)))"
    using 2(1) [OF s_def wf] by blast
  then show ?case using s(2) prems(2) by (auto simp flip: s_def)
qed

lemma mark_reachable_iff:
  assumes "wf_graph ss" and "e < length ss"
  shows "length (mark_reachable ss e) = length ss"
    and "u < length ss \<Longrightarrow> mark_reachable ss e ! u \<longleftrightarrow> reaches ss e u"
proof -
  define r where "r = bfs ss ((replicate (length ss) False)[e := True]) [e]"
  have r: "length r = length ss \<and>
      (\<forall>u<length ss. ((replicate (length ss) False)[e := True] ! u \<longrightarrow> r ! u) \<and> (r ! u \<longrightarrow> reaches ss e u) \<and>
       (r ! u \<longrightarrow> (\<forall>v\<in>set (ss ! u). r ! v)))"
    unfolding r_def by (rule bfs_correct) (use assms in \<open>auto simp: nth_list_update split: if_splits\<close>)
  moreover have mr: "mark_reachable ss e = r" using assms by (auto simp: mark_reachable_def r_def)
  ultimately show "length (mark_reachable ss e) = length ss" by simp
  have "r ! u" if "reaches ss e u" for u
    using that unfolding reaches_def
  proof (induction rule: rtrancl_induct)
    case base
    then show ?case using r assms by auto
  next
    case (step y z)
    then show ?case using r by (auto simp: edges_def)
  qed
  moreover assume "u < length ss"
  ultimately show "mark_reachable ss e ! u \<longleftrightarrow> reaches ss e u" using r mr by blast
qed

section \<open>Reverse postorder\<close>

definition before :: "'a list \<Rightarrow> 'a \<Rightarrow> 'a \<Rightarrow> bool" where
  "before xs x y \<longleftrightarrow> (\<exists>as bs. xs = as @ bs \<and> x \<in> set as \<and> y \<in> set bs)"

lemma before_append1 [intro]: "before xs x y \<Longrightarrow> before (xs @ ys) x y"
  unfolding before_def by (metis append.assoc set_append Un_iff)

lemma before_last: "x \<in> set xs \<Longrightarrow> before (xs @ [y]) x y"
  unfolding before_def by (metis list.set_intros(1))

lemma before_rev: "before (rev xs) x y \<longleftrightarrow> before xs y x"
  unfolding before_def by (metis rev_append rev_rev_ident set_rev)

lemma before_nth:
  assumes "before xs x y" and "distinct xs" and "xs ! i = x" and "xs ! j = y" and "i < length xs" "j < length xs"
  shows "i < j"
proof -
  from assms(1) obtain as bs where xs: "xs = as @ bs" "x \<in> set as" "y \<in> set bs" by (auto simp: before_def)
  then obtain i' j' where ij: "i' < length as" "as ! i' = x" "j' < length bs" "bs ! j' = y"
    by (auto simp: in_set_conv_nth)
  then have "xs ! i' = x" "xs ! (length as + j') = y" "i' < length xs" "length as + j' < length xs"
    using xs by (auto simp: nth_append)
  with assms(2-6) have "i = i'" "j = length as + j'" by (metis nth_eq_iff_index_eq)+
  with ij show ?thesis by simp
qed

text \<open>
  The invariant of the depth-first search from \<open>e\<close>: the stack is a path from the entry, the blocks in
  the order have been expanded, each behind its successors except those that lead back to it, and
  each of them was entered from one that is finished later.
\<close>

definition dfs_shape :: "nat list list \<Rightarrow> nat \<Rightarrow> bool list \<Rightarrow> nat list \<Rightarrow> nat list \<Rightarrow> bool" where
  "dfs_shape ss e visited us order \<longleftrightarrow>
     length visited = length ss \<and> distinct (order @ us) \<and>
     (\<forall>v. v \<in> set order \<union> set us \<longleftrightarrow> v < length ss \<and> visited ! v) \<and>
     successively (\<lambda>v u. (u, v) \<in> edges ss) us \<and> last (order @ us) = e \<and> order @ us \<noteq> [] \<and>
     (us \<noteq> [] \<longrightarrow> last us = e) \<and> (\<forall>u\<in>set order \<union> set us. reaches ss e u) \<and>
     (\<forall>u\<in>set order. \<forall>v\<in>set (ss ! u). visited ! v \<and> (before order v u \<or> reaches ss v u)) \<and>
     (\<forall>v\<in>set order. v \<noteq> e \<longrightarrow> (\<exists>u. (u, v) \<in> edges ss \<and> (before order v u \<or> u \<in> set us)))"

definition scanned :: "nat list list \<Rightarrow> bool list \<Rightarrow> (nat \<times> nat) list \<Rightarrow> bool" where
  "scanned ss visited stk \<longleftrightarrow>
     (\<forall>(u, ei)\<in>set stk. \<forall>v\<in>set (take ei (ss ! u)). visited ! v)"

lemma dfs_shapeD:
  assumes "dfs_shape ss e visited us order"
  shows "length visited = length ss" and "v \<in> set us \<Longrightarrow> v < length ss \<and> visited ! v"
    and "v < length ss \<Longrightarrow> visited ! v \<Longrightarrow> v \<in> set order \<or> v \<in> set us"
  using assms unfolding dfs_shape_def by blast+

lemma dfs_shape_parts:
  assumes "dfs_shape ss e visited us order"
  shows "\<forall>u\<in>set order. \<forall>v\<in>set (ss ! u). visited ! v \<and> (before order v u \<or> reaches ss v u)"
    and "\<forall>v\<in>set order. v \<noteq> e \<longrightarrow> (\<exists>u. (u, v) \<in> edges ss \<and> (before order v u \<or> u \<in> set us))"
    and "\<forall>v. v \<in> set order \<union> set us \<longleftrightarrow> v < length ss \<and> visited ! v"
    and "distinct (order @ us)" "last (order @ us) = e" "us \<noteq> [] \<longrightarrow> last us = e"
    and "successively (\<lambda>v u. (u, v) \<in> edges ss) us" "order @ us \<noteq> []"
    and "\<forall>u\<in>set order \<union> set us. reaches ss e u"
  using assms unfolding dfs_shape_def by blast+

lemma path_reaches_top:
  "successively (\<lambda>v u. (u, v) \<in> edges ss) (v # us) \<Longrightarrow> u \<in> set (v # us) \<Longrightarrow> reaches ss u v"
proof (induction us arbitrary: v)
  case (Cons w us)
  then have "u = v \<or> reaches ss u w" "(w, v) \<in> edges ss" by auto
  then show ?case by (auto intro: reaches_step)
qed simp

lemma scanned_push:
  assumes "scanned ss visited ((u, ei) # stk)" and "wf_graph ss" and "length visited = length ss"
    and "\<forall>w\<in>fst ` set ((u, ei) # stk). w < length ss" and "ei < length (ss ! u)" and "ss ! u ! ei < length ss"
  shows "scanned ss (visited[ss ! u ! ei := True]) ((ss ! u ! ei, 0) # (u, ei + 1) # stk)"
proof -
  have "visited[ss ! u ! ei := True] ! v" if "visited ! v" "v < length ss" for v
    using that assms(3) by (cases "v = ss ! u ! ei") auto
  moreover have "v < length ss" if "(w, k) \<in> set ((u, ei) # stk)" "v \<in> set (take k (ss ! w))" for w k v
    using that assms(2,4) by (force dest: in_set_takeD intro: wf_graphD [of ss w])
  ultimately show ?thesis
    using assms(1,3,5,6) unfolding scanned_def by (fastforce simp: take_Suc_conv_app_nth)
qed

lemma shape_push:
  assumes "dfs_shape ss e visited (u # us) order" and "wf_graph ss" and "v \<in> set (ss ! u)"
    and "\<not> visited ! v"
  shows "dfs_shape ss e (visited[v := True]) (v # u # us) order"
proof -
  note shape = dfs_shape_parts [OF assms(1)]
  have u: "u < length ss" using dfs_shapeD(2) [OF assms(1)] by simp
  have v: "v < length ss" by (rule wf_graphD [OF assms(2) u assms(3)])
  have len: "length visited = length ss" by (rule dfs_shapeD(1) [OF assms(1)])
  have keep: "visited[v := True] ! w" if "visited ! w" "w < length ss" for w
    using that len by (cases "w = v") auto
  have "\<forall>w\<in>set order. w < length ss" using shape(3) by auto
  then have "\<forall>w\<in>set order. \<forall>x\<in>set (ss ! w).
      visited[v := True] ! x \<and> (before order x w \<or> reaches ss x w)"
    using shape(1) keep wf_graphD [OF assms(2)] by blast
  moreover have "\<forall>w. w \<in> set order \<union> set (v # u # us) \<longleftrightarrow> w < length ss \<and> visited[v := True] ! w"
    using shape(3) v len by (metis Un_iff list.set_intros(1) nth_list_update_eq nth_list_update_neq set_ConsD list.set_intros(2))
  moreover have "v \<notin> set order" "v \<notin> set (u # us)" using shape(3) assms(4) by auto
  then have "distinct (order @ v # u # us)" "last (order @ v # u # us) = e" "last (v # u # us) = e"
    using shape(4,5,6) by auto
  moreover have "successively (\<lambda>v u. (u, v) \<in> edges ss) (v # u # us)"
    using shape(7) u assms(3) by (auto simp: edges_def)
  moreover have "\<forall>w\<in>set order. w \<noteq> e \<longrightarrow>
      (\<exists>x. (x, w) \<in> edges ss \<and> (before order w x \<or> x \<in> set (v # u # us)))"
    using shape(2) by auto
  moreover have "reaches ss e v"
    using shape(9) reaches_step [of ss e u v] u assms(3) by (auto simp: edges_def)
  then have "\<forall>w\<in>set order \<union> set (v # u # us). reaches ss e w" using shape(9) by auto
  ultimately show ?thesis using len unfolding dfs_shape_def by auto
qed

lemma shape_finish:
  assumes "dfs_shape ss e visited (u # us) order" and "\<forall>v\<in>set (ss ! u). visited ! v" and "wf_graph ss"
  shows "dfs_shape ss e visited us (order @ [u])"
proof -
  note shape = dfs_shape_parts [OF assms(1)]
  have "before (order @ [u]) v u \<or> reaches ss v u" if "v \<in> set (ss ! u)" for v
  proof (cases "v \<in> set order")
    case False
    have "u < length ss" using dfs_shapeD(2) [OF assms(1)] by simp
    then have "v < length ss" using wf_graphD [OF assms(3) _ that] by simp
    with dfs_shapeD(3) [OF assms(1)] assms(2) that False have "v \<in> set (u # us)" by blast
    with shape(7) show ?thesis using path_reaches_top by blast
  qed (simp add: before_last)
  moreover have "\<exists>p. (p, u) \<in> edges ss \<and> p \<in> set us" if "u \<noteq> e"
  proof (cases us)
    case Nil
    with shape(6) that show ?thesis by simp
  next
    case (Cons p us')
    with shape(7) show ?thesis by auto
  qed
  moreover have "\<exists>p. (p, v) \<in> edges ss \<and> (before (order @ [u]) v p \<or> p \<in> set us)"
    if v: "v \<in> set order" "v \<noteq> e" for v
  proof -
    obtain p where "(p, v) \<in> edges ss" "before order v p \<or> p \<in> set (u # us)" using shape(2) v by blast
    then show ?thesis using before_last [OF v(1), of u] before_append1 [of order v p "[u]"] by auto
  qed
  moreover have "\<forall>w\<in>set order. \<forall>v\<in>set (ss ! w). visited ! v \<and> (before (order @ [u]) v w \<or> reaches ss v w)"
    using shape(1) before_append1 [of order _ _ "[u]"] by blast
  moreover have "\<forall>v. v \<in> set (order @ [u]) \<union> set us \<longleftrightarrow> v < length ss \<and> visited ! v"
    using shape(3) by simp
  moreover have "distinct ((order @ [u]) @ us)" "last ((order @ [u]) @ us) = e" "us \<noteq> [] \<longrightarrow> last us = e"
    "successively (\<lambda>v u. (u, v) \<in> edges ss) us"
    using shape(4-7) by (auto simp: successively_Cons)
  moreover have "\<forall>w\<in>set (order @ [u]) \<union> set us. reaches ss e w" using shape(9) by simp
  ultimately show ?thesis
    using assms(2) dfs_shapeD(1) [OF assms(1)] unfolding dfs_shape_def
    by (simp only: set_append list.set Un_insert_right sup_bot_right ball_simps) blast
qed

lemma dfs_correct:
  assumes "wf_graph ss" and "length reach = length ss"
    and "\<forall>u<length ss. reach ! u \<longrightarrow> (\<forall>v\<in>set (ss ! u). reach ! v)"
    and "\<forall>u\<in>set order \<union> fst ` set stk. reach ! u"
    and "dfs_shape ss e visited (map fst stk) order" and "scanned ss visited stk"
  shows "\<exists>visited'. dfs_shape ss e visited' [] (dfs ss reach visited stk order)"
  using assms
proof (induction ss reach visited stk order rule: dfs.induct)
  case (1 ss reach visited order)
  then show ?case by auto
next
  case (2 ss reach visited u ei stk order)
  note wf = 2(4) and len = 2(5) and closed = 2(6) and reach = 2(7) and shape = 2(8) and scan = 2(9)
  have u: "u < length ss" "reach ! u" using dfs_shapeD(2) [OF shape] reach by auto
  have visited: "length visited = length ss" by (rule dfs_shapeD(1) [OF shape])
  show ?case
  proof (cases "ei < length (ss ! u)")
    case True
    define v where "v = ss ! u ! ei"
    have v: "v \<in> set (ss ! u)" using True by (simp add: v_def)
    then have v': "v < length ss" "reach ! v" using wf_graphD [OF wf u(1)] closed u by blast+
    show ?thesis
    proof (cases "visited ! v")
      case seen: True
      have "scanned ss visited ((u, ei + 1) # stk)"
        using scan True seen by (auto simp: scanned_def take_Suc_conv_app_nth v_def)
      with 2(2) [OF True v_def] wf len closed reach shape seen show ?thesis
        by (simp add: True Let_def flip: v_def)
    next
      case new: False
      have "dfs_shape ss e (visited[v := True]) (v # u # map fst stk) order"
        using shape_push [OF _ wf v new] shape by simp
      moreover have "scanned ss (visited[v := True]) ((v, 0) # (u, ei + 1) # stk)"
        unfolding v_def using dfs_shapeD(2) [OF shape] v'(1)
        by (intro scanned_push [OF scan wf visited _ True]) (auto simp: v_def)
      ultimately show ?thesis
        using 2(1) [OF True v_def] wf len closed reach new v' visited
        by (simp add: True Let_def flip: v_def)
    qed
  next
    case False
    have "dfs_shape ss e visited (map fst stk) (order @ [u])"
      using shape_finish [OF _ _ wf] shape scan False by (simp add: scanned_def)
    with 2(3) [OF False] wf len closed reach scan show ?thesis by (simp add: False scanned_def)
  qed
qed

declare dfs.simps(2) [simp del] bfs.simps(2) [simp del]

section \<open>The control-flow graph of a function\<close>

lemma compute_rpo_correct:
  assumes "wf_graph ss" and "e < length ss"
  defines "order \<equiv> compute_rpo ss (mark_reachable ss e) e"
  shows "distinct order" and "set order = {u. u < length ss \<and> reaches ss e u}" and "order \<noteq> []"
    and "hd order = e"
    and "\<forall>u\<in>set order. \<forall>v\<in>set (ss ! u). before order u v \<or> reaches ss v u"
    and "\<forall>v\<in>set order. v \<noteq> e \<longrightarrow> (\<exists>u. (u, v) \<in> edges ss \<and> before order u v)"
proof -
  let ?reach = "mark_reachable ss e" and ?vis = "(replicate (length ss) False)[e := True]"
  note reach = mark_reachable_iff [OF assms(1,2)]
  define d where "d = dfs ss ?reach ?vis [(e, 0)] []"
  have order: "order = rev d"
    using assms(2) reach(2) [OF assms(2)] by (auto simp: order_def compute_rpo_def d_def)
  have closed: "\<forall>u<length ss. ?reach ! u \<longrightarrow> (\<forall>v\<in>set (ss ! u). ?reach ! v)"
  proof (intro allI impI ballI)
    fix u v assume u: "u < length ss" "?reach ! u" and v: "v \<in> set (ss ! u)"
    then have "reaches ss e v" using reaches_step [of ss e u v] reach(2) by (auto simp: edges_def)
    with reach(2) wf_graphD [OF assms(1) u(1) v] show "?reach ! v" by simp
  qed
  have "dfs_shape ss e ?vis [e] []"
    using assms(2) by (auto simp: dfs_shape_def nth_list_update split: if_splits)
  then obtain vis where d: "dfs_shape ss e vis [] d"
    using dfs_correct [OF assms(1) reach(1) closed, of "[]" "[(e, 0)]" e ?vis] assms(2) reach(2)
    by (auto simp: d_def scanned_def)
  note shape = dfs_shape_parts [OF d, unfolded append_Nil2 list.set(1) Un_empty_right]
  have "u \<in> set d" if "reaches ss e u" for u
    using that unfolding reaches_def
  proof (induction rule: rtrancl_induct)
    case base
    then show ?case using shape(5,8) by (metis last_in_set)
  next
    case (step y z)
    then have "vis ! z" using shape(1) by (auto simp: edges_def)
    moreover have "z < length ss" using edges_range [OF assms(1) step(2)] by simp
    ultimately show ?case using shape(3) by blast
  qed
  moreover have "reaches ss e u" if "u \<in> set d" for u
    using shape(9) that by blast
  ultimately show "set order = {u. u < length ss \<and> reaches ss e u}"
    using reaches_range [OF assms(1) _ assms(2)] by (auto simp: order)
  show "distinct order" "order \<noteq> []" "hd order = e"
    using shape(4,5,8) by (auto simp: order hd_rev)
  show "\<forall>u\<in>set order. \<forall>v\<in>set (ss ! u). before order u v \<or> reaches ss v u"
    "\<forall>v\<in>set order. v \<noteq> e \<longrightarrow> (\<exists>u. (u, v) \<in> edges ss \<and> before order u v)"
    using shape(1,2) by (auto simp: order before_rev)
qed

lemma build_fields:
  "succs (build f) = build_succs f" "preds (build f) = build_preds (build_succs f)"
  "reachable (build f) = mark_reachable (build_succs f) 0"
  "rpo (build f) = compute_rpo (build_succs f) (mark_reachable (build_succs f) 0) 0"
  by (simp_all add: build_def Let_def)

text \<open>
  C36: the control-flow graph says what its names promise: predecessors invert successors, a block is
  marked reachable exactly when a path leads to it from the entry, and the reverse postorder lists
  exactly these blocks, each once, the entry first.
\<close>

theorem cfg_reachability:
  assumes "u < length (blocks f)"
  shows "(v \<in> set (preds (build f) ! u) \<longleftrightarrow> v < length (blocks f) \<and> u \<in> set (succs (build f) ! v)) \<and>
    (reachable (build f) ! u \<longleftrightarrow> reaches (succs (build f)) 0 u) \<and>
    (u \<in> set (rpo (build f)) \<longleftrightarrow> reachable (build f) ! u) \<and>
    distinct (rpo (build f)) \<and> hd (rpo (build f)) = 0"
proof -
  have u: "u < length (build_succs f)" using assms by simp
  then have 0: "0 < length (build_succs f)" by linarith
  show ?thesis
    using compute_rpo_correct [OF wf_build_succs 0] mark_reachable_iff(2) [OF wf_build_succs 0 u]
      set_build_preds [OF u] assms
    by (auto simp: build_fields edges_def)
qed

text \<open>
  The reverse postorder is an order of the data flow. An edge leads forward in it unless it closes
  a cycle, so that without cycles it is topological, and every block but the entry comes behind one
  of its predecessors.
\<close>

theorem rpo_orders:
  assumes "u \<in> set (rpo (build f))" and "v \<in> set (succs (build f) ! u)"
  shows "(before (rpo (build f)) u v \<or> reaches (succs (build f)) v u) \<and>
    (v \<noteq> 0 \<longrightarrow> (\<exists>w. v \<in> set (succs (build f) ! w) \<and> before (rpo (build f)) w v))"
proof -
  have "blocks f \<noteq> []"
    using assms(1) by (auto simp: build_fields compute_rpo_def build_succs_def)
  then have 0: "0 < length (build_succs f)" by simp
  note rpo = compute_rpo_correct [OF wf_build_succs 0, folded build_fields]
  have "(u, v) \<in> edges (succs (build f))" using assms rpo(2) by (simp add: edges_def build_fields)
  then have "v \<in> set (rpo (build f))"
    using assms(1) rpo(2) edges_range [OF wf_build_succs [of f], of u v]
    by (auto simp: build_fields intro: reaches_step [of "build_succs f" 0 u])
  with rpo(5,6) assms show ?thesis by (fastforce simp: edges_def)
qed

text \<open>A loop: the entry, a header, the loop body and the exit.\<close>

definition sample_block :: "terminator \<Rightarrow> block_data" where
  "sample_block t = \<lparr>block_name = [], insts = [], block_term = t, block_span = None\<rparr>"

definition sample_func :: "block_data list \<Rightarrow> func" where
  "sample_func bs =
     \<lparr>func_name = [], params = [], func_ret = Ty_I64, blocks = bs, func_linkage = Link_External,
      func_span = None\<rparr>"

definition loop_func :: func where
  "loop_func = sample_func (map sample_block [TBr 1, TCondBr 0 2 3, TBr 1, TRet None])"

lemma build_loop:
  "build loop_func =
     \<lparr>succs = [[1], [2, 3], [1], []], preds = [[], [0, 2], [1], [1]], reachable = [True, True, True, True],
      rpo = [0, 1, 3, 2]\<rparr>"
  by code_simp

lemma cfg_reachability_witness: "reaches [[1], [2, 3], [1], []] 0 3"
proof -
  have "length (blocks loop_func) = 4" by (simp add: loop_func_def sample_func_def)
  with cfg_reachability [of 3 loop_func 1] show ?thesis by (simp add: build_loop)
qed

lemma rpo_orders_witness: "before [0, 1, 3, 2] 1 (3 :: nat) \<or> reaches [[1], [2, 3], [1], []] 3 1"
  using rpo_orders [of 1 loop_func 3] by (simp add: build_loop)

end
