(* ===== verification/Dom_Chains.thy ===== *)
theory Dom_Chains
  imports Dom Cfg_Search
begin

text \<open>
  The chains of immediate dominators that \<^verbatim>\<open>ir/dom.rs\<close> climbs: their shape while the iteration runs,
  and the meaning of \<^verbatim>\<open>intersect\<close> and of one block's new dominator over them. The facts about the
  control-flow graph that this rests on are the interface \<^verbatim>\<open>flow_graph\<close>, which every graph that
  \<^verbatim>\<open>Cfg::build\<close> makes satisfies.
\<close>

section \<open>Positions in the reverse postorder\<close>

lemma length_rpo_index [simp]: "length (rpo_index n order) = n"
proof -
  have "length (fold (\<lambda>(i, b) ix. ix[b := i]) es ix) = length ix" for es :: "(nat \<times> nat) list" and ix
    by (induction es arbitrary: ix) auto
  then show ?thesis by (simp add: rpo_index_def)
qed

lemma nth_rpo_index:
  assumes "distinct order" and "\<forall>b\<in>set order. b < n" and "i < length order"
  shows "rpo_index n order ! (order ! i) = i"
proof -
  have len: "length (fold (\<lambda>(i, b) ix. ix[b := i]) es ix) = length ix"
    for es :: "(nat \<times> nat) list" and ix
    by (induction es arbitrary: ix) auto
  have "fold (\<lambda>(i, b) ix. ix[b := i]) (enumerate k xs) ix ! (xs ! i) = k + i"
    if "distinct xs" "\<forall>b\<in>set xs. b < length ix" "i < length xs" for k xs and ix :: "nat list"
    using that
  proof (induction xs rule: rev_induct)
    case (snoc x xs)
    show ?case
    proof (cases "i = length xs")
      case False
      then have i: "i < length xs" using snoc.prems(3) by simp
      then have "x \<noteq> xs ! i" using snoc.prems(1) by auto
      with snoc i show ?thesis by (simp add: enumerate_append_eq nth_append len)
    qed (use snoc.prems in \<open>simp add: enumerate_append_eq len\<close>)
  qed simp
  from this [where xs = order and ix = "replicate n (2 ^ 64 - 1)" and k = 0] assms show ?thesis by (simp add: rpo_index_def)
qed

section \<open>Chains\<close>

text \<open>\<^verbatim>\<open>anc \<sigma> a b\<close>: climbing from \<^verbatim>\<open>b\<close> to immediate dominators passes \<^verbatim>\<open>a\<close>.\<close>

inductive anc :: "idoms \<Rightarrow> nat \<Rightarrow> nat \<Rightarrow> bool" for \<sigma> where
  anc_refl [simp, intro!]: "anc \<sigma> b b"
| anc_up: "\<sigma> ! b = Some d \<Longrightarrow> d \<noteq> b \<Longrightarrow> anc \<sigma> a d \<Longrightarrow> anc \<sigma> a b"

lemma anc_step_iff: "\<sigma> ! b = Some d \<Longrightarrow> d \<noteq> b \<Longrightarrow> anc \<sigma> a b \<longleftrightarrow> a = b \<or> anc \<sigma> a d"
  by (auto elim: anc.cases intro: anc_up)

lemma anc_stop_iff: "\<sigma> ! b = None \<or> \<sigma> ! b = Some b \<Longrightarrow> anc \<sigma> a b \<longleftrightarrow> a = b"
  by (auto elim: anc.cases)

lemma anc_trans: "anc \<sigma> b c \<Longrightarrow> anc \<sigma> a b \<Longrightarrow> anc \<sigma> a c"
  by (induction rule: anc.induct) (auto intro: anc_up)

lemma anc_linear: "anc \<sigma> a c \<Longrightarrow> anc \<sigma> b c \<Longrightarrow> anc \<sigma> a b \<or> anc \<sigma> b a"
proof (induction rule: anc.induct)
  case (anc_up c d a)
  then show ?case by (cases "b = c") (auto simp: anc_step_iff intro: anc.anc_up)
qed auto

text \<open>What the iteration needs of the graph, and what it keeps of the dominators found so far.\<close>

locale flow_graph =
  fixes c :: cfg and n :: nat
  assumes order_distinct: "distinct (rpo c)"
    and order_range: "b \<in> set (rpo c) \<Longrightarrow> b < n"
    and order_nonempty: "0 < n \<Longrightarrow> rpo c \<noteq> []"
    and preds_range: "b < n \<Longrightarrow> p \<in> set (preds c ! b) \<Longrightarrow> p < n"
    and reachable_iff: "p < n \<Longrightarrow> reachable c ! p \<longleftrightarrow> p \<in> set (rpo c)"
    and succ_R: "p \<in> set (rpo c) \<Longrightarrow> b < n \<Longrightarrow> p \<in> set (preds c ! b) \<Longrightarrow> b \<in> set (rpo c)"
    and order_earlier:
      "b \<in> set (rpo c) \<Longrightarrow> b \<noteq> hd (rpo c) \<Longrightarrow> \<exists>p\<in>set (preds c ! b). before (rpo c) p b"
begin

abbreviation R :: "nat set" where
  "R \<equiv> set (rpo c)"

abbreviation e :: nat where
  "e \<equiv> entry_block c"

abbreviation ix :: "nat list" where
  "ix \<equiv> rpo_index n (rpo c)"

lemma ix_nth [simp]: "i < length (rpo c) \<Longrightarrow> ix ! (rpo c ! i) = i"
  using order_distinct order_range by (intro nth_rpo_index) auto

lemma ix_inj: "a \<in> R \<Longrightarrow> b \<in> R \<Longrightarrow> ix ! a = ix ! b \<longleftrightarrow> a = b"
  by (auto simp: in_set_conv_nth)

lemma ix_less: "b \<in> R \<Longrightarrow> ix ! b < length (rpo c)"
  by (auto simp: in_set_conv_nth)

lemma ix_less_n: "b \<in> R \<Longrightarrow> ix ! b < n"
proof -
  assume b: "b \<in> R"
  have "length (rpo c) = card R" using order_distinct by (simp add: distinct_card)
  also have "\<dots> \<le> card {..<n}" using order_range by (intro card_mono) auto
  finally show ?thesis using ix_less [OF b] by simp
qed

lemma entry_hd: "rpo c \<noteq> [] \<Longrightarrow> e = hd (rpo c)"
  by (cases "rpo c") (simp_all add: entry_block_def)

lemma entry_R: "rpo c \<noteq> [] \<Longrightarrow> e \<in> R"
  by (simp add: entry_hd)

lemma entry_pos: "rpo c \<noteq> [] \<Longrightarrow> ix ! e = 0"
  using ix_nth [of 0] by (simp add: entry_hd hd_conv_nth)

lemma ix_before: "before (rpo c) a b \<Longrightarrow> a \<in> R \<and> b \<in> R \<and> ix ! a < ix ! b"
proof -
  assume ab: "before (rpo c) a b"
  then have "a \<in> R" "b \<in> R" by (auto simp: before_def)
  then obtain i j where "rpo c ! i = a" "rpo c ! j = b" "i < length (rpo c)" "j < length (rpo c)"
    by (auto simp: in_set_conv_nth)
  then show ?thesis using before_nth [OF ab order_distinct, of i j] by auto
qed

text \<open>
  The entry is its own dominator; every other block found so far points at a block found earlier in
  the order.
\<close>

definition chained :: "idoms \<Rightarrow> bool" where
  "chained \<sigma> \<longleftrightarrow>
     length \<sigma> = n \<and> e < n \<and> \<sigma> ! e = Some e \<and>
     (\<forall>b<n. \<forall>d. \<sigma> ! b = Some d \<longrightarrow> b \<in> R \<and> d \<in> R \<and> \<sigma> ! d \<noteq> None \<and> (b \<noteq> e \<longrightarrow> ix ! d < ix ! b))"

lemma chainedD:
  assumes "chained \<sigma>" and "b < n" and "\<sigma> ! b = Some d"
  shows "b \<in> R" "d \<in> R" "\<exists>d'. \<sigma> ! d = Some d'" "d < n" "b \<noteq> e \<Longrightarrow> ix ! d < ix ! b"
proof -
  have "\<forall>b<n. \<forall>d. \<sigma> ! b = Some d \<longrightarrow> b \<in> R \<and> d \<in> R \<and> \<sigma> ! d \<noteq> None \<and> (b \<noteq> e \<longrightarrow> ix ! d < ix ! b)"
    using assms(1) unfolding chained_def by blast
  with assms(2,3) have "b \<in> R \<and> d \<in> R \<and> \<sigma> ! d \<noteq> None \<and> (b \<noteq> e \<longrightarrow> ix ! d < ix ! b)" by blast
  then show "b \<in> R" "d \<in> R" "\<exists>d'. \<sigma> ! d = Some d'" "d < n" "b \<noteq> e \<Longrightarrow> ix ! d < ix ! b"
    using order_range [of d] by blast+
qed

lemma chained_entry: "chained \<sigma> \<Longrightarrow> length \<sigma> = n \<and> e < n \<and> \<sigma> ! e = Some e \<and> rpo c \<noteq> []"
  by (auto simp: chained_def)

lemma anc_found:
  assumes "anc \<sigma> a b" and "chained \<sigma>" and "b < n" and "\<sigma> ! b = Some d"
  shows "a \<in> R \<and> a < n \<and> (\<exists>d. \<sigma> ! a = Some d) \<and> ix ! a \<le> ix ! b"
  using assms
proof (induction arbitrary: d rule: anc.induct)
  case (anc_refl b)
  then show ?case using chainedD by blast
next
  case (anc_up b d' a)
  have "b \<noteq> e" using anc_up.hyps anc_up.prems chained_entry by force
  note d = chainedD [OF anc_up.prems(1,2) anc_up.hyps(1)]
  then obtain d where "\<sigma> ! d' = Some d" by blast
  from anc_up.IH [OF anc_up.prems(1) d(4) this] d(5) [OF \<open>b \<noteq> e\<close>] show ?case by simp
qed

lemma anc_entry:
  assumes "chained \<sigma>" and "b < n" and "\<sigma> ! b = Some d"
  shows "anc \<sigma> e b"
  using assms(2,3)
proof (induction "ix ! b" arbitrary: b d rule: less_induct)
  case less
  show ?case
  proof (cases "b = e")
    case False
    note d = chainedD [OF assms(1) less.prems]
    then obtain d' where "\<sigma> ! d = Some d'" by blast
    with less.hyps [of d] d False have "anc \<sigma> e d" by blast
    moreover have "d \<noteq> b" using d False by auto
    ultimately show ?thesis using less.prems by (auto intro: anc_up)
  qed simp
qed

text \<open>Two blocks on one chain are ordered by their positions.\<close>

lemma anc_by_ix:
  assumes "chained \<sigma>" and "x < n" and "\<sigma> ! x = Some d" and "anc \<sigma> a x" and "anc \<sigma> b x" and "ix ! a \<le> ix ! b"
  shows "anc \<sigma> a b"
proof -
  note a = anc_found [OF assms(4,1,2,3)] and b = anc_found [OF assms(5,1,2,3)]
  show ?thesis
    using anc_linear [OF assms(4,5)]
  proof
    assume ba: "anc \<sigma> b a"
    from a obtain d' where "\<sigma> ! a = Some d'" by blast
    with anc_found [OF ba assms(1)] a b assms(6) have "a = b" by (auto simp: ix_inj [symmetric])
    then show ?thesis by simp
  qed
qed

section \<open>The meet of two chains\<close>

lemma intersect_meet:
  assumes "chained \<sigma>" and "p < n" "\<sigma> ! p = Some dp" and "q < n" "\<sigma> ! q = Some dq"
  shows "\<exists>m. intersect \<sigma> ix p q = Some m \<and> m < n \<and> (\<exists>d. \<sigma> ! m = Some d) \<and>
    (\<forall>a. anc \<sigma> a m \<longleftrightarrow> anc \<sigma> a p \<and> anc \<sigma> a q)"
  using assms(2-)
proof (induction "ix ! p + ix ! q" arbitrary: p q dp dq rule: less_induct)
  case less
  note p = chainedD [OF assms(1) less.prems(1,2)] and q = chainedD [OF assms(1) less.prems(3,4)]
  have 0: "ix ! e = 0" using chained_entry [OF assms(1)] by (simp add: entry_pos)
  have above: "anc \<sigma> a x \<and> anc \<sigma> a y \<longleftrightarrow> anc \<sigma> a d \<and> anc \<sigma> a y"
    if "x \<in> R" "x \<noteq> e" "x < n" "\<sigma> ! x = Some d" "y < n" "\<sigma> ! y = Some d'" "ix ! y < ix ! x" for a x y d d'
  proof -
    have "d \<noteq> x" using chainedD [OF assms(1) that(3,4)] that(2) by auto
    moreover have "a \<noteq> x" if "anc \<sigma> a y"
      using anc_found [OF that assms(1) \<open>y < n\<close> \<open>\<sigma> ! y = Some d'\<close>] \<open>ix ! y < ix ! x\<close> by auto
    ultimately show ?thesis using that(4) by (auto simp: anc_step_iff)
  qed
  consider "p = q" | "ix ! q < ix ! p" | "ix ! p < ix ! q"
    using ix_inj [OF p(1) q(1)] by linarith
  then show ?case
  proof cases
    case 1
    then show ?thesis using less.prems by (auto simp: intersect.simps)
  next
    case 2
    then have pe: "p \<noteq> e" using 0 by auto
    obtain d' where d': "\<sigma> ! dp = Some d'" using p(3) by blast
    have "ix ! dp + ix ! q < ix ! p + ix ! q" using p(5) pe by simp
    from less.hyps [OF this p(4) d' less.prems(3,4)] obtain m
      where "intersect \<sigma> ix dp q = Some m" "m < n" "\<exists>d. \<sigma> ! m = Some d"
        "\<forall>a. anc \<sigma> a m \<longleftrightarrow> anc \<sigma> a dp \<and> anc \<sigma> a q" by blast
    moreover have "intersect \<sigma> ix p q = intersect \<sigma> ix dp q"
      using 2 less.prems by (subst intersect.simps) auto
    ultimately show ?thesis using above [OF p(1) pe less.prems(1,2,3,4) 2] by auto
  next
    case 3
    then have qe: "q \<noteq> e" using 0 by auto
    obtain d' where d': "\<sigma> ! dq = Some d'" using q(3) by blast
    have "ix ! p + ix ! dq < ix ! p + ix ! q" using q(5) qe by simp
    from less.hyps [OF this less.prems(1,2) q(4) d'] obtain m
      where "intersect \<sigma> ix p dq = Some m" "m < n" "\<exists>d. \<sigma> ! m = Some d"
        "\<forall>a. anc \<sigma> a m \<longleftrightarrow> anc \<sigma> a p \<and> anc \<sigma> a dq" by blast
    moreover have "intersect \<sigma> ix p q = intersect \<sigma> ix p dq"
      using 3 less.prems by (subst intersect.simps) auto
    ultimately show ?thesis using above [OF q(1) qe less.prems(3,4,1,2) 3] by auto
  qed
qed

text \<open>The predecessors that the inner loop of the iteration looks at.\<close>

definition found :: "idoms \<Rightarrow> nat list \<Rightarrow> nat set" where
  "found \<sigma> ps = {p \<in> set ps. reachable c ! p \<and> \<sigma> ! p \<noteq> None}"

lemma new_idom_meet:
  assumes "chained \<sigma>" and "\<forall>p\<in>set ps. p < n" and "case acc of None \<Rightarrow> True | Some q \<Rightarrow> q < n \<and> \<sigma> ! q \<noteq> None"
  shows "\<exists>new. new_idom c ix \<sigma> ps acc = Some new \<and>
    (case new of
       None \<Rightarrow> acc = None \<and> found \<sigma> ps = {}
     | Some m \<Rightarrow> m < n \<and> \<sigma> ! m \<noteq> None \<and>
         (\<forall>a. anc \<sigma> a m \<longleftrightarrow> (\<forall>p\<in>found \<sigma> ps \<union> set_option acc. anc \<sigma> a p)))"
  using assms(2,3)
proof (induction ps arbitrary: acc)
  case Nil
  then show ?case by (auto simp: found_def split: option.splits)
next
  case (Cons p ps)
  show ?case
  proof (cases "\<not> reachable c ! p \<or> \<sigma> ! p = None")
    case True
    then have "found \<sigma> (p # ps) = found \<sigma> ps" by (auto simp: found_def)
    moreover have "new_idom c ix \<sigma> (p # ps) acc = new_idom c ix \<sigma> ps acc" using True by simp
    moreover have "\<forall>p\<in>set ps. p < n" using Cons.prems(1) by simp
    ultimately show ?thesis using Cons.IH [OF _ Cons.prems(2)] by (simp only:)
  next
    case False
    then obtain dp where dp: "\<sigma> ! p = Some dp" by blast
    have found: "found \<sigma> (p # ps) = insert p (found \<sigma> ps)" using False by (auto simp: found_def)
    show ?thesis
    proof (cases acc)
      case None
      have "case Some p of None \<Rightarrow> True | Some q \<Rightarrow> q < n \<and> \<sigma> ! q \<noteq> None" using Cons.prems dp by simp
      from Cons.IH [OF _ this] Cons.prems obtain m where m:
        "new_idom c ix \<sigma> ps (Some p) = Some (Some m)" "m < n" "\<sigma> ! m \<noteq> None"
        "\<forall>a. anc \<sigma> a m \<longleftrightarrow> (\<forall>x\<in>found \<sigma> ps \<union> {p}. anc \<sigma> a x)"
        by (auto split: option.splits)
      have "new_idom c ix \<sigma> (p # ps) acc = Some (Some m)" using False None m(1) dp by simp
      moreover have "found \<sigma> (p # ps) \<union> set_option acc = found \<sigma> ps \<union> {p}" using None found by simp
      ultimately show ?thesis using m(2-) by simp
    next
      case (Some q)
      then obtain dq where q: "q < n" "\<sigma> ! q = Some dq" using Cons.prems by auto
      have "p < n" using Cons.prems by simp
      from intersect_meet [OF assms(1) this dp q] obtain d where d: "intersect \<sigma> ix p q = Some d" "d < n"
        "\<sigma> ! d \<noteq> None" "\<forall>a. anc \<sigma> a d \<longleftrightarrow> anc \<sigma> a p \<and> anc \<sigma> a q" by blast
      then have "case Some d of None \<Rightarrow> True | Some q \<Rightarrow> q < n \<and> \<sigma> ! q \<noteq> None" by simp
      from Cons.IH [OF _ this] Cons.prems obtain m where m:
        "new_idom c ix \<sigma> ps (Some d) = Some (Some m)" "m < n" "\<sigma> ! m \<noteq> None"
        "\<forall>a. anc \<sigma> a m \<longleftrightarrow> (\<forall>x\<in>found \<sigma> ps \<union> {d}. anc \<sigma> a x)"
        by (auto split: option.splits)
      have "new_idom c ix \<sigma> (p # ps) acc = Some (Some m)" using False Some d(1) m(1) dp by simp
      moreover have "(\<forall>x\<in>found \<sigma> ps \<union> {d}. anc \<sigma> a x) \<longleftrightarrow>
          (\<forall>x\<in>found \<sigma> (p # ps) \<union> set_option acc. anc \<sigma> a x)" for a
        using d(4) found Some by auto
      ultimately show ?thesis using m(2-) by simp
    qed
  qed
qed

end

text \<open>Every graph of the builder is a flow graph.\<close>

interpretation built: flow_graph "build f" "length (blocks f)" for f
proof
  fix b p
  let ?ss = "build_succs f"
  have pos: "0 < length ?ss" if "b < length (blocks f)" for b using that by auto
  note rpo = compute_rpo_correct [OF wf_build_succs, of 0 f, folded build_fields(4)]
  have empty: "rpo (build f) = []" if "\<not> 0 < length ?ss"
  proof -
    have "build_succs f = []" using that by (simp add: build_succs_def)
    then show ?thesis by (simp only: build_fields(4) compute_rpo_def if_True simp_thms)
  qed
  show "distinct (rpo (build f))" using rpo(1) empty by fastforce
  show range: "b < length (blocks f)" if "b \<in> set (rpo (build f))" for b
    using that rpo(2) empty by (cases "0 < length ?ss") auto
  show "rpo (build f) \<noteq> []" if "0 < length (blocks f)" using rpo(3) that by simp
  show "p < length (blocks f)" if "b < length (blocks f)" "p \<in> set (preds (build f) ! b)"
    using that by (auto simp: build_fields set_build_preds edges_def)
  show "reachable (build f) ! p \<longleftrightarrow> p \<in> set (rpo (build f))" if "p < length (blocks f)"
    using that rpo(2) pos [OF that] mark_reachable_iff(2) [OF wf_build_succs, of 0 f p]
    by (auto simp: build_fields)
  show "b \<in> set (rpo (build f))"
    if "p \<in> set (rpo (build f))" "b < length (blocks f)" "p \<in> set (preds (build f) ! b)"
    using that rpo(2) pos [OF that(2)] by (auto simp: build_fields(2) set_build_preds intro: reaches_step)
  show "\<exists>p\<in>set (preds (build f) ! b). before (rpo (build f)) p b"
    if "b \<in> set (rpo (build f))" "b \<noteq> hd (rpo (build f))"
  proof -
    have "0 < length ?ss" using range [OF that(1)] by auto
    with rpo(4,6) that obtain u where "(u, b) \<in> edges ?ss" "before (rpo (build f)) u b" by fastforce
    with range [OF that(1)] show ?thesis by (auto simp: build_fields set_build_preds)
  qed
qed

end
