(* ===== verification/Dom_Iterate.thy ===== *)
theory Dom_Iterate
  imports Dom_Chains
begin

text \<open>
  The iteration of \<^verbatim>\<open>ir/dom.rs\<close> ends, and where it ends a block's chain of immediate dominators holds
  exactly the block's dominators. One update can only move a block's dominator up its own chain,
  which needs an invariant on the state between two updates of one pass over the order.
\<close>

section \<open>Updating one entry\<close>

lemma anc_other: "\<not> anc \<sigma> b x \<Longrightarrow> anc (\<sigma>[b := v]) a x \<longleftrightarrow> anc \<sigma> a x"
proof
  show "anc (\<sigma>[b := v]) a x" if "anc \<sigma> a x" "\<not> anc \<sigma> b x"
    using that
  proof (induction rule: anc.induct)
    case (anc_up x d a)
    then have "x \<noteq> b" by auto
    moreover have "\<not> anc \<sigma> b d" using anc_up.hyps anc_up.prems by (auto intro: anc.anc_up)
    ultimately show ?case using anc_up by (auto intro!: anc.anc_up [of _ x d])
  qed simp
  show "anc \<sigma> a x" if "anc (\<sigma>[b := v]) a x" "\<not> anc \<sigma> b x"
    using that
  proof (induction rule: anc.induct)
    case (anc_up x d a)
    then have "x \<noteq> b" by auto
    with anc_up.hyps have x: "\<sigma> ! x = Some d" by simp
    moreover have "\<not> anc \<sigma> b d" using x anc_up.hyps anc_up.prems by (auto intro: anc.anc_up)
    ultimately show ?case using anc_up by (auto intro!: anc.anc_up [of _ x d])
  qed simp
qed

lemma anc_updated: "anc (\<sigma>[b := v]) a x \<Longrightarrow> anc \<sigma> a x \<or> anc \<sigma> b x \<and> anc (\<sigma>[b := v]) a b"
proof (induction rule: anc.induct)
  case (anc_up x d a)
  show ?case
  proof (cases "x = b")
    case True
    with anc_up.hyps have "anc (\<sigma>[b := v]) a b" by (auto intro: anc.anc_up)
    with True show ?thesis by simp
  next
    case False
    with anc_up.hyps have "\<sigma> ! x = Some d" by simp
    with anc_up.hyps(2) anc_up.IH show ?thesis by (auto intro: anc.anc_up)
  qed
qed simp

lemma anc_lost: "anc \<sigma> a x \<Longrightarrow> anc (\<sigma>[b := v]) a x \<or> anc \<sigma> b x \<and> anc \<sigma> a b \<and> a \<noteq> b"
proof (induction rule: anc.induct)
  case (anc_up x d a)
  show ?case
  proof (cases "x = b")
    case True
    with anc_up.hyps have "anc \<sigma> a b" by (auto intro: anc.anc_up)
    with True show ?thesis by (cases "a = b") auto
  next
    case False
    with anc_up.hyps have "\<sigma>[b := v] ! x = Some d" by simp
    with anc_up.hyps anc_up.IH show ?thesis by (auto intro: anc.anc_up)
  qed
qed simp

section \<open>Dominance\<close>

text \<open>\<^verbatim>\<open>avoids E s d b\<close>: a path of the graph leads from \<^verbatim>\<open>s\<close> to \<^verbatim>\<open>b\<close> without passing \<^verbatim>\<open>d\<close>.\<close>

inductive avoids :: "(nat \<times> nat) set \<Rightarrow> nat \<Rightarrow> nat \<Rightarrow> nat \<Rightarrow> bool" for E s d where
  avoids_start: "s \<noteq> d \<Longrightarrow> avoids E s d s"
| avoids_step: "avoids E s d p \<Longrightarrow> (p, b) \<in> E \<Longrightarrow> b \<noteq> d \<Longrightarrow> avoids E s d b"

context flow_graph
begin

definition E :: "(nat \<times> nat) set" where
  "E = {(p, b). b < n \<and> p \<in> set (preds c ! b)}"

definition dominated :: "nat \<Rightarrow> nat \<Rightarrow> bool" where
  "dominated a b \<longleftrightarrow> \<not> avoids E e a b"

lemma dominated_entry: "dominated a e \<Longrightarrow> a = e"
  by (auto simp: dominated_def intro: avoids_start)

lemma dominated_pred: "dominated a b \<Longrightarrow> a \<noteq> b \<Longrightarrow> b < n \<Longrightarrow> p \<in> set (preds c ! b) \<Longrightarrow> dominated a p"
  by (auto simp: dominated_def E_def intro: avoids_step)

section \<open>The invariant of the iteration\<close>

text \<open>
  What holds when a pass has handled the blocks before position \<^verbatim>\<open>i\<close>: these have a dominator; no entry
  lies above the meet of its predecessors; an entry lies on the chain of an earlier predecessor,
  unless that chain was shortened in this pass, and then the block is still to come; no dominator of
  a block is left out by its entry.
\<close>

definition wide :: "idoms \<Rightarrow> bool" where
  "wide \<sigma> \<longleftrightarrow> (\<forall>b\<in>R. \<forall>d. b \<noteq> e \<and> \<sigma> ! b = Some d \<longrightarrow>
     (\<forall>a. (\<forall>p\<in>found \<sigma> (preds c ! b). anc \<sigma> a p) \<longrightarrow> ix ! a \<le> ix ! d))"

definition follows :: "nat \<Rightarrow> idoms \<Rightarrow> nat \<Rightarrow> nat \<Rightarrow> nat \<Rightarrow> bool" where
  "follows i \<sigma> b d q \<longleftrightarrow>
     q \<in> found \<sigma> (preds c ! b) \<and> ix ! q < ix ! b \<and>
     (anc \<sigma> d q \<or> ix ! d < i \<and> i \<le> ix ! b \<and> (\<forall>a. anc \<sigma> a q \<and> ix ! a \<le> ix ! d \<longrightarrow> anc \<sigma> a d))"

definition behind :: "nat \<Rightarrow> idoms \<Rightarrow> bool" where
  "behind i \<sigma> \<longleftrightarrow> (\<forall>b\<in>R. \<forall>d. b \<noteq> e \<and> \<sigma> ! b = Some d \<longrightarrow> (\<exists>q. follows i \<sigma> b d q))"

definition filled :: "nat \<Rightarrow> idoms \<Rightarrow> bool" where
  "filled i \<sigma> \<longleftrightarrow> (\<forall>b\<in>R. ix ! b < i \<longrightarrow> \<sigma> ! b \<noteq> None)"

definition kept :: "idoms \<Rightarrow> bool" where
  "kept \<sigma> \<longleftrightarrow> (\<forall>b\<in>R. \<forall>d. b \<noteq> e \<and> \<sigma> ! b = Some d \<longrightarrow>
     (\<forall>a. dominated a b \<and> a \<noteq> b \<longrightarrow> dominated a d))"

definition good :: "nat \<Rightarrow> idoms \<Rightarrow> bool" where
  "good i \<sigma> \<longleftrightarrow> chained \<sigma> \<and> wide \<sigma> \<and> behind i \<sigma> \<and> filled i \<sigma> \<and> kept \<sigma>"

lemma goodD:
  assumes "good i \<sigma>"
  shows "chained \<sigma>" "wide \<sigma>" "behind i \<sigma>" "filled i \<sigma>" "kept \<sigma>"
  using assms by (simp_all add: good_def)

lemma wideD:
  "wide \<sigma> \<Longrightarrow> b \<in> R \<Longrightarrow> b \<noteq> e \<Longrightarrow> \<sigma> ! b = Some d \<Longrightarrow> (\<And>p. p \<in> found \<sigma> (preds c ! b) \<Longrightarrow> anc \<sigma> a p) \<Longrightarrow>
   ix ! a \<le> ix ! d"
  unfolding wide_def by blast

lemma behindE:
  assumes "behind i \<sigma>" and "b \<in> R" and "b \<noteq> e" and "\<sigma> ! b = Some d"
  obtains q where "follows i \<sigma> b d q"
  using assms unfolding behind_def by blast

lemma keptD:
  "kept \<sigma> \<Longrightarrow> b \<in> R \<Longrightarrow> b \<noteq> e \<Longrightarrow> \<sigma> ! b = Some d \<Longrightarrow> dominated a b \<Longrightarrow> a \<noteq> b \<Longrightarrow> dominated a d"
  unfolding kept_def by blast

lemma foundD:
  assumes "p \<in> found \<sigma> (preds c ! b)" and "b < n"
  shows "p \<in> R" "p < n" "\<exists>d. \<sigma> ! p = Some d" "p \<in> set (preds c ! b)"
  using assms preds_range [of b p] reachable_iff [of p] by (auto simp: found_def)

lemma found_mono:
  "(\<And>p. \<sigma> ! p \<noteq> None \<Longrightarrow> \<sigma>' ! p \<noteq> None) \<Longrightarrow> p \<in> found \<sigma> ps \<Longrightarrow> p \<in> found \<sigma>' ps"
  by (auto simp: found_def)

text \<open>Every dominator of a block lies on its chain.\<close>

lemma dominated_anc:
  assumes "chained \<sigma>" and "kept \<sigma>" and "b < n" and "\<sigma> ! b = Some d" and "dominated a b"
  shows "anc \<sigma> a b"
  using assms(3-)
proof (induction "ix ! b" arbitrary: b d rule: less_induct)
  case less
  note d = chainedD [OF assms(1) less.prems(1,2)]
  then obtain d' where d': "\<sigma> ! d = Some d'" by blast
  show ?case
  proof (cases "b = e \<or> a = b")
    case True
    then show ?thesis using dominated_entry less.prems(3) by auto
  next
    case False
    then have "dominated a d" using keptD [OF assms(2) d(1) _ less.prems(2,3)] by simp
    with less.hyps [OF _ d(4) d'] d(5) False have "anc \<sigma> a d" by blast
    moreover have "d \<noteq> b" using d(5) False by auto
    ultimately show ?thesis using less.prems(2) by (blast intro: anc_up)
  qed
qed

text \<open>A dominator of a block that lies above another member of its chain dominates that one.\<close>

lemma dominated_walk:
  assumes "anc \<sigma> m q" and "chained \<sigma>" and "kept \<sigma>" and "q < n" and "\<sigma> ! q = Some dq"
    and "dominated a q" and "anc \<sigma> a m"
  shows "dominated a m"
  using assms
proof (induction arbitrary: dq rule: anc.induct)
  case (anc_up q d m)
  note d = chainedD [OF anc_up.prems(1,3) anc_up.hyps(1)]
  then obtain d' where d': "\<sigma> ! d = Some d'" by blast
  have qe: "q \<noteq> e" using anc_up.hyps anc_up.prems(1) chained_entry by force
  have "anc \<sigma> a d" using anc_trans [OF anc_up.hyps(3) anc_up.prems(6)] .
  with anc_found [OF _ anc_up.prems(1) d(4) d'] d(5) [OF qe] have "a \<noteq> q" by fastforce
  then have "dominated a d" using keptD [OF anc_up.prems(2) d(1) qe anc_up.hyps(1) anc_up.prems(5)] by simp
  with anc_up.IH anc_up.prems d d' show ?case by blast
qed

section \<open>One update\<close>

text \<open>
  The new entry is the meet of the predecessors found so far, and an earlier predecessor is among
  them.
\<close>

definition meets :: "idoms \<Rightarrow> nat \<Rightarrow> nat \<Rightarrow> bool" where
  "meets \<sigma> b m \<longleftrightarrow> m < n \<and> \<sigma> ! m \<noteq> None \<and> (\<forall>a. anc \<sigma> a m \<longleftrightarrow> (\<forall>p\<in>found \<sigma> (preds c ! b). anc \<sigma> a p))"

lemma meetsD:
  assumes "meets \<sigma> b m"
  shows "m < n" "\<exists>d. \<sigma> ! m = Some d" "p \<in> found \<sigma> (preds c ! b) \<Longrightarrow> anc \<sigma> m p"
    "(\<And>p. p \<in> found \<sigma> (preds c ! b) \<Longrightarrow> anc \<sigma> a p) \<Longrightarrow> anc \<sigma> a m"
    "anc \<sigma> a m \<Longrightarrow> p \<in> found \<sigma> (preds c ! b) \<Longrightarrow> anc \<sigma> a p"
proof -
  have all: "\<forall>a. anc \<sigma> a m \<longleftrightarrow> (\<forall>p\<in>found \<sigma> (preds c ! b). anc \<sigma> a p)" and "m < n" and "\<sigma> ! m \<noteq> None"
    using assms unfolding meets_def by blast+
  then show "m < n" "\<exists>d. \<sigma> ! m = Some d" by auto
  show "anc \<sigma> m p" if "p \<in> found \<sigma> (preds c ! b)" using that all anc_refl by blast
  show "anc \<sigma> a m" if "\<And>p. p \<in> found \<sigma> (preds c ! b) \<Longrightarrow> anc \<sigma> a p" using that all by blast
  show "anc \<sigma> a p" if "anc \<sigma> a m" "p \<in> found \<sigma> (preds c ! b)" using that all by blast
qed

lemma earlier_found:
  assumes "filled i \<sigma>" and "b \<in> R" and "ix ! b = i" and "b \<noteq> e"
  obtains q where "q \<in> found \<sigma> (preds c ! b)" "ix ! q < ix ! b"
proof -
  have "rpo c \<noteq> []" using assms(2) by auto
  with order_earlier [OF assms(2)] assms(4) obtain q where q: "q \<in> set (preds c ! b)" "before (rpo c) q b"
    by (auto simp: entry_hd)
  note qi = ix_before [OF q(2)]
  then have "\<sigma> ! q \<noteq> None" using assms(1,3) by (auto simp: filled_def)
  moreover have "reachable c ! q" using qi order_range by (simp add: reachable_iff)
  ultimately show thesis using that [of q] q(1) qi by (auto simp: found_def)
qed

lemma new_above_old:
  assumes "good i \<sigma>" and "b \<in> R" and "b \<noteq> e" and "meets \<sigma> b m" and "\<sigma> ! b = Some old"
  shows "anc \<sigma> m old"
proof -
  note good = goodD [OF assms(1)] and m = meetsD [OF assms(4)]
  have b: "b < n" by (rule order_range [OF assms(2)])
  obtain q where q: "follows i \<sigma> b old q" using behindE [OF good(3) assms(2,3,5)] .
  then have qf: "q \<in> found \<sigma> (preds c ! b)" by (simp add: follows_def)
  note qd = foundD [OF qf b]
  then obtain dq where dq: "\<sigma> ! q = Some dq" by blast
  have mq: "anc \<sigma> m q" by (rule m(3) [OF qf])
  have le: "ix ! m \<le> ix ! old" using wideD [OF good(2) assms(2,3,5)] m(3) by blast
  show ?thesis
    using q anc_by_ix [OF good(1) qd(2) dq mq _ le] mq le unfolding follows_def by blast
qed

text \<open>The state after the update, over the state before it.\<close>

definition updates :: "nat \<Rightarrow> idoms \<Rightarrow> nat \<Rightarrow> nat \<Rightarrow> bool" where
  "updates i \<sigma> b m \<longleftrightarrow> good i \<sigma> \<and> b \<in> R \<and> b \<noteq> e \<and> ix ! b = i \<and> meets \<sigma> b m"

lemma updatesD:
  assumes "updates i \<sigma> b m"
  shows "good i \<sigma>" "b \<in> R" "b \<noteq> e" "ix ! b = i" "meets \<sigma> b m" "b < n" "b < length \<sigma>"
  using assms order_range chained_entry unfolding updates_def good_def by auto

lemma new_earlier:
  assumes "updates i \<sigma> b m"
  shows "ix ! m < i" "m \<noteq> b" "\<not> anc \<sigma> b m"
proof -
  note u = updatesD [OF assms] and m = meetsD [OF updatesD(5) [OF assms]]
  note ch = goodD(1) [OF u(1)]
  obtain q where q: "q \<in> found \<sigma> (preds c ! b)" "ix ! q < ix ! b"
    using earlier_found [OF goodD(4) [OF u(1)] u(2,4,3)] .
  obtain dq where "\<sigma> ! q = Some dq" using foundD(3) [OF q(1) u(6)] by blast
  from anc_found [OF m(3) [OF q(1)] ch foundD(2) [OF q(1) u(6)] this] q(2) u(4)
  show lt: "ix ! m < i" by simp
  then show "m \<noteq> b" using u(4) by auto
  obtain dm where "\<sigma> ! m = Some dm" using m(2) by blast
  then show "\<not> anc \<sigma> b m" using anc_found [OF _ ch m(1)] lt u(4) by fastforce
qed

lemma updated_found:
  assumes "updates i \<sigma> b m" and "\<sigma> ! x \<noteq> None"
  shows "\<sigma>[b := Some m] ! x \<noteq> None"
  using assms updatesD(7) by (cases "x = b") auto

lemma updated_self:
  assumes "updates i \<sigma> b m"
  shows "anc (\<sigma>[b := Some m]) a b \<longleftrightarrow> a = b \<or> anc \<sigma> a m"
  using anc_other [OF new_earlier(3) [OF assms]] updatesD(7) [OF assms] new_earlier(2) [OF assms]
  by (subst anc_step_iff [of _ b m]) auto

lemma updated_shrinks:
  assumes "updates i \<sigma> b m" and "x < n" and "\<sigma> ! x = Some d" and "anc (\<sigma>[b := Some m]) a x"
  shows "anc \<sigma> a x"
  using anc_updated [OF assms(4)]
proof
  assume b: "anc \<sigma> b x \<and> anc (\<sigma>[b := Some m]) a b"
  note u = updatesD [OF assms(1)]
  obtain old where old: "\<sigma> ! b = Some old"
    using anc_found [OF conjunct1 [OF b] goodD(1) [OF u(1)] assms(2,3)] by blast
  have "old \<noteq> b" using chainedD(5) [OF goodD(1) [OF u(1)] u(6) old u(3)] by auto
  moreover have "anc \<sigma> m old" by (rule new_above_old [OF u(1-3,5) old])
  ultimately have "anc \<sigma> m b" using old by (blast intro: anc_up)
  then have "anc \<sigma> a b" using b updated_self [OF assms(1)] by (auto intro: anc_trans)
  then show ?thesis using b by (auto intro: anc_trans)
qed

lemma updated_early:
  assumes "updates i \<sigma> b m" and "x < n" and "\<sigma> ! x = Some d" and "ix ! x < i"
  shows "anc (\<sigma>[b := Some m]) a x \<longleftrightarrow> anc \<sigma> a x"
proof -
  note u = updatesD [OF assms(1)]
  have "\<not> anc \<sigma> b x" using anc_found [OF _ goodD(1) [OF u(1)] assms(2,3)] assms(4) u(4) by fastforce
  then show ?thesis by (rule anc_other)
qed

lemma update_chained:
  assumes "updates i \<sigma> b m"
  shows "chained (\<sigma>[b := Some m])"
proof -
  note u = updatesD [OF assms]
  note ch = goodD(1) [OF u(1)]
  obtain dm where dm: "\<sigma> ! m = Some dm" using meetsD(2) [OF u(5)] by blast
  have "x \<in> R \<and> d \<in> R \<and> \<sigma>[b := Some m] ! d \<noteq> None \<and> (x \<noteq> e \<longrightarrow> ix ! d < ix ! x)"
    if "x < n" "\<sigma>[b := Some m] ! x = Some d" for x d
  proof (cases "x = b")
    case True
    then have "d = m" using that u(7) by simp
    with True u(2,4) new_earlier(1,2) [OF assms] dm chainedD(1) [OF ch meetsD(1) [OF u(5)] dm]
    show ?thesis by simp
  next
    case False
    then have x: "\<sigma> ! x = Some d" using that by simp
    note d = chainedD [OF ch that(1) x]
    have "\<sigma>[b := Some m] ! d \<noteq> None" using d(3) updated_found [OF assms] by simp
    with d show ?thesis by blast
  qed
  moreover have "\<sigma>[b := Some m] ! e = Some e" using chained_entry [OF ch] u(3) by simp
  ultimately show ?thesis using chained_entry [OF ch] by (simp add: chained_def)
qed

lemma update_wide:
  assumes "updates i \<sigma> b m"
  shows "wide (\<sigma>[b := Some m])"
  unfolding wide_def
proof (intro ballI allI impI, elim conjE)
  fix y d a
  assume y: "y \<in> R" "y \<noteq> e" "\<sigma>[b := Some m] ! y = Some d"
    and all: "\<forall>p\<in>found (\<sigma>[b := Some m]) (preds c ! y). anc (\<sigma>[b := Some m]) a p"
  note u = updatesD [OF assms]
  have yn: "y < n" by (rule order_range [OF y(1)])
  have before: "anc \<sigma> a p" if "p \<in> found \<sigma> (preds c ! y)" for p
  proof -
    note p = foundD [OF that yn]
    then obtain dp where "\<sigma> ! p = Some dp" by blast
    moreover have "anc (\<sigma>[b := Some m]) a p" using all found_mono [OF updated_found [OF assms] that] by blast
    ultimately show ?thesis using updated_shrinks [OF assms p(2)] by blast
  qed
  show "ix ! a \<le> ix ! d"
  proof (cases "y = b")
    case True
    then have "d = m" using y(3) u(7) by simp
    obtain dm where dm: "\<sigma> ! m = Some dm" using meetsD(2) [OF u(5)] by blast
    have "anc \<sigma> a m" using before meetsD(4) [OF u(5)] True by blast
    with anc_found [OF this goodD(1) [OF u(1)] meetsD(1) [OF u(5)] dm] \<open>d = m\<close> show ?thesis by simp
  next
    case False
    then have "\<sigma> ! y = Some d" using y(3) by simp
    from wideD [OF goodD(2) [OF u(1)] y(1,2) this before] show ?thesis .
  qed
qed

lemma update_behind:
  assumes "updates i \<sigma> b m"
  shows "behind (Suc i) (\<sigma>[b := Some m])"
  unfolding behind_def
proof (intro ballI allI impI, elim conjE)
  fix y d
  assume y: "y \<in> R" "y \<noteq> e" "\<sigma>[b := Some m] ! y = Some d"
  note u = updatesD [OF assms]
  note ch = goodD(1) [OF u(1)]
  have yn: "y < n" by (rule order_range [OF y(1)])
  show "\<exists>q. follows (Suc i) (\<sigma>[b := Some m]) y d q"
  proof (cases "y = b")
    case True
    then have d: "d = m" using y(3) u(7) by simp
    obtain q where q: "q \<in> found \<sigma> (preds c ! b)" "ix ! q < ix ! b"
      using earlier_found [OF goodD(4) [OF u(1)] u(2,4,3)] .
    obtain dq where dq: "\<sigma> ! q = Some dq" using foundD(3) [OF q(1) u(6)] by blast
    have "anc (\<sigma>[b := Some m]) m q"
      using updated_early [OF assms foundD(2) [OF q(1) u(6)] dq] q(2) u(4) meetsD(3) [OF u(5) q(1)] by simp
    then show ?thesis
      using q found_mono [OF updated_found [OF assms] q(1)] True d unfolding follows_def by blast
  next
    case False
    then have sy: "\<sigma> ! y = Some d" using y(3) by simp
    note d = chainedD [OF ch yn sy]
    obtain dd where dd: "\<sigma> ! d = Some dd" using d(3) by blast
    obtain q where q: "follows i \<sigma> y d q" using behindE [OF goodD(3) [OF u(1)] y(1,2) sy] .
    have qf: "q \<in> found \<sigma> (preds c ! y)" and qy: "ix ! q < ix ! y" using q by (simp_all add: follows_def)
    have qn: "q < n" by (rule foundD(2) [OF qf yn])
    obtain dq where dq: "\<sigma> ! q = Some dq" using foundD(3) [OF qf yn] by blast
    have later: "follows (Suc i) (\<sigma>[b := Some m]) y d q"
      if "ix ! d < i" "i < ix ! y" and above: "\<And>a. anc \<sigma> a q \<Longrightarrow> ix ! a \<le> ix ! d \<Longrightarrow> anc \<sigma> a d"
    proof -
      have "anc (\<sigma>[b := Some m]) a d" if "anc (\<sigma>[b := Some m]) a q" "ix ! a \<le> ix ! d" for a
        using updated_early [OF assms d(4) dd \<open>ix ! d < i\<close>] above [OF updated_shrinks [OF assms qn dq that(1)] that(2)]
        by blast
      then show ?thesis
        using \<open>ix ! d < i\<close> \<open>i < ix ! y\<close> qy found_mono [OF updated_found [OF assms] qf] unfolding follows_def by auto
    qed
    show ?thesis
    proof (cases "anc \<sigma> d q")
      case True
      show ?thesis
      proof (cases "anc (\<sigma>[b := Some m]) d q")
        case True
        then show ?thesis
          using qy found_mono [OF updated_found [OF assms] qf] unfolding follows_def by blast
      next
        case lost: False
        with anc_lost [OF True] have l: "anc \<sigma> b q" "anc \<sigma> d b" "d \<noteq> b" by blast+
        obtain ob where ob: "\<sigma> ! b = Some ob" using anc_found [OF l(1) ch qn dq] by blast
        from anc_found [OF l(2) ch u(6) ob] l(3) u(2,4) ix_inj [of d b] have "ix ! d < i" by fastforce
        moreover have "i < ix ! y" using anc_found [OF l(1) ch qn dq] qy u(4) by simp
        ultimately show ?thesis using later anc_by_ix [OF ch qn dq _ True] by blast
      qed
    next
      case False
      with q have f: "ix ! d < i" "i \<le> ix ! y" "\<forall>a. anc \<sigma> a q \<and> ix ! a \<le> ix ! d \<longrightarrow> anc \<sigma> a d"
        unfolding follows_def by blast+
      moreover have "ix ! y \<noteq> i" using \<open>y \<noteq> b\<close> u(2,4) y(1) ix_inj by fastforce
      ultimately have "follows (Suc i) (\<sigma>[b := Some m]) y d q" by (intro later) auto
      then show ?thesis ..
    qed
  qed
qed

lemma update_filled:
  assumes "updates i \<sigma> b m"
  shows "filled (Suc i) (\<sigma>[b := Some m])"
  unfolding filled_def
proof (intro ballI impI)
  fix x assume x: "x \<in> R" "ix ! x < Suc i"
  note u = updatesD [OF assms]
  show "\<sigma>[b := Some m] ! x \<noteq> None"
  proof (cases "x = b")
    case False
    then have "ix ! x < i" using x u(2,4) ix_inj [of x b] by fastforce
    then have "\<sigma> ! x \<noteq> None" using goodD(4) [OF u(1)] x(1) unfolding filled_def by blast
    then show ?thesis by (rule updated_found [OF assms])
  qed (use u(7) in simp)
qed

lemma update_kept:
  assumes "updates i \<sigma> b m"
  shows "kept (\<sigma>[b := Some m])"
  unfolding kept_def
proof (intro ballI allI impI, elim conjE)
  fix y d a
  assume y: "y \<in> R" "y \<noteq> e" "\<sigma>[b := Some m] ! y = Some d" and a: "dominated a y" "a \<noteq> y"
  note u = updatesD [OF assms]
  note ch = goodD(1) [OF u(1)] and kept = goodD(5) [OF u(1)]
  show "dominated a d"
  proof (cases "y = b")
    case True
    then have d: "d = m" using y(3) u(7) by simp
    have pred: "dominated a p \<and> anc \<sigma> a p" if "p \<in> found \<sigma> (preds c ! b)" for p
    proof -
      note p = foundD [OF that u(6)]
      then obtain dp where dp: "\<sigma> ! p = Some dp" by blast
      have "dominated a p" using dominated_pred [OF _ _ u(6) p(4)] a True by blast
      with dominated_anc [OF ch kept p(2) dp] show ?thesis by blast
    qed
    obtain q where q: "q \<in> found \<sigma> (preds c ! b)" using earlier_found [OF goodD(4) [OF u(1)] u(2,4,3)] .
    obtain dq where dq: "\<sigma> ! q = Some dq" using foundD(3) [OF q u(6)] by blast
    have "anc \<sigma> a m" using pred meetsD(4) [OF u(5)] by blast
    from dominated_walk [OF meetsD(3) [OF u(5) q] ch kept foundD(2) [OF q u(6)] dq _ this] pred [OF q] d
    show ?thesis by blast
  next
    case False
    with y(3) have "\<sigma> ! y = Some d" by simp
    from keptD [OF kept y(1,2) this a] show ?thesis .
  qed
qed

lemma update_good: "updates i \<sigma> b m \<Longrightarrow> good (Suc i) (\<sigma>[b := Some m])"
  by (simp add: good_def update_chained update_wide update_behind update_filled update_kept)

section \<open>Termination\<close>

definition height :: "idoms \<Rightarrow> nat" where
  "height \<sigma> = sum_list (map (\<lambda>d. case d of None \<Rightarrow> Suc n | Some d \<Rightarrow> ix ! d) \<sigma>)"

lemma update_height:
  assumes "updates i \<sigma> b m" and "\<sigma> ! b \<noteq> Some m"
  shows "height (\<sigma>[b := Some m]) < height \<sigma>"
proof -
  note u = updatesD [OF assms(1)]
  note ch = goodD(1) [OF u(1)]
  let ?h = "\<lambda>d. case d of None \<Rightarrow> Suc n | Some d \<Rightarrow> ix ! d"
  obtain dm where dm: "\<sigma> ! m = Some dm" using meetsD(2) [OF u(5)] by blast
  have mR: "m \<in> R" by (rule chainedD(1) [OF ch meetsD(1) [OF u(5)] dm])
  have "?h (Some m) < ?h (\<sigma> ! b)"
  proof (cases "\<sigma> ! b")
    case None
    then show ?thesis using ix_less_n [OF mR] by simp
  next
    case (Some old)
    note old = chainedD [OF ch u(6) Some]
    obtain d where d: "\<sigma> ! old = Some d" using old(3) by blast
    have "anc \<sigma> m old" by (rule new_above_old [OF u(1-3,5) Some])
    from anc_found [OF this ch old(4) d] have "ix ! m \<le> ix ! old" by blast
    moreover have "ix ! m \<noteq> ix ! old" using Some assms(2) ix_inj [OF mR old(2)] by auto
    ultimately show ?thesis using Some by simp
  qed
  moreover have "?h (\<sigma> ! b) \<le> height \<sigma>"
    using u(7) unfolding height_def by (intro member_le_sum_list) auto
  moreover have "height (\<sigma>[b := Some m]) = height \<sigma> + ?h (Some m) - ?h (\<sigma> ! b)"
    using u(7) by (simp add: height_def map_update sum_list_update)
  ultimately show ?thesis by linarith
qed

end

end
