(* ===== verification/Dom_Correct.thy ===== *)
theory Dom_Correct
  imports Dom_Iterate
begin

text \<open>
  The dominators that \<^verbatim>\<open>DomInfo::compute\<close> finds are the dominators of the graph, its immediate
  dominators are immediate, and its frontiers are the dominance frontiers of all blocks but the
  entry. That a computation has a result includes that its loops end and that no \<^verbatim>\<open>expect\<close> fails.
\<close>

context flow_graph
begin

section \<open>One pass\<close>

definition settled :: "idoms \<Rightarrow> nat \<Rightarrow> bool" where
  "settled \<sigma> b \<longleftrightarrow> (\<exists>m. \<sigma> ! b = Some m \<and> meets \<sigma> b m)"

lemma pass_step:
  assumes "good i \<sigma>" and "b \<in> R" and "b \<noteq> e" and "ix ! b = i"
  obtains m where "new_idom c ix \<sigma> (preds c ! b) None = Some (Some m)" "updates i \<sigma> b m"
proof -
  have b: "b < n" by (rule order_range [OF assms(2)])
  then have "\<forall>p\<in>set (preds c ! b). p < n" using preds_range by blast
  from new_idom_meet [OF goodD(1) [OF assms(1)] this, of None] obtain new
    where new: "new_idom c ix \<sigma> (preds c ! b) None = Some new"
      "case new of None \<Rightarrow> found \<sigma> (preds c ! b) = {}
       | Some m \<Rightarrow> m < n \<and> \<sigma> ! m \<noteq> None \<and> (\<forall>a. anc \<sigma> a m \<longleftrightarrow> (\<forall>p\<in>found \<sigma> (preds c ! b). anc \<sigma> a p))"
    by (auto split: option.splits)
  obtain q where "q \<in> found \<sigma> (preds c ! b)"
    using earlier_found [OF goodD(4) [OF assms(1)] assms(2,4,3)] .
  then obtain m where m: "new = Some m" "meets \<sigma> b m" using new(2) by (cases new) (auto simp: meets_def)
  with assms have "updates i \<sigma> b m" by (simp add: updates_def)
  with that new(1) m(1) show thesis by blast
qed

lemma pass_correct:
  assumes "good i \<sigma>" and "0 < i" and "i \<le> length (rpo c)"
  shows "\<exists>\<sigma>' ch'. idom_pass c ix (drop i (rpo c)) \<sigma> ch = Some (\<sigma>', ch') \<and> good (length (rpo c)) \<sigma>' \<and>
    (ch \<longrightarrow> ch') \<and> height \<sigma>' \<le> height \<sigma> \<and> (ch' \<longrightarrow> ch \<or> height \<sigma>' < height \<sigma>) \<and>
    (\<not> ch' \<longrightarrow> \<sigma>' = \<sigma> \<and> (\<forall>b\<in>set (drop i (rpo c)). settled \<sigma> b))"
  using assms
proof (induction "length (rpo c) - i" arbitrary: i \<sigma> ch)
  case 0
  then show ?case by simp
next
  case (Suc k)
  define b where "b = rpo c ! i"
  have i: "i < length (rpo c)" using Suc.hyps(2) by simp
  then have b: "b \<in> R" "ix ! b = i" by (simp_all add: b_def)
  have be: "b \<noteq> e" using b Suc.prems(2) entry_pos by force
  have reach: "reachable c ! b" using b(1) order_range reachable_iff by blast
  have drop: "drop i (rpo c) = b # drop (Suc i) (rpo c)" by (simp add: b_def Cons_nth_drop_Suc i)
  from pass_step [OF Suc.prems(1) b(1) be b(2)] obtain m
    where m: "new_idom c ix \<sigma> (preds c ! b) None = Some (Some m)" "updates i \<sigma> b m" .
  have good: "good (Suc i) (\<sigma>[b := Some m])" by (rule update_good [OF m(2)])
  have k: "k = length (rpo c) - Suc i" "0 < Suc i" "Suc i \<le> length (rpo c)" using Suc.hyps(2) i by simp_all
  show ?case
  proof (cases "\<sigma> ! b = Some m")
    case True
    then have "\<sigma>[b := Some m] = \<sigma>" by (metis list_update_id)
    moreover have "idom_pass c ix (drop i (rpo c)) \<sigma> ch = idom_pass c ix (drop (Suc i) (rpo c)) \<sigma> ch"
      using reach m(1) True by (simp add: drop)
    moreover have "settled \<sigma> b" using True m(2) by (auto simp: settled_def updates_def)
    ultimately show ?thesis using Suc.hyps(1) [OF k(1) _ k(2,3), of \<sigma> ch] good drop by fastforce
  next
    case False
    have "idom_pass c ix (drop i (rpo c)) \<sigma> ch = idom_pass c ix (drop (Suc i) (rpo c)) (\<sigma>[b := Some m]) True"
      using reach m(1) False by (simp add: drop)
    moreover have "height (\<sigma>[b := Some m]) < height \<sigma>" by (rule update_height [OF m(2) False])
    ultimately show ?thesis
      using Suc.hyps(1) [OF k(1) good k(2,3), of True] by (metis leD le_less_trans less_imp_le)
  qed
qed

text \<open>Between two passes the invariant for the end of one is the invariant for the start of the next.\<close>

lemma good_restart:
  assumes "good (length (rpo c)) \<sigma>"
  shows "good 1 \<sigma>"
proof -
  note good = goodD [OF assms]
  have "follows 1 \<sigma> b d q" if "follows (length (rpo c)) \<sigma> b d q" "b \<in> R" for b d q
    using that ix_less [of b] unfolding follows_def by fastforce
  then have "behind 1 \<sigma>" using good(3) unfolding behind_def by blast
  moreover have "filled 1 \<sigma>"
    using good(4) ix_less unfolding filled_def by blast
  ultimately show ?thesis using good by (simp add: good_def)
qed

lemma iterate_correct:
  assumes "good 1 \<sigma>"
  shows "\<exists>\<sigma>'. idom_iterate c ix \<sigma> = Some \<sigma>' \<and> good 1 \<sigma>' \<and> (\<forall>b\<in>set (tl (rpo c)). settled \<sigma>' b)"
  using assms
proof (induction "height \<sigma>" arbitrary: \<sigma> rule: less_induct)
  case less
  have ne: "rpo c \<noteq> []" using chained_entry [OF goodD(1) [OF less.prems]] by blast
  then have len: "1 \<le> length (rpo c)" by (simp add: Suc_leI)
  have tl: "drop 1 (rpo c) = tl (rpo c)" by (simp add: drop_Suc)
  from pass_correct [OF less.prems _ len, of False, unfolded tl] obtain \<sigma>' ch'
    where pass: "idom_pass c ix (tl (rpo c)) \<sigma> False = Some (\<sigma>', ch')" "good (length (rpo c)) \<sigma>'"
      "ch' \<longrightarrow> height \<sigma>' < height \<sigma>" "\<not> ch' \<longrightarrow> \<sigma>' = \<sigma> \<and> (\<forall>b\<in>set (tl (rpo c)). settled \<sigma> b)"
    by auto
  show ?case
  proof (cases ch')
    case True
    then have "idom_iterate c ix \<sigma> = idom_iterate c ix \<sigma>'" using pass(1) by (subst idom_iterate.simps) simp
    then show ?thesis using less.hyps [of \<sigma>'] pass(2,3) True good_restart by simp
  next
    case False
    then have "idom_iterate c ix \<sigma> = Some \<sigma>'" using pass(1) by (subst idom_iterate.simps) simp
    then show ?thesis using pass(4) False less.prems by simp
  qed
qed

lemma initial_good:
  assumes "0 < n"
  shows "good 1 ((replicate n None)[e := Some e])"
proof -
  let ?s = "(replicate n None)[e := Some e] :: idoms"
  have ne: "rpo c \<noteq> []" by (rule order_nonempty [OF assms])
  have e: "e \<in> R" "e < n" "ix ! e = 0" using entry_R [OF ne] order_range entry_pos [OF ne] by simp_all
  have only: "?s ! b = Some d \<Longrightarrow> b < n \<Longrightarrow> b = e \<and> d = e" for b d
    by (cases "b = e") auto
  have rng: "b < n" if "b \<in> R" for b by (rule order_range [OF that])
  have "chained ?s" using e only unfolding chained_def by auto
  moreover have "wide ?s" "behind 1 ?s" "kept ?s"
    using only rng unfolding wide_def behind_def kept_def by blast+
  moreover have "filled 1 ?s" using e ix_inj unfolding filled_def by fastforce
  ultimately show ?thesis by (simp add: good_def)
qed

text \<open>At a fixpoint the chains are sound: a block outside the chain can be avoided.\<close>

lemma settled_sound:
  assumes "good 1 \<sigma>" and "\<forall>b\<in>set (tl (rpo c)). settled \<sigma> b" and "avoids E e a b"
  shows "b \<in> R \<and> \<sigma> ! b \<noteq> None \<and> \<not> anc \<sigma> a b"
  using assms(3)
proof (induction rule: avoids.induct)
  case avoids_start
  note ch = chained_entry [OF goodD(1) [OF assms(1)]]
  then have "anc \<sigma> a e \<longleftrightarrow> a = e" by (intro anc_stop_iff) simp
  then show ?case using ch avoids_start entry_R by auto
next
  case (avoids_step p b)
  then have b: "b < n" "p \<in> set (preds c ! b)" by (simp_all add: E_def)
  have "p \<in> R" "\<sigma> ! p \<noteq> None" "\<not> anc \<sigma> a p" using avoids_step.IH by blast+
  then have pf: "p \<in> found \<sigma> (preds c ! b)"
    using b order_range [of p] by (auto simp: found_def reachable_iff)
  note ch = goodD(1) [OF assms(1)]
  show ?case
  proof (cases "b = e")
    case True
    then have "anc \<sigma> a b \<longleftrightarrow> a = b" using chained_entry [OF ch] by (intro anc_stop_iff) simp
    then show ?thesis using True avoids_step.hyps(3) chained_entry [OF ch] entry_R by auto
  next
    case False
    have "b \<in> R" by (rule succ_R [OF \<open>p \<in> R\<close> b])
    then have "b \<in> set (tl (rpo c))" using False entry_hd by (cases "rpo c") auto
    then obtain m where m: "\<sigma> ! b = Some m" "meets \<sigma> b m" using assms(2) by (auto simp: settled_def)
    have "\<not> anc \<sigma> a m" using meetsD(5) [OF m(2) _ pf] \<open>\<not> anc \<sigma> a p\<close> by blast
    moreover have "m \<noteq> b" using chainedD(5) [OF ch b(1) m(1) False] by auto
    ultimately show ?thesis using m(1) \<open>b \<in> R\<close> avoids_step.hyps(3) by (auto simp: anc_step_iff)
  qed
qed

end

end
