(* ===== verification/Dom_Results.thy ===== *)
theory Dom_Results
  imports Dom_Correct
begin

text \<open>
  What the results of \<^verbatim>\<open>DomInfo::compute\<close> say of the paths of the graph, over the fixpoint of the
  iteration.
\<close>

section \<open>Reading the fixpoint\<close>

context flow_graph
begin

definition solved :: "idoms \<Rightarrow> bool" where
  "solved \<sigma> \<longleftrightarrow> good 1 \<sigma> \<and> (\<forall>b\<in>set (tl (rpo c)). settled \<sigma> b)"

lemma solvedD:
  assumes "solved \<sigma>"
  shows "good 1 \<sigma>" "chained \<sigma>" "kept \<sigma>" "rpo c \<noteq> []" "\<sigma> ! e = Some e" "length \<sigma> = n"
  using assms chained_entry by (auto simp: solved_def good_def)

lemma idoms_solved:
  assumes "0 < n"
  obtains \<sigma> where "compute_idoms n c = Some \<sigma>" "solved \<sigma>"
  using iterate_correct [OF initial_good [OF assms]] by (auto simp: compute_idoms_def solved_def)

lemma solved_settled:
  assumes "solved \<sigma>" and "b \<in> R" and "b \<noteq> e"
  obtains m where "\<sigma> ! b = Some m" "meets \<sigma> b m" "m \<noteq> b" "m < n" "m \<in> R"
proof -
  have "b \<in> set (tl (rpo c))" using assms(2,3) entry_hd by (cases "rpo c") auto
  then obtain m where m: "\<sigma> ! b = Some m" "meets \<sigma> b m"
    using assms(1) by (auto simp: solved_def settled_def)
  note d = chainedD [OF solvedD(2) [OF assms(1)] order_range [OF assms(2)] m(1)]
  then show thesis using that [OF m] assms(3) by auto
qed

lemma solved_found:
  assumes "solved \<sigma>" and "b < n"
  shows "\<sigma> ! b = None \<longleftrightarrow> b \<notin> R"
proof -
  have "\<sigma> ! b \<noteq> None" if "b \<in> R"
    using that solved_settled [OF assms(1) that] solvedD(5) [OF assms(1)] by (cases "b = e") auto
  moreover have "b \<in> R" if "\<sigma> ! b \<noteq> None"
    using that chainedD(1) [OF solvedD(2) [OF assms(1)] assms(2)] by auto
  ultimately show ?thesis by blast
qed

lemma solved_anc:
  assumes "solved \<sigma>" and "b \<in> R"
  shows "anc \<sigma> a b \<longleftrightarrow> dominated a b"
proof
  have b: "b < n" by (rule order_range [OF assms(2)])
  then obtain d where d: "\<sigma> ! b = Some d" using solved_found [OF assms(1)] assms(2) by fastforce
  show "anc \<sigma> a b" if "dominated a b"
    by (rule dominated_anc [OF solvedD(2,3) [OF assms(1)] b d that])
  show "dominated a b" if "anc \<sigma> a b"
    using settled_sound [of \<sigma> a b] that assms(1) by (auto simp: solved_def dominated_def)
qed

lemma solved_strict:
  assumes "solved \<sigma>" and "b \<in> R" and "b \<noteq> e" and "\<sigma> ! b = Some d"
  shows "anc \<sigma> a d \<longleftrightarrow> anc \<sigma> a b \<and> a \<noteq> b"
proof -
  note d = chainedD [OF solvedD(2) [OF assms(1)] order_range [OF assms(2)] assms(4)]
  obtain d' where "\<sigma> ! d = Some d'" using d(3) by blast
  from anc_found [OF _ solvedD(2) [OF assms(1)] d(4) this] d(5) [OF assms(3)]
  have "a \<noteq> b" if "anc \<sigma> a d" using that by fastforce
  then show ?thesis using assms(4) d(5) [OF assms(3)] by (subst anc_step_iff [of _ b d]) auto
qed

lemma climbs_anc:
  assumes "solved \<sigma>" and "b < n"
  shows "climbs_to \<sigma> a b = Some (anc \<sigma> a b)"
  using assms(2)
proof (induction "ix ! b" arbitrary: b rule: less_induct)
  case less
  show ?case
  proof (cases "b = a \<or> \<sigma> ! b = None \<or> \<sigma> ! b = Some b")
    case True
    then show ?thesis by (subst climbs_to.simps) (auto simp: anc_stop_iff)
  next
    case False
    then obtain d where d: "\<sigma> ! b = Some d" "d \<noteq> b" by auto
    note dd = chainedD [OF solvedD(2) [OF assms(1)] less.prems d(1)]
    have "b \<noteq> e" using d solvedD(5) [OF assms(1)] by auto
    with less.hyps [OF dd(5) dd(4)] have "climbs_to \<sigma> a d = Some (anc \<sigma> a d)" .
    with False d show ?thesis by (subst climbs_to.simps) (auto simp: anc_step_iff)
  qed
qed

section \<open>Frontiers\<close>

text \<open>A run from \<^verbatim>\<open>p\<close> puts \<^verbatim>\<open>b\<close> into the frontier of what lies on \<^verbatim>\<open>p\<close>'s chain and not on that of the
  immediate dominator of \<^verbatim>\<open>b\<close>.\<close>

lemma run_adds:
  assumes "solved \<sigma>" and "b \<in> R" and "\<sigma> ! b = Some d" and "p < n" and "p \<in> R \<Longrightarrow> anc \<sigma> d p"
    and "length fr = n"
  shows "\<exists>fr'. frontier_run \<sigma> b p fr = Some fr' \<and> length fr' = n \<and>
    (\<forall>x<n. set (fr' ! x) = set (fr ! x) \<union> (if anc \<sigma> x p \<and> \<not> anc \<sigma> x d then {b} else {}))"
  using assms(4-)
proof (induction "ix ! p" arbitrary: p fr rule: less_induct)
  case less
  note ch = solvedD(2) [OF assms(1)]
  note d = chainedD [OF ch order_range [OF assms(2)] assms(3)]
  obtain d' where d': "\<sigma> ! d = Some d'" using d(3) by blast
  let ?fr = "fr[p := fr ! p @ [b]]"
  show ?case
  proof (cases "p = d")
    case True
    then show ?thesis using less.prems assms(3) by (subst frontier_run.simps) auto
  next
    case pd: False
    show ?thesis
    proof (cases "p \<in> R")
      case False
      then have None: "\<sigma> ! p = None" using solved_found [OF assms(1) less.prems(1)] by simp
      have "\<not> anc \<sigma> p d" using anc_found [OF _ ch d(4) d'] False by blast
      then show ?thesis
        using None pd less.prems assms(3)
        by (subst frontier_run.simps) (auto simp: anc_stop_iff nth_list_update)
    next
      case True
      note dp = less.prems(2) [OF True]
      obtain k where k: "\<sigma> ! p = Some k" using solved_found [OF assms(1) less.prems(1)] True by auto
      have pe: "p \<noteq> e"
      proof
        assume "p = e"
        with dp have "anc \<sigma> d e" by simp
        then have "d = e" using solvedD(5) [OF assms(1)] by (simp add: anc_stop_iff)
        with \<open>p = e\<close> pd show False by simp
      qed
      note kd = chainedD [OF ch less.prems(1) k]
      have kp: "k \<noteq> p" using kd(5) [OF pe] by auto
      have dk: "anc \<sigma> d k" using dp k kp pd by (simp add: anc_step_iff)
      from anc_found [OF dp ch less.prems(1) k] pd d(2) True ix_inj [of d p] have lt: "ix ! d < ix ! p" by fastforce
      have pnd: "\<not> anc \<sigma> p d" using anc_found [OF _ ch d(4) d', of p] lt by auto
      from less.hyps [OF kd(5) [OF pe] kd(4) dk, of ?fr] less.prems(3) obtain fr'
        where fr': "frontier_run \<sigma> b k ?fr = Some fr'" "length fr' = n"
          "\<forall>x<n. set (fr' ! x) = set (?fr ! x) \<union> (if anc \<sigma> x k \<and> \<not> anc \<sigma> x d then {b} else {})"
        by auto
      have "frontier_run \<sigma> b p fr = Some fr'"
        using fr'(1) pd assms(3) k by (subst frontier_run.simps) (simp add: Let_def)
      moreover have "set (?fr ! x) \<union> (if anc \<sigma> x k \<and> \<not> anc \<sigma> x d then {b} else {}) =
          set (fr ! x) \<union> (if anc \<sigma> x p \<and> \<not> anc \<sigma> x d then {b} else {})" if "x < n" for x
        using that pnd k kp less.prems(3) by (cases "x = p") (auto simp: anc_step_iff nth_list_update)
      ultimately show ?thesis using fr'(2,3) by auto
    qed
  qed
qed

lemma preds_add:
  assumes "solved \<sigma>" and "b \<in> R" and "\<sigma> ! b = Some d" and "\<forall>p\<in>set ps. p < n \<and> (p \<in> R \<longrightarrow> anc \<sigma> d p)"
    and "length fr = n"
  shows "\<exists>fr'. frontier_preds \<sigma> b ps fr = Some fr' \<and> length fr' = n \<and>
    (\<forall>x<n. set (fr' ! x) = set (fr ! x) \<union> {y. y = b \<and> (\<exists>p\<in>set ps. anc \<sigma> x p \<and> \<not> anc \<sigma> x d)})"
  using assms(4,5)
proof (induction ps arbitrary: fr)
  case (Cons p ps)
  have "p < n" "p \<in> R \<Longrightarrow> anc \<sigma> d p" using Cons.prems(1) by auto
  from run_adds [OF assms(1-3) this Cons.prems(2)] obtain fr1 where fr1:
    "frontier_run \<sigma> b p fr = Some fr1" "length fr1 = n"
    "\<forall>x<n. set (fr1 ! x) = set (fr ! x) \<union> (if anc \<sigma> x p \<and> \<not> anc \<sigma> x d then {b} else {})"
    by blast
  from Cons.IH [OF _ fr1(2)] Cons.prems(1) obtain fr2 where fr2:
    "frontier_preds \<sigma> b ps fr1 = Some fr2" "length fr2 = n"
    "\<forall>x<n. set (fr2 ! x) = set (fr1 ! x) \<union> {y. y = b \<and> (\<exists>p\<in>set ps. anc \<sigma> x p \<and> \<not> anc \<sigma> x d)}"
    by auto
  have "set (fr2 ! x) = set (fr ! x) \<union> {y. y = b \<and> (\<exists>p\<in>set (p # ps). anc \<sigma> x p \<and> \<not> anc \<sigma> x d)}"
    if "x < n" for x
    using fr1(3) fr2(3) that by auto
  then show ?case using fr1(1) fr2(1,2) by simp
qed simp

text \<open>The immediate dominator of a block dominates its predecessors.\<close>

lemma idom_preds:
  assumes "solved \<sigma>" and "b \<in> R" and "\<sigma> ! b = Some d" and "p \<in> set (preds c ! b)" and "p \<in> R"
  shows "anc \<sigma> d p"
proof -
  have p: "p < n" by (rule order_range [OF assms(5)])
  then obtain dp where dp: "\<sigma> ! p = Some dp" using solved_found [OF assms(1)] assms(5) by fastforce
  show ?thesis
  proof (cases "b = e")
    case True
    then show ?thesis using assms(3) solvedD(2,5) [OF assms(1)] anc_entry p dp by auto
  next
    case False
    obtain m where m: "\<sigma> ! b = Some m" "meets \<sigma> b m" using solved_settled [OF assms(1,2) False] .
    then show ?thesis
      using meetsD(3) [OF m(2), of p] assms(3-5) dp p by (auto simp: found_def reachable_iff)
  qed
qed

definition joins :: "idoms \<Rightarrow> nat \<Rightarrow> nat \<Rightarrow> bool" where
  "joins \<sigma> x b \<longleftrightarrow> b \<in> R \<and> length (preds c ! b) \<ge> 2 \<and>
     (\<exists>p\<in>set (preds c ! b). anc \<sigma> x p \<and> \<not> anc \<sigma> x (the (\<sigma> ! b)))"

lemma blocks_add:
  assumes "solved \<sigma>" and "\<forall>b\<in>set bs. b < n" and "length fr = n"
  shows "\<exists>fr'. frontier_blocks c \<sigma> bs fr = Some fr' \<and> length fr' = n \<and>
    (\<forall>x<n. set (fr' ! x) = set (fr ! x) \<union> {b \<in> set bs. joins \<sigma> x b})"
  using assms(2,3)
proof (induction bs arbitrary: fr)
  case (Cons b bs)
  have b: "b < n" "\<forall>b\<in>set bs. b < n" using Cons.prems(1) by auto
  show ?case
  proof (cases "reachable c ! b \<and> length (preds c ! b) \<ge> 2")
    case True
    then have bR: "b \<in> R" using b(1) by (simp add: reachable_iff)
    then obtain d where d: "\<sigma> ! b = Some d" using solved_found [OF assms(1) b(1)] by auto
    have "\<forall>p\<in>set (preds c ! b). p < n \<and> (p \<in> R \<longrightarrow> anc \<sigma> d p)"
      using idom_preds [OF assms(1) bR d] preds_range [OF b(1)] by blast
    from preds_add [OF assms(1) bR d this Cons.prems(2)] obtain fr1 where fr1:
      "frontier_preds \<sigma> b (preds c ! b) fr = Some fr1" "length fr1 = n"
      "\<forall>x<n. set (fr1 ! x) = set (fr ! x) \<union> {y. y = b \<and> (\<exists>p\<in>set (preds c ! b). anc \<sigma> x p \<and> \<not> anc \<sigma> x d)}"
      by blast
    from Cons.IH [OF b(2) fr1(2)] obtain fr2 where fr2:
      "frontier_blocks c \<sigma> bs fr1 = Some fr2" "length fr2 = n"
      "\<forall>x<n. set (fr2 ! x) = set (fr1 ! x) \<union> {b \<in> set bs. joins \<sigma> x b}" by blast
    have "joins \<sigma> x b \<longleftrightarrow> (\<exists>p\<in>set (preds c ! b). anc \<sigma> x p \<and> \<not> anc \<sigma> x d)" for x
      using True bR d by (simp add: joins_def)
    then have "set (fr2 ! x) = set (fr ! x) \<union> {y \<in> set (b # bs). joins \<sigma> x y}" if "x < n" for x
      using fr1(3) fr2(3) that by auto
    then show ?thesis using True fr1(1) fr2(1,2) by simp
  next
    case False
    then have "\<not> joins \<sigma> x b" for x using b(1) reachable_iff by (auto simp: joins_def)
    then have "{y \<in> set (b # bs). joins \<sigma> x y} = {y \<in> set bs. joins \<sigma> x y}" for x by auto
    moreover have "frontier_blocks c \<sigma> (b # bs) fr = frontier_blocks c \<sigma> bs fr" using False by auto
    ultimately show ?thesis using Cons.IH [OF b(2) Cons.prems(2)] by (simp only:)
  qed
qed simp

lemma set_dedup [simp]: "set (dedup xs) = set xs"
  by (simp add: dedup_def)

lemma frontier_correct:
  assumes "solved \<sigma>"
  obtains fr where "compute_frontier c \<sigma> = Some fr" "length fr = n"
    "\<And>x. x < n \<Longrightarrow> set (fr ! x) = {b. b < n \<and> joins \<sigma> x b}"
proof -
  have len: "length \<sigma> = n" by (rule solvedD(6) [OF assms])
  from blocks_add [OF assms, of "[0..<n]" "replicate n []"] obtain fr where fr:
    "frontier_blocks c \<sigma> [0..<n] (replicate n []) = Some fr" "length fr = n"
    "\<forall>x<n. set (fr ! x) = set (replicate n [] ! x) \<union> {b \<in> set [0..<n]. joins \<sigma> x b}"
    by auto
  show thesis
    by (rule that [of "map dedup fr"]) (use fr len in \<open>auto simp: compute_frontier_def\<close>)
qed

text \<open>Away from the entry the blocks that a block's frontier lists are where its dominance ends.\<close>

lemma joins_iff:
  assumes "solved \<sigma>" and "x \<in> R" and "b \<in> R" and "b \<noteq> e"
  shows "joins \<sigma> x b \<longleftrightarrow>
    (\<exists>p\<in>set (preds c ! b). p \<in> R \<and> dominated x p) \<and> \<not> (dominated x b \<and> x \<noteq> b)"
proof -
  obtain m where m: "\<sigma> ! b = Some m" "meets \<sigma> b m" using solved_settled [OF assms(1,3,4)] .
  have b: "b < n" by (rule order_range [OF assms(3)])
  have strict: "anc \<sigma> x m \<longleftrightarrow> dominated x b \<and> x \<noteq> b"
    using solved_strict [OF assms(1,3,4) m(1)] solved_anc [OF assms(1,3)] by simp
  have pred: "anc \<sigma> x p \<longleftrightarrow> p \<in> R \<and> dominated x p" if "p \<in> set (preds c ! b)" for p
  proof (cases "p \<in> R")
    case False
    then have "\<sigma> ! p = None" using solved_found [OF assms(1) preds_range [OF b that]] by simp
    then show ?thesis using False assms(2) by (auto simp: anc_stop_iff)
  qed (use solved_anc [OF assms(1)] in simp)
  have two: "2 \<le> length (preds c ! b)" if p: "p \<in> set (preds c ! b)" "anc \<sigma> x p" "\<not> anc \<sigma> x m" for p
  proof (rule ccontr)
    assume "\<not> 2 \<le> length (preds c ! b)"
    moreover have "length (preds c ! b) \<noteq> 0" using p(1) by auto
    ultimately have "length (preds c ! b) = Suc 0" by linarith
    then have "preds c ! b = [p]" using p(1) by (auto simp: length_Suc_conv)
    then have "found \<sigma> (preds c ! b) \<subseteq> {p}" by (auto simp: found_def)
    then have "anc \<sigma> x m" using p(2) by (intro meetsD(4) [OF m(2)]) blast
    with p(3) show False by simp
  qed
  show ?thesis
    unfolding joins_def m(1) option.sel strict [symmetric] using assms(3) pred two by blast
qed

end

end
