(* ===== verification/Dom_Props.thy ===== *)
theory Dom_Props
  imports Dom_Results
begin

text \<open>
  The dominator analysis of \<^verbatim>\<open>ir/dom.rs\<close> against dominance over all paths of the graph.
\<close>

section \<open>Dominance over paths\<close>

definition entry_path :: "nat list list \<Rightarrow> nat list \<Rightarrow> bool" where
  "entry_path ss ps \<longleftrightarrow> ps \<noteq> [] \<and> hd ps = 0 \<and> successively (\<lambda>u v. (u, v) \<in> edges ss) ps"

definition on_every_path :: "nat list list \<Rightarrow> nat \<Rightarrow> nat \<Rightarrow> bool" where
  "on_every_path ss a b \<longleftrightarrow> (\<forall>ps. entry_path ss ps \<and> last ps = b \<longrightarrow> a \<in> set ps)"

lemma avoids_path:
  "avoids (edges ss) 0 a b \<longleftrightarrow> (\<exists>ps. entry_path ss ps \<and> last ps = b \<and> a \<notin> set ps)"
proof
  show "\<exists>ps. entry_path ss ps \<and> last ps = b \<and> a \<notin> set ps" if "avoids (edges ss) 0 a b"
    using that
  proof (induction rule: avoids.induct)
    case avoids_start
    then show ?case by (intro exI [of _ "[0]"]) (simp add: entry_path_def)
  next
    case (avoids_step p b)
    then obtain ps where "entry_path ss ps" "last ps = p" "a \<notin> set ps" by blast
    with avoids_step.hyps show ?case
      by (intro exI [of _ "ps @ [b]"]) (auto simp: entry_path_def successively_append_iff)
  qed
  have "avoids (edges ss) 0 a (last ps)" if "entry_path ss ps" "a \<notin> set ps" for ps
    using that
  proof (induction ps rule: rev_induct)
    case (snoc b ps)
    show ?case
    proof (cases "ps = []")
      case True
      then show ?thesis using snoc.prems by (auto simp: entry_path_def intro: avoids_start)
    next
      case False
      then have "entry_path ss ps" "(last ps, b) \<in> edges ss"
        using snoc.prems(1) by (auto simp: entry_path_def successively_append_iff)
      with snoc show ?thesis by (auto intro: avoids_step)
    qed
  qed (simp add: entry_path_def)
  then show "avoids (edges ss) 0 a b" if "\<exists>ps. entry_path ss ps \<and> last ps = b \<and> a \<notin> set ps"
    using that by blast
qed

section \<open>The graphs of the builder\<close>

lemma built_entry: "blocks f \<noteq> [] \<Longrightarrow> entry_block (build f) = 0"
  using compute_rpo_correct(3,4) [OF wf_build_succs, of 0 f]
  by (cases "rpo (build f)") (simp_all add: entry_block_def build_fields)

lemma built_edges: "built.E f = edges (succs (build f))"
  using edges_range [OF wf_build_succs, of _ _ f]
  by (auto simp: built.E_def build_fields set_build_preds)

lemma built_dominated:
  "blocks f \<noteq> [] \<Longrightarrow> built.dominated f a b \<longleftrightarrow> on_every_path (succs (build f)) a b"
  unfolding built.dominated_def on_every_path_def built_edges built_entry avoids_path by blast

lemma built_R:
  "b < length (blocks f) \<Longrightarrow> b \<in> set (rpo (build f)) \<longleftrightarrow> reachable (build f) ! b"
  using built.reachable_iff by simp

lemma compute_solved:
  assumes "blocks f \<noteq> []"
  obtains \<sigma> fr where "compute f (build f) = Some \<lparr>idom = \<sigma>, tree = dom_tree \<sigma>, frontier = fr\<rparr>"
    "built.solved f \<sigma>" "compute_frontier (build f) \<sigma> = Some fr" "length fr = length (blocks f)"
    "\<And>x. x < length (blocks f) \<Longrightarrow> set (fr ! x) = {b. b < length (blocks f) \<and> built.joins f \<sigma> x b}"
proof -
  have n: "0 < length (blocks f)" using assms by simp
  obtain \<sigma> where s: "compute_idoms (length (blocks f)) (build f) = Some \<sigma>" "built.solved f \<sigma>"
    using built.idoms_solved [OF n] .
  obtain fr where fr: "compute_frontier (build f) \<sigma> = Some fr" "length fr = length (blocks f)"
    "\<And>x. x < length (blocks f) \<Longrightarrow> set (fr ! x) = {b. b < length (blocks f) \<and> built.joins f \<sigma> x b}"
    using built.frontier_correct [OF s(2)] by blast
  have "compute f (build f) = Some \<lparr>idom = \<sigma>, tree = dom_tree \<sigma>, frontier = fr\<rparr>"
    using n s(1) fr(1) by (simp add: compute_def Let_def)
  with that s(2) fr show thesis by blast
qed

section \<open>Theorems\<close>

text \<open>
  C4: the computation of the dominators has a result for every function and every block, and in it
  \<^verbatim>\<open>dominates(a, b)\<close> says whether \<^verbatim>\<open>a\<close> lies on every path from the entry to \<^verbatim>\<open>b\<close>; a block that no path
  reaches is only said to dominate itself.
\<close>

theorem dominators_correct:
  assumes "b < length (blocks f)"
  shows "\<exists>d. compute f (build f) = Some d \<and>
    dominates d a b =
      Some (if reaches (succs (build f)) 0 b then on_every_path (succs (build f)) a b else a = b)"
proof -
  have ne: "blocks f \<noteq> []" using assms by auto
  obtain \<sigma> fr where r: "compute f (build f) = Some \<lparr>idom = \<sigma>, tree = dom_tree \<sigma>, frontier = fr\<rparr>"
    "built.solved f \<sigma>" using compute_solved [OF ne] by metis
  have "reachable (build f) ! b \<longleftrightarrow> reaches (succs (build f)) 0 b"
    using assms mark_reachable_iff(2) [OF wf_build_succs, of 0 f b] ne by (simp add: build_fields(1,3))
  then have reach: "b \<in> set (rpo (build f)) \<longleftrightarrow> reaches (succs (build f)) 0 b"
    using built_R [OF assms] by simp
  have "anc \<sigma> a b \<longleftrightarrow> (if reaches (succs (build f)) 0 b then on_every_path (succs (build f)) a b else a = b)"
  proof (cases "b \<in> set (rpo (build f))")
    case True
    then show ?thesis using built.solved_anc [OF r(2) True] built_dominated [OF ne] reach by simp
  next
    case False
    then have "\<sigma> ! b = None" using built.solved_found [OF r(2) assms] by simp
    then show ?thesis using False reach by (auto simp: anc_stop_iff)
  qed
  with built.climbs_anc [OF r(2) assms] r(1) show ?thesis by (simp add: dominates_def)
qed

text \<open>
  The immediate dominator of a reachable block other than the entry lies on every path to it, is
  not the block, and is dominated by every other block that lies on every path to it.
\<close>

theorem immediate_dominator:
  assumes "b < length (blocks f)" and "reachable (build f) ! b" and "b \<noteq> 0"
  shows "\<exists>d i. compute f (build f) = Some d \<and> idom d ! b = Some i \<and> i \<noteq> b \<and>
    on_every_path (succs (build f)) i b \<and>
    (\<forall>a. on_every_path (succs (build f)) a b \<and> a \<noteq> b \<longrightarrow> on_every_path (succs (build f)) a i)"
proof -
  have ne: "blocks f \<noteq> []" using assms by auto
  obtain \<sigma> fr where r: "compute f (build f) = Some \<lparr>idom = \<sigma>, tree = dom_tree \<sigma>, frontier = fr\<rparr>"
    "built.solved f \<sigma>" using compute_solved [OF ne] by metis
  have b: "b \<in> set (rpo (build f))" "b \<noteq> entry_block (build f)"
    using assms built_R built_entry [OF ne] by auto
  obtain m where m: "\<sigma> ! b = Some m" "m \<noteq> b" "m \<in> set (rpo (build f))"
    using built.solved_settled [OF r(2) b] by blast
  note strict = built.solved_strict [OF r(2) b m(1)]
  have "on_every_path (succs (build f)) m b" "\<And>a. on_every_path (succs (build f)) a b \<Longrightarrow> a \<noteq> b \<Longrightarrow>
      on_every_path (succs (build f)) a m"
    using strict [of m] strict built.solved_anc [OF r(2) b(1)] built.solved_anc [OF r(2) m(3)]
      built_dominated [OF ne] by auto
  with r(1) m(1,2) show ?thesis by (intro exI [of _ m] exI) auto
qed

text \<open>
  C31: the frontier of a reachable block holds exactly the blocks, the entry aside, with a reachable
  predecessor that the block dominates and that it does not strictly dominate themselves.
\<close>

theorem dominance_frontier:
  assumes "x < length (blocks f)" and "reachable (build f) ! x"
    and "b < length (blocks f)" and "reachable (build f) ! b" and "b \<noteq> 0"
  shows "\<exists>d. compute f (build f) = Some d \<and>
    (b \<in> set (frontier d ! x) \<longleftrightarrow>
      (\<exists>p\<in>set (preds (build f) ! b). reachable (build f) ! p \<and> on_every_path (succs (build f)) x p) \<and>
      \<not> (on_every_path (succs (build f)) x b \<and> x \<noteq> b))"
proof -
  have ne: "blocks f \<noteq> []" using assms by auto
  obtain \<sigma> fr where r: "compute f (build f) = Some \<lparr>idom = \<sigma>, tree = dom_tree \<sigma>, frontier = fr\<rparr>"
    "built.solved f \<sigma>"
    "\<And>x. x < length (blocks f) \<Longrightarrow> set (fr ! x) = {b. b < length (blocks f) \<and> built.joins f \<sigma> x b}"
    using compute_solved [OF ne] by metis
  have x: "x \<in> set (rpo (build f))" and b: "b \<in> set (rpo (build f))" "b \<noteq> entry_block (build f)"
    using assms built_R built_entry [OF ne] by auto
  have pred: "p \<in> set (rpo (build f)) \<longleftrightarrow> reachable (build f) ! p" if "p \<in> set (preds (build f) ! b)" for p
    using that built_R [of p f] built.preds_range [OF assms(3) that] by simp
  have "b \<in> set (fr ! x) \<longleftrightarrow>
      (\<exists>p\<in>set (preds (build f) ! b). reachable (build f) ! p \<and> on_every_path (succs (build f)) x p) \<and>
      \<not> (on_every_path (succs (build f)) x b \<and> x \<noteq> b)"
    using r(3) [OF assms(1)] assms(3) built.joins_iff [OF r(2) x b] built_dominated [OF ne] pred by auto
  with r(1) show ?thesis by simp
qed

section \<open>The checker\<close>

lemma set_dom_tree:
  assumes "\<forall>b d. b < length \<sigma> \<and> \<sigma> ! b = Some d \<longrightarrow> d < length \<sigma>"
  shows "length (dom_tree \<sigma>) = length \<sigma>"
    and "p < length \<sigma> \<Longrightarrow> k \<in> set (dom_tree \<sigma> ! p) \<Longrightarrow> k < length \<sigma> \<and> \<sigma> ! k = Some p \<and> p \<noteq> k"
proof -
  let ?step = "\<lambda>(b :: nat, d) t. case d of Some p \<Rightarrow> if p \<noteq> b then t[p := t ! p @ [b]] else t | None \<Rightarrow> t"
  have len: "length (fold ?step es t) = length t" for es t
    by (induction es arbitrary: t) (auto split: option.split)
  then show "length (dom_tree \<sigma>) = length \<sigma>" by (simp add: dom_tree_def)
  have "k \<in> set (fold ?step es t ! p) \<Longrightarrow> p < length t \<Longrightarrow> k \<in> set (t ! p) \<or> (k, Some p) \<in> set es \<and> p \<noteq> k" for es t
  proof (induction es arbitrary: t)
    case (Cons x es)
    obtain b d where x: "x = (b, d)" by force
    have "k \<in> set (?step x t ! p) \<Longrightarrow> k \<in> set (t ! p) \<or> x = (k, Some p) \<and> p \<noteq> k"
      using Cons.prems(2) by (cases "d = Some p") (auto simp: x split: option.splits if_splits)
    moreover have "length (?step x t) = length t" by (auto simp: x split: option.split)
    ultimately show ?case using Cons.IH [of "?step x t"] Cons.prems by auto
  qed simp
  from this [of "enumerate 0 \<sigma>" "replicate (length \<sigma>) []"]
  show "p < length \<sigma> \<Longrightarrow> k \<in> set (dom_tree \<sigma> ! p) \<Longrightarrow> k < length \<sigma> \<and> \<sigma> ! k = Some p \<and> p \<noteq> k"
    by (auto simp: dom_tree_def in_set_enumerate_eq)
qed

lemma tree_errors_none:
  "\<forall>(p, k)\<in>set es. dominates d p k = Some True \<Longrightarrow> tree_errors d es = Some []"
  by (induction d es rule: tree_errors.induct) auto

text \<open>
  The checker of dominance properties finds no error in what \<^verbatim>\<open>compute\<close> returns, whatever the
  function.
\<close>

theorem checker_accepts:
  "\<exists>d. compute f (build f) = Some d \<and> verify_properties d (build f) = Some []"
proof (cases "blocks f = []")
  case True
  then show ?thesis by (simp add: compute_def verify_properties_def Let_def)
next
  case ne: False
  obtain \<sigma> fr where r: "compute f (build f) = Some \<lparr>idom = \<sigma>, tree = dom_tree \<sigma>, frontier = fr\<rparr>"
    "built.solved f \<sigma>" "compute_frontier (build f) \<sigma> = Some fr" "length fr = length (blocks f)"
    using compute_solved [OF ne] by metis
  define d where "d = \<lparr>idom = \<sigma>, tree = dom_tree \<sigma>, frontier = fr\<rparr>"
  note s = built.solvedD [OF r(2)]
  have ch: "\<forall>b p. b < length \<sigma> \<and> \<sigma> ! b = Some p \<longrightarrow> p < length \<sigma>"
    using built.chainedD(4) [OF s(2)] s(6) by metis
  have "idom_errors d (build f) b = []" if b: "b < length \<sigma>" for b
  proof (cases "reachable (build f) ! b")
    case True
    then have bR: "b \<in> set (rpo (build f))" using b s(6) built_R by simp
    show ?thesis
    proof (cases "b = entry_block (build f)")
      case True
      then show ?thesis using s(5) by (simp add: idom_errors_def d_def)
    next
      case False
      obtain m where "\<sigma> ! b = Some m" "m \<noteq> b" using built.solved_settled [OF r(2) bR False] by blast
      then show ?thesis using False by (simp add: idom_errors_def d_def)
    qed
  qed (simp add: idom_errors_def)
  moreover have "tree_errors d (concat (map (\<lambda>(p, ks). map (Pair p) ks) (enumerate 0 (dom_tree \<sigma>)))) = Some []"
  proof (rule tree_errors_none, safe)
    fix p k
    assume "(p, k) \<in> set (concat (map (\<lambda>(p, ks). map (Pair p) ks) (enumerate 0 (dom_tree \<sigma>))))"
    then have pk: "p < length \<sigma>" "k \<in> set (dom_tree \<sigma> ! p)"
      using set_dom_tree(1) [OF ch] by (auto simp: in_set_enumerate_eq)
    from set_dom_tree(2) [OF ch this] have k: "k < length \<sigma>" "\<sigma> ! k = Some p" "p \<noteq> k" by auto
    then have "anc \<sigma> p k" by (auto intro: anc_up)
    then show "dominates d p k = Some True"
      using built.climbs_anc [OF r(2)] k(1) s(6) by (simp add: dominates_def d_def)
  qed
  moreover have "concat (map (\<lambda>(b, rhs). if set (fr ! b) \<noteq> set rhs then [Frontier_Mismatch b] else [])
      (enumerate 0 fr)) = []"
    by (auto simp: in_set_enumerate_eq)
  ultimately have "verify_properties d (build f) = Some []"
    using r(3) by (simp add: verify_properties_def Let_def d_def)
  with r(1) show ?thesis unfolding d_def by blast
qed

section \<open>Examples\<close>

text \<open>The loop of \<^verbatim>\<open>Cfg_Search\<close>, and a function whose entry is a loop.\<close>

definition entry_loop :: func where
  "entry_loop = sample_func (map sample_block [TCondBr 0 0 1, TRet None])"

lemma build_entry_loop:
  "build entry_loop = \<lparr>succs = [[0, 1], []], preds = [[0], [0]], reachable = [True, True], rpo = [0, 1]\<rparr>"
  by code_simp

lemma index_examples: "rpo_index 4 [0, 1, 3, 2] = [0, 1, 3, 2]" "rpo_index 2 [0, 1] = [0, 1]"
proof -
  have "fold (\<lambda>(i, b) ix. ix[b := i]) (enumerate 0 [0, 1, 3, 2]) (replicate 4 x) = [0, 1, 3, 2]"
    "fold (\<lambda>(i, b) ix. ix[b := i]) (enumerate 0 [0, 1]) (replicate 2 x) = [0, 1]" for x
    by (simp_all add: numeral_eq_Suc)
  then show "rpo_index 4 [0, 1, 3, 2] = [0, 1, 3, 2]" "rpo_index 2 [0, 1] = [0, 1]"
    unfolding rpo_index_def by this+
qed

lemma replicate_examples: "replicate 4 x = [x, x, x, x]" "replicate 2 x = [x, x]"
  by (simp_all add: numeral_eq_Suc)

lemmas dom_examples = index_examples [unfolded One_nat_def] replicate_examples dom_steps

definition loop_doms :: dom_info where
  "loop_doms = \<lparr>idom = [Some 0, Some 0, Some 1, Some 1], tree = [[1], [2, 3], [], []],
     frontier = [[], [1], [1], []]\<rparr>"

lemma compute_loop: "compute loop_func (build loop_func) = Some loop_doms"
proof -
  have n: "length (blocks loop_func) = 4" by (simp add: loop_func_def sample_func_def)
  have idoms: "compute_idoms 4 (build loop_func) = Some [Some 0, Some 0, Some 1, Some 1]"
    unfolding build_loop by (simp add: compute_idoms_def entry_block_def dom_examples)
  have "[0..<length [Some 0, Some 0, Some 1, Some (1 :: nat)]] = [0, 1, 2, 3]" by code_simp
  then have "compute_frontier (build loop_func) [Some 0, Some 0, Some 1, Some 1] = Some [[], [1], [1], []]"
    unfolding compute_frontier_def build_loop by (simp add: dom_steps dedup_def del: upt_Suc)
  moreover have "dom_tree [Some 0, Some 0, Some 1, Some 1] = [[1], [2, 3], [], []]" by code_simp
  ultimately show ?thesis using n idoms by (simp add: compute_def loop_doms_def)
qed

lemma dominators_correct_witness:
  "dominates loop_doms 1 3 = Some (on_every_path (succs (build loop_func)) 1 3)"
proof -
  have "length (blocks loop_func) = 4" by (simp add: loop_func_def sample_func_def)
  moreover have "reaches (succs (build loop_func)) 0 3"
    unfolding build_loop
    using reaches_step [OF reaches_step [OF reaches_refl], of 0 1 "[[1], [2, 3], [1], []]" 3] by (simp add: edges_def)
  ultimately show ?thesis using dominators_correct [of 3 loop_func 1] compute_loop by simp
qed

lemma immediate_dominator_witness:
  "idom loop_doms ! 3 = Some 1 \<and> on_every_path (succs (build loop_func)) 1 3"
  using immediate_dominator [of 3 loop_func] compute_loop
  by (simp add: build_loop loop_doms_def) (simp add: loop_func_def sample_func_def)

lemma dominance_frontier_witness:
  "\<not> (on_every_path (succs (build loop_func)) 2 1 \<and> 2 \<noteq> (1 :: nat))"
  using dominance_frontier [of 2 loop_func 1] compute_loop
  by (simp add: build_loop loop_doms_def) (simp add: loop_func_def sample_func_def)

text \<open>
  The entry of \<^verbatim>\<open>entry_loop\<close> is its own predecessor, so it belongs to its own frontier; the computed
  frontier is empty, and the checker, which repeats the computation, does not object.
\<close>

lemma compute_entry_loop:
  "compute entry_loop (build entry_loop) =
     Some \<lparr>idom = [Some 0, Some 0], tree = [[1], []], frontier = [[], []]\<rparr>"
proof -
  have n: "length (blocks entry_loop) = 2" by (simp add: entry_loop_def sample_func_def)
  have idoms: "compute_idoms 2 (build entry_loop) = Some [Some 0, Some 0]"
    unfolding build_entry_loop by (simp add: compute_idoms_def entry_block_def dom_examples)
  have "[0..<length [Some 0, Some (0 :: nat)]] = [0, 1]" by code_simp
  then have "compute_frontier (build entry_loop) [Some 0, Some 0] = Some [[], []]"
    unfolding compute_frontier_def build_entry_loop by (simp add: dom_steps dedup_def del: upt_Suc)
  moreover have "dom_tree [Some 0, Some (0 :: nat)] = [[1], []]" by code_simp
  ultimately show ?thesis using n idoms by (simp add: compute_def)
qed


end
