(* ===== verification/Opt.thy ===== *)
theory Opt
  imports Ir Values
begin

text \<open>
  Optimisation of the intermediate representation, \<^verbatim>\<open>ir/opt.rs\<close>: constant folding within a block and
  elimination of dead instructions. A pass returns the new function and whether it changed anything;
  there is no result where folding makes the compiler panic.
\<close>

section \<open>Constant folding\<close>

text \<open>
  The division of two 64-bit constants panics on the one overflow, and the remainder with it. A zero
  divisor is folded to the dividend, a zero modulus to zero.
\<close>

definition overflows :: "i64 \<Rightarrow> i64 \<Rightarrow> bool" where
  "overflows a b \<longleftrightarrow> a = 2 ^ 63 \<and> b = - 1"

definition shift_by :: "i64 \<Rightarrow> nat" where
  "shift_by b = unat ((ucast b :: u32) AND 63)"

definition eval_bin :: "bin_op \<Rightarrow> i64 \<Rightarrow> i64 \<Rightarrow> i64 option" where
  "eval_bin bop a b =
     (case bop of
        Bin_Add \<Rightarrow> Some (a + b)
      | Bin_Sub \<Rightarrow> Some (a - b)
      | Bin_Mul \<Rightarrow> Some (a * b)
      | Bin_Div \<Rightarrow> if b = 0 then Some a else if overflows a b then None else Some (wrapping_div a b)
      | Bin_Mod \<Rightarrow> if b = 0 then Some 0 else if overflows a b then None else Some (wrapping_rem a b)
      | Bin_Shl \<Rightarrow> Some (push_bit (shift_by b) a)
      | Bin_Shr \<Rightarrow> Some (signed_drop_bit (shift_by b) a)
      | Bin_And \<Rightarrow> Some (a AND b)
      | Bin_Or \<Rightarrow> Some (a OR b)
      | Bin_Xor \<Rightarrow> Some (a XOR b))"

definition eval_cmp :: "cmp_pred \<Rightarrow> i64 \<Rightarrow> i64 \<Rightarrow> i64" where
  "eval_cmp pred a b =
     (if case pred of
           Cmp_Eq \<Rightarrow> a = b | Cmp_Ne \<Rightarrow> a \<noteq> b
         | Cmp_Lt \<Rightarrow> sint a < sint b | Cmp_Le \<Rightarrow> sint a \<le> sint b
         | Cmp_Gt \<Rightarrow> sint a > sint b | Cmp_Ge \<Rightarrow> sint a \<ge> sint b
      then 1 else 0)"

type_synonym const_map = "ir_value \<rightharpoonup> i64"

text \<open>The constant that an instruction folds to, if it does; the outer option is the panic.\<close>

definition fold_phi :: "const_map \<Rightarrow> (block_id \<times> ir_value) list \<Rightarrow> i64 option" where
  "fold_phi cs ps =
     (case ps of
        [] \<Rightarrow> None
      | (_, first) # rest \<Rightarrow>
          (case cs first of
             None \<Rightarrow> None
           | Some c0 \<Rightarrow> if \<forall>(_, v) \<in> set rest. cs v = Some c0 then Some c0 else None))"

definition folded :: "const_map \<Rightarrow> inst_kind \<Rightarrow> i64 option option" where
  "folded cs k =
     (case k of
        ICopy v \<Rightarrow> Some (cs v)
      | IBinary bop a b \<Rightarrow>
          (case (cs a, cs b) of
             (Some va, Some vb) \<Rightarrow> map_option Some (eval_bin bop va vb)
           | _ \<Rightarrow> Some None)
      | ICmp pred a b \<Rightarrow>
          (case (cs a, cs b) of
             (Some va, Some vb) \<Rightarrow> Some (Some (eval_cmp pred va vb))
           | _ \<Rightarrow> Some None)
      | IPhi ps \<Rightarrow> Some (fold_phi cs ps)
      | _ \<Rightarrow> Some None)"

fun fold_insts :: "const_map \<Rightarrow> inst list \<Rightarrow> (inst list \<times> bool) option" where
  "fold_insts cs [] = Some ([], False)"
| "fold_insts cs (i # is) =
     (case kind i of
        IConstI64 v \<Rightarrow> map_option (\<lambda>(js, ch). (i # js, ch)) (fold_insts (cs(result i \<mapsto> v)) is)
      | _ \<Rightarrow>
          (case folded cs (kind i) of
             None \<Rightarrow> None
           | Some None \<Rightarrow> map_option (\<lambda>(js, ch). (i # js, ch)) (fold_insts cs is)
           | Some (Some c) \<Rightarrow>
               map_option (\<lambda>(js, ch). (i\<lparr>kind := IConstI64 c\<rparr> # js, True))
                 (fold_insts (cs(result i \<mapsto> c)) is)))"

fun fold_blocks :: "block_data list \<Rightarrow> (block_data list \<times> bool) option" where
  "fold_blocks [] = Some ([], False)"
| "fold_blocks (b # bs) =
     Option.bind (fold_insts Map.empty (insts b)) (\<lambda>(is, ch).
       map_option (\<lambda>(bs', ch'). (b\<lparr>insts := is\<rparr> # bs', ch \<or> ch')) (fold_blocks bs))"

definition const_fold :: "func \<Rightarrow> (func \<times> bool) option" where
  "const_fold f = map_option (\<lambda>(bs, ch). (f\<lparr>blocks := bs\<rparr>, ch)) (fold_blocks (blocks f))"

section \<open>Uses\<close>

fun side_effect_free :: "inst_kind \<Rightarrow> bool" where
  "side_effect_free (IConstI64 _) = True"
| "side_effect_free (IConstF64 _) = True"
| "side_effect_free (IConstStr _) = True"
| "side_effect_free (ICopy _) = True"
| "side_effect_free (IBinary _ _ _) = True"
| "side_effect_free (ICmp _ _ _) = True"
| "side_effect_free (IStrEq _ _) = True"
| "side_effect_free (IStrConcat _ _) = True"
| "side_effect_free (ILoad _) = True"
| "side_effect_free IAlloca = True"
| "side_effect_free (IPhi _) = True"
| "side_effect_free (IRcLoad _) = True"
| "side_effect_free (IRcGetCount _) = True"
| "side_effect_free (IGetTypeName _) = True"
| "side_effect_free (IStructFieldGet _ _ _ _) = True"
| "side_effect_free (IEnumGetTag _ _) = True"
| "side_effect_free (IEnumGetPayload _ _ _) = True"
| "side_effect_free (IAsyncFrameGetState _) = True"
| "side_effect_free (IAsyncFrameLoad _ _ _) = True"
| "side_effect_free (IAsyncCheckCancelled _) = True"
| "side_effect_free _ = False"

text \<open>The operands that the first loop of \<^verbatim>\<open>dce\<close> counts, in the order it counts them.\<close>

fun operands :: "inst_kind \<Rightarrow> ir_value list" where
  "operands (ICopy v) = [v]"
| "operands (IBinary _ a b) = [a, b]"
| "operands (ICmp _ a b) = [a, b]"
| "operands (IStrEq a b) = [a, b]"
| "operands (IStrConcat a b) = [a, b]"
| "operands (ILoad p) = [p]"
| "operands (IStore p v) = [p, v]"
| "operands (ICall _ args _) = args"
| "operands (IExternCall _ args _ _) = args"
| "operands (IMakeClosure _ captures) = captures"
| "operands (IClosureCall closure args _) = closure # args"
| "operands (IPhi ps) = map snd ps"
| "operands (IDrop v _) = [v]"
| "operands (ICondDrop v flag _) = [v, flag]"
| "operands (IFieldDrop v _ _) = [v]"
| "operands (IRcAlloc v) = [v]"
| "operands (IRcInc h) = [h]"
| "operands (IRcDec h _) = [h]"
| "operands (IRcLoad h) = [h]"
| "operands (IRcStore h v) = [h, v]"
| "operands (IRcGetCount h) = [h]"
| "operands (IRegionExit _ deinits) = map fst deinits"
| "operands (IGetTypeName v) = [v]"
| "operands (IAsyncFrameFree p) = [p]"
| "operands (IAsyncFrameGetState p) = [p]"
| "operands (IAsyncFrameSetState p _) = [p]"
| "operands (IAsyncFrameLoad p _ _) = [p]"
| "operands (IAsyncFrameStore p _ v) = [p, v]"
| "operands (IAsyncCheckCancelled t) = [t]"
| "operands (IAsyncYield t) = [t]"
| "operands (IAwaitPoint t _) = [t]"
| "operands (IProviderNew _ values) = map snd values"
| "operands (IProviderFieldGet obj _ _) = [obj]"
| "operands (IProviderFieldSet obj _ _ v) = [obj, v]"
| "operands (IStructFieldGet p _ _ _) = [p]"
| "operands (IStructFieldSet p _ _ _ v) = [p, v]"
| "operands (IEnumGetTag p _) = [p]"
| "operands (IEnumSetTag p _ _) = [p]"
| "operands (IEnumGetPayload p _ _) = [p]"
| "operands (IEnumSetPayload p _ _ v) = [p, v]"
| "operands _ = []"

fun term_operands :: "terminator \<Rightarrow> ir_value list" where
  "term_operands (TRet (Some v)) = [v]"
| "term_operands (TCondBr c _ _) = [c]"
| "term_operands (TSwitch scrut _ _) = [scrut]"
| "term_operands (TThrow (Some v)) = [v]"
| "term_operands (TPanic (Some v)) = [v]"
| "term_operands (TInvoke _ args _ _ _ _) = args"
| "term_operands (TPollReturn _ (Some v)) = [v]"
| "term_operands _ = []"

text \<open>The counts after an instruction is removed; only the kinds that are removed release operands.\<close>

fun released :: "inst_kind \<Rightarrow> ir_value list" where
  "released (ICopy v) = [v]"
| "released (IBinary _ a b) = [a, b]"
| "released (ICmp _ a b) = [a, b]"
| "released (IStrEq a b) = [a, b]"
| "released (IStrConcat a b) = [a, b]"
| "released (ILoad p) = [p]"
| "released (IPhi ps) = map snd ps"
| "released (IRcLoad h) = [h]"
| "released (IRcGetCount h) = [h]"
| "released (IGetTypeName v) = [v]"
| "released (IAsyncFrameGetState p) = [p]"
| "released (IAsyncFrameLoad p _ _) = [p]"
| "released (IAsyncCheckCancelled t) = [t]"
| "released (IStructFieldGet p _ _ _) = [p]"
| "released (IEnumGetTag p _) = [p]"
| "released (IEnumGetPayload p _ _) = [p]"
| "released _ = []"

type_synonym use_counts = "ir_value \<Rightarrow> nat"

definition count_uses :: "ir_value list \<Rightarrow> use_counts \<Rightarrow> use_counts" where
  "count_uses vs used = fold (\<lambda>v u. u(v := u v + 1)) vs used"

definition release_uses :: "ir_value list \<Rightarrow> use_counts \<Rightarrow> use_counts" where
  "release_uses vs used = fold (\<lambda>v u. u(v := u v - 1)) vs used"

definition count_block :: "block_data \<Rightarrow> use_counts \<Rightarrow> use_counts" where
  "count_block b used =
     count_uses (term_operands (block_term b)) (fold (\<lambda>i. count_uses (operands (kind i))) (insts b) used)"

section \<open>Dead code\<close>

definition is_dead :: "use_counts \<Rightarrow> inst \<Rightarrow> bool" where
  "is_dead used i \<longleftrightarrow> used (result i) = 0 \<and> side_effect_free (kind i)"

text \<open>The instructions of a block from the last to the first.\<close>

fun dce_insts :: "use_counts \<Rightarrow> inst list \<Rightarrow> inst list \<times> use_counts \<times> bool" where
  "dce_insts used [] = ([], used, False)"
| "dce_insts used (i # is) =
     (let (js, used', ch) = dce_insts used is
      in if is_dead used' i then (js, release_uses (released (kind i)) used', True)
         else (i # js, used', ch))"

fun dce_blocks :: "use_counts \<Rightarrow> block_data list \<Rightarrow> block_data list \<times> bool" where
  "dce_blocks used [] = ([], False)"
| "dce_blocks used (b # bs) =
     (let (is, used', ch) = dce_insts used (insts b); (bs', ch') = dce_blocks used' bs
      in (b\<lparr>insts := is\<rparr> # bs', ch \<or> ch'))"

definition dce :: "func \<Rightarrow> func \<times> bool" where
  "dce f =
     (let (bs, ch) = dce_blocks (fold count_block (blocks f) (\<lambda>_. 0)) (blocks f)
      in (f\<lparr>blocks := bs\<rparr>, ch))"

section \<open>Both\<close>

definition opt_round :: "func \<Rightarrow> (func \<times> bool) option" where
  "opt_round f =
     Option.bind (const_fold f) (\<lambda>(f1, ch1). let (f2, ch2) = dce f1 in Some (f2, ch1 \<or> ch2))"

definition run_simple_opts :: "func \<Rightarrow> func option" where
  "run_simple_opts f =
     Option.bind (opt_round f) (\<lambda>(f1, ch). if ch then map_option fst (opt_round f1) else Some f1)"

end
