(* ===== verification/Ir_Run.thy ===== *)
theory Ir_Run
  imports Opt
begin

text \<open>
  The meaning of functions in SSA form, as a specification for the passes over them. What an
  instruction computes from its operands and does to the world is a parameter, as is what a
  terminator does; the order of instructions, the choice of a phi's operand by the edge taken and the
  binding of results are fixed here. Phis read the values from before their block.
\<close>

type_synonym 'v ssa_env = "ir_value \<rightharpoonup> 'v"

type_synonym ('v, 'w) inst_sem = "inst_kind \<Rightarrow> 'v list \<Rightarrow> 'w \<Rightarrow> ('v \<times> 'w) option"

text \<open>A terminator goes on at a block, with a result for an invocation, or leaves the function.\<close>

datatype ('v, 'w) term_step = Jump_To block_id "'v option" 'w | Leave "'v option" 'w

type_synonym ('v, 'w) term_sem = "terminator \<Rightarrow> 'v list \<Rightarrow> 'w \<Rightarrow> ('v, 'w) term_step option"

definition phi_value :: "block_id option \<Rightarrow> (block_id \<times> ir_value) list \<Rightarrow> 'v ssa_env \<Rightarrow> 'v option" where
  "phi_value pre ps env = Option.bind pre (\<lambda>b. Option.bind (map_of ps b) env)"

definition run_inst ::
  "('v, 'w) inst_sem \<Rightarrow> block_id option \<Rightarrow> 'v ssa_env \<Rightarrow> inst \<Rightarrow> 'v ssa_env \<times> 'w \<Rightarrow> ('v ssa_env \<times> 'w) option"
where
  "run_inst sem pre env0 i s =
     (case s of (env, w) \<Rightarrow>
        case kind i of
          IPhi ps \<Rightarrow> map_option (\<lambda>x. (env(result i \<mapsto> x), w)) (phi_value pre ps env0)
        | k \<Rightarrow>
            Option.bind (those (map env (operands k))) (\<lambda>vs.
              map_option (\<lambda>(x, w'). (env(result i \<mapsto> x), w')) (sem k vs w)))"

fun run_insts ::
  "('v, 'w) inst_sem \<Rightarrow> block_id option \<Rightarrow> 'v ssa_env \<Rightarrow> inst list \<Rightarrow> 'v ssa_env \<times> 'w \<Rightarrow>
   ('v ssa_env \<times> 'w) option"
where
  "run_insts sem pre env0 [] s = Some s"
| "run_insts sem pre env0 (i # is) s = Option.bind (run_inst sem pre env0 i s) (run_insts sem pre env0 is)"

definition bind_result :: "terminator \<Rightarrow> 'v option \<Rightarrow> 'v ssa_env \<Rightarrow> 'v ssa_env" where
  "bind_result t v env =
     (case (t, v) of
        (TInvoke _ _ _ (Some r) _ _, Some x) \<Rightarrow> env(r \<mapsto> x)
      | _ \<Rightarrow> env)"

text \<open>The first argument bounds the number of blocks.\<close>

fun run_blocks ::
  "nat \<Rightarrow> ('v, 'w) inst_sem \<Rightarrow> ('v, 'w) term_sem \<Rightarrow> func \<Rightarrow> block_id option \<Rightarrow> block_id \<Rightarrow> 'v ssa_env \<Rightarrow> 'w \<Rightarrow>
   ('v option \<times> 'w) option"
where
  "run_blocks 0 sem tsem f pre bb env w = None"
| "run_blocks (Suc n) sem tsem f pre bb env w =
     (if unat bb < length (blocks f) then
        let b = blocks f ! unat bb
        in Option.bind (run_insts sem pre env (insts b) (env, w)) (\<lambda>(env1, w1).
             Option.bind (those (map env1 (term_operands (block_term b)))) (\<lambda>vs.
               case tsem (block_term b) vs w1 of
                 None \<Rightarrow> None
               | Some (Leave v w2) \<Rightarrow> Some (v, w2)
               | Some (Jump_To bb' v w2) \<Rightarrow>
                   run_blocks n sem tsem f (Some bb) bb' (bind_result (block_term b) v env1) w2))
      else None)"

section \<open>Requirements\<close>

text \<open>Instructions without side effects leave the world alone.\<close>

definition quiet :: "('v, 'w) inst_sem \<Rightarrow> bool" where
  "quiet sem \<longleftrightarrow> (\<forall>k vs w x w'. side_effect_free k \<and> sem k vs w = Some (x, w') \<longrightarrow> w' = w)"

text \<open>
  Constants and copies compute what they say, and where arithmetic on integers has a result it is
  the one that folding computes.
\<close>

definition integer_sem :: "('v, 'w) inst_sem \<Rightarrow> (i64 \<Rightarrow> 'v) \<Rightarrow> bool" where
  "integer_sem sem mk \<longleftrightarrow>
     (\<forall>c w. sem (IConstI64 c) [] w = Some (mk c, w)) \<and>
     (\<forall>a x w. sem (ICopy a) [x] w = Some (x, w)) \<and>
     (\<forall>bop a b va vb x w w' c. sem (IBinary bop a b) [mk va, mk vb] w = Some (x, w') \<and>
        eval_bin bop va vb = Some c \<longrightarrow> x = mk c \<and> w' = w) \<and>
     (\<forall>pred a b va vb x w w'. sem (ICmp pred a b) [mk va, mk vb] w = Some (x, w') \<longrightarrow>
        x = mk (eval_cmp pred va vb) \<and> w' = w)"

text \<open>Phis stand at the head of their block, and a block has each result once.\<close>

definition is_phi :: "inst \<Rightarrow> bool" where
  "is_phi i = (case kind i of IPhi _ \<Rightarrow> True | _ \<Rightarrow> False)"

definition phis_first :: "inst list \<Rightarrow> bool" where
  "phis_first is \<longleftrightarrow> (\<forall>i\<in>set (dropWhile is_phi is). \<not> is_phi i)"

definition ssa_blocks :: "func \<Rightarrow> bool" where
  "ssa_blocks f \<longleftrightarrow> (\<forall>b\<in>set (blocks f). phis_first (insts b) \<and> distinct (map result (insts b)))"

end
