(* ===== verification/Opt_Correct.thy ===== *)
theory Opt_Correct
  imports Ir_Run
begin

text \<open>
  The passes of \<^verbatim>\<open>ir/opt.rs\<close> keep the outcome of a function that has one: folding replaces an
  instruction by the constant it computes, and elimination removes instructions whose results nothing
  that stays reads. What both may remove is a failure.
\<close>

lemma is_phi_iff: "is_phi i \<longleftrightarrow> (\<exists>ps. kind i = IPhi ps)"
  by (auto simp: is_phi_def split: inst_kind.splits)

lemma run_inst_phi:
  "kind i = IPhi ps \<Longrightarrow>
   run_inst sem pre env0 i (env, w) = map_option (\<lambda>x. (env(result i \<mapsto> x), w)) (phi_value pre ps env0)"
  by (simp add: run_inst_def)

lemma run_inst_other:
  "\<not> is_phi i \<Longrightarrow>
   run_inst sem pre env0 i (env, w) =
     Option.bind (those (map env (operands (kind i)))) (\<lambda>vs.
       map_option (\<lambda>(x, w'). (env(result i \<mapsto> x), w')) (sem (kind i) vs w))"
  by (auto simp: run_inst_def is_phi_def split: inst_kind.splits)

lemma run_insts_append:
  "run_insts sem pre env0 (is @ js) s = Option.bind (run_insts sem pre env0 is s) (run_insts sem pre env0 js)"
  by (induction "is" arbitrary: s) (auto simp: bind_assoc split: Option.bind_splits)

section \<open>Elimination\<close>

text \<open>The number of uses of a value by a list of instructions.\<close>

definition uses_in :: "inst list \<Rightarrow> ir_value \<Rightarrow> nat" where
  "uses_in is v = sum_list (map (\<lambda>i. count_list (operands (kind i)) v) is)"

lemma uses_in_simps [simp]:
  "uses_in [] v = 0" "uses_in (i # is) v = count_list (operands (kind i)) v + uses_in is v"
  by (simp_all add: uses_in_def)

lemma count_uses_apply [simp]: "count_uses vs used v = used v + count_list vs v"
  by (induction vs arbitrary: used) (simp_all add: count_uses_def)

lemma release_uses_apply [simp]: "release_uses vs used v = used v - count_list vs v"
  by (induction vs arbitrary: used) (simp_all add: release_uses_def)

lemma released_operands: "side_effect_free k \<Longrightarrow> released k = operands k"
  by (cases k) auto

text \<open>The second list is the first without some instructions of no effect with results in \<^verbatim>\<open>D\<close>.\<close>

inductive prunes :: "ir_value set \<Rightarrow> inst list \<Rightarrow> inst list \<Rightarrow> bool" for D where
  prunes_nil: "prunes D [] []"
| prunes_keep: "prunes D is js \<Longrightarrow> prunes D (i # is) (i # js)"
| prunes_drop: "prunes D is js \<Longrightarrow> side_effect_free (kind i) \<Longrightarrow> result i \<in> D \<Longrightarrow> prunes D (i # is) js"

lemma prunes_mono: "prunes D is js \<Longrightarrow> D \<subseteq> D' \<Longrightarrow> prunes D' is js"
  by (induction rule: prunes.induct) (auto intro: prunes.intros)

lemma dce_insts_correct:
  assumes "dce_insts used is = (js, used', ch)" and "\<And>v. uses_in is v \<le> used v"
  shows "used' v + uses_in is v = used v + uses_in js v \<and> used' v \<le> used v \<and> uses_in js v \<le> used' v"
    and "prunes {v. used' v = 0} is js"
proof -
  have "(\<forall>v. used' v + uses_in is v = used v + uses_in js v \<and> used' v \<le> used v \<and> uses_in js v \<le> used' v) \<and>
      prunes {v. used' v = 0} is js"
    using assms
  proof (induction "is" arbitrary: used js used' ch)
    case Nil
    then show ?case by (auto intro: prunes_nil)
  next
    case (Cons i "is")
    obtain js1 used1 ch1 where d: "dce_insts used is = (js1, used1, ch1)" by (metis prod_cases3)
    have le: "uses_in is v \<le> used v" and le2: "count_list (operands (kind i)) v + uses_in is v \<le> used v" for v
      using Cons.prems(2) [of v] by simp_all
    note all = Cons.IH [OF d le]
    have IH: "used1 v + uses_in is v = used v + uses_in js1 v" "used1 v \<le> used v" "uses_in js1 v \<le> used1 v" for v
      using all by blast+
    have prunes: "prunes {v. used1 v = 0} is js1" using all by blast
    have enough: "count_list (operands (kind i)) v + uses_in js1 v \<le> used1 v" for v
      using IH(1) [of v] le2 [of v] by linarith
    show ?case
    proof (cases "is_dead used1 i")
      case True
      then have free: "side_effect_free (kind i)" "used1 (result i) = 0" by (simp_all add: is_dead_def)
      have eqs: "js = js1" "used' = release_uses (operands (kind i)) used1"
        using Cons.prems(1) d True free(1) by (simp_all add: released_operands)
      have "prunes {v. used' v = 0} is js"
        using eqs by (intro prunes_mono [OF prunes [folded eqs(1)]]) auto
      then have "prunes {v. used' v = 0} (i # is) js"
        by (rule prunes_drop) (use free eqs in auto)
      moreover have "used' v + uses_in (i # is) v = used v + uses_in js v \<and> used' v \<le> used v \<and> uses_in js v \<le> used' v" for v
        using IH [of v] enough [of v] unfolding eqs release_uses_apply uses_in_simps by linarith
      ultimately show ?thesis by blast
    next
      case False
      then have eqs: "js = i # js1" "used' = used1" using Cons.prems(1) d by simp_all
      have "used' v + uses_in (i # is) v = used v + uses_in js v \<and> used' v \<le> used v \<and> uses_in js v \<le> used' v" for v
        using IH [of v] enough [of v] eqs by simp
      then show ?thesis using eqs prunes by (auto intro: prunes_keep)
    qed
  qed
  then show "used' v + uses_in is v = used v + uses_in js v \<and> used' v \<le> used v \<and> uses_in js v \<le> used' v"
    and "prunes {v. used' v = 0} is js" by blast+
qed

definition block_uses :: "block_data \<Rightarrow> ir_value \<Rightarrow> nat" where
  "block_uses b v = uses_in (insts b) v + count_list (term_operands (block_term b)) v"

definition all_uses :: "block_data list \<Rightarrow> ir_value \<Rightarrow> nat" where
  "all_uses bs v = sum_list (map (\<lambda>b. block_uses b v) bs)"

lemma all_uses_simps [simp]: "all_uses [] v = 0" "all_uses (b # bs) v = block_uses b v + all_uses bs v"
  by (simp_all add: all_uses_def)

lemma count_block_apply: "count_block b used v = used v + block_uses b v"
proof -
  have "fold (\<lambda>i. count_uses (operands (kind i))) is used v = used v + uses_in is v" for "is"
    by (induction "is" arbitrary: used) simp_all
  then show ?thesis by (simp add: count_block_def block_uses_def)
qed

lemma count_blocks_apply: "fold count_block bs used v = used v + all_uses bs v"
  by (induction bs arbitrary: used) (simp_all add: count_block_apply)

text \<open>A block without some of its instructions.\<close>

definition pruned_block :: "ir_value set \<Rightarrow> block_data \<Rightarrow> block_data \<Rightarrow> bool" where
  "pruned_block D b b' \<longleftrightarrow> prunes D (insts b) (insts b') \<and> block_term b' = block_term b"

lemma dce_blocks_correct:
  assumes "dce_blocks used bs = (bs', ch)" and "\<And>v. all_uses bs v + rest v \<le> used v"
  shows "\<exists>used'. (\<forall>v. used' v + all_uses bs v = used v + all_uses bs' v \<and> used' v \<le> used v) \<and>
    list_all2 (pruned_block {v. used' v = 0}) bs bs'"
  using assms
proof (induction bs arbitrary: used bs' ch rest)
  case Nil
  then show ?case by (auto intro: exI [of _ used])
next
  case (Cons b bs)
  obtain "is" used1 ch1 where d1: "dce_insts used (insts b) = (is, used1, ch1)" by (metis prod_cases3)
  obtain bs2 ch2 where d2: "dce_blocks used1 bs = (bs2, ch2)" by (metis surj_pair)
  have bs': "bs' = b\<lparr>insts := is\<rparr> # bs2" using Cons.prems(1) d1 d2 by simp
  have le: "uses_in (insts b) v \<le> used v" for v
    using Cons.prems(2) [of v] by (simp add: block_uses_def)
  note i = dce_insts_correct [OF d1 le]
  have "all_uses bs v + (rest v + uses_in is v + count_list (term_operands (block_term b)) v) \<le> used1 v" for v
    using Cons.prems(2) [of v] i(1) [of v] by (simp add: block_uses_def)
  from Cons.IH [OF d2 this] obtain used' where u:
    "\<forall>v. used' v + all_uses bs v = used1 v + all_uses bs2 v \<and> used' v \<le> used1 v"
    "list_all2 (pruned_block {v. used' v = 0}) bs bs2" by blast
  have "used' v + all_uses (b # bs) v = used v + all_uses bs' v \<and> used' v \<le> used v" for v
    using spec [OF u(1), of v] i(1) [of v] by (simp add: bs' block_uses_def)
  moreover have "prunes {v. used' v = 0} (insts b) is"
  proof (rule prunes_mono [OF i(2)], safe)
    fix v assume "used1 v = 0"
    then show "used' v = 0" using spec [OF u(1), of v] by simp
  qed
  then have "pruned_block {v. used' v = 0} b (b\<lparr>insts := is\<rparr>)" by (simp add: pruned_block_def)
  ultimately show ?case using u(2) bs' by (intro exI [of _ used']) simp
qed

text \<open>What is removed is not read by what stays.\<close>

lemma dce_correct:
  obtains D where "list_all2 (pruned_block D) (blocks f) (blocks (fst (dce f)))"
    "\<forall>b\<in>set (blocks (fst (dce f))). (\<forall>i\<in>set (insts b). set (operands (kind i)) \<inter> D = {}) \<and>
       set (term_operands (block_term b)) \<inter> D = {}"
proof -
  obtain bs ch where d: "dce_blocks (fold count_block (blocks f) (\<lambda>_. 0)) (blocks f) = (bs, ch)"
    by (metis surj_pair)
  then have bs: "blocks (fst (dce f)) = bs" by (simp add: dce_def)
  have "all_uses (blocks f) v + 0 \<le> fold count_block (blocks f) (\<lambda>_. 0) v" for v
    by (simp add: count_blocks_apply)
  from dce_blocks_correct [OF d this] obtain used' where u:
    "\<forall>v. used' v + all_uses (blocks f) v = fold count_block (blocks f) (\<lambda>_. 0) v + all_uses bs v"
    "list_all2 (pruned_block {v. used' v = 0}) (blocks f) bs" by blast
  then have exact: "used' v = all_uses bs v" for v
    using spec [OF u(1), of v] by (simp add: count_blocks_apply)
  have counted: "count_list xs v > 0" if "v \<in> set xs" for xs v using that count_list_0_iff [of xs v] by (cases "count_list xs v") auto
  have "used' v \<noteq> 0" if b: "b \<in> set bs" and v: "(\<exists>i\<in>set (insts b). v \<in> set (operands (kind i))) \<or> v \<in> set (term_operands (block_term b))"
    for b v
  proof -
    have "0 < block_uses b v"
      using v
    proof
      assume "\<exists>i\<in>set (insts b). v \<in> set (operands (kind i))"
      then obtain i where i: "i \<in> set (insts b)" "v \<in> set (operands (kind i))" by blast
      have "count_list (operands (kind i)) v \<le> uses_in (insts b) v"
        using i(1) unfolding uses_in_def by (intro member_le_sum_list) auto
      with counted [OF i(2)] show ?thesis by (simp add: block_uses_def)
    qed (simp add: block_uses_def counted)
    also have "block_uses b v \<le> all_uses bs v"
      using b unfolding all_uses_def by (intro member_le_sum_list) auto
    finally show ?thesis using exact by simp
  qed
  then show thesis using that [of "{v. used' v = 0}"] u(2) bs by blast
qed

text \<open>The instructions of a pruned block compute the same on values that agree outside \<^verbatim>\<open>D\<close>.\<close>

definition agree :: "ir_value set \<Rightarrow> 'v ssa_env \<Rightarrow> 'v ssa_env \<Rightarrow> bool" where
  "agree D env env' \<longleftrightarrow> (\<forall>v. v \<notin> D \<longrightarrow> env v = env' v)"

lemma agree_those: "agree D env env' \<Longrightarrow> set vs \<inter> D = {} \<Longrightarrow> those (map env vs) = those (map env' vs)"
  unfolding agree_def by (intro arg_cong [where f = those] map_cong) auto

lemma agree_update: "agree D env env' \<Longrightarrow> agree D (env(r \<mapsto> x)) (env'(r \<mapsto> x))"
  by (simp add: agree_def)

lemma agree_drop: "agree D env env' \<Longrightarrow> r \<in> D \<Longrightarrow> agree D (env(r \<mapsto> x)) env'"
  by (auto simp: agree_def)

lemma agree_phi:
  assumes "agree D env env'" and "snd ` set ps \<inter> D = {}"
  shows "phi_value pre ps env = phi_value pre ps env'"
proof -
  have "env v = env' v" if "map_of ps b = Some v" for b v
  proof -
    have "v \<in> snd ` set ps" using map_of_SomeD [OF that] by force
    then show ?thesis using assms unfolding agree_def by blast
  qed
  then show ?thesis
    unfolding phi_value_def by (intro Option.bind_cong [OF refl]) auto
qed

lemma run_inst_agree:
  assumes "run_inst sem pre env0 i (env, w) = Some (env1, w1)" and "agree D env env'" and "agree D env0 env0'"
    and "set (operands (kind i)) \<inter> D = {}"
  shows "\<exists>env1'. run_inst sem pre env0' i (env', w) = Some (env1', w1) \<and> agree D env1 env1'"
proof (cases "is_phi i")
  case True
  then obtain ps where ps: "kind i = IPhi ps" by (auto simp: is_phi_iff)
  with assms(4) have "snd ` set ps \<inter> D = {}" by simp
  from agree_phi [OF assms(3) this] show ?thesis
    using assms(1,2) ps by (auto simp: run_inst_phi intro: agree_update)
next
  case False
  then show ?thesis
    using assms(1,2) agree_those [OF assms(2,4)]
    by (auto simp: run_inst_other bind_eq_Some_conv intro: agree_update)
qed

lemma run_insts_pruned:
  assumes "prunes D is js" and "quiet sem" and "\<forall>i\<in>set js. set (operands (kind i)) \<inter> D = {}"
    and "run_insts sem pre env0 is (env, w) = Some (env1, w1)" and "agree D env env'" and "agree D env0 env0'"
  shows "\<exists>env1'. run_insts sem pre env0' js (env', w) = Some (env1', w1) \<and> agree D env1 env1'"
  using assms
proof (induction arbitrary: env w env' rule: prunes.induct)
  case prunes_nil
  then show ?case by simp
next
  case (prunes_keep "is" js i)
  from prunes_keep.prems(3) obtain env2 w2 where step: "run_inst sem pre env0 i (env, w) = Some (env2, w2)"
    "run_insts sem pre env0 is (env2, w2) = Some (env1, w1)"
    by (auto simp: bind_eq_Some_conv)
  from run_inst_agree [OF step(1) prunes_keep.prems(4,5)] prunes_keep.prems(2) obtain env2'
    where "run_inst sem pre env0' i (env', w) = Some (env2', w2)" "agree D env2 env2'" by auto
  moreover from prunes_keep.IH [OF prunes_keep.prems(1) _ step(2) this(2) prunes_keep.prems(5)] prunes_keep.prems(2)
  obtain env1' where "run_insts sem pre env0' js (env2', w2) = Some (env1', w1)" "agree D env1 env1'" by auto
  ultimately show ?case by auto
next
  case (prunes_drop "is" js i)
  from prunes_drop.prems(3) obtain env2 w2 where step: "run_inst sem pre env0 i (env, w) = Some (env2, w2)"
    "run_insts sem pre env0 is (env2, w2) = Some (env1, w1)"
    by (auto simp: bind_eq_Some_conv)
  have "w2 = w \<and> (\<exists>x. env2 = env(result i \<mapsto> x))"
  proof (cases "is_phi i")
    case True
    then show ?thesis using step(1) by (auto simp: is_phi_iff run_inst_phi)
  next
    case False
    then show ?thesis
      using step(1) prunes_drop.prems(1) prunes_drop.hyps(2) unfolding quiet_def
      by (auto simp: run_inst_other bind_eq_Some_conv)
  qed
  then have "w2 = w" "agree D env2 env'" using agree_drop [OF prunes_drop.prems(4) prunes_drop.hyps(3)] by auto
  with prunes_drop.IH [OF prunes_drop.prems(1,2) step(2)] prunes_drop.prems(5) show ?case by auto
qed

lemma agree_bind_result: "agree D env env' \<Longrightarrow> agree D (bind_result t v env) (bind_result t v env')"
  by (auto simp: bind_result_def intro: agree_update split: terminator.splits option.splits)

lemma run_blocks_pruned:
  assumes "list_all2 (pruned_block D) (blocks f) (blocks g)" and "quiet sem"
    and "\<forall>b\<in>set (blocks g). (\<forall>i\<in>set (insts b). set (operands (kind i)) \<inter> D = {}) \<and>
       set (term_operands (block_term b)) \<inter> D = {}"
    and "run_blocks n sem tsem f pre bb env w = Some out" and "agree D env env'"
  shows "run_blocks n sem tsem g pre bb env' w = Some out"
  using assms(4,5)
proof (induction n arbitrary: pre bb env env' w)
  case (Suc n)
  have bb: "unat bb < length (blocks f)" using Suc.prems(1) by (auto split: if_splits)
  then have bg: "unat bb < length (blocks g)" using assms(1) by (simp add: list_all2_lengthD)
  define b where "b = blocks f ! unat bb"
  define b' where "b' = blocks g ! unat bb"
  have pruned: "prunes D (insts b) (insts b')" and tm: "block_term b' = block_term b"
    using list_all2_nthD [OF assms(1) bb] by (simp_all add: pruned_block_def b_def b'_def)
  have b'in: "b' \<in> set (blocks g)" using bg by (simp add: b'_def)
  obtain env1 w1 vs where run: "run_insts sem pre env (insts b) (env, w) = Some (env1, w1)"
    "those (map env1 (term_operands (block_term b))) = Some vs"
    "(case tsem (block_term b) vs w1 of
        None \<Rightarrow> None
      | Some (Leave v w2) \<Rightarrow> Some (v, w2)
      | Some (Jump_To bb' v w2) \<Rightarrow> run_blocks n sem tsem f (Some bb) bb' (bind_result (block_term b) v env1) w2) =
      Some out"
    using Suc.prems(1) bb by (auto simp: Let_def bind_eq_Some_conv b_def [symmetric])
  from run_insts_pruned [OF pruned assms(2) _ run(1) Suc.prems(2,2)] assms(3) b'in
  obtain env1' where r': "run_insts sem pre env' (insts b') (env', w) = Some (env1', w1)" "agree D env1 env1'" by blast
  have "those (map env1' (term_operands (block_term b'))) = Some vs"
    using agree_those [OF r'(2), of "term_operands (block_term b)"] assms(3) b'in run(2) tm by auto
  with bg r'(1) run(3) tm have "run_blocks (Suc n) sem tsem g pre bb env' w =
      (case tsem (block_term b) vs w1 of
        None \<Rightarrow> None
      | Some (Leave v w2) \<Rightarrow> Some (v, w2)
      | Some (Jump_To bb' v w2) \<Rightarrow> run_blocks n sem tsem g (Some bb) bb' (bind_result (block_term b) v env1') w2)"
    by (simp add: Let_def b'_def [symmetric] split: option.split term_step.split)
  then show ?case
    using run(3) Suc.IH [OF _ agree_bind_result [OF r'(2)]]
    by (auto split: option.splits term_step.splits)
qed simp


section \<open>Folding\<close>

text \<open>The constants of the table are the values of the state.\<close>

definition known :: "(i64 \<Rightarrow> 'v) \<Rightarrow> const_map \<Rightarrow> 'v ssa_env \<Rightarrow> bool" where
  "known mk cs env \<longleftrightarrow> (\<forall>v c. cs v = Some c \<longrightarrow> env v = Some (mk c))"

lemma knownD: "known mk cs env \<Longrightarrow> cs v = Some c \<Longrightarrow> env v = Some (mk c)"
  by (simp add: known_def)

lemma known_update: "known mk cs env \<Longrightarrow> known mk (cs(r \<mapsto> c)) (env(r \<mapsto> mk c))"
  by (simp add: known_def)

lemma known_other: "known mk cs env \<Longrightarrow> cs r = None \<Longrightarrow> known mk cs (env(r \<mapsto> x))"
  by (auto simp: known_def)

lemma integer_semD:
  assumes "integer_sem sem mk"
  shows "sem (IConstI64 c) [] w = Some (mk c, w)" and "sem (ICopy a) [x] w = Some (x, w)"
    and "sem (IBinary bop a b) [mk va, mk vb] w = Some (x, w') \<Longrightarrow> eval_bin bop va vb = Some c \<Longrightarrow> x = mk c \<and> w' = w"
    and "sem (ICmp pred a b) [mk va, mk vb] w = Some (x, w') \<Longrightarrow> x = mk (eval_cmp pred va vb) \<and> w' = w"
proof -
  note sem = assms [unfolded integer_sem_def]
  show "sem (IConstI64 c) [] w = Some (mk c, w)" using conjunct1 [OF sem] by blast
  show "sem (ICopy a) [x] w = Some (x, w)" using conjunct1 [OF conjunct2 [OF sem]] by blast
  show "sem (IBinary bop a b) [mk va, mk vb] w = Some (x, w') \<Longrightarrow> eval_bin bop va vb = Some c \<Longrightarrow> x = mk c \<and> w' = w"
    using conjunct1 [OF conjunct2 [OF conjunct2 [OF sem]]] by blast
  show "sem (ICmp pred a b) [mk va, mk vb] w = Some (x, w') \<Longrightarrow> x = mk (eval_cmp pred va vb) \<and> w' = w"
    using conjunct2 [OF conjunct2 [OF conjunct2 [OF sem]]] by blast
qed

lemma run_const:
  assumes "integer_sem sem mk" and "kind i = IConstI64 c"
  shows "run_inst sem pre env0 i (env, w) = Some (env(result i \<mapsto> mk c), w)"
proof -
  have "\<not> is_phi i" using assms(2) by (simp add: is_phi_def)
  then show ?thesis by (simp add: run_inst_other assms(2) integer_semD(1) [OF assms(1)])
qed

text \<open>An instruction that folds computes the constant it folds to.\<close>

lemma run_folded:
  assumes "integer_sem sem mk" and "known mk cs env" and "\<not> is_phi i" and "folded cs (kind i) = Some (Some c)"
    and "run_inst sem pre env0 i (env, w) = Some s"
  shows "s = (env(result i \<mapsto> mk c), w)"
proof -
  note sem = integer_semD [OF assms(1)]
  have run: "Option.bind (those (map env (operands (kind i)))) (\<lambda>vs.
      map_option (\<lambda>(x, w'). (env(result i \<mapsto> x), w')) (sem (kind i) vs w)) = Some s"
    using assms(5) by (simp add: run_inst_other [OF assms(3)])
  consider (copy) v where "kind i = ICopy v" "cs v = Some c"
    | (bin) bop a b va vb where "kind i = IBinary bop a b" "cs a = Some va" "cs b = Some vb" "eval_bin bop va vb = Some c"
    | (cmp) pred a b va vb where "kind i = ICmp pred a b" "cs a = Some va" "cs b = Some vb" "c = eval_cmp pred va vb"
    using assms(3,4) by (auto simp: folded_def is_phi_def split: inst_kind.splits option.splits)
  then show ?thesis
  proof cases
    case copy
    with run sem(2) knownD [OF assms(2)] show ?thesis by simp
  next
    case bin
    with run knownD [OF assms(2)] have "\<exists>x w'. sem (IBinary bop a b) [mk va, mk vb] w = Some (x, w') \<and>
        s = (env(result i \<mapsto> x), w')" by auto
    with sem(3) bin(4) show ?thesis by blast
  next
    case cmp
    with run knownD [OF assms(2)] have "\<exists>x w'. sem (ICmp pred a b) [mk va, mk vb] w = Some (x, w') \<and>
        s = (env(result i \<mapsto> x), w')" by auto
    with sem(4) cmp(4) show ?thesis by blast
  qed
qed

lemma fold_insts_cases:
  assumes "fold_insts cs (i # is) = Some (js, ch)"
  obtains (const) c js' ch' where "kind i = IConstI64 c" "fold_insts (cs(result i \<mapsto> c)) is = Some (js', ch')" "js = i # js'"
    | (keep) js' ch' where "folded cs (kind i) = Some None" "\<forall>c. kind i \<noteq> IConstI64 c" "fold_insts cs is = Some (js', ch')" "js = i # js'"
    | (fold) c js' ch' where "folded cs (kind i) = Some (Some c)" "fold_insts (cs(result i \<mapsto> c)) is = Some (js', ch')"
        "js = i\<lparr>kind := IConstI64 c\<rparr> # js'"
proof (cases "\<exists>c. kind i = IConstI64 c")
  case True
  then show thesis using assms const by auto
next
  case False
  then have "fold_insts cs (i # is) =
      (case folded cs (kind i) of
         None \<Rightarrow> None
       | Some None \<Rightarrow> map_option (\<lambda>(js, ch). (i # js, ch)) (fold_insts cs is)
       | Some (Some c) \<Rightarrow>
           map_option (\<lambda>(js, ch). (i\<lparr>kind := IConstI64 c\<rparr> # js, True)) (fold_insts (cs(result i \<mapsto> c)) is))"
    by (simp split: inst_kind.split)
  then show thesis using assms False keep fold by (auto split: option.splits)
qed

lemma fold_insts_run:
  assumes "integer_sem sem mk" and "fold_insts cs is = Some (js, ch)" and "known mk cs env"
    and "distinct (map result is)" and "dom cs \<inter> set (map result is) = {}" and "\<forall>i\<in>set is. \<not> is_phi i"
    and "run_insts sem pre env0 is (env, w) = Some s"
  shows "run_insts sem pre env0 js (env, w) = Some s"
  using assms(2-)
proof (induction "is" arbitrary: cs js ch env w)
  case (Cons i "is")
  from Cons.prems(6) obtain env1 w1 where step: "run_inst sem pre env0 i (env, w) = Some (env1, w1)"
    "run_insts sem pre env0 is (env1, w1) = Some s" by (auto simp: bind_eq_Some_conv)
  have i: "\<not> is_phi i" and rest: "distinct (map result is)" "\<forall>i\<in>set is. \<not> is_phi i" using Cons.prems by auto
  have dom: "dom cs \<inter> set (map result is) = {}" "dom (cs(result i \<mapsto> c)) \<inter> set (map result is) = {}" for c
    using Cons.prems(3,4) by auto
  from Cons.prems(1) show ?case
  proof (cases rule: fold_insts_cases)
    case (const c js' ch')
    have "(env1, w1) = (env(result i \<mapsto> mk c), w)"
      using run_const [OF assms(1) const(1), of pre env0 env w] step(1) by simp
    then have "env1 = env(result i \<mapsto> mk c)" "w1 = w" by simp_all
    moreover from this step(2) have "run_insts sem pre env0 js' (env(result i \<mapsto> mk c), w) = Some s"
      by (intro Cons.IH [OF const(2) known_update [OF Cons.prems(2)] rest(1) dom(2) rest(2)]) (simp add: fun_upd_def)
    ultimately show ?thesis using step(1) const(3) by simp
  next
    case (keep js' ch')
    have "\<exists>x. env1 = env(result i \<mapsto> x)" using step(1) by (auto simp: run_inst_other [OF i] bind_eq_Some_conv)
    then have "known mk cs env1" using known_other [OF Cons.prems(2)] Cons.prems(4) by force
    with Cons.IH [OF keep(3) _ rest(1) dom(1) rest(2), of env1 w1] step keep(4) show ?thesis by auto
  next
    case (fold c js' ch')
    let ?i = "i\<lparr>kind := IConstI64 c\<rparr>"
    have "env1 = env(result i \<mapsto> mk c)" "w1 = w"
      using run_folded [OF assms(1) Cons.prems(2) i fold(1) step(1)] by simp_all
    moreover from this step(2) have "run_insts sem pre env0 js' (env(result i \<mapsto> mk c), w) = Some s"
      by (intro Cons.IH [OF fold(2) known_update [OF Cons.prems(2)] rest(1) dom(2) rest(2)]) (simp add: fun_upd_def)
    moreover have "run_inst sem pre env0 ?i (env, w) = Some (env(result i \<mapsto> mk c), w)"
      using run_const [OF assms(1), of ?i c] by simp
    ultimately show ?thesis using fold(3) by simp
  qed
qed simp

text \<open>Phis at the head of a block are never folded: nothing is known there.\<close>

lemma fold_phis:
  "\<forall>i\<in>set ps. is_phi i \<Longrightarrow>
   fold_insts Map.empty (ps @ is) = map_option (\<lambda>(js, ch). (ps @ js, ch)) (fold_insts Map.empty is)"
proof (induction ps)
  case Nil
  then show ?case by (simp add: option.map_ident_strong)
next
  case (Cons i ps)
  then obtain xs where i: "kind i = IPhi xs" by (auto simp: is_phi_iff)
  have "folded Map.empty (IPhi xs) = Some None"
    by (auto simp: folded_def fold_phi_def split: list.split)
  with Cons i show ?case by (simp add: option.map_comp comp_def case_prod_beta)
qed

lemma fold_block_run:
  assumes "integer_sem sem mk" and "fold_insts Map.empty is = Some (js, ch)" and "phis_first is"
    and "distinct (map result is)" and "run_insts sem pre env0 is s = Some s'"
  shows "run_insts sem pre env0 js s = Some s'"
proof -
  define ps where "ps = takeWhile is_phi is"
  define rest where "rest = dropWhile is_phi is"
  have "is": "is = ps @ rest" by (simp add: ps_def rest_def)
  have ps: "\<forall>i\<in>set ps. is_phi i" unfolding ps_def by (auto dest: set_takeWhileD)
  have no: "\<forall>i\<in>set rest. \<not> is_phi i" using assms(3) by (simp add: phis_first_def rest_def)
  obtain js' ch' where js: "fold_insts Map.empty rest = Some (js', ch')" "js = ps @ js'"
    using assms(2) unfolding "is" fold_phis [OF ps] by auto
  obtain env1 w1 where run: "run_insts sem pre env0 ps s = Some (env1, w1)" "run_insts sem pre env0 rest (env1, w1) = Some s'"
    using assms(5) unfolding "is" by (auto simp: run_insts_append bind_eq_Some_conv)
  have "run_insts sem pre env0 js' (env1, w1) = Some s'"
    using fold_insts_run [OF assms(1) js(1) _ _ _ no run(2)] assms(4) "is" by (simp add: known_def)
  with run(1) show ?thesis by (simp add: js(2) run_insts_append)
qed

lemma fold_blocks_pointwise:
  "fold_blocks bs = Some (bs', ch) \<Longrightarrow>
   list_all2 (\<lambda>b b'. \<exists>is c. fold_insts Map.empty (insts b) = Some (is, c) \<and> b' = b\<lparr>insts := is\<rparr>) bs bs'"
proof (induction bs arbitrary: bs' ch)
  case (Cons b bs)
  then show ?case by (auto simp: bind_eq_Some_conv)
qed simp


end
