(* ===== verification/Emit.thy ===== *)
theory Emit
  imports Opt Programs
begin

text \<open>
  The state in which \<^verbatim>\<open>compile_ir_to_program\<close> of \<^verbatim>\<open>driver/vm.rs\<close> writes instructions, and its helpers:
  interning strings, giving a value a local, pushing a value, assigning phis. The tables for strings,
  code and patches live as long as the program, the others as long as one function.
\<close>

record emit =
  out_strings :: "rstring list"
  out_code :: "op list"
  const_int :: "u32 \<rightharpoonup> i64"
  const_str :: "u32 \<rightharpoonup> rstring"
  const_f64 :: "u32 \<rightharpoonup> f64"
  val_local :: "u32 \<rightharpoonup> u32"
  alloca_slot :: "u32 \<rightharpoonup> u32"
  next_local :: u32
  patch_jumps :: "(nat \<times> u32) list"
  call_patches :: "(nat \<times> rstring) list"
  closure_patches :: "(nat \<times> rstring) list"

text \<open>
  What stays fixed: the string pool of the module, the providers, the names of the compiled
  functions in the order in which the hash set of them is iterated.
\<close>

record emit_env =
  module_pool :: "rstring list"
  provider_meta :: "rstring \<rightharpoonup> provider"
  func_names :: "rstring list"

section \<open>Writing\<close>

definition put :: "op list \<Rightarrow> emit \<Rightarrow> emit" where
  "put ops e = e\<lparr>out_code := out_code e @ ops\<rparr>"

text \<open>The index of the first copy of a string in the pool, after adding it if there is none.\<close>

definition pool_index :: "rstring list \<Rightarrow> rstring \<Rightarrow> nat" where
  "pool_index pool s = length (takeWhile (\<lambda>x. x \<noteq> s) pool)"

definition str_index :: "rstring \<Rightarrow> emit \<Rightarrow> u32 \<times> emit" where
  "str_index s e =
     (let i = pool_index (out_strings e) s
      in (of_nat i,
          if i < length (out_strings e) then e else e\<lparr>out_strings := out_strings e @ [s]\<rparr>))"

definition ensure_local_for :: "u32 \<Rightarrow> emit \<Rightarrow> u32 \<times> emit" where
  "ensure_local_for v e =
     (case val_local e v of
        Some ix \<Rightarrow> (ix, e)
      | None \<Rightarrow>
          (next_local e, e\<lparr>next_local := next_local e + 1, val_local := (val_local e)(v \<mapsto> next_local e)\<rparr>))"

definition put_str :: "rstring \<Rightarrow> emit \<Rightarrow> emit" where
  "put_str s e = (let (ix, e) = str_index s e in put [PushStr ix] e)"

definition push_value :: "u32 \<Rightarrow> emit \<Rightarrow> emit" where
  "push_value v e =
     (case val_local e v of
        Some ix \<Rightarrow> put [LocalGet ix] e
      | None \<Rightarrow>
          (case const_int e v of
             Some c \<Rightarrow> put [PushI64 c] e
           | None \<Rightarrow>
               (case const_f64 e v of
                  Some f \<Rightarrow> put [PushF64 f] e
                | None \<Rightarrow>
                    (case const_str e v of
                       Some s \<Rightarrow> put_str s e
                     | None \<Rightarrow> put [PushI64 0] e))))"

definition push_values :: "u32 list \<Rightarrow> emit \<Rightarrow> emit" where
  "push_values vs e = fold push_value vs e"

text \<open>Several arms end by storing the result in its local, or a zero for lack of one.\<close>

definition set_result :: "u32 \<Rightarrow> emit \<Rightarrow> emit" where
  "set_result r e = (let (dst, e) = ensure_local_for r e in put [LocalSet dst] e)"

definition set_zero :: "u32 \<Rightarrow> emit \<Rightarrow> emit" where
  "set_zero r e = (let (dst, e) = ensure_local_for r e in put [PushI64 0, LocalSet dst] e)"

section \<open>Phis\<close>

text \<open>Per block, the phis with their incoming edges.\<close>

type_synonym phi_info = "(u32 \<times> (u32 \<times> u32) list) list list"

definition collect_phis :: "block_data list \<Rightarrow> phi_info" where
  "collect_phis bs =
     map (\<lambda>b. List.map_filter (\<lambda>i. case kind i of IPhi ps \<Rightarrow> Some (result i, ps) | _ \<Rightarrow> None) (insts b)) bs"

definition assign_phi :: "u32 \<Rightarrow> u32 \<times> (u32 \<times> u32) list \<Rightarrow> emit \<Rightarrow> emit" where
  "assign_phi from_block phi e =
     (case map_of (snd phi) from_block of
        None \<Rightarrow> e
      | Some v \<Rightarrow>
          let e1 = push_value v e
          in case val_local e1 (fst phi) of Some dst \<Rightarrow> put [LocalSet dst] e1 | None \<Rightarrow> e1)"

definition emit_phi_assignments :: "phi_info \<Rightarrow> u32 \<Rightarrow> u32 \<Rightarrow> emit \<Rightarrow> emit" where
  "emit_phi_assignments info from_block to_block e =
     (if unat to_block < length info then fold (assign_phi from_block) (info ! unat to_block) e else e)"

section \<open>Names\<close>

definition dot :: u8 where
  "dot = of_char CHR ''.''"

definition first_dot :: "rstring \<Rightarrow> nat option" where
  "first_dot s = (if dot \<in> set s then Some (length (takeWhile (\<lambda>c. c \<noteq> dot) s)) else None)"

definition last_dot :: "rstring \<Rightarrow> nat option" where
  "last_dot s =
     (if dot \<in> set s then Some (length s - 1 - length (takeWhile (\<lambda>c. c \<noteq> dot) (rev s))) else None)"

definition ends_with :: "rstring \<Rightarrow> rstring \<Rightarrow> bool" where
  "ends_with s t \<longleftrightarrow> length t \<le> length s \<and> drop (length s - length t) s = t"

text \<open>The name of the function that drops a value of a type.\<close>

definition deinit_name :: "rstring \<Rightarrow> rstring" where
  "deinit_name ty =
     (case last_dot ty of
        Some p \<Rightarrow> take p ty @ [dot] @ drop (p + 1) ty @ bytes_of ''Fns.deinit''
      | None \<Rightarrow> ty @ bytes_of ''Fns.deinit'')"

definition field_deinit_name :: "rstring \<Rightarrow> rstring" where
  "field_deinit_name ty =
     map (\<lambda>c. if c = dot then of_char CHR ''_'' else c) ty @ bytes_of ''.deinit''"

text \<open>FNV-1a, as the lowering of asynchronous functions computes it.\<close>

definition compute_string_hash :: "rstring \<Rightarrow> i64" where
  "compute_string_hash s =
     fold (\<lambda>b h. (h XOR ucast b) * 0x100000001b3) s 0xcbf29ce484222325"

text \<open>A call names a function of the module, or the part of its name behind a dot.\<close>

definition known_func :: "emit_env \<Rightarrow> rstring \<Rightarrow> bool" where
  "known_func env n \<longleftrightarrow> n \<in> set (func_names env)"

definition qualified_name :: "emit_env \<Rightarrow> rstring \<Rightarrow> rstring option" where
  "qualified_name env n =
     (if known_func env n then Some n else find (\<lambda>f. ends_with f ([dot] @ n)) (func_names env))"

definition add_call :: "op \<Rightarrow> rstring \<Rightarrow> emit \<Rightarrow> emit" where
  "add_call x n e = (put [x] e)\<lparr>call_patches := call_patches e @ [(length (out_code e), n)]\<rparr>"

definition add_jump :: "op \<Rightarrow> u32 \<Rightarrow> emit \<Rightarrow> emit" where
  "add_jump x bb e = (put [x] e)\<lparr>patch_jumps := patch_jumps e @ [(length (out_code e), bb)]\<rparr>"

end
