(* ===== verification/Intrinsics.thy ===== *)
theory Intrinsics
  imports Emit
begin

text \<open>
  The calls that \<^verbatim>\<open>compile_ir_to_program\<close> compiles to instructions of their own: one row for each arm
  of the chain of comparisons of the callee's name and the number of arguments, in the order of the
  source, with what the arm writes.
\<close>

section \<open>Actions\<close>

text \<open>
  An arm pushes arguments, emits instructions and stores the result. An argument that must be a
  string constant contributes its text to the pool and its index to the code, and the empty text when
  it is no constant. The last constructors are the bodies of arms that do something else.
\<close>

datatype (plugins only: size) action =
  Push_Arg nat | Push_Str_Arg nat | Push_Str_Index nat | Emit op | Set_Dst |
  Shared_Named | Print_Str | Print_Str_And_Val | Print_Raw_Str | Print_Raw_Str_And_Val |
  Log_Line | Log_Line_With_Val | Console_Writeln | Spawn_Fn

datatype (plugins only: code size) arg_test = Exactly nat | At_Least nat | Any_Args

definition accepts :: "arg_test \<Rightarrow> nat \<Rightarrow> bool" where
  "accepts t n = (case t of Exactly k \<Rightarrow> n = k | At_Least k \<Rightarrow> k \<le> n | Any_Args \<Rightarrow> True)"

text \<open>The usual arm: all arguments, one instruction, the result.\<close>

definition plain :: "nat \<Rightarrow> op \<Rightarrow> action list" where
  "plain n x = map Push_Arg [0..<n] @ [Emit x, Set_Dst]"

definition str_arg :: "u32 list \<Rightarrow> nat \<Rightarrow> emit \<Rightarrow> rstring" where
  "str_arg args i e =
     (if i < length args then case const_str e (args ! i) of Some s \<Rightarrow> s | None \<Rightarrow> [] else [])"

definition int_arg :: "u32 list \<Rightarrow> nat \<Rightarrow> i64 \<Rightarrow> emit \<Rightarrow> i64" where
  "int_arg args i d e =
     (if i < length args then case const_int e (args ! i) of Some n \<Rightarrow> n | None \<Rightarrow> d else d)"

definition level_name :: "i64 \<Rightarrow> rstring" where
  "level_name n =
     bytes_of (if n = 0 then ''TRACE'' else if n = 1 then ''DEBUG'' else if n = 2 then ''INFO''
       else if n = 3 then ''WARN'' else ''ERROR'')"

text \<open>Level, event and message of a line of the log.\<close>

definition log_prefix :: "u32 list \<Rightarrow> emit \<Rightarrow> rstring" where
  "log_prefix args e =
     (let ev = str_arg args 1 e; msg = str_arg args 2 e
      in level_name (int_arg args 0 2 e) @ (if ev = [] then [] else bytes_of '' '' @ ev) @
         (if msg = [] then [] else bytes_of '': '' @ msg))"

definition log_line :: "u32 list \<Rightarrow> emit \<Rightarrow> emit" where
  "log_line args e =
     (let fld = str_arg args 3 e;
          (ix, e) = str_index (log_prefix args e @ (if fld = [] then [] else bytes_of '' '' @ fld)) e
      in put [Print ix] e)"

definition log_line_with_val :: "u32 list \<Rightarrow> emit \<Rightarrow> emit" where
  "log_line_with_val args e =
     (let label = str_arg args 3 e;
          (pfx, e) = str_index (log_prefix args e) e;
          e = push_value (args ! 4) (put [PrintRaw pfx] e);
          (lab, e) = str_index label e
      in put [PrintRawStrVal lab, OpBase PrintLn] e)"

text \<open>The text is interned before the value is pushed.\<close>

definition print_str :: "(u32 \<Rightarrow> op) \<Rightarrow> u32 list \<Rightarrow> emit \<Rightarrow> emit" where
  "print_str x args e = (let (ix, e) = str_index (str_arg args 0 e) e in put [x ix] e)"

definition print_str_and_val :: "(u32 \<Rightarrow> op) \<Rightarrow> u32 list \<Rightarrow> emit \<Rightarrow> emit" where
  "print_str_and_val x args e =
     (let (ix, e) = str_index (str_arg args 0 e) e in put [x ix] (push_value (args ! 1) e))"

definition shared_named :: "u32 \<Rightarrow> u32 list \<Rightarrow> emit \<Rightarrow> emit" where
  "shared_named dst args e =
     (case const_str e (args ! 0) of
        Some s \<Rightarrow> let (ix, e) = str_index s e in put [SharedGetByName ix, LocalSet dst] e
      | None \<Rightarrow> put [PushI64 0, LocalSet dst] e)"

definition console_writeln :: "u32 \<Rightarrow> u32 list \<Rightarrow> emit \<Rightarrow> emit" where
  "console_writeln dst args e =
     put [PushI64 0, LocalSet dst]
       (case const_str e (args ! 0) of
          Some s \<Rightarrow> let (ix, e) = str_index s e in put [Print ix] e
        | None \<Rightarrow> put [OpBase PrintTop, OpBase PrintLn] (push_value (args ! 0) e))"

text \<open>A task is created with the constants for its function and its number of arguments, then its
  arguments are pushed to it.\<close>

definition spawn_fn :: "u32 \<Rightarrow> u32 list \<Rightarrow> emit \<Rightarrow> emit" where
  "spawn_fn dst args e =
     (let fn_id = int_arg args 0 0 e; argc = int_arg args 1 0 e;
          e = put [PushI64 fn_id, PushI64 argc, OpTask TaskSpawn, LocalSet dst] e
      in fold (\<lambda>v e. put [OpTask TaskPushArg, OpBase Pop] (push_value v (put [LocalGet dst] e)))
           (take (unat argc) (drop 2 args)) e)"

definition do_action :: "u32 \<Rightarrow> u32 list \<Rightarrow> action \<Rightarrow> emit \<Rightarrow> emit" where
  "do_action dst args a e =
     (case a of
        Push_Arg i \<Rightarrow> push_value (args ! i) e
      | Push_Str_Arg i \<Rightarrow> put_str (str_arg args i e) e
      | Push_Str_Index i \<Rightarrow> let (ix, e) = str_index (str_arg args i e) e in put [PushI64 (ucast ix)] e
      | Emit x \<Rightarrow> put [x] e
      | Set_Dst \<Rightarrow> put [LocalSet dst] e
      | Shared_Named \<Rightarrow> shared_named dst args e
      | Print_Str \<Rightarrow> print_str Print args e
      | Print_Str_And_Val \<Rightarrow> print_str_and_val PrintStrVal args e
      | Print_Raw_Str \<Rightarrow> print_str PrintRaw args e
      | Print_Raw_Str_And_Val \<Rightarrow> print_str_and_val PrintRawStrVal args e
      | Log_Line \<Rightarrow> log_line args e
      | Log_Line_With_Val \<Rightarrow> log_line_with_val args e
      | Console_Writeln \<Rightarrow> console_writeln dst args e
      | Spawn_Fn \<Rightarrow> spawn_fn dst args e)"

section \<open>The table\<close>

definition cast_calls :: "(string \<times> arg_test \<times> action list) list" where
  "cast_calls =
     [(''__arth_cast_f64'', Exactly 1, plain 1 (OpConv ToF64)),
      (''__arth_cast_i64'', Exactly 1, plain 1 (OpConv ToI64OrEnumTag)),
      (''__arth_cast_bool'', Exactly 1, plain 1 (OpConv ToBool)),
      (''__arth_cast_char'', Exactly 1, plain 1 (OpConv ToChar)),
      (''__arth_cast_i8'', Exactly 1, plain 1 (OpConv ToI8)),
      (''__arth_cast_i16'', Exactly 1, plain 1 (OpConv ToI16)),
      (''__arth_cast_i32'', Exactly 1, plain 1 (OpConv ToI32)),
      (''__arth_cast_u8'', Exactly 1, plain 1 (OpConv ToU8)),
      (''__arth_cast_u16'', Exactly 1, plain 1 (OpConv ToU16)),
      (''__arth_cast_u32'', Exactly 1, plain 1 (OpConv ToU32)),
      (''__arth_cast_u64'', Exactly 1, plain 1 (OpConv ToU64)),
      (''__arth_cast_f32'', Exactly 1, plain 1 (OpConv ToF32))]"

definition shared_calls :: "(string \<times> arg_test \<times> action list) list" where
  "shared_calls =
     [(''__arth_shared_new'', Exactly 0, plain 0 (OpShared SharedNew)),
      (''__arth_shared_store'', Exactly 2, plain 2 (OpShared SharedStore)),
      (''__arth_shared_load'', Exactly 1, plain 1 (OpShared SharedLoad)),
      (''__arth_shared_get_named'', Exactly 1, [Shared_Named])]"

definition executor_calls :: "(string \<times> arg_test \<times> action list) list" where
  "executor_calls =
     [(''__arth_executor_init'', Exactly 1, plain 1 (OpExecutor ExecutorInit)),
      (''__arth_executor_thread_count'', Exactly 0, plain 0 (OpExecutor ExecutorThreadCount)),
      (''__arth_executor_active_workers'', Exactly 0, plain 0 (OpExecutor ExecutorActiveWorkers)),
      (''__arth_executor_spawn'', Exactly 1, plain 1 (OpExecutor ExecutorSpawn)),
      (''__arth_executor_join'', Exactly 1, plain 1 (OpExecutor ExecutorJoin)),
      (''__arth_executor_spawn_with_arg'', Exactly 2, plain 2 (OpExecutor ExecutorSpawnWithArg)),
      (''__arth_executor_active_executor_count'', Exactly 0, plain 0 (OpExecutor ExecutorActiveExecutorCount)),
      (''__arth_executor_worker_task_count'', Exactly 1, plain 1 (OpExecutor ExecutorWorkerTaskCount)),
      (''__arth_executor_reset_stats'', Exactly 0, plain 0 (OpExecutor ExecutorResetStats)),
      (''__arth_executor_spawn_await'', Exactly 3, plain 3 (OpExecutor ExecutorSpawnAwait))]"

definition mpmc_calls_1 :: "(string \<times> arg_test \<times> action list) list" where
  "mpmc_calls_1 =
     [(''__arth_mpmc_chan_create'', Exactly 1, plain 1 (OpMpmc MpmcChanCreate)),
      (''__arth_mpmc_chan_send'', Exactly 2, plain 2 (OpMpmc MpmcChanSend)),
      (''__arth_mpmc_chan_send_blocking'', Exactly 2, plain 2 (OpMpmc MpmcChanSendBlocking)),
      (''__arth_mpmc_chan_recv'', Exactly 1, plain 1 (OpMpmc MpmcChanRecv)),
      (''__arth_mpmc_chan_recv_blocking'', Exactly 1, plain 1 (OpMpmc MpmcChanRecvBlocking)),
      (''__arth_mpmc_chan_close'', Exactly 1, plain 1 (OpMpmc MpmcChanClose)),
      (''__arth_mpmc_chan_len'', Exactly 1, plain 1 (OpMpmc MpmcChanLen)),
      (''__arth_mpmc_chan_is_empty'', Exactly 1, plain 1 (OpMpmc MpmcChanIsEmpty)),
      (''__arth_mpmc_chan_is_full'', Exactly 1, plain 1 (OpMpmc MpmcChanIsFull)),
      (''__arth_mpmc_chan_is_closed'', Exactly 1, plain 1 (OpMpmc MpmcChanIsClosed))]"

definition mpmc_calls_2 :: "(string \<times> arg_test \<times> action list) list" where
  "mpmc_calls_2 =
     [(''__arth_mpmc_chan_capacity'', Exactly 1, plain 1 (OpMpmc MpmcChanCapacity)),
      (''__arth_mpmc_chan_send_with_task'', Exactly 3, plain 3 (OpMpmc MpmcChanSendWithTask)),
      (''__arth_mpmc_chan_recv_with_task'', Exactly 2, plain 2 (OpMpmc MpmcChanRecvWithTask)),
      (''__arth_mpmc_chan_recv_and_wake'', Exactly 1, plain 1 (OpMpmc MpmcChanRecvAndWake)),
      (''__arth_mpmc_chan_pop_waiting_sender'', Exactly 1, plain 1 (OpMpmc MpmcChanPopWaitingSender)),
      (''__arth_mpmc_chan_get_waiting_sender_value'', Exactly 0, plain 0 (OpMpmc MpmcChanGetWaitingSenderValue)),
      (''__arth_mpmc_chan_pop_waiting_receiver'', Exactly 1, plain 1 (OpMpmc MpmcChanPopWaitingReceiver)),
      (''__arth_mpmc_chan_waiting_sender_count'', Exactly 1, plain 1 (OpMpmc MpmcChanWaitingSenderCount)),
      (''__arth_mpmc_chan_waiting_receiver_count'', Exactly 1, plain 1 (OpMpmc MpmcChanWaitingReceiverCount)),
      (''__arth_mpmc_chan_get_woken_sender'', Exactly 0, plain 0 (OpMpmc MpmcChanGetWokenSender))]"

definition mpmc_calls_3 :: "(string \<times> arg_test \<times> action list) list" where
  "mpmc_calls_3 =
     [(''__arth_mpmc_chan_send_and_wake'', Exactly 2, plain 2 (OpMpmc MpmcChanSendAndWake)),
      (''__arth_mpmc_chan_get_woken_receiver'', Exactly 0, plain 0 (OpMpmc MpmcChanGetWokenReceiver)),
      (''__arth_mpmc_chan_select_clear'', Exactly 0, [Emit (OpMpmc MpmcChanSelectClear), Emit (PushI64 0), Set_Dst]),
      (''__arth_mpmc_chan_select_add'', Exactly 1, plain 1 (OpMpmc MpmcChanSelectAdd)),
      (''__arth_mpmc_chan_select_count'', Exactly 0, plain 0 (OpMpmc MpmcChanSelectCount)),
      (''__arth_mpmc_chan_try_select_recv'', Exactly 0, plain 0 (OpMpmc MpmcChanTrySelectRecv)),
      (''__arth_mpmc_chan_select_recv_blocking'', Exactly 0, plain 0 (OpMpmc MpmcChanSelectRecvBlocking)),
      (''__arth_mpmc_chan_select_recv_with_task'', Exactly 1, plain 1 (OpMpmc MpmcChanSelectRecvWithTask)),
      (''__arth_mpmc_chan_select_get_ready_index'', Exactly 0, plain 0 (OpMpmc MpmcChanSelectGetReadyIndex)),
      (''__arth_mpmc_chan_select_get_value'', Exactly 0, plain 0 (OpMpmc MpmcChanSelectGetValue)),
      (''__arth_mpmc_chan_select_deregister'', Exactly 2, [Push_Arg 0, Push_Arg 1, Emit (OpMpmc MpmcChanSelectDeregister), Emit (PushI64 0), Set_Dst]),
      (''__arth_mpmc_chan_select_get_handle'', Exactly 1, plain 1 (OpMpmc MpmcChanSelectGetHandle))]"

definition actor_calls_1 :: "(string \<times> arg_test \<times> action list) list" where
  "actor_calls_1 =
     [(''__arth_actor_create'', Exactly 1, plain 1 (OpActor ActorCreate)),
      (''__arth_actor_spawn'', Exactly 2, plain 2 (OpActor ActorSpawn)),
      (''__arth_actor_send'', Exactly 2, plain 2 (OpActor ActorSend)),
      (''__arth_actor_send_blocking'', Exactly 2, plain 2 (OpActor ActorSendBlocking)),
      (''__arth_actor_recv'', Exactly 1, plain 1 (OpActor ActorRecv)),
      (''__arth_actor_recv_blocking'', Exactly 1, plain 1 (OpActor ActorRecvBlocking)),
      (''__arth_actor_close'', Exactly 1, plain 1 (OpActor ActorClose)),
      (''__arth_actor_stop'', Exactly 1, plain 1 (OpActor ActorStop)),
      (''__arth_actor_get_task'', Exactly 1, plain 1 (OpActor ActorGetTask))]"

definition actor_calls_2 :: "(string \<times> arg_test \<times> action list) list" where
  "actor_calls_2 =
     [(''__arth_actor_get_mailbox'', Exactly 1, plain 1 (OpActor ActorGetMailbox)),
      (''__arth_actor_is_running'', Exactly 1, plain 1 (OpActor ActorIsRunning)),
      (''__arth_actor_get_state'', Exactly 1, plain 1 (OpActor ActorGetState)),
      (''__arth_actor_message_count'', Exactly 1, plain 1 (OpActor ActorMessageCount)),
      (''__arth_actor_mailbox_empty'', Exactly 1, plain 1 (OpActor ActorMailboxEmpty)),
      (''__arth_actor_mailbox_len'', Exactly 1, plain 1 (OpActor ActorMailboxLen)),
      (''__arth_actor_set_task'', Exactly 2, plain 2 (OpActor ActorSetTask)),
      (''__arth_actor_mark_stopped'', Exactly 1, plain 1 (OpActor ActorMarkStopped)),
      (''__arth_actor_mark_failed'', Exactly 1, plain 1 (OpActor ActorMarkFailed)),
      (''__arth_actor_is_failed'', Exactly 1, plain 1 (OpActor ActorIsFailed))]"

definition atomic_calls_1 :: "(string \<times> arg_test \<times> action list) list" where
  "atomic_calls_1 =
     [(''__arth_atomic_create'', Exactly 1, plain 1 (OpAtomic AtomicCreate)),
      (''__arth_atomic_load'', Exactly 1, plain 1 (OpAtomic AtomicLoad)),
      (''__arth_atomic_store'', Exactly 2, plain 2 (OpAtomic AtomicStore)),
      (''__arth_atomic_cas'', Exactly 3, plain 3 (OpAtomic AtomicCas)),
      (''__arth_atomic_fetch_add'', Exactly 2, plain 2 (OpAtomic AtomicFetchAdd)),
      (''__arth_atomic_fetch_sub'', Exactly 2, plain 2 (OpAtomic AtomicFetchSub)),
      (''__arth_atomic_swap'', Exactly 2, plain 2 (OpAtomic AtomicSwap))]"

definition atomic_calls_2 :: "(string \<times> arg_test \<times> action list) list" where
  "atomic_calls_2 =
     [(''__arth_atomic_get'', Exactly 1, plain 1 (OpAtomic AtomicGet)),
      (''__arth_atomic_set'', Exactly 2, plain 2 (OpAtomic AtomicSet)),
      (''__arth_atomic_inc'', Exactly 1, plain 1 (OpAtomic AtomicInc)),
      (''__arth_atomic_dec'', Exactly 1, plain 1 (OpAtomic AtomicDec))]"

definition event_loop_calls_1 :: "(string \<times> arg_test \<times> action list) list" where
  "event_loop_calls_1 =
     [(''__arth_event_loop_create'', Exactly 0, plain 0 (OpEventLoop EventLoopCreate)),
      (''__arth_event_loop_register_timer'', Exactly 2, plain 2 (OpEventLoop EventLoopRegisterTimer)),
      (''__arth_event_loop_register_fd'', Exactly 3, plain 3 (OpEventLoop EventLoopRegisterFd)),
      (''__arth_event_loop_deregister'', Exactly 2, plain 2 (OpEventLoop EventLoopDeregister)),
      (''__arth_event_loop_poll'', Exactly 2, plain 2 (OpEventLoop EventLoopPoll)),
      (''__arth_event_loop_get_event'', Exactly 1, plain 1 (OpEventLoop EventLoopGetEvent)),
      (''__arth_event_loop_get_event_type'', Exactly 1, plain 1 (OpEventLoop EventLoopGetEventType)),
      (''__arth_event_loop_close'', Exactly 1, plain 1 (OpEventLoop EventLoopClose)),
      (''__arth_event_loop_pipe_create'', Exactly 0, plain 0 (OpEventLoop EventLoopPipeCreate)),
      (''__arth_event_loop_pipe_get_write_fd'', Exactly 0, plain 0 (OpEventLoop EventLoopPipeGetWriteFd))]"

definition event_loop_calls_2 :: "(string \<times> arg_test \<times> action list) list" where
  "event_loop_calls_2 =
     [(''__arth_event_loop_pipe_write'', Exactly 2, plain 2 (OpEventLoop EventLoopPipeWrite)),
      (''__arth_event_loop_pipe_read'', Exactly 1, plain 1 (OpEventLoop EventLoopPipeRead)),
      (''__arth_event_loop_pipe_close'', Exactly 1, plain 1 (OpEventLoop EventLoopPipeClose))]"

definition timer_calls_1 :: "(string \<times> arg_test \<times> action list) list" where
  "timer_calls_1 =
     [(''__arth_timer_sleep'', Exactly 1, plain 1 (OpTimer TimerSleep)),
      (''__arth_timer_sleep_async'', Exactly 2, plain 2 (OpTimer TimerSleepAsync))]"

definition task_calls_1 :: "(string \<times> arg_test \<times> action list) list" where
  "task_calls_1 =
     [(''__arth_task_yield'', Exactly 0, [Emit (PushI64 0), Emit (OpTimer TimerSleep), Set_Dst]),
      (''__arth_task_check_cancelled'', Exactly 0, plain 0 (PushI64 0))]"

definition timer_calls_2 :: "(string \<times> arg_test \<times> action list) list" where
  "timer_calls_2 =
     [(''__arth_timer_check_expired'', Exactly 1, plain 1 (OpTimer TimerCheckExpired)),
      (''__arth_timer_get_waiting_task'', Exactly 1, plain 1 (OpTimer TimerGetWaitingTask)),
      (''__arth_timer_cancel'', Exactly 1, plain 1 (OpTimer TimerCancel)),
      (''__arth_timer_poll_expired'', Exactly 0, plain 0 (OpTimer TimerPollExpired)),
      (''__arth_timer_now'', Exactly 0, plain 0 (OpTimer TimerNow)),
      (''__arth_timer_elapsed'', Exactly 1, plain 1 (OpTimer TimerElapsed)),
      (''__arth_timer_remove'', Exactly 1, plain 1 (OpTimer TimerRemove)),
      (''__arth_timer_remaining'', Exactly 1, plain 1 (OpTimer TimerRemaining))]"

definition tcp_calls_1 :: "(string \<times> arg_test \<times> action list) list" where
  "tcp_calls_1 =
     [(''__arth_tcp_listener_bind'', Exactly 1, plain 1 (OpTcp TcpListenerBind)),
      (''__arth_tcp_listener_accept'', Exactly 1, plain 1 (OpTcp TcpListenerAccept)),
      (''__arth_tcp_listener_accept_async'', Exactly 2, plain 2 (OpTcp TcpListenerAcceptAsync)),
      (''__arth_tcp_listener_close'', Exactly 1, plain 1 (OpTcp TcpListenerClose)),
      (''__arth_tcp_listener_local_port'', Exactly 1, plain 1 (OpTcp TcpListenerLocalPort)),
      (''__arth_tcp_stream_connect'', Exactly 2, [Push_Str_Index 0, Push_Arg 1, Emit (OpTcp TcpStreamConnect), Set_Dst]),
      (''__arth_tcp_stream_connect_async'', Exactly 3, [Push_Str_Index 0, Push_Arg 1, Push_Arg 2, Emit (OpTcp TcpStreamConnectAsync), Set_Dst]),
      (''__arth_tcp_stream_read'', Exactly 2, plain 2 (OpTcp TcpStreamRead))]"

definition tcp_calls_2 :: "(string \<times> arg_test \<times> action list) list" where
  "tcp_calls_2 =
     [(''__arth_tcp_stream_read_async'', Exactly 3, plain 3 (OpTcp TcpStreamReadAsync)),
      (''__arth_tcp_stream_write'', Exactly 2, [Push_Arg 0, Push_Str_Index 1, Emit (OpTcp TcpStreamWrite), Set_Dst]),
      (''__arth_tcp_stream_write_async'', Exactly 3, [Push_Arg 0, Push_Str_Index 1, Push_Arg 2, Emit (OpTcp TcpStreamWriteAsync), Set_Dst]),
      (''__arth_tcp_stream_close'', Exactly 1, plain 1 (OpTcp TcpStreamClose)),
      (''__arth_tcp_stream_get_last_read_string'', Exactly 0, plain 0 (OpTcp TcpStreamGetLastRead)),
      (''__arth_tcp_stream_set_timeout'', Exactly 2, plain 2 (OpTcp TcpStreamSetTimeout)),
      (''__arth_tcp_check_ready'', Exactly 1, plain 1 (OpTcp TcpCheckReady)),
      (''__arth_tcp_get_result'', Exactly 1, plain 1 (OpTcp TcpGetResult)),
      (''__arth_tcp_poll_ready'', Exactly 0, plain 0 (OpTcp TcpPollReady))]"

definition tcp_calls_3 :: "(string \<times> arg_test \<times> action list) list" where
  "tcp_calls_3 =
     [(''__arth_tcp_remove_request'', Exactly 1, plain 1 (OpTcp TcpRemoveRequest)),
      (''__arth_tcp_get_waiting_task'', Exactly 1, plain 1 (OpTcp TcpGetResult))]"

definition http_calls_1 :: "(string \<times> arg_test \<times> action list) list" where
  "http_calls_1 =
     [(''__arth_http_get'', Exactly 2, [Push_Str_Arg 0, Push_Arg 1, Emit (OpHttp HttpGet), Set_Dst]),
      (''__arth_http_post'', Exactly 3, [Push_Str_Arg 0, Push_Str_Arg 1, Push_Arg 2, Emit (OpHttp HttpPost), Set_Dst]),
      (''__arth_http_get_async'', Exactly 3, [Push_Str_Arg 0, Push_Arg 1, Push_Arg 2, Emit (OpHttp HttpGetAsync), Set_Dst]),
      (''__arth_http_post_async'', Exactly 4, [Push_Str_Arg 0, Push_Str_Arg 1, Push_Arg 2, Push_Arg 3, Emit (OpHttp HttpPostAsync), Set_Dst]),
      (''__arth_http_response_status'', Exactly 1, plain 1 (OpHttp HttpResponseStatus)),
      (''__arth_http_response_header'', Exactly 2, [Push_Arg 0, Push_Str_Arg 1, Emit (OpHttp HttpResponseHeader), Set_Dst]),
      (''__arth_http_response_body'', Exactly 1, plain 1 (OpHttp HttpResponseBody))]"

definition http_calls_2 :: "(string \<times> arg_test \<times> action list) list" where
  "http_calls_2 =
     [(''__arth_http_response_close'', Exactly 1, plain 1 (OpHttp HttpResponseClose)),
      (''__arth_http_check_ready'', Exactly 1, plain 1 (OpHttp HttpCheckReady)),
      (''__arth_http_get_result'', Exactly 1, plain 1 (OpHttp HttpGetResult)),
      (''__arth_http_poll_ready'', Exactly 0, plain 0 (OpHttp HttpPollReady)),
      (''__arth_http_remove_request'', Exactly 1, plain 1 (OpHttp HttpRemoveRequest)),
      (''__arth_http_get_body_length'', Exactly 1, plain 1 (OpHttp HttpGetBodyLength)),
      (''__arth_http_get_header_count'', Exactly 1, plain 1 (OpHttp HttpGetHeaderCount)),
      (''__arth_http_get_waiting_task'', Exactly 1, plain 1 (OpHttp HttpGetResult)),
      (''__arth_http_get_last_header_string'', Exactly 0, plain 0 (OpHttp HttpPollReady)),
      (''__arth_http_get_last_body_string'', Exactly 0, plain 0 (OpHttp HttpPollReady)),
      (''__arth_http_server_create'', Exactly 1, plain 1 (OpHttpServer HttpServerCreate)),
      (''__arth_http_server_close'', Exactly 1, plain 1 (OpHttpServer HttpServerClose)),
      (''__arth_http_server_get_port'', Exactly 1, plain 1 (OpHttpServer HttpServerGetPort))]"

definition http_calls_3 :: "(string \<times> arg_test \<times> action list) list" where
  "http_calls_3 =
     [(''__arth_http_server_accept'', Exactly 1, plain 1 (OpHttpServer HttpServerAccept)),
      (''__arth_http_server_accept_async'', Exactly 2, plain 2 (OpHttpServer HttpServerAcceptAsync)),
      (''__arth_http_request_method'', Exactly 1, plain 1 (OpHttpServer HttpRequestMethod)),
      (''__arth_http_request_path'', Exactly 1, plain 1 (OpHttpServer HttpRequestPath)),
      (''__arth_http_request_header'', Exactly 2, [Push_Arg 0, Push_Str_Arg 1, Emit (OpHttpServer HttpRequestHeader), Set_Dst]),
      (''__arth_http_request_body'', Exactly 1, plain 1 (OpHttpServer HttpRequestBody)),
      (''__arth_http_request_header_count'', Exactly 1, plain 1 (OpHttpServer HttpRequestHeaderCount)),
      (''__arth_http_request_body_length'', Exactly 1, plain 1 (OpHttpServer HttpRequestBodyLength)),
      (''__arth_http_writer_status'', Exactly 2, plain 2 (OpHttpServer HttpWriterStatus))]"

definition http_calls_4 :: "(string \<times> arg_test \<times> action list) list" where
  "http_calls_4 =
     [(''__arth_http_writer_header'', Exactly 3, [Push_Arg 0, Push_Str_Arg 1, Push_Str_Arg 2, Emit (OpHttpServer HttpWriterHeader), Set_Dst]),
      (''__arth_http_writer_body'', Exactly 2, [Push_Arg 0, Push_Str_Arg 1, Emit (OpHttpServer HttpWriterBody), Set_Dst]),
      (''__arth_http_writer_send'', Exactly 1, plain 1 (OpHttpServer HttpWriterSend)),
      (''__arth_http_writer_send_async'', Exactly 2, plain 2 (OpHttpServer HttpWriterSendAsync)),
      (''__arth_http_server_check_ready'', Exactly 1, plain 1 (OpHttpServer HttpServerCheckReady)),
      (''__arth_http_server_get_result'', Exactly 1, plain 1 (OpHttpServer HttpServerGetResult)),
      (''__arth_http_server_poll_ready'', Exactly 0, plain 0 (OpHttpServer HttpServerPollReady)),
      (''__arth_http_server_remove_request'', Exactly 1, plain 1 (OpHttpServer HttpServerRemoveRequest)),
      (''__arth_http_server_get_waiting_task'', Exactly 1, plain 1 (OpHttpServer HttpServerGetResult))]"

definition print_calls_1 :: "(string \<times> arg_test \<times> action list) list" where
  "print_calls_1 =
     [(''__arth_vm_print_str'', At_Least 1, [Print_Str]),
      (''__arth_vm_print_val'', At_Least 1, [Push_Arg 0, Emit (OpBase PrintTop)]),
      (''__arth_vm_print_str_val'', At_Least 2, [Print_Str_And_Val]),
      (''__arth_vm_print_raw'', At_Least 1, [Print_Raw_Str]),
      (''__arth_vm_print_raw_str_val'', At_Least 2, [Print_Raw_Str_And_Val])]"

definition math_calls :: "(string \<times> arg_test \<times> action list) list" where
  "math_calls =
     [(''__arth_math_sqrt'', Exactly 1, plain 1 (OpFloat SqrtF64)),
      (''__arth_math_pow'', Exactly 2, plain 2 (OpFloat PowF64)),
      (''__arth_math_sin'', Exactly 1, plain 1 (OpFloat SinF64)),
      (''__arth_math_cos'', Exactly 1, plain 1 (OpFloat CosF64)),
      (''__arth_math_tan'', Exactly 1, plain 1 (OpFloat TanF64)),
      (''__arth_math_floor'', Exactly 1, plain 1 (OpFloat FloorF64)),
      (''__arth_math_ceil'', Exactly 1, plain 1 (OpFloat CeilF64)),
      (''__arth_math_round'', Exactly 1, plain 1 (OpFloat RoundF64))]"

definition print_calls_2 :: "(string \<times> arg_test \<times> action list) list" where
  "print_calls_2 =
     [(''__arth_vm_print_ln'', Any_Args, [Emit (OpBase PrintLn)])]"

definition list_calls :: "(string \<times> arg_test \<times> action list) list" where
  "list_calls =
     [(''__arth_list_new'', Exactly 0, plain 0 (OpList ListNew)),
      (''__arth_list_push'', Exactly 2, plain 2 (OpList ListPush)),
      (''__arth_list_get'', Exactly 2, plain 2 (OpList ListGet)),
      (''__arth_list_set'', Exactly 3, plain 3 (OpList ListSet)),
      (''__arth_list_len'', Exactly 1, plain 1 (OpList ListLen)),
      (''__arth_list_remove'', Exactly 2, plain 2 (OpList ListRemove)),
      (''__arth_list_sort'', Exactly 1, plain 1 (OpList ListSort))]"

definition map_calls_1 :: "(string \<times> arg_test \<times> action list) list" where
  "map_calls_1 =
     [(''__arth_map_new'', Exactly 0, plain 0 (OpMap MapNew)),
      (''__arth_map_put'', Exactly 3, plain 3 (OpMap MapPut)),
      (''__arth_map_get'', Exactly 2, plain 2 (OpMap MapGet)),
      (''__arth_map_len'', Exactly 1, plain 1 (OpMap MapLen)),
      (''__arth_map_contains_key'', Exactly 2, plain 2 (OpMap MapContainsKey)),
      (''__arth_map_remove'', Exactly 2, plain 2 (OpMap MapRemove)),
      (''__arth_map_keys'', Exactly 1, plain 1 (OpMap MapKeys))]"

definition map_calls_2 :: "(string \<times> arg_test \<times> action list) list" where
  "map_calls_2 =
     [(''__arth_map_merge'', Exactly 2, plain 2 (OpMap MapMerge))]"

definition str_calls_1 :: "(string \<times> arg_test \<times> action list) list" where
  "str_calls_1 =
     [(''__arth_str_len'', Exactly 1, plain 1 (OpStr StrLen)),
      (''__arth_str_substring'', Exactly 3, plain 3 (OpStr StrSubstring)),
      (''__arth_str_indexof'', Exactly 2, plain 2 (OpStr StrIndexOf)),
      (''__arth_str_lastindexof'', Exactly 2, plain 2 (OpStr StrLastIndexOf)),
      (''__arth_str_startswith'', Exactly 2, plain 2 (OpStr StrStartsWith)),
      (''__arth_str_endswith'', Exactly 2, plain 2 (OpStr StrEndsWith)),
      (''__arth_str_split'', Exactly 2, plain 2 (OpStr StrSplit))]"

definition str_calls_2 :: "(string \<times> arg_test \<times> action list) list" where
  "str_calls_2 =
     [(''__arth_str_trim'', Exactly 1, plain 1 (OpStr StrTrim)),
      (''__arth_str_tolower'', Exactly 1, plain 1 (OpStr StrToLower)),
      (''__arth_str_toupper'', Exactly 1, plain 1 (OpStr StrToUpper)),
      (''__arth_str_replace'', Exactly 3, plain 3 (OpStr StrReplace)),
      (''__arth_str_charat'', Exactly 2, plain 2 (OpStr StrCharAt)),
      (''__arth_str_contains'', Exactly 2, plain 2 (OpStr StrContains)),
      (''__arth_str_repeat'', Exactly 2, plain 2 (OpStr StrRepeat)),
      (''__arth_str_parseint'', Exactly 1, plain 1 (OpStr StrParseInt))]"

definition str_calls_3 :: "(string \<times> arg_test \<times> action list) list" where
  "str_calls_3 =
     [(''__arth_str_parsefloat'', Exactly 1, plain 1 (OpStr StrParseFloat)),
      (''__arth_str_fromint'', Exactly 1, plain 1 (OpStr StrFromInt)),
      (''__arth_str_fromfloat'', Exactly 1, plain 1 (OpStr StrFromFloat))]"

definition opt_calls :: "(string \<times> arg_test \<times> action list) list" where
  "opt_calls =
     [(''__arth_opt_some'', Exactly 1, plain 1 (OpOpt OptSome)),
      (''__arth_opt_none'', Exactly 0, plain 0 (OpOpt OptNone)),
      (''__arth_opt_is_some'', Exactly 1, plain 1 (OpOpt OptIsSome)),
      (''__arth_opt_is_none'', Exactly 1, [Push_Arg 0, Emit (OpOpt OptIsSome), Emit (PushI64 0), Emit (OpArith EqI64), Set_Dst]),
      (''__arth_opt_unwrap'', Exactly 1, plain 1 (OpOpt OptUnwrap)),
      (''__arth_opt_or_else'', Exactly 2, plain 2 (OpOpt OptOrElse))]"

definition struct_calls_1 :: "(string \<times> arg_test \<times> action list) list" where
  "struct_calls_1 =
     [(''__arth_struct_new'', Exactly 2, plain 2 (OpStruct StructNew)),
      (''__arth_struct_set'', Exactly 4, plain 4 (OpStruct StructSet)),
      (''__arth_struct_get'', Exactly 2, plain 2 (OpStruct StructGet)),
      (''__arth_struct_get_named'', Exactly 2, plain 2 (OpStruct StructGetNamed)),
      (''__arth_struct_set_named'', Exactly 3, plain 3 (OpStruct StructSetNamed))]"

definition struct_calls_2 :: "(string \<times> arg_test \<times> action list) list" where
  "struct_calls_2 =
     [(''__arth_struct_copy'', Exactly 2, plain 2 (OpStruct StructCopy))]"

definition enum_calls :: "(string \<times> arg_test \<times> action list) list" where
  "enum_calls =
     [(''__arth_enum_new'', Exactly 4, plain 4 (OpEnum EnumNew)),
      (''__arth_enum_set_payload'', Exactly 3, plain 3 (OpEnum EnumSetPayload)),
      (''__arth_enum_get_payload'', Exactly 2, plain 2 (OpEnum EnumGetPayload)),
      (''__arth_enum_get_tag'', Exactly 1, plain 1 (OpEnum EnumGetTag))]"

definition http_calls_5 :: "(string \<times> arg_test \<times> action list) list" where
  "http_calls_5 =
     [(''__arth_http_serve'', Exactly 1, plain 1 (HostCallNet HttpServe)),
      (''__arth_http_fetch'', Exactly 1, plain 1 (HostCallNet HttpFetch)),
      (''__arth_http_accept'', Exactly 1, plain 1 (HostCallNet HttpAccept)),
      (''__arth_http_respond'', Exactly 4, [Push_Arg 0, Push_Arg 1, Push_Arg 2, Push_Arg 3, Emit (HostCallNet HttpRespond), Emit (OpBase Pop)])]"

definition json_calls_1 :: "(string \<times> arg_test \<times> action list) list" where
  "json_calls_1 =
     [(''__arth_json_stringify'', Exactly 1, plain 1 (OpJson JsonStringify)),
      (''__arth_json_parse'', Exactly 1, plain 1 (OpJson JsonParse))]"

definition struct_calls_3 :: "(string \<times> arg_test \<times> action list) list" where
  "struct_calls_3 =
     [(''__arth_struct_to_json'', Exactly 2, plain 2 (OpJson StructToJson))]"

definition json_calls_2 :: "(string \<times> arg_test \<times> action list) list" where
  "json_calls_2 =
     [(''__arth_json_to_struct'', Exactly 2, plain 2 (OpJson JsonToStruct)),
      (''__arth_json_get_field'', Exactly 2, plain 2 (OpJson JsonGetField)),
      (''__arth_json_get_index'', Exactly 2, plain 2 (OpJson JsonGetIndex)),
      (''__arth_json_get_string'', Exactly 1, plain 1 (OpJson JsonGetString)),
      (''__arth_json_get_number'', Exactly 1, plain 1 (OpJson JsonGetNumber)),
      (''__arth_json_get_bool'', Exactly 1, plain 1 (OpJson JsonGetBool)),
      (''__arth_json_is_null'', Exactly 1, plain 1 (OpJson JsonIsNull)),
      (''__arth_json_is_object'', Exactly 1, plain 1 (OpJson JsonIsObject))]"

definition json_calls_3 :: "(string \<times> arg_test \<times> action list) list" where
  "json_calls_3 =
     [(''__arth_json_is_array'', Exactly 1, plain 1 (OpJson JsonIsArray)),
      (''__arth_json_array_len'', Exactly 1, plain 1 (OpJson JsonArrayLen)),
      (''__arth_json_keys'', Exactly 1, plain 1 (OpJson JsonKeys))]"

definition log_calls :: "(string \<times> arg_test \<times> action list) list" where
  "log_calls =
     [(''__arth_log_emit_str'', At_Least 3, [Log_Line]),
      (''__arth_log_emit_str_i64'', At_Least 5, [Log_Line_With_Val])]"

definition file_calls_1 :: "(string \<times> arg_test \<times> action list) list" where
  "file_calls_1 =
     [(''__arth_file_open'', Exactly 2, plain 2 (HostCallIo FileOpen)),
      (''__arth_file_close'', Exactly 1, plain 1 (HostCallIo FileClose)),
      (''__arth_file_read'', Exactly 2, plain 2 (HostCallIo FileRead)),
      (''__arth_file_write'', Exactly 2, plain 2 (HostCallIo FileWriteStr)),
      (''__arth_file_flush'', Exactly 1, plain 1 (HostCallIo FileFlush)),
      (''__arth_file_seek'', Exactly 3, plain 3 (HostCallIo FileSeek)),
      (''__arth_file_size'', Exactly 1, plain 1 (HostCallIo FileSize))]"

definition file_calls_2 :: "(string \<times> arg_test \<times> action list) list" where
  "file_calls_2 =
     [(''__arth_file_exists'', Exactly 1, plain 1 (HostCallIo FileExists)),
      (''__arth_file_delete'', Exactly 1, plain 1 (HostCallIo FileDelete)),
      (''__arth_file_copy'', Exactly 2, plain 2 (HostCallIo FileCopy)),
      (''__arth_file_move'', Exactly 2, plain 2 (HostCallIo FileMove)),
      (''__arth_dir_create'', Exactly 1, plain 1 (HostCallIo DirCreate)),
      (''__arth_dir_create_all'', Exactly 1, plain 1 (HostCallIo DirCreateAll)),
      (''__arth_dir_delete'', Exactly 1, plain 1 (HostCallIo DirDelete)),
      (''__arth_dir_list'', Exactly 1, plain 1 (HostCallIo DirList)),
      (''__arth_dir_exists'', Exactly 1, plain 1 (HostCallIo DirExists))]"

definition file_calls_3 :: "(string \<times> arg_test \<times> action list) list" where
  "file_calls_3 =
     [(''__arth_is_dir'', Exactly 1, plain 1 (HostCallIo IsDir)),
      (''__arth_is_file'', Exactly 1, plain 1 (HostCallIo IsFile)),
      (''__arth_path_absolute'', Exactly 1, plain 1 (HostCallIo PathAbsolute))]"

definition console_calls :: "(string \<times> arg_test \<times> action list) list" where
  "console_calls =
     [(''__arth_console_read_line'', Exactly 0, plain 0 (HostCallIo ConsoleReadLine)),
      (''__arth_console_write'', Exactly 1, plain 1 (HostCallIo ConsoleWrite)),
      (''__arth_console_writeln'', Exactly 1, [Console_Writeln]),
      (''__arth_console_write_err'', Exactly 1, plain 1 (HostCallIo ConsoleWriteErr))]"

definition datetime_calls :: "(string \<times> arg_test \<times> action list) list" where
  "datetime_calls =
     [(''__arth_datetime_now'', Exactly 0, plain 0 (HostCallTime DateTimeNow)),
      (''__arth_datetime_parse'', Exactly 2, plain 2 (HostCallTime DateTimeParse)),
      (''__arth_datetime_format'', Exactly 2, plain 2 (HostCallTime DateTimeFormat)),
      (''__arth_instant_now'', Exactly 0, plain 0 (HostCallTime InstantNow)),
      (''__arth_instant_elapsed'', Exactly 1, plain 1 (HostCallTime InstantElapsed))]"

definition sqlite_calls_1 :: "(string \<times> arg_test \<times> action list) list" where
  "sqlite_calls_1 =
     [(''__arth_sqlite_open'', Exactly 1, plain 1 (HostCallDb SqliteOpen)),
      (''__arth_sqlite_close'', Exactly 1, plain 1 (HostCallDb SqliteClose)),
      (''__arth_sqlite_prepare'', Exactly 2, plain 2 (HostCallDb SqlitePrepare)),
      (''__arth_sqlite_step'', Exactly 1, plain 1 (HostCallDb SqliteStep)),
      (''__arth_sqlite_finalize'', Exactly 1, plain 1 (HostCallDb SqliteFinalize)),
      (''__arth_sqlite_reset'', Exactly 1, plain 1 (HostCallDb SqliteReset)),
      (''__arth_sqlite_bind_int'', Exactly 3, plain 3 (HostCallDb SqliteBindInt)),
      (''__arth_sqlite_bind_int64'', Exactly 3, plain 3 (HostCallDb SqliteBindInt64)),
      (''__arth_sqlite_bind_double'', Exactly 3, plain 3 (HostCallDb SqliteBindDouble))]"

definition sqlite_calls_2 :: "(string \<times> arg_test \<times> action list) list" where
  "sqlite_calls_2 =
     [(''__arth_sqlite_bind_text'', Exactly 3, plain 3 (HostCallDb SqliteBindText)),
      (''__arth_sqlite_bind_blob'', Exactly 3, plain 3 (HostCallDb SqliteBindBlob)),
      (''__arth_sqlite_bind_null'', Exactly 2, plain 2 (HostCallDb SqliteBindNull)),
      (''__arth_sqlite_column_int'', Exactly 2, plain 2 (HostCallDb SqliteColumnInt)),
      (''__arth_sqlite_column_int64'', Exactly 2, plain 2 (HostCallDb SqliteColumnInt64)),
      (''__arth_sqlite_column_double'', Exactly 2, plain 2 (HostCallDb SqliteColumnDouble)),
      (''__arth_sqlite_column_text'', Exactly 2, plain 2 (HostCallDb SqliteColumnText)),
      (''__arth_sqlite_column_blob'', Exactly 2, plain 2 (HostCallDb SqliteColumnBlob)),
      (''__arth_sqlite_column_type'', Exactly 2, plain 2 (HostCallDb SqliteColumnType))]"

definition sqlite_calls_3 :: "(string \<times> arg_test \<times> action list) list" where
  "sqlite_calls_3 =
     [(''__arth_sqlite_column_count'', Exactly 1, plain 1 (HostCallDb SqliteColumnCount)),
      (''__arth_sqlite_column_name'', Exactly 2, plain 2 (HostCallDb SqliteColumnName)),
      (''__arth_sqlite_is_null'', Exactly 2, plain 2 (HostCallDb SqliteIsNull)),
      (''__arth_sqlite_changes'', Exactly 1, plain 1 (HostCallDb SqliteChanges)),
      (''__arth_sqlite_last_insert_rowid'', Exactly 1, plain 1 (HostCallDb SqliteLastInsertRowid)),
      (''__arth_sqlite_errmsg'', Exactly 1, plain 1 (HostCallDb SqliteErrmsg)),
      (''__arth_sqlite_begin'', Exactly 1, plain 1 (HostCallDb SqliteBegin)),
      (''__arth_sqlite_commit'', Exactly 1, plain 1 (HostCallDb SqliteCommit)),
      (''__arth_sqlite_rollback'', Exactly 1, plain 1 (HostCallDb SqliteRollback)),
      (''__arth_sqlite_savepoint'', Exactly 2, plain 2 (HostCallDb SqliteSavepoint))]"

definition sqlite_calls_4 :: "(string \<times> arg_test \<times> action list) list" where
  "sqlite_calls_4 =
     [(''__arth_sqlite_release_savepoint'', Exactly 2, plain 2 (HostCallDb SqliteReleaseSavepoint)),
      (''__arth_sqlite_rollback_to_savepoint'', Exactly 2, plain 2 (HostCallDb SqliteRollbackToSavepoint))]"

definition pg_calls_1 :: "(string \<times> arg_test \<times> action list) list" where
  "pg_calls_1 =
     [(''__arth_pg_connect'', Exactly 1, plain 1 (HostCallDb PgConnect)),
      (''__arth_pg_disconnect'', Exactly 1, plain 1 (HostCallDb PgDisconnect)),
      (''__arth_pg_status'', Exactly 1, plain 1 (HostCallDb PgStatus)),
      (''__arth_pg_query'', Exactly 2, plain 2 (HostCallDb PgQuery)),
      (''__arth_pg_execute'', Exactly 2, plain 2 (HostCallDb PgExecute)),
      (''__arth_pg_prepare'', Exactly 3, plain 3 (HostCallDb PgPrepare)),
      (''__arth_pg_execute_prepared'', Exactly 2, plain 2 (HostCallDb PgExecutePrepared)),
      (''__arth_pg_row_count'', Exactly 1, plain 1 (HostCallDb PgRowCount)),
      (''__arth_pg_column_count'', Exactly 1, plain 1 (HostCallDb PgColumnCount))]"

definition pg_calls_2 :: "(string \<times> arg_test \<times> action list) list" where
  "pg_calls_2 =
     [(''__arth_pg_column_name'', Exactly 2, plain 2 (HostCallDb PgColumnName)),
      (''__arth_pg_column_type'', Exactly 2, plain 2 (HostCallDb PgColumnType)),
      (''__arth_pg_get_value'', Exactly 3, plain 3 (HostCallDb PgGetValue)),
      (''__arth_pg_get_int'', Exactly 3, plain 3 (HostCallDb PgGetInt)),
      (''__arth_pg_get_int64'', Exactly 3, plain 3 (HostCallDb PgGetInt64)),
      (''__arth_pg_get_double'', Exactly 3, plain 3 (HostCallDb PgGetDouble)),
      (''__arth_pg_get_text'', Exactly 3, plain 3 (HostCallDb PgGetText)),
      (''__arth_pg_get_bytes'', Exactly 3, plain 3 (HostCallDb PgGetBytes)),
      (''__arth_pg_get_bool'', Exactly 3, plain 3 (HostCallDb PgGetBool))]"

definition pg_calls_3 :: "(string \<times> arg_test \<times> action list) list" where
  "pg_calls_3 =
     [(''__arth_pg_is_null'', Exactly 3, plain 3 (HostCallDb PgIsNull)),
      (''__arth_pg_affected_rows'', Exactly 1, plain 1 (HostCallDb PgAffectedRows)),
      (''__arth_pg_begin'', Exactly 1, plain 1 (HostCallDb PgBegin)),
      (''__arth_pg_commit'', Exactly 1, plain 1 (HostCallDb PgCommit)),
      (''__arth_pg_rollback'', Exactly 1, plain 1 (HostCallDb PgRollback)),
      (''__arth_pg_savepoint'', Exactly 2, plain 2 (HostCallDb PgSavepoint)),
      (''__arth_pg_release_savepoint'', Exactly 2, plain 2 (HostCallDb PgReleaseSavepoint)),
      (''__arth_pg_rollback_to_savepoint'', Exactly 2, plain 2 (HostCallDb PgRollbackToSavepoint)),
      (''__arth_pg_errmsg'', Exactly 1, plain 1 (HostCallDb PgErrmsg)),
      (''__arth_pg_escape'', Exactly 2, plain 2 (HostCallDb PgEscape))]"

definition pg_calls_4 :: "(string \<times> arg_test \<times> action list) list" where
  "pg_calls_4 =
     [(''__arth_pg_free_result'', Exactly 1, plain 1 (HostCallDb PgFreeResult)),
      (''__arth_pg_connect_async'', Exactly 1, plain 1 (HostCallDb PgConnectAsync)),
      (''__arth_pg_disconnect_async'', Exactly 1, plain 1 (HostCallDb PgDisconnectAsync)),
      (''__arth_pg_status_async'', Exactly 1, plain 1 (HostCallDb PgStatusAsync)),
      (''__arth_pg_query_async'', Exactly 2, plain 2 (HostCallDb PgQueryAsync)),
      (''__arth_pg_execute_async'', Exactly 2, plain 2 (HostCallDb PgExecuteAsync)),
      (''__arth_pg_prepare_async'', Exactly 3, plain 3 (HostCallDb PgPrepareAsync))]"

definition pg_calls_5 :: "(string \<times> arg_test \<times> action list) list" where
  "pg_calls_5 =
     [(''__arth_pg_execute_prepared_async'', Exactly 2, plain 2 (HostCallDb PgExecutePreparedAsync)),
      (''__arth_pg_is_ready'', Exactly 1, plain 1 (HostCallDb PgIsReady)),
      (''__arth_pg_get_async_result'', Exactly 1, plain 1 (HostCallDb PgGetAsyncResult)),
      (''__arth_pg_cancel_async'', Exactly 1, plain 1 (HostCallDb PgCancelAsync)),
      (''__arth_pg_begin_async'', Exactly 1, plain 1 (HostCallDb PgBeginAsync)),
      (''__arth_pg_commit_async'', Exactly 1, plain 1 (HostCallDb PgCommitAsync)),
      (''__arth_pg_rollback_async'', Exactly 1, plain 1 (HostCallDb PgRollbackAsync))]"

definition sqlite_calls_5 :: "(string \<times> arg_test \<times> action list) list" where
  "sqlite_calls_5 =
     [(''__arth_sqlite_pool_create'', Exactly 7, plain 7 (HostCallDb SqlitePoolCreate)),
      (''__arth_sqlite_pool_close'', Exactly 1, plain 1 (HostCallDb SqlitePoolClose)),
      (''__arth_sqlite_pool_acquire'', Exactly 1, plain 1 (HostCallDb SqlitePoolAcquire)),
      (''__arth_sqlite_pool_release'', Exactly 2, plain 2 (HostCallDb SqlitePoolRelease)),
      (''__arth_sqlite_pool_stats'', Exactly 1, plain 1 (HostCallDb SqlitePoolStats))]"

definition pg_calls_6 :: "(string \<times> arg_test \<times> action list) list" where
  "pg_calls_6 =
     [(''__arth_pg_pool_create'', Exactly 7, plain 7 (HostCallDb PgPoolCreate)),
      (''__arth_pg_pool_close'', Exactly 1, plain 1 (HostCallDb PgPoolClose)),
      (''__arth_pg_pool_acquire'', Exactly 1, plain 1 (HostCallDb PgPoolAcquire)),
      (''__arth_pg_pool_release'', Exactly 2, plain 2 (HostCallDb PgPoolRelease)),
      (''__arth_pg_pool_stats'', Exactly 1, plain 1 (HostCallDb PgPoolStats))]"

definition sqlite_calls_6 :: "(string \<times> arg_test \<times> action list) list" where
  "sqlite_calls_6 =
     [(''__arth_sqlite_tx_scope_begin'', Exactly 1, plain 1 (HostCallDb SqliteTxScopeBegin)),
      (''__arth_sqlite_tx_scope_end'', Exactly 3, plain 3 (HostCallDb SqliteTxScopeEnd)),
      (''__arth_sqlite_tx_depth'', Exactly 1, plain 1 (HostCallDb SqliteTxDepth)),
      (''__arth_sqlite_tx_active'', Exactly 1, plain 1 (HostCallDb SqliteTxActive))]"

definition pg_calls_7 :: "(string \<times> arg_test \<times> action list) list" where
  "pg_calls_7 =
     [(''__arth_pg_tx_scope_begin'', Exactly 1, plain 1 (HostCallDb PgTxScopeBegin)),
      (''__arth_pg_tx_scope_end'', Exactly 3, plain 3 (HostCallDb PgTxScopeEnd)),
      (''__arth_pg_tx_depth'', Exactly 1, plain 1 (HostCallDb PgTxDepth)),
      (''__arth_pg_tx_active'', Exactly 1, plain 1 (HostCallDb PgTxActive))]"

definition bigdecimal_calls_1 :: "(string \<times> arg_test \<times> action list) list" where
  "bigdecimal_calls_1 =
     [(''__arth_bigdecimal_new'', Exactly 1, plain 1 (OpBigDecimal BigDecimalNew)),
      (''__arth_bigdecimal_from_int'', Exactly 1, plain 1 (OpBigDecimal BigDecimalFromInt)),
      (''__arth_bigdecimal_from_float'', Exactly 1, plain 1 (OpBigDecimal BigDecimalFromFloat)),
      (''__arth_bigdecimal_add'', Exactly 2, plain 2 (OpBigDecimal BigDecimalAdd)),
      (''__arth_bigdecimal_sub'', Exactly 2, plain 2 (OpBigDecimal BigDecimalSub)),
      (''__arth_bigdecimal_mul'', Exactly 2, plain 2 (OpBigDecimal BigDecimalMul)),
      (''__arth_bigdecimal_div'', Exactly 3, plain 3 (OpBigDecimal BigDecimalDiv))]"

definition bigdecimal_calls_2 :: "(string \<times> arg_test \<times> action list) list" where
  "bigdecimal_calls_2 =
     [(''__arth_bigdecimal_rem'', Exactly 2, plain 2 (OpBigDecimal BigDecimalRem)),
      (''__arth_bigdecimal_pow'', Exactly 2, plain 2 (OpBigDecimal BigDecimalPow)),
      (''__arth_bigdecimal_negate'', Exactly 1, plain 1 (OpBigDecimal BigDecimalNegate)),
      (''__arth_bigdecimal_compare'', Exactly 2, plain 2 (OpBigDecimal BigDecimalCompare)),
      (''__arth_bigdecimal_to_string'', Exactly 1, plain 1 (OpBigDecimal BigDecimalToString)),
      (''__arth_bigdecimal_to_int'', Exactly 1, plain 1 (OpBigDecimal BigDecimalToInt)),
      (''__arth_bigdecimal_to_float'', Exactly 1, plain 1 (OpBigDecimal BigDecimalToFloat)),
      (''__arth_bigdecimal_scale'', Exactly 1, plain 1 (OpBigDecimal BigDecimalScale))]"

definition bigdecimal_calls_3 :: "(string \<times> arg_test \<times> action list) list" where
  "bigdecimal_calls_3 =
     [(''__arth_bigdecimal_set_scale'', Exactly 3, plain 3 (OpBigDecimal BigDecimalSetScale)),
      (''__arth_bigdecimal_round'', Exactly 3, plain 3 (OpBigDecimal BigDecimalRound))]"

definition bigint_calls_1 :: "(string \<times> arg_test \<times> action list) list" where
  "bigint_calls_1 =
     [(''__arth_bigint_new'', Exactly 1, plain 1 (OpBigInt BigIntNew)),
      (''__arth_bigint_from_int'', Exactly 1, plain 1 (OpBigInt BigIntFromInt)),
      (''__arth_bigint_add'', Exactly 2, plain 2 (OpBigInt BigIntAdd)),
      (''__arth_bigint_sub'', Exactly 2, plain 2 (OpBigInt BigIntSub)),
      (''__arth_bigint_mul'', Exactly 2, plain 2 (OpBigInt BigIntMul)),
      (''__arth_bigint_div'', Exactly 2, plain 2 (OpBigInt BigIntDiv)),
      (''__arth_bigint_rem'', Exactly 2, plain 2 (OpBigInt BigIntRem))]"

definition bigint_calls_2 :: "(string \<times> arg_test \<times> action list) list" where
  "bigint_calls_2 =
     [(''__arth_bigint_pow'', Exactly 2, plain 2 (OpBigInt BigIntPow)),
      (''__arth_bigint_negate'', Exactly 1, plain 1 (OpBigInt BigIntNegate)),
      (''__arth_bigint_compare'', Exactly 2, plain 2 (OpBigInt BigIntCompare)),
      (''__arth_bigint_to_string'', Exactly 1, plain 1 (OpBigInt BigIntToString)),
      (''__arth_bigint_to_int'', Exactly 1, plain 1 (OpBigInt BigIntToInt))]"

definition task_calls_2 :: "(string \<times> arg_test \<times> action list) list" where
  "task_calls_2 =
     [(''__arth_task_spawn_fn'', At_Least 2, [Spawn_Fn])]"

definition misc_calls :: "(string \<times> arg_test \<times> action list) list" where
  "misc_calls =
     [(''__arth_await'', Exactly 1, plain 1 (OpTask TaskAwait)),
      (''__arth_end_catch'', Any_Args, plain 0 (PushI64 0)),
      (''host_call'', Exactly 1, plain 1 (HostCallGeneric))]"

definition intrinsics :: "(string \<times> arg_test \<times> action list) list" where
  "intrinsics =
     concat [
       cast_calls, shared_calls, executor_calls, mpmc_calls_1, mpmc_calls_2,
       mpmc_calls_3, actor_calls_1, actor_calls_2, atomic_calls_1, atomic_calls_2,
       event_loop_calls_1, event_loop_calls_2, timer_calls_1, task_calls_1, timer_calls_2,
       tcp_calls_1, tcp_calls_2, tcp_calls_3, http_calls_1, http_calls_2,
       http_calls_3, http_calls_4, print_calls_1, math_calls, print_calls_2,
       list_calls, map_calls_1, map_calls_2, str_calls_1, str_calls_2,
       str_calls_3, opt_calls, struct_calls_1, struct_calls_2, enum_calls,
       http_calls_5, json_calls_1, struct_calls_3, json_calls_2, json_calls_3,
       log_calls, file_calls_1, file_calls_2, file_calls_3, console_calls,
       datetime_calls, sqlite_calls_1, sqlite_calls_2, sqlite_calls_3, sqlite_calls_4,
       pg_calls_1, pg_calls_2, pg_calls_3, pg_calls_4, pg_calls_5,
       sqlite_calls_5, pg_calls_6, sqlite_calls_6, pg_calls_7, bigdecimal_calls_1,
       bigdecimal_calls_2, bigdecimal_calls_3, bigint_calls_1, bigint_calls_2, task_calls_2,
       misc_calls]"

definition find_intrinsic :: "rstring \<Rightarrow> nat \<Rightarrow> action list option" where
  "find_intrinsic name n =
     map_option (snd \<circ> snd) (find (\<lambda>(s, t, _). bytes_of s = name \<and> accepts t n) intrinsics)"

end
