(* ===== verification/Emit_Insts.thy ===== *)
theory Emit_Insts
  imports Intrinsics
begin

text \<open>
  The code that \<^verbatim>\<open>compile_ir_to_program\<close> writes for each instruction, in the order of the arms of its
  match. Constants are remembered and, except for strings, also stored; a string is pushed where it
  is used.
\<close>

section \<open>Constants, arithmetic, memory\<close>

definition emit_const_i64 :: "u32 \<Rightarrow> i64 \<Rightarrow> emit \<Rightarrow> emit" where
  "emit_const_i64 r n e =
     (let e = e\<lparr>const_int := (const_int e)(r \<mapsto> n)\<rparr>; (dst, e) = ensure_local_for r e
      in put [PushI64 n, LocalSet dst] e)"

definition emit_const_str :: "emit_env \<Rightarrow> u32 \<Rightarrow> u32 \<Rightarrow> emit \<Rightarrow> emit" where
  "emit_const_str env r ix e =
     (let s = if unat ix < length (module_pool env) then module_pool env ! unat ix else []
      in e\<lparr>const_str := (const_str e)(r \<mapsto> s)\<rparr>)"

definition emit_const_f64 :: "u32 \<Rightarrow> f64 \<Rightarrow> emit \<Rightarrow> emit" where
  "emit_const_f64 r x e =
     (let e = e\<lparr>const_f64 := (const_f64 e)(r \<mapsto> x)\<rparr>; (dst, e) = ensure_local_for r e
      in put [PushF64 x, LocalSet dst] e)"

definition copy_const :: "(u32 \<rightharpoonup> 'a) \<Rightarrow> u32 \<Rightarrow> u32 \<Rightarrow> (u32 \<rightharpoonup> 'a)" where
  "copy_const m r v = (case m v of Some x \<Rightarrow> m(r \<mapsto> x) | None \<Rightarrow> m)"

definition emit_copy :: "u32 \<Rightarrow> u32 \<Rightarrow> emit \<Rightarrow> emit" where
  "emit_copy r v e =
     (let (dst, e) = ensure_local_for r e; e = put [LocalSet dst] (push_value v e)
      in e\<lparr>const_int := copy_const (const_int e) r v, const_str := copy_const (const_str e) r v,
           const_f64 := copy_const (const_f64 e) r v\<rparr>)"

definition bin_code :: "bin_op \<Rightarrow> arith_op" where
  "bin_code bop =
     (case bop of
        Bin_Add \<Rightarrow> AddI64 | Bin_Sub \<Rightarrow> SubI64 | Bin_Mul \<Rightarrow> MulI64 | Bin_Div \<Rightarrow> DivI64 | Bin_Mod \<Rightarrow> ModI64
      | Bin_Shl \<Rightarrow> ShlI64 | Bin_Shr \<Rightarrow> ShrI64 | Bin_And \<Rightarrow> AndI64 | Bin_Or \<Rightarrow> OrI64 | Bin_Xor \<Rightarrow> XorI64)"

text \<open>Two operands, some instructions, and the result.\<close>

definition emit_two :: "u32 \<Rightarrow> u32 \<Rightarrow> u32 \<Rightarrow> op list \<Rightarrow> emit \<Rightarrow> emit" where
  "emit_two r a b ops e =
     (let (dst, e) = ensure_local_for r e in put (ops @ [LocalSet dst]) (push_value b (push_value a e)))"

definition emit_binary :: "u32 \<Rightarrow> bin_op \<Rightarrow> u32 \<Rightarrow> u32 \<Rightarrow> emit \<Rightarrow> emit" where
  "emit_binary r bop a b = emit_two r a b [OpArith (bin_code bop)]"

text \<open>The order of the operands and the instructions of a comparison.\<close>

definition cmp_code :: "cmp_pred \<Rightarrow> bool \<times> op list" where
  "cmp_code pred =
     (case pred of
        Cmp_Eq \<Rightarrow> (False, [OpArith EqI64])
      | Cmp_Lt \<Rightarrow> (False, [OpArith LtI64])
      | Cmp_Gt \<Rightarrow> (True, [OpArith LtI64])
      | Cmp_Le \<Rightarrow> (True, [OpArith LtI64, PushBool 0, OpArith EqI64])
      | Cmp_Ge \<Rightarrow> (False, [OpArith LtI64, PushBool 0, OpArith EqI64])
      | Cmp_Ne \<Rightarrow> (False, [OpArith EqI64, PushBool 0, OpArith EqI64]))"

definition emit_cmp :: "u32 \<Rightarrow> cmp_pred \<Rightarrow> u32 \<Rightarrow> u32 \<Rightarrow> emit \<Rightarrow> emit" where
  "emit_cmp r pred a b =
     (let (swap, ops) = cmp_code pred in if swap then emit_two r b a ops else emit_two r a b ops)"

definition emit_alloca :: "u32 \<Rightarrow> emit \<Rightarrow> emit" where
  "emit_alloca r e =
     e\<lparr>next_local := next_local e + 1, alloca_slot := (alloca_slot e)(r \<mapsto> next_local e)\<rparr>"

definition emit_load :: "u32 \<Rightarrow> u32 \<Rightarrow> emit \<Rightarrow> emit" where
  "emit_load r p e =
     (case alloca_slot e p of
        None \<Rightarrow> e
      | Some slot \<Rightarrow> let (dst, e) = ensure_local_for r e in put [LocalGet slot, LocalSet dst] e)"

definition emit_store :: "u32 \<Rightarrow> u32 \<Rightarrow> emit \<Rightarrow> emit" where
  "emit_store p v e =
     (case alloca_slot e p of None \<Rightarrow> e | Some slot \<Rightarrow> put [LocalSet slot] (push_value v e))"

section \<open>Providers\<close>

text \<open>The first field of the values with the name, value 0 if there is none.\<close>

definition init_value :: "(rstring \<times> u32) list \<Rightarrow> rstring \<Rightarrow> u32" where
  "init_value values_of n = (case map_of values_of n of Some v \<Rightarrow> v | None \<Rightarrow> 0)"

definition emit_provider_field ::
  "u32 \<Rightarrow> (rstring \<times> u32) list \<Rightarrow> nat \<times> provider_field \<Rightarrow> emit \<Rightarrow> emit"
where
  "emit_provider_field temp values_of ifd e =
     (let (i, fd) = ifd; v = init_value values_of (pf_name fd);
          e = put [LocalGet temp, PushI64 (of_nat i)] e;
          e = (if pf_is_shared fd then put [OpShared SharedNew] e else push_value v e);
          e = put [OpStruct StructSet, OpBase Pop] (put_str (pf_name fd) e)
      in if pf_is_shared fd \<and> v \<noteq> 0 then
           put [OpShared SharedStore, OpBase Pop]
             (push_value v (put [LocalGet temp, PushI64 (of_nat i), OpStruct StructGet] e))
         else e)"

definition emit_provider_new :: "emit_env \<Rightarrow> u32 \<Rightarrow> rstring \<Rightarrow> (rstring \<times> u32) list \<Rightarrow> emit \<Rightarrow> emit" where
  "emit_provider_new env r name values_of e =
     (let (dst, e) = ensure_local_for r e
      in case provider_meta env name of
           None \<Rightarrow> e
         | Some prov \<Rightarrow>
             let e = put_str name e;
                 e = put [PushI64 (of_nat (length (provider_fields prov))), OpStruct StructNew] e;
                 temp = next_local e;
                 e = put [LocalSet temp] (e\<lparr>next_local := next_local e + 1\<rparr>);
                 e = fold (emit_provider_field temp values_of) (enumerate 0 (provider_fields prov)) e
             in put [LocalGet temp, LocalSet dst] e)"

definition shared_field :: "emit_env \<Rightarrow> rstring \<Rightarrow> rstring \<Rightarrow> bool" where
  "shared_field env prov fd =
     (case provider_meta env prov of
        None \<Rightarrow> False
      | Some p \<Rightarrow> (\<exists>f\<in>set (provider_fields p). pf_name f = fd \<and> pf_is_shared f))"

definition field_position :: "emit_env \<Rightarrow> rstring \<Rightarrow> rstring \<Rightarrow> nat" where
  "field_position env prov fd =
     (case provider_meta env prov of
        None \<Rightarrow> 0
      | Some p \<Rightarrow>
          let i = length (takeWhile (\<lambda>f. pf_name f \<noteq> fd) (provider_fields p))
          in if i < length (provider_fields p) then i else 0)"

text \<open>A field of the provider that value 0 stands for is a named shared cell.\<close>

definition global_field :: "rstring \<Rightarrow> rstring \<Rightarrow> rstring" where
  "global_field prov fd = (if prov = [] then fd else prov @ [dot] @ fd)"

definition emit_provider_get :: "emit_env \<Rightarrow> u32 \<Rightarrow> u32 \<Rightarrow> rstring \<Rightarrow> rstring \<Rightarrow> emit \<Rightarrow> emit" where
  "emit_provider_get env r obj prov fd e =
     (let (dst, e) = ensure_local_for r e;
          e = (if obj = 0 then
                 let (ix, e) = str_index (global_field prov fd) e
                 in put [SharedGetByName ix, OpShared SharedLoad] e
               else
                 let e = put [OpStruct StructGetNamed] (put_str fd (push_value obj e))
                 in if shared_field env prov fd then put [OpShared SharedLoad] e else e)
      in put [LocalSet dst] e)"

definition emit_provider_set :: "emit_env \<Rightarrow> u32 \<Rightarrow> rstring \<Rightarrow> rstring \<Rightarrow> u32 \<Rightarrow> emit \<Rightarrow> emit" where
  "emit_provider_set env obj prov fd v e =
     (if obj = 0 then
        let (ix, e) = str_index (global_field prov fd) e
        in put [OpShared SharedStore, OpBase Pop] (push_value v (put [SharedGetByName ix] e))
      else if shared_field env prov fd then
        put [OpShared SharedStore, OpBase Pop]
          (push_value v (put [OpStruct StructGetNamed] (put_str fd (push_value obj e))))
      else
        put [OpStruct StructSet, OpBase Pop]
          (put_str fd (push_value v (put [PushI64 (of_nat (field_position env prov fd))] (push_value obj e)))))"

section \<open>Calls and closures\<close>

definition emit_generic_call :: "emit_env \<Rightarrow> u32 \<Rightarrow> rstring \<Rightarrow> u32 list \<Rightarrow> emit \<Rightarrow> emit" where
  "emit_generic_call env r name args e =
     (let callee = (case qualified_name env name of Some q \<Rightarrow> q | None \<Rightarrow> name)
      in set_result r (add_call (Call 0) callee (push_values args e)))"

definition emit_call :: "emit_env \<Rightarrow> u32 \<Rightarrow> rstring \<Rightarrow> u32 list \<Rightarrow> emit \<Rightarrow> emit" where
  "emit_call env r name args e =
     (let (dst, e) = ensure_local_for r e
      in case find_intrinsic name (length args) of
           Some acts \<Rightarrow> fold (do_action dst args) acts e
         | None \<Rightarrow> emit_generic_call env r name args e)"

definition capture :: "u32 \<Rightarrow> u32 \<Rightarrow> emit \<Rightarrow> emit" where
  "capture h v e = put [LocalGet h, ClosureCapture, OpBase Pop] (push_value v e)"

definition emit_make_closure :: "u32 \<Rightarrow> rstring \<Rightarrow> u32 list \<Rightarrow> emit \<Rightarrow> emit" where
  "emit_make_closure r f captures e =
     (let e = (put [ClosureNew 0 (of_nat (length captures))] e)
                 \<lparr>closure_patches := closure_patches e @ [(length (out_code e), f)]\<rparr>;
          (dst, e) = ensure_local_for r e
      in fold (capture dst) captures (put [LocalSet dst] e))"

definition emit_closure_call :: "u32 \<Rightarrow> u32 \<Rightarrow> u32 list \<Rightarrow> emit \<Rightarrow> emit" where
  "emit_closure_call r closure args e =
     (let (dst, e) = ensure_local_for r e
      in put [ClosureCall (of_nat (length args)), LocalSet dst] (push_value closure (push_values args e)))"

definition float_mask :: "ty list \<Rightarrow> u32" where
  "float_mask ps = fold (\<lambda>(i, t) m. if t = Ty_F64 then m OR push_bit (i mod 32) 1 else m) (enumerate 0 ps) 0"

definition ret_kind :: "ty \<Rightarrow> u8" where
  "ret_kind t = (case t of Ty_F64 \<Rightarrow> 1 | Ty_Void \<Rightarrow> 2 | _ \<Rightarrow> 0)"

definition emit_extern_call :: "u32 \<Rightarrow> rstring \<Rightarrow> u32 list \<Rightarrow> ty list \<Rightarrow> ty \<Rightarrow> emit \<Rightarrow> emit" where
  "emit_extern_call r name args ps ret e =
     (let e = push_values args e; (sym, e) = str_index name e
      in set_result r (put [ExternCall sym (of_nat (min (length ps) 255)) (float_mask ps) (ret_kind ret)] e))"

section \<open>Drops, reference counts, regions\<close>

definition emit_drop :: "u32 \<Rightarrow> u32 \<Rightarrow> rstring \<Rightarrow> emit \<Rightarrow> emit" where
  "emit_drop r v ty e = set_zero r (add_call (Call 0) (deinit_name ty) (push_value v e))"

text \<open>The jump over the drop gets the distance to its end as its target.\<close>

definition emit_cond_drop :: "u32 \<Rightarrow> u32 \<Rightarrow> u32 \<Rightarrow> rstring \<Rightarrow> emit \<Rightarrow> emit" where
  "emit_cond_drop r v flag ty e =
     (let e = put [PushI64 0, OpArith EqI64] (push_value flag e);
          jump_pos = length (out_code e);
          e = add_call (Call 0) (deinit_name ty) (push_value v (put [JumpIfFalse 0] e));
          end_pos = length (out_code e);
          e = e\<lparr>out_code := (out_code e)[jump_pos := JumpIfFalse (of_nat (end_pos - jump_pos))]\<rparr>
      in set_zero r e)"

definition emit_field_drop :: "u32 \<Rightarrow> u32 \<Rightarrow> rstring \<Rightarrow> emit \<Rightarrow> emit" where
  "emit_field_drop r v ty e =
     set_zero r (put [OpBase Pop] (add_call (Call 0) (field_deinit_name ty) (push_value v e)))"

text \<open>One operand, an instruction, and the result.\<close>

definition emit_one :: "u32 \<Rightarrow> u32 \<Rightarrow> op \<Rightarrow> emit \<Rightarrow> emit" where
  "emit_one r v x e = set_result r (put [x] (push_value v e))"

definition emit_rc_dec :: "u32 \<Rightarrow> u32 \<Rightarrow> rstring option \<Rightarrow> emit \<Rightarrow> emit" where
  "emit_rc_dec r h ty e =
     (let e = push_value h e
      in set_result r
           (case ty of
              Some t \<Rightarrow> add_call (RcDecWithDeinit 0) (deinit_name t) e
            | None \<Rightarrow> put [OpRc RcDec] e))"

definition emit_rc_store :: "u32 \<Rightarrow> u32 \<Rightarrow> u32 \<Rightarrow> emit \<Rightarrow> emit" where
  "emit_rc_store r h v e = set_result r (put [OpRc RcStore] (push_value v (push_value h e)))"

definition region_deinit :: "u32 \<times> rstring \<Rightarrow> emit \<Rightarrow> emit" where
  "region_deinit d e =
     put [OpBase Pop] (add_call (Call 0) (deinit_name (snd d)) (push_value (fst d) e))"

definition emit_region_exit :: "u32 \<Rightarrow> u32 \<Rightarrow> (u32 \<times> rstring) list \<Rightarrow> emit \<Rightarrow> emit" where
  "emit_region_exit r rid deinits e = set_zero r (put [RegionExit rid] (fold region_deinit deinits e))"

section \<open>All instructions\<close>

definition emit_inst :: "emit_env \<Rightarrow> inst \<Rightarrow> emit \<Rightarrow> emit" where
  "emit_inst env i =
     (let r = result i
      in case kind i of
           IConstI64 n \<Rightarrow> emit_const_i64 r n
         | IConstStr ix \<Rightarrow> emit_const_str env r ix
         | IConstF64 x \<Rightarrow> emit_const_f64 r x
         | ICopy v \<Rightarrow> emit_copy r v
         | IBinary bop a b \<Rightarrow> emit_binary r bop a b
         | ICmp pred a b \<Rightarrow> emit_cmp r pred a b
         | IStrEq a b \<Rightarrow> emit_two r a b [OpArith EqStr]
         | IStrConcat a b \<Rightarrow> emit_two r a b [OpArith ConcatStr]
         | IAlloca \<Rightarrow> emit_alloca r
         | ILoad p \<Rightarrow> emit_load r p
         | IStore p v \<Rightarrow> emit_store p v
         | IProviderNew name vs \<Rightarrow> emit_provider_new env r name vs
         | IProviderFieldGet obj prov fd \<Rightarrow> emit_provider_get env r obj prov fd
         | IProviderFieldSet obj prov fd v \<Rightarrow> emit_provider_set env obj prov fd v
         | ICall name args _ \<Rightarrow> emit_call env r name args
         | ILandingPad _ _ \<Rightarrow> (\<lambda>e. let (dst, e) = ensure_local_for r e in put [OpUnwind GetException, LocalSet dst] e)
         | ISetUnwindHandler bb \<Rightarrow> add_jump (SetUnwindHandler 0) bb
         | IClearUnwindHandler \<Rightarrow> put [OpUnwind ClearUnwindHandler]
         | IPhi _ \<Rightarrow> id
         | IMakeClosure f captures \<Rightarrow> emit_make_closure r f captures
         | IClosureCall closure args _ \<Rightarrow> emit_closure_call r closure args
         | IDrop v ty \<Rightarrow> emit_drop r v ty
         | ICondDrop v flag ty \<Rightarrow> emit_cond_drop r v flag ty
         | IFieldDrop v _ ty \<Rightarrow> emit_field_drop r v ty
         | IRcAlloc v \<Rightarrow> emit_one r v (OpRc RcAlloc)
         | IRcInc h \<Rightarrow> emit_one r h (OpRc RcInc)
         | IRcDec h ty \<Rightarrow> emit_rc_dec r h ty
         | IRcLoad h \<Rightarrow> emit_one r h (OpRc RcLoad)
         | IRcStore h v \<Rightarrow> emit_rc_store r h v
         | IRcGetCount h \<Rightarrow> emit_one r h (OpRc RcGetCount)
         | IRegionEnter rid \<Rightarrow> (\<lambda>e. set_zero r (put [RegionEnter rid] e))
         | IRegionExit rid deinits \<Rightarrow> emit_region_exit r rid deinits
         | IGetTypeName v \<Rightarrow> emit_one r v (OpStruct StructTypeName)
         | IExternCall name args ps ret \<Rightarrow> emit_extern_call r name args ps ret
         | _ \<Rightarrow> set_zero r)"

end
