(* ===== verification/Ir_Vm.thy ===== *)
theory Ir_Vm
  imports Ir_Run Emit_Insts Interp_Values
begin

text \<open>
  The meaning that the virtual machine gives to the instructions of the intermediate representation
  that compute on values: constants, copies, arithmetic, comparisons, strings, and the stack cells of
  a function, which are the world of this semantics. It has no result where the machine stops.
\<close>

type_synonym cells = "ir_value \<rightharpoonup> vm_value"

definition bin_values :: "rust_std \<Rightarrow> bin_op \<Rightarrow> vm_value \<Rightarrow> vm_value \<Rightarrow> vm_value option" where
  "bin_values fl bop va vb =
     (case bop of
        Bin_Add \<Rightarrow> Some (add_values fl va vb)
      | Bin_Sub \<Rightarrow> Some (sub_values fl va vb)
      | Bin_Mul \<Rightarrow> Some (mul_values fl va vb)
      | Bin_Div \<Rightarrow> div_values fl va vb
      | Bin_Mod \<Rightarrow> mod_values fl va vb
      | _ \<Rightarrow> (case (va, vb) of (I64 a, I64 b) \<Rightarrow> Some (I64 (bit_values (bin_code bop) a b)) | _ \<Rightarrow> None))"

text \<open>The negated comparisons compare the outcome with false.\<close>

definition cmp_values :: "rust_std \<Rightarrow> cmp_pred \<Rightarrow> vm_value \<Rightarrow> vm_value \<Rightarrow> bool option" where
  "cmp_values fl pred va vb =
     (case pred of
        Cmp_Eq \<Rightarrow> eq_values fl va vb
      | Cmp_Ne \<Rightarrow> map_option Not (eq_values fl va vb)
      | Cmp_Lt \<Rightarrow> lt_values fl va vb
      | Cmp_Gt \<Rightarrow> lt_values fl vb va
      | Cmp_Le \<Rightarrow> map_option Not (lt_values fl vb va)
      | Cmp_Ge \<Rightarrow> map_option Not (lt_values fl va vb))"

definition pool_text :: "rstring list \<Rightarrow> u32 \<Rightarrow> rstring" where
  "pool_text pool ix = (if unat ix < length pool then pool ! unat ix else [])"

text \<open>
  A cell and a store have the value 0, which is what the code generator pushes for a value that has
  neither a local nor a constant.
\<close>

definition core_sem :: "rust_std \<Rightarrow> rstring list \<Rightarrow> (vm_value, cells) inst_sem" where
  "core_sem fl pool k vs w =
     (case k of
        IConstI64 n \<Rightarrow> Some (I64 n, w)
      | IConstF64 x \<Rightarrow> Some (F64 x, w)
      | IConstStr ix \<Rightarrow> Some (Str (pool_text pool ix), w)
      | ICopy _ \<Rightarrow> (case vs of [x] \<Rightarrow> Some (x, w) | _ \<Rightarrow> None)
      | IBinary bop _ _ \<Rightarrow> (case vs of [x, y] \<Rightarrow> map_option (\<lambda>v. (v, w)) (bin_values fl bop x y) | _ \<Rightarrow> None)
      | ICmp pred _ _ \<Rightarrow>
          (case vs of [x, y] \<Rightarrow> map_option (\<lambda>b. (Bool b, w)) (cmp_values fl pred x y) | _ \<Rightarrow> None)
      | IStrEq _ _ \<Rightarrow> (case vs of [x, y] \<Rightarrow> Some (Bool (eq_str_values x y), w) | _ \<Rightarrow> None)
      | IStrConcat _ _ \<Rightarrow>
          (case vs of [x, y] \<Rightarrow> Some (Str (value_to_string fl x @ value_to_string fl y), w) | _ \<Rightarrow> None)
      | IAlloca \<Rightarrow> Some (I64 0, w)
      | ILoad p \<Rightarrow> map_option (\<lambda>x. (x, w)) (w p)
      | IStore p _ \<Rightarrow> (case vs of [_, x] \<Rightarrow> Some (I64 0, w(p \<mapsto> x)) | _ \<Rightarrow> None)
      | _ \<Rightarrow> None)"

text \<open>A switch takes the first case whose constant the machine finds equal.\<close>

fun switch_target :: "rust_std \<Rightarrow> vm_value \<Rightarrow> (i64 \<times> block_id) list \<Rightarrow> block_id \<Rightarrow> block_id option" where
  "switch_target fl v [] dflt = Some dflt"
| "switch_target fl v ((n, bb) # cs) dflt =
     (case eq_values fl v (I64 n) of
        None \<Rightarrow> None
      | Some True \<Rightarrow> Some bb
      | Some False \<Rightarrow> switch_target fl v cs dflt)"

definition core_tsem :: "rust_std \<Rightarrow> (vm_value, cells) term_sem" where
  "core_tsem fl t vs w =
     (case t of
        TRet None \<Rightarrow> Some (Leave None w)
      | TRet (Some _) \<Rightarrow> (case vs of [x] \<Rightarrow> Some (Leave (Some x) w) | _ \<Rightarrow> None)
      | TBr bb \<Rightarrow> Some (Jump_To bb None w)
      | TCondBr _ then_bb else_bb \<Rightarrow>
          (case vs of [Bool b] \<Rightarrow> Some (Jump_To (if b then then_bb else else_bb) None w) | _ \<Rightarrow> None)
      | TSwitch _ dflt cases \<Rightarrow>
          (case vs of [x] \<Rightarrow> map_option (\<lambda>bb. Jump_To bb None w) (switch_target fl x cases dflt) | _ \<Rightarrow> None)
      | _ \<Rightarrow> None)"

lemma core_sem_quiet: "quiet (core_sem fl pool)"
proof -
  have "w' = w" if "side_effect_free k" "core_sem fl pool k vs w = Some (x, w')" for k vs w x w'
    using that by (cases k) (auto simp: core_sem_def split: list.splits)
  then show ?thesis unfolding quiet_def by blast
qed

end
