(* ===== verification/Emit_Program.thy ===== *)
theory Emit_Program
  imports Emit_Insts
begin

text \<open>
  Terminators, functions and whole programs of \<^verbatim>\<open>compile_ir_to_program\<close>: the code of a function's
  blocks in order, its jumps patched to the offsets of their blocks, and at the end the calls patched
  to the offsets of their functions or turned into calls by symbol.
\<close>

section \<open>Terminators\<close>

definition jump_to :: "phi_info \<Rightarrow> u32 \<Rightarrow> u32 \<Rightarrow> emit \<Rightarrow> emit" where
  "jump_to info bi bb e = add_jump (Jump 0) bb (emit_phi_assignments info bi bb e)"

text \<open>Writes a jump that is taken when the top of the stack is false behind the code for the other case.\<close>

definition unless_jump :: "(emit \<Rightarrow> emit) \<Rightarrow> emit \<Rightarrow> emit" where
  "unless_jump body e =
     (let e1 = body (put [JumpIfFalse 0] e)
      in e1\<lparr>out_code := (out_code e1)[length (out_code e) := JumpIfFalse (of_nat (length (out_code e1)))]\<rparr>)"

definition emit_cond_br :: "phi_info \<Rightarrow> u32 \<Rightarrow> u32 \<Rightarrow> u32 \<Rightarrow> u32 \<Rightarrow> emit \<Rightarrow> emit" where
  "emit_cond_br info bi c then_bb else_bb e =
     jump_to info bi else_bb (unless_jump (jump_to info bi then_bb) (push_value c e))"

definition emit_case :: "phi_info \<Rightarrow> u32 \<Rightarrow> u32 \<Rightarrow> i64 \<times> u32 \<Rightarrow> emit \<Rightarrow> emit" where
  "emit_case info bi scrut c e =
     unless_jump (jump_to info bi (snd c)) (put [PushI64 (fst c), OpArith EqI64] (push_value scrut e))"

definition emit_switch :: "phi_info \<Rightarrow> u32 \<Rightarrow> u32 \<Rightarrow> u32 \<Rightarrow> (i64 \<times> u32) list \<Rightarrow> emit \<Rightarrow> emit" where
  "emit_switch info bi scrut dflt cases e = jump_to info bi dflt (fold (emit_case info bi scrut) cases e)"

definition panic_message :: "u32 option \<Rightarrow> emit \<Rightarrow> rstring" where
  "panic_message m e =
     (case Option.bind m (const_str e) of Some s \<Rightarrow> s | None \<Rightarrow> bytes_of ''panic'')"

text \<open>A function that is not in the module is not called at all.\<close>

definition emit_invoke :: "emit_env \<Rightarrow> rstring \<Rightarrow> u32 list \<Rightarrow> u32 option \<Rightarrow> u32 \<Rightarrow> emit \<Rightarrow> emit" where
  "emit_invoke env callee args res normal e =
     add_jump (Jump 0) normal
       (case qualified_name env callee of
          Some f \<Rightarrow>
            let e = add_call (Call 0) f (push_values args e)
            in (case res of Some r \<Rightarrow> set_result r e | None \<Rightarrow> put [OpBase Pop] e)
        | None \<Rightarrow> (case res of Some r \<Rightarrow> set_result r (put [PushI64 0] e) | None \<Rightarrow> e))"

definition emit_term :: "emit_env \<Rightarrow> phi_info \<Rightarrow> u32 \<Rightarrow> terminator \<Rightarrow> emit \<Rightarrow> emit" where
  "emit_term env info bi t e =
     (case t of
        TRet v \<Rightarrow> put [OpBase Ret] (case v of Some x \<Rightarrow> push_value x e | None \<Rightarrow> e)
      | TBr bb \<Rightarrow> jump_to info bi bb e
      | TCondBr c then_bb else_bb \<Rightarrow> emit_cond_br info bi c then_bb else_bb e
      | TSwitch scrut dflt cases \<Rightarrow> emit_switch info bi scrut dflt cases e
      | TUnreachable \<Rightarrow> e
      | TThrow v \<Rightarrow> put [OpUnwind Throw] (case v of Some x \<Rightarrow> push_value x e | None \<Rightarrow> put [PushI64 0] e)
      | TPanic m \<Rightarrow> let (ix, e) = str_index (panic_message m e) e in put [Panic ix] e
      | TInvoke callee args _ res normal _ \<Rightarrow> emit_invoke env callee args res normal e
      | TPollReturn _ _ \<Rightarrow> put [OpBase Ret] e)"

section \<open>Functions\<close>

definition emit_block :: "emit_env \<Rightarrow> phi_info \<Rightarrow> nat \<times> block_data \<Rightarrow> emit \<Rightarrow> emit" where
  "emit_block env info ib e =
     emit_term env info (of_nat (fst ib)) (block_term (snd ib)) (fold (emit_inst env) (insts (snd ib)) e)"

text \<open>The blocks in order, with the offset at which each starts.\<close>

fun emit_blocks ::
  "emit_env \<Rightarrow> phi_info \<Rightarrow> (nat \<times> block_data) list \<Rightarrow> emit \<Rightarrow> u32 list \<times> emit"
where
  "emit_blocks env info [] e = ([], e)"
| "emit_blocks env info (b # bs) e =
     (let (offs, e') = emit_blocks env info bs (emit_block env info b e)
      in (of_nat (length (out_code e)) # offs, e'))"

definition retarget :: "u32 \<Rightarrow> op \<Rightarrow> op" where
  "retarget t x =
     (case x of
        Jump _ \<Rightarrow> Jump t | JumpIfFalse _ \<Rightarrow> JumpIfFalse t | SetUnwindHandler _ \<Rightarrow> SetUnwindHandler t
      | _ \<Rightarrow> x)"

definition patch_jump :: "u32 list \<Rightarrow> nat \<times> u32 \<Rightarrow> op list \<Rightarrow> op list" where
  "patch_jump offs p ops =
     (if unat (snd p) < length offs then ops[fst p := retarget (offs ! unat (snd p)) (ops ! fst p)] else ops)"

text \<open>The tables of one function: arguments are popped into the first locals, phis get the next.\<close>

definition start_func :: "func \<Rightarrow> emit \<Rightarrow> emit" where
  "start_func f e =
     (let argc = length (params f);
          e = put (map (\<lambda>i. LocalSet (of_nat i)) (rev [0..<argc]))
                (e\<lparr>const_int := Map.empty, const_str := Map.empty, const_f64 := Map.empty,
                   val_local := map_of (map (\<lambda>i. (of_nat i, of_nat i)) [0..<argc]),
                   alloca_slot := Map.empty, next_local := of_nat argc, patch_jumps := []\<rparr>)
      in fold (\<lambda>phi e. snd (ensure_local_for (fst phi) e)) (concat (collect_phis (blocks f))) e)"

definition emit_func :: "emit_env \<Rightarrow> func \<Rightarrow> emit \<Rightarrow> emit" where
  "emit_func env f e =
     (let (offs, e) = emit_blocks env (collect_phis (blocks f)) (enumerate 0 (blocks f)) (start_func f e)
      in e\<lparr>out_code := fold (patch_jump offs) (patch_jumps e) (out_code e)\<rparr>)"

definition func_debug :: "func \<Rightarrow> nat \<Rightarrow> debug_entry" where
  "func_debug f off =
     (case func_span f of
        Some sp \<Rightarrow> debug_entry_with_location (of_nat off) (func_name f) (span_file sp) 0
      | None \<Rightarrow> debug_entry_new (of_nat off) (func_name f))"

fun emit_funcs :: "emit_env \<Rightarrow> func list \<Rightarrow> emit \<Rightarrow> (rstring \<times> u32) list \<times> debug_entry list \<times> emit" where
  "emit_funcs env [] e = ([], [], e)"
| "emit_funcs env (f # fs) e =
     (let off = length (out_code e); (offs, dbg, e') = emit_funcs env fs (emit_func env f e)
      in ((func_name f, of_nat off) # offs, func_debug f off # dbg, e'))"

section \<open>Programs\<close>

text \<open>The offset of the last function of a name.\<close>

definition func_offset :: "(rstring \<times> u32) list \<Rightarrow> rstring \<Rightarrow> u32 option" where
  "func_offset offs = map_of (rev offs)"

text \<open>A patched instruction that is neither a call nor a task body keeps its operand.\<close>

definition patch_call :: "(rstring \<times> u32) list \<Rightarrow> nat \<times> rstring \<Rightarrow> emit \<Rightarrow> emit" where
  "patch_call offs p e =
     (case func_offset offs (snd p) of
        Some off \<Rightarrow>
          e\<lparr>out_code := (out_code e)[fst p :=
             (case out_code e ! fst p of
                Call _ \<Rightarrow> Call off | TaskRunBody _ \<Rightarrow> TaskRunBody off | x \<Rightarrow> x)]\<rparr>
      | None \<Rightarrow>
          let (ix, e) = str_index (snd p) e
          in e\<lparr>out_code := (out_code e)[fst p := CallSymbol ix]\<rparr>)"

definition patch_closure :: "(rstring \<times> u32) list \<Rightarrow> nat \<times> rstring \<Rightarrow> emit \<Rightarrow> emit" where
  "patch_closure offs p e =
     (case (func_offset offs (snd p), out_code e ! fst p) of
        (Some off, ClosureNew _ n) \<Rightarrow> e\<lparr>out_code := (out_code e)[fst p := ClosureNew off n]\<rparr>
      | _ \<Rightarrow> e)"

definition async_suffix :: rstring where
  "async_suffix = bytes_of ''$async_body''"

definition async_bodies :: "func list \<Rightarrow> i64 \<rightharpoonup> rstring" where
  "async_bodies fs =
     map_of (rev (map (\<lambda>f. (compute_string_hash
         (case first_dot (func_name f) of Some p \<Rightarrow> drop (p + 1) (func_name f) | None \<Rightarrow> func_name f), func_name f))
       (filter (\<lambda>f. ends_with (func_name f) async_suffix) fs)))"

definition async_table :: "i64 list \<Rightarrow> func list \<Rightarrow> (rstring \<times> u32) list \<Rightarrow> (i64 \<times> u32) list" where
  "async_table order fs offs =
     List.map_filter (\<lambda>h. map_option (Pair h) (Option.bind (async_bodies fs h) (func_offset offs))) order"

definition empty_emit :: emit where
  "empty_emit =
     \<lparr>out_strings = [], out_code = [], const_int = Map.empty, const_str = Map.empty, const_f64 = Map.empty,
      val_local = Map.empty, alloca_slot = Map.empty, next_local = 0, patch_jumps = [], call_patches = [],
      closure_patches = []\<rparr>"

definition provider_table :: "provider list \<Rightarrow> rstring \<rightharpoonup> provider" where
  "provider_table ps = map_of (rev (map (\<lambda>p. (provider_name p, p)) ps))"

text \<open>
  The first argument is the order in which the hash set of function names is iterated, the second
  that of the hash map of asynchronous bodies.
\<close>

definition compile_ir_to_program ::
  "rstring list \<Rightarrow> i64 list \<Rightarrow> func list \<Rightarrow> rstring list \<Rightarrow> provider list \<Rightarrow> program"
where
  "compile_ir_to_program names bodies fs strs ps =
     (if fs = [] then program_new [] [OpBase Halt]
      else
        let env = \<lparr>module_pool = strs, provider_meta = provider_table ps, func_names = names\<rparr>;
            (offs, dbg, e) = emit_funcs env fs empty_emit;
            e = fold (patch_call offs) (call_patches e) e;
            e = fold (patch_closure offs) (closure_patches e) e
        in program_with_debug_info (out_strings e) (out_code e @ [OpBase Halt]) (async_table bodies fs offs) dbg)"

definition compile_ir_to_program_with_offsets ::
  "rstring list \<Rightarrow> i64 list \<Rightarrow> func list \<Rightarrow> rstring list \<Rightarrow> provider list \<Rightarrow> program \<times> (rstring \<rightharpoonup> u32)"
where
  "compile_ir_to_program_with_offsets names bodies fs strs ps =
     (let p = compile_ir_to_program names bodies fs strs ps
      in (p, map_of (rev (map (\<lambda>d. (function_name d, entry_offset d)) (debug_entries p)))))"

end
