(* ===== verification/Opt_Props.thy ===== *)
theory Opt_Props
  imports Opt_Correct Ir_Vm Emit_Program Samples
begin

text \<open>
  Folding against the machine: on integers it computes what the compiled instructions compute, except
  where those panic; and a folded comparison has a type that the compiled branches do not take.
\<close>

section \<open>Arithmetic\<close>

lemma shift_amount_eq: "shift_by b = shift_amount b"
  by (simp add: shift_by_def shift_amount_def)

lemma eval_bin_values:
  "eval_bin bop a b = Some c \<Longrightarrow> \<not> (b = 0 \<and> bop \<in> {Bin_Div, Bin_Mod}) \<Longrightarrow>
   bin_values fl bop (I64 a) (I64 b) = Some (I64 c)"
  by (cases bop)
    (auto simp: eval_bin_def bin_values_def add_values_def sub_values_def mul_values_def div_values_def
      mod_values_def bit_values_def bin_code_def shift_amount_eq split: if_splits)

text \<open>
  C35: what folding computes for two constants is what the instruction that the code generator emits
  for the operation leaves on the stack of the machine, unless it divides by zero.
\<close>

theorem folding_matches_machine:
  assumes "eval_bin bop a b = Some c" and "\<not> (b = 0 \<and> bop \<in> {Bin_Div, Bin_Mod})"
    and "stack s = I64 b # I64 a # st"
  shows "exec_arith fl (bin_code bop) s = Next (s\<lparr>stack := I64 c # st, ip := ip s + 1\<rparr>)"
  using eval_bin_values [OF assms(1,2), of fl] assms(3)
  by (cases bop)
    (auto simp: bin_values_def exec_arith_def bin_code_def pop2_def pop1_def pop_i64_def advance_with_def)

lemma folding_matches_machine_witness:
  "exec_arith sample_std SubI64 (idle_vm\<lparr>stack := [I64 2, I64 7]\<rparr>) =
     Next (idle_vm\<lparr>stack := [I64 5], ip := 1\<rparr>)"
  using folding_matches_machine [of Bin_Sub 7 2 5 "idle_vm\<lparr>stack := [I64 2, I64 7]\<rparr>" "[]" sample_std]
  by (simp add: eval_bin_def bin_code_def idle_vm_def)

section \<open>What folding changes\<close>

definition entry_only :: "inst_kind list \<Rightarrow> terminator \<Rightarrow> func" where
  "entry_only ks t =
     \<lparr>func_name = bytes_of ''main'', params = [], func_ret = Ty_I64,
      blocks = [\<lparr>block_name = [], insts = map (\<lambda>(i, k). \<lparr>result = of_nat i, kind = k, inst_span = None\<rparr>) (enumerate 1 ks),
        block_term = t, block_span = None\<rparr>],
      func_linkage = Link_External, func_span = None\<rparr>"

text \<open>
  A division by a constant zero folds to its dividend, and the remainder to zero, although the
  instructions of the machine panic; and the division of the smallest integer by \<open>- 1\<close>, which the
  machine wraps, makes the compiler itself panic.
\<close>

theorem folding_and_division:
  "eval_bin Bin_Div a 0 = Some a \<and> eval_bin Bin_Mod a 0 = Some 0 \<and>
   exec_arith fl (bin_code Bin_Div) (s\<lparr>stack := I64 0 # I64 a # st\<rparr>) =
     Return (Failed 2) (set_panic (bytes_of ''division by zero'') (s\<lparr>stack := st\<rparr>)) \<and>
   run_simple_opts (entry_only [IConstI64 (2 ^ 63), IConstI64 (- 1), IBinary Bin_Div 1 2] (TRet (Some 3))) = None \<and>
   exec_arith fl (bin_code Bin_Div) (s\<lparr>stack := I64 (- 1) # I64 (2 ^ 63) # st\<rparr>) =
     Next (s\<lparr>stack := I64 (2 ^ 63) # st, ip := ip s + 1\<rparr>)"
proof -
  have "wrapping_div (2 ^ 63) (- 1) = (2 ^ 63 :: i64)" by code_simp
  then show ?thesis
    by (simp add: eval_bin_def overflows_def exec_arith_def bin_code_def pop2_def pop1_def div_values_def
        panic_with_message_def fail_with_def advance_with_def run_simple_opts_def opt_round_def const_fold_def
        entry_only_def folded_def)
qed

section \<open>Folded conditions\<close>

text \<open>A function that branches on the comparison of two constants, and what the passes make of it.\<close>

definition branch_func :: func where
  "branch_func =
     (entry_only [] (TRet None))
       \<lparr>blocks := blocks (entry_only [IConstI64 1, IConstI64 2, ICmp Cmp_Lt 1 2] (TCondBr 3 1 2)) @
          blocks (entry_only [] (TRet None)) @ blocks (entry_only [] (TRet None))\<rparr>"

definition folded_func :: func where
  "folded_func =
     branch_func\<lparr>blocks :=
       (hd (blocks branch_func))\<lparr>insts := [\<lparr>result = 3, kind = IConstI64 1, inst_span = None\<rparr>]\<rparr> #
         tl (blocks branch_func)\<rparr>"

lemmas opt_defs =
  run_simple_opts_def opt_round_def const_fold_def folded_def eval_cmp_def dce_def count_block_def
  count_uses_def release_uses_def is_dead_def

lemmas emit_defs =
  compile_ir_to_program_def emit_funcs.simps emit_func_def emit_block_def emit_inst_def start_func_def
  collect_phis_def put_def ensure_local_for_def empty_emit_def emit_const_i64_def emit_cmp_def emit_two_def
  cmp_code_def push_value_def emit_term_def emit_cond_br_def jump_to_def emit_phi_assignments_def
  List.map_filter_def unless_jump_def add_jump_def patch_jump_def retarget_def program_with_debug_info_def
  func_debug_def

lemma opt_branch: "run_simple_opts branch_func = Some folded_func"
  by (simp add: folded_func_def branch_func_def entry_only_def opt_defs)

lemma code_folded:
  "code (compile_ir_to_program [] [] [folded_func] [] []) =
     [PushI64 1, LocalSet 0, LocalGet 0, JumpIfFalse 5, Jump 6, Jump 7, OpBase Ret, OpBase Ret, OpBase Halt]"
  by (simp add: folded_func_def branch_func_def entry_only_def emit_defs)

lemma code_branch:
  "code (compile_ir_to_program [] [] [branch_func] [] []) =
     [PushI64 1, LocalSet 0, PushI64 2, LocalSet 1, LocalGet 0, LocalGet 1, OpArith LtI64, LocalSet 2,
      LocalGet 2, JumpIfFalse 11, Jump 12, Jump 13, OpBase Ret, OpBase Ret, OpBase Halt]"
  by (simp add: branch_func_def entry_only_def emit_defs)

definition exit_code :: "(int, 'w) run \<Rightarrow> int option" where
  "exit_code r = (case r of Finished c s \<Rightarrow> Some c | _ \<Rightarrow> None)"

lemmas run_loop_numeral = run_loop.simps(2) [where n = "pred_numeral k" for k, folded numeral_eq_Suc]

lemmas run_defs =
  run_program_def run_program_internal_def sample_env_def exit_code_def idle_vm_def start_vm_def
  run_loop_numeral within_limits_def exec_defs exec_local_set_def exec_local_get_def exec_arith_def
  lt_values_def resize_def exec_base_def exec_ret_def finish_def or_else_def


section \<open>Examples of the passes\<close>

definition int_sem :: "(i64, unit) inst_sem" where
  "int_sem k vs w =
     (case k of
        IConstI64 c \<Rightarrow> Some (c, w)
      | ICopy _ \<Rightarrow> (case vs of [x] \<Rightarrow> Some (x, w) | _ \<Rightarrow> None)
      | IBinary bop _ _ \<Rightarrow> (case vs of [x, y] \<Rightarrow> map_option (\<lambda>c. (c, w)) (eval_bin bop x y) | _ \<Rightarrow> None)
      | ICmp pred _ _ \<Rightarrow> (case vs of [x, y] \<Rightarrow> Some (eval_cmp pred x y, w) | _ \<Rightarrow> None)
      | _ \<Rightarrow> None)"

definition ret_sem :: "(i64, unit) term_sem" where
  "ret_sem t vs w = (case vs of [x] \<Rightarrow> Some (Leave (Some x) w) | _ \<Rightarrow> None)"

lemma int_sem_ok: "integer_sem int_sem id" "quiet int_sem"
proof -
  show "integer_sem int_sem id" by (auto simp: integer_sem_def int_sem_def)
  have "w' = w" if "int_sem k vs w = Some (x, w')" for k vs w x w'
    using that by (cases k) (auto simp: int_sem_def split: list.splits)
  then show "quiet int_sem" unfolding quiet_def by blast
qed

text \<open>Four instructions, of which one is folded and one is dead.\<close>

definition sum_func :: func where
  "sum_func = entry_only [IConstI64 4, IConstI64 2, IBinary Bin_Add 1 2, IConstI64 9] (TRet (Some 3))"

lemma run_sum: "run_blocks 1 int_sem ret_sem sum_func None 0 Map.empty () = Some (Some 6, ())"
  by (simp add: sum_func_def entry_only_def run_inst_def int_sem_def ret_sem_def eval_bin_def)


definition sum_folded :: func where
  "sum_folded = entry_only [IConstI64 4, IConstI64 2, IConstI64 6, IConstI64 9] (TRet (Some 3))"

lemma fold_sum: "const_fold sum_func = Some (sum_folded, True)"
  by (simp add: const_fold_def sum_func_def sum_folded_def entry_only_def folded_def eval_bin_def)


end
