(* ===== verification/Emit_Shape.thy ===== *)
theory Emit_Shape
  imports Emit_Program
begin

text \<open>
  What emission does to its state, for every instruction and terminator: it only appends, records
  patches of instructions that it has just written, and changes the tables at the result only.
\<close>

section \<open>Appending\<close>

definition places :: "(nat \<times> 'a) list \<Rightarrow> nat \<Rightarrow> nat \<Rightarrow> bool" where
  "places ps a b \<longleftrightarrow> distinct (map fst ps) \<and> (\<forall>p\<in>set ps. a \<le> fst p \<and> fst p < b)"

definition extends :: "emit \<Rightarrow> emit \<Rightarrow> bool" where
  "extends e e' \<longleftrightarrow>
     (\<exists>ops ss js cs ks.
        out_code e' = out_code e @ ops \<and> out_strings e' = out_strings e @ ss \<and>
        patch_jumps e' = patch_jumps e @ js \<and> call_patches e' = call_patches e @ cs \<and>
        closure_patches e' = closure_patches e @ ks \<and>
        (let a = length (out_code e); b = length (out_code e')
         in places js a b \<and> places cs a b \<and> places ks a b))"

lemma places_simps [simp]: "places [] a b" "places [(i, x)] a b \<longleftrightarrow> a \<le> i \<and> i < b"
  by (auto simp: places_def)

lemma places_append:
  "places ps a b \<Longrightarrow> places qs b c \<Longrightarrow> a \<le> b \<Longrightarrow> b \<le> c \<Longrightarrow> places (ps @ qs) a c"
  unfolding places_def by fastforce

lemma places_mono: "places ps a b \<Longrightarrow> a' \<le> a \<Longrightarrow> b \<le> b' \<Longrightarrow> places ps a' b'"
  by (fastforce simp: places_def)

lemma extends_refl [simp, intro]: "extends e e"
  by (auto simp: extends_def)

lemma extends_trans:
  assumes "extends a b" "extends b c"
  shows "extends a c"
proof -
  obtain ops ss js cs ks where 1: "out_code b = out_code a @ ops" "out_strings b = out_strings a @ ss"
    "patch_jumps b = patch_jumps a @ js" "call_patches b = call_patches a @ cs"
    "closure_patches b = closure_patches a @ ks"
    "places js (length (out_code a)) (length (out_code b))" "places cs (length (out_code a)) (length (out_code b))"
    "places ks (length (out_code a)) (length (out_code b))"
    using assms(1) unfolding extends_def Let_def by blast
  obtain ops' ss' js' cs' ks' where 2: "out_code c = out_code b @ ops'" "out_strings c = out_strings b @ ss'"
    "patch_jumps c = patch_jumps b @ js'" "call_patches c = call_patches b @ cs'"
    "closure_patches c = closure_patches b @ ks'"
    "places js' (length (out_code b)) (length (out_code c))" "places cs' (length (out_code b)) (length (out_code c))"
    "places ks' (length (out_code b)) (length (out_code c))"
    using assms(2) unfolding extends_def Let_def by blast
  show ?thesis
    unfolding extends_def Let_def
    by (rule exI [of _ "ops @ ops'"], rule exI [of _ "ss @ ss'"], rule exI [of _ "js @ js'"],
        rule exI [of _ "cs @ cs'"], rule exI [of _ "ks @ ks'"])
      (use 1 2 in \<open>auto intro: places_append\<close>)
qed

lemma extends_length: "extends e e' \<Longrightarrow> length (out_code e) \<le> length (out_code e')"
  by (auto simp: extends_def)

named_theorems grows \<open>operations that extend the state they are applied to\<close>

lemma extends_fold:
  assumes "\<And>x e. x \<in> set xs \<Longrightarrow> extends e (f x e)"
  shows "extends e (fold f xs e)"
  using assms by (induction xs arbitrary: e) (auto intro: extends_trans)

lemma extends_put [grows]: "extends e (put ops e)"
  by (auto simp: extends_def put_def)

lemma extends_tables [grows]:
  "extends e (e\<lparr>const_int := ci\<rparr>)" "extends e (e\<lparr>const_str := cs\<rparr>)" "extends e (e\<lparr>const_f64 := cf\<rparr>)"
  "extends e (e\<lparr>val_local := vl\<rparr>)" "extends e (e\<lparr>alloca_slot := al\<rparr>)" "extends e (e\<lparr>next_local := n\<rparr>)"
  by (auto simp: extends_def)

lemma extends_ensure [grows]: "extends e (snd (ensure_local_for r e))"
  by (auto simp: ensure_local_for_def extends_def split: option.split)

lemma extends_str_index [grows]: "extends e (snd (str_index s e))"
  by (auto simp: str_index_def extends_def Let_def)

lemma extends_add_call [grows]: "extends e (add_call x n e)"
  by (auto simp: add_call_def extends_def put_def)

lemma extends_add_jump [grows]: "extends e (add_jump x bb e)"
  by (auto simp: add_jump_def extends_def put_def)

text \<open>An operation behind another.\<close>

lemma extends_step: "(\<And>e. extends e (f e)) \<Longrightarrow> extends a b \<Longrightarrow> extends a (f b)"
  by (blast intro: extends_trans)

lemmas extends_steps =
  extends_put [THEN extends_trans [rotated]] extends_ensure [THEN extends_trans [rotated]]
  extends_str_index [THEN extends_trans [rotated]] extends_add_call [THEN extends_trans [rotated]]
  extends_add_jump [THEN extends_trans [rotated]] extends_tables [THEN extends_trans [rotated]]

lemma extends_put_str [grows]: "extends e (put_str s e)"
  by (auto simp: put_str_def split_def Let_def intro!: extends_steps)

lemma extends_push_value [grows]: "extends e (push_value v e)"
  by (auto simp: push_value_def intro!: extends_steps grows split: option.split)

lemma extends_push_values [grows]: "extends e (push_values vs e)"
  by (auto simp: push_values_def intro!: extends_fold grows)

lemmas extends_steps2 = extends_steps extends_put_str [THEN extends_trans [rotated]]
  extends_push_value [THEN extends_trans [rotated]] extends_push_values [THEN extends_trans [rotated]]

lemma extends_set_result [grows]: "extends e (set_result r e)" "extends e (set_zero r e)"
  by (auto simp: set_result_def set_zero_def split_def Let_def intro!: extends_steps2)

lemmas extends_steps3 = extends_steps2 extends_set_result [THEN extends_trans [rotated]]

lemma extends_assign [grows]: "extends e (emit_phi_assignments info a b e)"
  by (auto simp: emit_phi_assignments_def assign_phi_def Let_def intro!: extends_fold extends_steps3
      split: option.split)

lemma extends_actions [grows]: "extends e (do_action dst args a e)"
proof -
  have "extends e (spawn_fn dst args e)"
    by (auto simp: spawn_fn_def Let_def intro!: extends_fold [THEN extends_trans [rotated]] extends_steps3)
  then show ?thesis
    by (cases a)
      (auto simp: do_action_def print_str_def print_str_and_val_def log_line_def log_line_with_val_def
        shared_named_def console_writeln_def split_def Let_def intro!: extends_steps3 split: option.split)
qed

lemma extends_cond_drop [grows]: "extends e (emit_cond_drop r v flag ty e)"
proof -
  define a where "a = put [PushI64 0, OpArith EqI64] (push_value flag e)"
  define b where "b = add_call (Call 0) (deinit_name ty) (push_value v (put [JumpIfFalse 0] a))"
  have ab: "extends a b" unfolding b_def by (intro extends_steps3 extends_refl)
  then obtain ops where ops: "out_code b = out_code a @ ops" by (auto simp: extends_def)
  have "extends (put [JumpIfFalse 0] a) b" unfolding b_def by (intro extends_steps3 extends_refl)
  then obtain ops' where ops': "out_code b = out_code a @ JumpIfFalse 0 # ops'"
    by (auto simp: extends_def put_def)
  have "extends a (b\<lparr>out_code := (out_code b)[length (out_code a) := x]\<rparr>)" for x
    using ab ops' by (auto simp: extends_def Let_def list_update_append)
  moreover have "extends e a" unfolding a_def by (intro extends_steps3 extends_refl)
  ultimately show ?thesis
    unfolding emit_cond_drop_def Let_def a_def [symmetric] b_def [symmetric]
    by (blast intro: extends_trans extends_set_result)
qed

lemmas extends_steps4 = extends_steps3 extends_cond_drop [THEN extends_trans [rotated]]
  extends_assign [THEN extends_trans [rotated]] extends_actions [THEN extends_trans [rotated]]
  extends_fold [THEN extends_trans [rotated]]

lemma extends_provider_new [grows]: "extends e (emit_provider_new env r name vs e)"
  by (auto simp: emit_provider_new_def emit_provider_field_def split_def Let_def
      intro!: extends_steps4 split: option.split)

lemma extends_provider_fields [grows]:
  "extends e (emit_provider_get env r obj prov fd e)" "extends e (emit_provider_set env obj prov fd v e)"
  by (auto simp: emit_provider_get_def emit_provider_set_def split_def Let_def intro!: extends_steps4)

lemma extends_calls [grows]:
  "extends e (emit_call env r name args e)" "extends e (emit_closure_call r c args e)"
  "extends e (emit_extern_call r name args ps ret e)"
  by (auto simp: emit_call_def emit_generic_call_def emit_closure_call_def emit_extern_call_def split_def
      Let_def intro!: extends_steps4 split: option.split)

lemma extends_make_closure [grows]: "extends e (emit_make_closure r f captures e)"
proof -
  have "extends e ((put [ClosureNew 0 (of_nat (length captures))] e)
      \<lparr>closure_patches := closure_patches e @ [(length (out_code e), f)]\<rparr>)"
    by (auto simp: extends_def put_def)
  then show ?thesis
    by (auto simp: emit_make_closure_def capture_def split_def Let_def intro!: extends_steps4)
qed

lemma extends_drops [grows]:
  "extends e (emit_drop r v ty e)" "extends e (emit_field_drop r v ty e)" "extends e (emit_one r v x e)"
  "extends e (emit_rc_dec r h oty e)" "extends e (emit_rc_store r h v e)"
  "extends e (emit_region_exit r rid deinits e)"
  by (auto simp: emit_drop_def emit_field_drop_def emit_one_def emit_rc_dec_def emit_rc_store_def
      emit_region_exit_def region_deinit_def Let_def intro!: extends_steps4 split: option.split)

lemma extends_basics [grows]:
  "extends e (emit_const_i64 r n e)" "extends e (emit_const_str env r ix e)"
  "extends e (emit_const_f64 r x e)" "extends e (emit_copy r v e)" "extends e (emit_binary r bop a b e)"
  "extends e (emit_cmp r pred a b e)" "extends e (emit_two r a b ops e)" "extends e (emit_alloca r e)"
  "extends e (emit_load r p e)" "extends e (emit_store p v e)"
  by (auto simp: emit_const_i64_def emit_const_str_def emit_const_f64_def emit_copy_def emit_binary_def
      emit_cmp_def emit_two_def emit_alloca_def emit_load_def emit_store_def split_def Let_def
      intro!: extends_steps4 split: option.split)

theorem extends_inst: "extends e (emit_inst env i e)"
  by (cases "kind i")
    (auto simp: emit_inst_def split_def Let_def intro!: extends_steps4 grows)

section \<open>Terminators and blocks\<close>

lemma extends_jump_to [grows]: "extends e (jump_to info bi bb e)"
  by (auto simp: jump_to_def intro!: extends_steps4)

text \<open>The code behind the conditional jump, and what is overwritten in it.\<close>

lemma unless_jump_code:
  assumes "extends (put [JumpIfFalse 0] e) (body (put [JumpIfFalse 0] e))"
  obtains ops where "out_code (body (put [JumpIfFalse 0] e)) = out_code e @ JumpIfFalse 0 # ops"
    "out_code (unless_jump body e) =
       out_code e @ JumpIfFalse (of_nat (length (out_code (body (put [JumpIfFalse 0] e))))) # ops"
  using assms by (auto simp: extends_def put_def unless_jump_def Let_def list_update_append)

lemma extends_code:
  assumes "extends e e1" "x = out_code e @ y" "length x = length (out_code e1)"
  shows "extends e (e1\<lparr>out_code := x\<rparr>)"
proof -
  obtain ss js cs ks where "out_strings e1 = out_strings e @ ss" "patch_jumps e1 = patch_jumps e @ js"
    "call_patches e1 = call_patches e @ cs" "closure_patches e1 = closure_patches e @ ks"
    "places js (length (out_code e)) (length (out_code e1))"
    "places cs (length (out_code e)) (length (out_code e1))"
    "places ks (length (out_code e)) (length (out_code e1))"
    using assms(1) unfolding extends_def Let_def by blast
  with assms(2,3) show ?thesis
    by (auto simp: extends_def Let_def)
qed

lemma extends_unless_jump:
  assumes "extends (put [JumpIfFalse 0] e) (body (put [JumpIfFalse 0] e))"
  shows "extends e (unless_jump body e)"
proof -
  from unless_jump_code [of e body, OF assms] obtain ops where
    "out_code (body (put [JumpIfFalse 0] e)) = out_code e @ JumpIfFalse 0 # ops"
    "out_code (unless_jump body e) =
       out_code e @ JumpIfFalse (of_nat (length (out_code (body (put [JumpIfFalse 0] e))))) # ops" .
  with extends_code [OF extends_trans [OF extends_put assms]] show ?thesis
    by (simp add: unless_jump_def Let_def)
qed

lemma extends_case: "extends e (emit_case info bi scrut c e)"
proof -
  have "extends e (put [PushI64 (fst c), OpArith EqI64] (push_value scrut e))"
    by (intro extends_steps4 extends_refl)
  also have "extends \<dots> (emit_case info bi scrut c e)"
    unfolding emit_case_def by (rule extends_unless_jump) (rule extends_jump_to)
  finally (extends_trans) show ?thesis .
qed

lemma extends_cond_br: "extends e (emit_cond_br info bi c a b e)"
proof -
  have "extends (push_value c e) (unless_jump (jump_to info bi a) (push_value c e))"
    by (rule extends_unless_jump) (rule extends_jump_to)
  then show ?thesis
    unfolding emit_cond_br_def
    by (rule extends_trans [OF extends_trans [OF extends_push_value] extends_jump_to])
qed

lemmas extends_steps5 = extends_steps4 extends_jump_to [THEN extends_trans [rotated]]

lemma extends_switch: "extends e (emit_switch info bi scrut dflt cases e)"
  unfolding emit_switch_def by (intro extends_steps5 extends_refl extends_case)

lemma extends_invoke: "extends e (emit_invoke env callee args res normal e)"
  by (auto simp: emit_invoke_def intro!: extends_steps4 split: option.split)

lemma extends_term: "extends e (emit_term env info bi t e)"
  by (cases t)
    (auto simp: emit_term_def split_def Let_def intro!: extends_steps4 extends_jump_to extends_cond_br
      extends_switch extends_invoke split: option.split)

lemma extends_insts: "extends e (fold (emit_inst env) is e)"
  by (rule extends_fold) (rule extends_inst)

lemma extends_block: "extends e (emit_block env info ib e)"
  unfolding emit_block_def by (rule extends_trans [OF extends_insts extends_term])

lemma extends_blocks: "extends e (snd (emit_blocks env info bs e))"
  by (induction bs arbitrary: e)
    (auto simp: split_def Let_def intro: extends_trans [OF extends_block])

end
