(* ===== verification/Emit_Place.thy ===== *)
theory Emit_Place
  imports Emit_Shape Ir_Vm Interp
begin

text \<open>
  The instructions that an emission step leaves in the finished program: those it wrote, with the
  jumps and calls patched; and how the machine executes a sequence of them.
\<close>

lemma put_fields [simp]:
  "out_code (put ops e) = out_code e @ ops" "out_strings (put ops e) = out_strings e"
  "patch_jumps (put ops e) = patch_jumps e" "call_patches (put ops e) = call_patches e"
  "val_local (put ops e) = val_local e" "const_int (put ops e) = const_int e"
  "const_f64 (put ops e) = const_f64 e" "const_str (put ops e) = const_str e"
  "alloca_slot (put ops e) = alloca_slot e" "next_local (put ops e) = next_local e"
  by (simp_all add: put_def)

section \<open>From the emission state to the program\<close>

definition tidy :: "emit \<Rightarrow> bool" where
  "tidy e \<longleftrightarrow> places (patch_jumps e) 0 (length (out_code e)) \<and> places (call_patches e) 0 (length (out_code e))"

definition patched :: "emit \<Rightarrow> nat \<Rightarrow> bool" where
  "patched e i \<longleftrightarrow> i \<in> fst ` set (patch_jumps e) \<or> i \<in> fst ` set (call_patches e)"

text \<open>The functions give the offsets of blocks and of functions.\<close>

definition placed :: "program \<Rightarrow> (u32 \<Rightarrow> u32) \<Rightarrow> (rstring \<Rightarrow> u32) \<Rightarrow> emit \<Rightarrow> emit \<Rightarrow> bool" where
  "placed p T K e e' \<longleftrightarrow>
     length (out_code e') \<le> length (code p) \<and> (\<exists>ss. strings p = out_strings e' @ ss) \<and>
     (\<forall>i. length (out_code e) \<le> i \<and> i < length (out_code e') \<and> \<not> patched e' i \<longrightarrow>
        code p ! i = out_code e' ! i) \<and>
     (\<forall>(i, bb)\<in>set (patch_jumps e'). length (out_code e) \<le> i \<longrightarrow>
        code p ! i = retarget (T bb) (out_code e' ! i)) \<and>
     (\<forall>(i, n)\<in>set (call_patches e'). length (out_code e) \<le> i \<longrightarrow> code p ! i = Call (K n))"

lemma tidy_extends: "tidy e \<Longrightarrow> extends e e' \<Longrightarrow> tidy e'"
  by (auto simp: tidy_def extends_def Let_def intro!: places_append)

lemma patched_not_yet: "tidy e \<Longrightarrow> patched e i \<Longrightarrow> i < length (out_code e)"
  by (fastforce simp: tidy_def patched_def places_def)

lemma patched_later:
  assumes "extends e e'" "i < length (out_code e)"
  shows "patched e' i \<longleftrightarrow> patched e i"
proof -
  obtain js cs where e': "patch_jumps e' = patch_jumps e @ js" "call_patches e' = call_patches e @ cs"
    "places js (length (out_code e)) (length (out_code e'))" "places cs (length (out_code e)) (length (out_code e'))"
    using assms(1) unfolding extends_def Let_def by blast
  then have "i \<notin> fst ` set js" "i \<notin> fst ` set cs"
    using assms(2) by (auto simp: places_def)
  then show ?thesis by (simp add: patched_def e'(1,2) image_Un)
qed

lemma code_earlier: "extends e e' \<Longrightarrow> i < length (out_code e) \<Longrightarrow> out_code e' ! i = out_code e ! i"
  by (auto simp: extends_def nth_append)

lemma placed_fst:
  assumes "placed p T K e e2" "extends e1 e2" "tidy e1"
  shows "placed p T K e e1"
proof -
  have len: "length (out_code e1) \<le> length (out_code e2)" by (rule extends_length [OF assms(2)])
  obtain ops ss js cs where e2: "out_code e2 = out_code e1 @ ops" "out_strings e2 = out_strings e1 @ ss"
    "patch_jumps e2 = patch_jumps e1 @ js" "call_patches e2 = call_patches e1 @ cs"
    using assms(2) unfolding extends_def Let_def by blast
  have early: "i < length (out_code e1)" if "(i, x) \<in> set (patch_jumps e1)" for i x
    using assms(3) that by (fastforce simp: tidy_def places_def)
  show ?thesis
    unfolding placed_def
  proof (intro conjI)
    show "length (out_code e1) \<le> length (code p)" "\<exists>ss. strings p = out_strings e1 @ ss"
      using assms(1) e2 by (auto simp: placed_def)
    show "\<forall>i. length (out_code e) \<le> i \<and> i < length (out_code e1) \<and> \<not> patched e1 i \<longrightarrow>
        code p ! i = out_code e1 ! i"
    proof (intro allI impI)
      fix i assume i: "length (out_code e) \<le> i \<and> i < length (out_code e1) \<and> \<not> patched e1 i"
      then have "code p ! i = out_code e2 ! i"
        using assms(1) len patched_later [OF assms(2), of i] unfolding placed_def by auto
      with i show "code p ! i = out_code e1 ! i" by (simp add: code_earlier [OF assms(2)])
    qed
    show "\<forall>(i, bb)\<in>set (patch_jumps e1). length (out_code e) \<le> i \<longrightarrow>
        code p ! i = retarget (T bb) (out_code e1 ! i)"
      using assms(1) early unfolding placed_def e2(3) by (fastforce simp: code_earlier [OF assms(2)])
    show "\<forall>(i, n)\<in>set (call_patches e1). length (out_code e) \<le> i \<longrightarrow> code p ! i = Call (K n)"
      using assms(1) unfolding placed_def e2(4) by auto
  qed
qed

lemma placed_snd: "placed p T K e e2 \<Longrightarrow> length (out_code e) \<le> length (out_code e1) \<Longrightarrow> placed p T K e1 e2"
  unfolding placed_def by fastforce

section \<open>Code at a position\<close>

definition code_at :: "program \<Rightarrow> nat \<Rightarrow> op list \<Rightarrow> bool" where
  "code_at p i ops \<longleftrightarrow> i + length ops \<le> length (code p) \<and> (\<forall>k<length ops. code p ! (i + k) = ops ! k)"

lemma code_at_Nil [simp]: "code_at p i [] \<longleftrightarrow> i \<le> length (code p)"
  by (simp add: code_at_def)

lemma code_at_Cons [simp]:
  "code_at p i (x # ops) \<longleftrightarrow> i < length (code p) \<and> code p ! i = x \<and> code_at p (Suc i) ops"
  by (auto simp: code_at_def less_Suc_eq_0_disj nth_Cons')

lemma code_at_le: "code_at p i ops \<Longrightarrow> i \<le> length (code p)"
  by (simp add: code_at_def)

lemma code_at_append: "code_at p i (xs @ ys) \<longleftrightarrow> code_at p i xs \<and> code_at p (i + length xs) ys"
  by (induction xs arbitrary: i) (auto dest: code_at_le)

lemma placed_straight:
  assumes "placed p T K e e'" "out_code e' = out_code e @ ops" "tidy e"
    "patch_jumps e' = patch_jumps e" "call_patches e' = call_patches e"
  shows "code_at p (length (out_code e)) ops"
proof -
  have "\<not> patched e' (length (out_code e) + k)" for k
    using patched_not_yet [OF assms(3), of "length (out_code e) + k"] assms(4,5) by (auto simp: patched_def)
  with assms(1,2) show ?thesis
    by (auto simp: placed_def code_at_def nth_append)
qed

lemma placed_jump:
  assumes "placed p T K e (add_jump x bb e)"
  shows "code_at p (length (out_code e)) [retarget (T bb) x]"
  using assms by (auto simp: placed_def add_jump_def put_def nth_append)

lemma placed_call:
  assumes "placed p T K e (add_call x n e)"
  shows "code_at p (length (out_code e)) [Call (K n)]"
  using assms by (auto simp: placed_def add_call_def put_def nth_append)

lemma placed_changed:
  assumes "placed p T K e u" "\<And>i. length (out_code e') \<le> i \<Longrightarrow> out_code u ! i = out_code e1 ! i"
    "length (out_code e1) = length (out_code u)" "length (out_code e) \<le> length (out_code e')"
    "patch_jumps u = patch_jumps e1" "call_patches u = call_patches e1" "out_strings u = out_strings e1"
  shows "placed p T K e' e1"
proof -
  have le: "length (out_code e') \<le> i \<Longrightarrow> length (out_code e) \<le> i" for i using assms(4) by simp
  have p: "length (out_code u) \<le> length (code p)" "\<exists>ss. strings p = out_strings u @ ss"
    and c: "\<And>i. length (out_code e) \<le> i \<Longrightarrow> i < length (out_code u) \<Longrightarrow> \<not> patched u i \<Longrightarrow>
        code p ! i = out_code u ! i"
    and j: "\<And>i bb. (i, bb) \<in> set (patch_jumps u) \<Longrightarrow> length (out_code e) \<le> i \<Longrightarrow>
        code p ! i = retarget (T bb) (out_code u ! i)"
    and k: "\<And>i n. (i, n) \<in> set (call_patches u) \<Longrightarrow> length (out_code e) \<le> i \<Longrightarrow> code p ! i = Call (K n)"
    using assms(1) by (auto simp: placed_def)
  have pa: "patched e1 i \<longleftrightarrow> patched u i" for i by (simp add: patched_def assms(5,6))
  show ?thesis
    unfolding placed_def pa assms(3) assms(5-7) [symmetric]
    using p c [OF le] j [OF _ le] k [OF _ le] by (auto simp: assms(2))
qed

lemma placed_unless:
  assumes pl: "placed p T K e (unless_jump body e)" and "tidy e"
    and ext: "extends (put [JumpIfFalse 0] e) (body (put [JumpIfFalse 0] e))"
  shows "code_at p (length (out_code e)) [JumpIfFalse (of_nat (length (out_code (body (put [JumpIfFalse 0] e)))))]"
    and "placed p T K (put [JumpIfFalse 0] e) (body (put [JumpIfFalse 0] e))"
proof -
  let ?e0 = "put [JumpIfFalse 0] e" and ?e1 = "body (put [JumpIfFalse 0] e)"
  obtain ops where ops: "out_code ?e1 = out_code e @ JumpIfFalse 0 # ops"
    "out_code (unless_jump body e) = out_code e @ JumpIfFalse (of_nat (length (out_code ?e1))) # ops"
    by (rule unless_jump_code [of e body, OF ext])
  have same: "patch_jumps (unless_jump body e) = patch_jumps ?e1" "call_patches (unless_jump body e) = call_patches ?e1"
    "out_strings (unless_jump body e) = out_strings ?e1"
    by (simp_all add: unless_jump_def Let_def)
  have tidy0: "tidy ?e0" using \<open>tidy e\<close> by (rule tidy_extends) (rule extends_put)
  have "\<not> patched ?e0 (length (out_code e))"
    using patched_not_yet [OF \<open>tidy e\<close>, of "length (out_code e)"] by (auto simp: patched_def)
  then have "\<not> patched ?e1 (length (out_code e))"
    using patched_later [OF ext, of "length (out_code e)"] by simp
  then have "\<not> patched (unless_jump body e) (length (out_code e))" by (simp add: patched_def same)
  with pl show "code_at p (length (out_code e)) [JumpIfFalse (of_nat (length (out_code ?e1)))]"
    unfolding placed_def by (auto simp: ops nth_append)
  have "out_code (unless_jump body e) ! i = out_code ?e1 ! i" if "length (out_code ?e0) \<le> i" for i
    unfolding ops using that by (simp add: nth_append nth_Cons')
  with pl show "placed p T K ?e0 ?e1"
    by (rule placed_changed) (simp_all add: same ops)
qed

end
