(* ===== verification/Emit_Exec.thy ===== *)
theory Emit_Exec
  imports Emit_Place
begin

text \<open>
  The machine on the instructions that values need: states that differ from a given one in
  instruction pointer, stack and innermost frame, and what pushing a value and storing a result do.
\<close>

section \<open>States and runs\<close>

definition in_state :: "'w vm \<Rightarrow> nat \<Rightarrow> vm_value list \<Rightarrow> frame \<Rightarrow> 'w vm" where
  "in_state s i st fr = s\<lparr>ip := i, stack := st, frames := fr # frames s\<rparr>"

definition leads :: "'w env \<Rightarrow> bool \<Rightarrow> program \<Rightarrow> 'w vm \<Rightarrow> 'w vm \<Rightarrow> bool" where
  "leads env ex p a b \<longleftrightarrow> (\<exists>k. steps env ex p k a b)"

lemma leads_refl [simp, intro]: "leads env ex p a a"
  by (auto simp: leads_def intro: steps.none)

lemma steps_trans: "steps env ex p k a b \<Longrightarrow> steps env ex p m b c \<Longrightarrow> steps env ex p (k + m) a c"
  by (induction k arbitrary: a) (auto elim!: steps_0 steps_Suc intro: steps.more)

lemma leads_trans [trans]: "leads env ex p a b \<Longrightarrow> leads env ex p b c \<Longrightarrow> leads env ex p a c"
  by (auto simp: leads_def intro: steps_trans)

lemma leads_step: "step env ex p a b \<Longrightarrow> leads env ex p a b"
  by (auto simp: leads_def intro: steps.intros)

text \<open>Room for the frames there are and a stack of some height.\<close>

definition room :: "'w env \<Rightarrow> 'w vm \<Rightarrow> nat \<Rightarrow> bool" where
  "room env s m \<longleftrightarrow> m \<le> max_stack_depth env \<and> length (frames s) \<le> max_call_depth env"

lemma leads_op:
  assumes "code_at p i [x]" "room env s (length st)" "exec_op env ex p x (in_state s i st fr) = Next t"
  shows "leads env ex p (in_state s i st fr) t"
  using assms by (intro leads_step step.instr) (auto simp: in_state_def room_def within_limits_def)

definition slot_get :: "frame \<Rightarrow> u32 \<Rightarrow> vm_value" where
  "slot_get fr ix = (if unat ix < length fr then or_else (fr ! unat ix) (I64 0) else I64 0)"

definition slot_put :: "u32 \<Rightarrow> vm_value \<Rightarrow> frame \<Rightarrow> frame" where
  "slot_put ix x fr = (resize (unat ix + 1) fr)[unat ix := Some x]"

lemma slot_get_put: "slot_get (slot_put ix x fr) iy = (if iy = ix then x else slot_get fr iy)"
proof (cases "iy = ix")
  case True
  moreover have "unat ix < length fr + (Suc (unat ix) - length fr)" by arith
  ultimately show ?thesis by (simp add: slot_get_def slot_put_def resize_def or_else_def)
next
  case False
  then have "unat iy \<noteq> unat ix" by (metis word_unat_eq_iff)
  then show ?thesis
    by (auto simp: slot_get_def slot_put_def resize_def nth_append or_else_def)
qed

lemma slot_get_simps [simp]:
  "slot_get (slot_put ix x fr) ix = x" "iy \<noteq> ix \<Longrightarrow> slot_get (slot_put ix x fr) iy = slot_get fr iy"
  by (simp_all add: slot_get_put)

section \<open>Sequences of instructions\<close>

definition computes :: "'w env \<Rightarrow> bool \<Rightarrow> program \<Rightarrow> 'w vm \<Rightarrow> op list \<Rightarrow> vm_value list \<Rightarrow> frame \<Rightarrow>
    vm_value list \<Rightarrow> frame \<Rightarrow> bool" where
  "computes env ex p s ops st fr st' fr' \<longleftrightarrow>
     (\<forall>i. code_at p i ops \<longrightarrow> leads env ex p (in_state s i st fr) (in_state s (i + length ops) st' fr'))"

lemma computes_Nil [simp]: "computes env ex p s [] st fr st fr"
  by (simp add: computes_def)

lemma computes_append:
  "computes env ex p s xs st fr st1 fr1 \<Longrightarrow> computes env ex p s ys st1 fr1 st2 fr2 \<Longrightarrow>
   computes env ex p s (xs @ ys) st fr st2 fr2"
  by (auto simp: computes_def code_at_append add.assoc [symmetric] intro: leads_trans)

lemma computes_op:
  assumes "room env s (length st)"
    "\<And>i. exec_op env ex p x (in_state s i st fr) = Next (in_state s (Suc i) st' fr')"
  shows "computes env ex p s [x] st fr st' fr'"
  using leads_op [OF _ assms(1) assms(2)] by (simp add: computes_def)

lemma computes_Cons:
  assumes "computes env ex p s [x] st fr st1 fr1" "computes env ex p s ys st1 fr1 st2 fr2"
  shows "computes env ex p s (x # ys) st fr st2 fr2"
  using computes_append [OF assms] by simp

lemmas in_state_defs = in_state_def advance_def advance_with_def

lemma exec_pushes:
  "exec_op env ex p (PushI64 n) (in_state s i st fr) = Next (in_state s (Suc i) (I64 n # st) fr)"
  "exec_op env ex p (PushF64 x) (in_state s i st fr) = Next (in_state s (Suc i) (F64 x # st) fr)"
  "exec_op env ex p (PushBool b) (in_state s i st fr) = Next (in_state s (Suc i) (Bool (b \<noteq> 0) # st) fr)"
  "exec_op env ex p (PushStr ix) (in_state s i st fr) =
     Next (in_state s (Suc i) (Str (pool_string p (unat ix)) # st) fr)"
  "exec_op env ex p (LocalGet ix) (in_state s i st fr) = Next (in_state s (Suc i) (slot_get fr ix # st) fr)"
  "exec_op env ex p (LocalSet ix) (in_state s i (v # st) fr) = Next (in_state s (Suc i) st (slot_put ix v fr))"
  "exec_op env ex p (LocalSet ix) (in_state s i [] fr) = Next (in_state s (Suc i) [] (slot_put ix (I64 0) fr))"
  by (simp_all add: exec_op_def in_state_defs exec_local_get_def exec_local_set_def slot_get_def slot_put_def
      pop_or_0_def)

lemma exec_jumps:
  "exec_op env ex p (Jump tgt) (in_state s i st fr) = Next (in_state s (unat tgt) st fr)"
  "exec_op env ex p (JumpIfFalse tgt) (in_state s i (Bool c # st) fr) =
     Next (in_state s (if c then Suc i else unat tgt) st fr)"
  by (simp_all add: exec_op_def in_state_defs pop1_def)

text \<open>The instructions for arithmetic and comparison leave what the specification says.\<close>

lemma exec_bin:
  assumes "bin_values (std env) bop x y = Some v"
  shows "exec_op env ex p (OpArith (bin_code bop)) (in_state s i (y # x # st) fr) =
    Next (in_state s (Suc i) (v # st) fr)"
  using assms
  by (cases bop)
    (auto simp: exec_op_def in_state_defs bin_values_def bin_code_def exec_arith_def pop2_def pop1_def
      pop_i64_def split: vm_value.splits)

lemma exec_compare:
  "eq_values (std env) x y = Some b \<Longrightarrow>
   exec_op env ex p (OpArith EqI64) (in_state s i (y # x # st) fr) = Next (in_state s (Suc i) (Bool b # st) fr)"
  "lt_values (std env) x y = Some b \<Longrightarrow>
   exec_op env ex p (OpArith LtI64) (in_state s i (y # x # st) fr) = Next (in_state s (Suc i) (Bool b # st) fr)"
  "exec_op env ex p (OpArith EqStr) (in_state s i (y # x # st) fr) =
   Next (in_state s (Suc i) (Bool (eq_str_values x y) # st) fr)"
  "exec_op env ex p (OpArith ConcatStr) (in_state s i (y # x # st) fr) =
   Next (in_state s (Suc i) (Str (value_to_string (std env) x @ value_to_string (std env) y) # st) fr)"
  by (simp_all add: exec_op_def in_state_defs exec_arith_def pop2_def pop1_def)

lemma computes_negate:
  "room env s (Suc (Suc (length st))) \<Longrightarrow>
   computes env ex p s [PushBool 0, OpArith EqI64] (Bool b # st) fr (Bool (\<not> b) # st) fr"
  by (rule computes_Cons; rule computes_op)
    (auto simp: exec_pushes exec_compare eq_values_def room_def)

lemma computes_cmp:
  assumes "cmp_values (std env) pred x y = Some b" "room env s (Suc (Suc (length st)))"
  shows "computes env ex p s (snd (cmp_code pred))
    (if fst (cmp_code pred) then x # y # st else y # x # st) fr (Bool b # st) fr"
proof -
  have one: "computes env ex p s [OpArith LtI64] (v # u # st) fr (Bool c # st) fr"
    if "lt_values (std env) u v = Some c" for u v c
    using that assms(2) by (intro computes_op) (auto simp: exec_compare room_def)
  have eq: "computes env ex p s [OpArith EqI64] (v # u # st) fr (Bool c # st) fr"
    if "eq_values (std env) u v = Some c" for u v c
    using that assms(2) by (intro computes_op) (auto simp: exec_compare room_def)
  have neg: "computes env ex p s [PushBool 0, OpArith EqI64] (Bool (\<not> b) # st) fr (Bool b # st) fr"
    using computes_negate [OF assms(2), of ex p "\<not> b" fr] by simp
  show ?thesis
    using assms(1)
    by (cases pred) (auto simp: cmp_values_def cmp_code_def intro!: one eq computes_Cons [OF one neg]
        computes_Cons [OF eq neg])
qed

end
