(* ===== verification/Emit_Tables.thy ===== *)
theory Emit_Tables
  imports Emit_Exec
begin

text \<open>
  The tables of the code generator: what is recorded of a value changes only at its definition, and
  no two values or stack cells share a local.
\<close>

section \<open>What is recorded of a value\<close>

definition entry :: "u32 \<Rightarrow> emit \<Rightarrow> u32 option \<times> i64 option \<times> f64 option \<times> rstring option \<times> u32 option" where
  "entry v e = (val_local e v, const_int e v, const_f64 e v, const_str e v, alloca_slot e v)"

definition unused :: "u32 option \<times> i64 option \<times> f64 option \<times> rstring option \<times> u32 option" where
  "unused = (None, None, None, None, None)"

lemma entry_eqD:
  "entry v e = entry v e' \<Longrightarrow>
   val_local e v = val_local e' v \<and> const_int e v = const_int e' v \<and> const_f64 e v = const_f64 e' v \<and>
   const_str e v = const_str e' v \<and> alloca_slot e v = alloca_slot e' v"
  by (simp add: entry_def)

named_theorems keeps \<open>operations that keep the entries of values\<close>

lemma entry_put [keeps]: "entry v (put ops e) = entry v e"
  by (simp add: entry_def)

lemma entry_str_index [keeps]: "entry v (snd (str_index s e)) = entry v e"
  by (simp add: entry_def str_index_def Let_def)

lemma entry_put_str [keeps]: "entry v (put_str s e) = entry v e"
  by (simp add: put_str_def split_def Let_def keeps)

lemma entry_push_value [keeps]: "entry v (push_value u e) = entry v e"
  by (simp add: push_value_def keeps split: option.split)

lemma entry_push_values [keeps]: "entry v (push_values us e) = entry v e"
  by (induction us arbitrary: e) (simp_all add: push_values_def keeps)

lemma entry_add_call [keeps]: "entry v (add_call x n e) = entry v e"
  by (simp add: entry_def add_call_def)

lemma entry_add_jump [keeps]: "entry v (add_jump x bb e) = entry v e"
  by (simp add: entry_def add_jump_def)

lemma entry_ensure [keeps]: "v \<noteq> r \<Longrightarrow> entry v (snd (ensure_local_for r e)) = entry v e"
  by (simp add: entry_def ensure_local_for_def split: option.split)

lemma entry_assign [keeps]: "entry v (emit_phi_assignments info a b e) = entry v e"
proof -
  have "entry v (fold (assign_phi a) ps e) = entry v e" for ps
    by (induction ps arbitrary: e) (simp_all add: assign_phi_def keeps Let_def split: option.split)
  then show ?thesis by (simp add: emit_phi_assignments_def)
qed

lemma next_local_keeps [simp]:
  "next_local (put_str s e) = next_local e" "next_local (push_value v e) = next_local e"
  "next_local (snd (str_index s e)) = next_local e" "next_local (push_values vs e) = next_local e"
  "next_local (add_call x n e) = next_local e" "next_local (add_jump x bb e) = next_local e"
proof -
  show *: "next_local (snd (str_index s e)) = next_local e" for s e by (simp add: str_index_def Let_def)
  show **: "next_local (put_str s e) = next_local e" for s e by (simp add: put_str_def split_def Let_def *)
  show ***: "next_local (push_value v e) = next_local e" for v e
    by (simp add: push_value_def ** split: option.split)
  show "next_local (push_values vs e) = next_local e"
    by (induction vs arbitrary: e) (simp_all add: push_values_def ***)
qed (simp_all add: add_call_def add_jump_def)

section \<open>Locals\<close>

definition slot_of :: "emit \<Rightarrow> u32 + u32 \<Rightarrow> u32 option" where
  "slot_of e x = (case x of Inl v \<Rightarrow> val_local e v | Inr v \<Rightarrow> alloca_slot e v)"

definition slots_ok :: "emit \<Rightarrow> bool" where
  "slots_ok e \<longleftrightarrow>
     (\<forall>x y k. slot_of e x = Some k \<and> slot_of e y = Some k \<longrightarrow> x = y) \<and>
     (\<forall>x k. slot_of e x = Some k \<longrightarrow> k < next_local e)"

lemma slots_okD:
  "slots_ok e \<Longrightarrow> val_local e u = Some k \<Longrightarrow> val_local e v = Some k \<Longrightarrow> u = v"
  "slots_ok e \<Longrightarrow> alloca_slot e u = Some k \<Longrightarrow> alloca_slot e v = Some k \<Longrightarrow> u = v"
  "slots_ok e \<Longrightarrow> val_local e u = Some k \<Longrightarrow> alloca_slot e v = Some k \<Longrightarrow> False"
proof -
  assume ok: "slots_ok e"
  show "val_local e u = Some k \<Longrightarrow> val_local e v = Some k \<Longrightarrow> u = v"
    using ok unfolding slots_ok_def slot_of_def by (metis sum.case(1) sum.inject(1))
  show "alloca_slot e u = Some k \<Longrightarrow> alloca_slot e v = Some k \<Longrightarrow> u = v"
    using ok unfolding slots_ok_def slot_of_def by (metis sum.case(2) sum.inject(2))
  show "val_local e u = Some k \<Longrightarrow> alloca_slot e v = Some k \<Longrightarrow> False"
    using ok unfolding slots_ok_def slot_of_def by (metis sum.case sum.distinct(1))
qed

lemma slots_ok_cong:
  "val_local e = val_local e' \<Longrightarrow> alloca_slot e = alloca_slot e' \<Longrightarrow> next_local e = next_local e' \<Longrightarrow>
   slots_ok e = slots_ok e'"
  by (simp add: slots_ok_def slot_of_def cong: sum.case_cong)

text \<open>Taking the next local.\<close>

lemma slots_ok_new:
  assumes ok: "slots_ok e" and n: "unat (next_local e) + 1 < 2 ^ 32"
    and slot: "\<And>x. slot_of e' x = (if x = y then Some (next_local e) else slot_of e x)"
    and nl: "next_local e' = next_local e + 1"
  shows "slots_ok e'"
proof -
  have lt: "next_local e < next_local e + 1"
    using n by (simp add: word_less_nat_alt unat_word_ariths)
  have old: "slot_of e x = Some k \<Longrightarrow> k < next_local e" for x k using ok by (auto simp: slots_ok_def)
  then have "slot_of e x \<noteq> Some (next_local e)" for x by fastforce
  then show ?thesis
    using ok lt unfolding slots_ok_def slot nl
    by (auto split: if_splits dest: old intro: less_trans)
qed

lemma slots_ok_ensure:
  assumes "slots_ok e" "unat (next_local e) + 1 < 2 ^ 32"
  shows "slots_ok (snd (ensure_local_for r e))"
proof (cases "val_local e r")
  case None
  show ?thesis
    by (rule slots_ok_new [OF assms, where y = "Inl r"])
      (auto simp: ensure_local_for_def None slot_of_def split: sum.split)
qed (simp add: ensure_local_for_def assms)

lemma slots_ok_alloca:
  assumes "slots_ok e" "unat (next_local e) + 1 < 2 ^ 32"
  shows "slots_ok (emit_alloca r e)"
  by (rule slots_ok_new [OF assms, where y = "Inr r"])
    (auto simp: emit_alloca_def slot_of_def split: sum.split)

section \<open>Values in a frame\<close>

text \<open>What \<^verbatim>\<open>push_value\<close> pushes.\<close>

definition value_in :: "emit \<Rightarrow> frame \<Rightarrow> u32 \<Rightarrow> vm_value" where
  "value_in e fr v =
     (case val_local e v of
        Some ix \<Rightarrow> slot_get fr ix
      | None \<Rightarrow>
          (case const_int e v of
             Some c \<Rightarrow> I64 c
           | None \<Rightarrow>
               (case const_f64 e v of
                  Some x \<Rightarrow> F64 x
                | None \<Rightarrow> (case const_str e v of Some s \<Rightarrow> Str s | None \<Rightarrow> I64 0))))"

lemma value_in_entry: "entry v e = entry v e' \<Longrightarrow> value_in e fr v = value_in e' fr v"
  by (drule entry_eqD) (simp add: value_in_def cong: option.case_cong)

definition has_strings :: "program \<Rightarrow> emit \<Rightarrow> bool" where
  "has_strings p e \<longleftrightarrow> (\<exists>ss. strings p = out_strings e @ ss) \<and> length (strings p) \<le> 2 ^ 32"

lemma pool_index_str:
  assumes "has_strings p (snd (str_index s e))"
  shows "pool_string p (unat (fst (str_index s e))) = s"
proof -
  let ?i = "pool_index (out_strings e) s"
  obtain ss where ss: "strings p = out_strings (snd (str_index s e)) @ ss" and n: "length (strings p) \<le> 2 ^ 32"
    using assms by (auto simp: has_strings_def)
  have i: "?i < length (out_strings (snd (str_index s e))) \<and> out_strings (snd (str_index s e)) ! ?i = s"
  proof (cases "?i < length (out_strings e)")
    case True
    then have "out_strings e ! ?i = s"
      unfolding pool_index_def using nth_length_takeWhile by fastforce
    with True show ?thesis by (simp add: str_index_def Let_def)
  next
    case False
    moreover have "?i \<le> length (out_strings e)" by (simp add: pool_index_def length_takeWhile_le)
    ultimately show ?thesis by (simp add: str_index_def Let_def)
  qed
  then have "?i < length (strings p)" and "strings p ! ?i = s" unfolding ss by (simp_all add: nth_append)
  moreover have "fst (str_index s e) = of_nat ?i" by (simp add: str_index_def Let_def)
  ultimately show ?thesis
    using n by (simp add: pool_string_def unat_of_nat)
qed

text \<open>One instruction pushes a value.\<close>

lemma push_value_op:
  obtains x where "out_code (push_value v e) = out_code e @ [x]" "patch_jumps (push_value v e) = patch_jumps e"
    "call_patches (push_value v e) = call_patches e"
    "\<And>p env ex s i st fr. has_strings p (push_value v e) \<Longrightarrow>
       exec_op env ex p x (in_state s i st fr) = Next (in_state s (Suc i) (value_in e fr v # st) fr)"
proof (cases "val_local e v = None \<and> const_int e v = None \<and> const_f64 e v = None")
  case True
  show ?thesis
  proof (cases "const_str e v")
    case None
    with True show ?thesis
      by (intro that [of "PushI64 0"]) (auto simp: push_value_def value_in_def exec_pushes)
  next
    case (Some t)
    with True have p: "push_value v e = put [PushStr (fst (str_index t e))] (snd (str_index t e))"
      by (simp add: push_value_def put_str_def split_def Let_def)
    have "exec_op env ex p (PushStr (fst (str_index t e))) (in_state s i st fr) =
        Next (in_state s (Suc i) (value_in e fr v # st) fr)"
      if "has_strings p (push_value v e)" for p env ex s i st fr
      using pool_index_str [of p t e] that True Some by (simp add: p has_strings_def exec_pushes value_in_def)
    then show ?thesis
      by (intro that [of "PushStr (fst (str_index t e))"]) (auto simp: p str_index_def Let_def)
  qed
next
  case False
  then show ?thesis
    by (cases "val_local e v"; cases "const_int e v"; cases "const_f64 e v")
      (auto simp: push_value_def value_in_def exec_pushes intro: that)
qed

end
