(* ===== verification/Emit_Core.thy ===== *)
theory Emit_Core
  imports Emit_Tables
begin

text \<open>
  The instructions on values, stack cells and calls of functions of the module: the code written for
  them does what the semantics says.
\<close>

section \<open>The instructions covered\<close>

text \<open>
  \<open>D\<close> holds the values that have been emitted, \<open>A\<close> the stack cells among them. A call must name a
  function of the module exactly, and not be an intrinsic.
\<close>

definition core_inst :: "rstring list \<Rightarrow> u32 set \<Rightarrow> u32 set \<Rightarrow> inst_kind \<Rightarrow> bool" where
  "core_inst names D A k =
     (case k of
        IPhi _ \<Rightarrow> True
      | IConstI64 _ \<Rightarrow> True
      | IConstF64 _ \<Rightarrow> True
      | IConstStr _ \<Rightarrow> True
      | ICopy v \<Rightarrow> v \<in> D
      | IBinary _ a b \<Rightarrow> a \<in> D \<and> b \<in> D
      | ICmp _ a b \<Rightarrow> a \<in> D \<and> b \<in> D
      | IStrEq a b \<Rightarrow> a \<in> D \<and> b \<in> D
      | IStrConcat a b \<Rightarrow> a \<in> D \<and> b \<in> D
      | IAlloca \<Rightarrow> True
      | ILoad q \<Rightarrow> q \<in> A
      | IStore q v \<Rightarrow> q \<in> A \<and> v \<in> D
      | ICall n args _ \<Rightarrow> n \<in> set names \<and> find_intrinsic n (length args) = None \<and> set args \<subseteq> D
      | _ \<Rightarrow> False)"

text \<open>The semantics with a meaning for the calls.\<close>

definition call_sem ::
  "rust_std \<Rightarrow> rstring list \<Rightarrow> (rstring \<Rightarrow> vm_value list \<Rightarrow> vm_value option) \<Rightarrow> (vm_value, cells) inst_sem"
where
  "call_sem fl pool calls k vs w =
     (case k of
        ICall n _ _ \<Rightarrow> map_option (\<lambda>x. (x, w)) (calls n vs)
      | _ \<Rightarrow> core_sem fl pool k vs w)"

section \<open>Environments and frames\<close>

text \<open>
  A frame holds the values of the environment and the contents of the cells, where the tables of \<open>E\<close>
  say.
\<close>

definition holds_values :: "emit \<Rightarrow> vm_value ssa_env \<Rightarrow> cells \<Rightarrow> frame \<Rightarrow> bool" where
  "holds_values E env w fr \<longleftrightarrow>
     (\<forall>v x. env v = Some x \<longrightarrow> value_in E fr v = x) \<and>
     (\<forall>q x. w q = Some x \<longrightarrow> (\<exists>k. alloca_slot E q = Some k \<and> slot_get fr k = x))"

lemma value_in_slot_put:
  "val_local E v \<noteq> Some k \<Longrightarrow> value_in E (slot_put k x fr) v = value_in E fr v"
  by (auto simp: value_in_def slot_get_put split: option.split)

lemma holds_set_local:
  assumes "holds_values E env w fr" "slots_ok E" "val_local E r = Some k"
  shows "holds_values E (env(r \<mapsto> x)) w (slot_put k x fr)"
proof -
  have "value_in E (slot_put k x fr) v = y" if "v \<noteq> r" "env v = Some y" for v y
  proof -
    have "val_local E v \<noteq> Some k" using slots_okD(1) [OF assms(2) _ assms(3)] that(1) by blast
    then show ?thesis using assms(1) that(2) by (simp add: value_in_slot_put holds_values_def)
  qed
  moreover have "alloca_slot E q = Some m \<Longrightarrow> m \<noteq> k" for q m
    using slots_okD(3) [OF assms(2,3)] by blast
  ultimately show ?thesis
    using assms(1,3) by (fastforce simp: holds_values_def value_in_def slot_get_put)
qed

lemma holds_set_cell:
  assumes "holds_values E env w fr" "slots_ok E" "alloca_slot E q = Some k"
  shows "holds_values E env (w(q \<mapsto> x)) (slot_put k x fr)"
proof -
  have "value_in E (slot_put k x fr) v = y" if "env v = Some y" for v y
  proof -
    have "val_local E v \<noteq> Some k" using slots_okD(3) [OF assms(2) _ assms(3)] by blast
    then show ?thesis using assms(1) that by (simp add: value_in_slot_put holds_values_def)
  qed
  moreover have "alloca_slot E u = Some m \<Longrightarrow> u \<noteq> q \<Longrightarrow> m \<noteq> k" for u m
    using slots_okD(2) [OF assms(2,3)] by blast
  ultimately show ?thesis
    using assms(1,3) by (fastforce simp: holds_values_def slot_get_put)
qed

lemma holds_set_value:
  "holds_values E env w fr \<Longrightarrow> value_in E fr r = x \<Longrightarrow> holds_values E (env(r \<mapsto> x)) w fr"
  by (simp add: holds_values_def)

section \<open>Pushing operands\<close>

lemma push_values_Cons: "push_values (v # vs) e = push_values vs (push_value v e)"
  by (simp add: push_values_def)

lemma has_strings_earlier: "has_strings p e' \<Longrightarrow> extends e e' \<Longrightarrow> has_strings p e"
  by (auto simp: has_strings_def extends_def)

lemma push_values_ops:
  obtains xs where "out_code (push_values vs e) = out_code e @ xs"
    "patch_jumps (push_values vs e) = patch_jumps e" "call_patches (push_values vs e) = call_patches e"
    "\<And>p (env :: 'w env) ex s st fr. has_strings p (push_values vs e) \<Longrightarrow> room env s (length st + length vs) \<Longrightarrow>
       computes env ex p s xs st fr (rev (map (value_in e fr) vs) @ st) fr"
proof (induction vs arbitrary: e thesis)
  case Nil
  show ?case by (rule Nil [of "[]"]) (simp_all add: push_values_def)
next
  case (Cons v vs)
  obtain x where x: "out_code (push_value v e) = out_code e @ [x]" "patch_jumps (push_value v e) = patch_jumps e"
    "call_patches (push_value v e) = call_patches e"
    "\<And>p (env :: 'w env) ex s i st fr. has_strings p (push_value v e) \<Longrightarrow>
       exec_op env ex p x (in_state s i st fr) = Next (in_state s (Suc i) (value_in e fr v # st) fr)"
    using push_value_op [of v e] by metis
  obtain xs where xs: "out_code (push_values vs (push_value v e)) = out_code (push_value v e) @ xs"
    "patch_jumps (push_values vs (push_value v e)) = patch_jumps (push_value v e)"
    "call_patches (push_values vs (push_value v e)) = call_patches (push_value v e)"
    "\<And>p (env :: 'w env) ex s st fr. has_strings p (push_values vs (push_value v e)) \<Longrightarrow> room env s (length st + length vs) \<Longrightarrow>
       computes env ex p s xs st fr (rev (map (value_in (push_value v e) fr) vs) @ st) fr"
    using Cons.IH [of "push_value v e"] by blast
  have same: "value_in (push_value v e) = value_in e"
    by (intro ext value_in_entry) (rule entry_push_value)
  have run: "computes env ex p s (x # xs) st fr (rev (map (value_in e fr) (v # vs)) @ st) fr"
    if str: "has_strings p (push_values (v # vs) e)" and room: "room env s (length st + length (v # vs))"
    for p and env :: "'w env" and ex s st fr
  proof (rule computes_Cons)
    show "computes env ex p s [x] st fr (value_in e fr v # st) fr"
      using room str has_strings_earlier [OF _ extends_push_values, of p vs "push_value v e"]
      by (intro computes_op x(4)) (auto simp: push_values_Cons room_def)
    show "computes env ex p s xs (value_in e fr v # st) fr (rev (map (value_in e fr) (v # vs)) @ st) fr"
      using xs(4) [of p env s "value_in e fr v # st" ex fr] str room
      by (simp add: push_values_Cons same room_def)
  qed
  show ?case
    by (rule Cons.prems [of "x # xs", OF _ _ _ run]) (simp_all add: push_values_Cons x xs)
qed

text \<open>Operands, instructions on them, and the result into a local.\<close>

lemma run_to_local:
  fixes env :: "'w env"
  assumes placed: "placed p T K e e'" and tidy: "tidy e" and strs: "length (strings p) \<le> 2 ^ 32"
    and start: "out_code e1 = out_code e" "patch_jumps e1 = patch_jumps e" "call_patches e1 = call_patches e"
    and e': "out_code e' = out_code (put (ops @ [LocalSet dst]) (push_values vs e1))"
      "out_strings e' = out_strings (push_values vs e1)" "patch_jumps e' = patch_jumps (push_values vs e1)"
      "call_patches e' = call_patches (push_values vs e1)"
    and ops: "computes env ex p s ops (rev (map (value_in e1 fr) vs)) fr [x] fr"
    and room: "room env s (length vs)" "room env s 1"
  shows "leads env ex p (in_state s (length (out_code e)) [] fr)
    (in_state s (length (out_code e')) [] (slot_put dst x fr))"
proof -
  obtain xs where xs: "out_code (push_values vs e1) = out_code e1 @ xs"
    "patch_jumps (push_values vs e1) = patch_jumps e1" "call_patches (push_values vs e1) = call_patches e1"
    "\<And>p (env :: 'w env) ex s st fr. has_strings p (push_values vs e1) \<Longrightarrow> room env s (length st + length vs) \<Longrightarrow>
       computes env ex p s xs st fr (rev (map (value_in e1 fr) vs) @ st) fr"
    by (rule push_values_ops) blast
  have str: "has_strings p (push_values vs e1)"
    using placed strs by (auto simp: placed_def has_strings_def e')
  have "computes env ex p s (xs @ ops @ [LocalSet dst]) [] fr [] (slot_put dst x fr)"
    using xs(4) [OF str, of env s "[]" ex fr] room ops
    by (intro computes_append [of _ _ _ _ xs] computes_append [of _ _ _ _ ops])
      (auto intro!: computes_op simp: exec_pushes)
  moreover have "code_at p (length (out_code e)) (xs @ ops @ [LocalSet dst])"
    by (rule placed_straight [OF placed _ tidy]) (simp_all add: e' xs start)
  ultimately show ?thesis
    by (simp add: computes_def e' xs start)
qed

section \<open>Tables after an instruction\<close>

definition is_alloca :: "inst_kind \<Rightarrow> bool" where
  "is_alloca k = (case k of IAlloca \<Rightarrow> True | _ \<Rightarrow> False)"

definition tables_ok :: "u32 set \<Rightarrow> u32 set \<Rightarrow> nat \<Rightarrow> emit \<Rightarrow> bool" where
  "tables_ok D A n e \<longleftrightarrow>
     (\<forall>v. v \<notin> D \<longrightarrow> entry v e = unused) \<and> A \<subseteq> D \<and> (\<forall>v\<in>A. alloca_slot e v \<noteq> None) \<and> slots_ok e \<and>
     unat (next_local e) \<le> n"

lemma emit_generic:
  assumes "n \<in> set (func_names cenv)" "find_intrinsic n (length args) = None"
  shows "emit_call cenv r n args e = set_result r (add_call (Call 0) n (push_values args (snd (ensure_local_for r e))))"
  using assms by (simp add: emit_call_def emit_generic_call_def qualified_name_def known_func_def split_def Let_def)

lemma ensure_known:
  "val_local e r = Some k \<Longrightarrow> ensure_local_for r e = (k, e)"
  by (simp add: ensure_local_for_def)

lemma ensure_fields [simp]:
  "out_code (snd (ensure_local_for r e)) = out_code e" "patch_jumps (snd (ensure_local_for r e)) = patch_jumps e"
  "call_patches (snd (ensure_local_for r e)) = call_patches e" "out_strings (snd (ensure_local_for r e)) = out_strings e"
  "val_local (snd (ensure_local_for r e)) r = Some (fst (ensure_local_for r e))"
  "alloca_slot (snd (ensure_local_for r e)) = alloca_slot e"
  by (auto simp: ensure_local_for_def split: option.split)

lemma val_local_keeps: "entry v e = entry v e' \<Longrightarrow> val_local e v = val_local e' v"
  by (simp add: entry_def)

lemma set_result_known:
  "val_local e r = Some k \<Longrightarrow> set_result r e = put [LocalSet k] e"
  by (simp add: set_result_def ensure_known)

lemma emit_call_core:
  assumes "n \<in> set (func_names cenv)" "find_intrinsic n (length args) = None"
  shows "emit_call cenv r n args e =
    put [LocalSet (fst (ensure_local_for r e))]
      (add_call (Call 0) n (push_values args (snd (ensure_local_for r e))))"
proof -
  have "val_local (add_call (Call 0) n (push_values args (snd (ensure_local_for r e)))) r =
      Some (fst (ensure_local_for r e))"
    by (simp add: val_local_keeps [OF entry_add_call] val_local_keeps [OF entry_push_values])
  then show ?thesis by (simp add: emit_generic [OF assms] set_result_known)
qed

lemmas emit_core_defs =
  emit_inst_def emit_const_i64_def emit_const_f64_def emit_const_str_def emit_copy_def emit_binary_def
  emit_cmp_def emit_two_def emit_alloca_def emit_load_def emit_store_def split_def Let_def

lemma entry_update [simp]:
  "v \<noteq> r \<Longrightarrow> entry v (e\<lparr>const_int := (const_int e)(r \<mapsto> c)\<rparr>) = entry v e"
  "v \<noteq> r \<Longrightarrow> entry v (e\<lparr>const_f64 := (const_f64 e)(r \<mapsto> x)\<rparr>) = entry v e"
  "v \<noteq> r \<Longrightarrow> entry v (e\<lparr>const_str := (const_str e)(r \<mapsto> t)\<rparr>) = entry v e"
  "v \<noteq> r \<Longrightarrow> entry v (e\<lparr>const_int := copy_const (const_int e) r u,
     const_str := copy_const (const_str e) r u, const_f64 := copy_const (const_f64 e) r u\<rparr>) = entry v e"
  by (auto simp: entry_def copy_const_def split: option.split)

lemma entry_copy: "v \<noteq> r \<Longrightarrow> entry v (emit_copy r u e) = entry v e"
  unfolding emit_copy_def Let_def split_def by (subst entry_update(4)) (simp_all add: keeps)

lemma entry_inst:
  assumes "core_inst (func_names cenv) D A (kind i)" "v \<noteq> result i"
  shows "entry v (emit_inst cenv i e) = entry v e"
proof (cases "kind i")
  case (ICopy u)
  then show ?thesis using assms(2) by (simp add: emit_inst_def entry_copy)
qed (use assms in \<open>auto simp: core_inst_def emit_core_defs emit_call_core keeps split: option.split,
     auto simp: entry_def\<close>)

definition same_locals :: "emit \<Rightarrow> emit \<Rightarrow> bool" where
  "same_locals e e' \<longleftrightarrow>
     val_local e = val_local e' \<and> alloca_slot e = alloca_slot e' \<and> next_local e = next_local e'"

lemma locals_keep [simp]:
  "val_local (push_value v e) = val_local e" "alloca_slot (push_value v e) = alloca_slot e"
  "val_local (push_values vs e) = val_local e" "alloca_slot (push_values vs e) = alloca_slot e"
  "val_local (add_call x n e) = val_local e" "alloca_slot (add_call x n e) = alloca_slot e"
  using entry_eqD [OF entry_push_value] entry_eqD [OF entry_push_values] entry_eqD [OF entry_add_call]
  by (auto simp: fun_eq_iff)

lemma locals_inst:
  assumes "core_inst (func_names cenv) D A (kind i)"
  shows "same_locals (emit_inst cenv i e) e \<or>
    same_locals (emit_inst cenv i e) (snd (ensure_local_for (result i) e)) \<or>
    is_alloca (kind i) \<and> same_locals (emit_inst cenv i e) (emit_alloca (result i) e)"
proof (cases "kind i")
  case (ICopy u)
  then show ?thesis by (simp add: emit_inst_def emit_copy_def split_def Let_def same_locals_def)
next
  case (IConstI64 n)
  then show ?thesis
    by (simp add: emit_core_defs same_locals_def ensure_local_for_def split: option.split)
next
  case (IConstF64 n)
  then show ?thesis
    by (simp add: emit_core_defs same_locals_def ensure_local_for_def split: option.split)
qed (use assms in \<open>auto simp: core_inst_def emit_core_defs emit_call_core same_locals_def is_alloca_def
     split: option.split\<close>)

lemma next_local_step:
  assumes "unat (next_local e) + 1 < 2 ^ 32"
  shows "unat (next_local (snd (ensure_local_for r e))) \<le> unat (next_local e) + 1"
    "unat (next_local (emit_alloca r e)) = unat (next_local e) + 1"
  using assms by (auto simp: ensure_local_for_def emit_alloca_def unat_word_ariths split: option.split)

lemma slots_inst:
  assumes "core_inst (func_names cenv) D A (kind i)" "slots_ok e" "unat (next_local e) + 1 < 2 ^ 32"
  shows "slots_ok (emit_inst cenv i e)" "unat (next_local (emit_inst cenv i e)) \<le> unat (next_local e) + 1"
  using locals_inst [OF assms(1), of e] slots_ok_ensure [OF assms(2,3), of "result i"]
    slots_ok_alloca [OF assms(2,3), of "result i"] next_local_step [OF assms(3), of "result i"] assms(2)
  by (auto simp: same_locals_def cong: slots_ok_cong)

lemma tables_inst:
  assumes "core_inst (func_names cenv) D A (kind i)" "tables_ok D A n e" "n + 1 < 2 ^ 32"
    and new: "is_phi i \<and> result i \<in> D \<or> \<not> is_phi i \<and> result i \<notin> D"
  shows "tables_ok (insert (result i) D) (if is_alloca (kind i) then insert (result i) A else A) (n + 1)
    (emit_inst cenv i e)"
proof -
  have ok: "slots_ok e" "unat (next_local e) + 1 < 2 ^ 32"
    using assms(2,3) by (auto simp: tables_ok_def)
  have "alloca_slot (emit_inst cenv i e) v \<noteq> None" if "v \<in> A" for v
  proof (cases "v = result i")
    case True
    with that assms(2) new have "is_phi i" by (auto simp: tables_ok_def)
    with that assms(2) show ?thesis
      by (cases "kind i") (auto simp: tables_ok_def is_phi_def emit_inst_def)
  next
    case False
    then show ?thesis
      using entry_eqD [OF entry_inst [OF assms(1) False, of e]] assms(2) that by (simp add: tables_ok_def)
  qed
  moreover have "alloca_slot (emit_inst cenv i e) (result i) \<noteq> None" if "is_alloca (kind i)"
    using that by (cases "kind i") (auto simp: is_alloca_def emit_inst_def emit_alloca_def)
  moreover have "entry v (emit_inst cenv i e) = entry v e" if "v \<noteq> result i" for v
    by (rule entry_inst [OF assms(1) that])
  ultimately show ?thesis
    using assms(2) slots_inst [OF assms(1) ok]
    unfolding tables_ok_def by auto
qed

end
