(* ===== verification/Emit_Sim.thy ===== *)
theory Emit_Sim
  imports Emit_Core
begin

text \<open>The machine follows the semantics of straight-line code.\<close>

section \<open>One instruction\<close>

text \<open>A call of a function leaves its result, or nothing and the result is 0.\<close>

definition calls_run ::
  "'w env \<Rightarrow> bool \<Rightarrow> program \<Rightarrow> (rstring \<Rightarrow> u32) \<Rightarrow> rstring list \<Rightarrow>
   (rstring \<Rightarrow> vm_value list \<Rightarrow> vm_value option) \<Rightarrow> 'w vm \<Rightarrow> bool"
where
  "calls_run m ex p K names calls s \<longleftrightarrow>
     (\<forall>n vs x i fr. n \<in> set names \<and> calls n vs = Some x \<and> code_at p i [Call (K n)] \<longrightarrow>
        (\<exists>st. leads m ex p (in_state s i (rev vs) fr) (in_state s (Suc i) st fr) \<and>
              (st = [x] \<or> st = [] \<and> x = I64 0)))"

lemma holds_operands:
  "holds_values E vals w fr \<Longrightarrow> those (map vals vs) = Some xs \<Longrightarrow> map (value_in E fr) vs = xs"
  by (induction vs arbitrary: xs) (auto simp: holds_values_def split: option.splits)

lemma those_length: "those xs = Some ys \<Longrightarrow> length ys = length xs"
  by (induction xs arbitrary: ys) (auto split: option.splits)

lemma placed_same:
  assumes "placed p T K e e'" "out_code e' = out_code e''" "out_strings e' = out_strings e''"
    "patch_jumps e' = patch_jumps e''" "call_patches e' = call_patches e''"
  shows "placed p T K e e''"
  using assms by (simp add: placed_def patched_def)

text \<open>Everything the proof about an instruction starts from.\<close>

definition ready ::
  "'w env \<Rightarrow> program \<Rightarrow> (u32 \<Rightarrow> u32) \<Rightarrow> (rstring \<Rightarrow> u32) \<Rightarrow> u32 set \<Rightarrow> u32 \<Rightarrow> emit \<Rightarrow> emit \<Rightarrow> emit \<Rightarrow>
   vm_value ssa_env \<Rightarrow> cells \<Rightarrow> frame \<Rightarrow> bool"
where
  "ready m p T K D r e e' E vals w fr \<longleftrightarrow>
     placed p T K e e' \<and> tidy e \<and> length (strings p) \<le> 2 ^ 32 \<and>
     (\<forall>v\<in>insert r D. entry v e' = entry v E) \<and> (\<forall>v. v \<noteq> r \<longrightarrow> entry v e' = entry v e) \<and> r \<notin> D \<and>
     slots_ok E \<and> holds_values E vals w fr"

lemma ready_operand:
  assumes "ready m p T K D r e e' E vals w fr" "v \<in> D" "entry v e1 = entry v e"
  shows "value_in e1 fr v = value_in E fr v"
proof (rule value_in_entry)
  have "v \<noteq> r" using assms(1,2) by (auto simp: ready_def)
  then have "entry v e' = entry v E" "entry v e' = entry v e" using assms(1,2) by (auto simp: ready_def)
  with assms(3) show "entry v e1 = entry v E" by simp
qed

lemma ready_local:
  assumes "ready m p T K D r e e' E vals w fr" "val_local e' r = Some dst"
  shows "holds_values E (vals(r \<mapsto> x)) w (slot_put dst x fr)"
proof (rule holds_set_local)
  show "holds_values E vals w fr" "slots_ok E" using assms(1) by (auto simp: ready_def)
  have "entry r e' = entry r E" using assms(1) by (simp add: ready_def)
  from val_local_keeps [OF this] assms(2) show "val_local E r = Some dst" by simp
qed

lemma local_inst:
  fixes m :: "'w env"
  assumes r: "ready m p T K D r e e' E vals w fr"
    and start: "out_code e0 = out_code e" "patch_jumps e0 = patch_jumps e" "call_patches e0 = call_patches e"
      "\<And>v. v \<noteq> r \<Longrightarrow> entry v e0 = entry v e"
    and e': "out_code e' = out_code (put (ops @ [LocalSet (fst (ensure_local_for r e0))])
        (push_values vs (snd (ensure_local_for r e0))))"
      "out_strings e' = out_strings (push_values vs (snd (ensure_local_for r e0)))"
      "patch_jumps e' = patch_jumps (push_values vs (snd (ensure_local_for r e0)))"
      "call_patches e' = call_patches (push_values vs (snd (ensure_local_for r e0)))"
      "val_local e' = val_local (snd (ensure_local_for r e0))"
    and vs: "set vs \<subseteq> D" "those (map vals vs) = Some xs"
    and ops: "computes m ex p s ops (rev xs) fr [x] fr"
    and room: "room m s (max 1 (length vs))"
  shows "\<exists>fr'. leads m ex p (in_state s (length (out_code e)) [] fr) (in_state s (length (out_code e')) [] fr') \<and>
    holds_values E (vals(r \<mapsto> x)) w fr'"
proof (intro exI conjI)
  let ?e1 = "snd (ensure_local_for r e0)" and ?dst = "fst (ensure_local_for r e0)"
  have "value_in ?e1 fr v = value_in E fr v" if "v \<in> set vs" for v
  proof -
    have "v \<in> D" "v \<noteq> r" using vs(1) that r by (auto simp: ready_def)
    then show ?thesis by (intro ready_operand [OF r]) (simp_all add: keeps start(4))
  qed
  then have "map (value_in ?e1 fr) vs = xs"
    using holds_operands [of E vals w fr vs xs] r vs(2) by (auto simp: ready_def)
  then have "computes m ex p s ops (rev (map (value_in ?e1 fr) vs)) fr [x] fr" using ops by simp
  then show "leads m ex p (in_state s (length (out_code e)) [] fr)
      (in_state s (length (out_code e')) [] (slot_put ?dst x fr))"
    using r room
    by (intro run_to_local [where ?e1.0 = ?e1 and vs = vs and ops = ops])
      (auto simp: ready_def e' start room_def)
  show "holds_values E (vals(r \<mapsto> x)) w (slot_put ?dst x fr)"
    by (rule ready_local [OF r]) (simp add: e')
qed

text \<open>A constant that is stored.\<close>

lemma const_inst:
  fixes m :: "'w env"
  assumes r: "ready m p T K D r e e' E vals w fr"
    and start: "out_code e0 = out_code e" "patch_jumps e0 = patch_jumps e" "call_patches e0 = call_patches e"
      "out_strings e0 = out_strings e" "\<And>v. v \<noteq> r \<Longrightarrow> entry v e0 = entry v e"
    and e': "e' = put [x, LocalSet (fst (ensure_local_for r e0))] (snd (ensure_local_for r e0))"
    and x: "\<And>i. exec_op m ex p x (in_state s i [] fr) = Next (in_state s (Suc i) [c] fr)"
    and room: "room m s 1"
  shows "\<exists>fr'. leads m ex p (in_state s (length (out_code e)) [] fr) (in_state s (length (out_code e')) [] fr') \<and>
    holds_values E (vals(r \<mapsto> c)) w fr'"
  using room
  by (intro local_inst [OF r start(1-3,5), where ops = "[x]" and vs = "[]" and xs = "[]"])
    (auto simp: e' push_values_def room_def intro!: computes_op x)

lemma ready_value:
  assumes "ready m p T K D r e e' E vals w fr"
  shows "value_in E fr r = value_in e' fr r"
  by (rule value_in_entry) (use assms in \<open>simp add: ready_def\<close>)

text \<open>Calls: operands, the patched call, the result.\<close>

lemma call_inst:
  fixes m :: "'w env"
  assumes r: "ready m p T K D r e e' E vals w fr"
    and e': "e' = put [LocalSet (fst (ensure_local_for r e))]
      (add_call (Call 0) n (push_values vs (snd (ensure_local_for r e))))"
    and vs: "set vs \<subseteq> D" "those (map vals vs) = Some xs"
    and call: "calls_run m ex p K names calls s" "n \<in> set names" "calls n xs = Some x"
    and room: "room m s (max 1 (length vs))"
  shows "\<exists>fr'. leads m ex p (in_state s (length (out_code e)) [] fr) (in_state s (length (out_code e')) [] fr') \<and>
    holds_values E (vals(r \<mapsto> x)) w fr'"
proof -
  let ?e1 = "snd (ensure_local_for r e)" and ?dst = "fst (ensure_local_for r e)"
  let ?e2 = "push_values vs ?e1" let ?e3 = "add_call (Call 0) n ?e2"
  obtain ops where ops: "out_code ?e2 = out_code ?e1 @ ops" "patch_jumps ?e2 = patch_jumps ?e1"
    "call_patches ?e2 = call_patches ?e1"
    "\<And>p (m :: 'w env) ex s st fr. has_strings p ?e2 \<Longrightarrow> room m s (length st + length vs) \<Longrightarrow>
       computes m ex p s ops st fr (rev (map (value_in ?e1 fr) vs) @ st) fr"
    by (rule push_values_ops) blast
  have tidy: "tidy e" "tidy ?e2" "tidy ?e3"
    using r by (auto simp: ready_def intro: tidy_extends [OF _ extends_push_values]
        tidy_extends [OF _ extends_ensure] tidy_extends [OF _ extends_add_call])
  have ext: "extends e ?e2" "extends ?e2 ?e3" "extends ?e3 e'"
    by (intro extends_steps4 extends_refl, rule extends_add_call, simp add: e' extends_put)
  have pl: "placed p T K e e'" using r by (simp add: ready_def)
  have pl3: "placed p T K e ?e3" by (rule placed_fst [OF pl ext(3) tidy(3)])
  have pl2: "placed p T K e ?e2" by (rule placed_fst [OF pl3 ext(2) tidy(2)])
  have str: "has_strings p ?e2" using pl2 r by (auto simp: placed_def has_strings_def ready_def)
  have "value_in ?e1 fr v = value_in E fr v" if "v \<in> set vs" for v
  proof -
    have "v \<in> D" "v \<noteq> r" using vs(1) that r by (auto simp: ready_def)
    then show ?thesis by (intro ready_operand [OF r]) (simp_all add: keeps)
  qed
  then have vals: "map (value_in ?e1 fr) vs = xs"
    using holds_operands [of E vals w fr vs xs] r vs(2) by (auto simp: ready_def)
  have "code_at p (length (out_code e)) ops"
    by (rule placed_straight [OF pl2 _ tidy(1)]) (simp_all add: ops)
  then have 1: "leads m ex p (in_state s (length (out_code e)) [] fr)
      (in_state s (length (out_code ?e2)) (rev xs) fr)"
    using ops(4) [OF str, of m s "[]" ex fr] room by (simp add: vals computes_def ops room_def)
  have "code_at p (length (out_code ?e2)) [Call (K n)]"
    by (rule placed_call [OF placed_snd [OF pl3]]) (rule extends_length [OF ext(1)])
  then obtain st where st: "leads m ex p (in_state s (length (out_code ?e2)) (rev xs) fr)
      (in_state s (Suc (length (out_code ?e2))) st fr)" "st = [x] \<or> st = [] \<and> x = I64 0"
    using call unfolding calls_run_def by blast
  have len3: "length (out_code ?e3) = Suc (length (out_code ?e2))" by (simp add: add_call_def)
  have "placed p T K ?e3 e'" by (rule placed_snd [OF pl]) (simp add: len3 ops)
  then have "code_at p (length (out_code ?e3)) [LocalSet ?dst]"
    by (rule placed_straight [OF _ _ tidy(3)]) (simp_all add: e')
  moreover have "computes m ex p s [LocalSet ?dst] st fr [] (slot_put ?dst x fr)"
    using st(2) room by (intro computes_op) (auto simp: exec_pushes room_def)
  ultimately have 3: "leads m ex p (in_state s (Suc (length (out_code ?e2))) st fr)
      (in_state s (length (out_code e')) [] (slot_put ?dst x fr))"
    by (auto simp: computes_def len3 e')
  have "holds_values E (vals(r \<mapsto> x)) w (slot_put ?dst x fr)"
    by (rule ready_local [OF r]) (simp add: e')
  with leads_trans [OF 1 leads_trans [OF st(1) 3]] show ?thesis by blast
qed

section \<open>All instructions\<close>

lemma two_operands:
  "put ops (push_value b (push_value a e)) = put ops (push_values [a, b] e)"
  by (simp add: push_values_def)

lemma simulate_inst:
  fixes m :: "'w env"
  assumes core: "core_inst (func_names cenv) D A (kind i)" and phi: "\<not> is_phi i"
    and tab: "tables_ok D A n e"
    and r: "ready m p T K D (result i) e (emit_inst cenv i e) E vals w fr"
    and run: "run_inst (call_sem (std m) (module_pool cenv) calls) pre env0 i (vals, w) = Some (vals', w')"
    and calls: "calls_run m ex p K (func_names cenv) calls s"
    and room: "room m s 2" "room m s (length (operands (kind i)))"
  shows "\<exists>fr'. leads m ex p (in_state s (length (out_code e)) [] fr)
      (in_state s (length (out_code (emit_inst cenv i e))) [] fr') \<and> holds_values E vals' w' fr'"
proof -
  have room1: "room m s 1" "room m s (Suc 0)" using room(1) by (simp_all add: room_def)
  have unused: "entry (result i) e = unused" using tab r by (auto simp: tables_ok_def ready_def)
  have none: "val_local e (result i) = None" using unused by (simp add: entry_def unused_def)
  have mono: "holds_values E vals w fr" using r by (simp add: ready_def)
  have cell: "alloca_slot E q = alloca_slot e q" if "q \<in> A" for q
  proof -
    have "q \<in> D" "q \<noteq> result i" using that tab r by (auto simp: tables_ok_def ready_def)
    then have "entry q (emit_inst cenv i e) = entry q E" "entry q (emit_inst cenv i e) = entry q e"
      using r by (auto simp: ready_def)
    then have "entry q E = entry q e" by simp
    then show ?thesis by (simp add: entry_def)
  qed
  show ?thesis
  proof (cases "kind i")
    case (IConstI64 c)
    have x: "vals' = vals(result i \<mapsto> I64 c)" "w' = w"
      using run by (auto simp: run_inst_def IConstI64 call_sem_def core_sem_def)
    show ?thesis unfolding x
      by (rule const_inst [OF r, where ?e0.0 = "e\<lparr>const_int := (const_int e)(result i \<mapsto> c)\<rparr>" and x = "PushI64 c"])
        (simp_all add: emit_inst_def IConstI64 emit_const_i64_def split_def Let_def exec_pushes room1)
  next
    case (IConstF64 c)
    have x: "vals' = vals(result i \<mapsto> F64 c)" "w' = w"
      using run by (auto simp: run_inst_def IConstF64 call_sem_def core_sem_def)
    show ?thesis unfolding x
      by (rule const_inst [OF r, where ?e0.0 = "e\<lparr>const_f64 := (const_f64 e)(result i \<mapsto> c)\<rparr>" and x = "PushF64 c"])
        (simp_all add: emit_inst_def IConstF64 emit_const_f64_def split_def Let_def exec_pushes room1)
  next
    case (IConstStr ix)
    have x: "vals' = vals(result i \<mapsto> Str (pool_text (module_pool cenv) ix))" "w' = w"
      using run by (auto simp: run_inst_def IConstStr call_sem_def core_sem_def)
    have "value_in E fr (result i) = Str (pool_text (module_pool cenv) ix)"
      unfolding ready_value [OF r] using unused
      by (auto simp: emit_inst_def IConstStr emit_const_str_def value_in_def entry_def unused_def pool_text_def Let_def)
    with mono show ?thesis unfolding x
      by (auto simp: emit_inst_def IConstStr emit_const_str_def Let_def intro!: holds_set_value)
  next
    case (ICopy u)
    obtain x where x: "vals u = Some x" "vals' = vals(result i \<mapsto> x)" "w' = w"
      using run by (auto simp: run_inst_def ICopy call_sem_def core_sem_def Option.bind_eq_Some_conv split: option.splits)
    show ?thesis unfolding x(2,3)
      by (rule local_inst [OF r, where ?e0.0 = e and ops = "[]" and vs = "[u]" and xs = "[x]"])
        (use core in \<open>simp_all add: emit_inst_def ICopy emit_copy_def split_def Let_def x core_inst_def room1
          push_values_def\<close>)
  next
    case (IBinary bop a b)
    obtain x y z where x: "vals a = Some x" "vals b = Some y" "bin_values (std m) bop x y = Some z"
      "vals' = vals(result i \<mapsto> z)" "w' = w"
      using run by (auto simp: run_inst_def IBinary call_sem_def core_sem_def Option.bind_eq_Some_conv split: option.splits)
    show ?thesis unfolding x(4,5)
      by (rule local_inst [OF r, where ?e0.0 = e and ops = "[OpArith (bin_code bop)]" and vs = "[a, b]" and xs = "[x, y]"])
        (use core room in \<open>simp_all add: emit_inst_def IBinary emit_binary_def emit_two_def split_def Let_def x
          core_inst_def push_values_def computes_op exec_bin\<close>)
  next
    case (ICmp pred a b)
    obtain x y z where x: "vals a = Some x" "vals b = Some y" "cmp_values (std m) pred x y = Some z"
      "vals' = vals(result i \<mapsto> Bool z)" "w' = w"
      using run by (auto simp: run_inst_def ICmp call_sem_def core_sem_def Option.bind_eq_Some_conv split: option.splits)
    note cmp = computes_cmp [where st = "[]", OF x(3), simplified, OF room(1) [unfolded numeral_2_eq_2], of ex p fr]
    show ?thesis unfolding x(4,5)
      by (rule local_inst [OF r, where ?e0.0 = e and ops = "snd (cmp_code pred)"
            and vs = "if fst (cmp_code pred) then [b, a] else [a, b]"
            and xs = "if fst (cmp_code pred) then [y, x] else [x, y]"])
        (use core room cmp in \<open>simp_all add: emit_inst_def ICmp emit_cmp_def emit_two_def split_def Let_def x
          core_inst_def push_values_def split: if_splits\<close>)
  next
    case (IStrEq a b)
    obtain x y where x: "vals a = Some x" "vals b = Some y"
      "vals' = vals(result i \<mapsto> Bool (eq_str_values x y))" "w' = w"
      using run by (auto simp: run_inst_def IStrEq call_sem_def core_sem_def Option.bind_eq_Some_conv split: option.splits)
    show ?thesis unfolding x(3,4)
      by (rule local_inst [OF r, where ?e0.0 = e and ops = "[OpArith EqStr]" and vs = "[a, b]" and xs = "[x, y]"])
        (use core room in \<open>simp_all add: emit_inst_def IStrEq emit_two_def split_def Let_def x
          core_inst_def push_values_def computes_op exec_compare\<close>)
  next
    case (IStrConcat a b)
    obtain x y where x: "vals a = Some x" "vals b = Some y"
      "vals' = vals(result i \<mapsto> Str (value_to_string (std m) x @ value_to_string (std m) y))" "w' = w"
      using run by (auto simp: run_inst_def IStrConcat call_sem_def core_sem_def Option.bind_eq_Some_conv split: option.splits)
    show ?thesis unfolding x(3,4)
      by (rule local_inst [OF r, where ?e0.0 = e and ops = "[OpArith ConcatStr]" and vs = "[a, b]" and xs = "[x, y]"])
        (use core room in \<open>simp_all add: emit_inst_def IStrConcat emit_two_def split_def Let_def x
          core_inst_def push_values_def computes_op exec_compare\<close>)
  next
    case IAlloca
    have x: "vals' = vals(result i \<mapsto> I64 0)" "w' = w"
      using run by (auto simp: run_inst_def IAlloca call_sem_def core_sem_def)
    have "value_in E fr (result i) = I64 0"
      unfolding ready_value [OF r] using unused
      by (simp add: emit_inst_def IAlloca emit_alloca_def value_in_def entry_def unused_def)
    with mono show ?thesis unfolding x
      by (auto simp: emit_inst_def IAlloca emit_alloca_def intro!: holds_set_value)
  next
    case (ILoad q)
    obtain x where x: "w q = Some x" "vals' = vals(result i \<mapsto> x)" "w' = w"
      using run by (auto simp: run_inst_def ILoad call_sem_def core_sem_def Option.bind_eq_Some_conv)
    have "alloca_slot E q = alloca_slot e q" using cell core by (simp add: core_inst_def ILoad)
    with mono x(1) obtain k where k: "alloca_slot e q = Some k" "slot_get fr k = x"
      unfolding holds_values_def by metis
    show ?thesis unfolding x(2,3)
      by (rule const_inst [OF r, where ?e0.0 = e and x = "LocalGet k"])
        (simp_all add: emit_inst_def ILoad emit_load_def split_def Let_def exec_pushes room1 k)
  next
    case (IStore q u)
    obtain x where x: "vals u = Some x" "vals' = vals(result i \<mapsto> I64 0)" "w' = w(q \<mapsto> x)"
      using run
      by (auto simp: run_inst_def IStore call_sem_def core_sem_def Option.bind_eq_Some_conv split: option.splits)
    obtain k where k: "alloca_slot e q = Some k"
      using tab core by (auto simp: tables_ok_def core_inst_def IStore)
    have kE: "alloca_slot E q = Some k" using cell [of q] core k by (simp add: core_inst_def IStore)
    have e': "emit_inst cenv i e = put [LocalSet k] (push_value u e)"
      by (simp add: emit_inst_def IStore emit_store_def k)
    have "value_in e fr u = x"
      using ready_operand [OF r, of u e] core mono x(1) by (simp add: core_inst_def IStore holds_values_def)
    then have ops: "computes m ex p s [] (rev (map (value_in e fr) [u])) fr [x] fr" by simp
    have "leads m ex p (in_state s (length (out_code e)) [] fr)
        (in_state s (length (out_code (emit_inst cenv i e))) [] (slot_put k x fr))"
      by (rule run_to_local [OF _ _ _ _ _ _ _ _ _ _ ops, where K = K and T = T])
        (use r room1 in \<open>simp_all add: ready_def e' push_values_def\<close>)
    moreover have "value_in E (slot_put k x fr) (result i) = I64 0"
    proof -
      have "entry (result i) (emit_inst cenv i e) = unused" by (simp add: e' keeps unused)
      then have "entry (result i) E = unused" using r by (simp add: ready_def)
      then show ?thesis by (simp add: value_in_def entry_def unused_def)
    qed
    ultimately show ?thesis
      using mono kE r unfolding x(2,3) by (auto simp: ready_def intro!: holds_set_value holds_set_cell)
  next
    case (ICall g args ty)
    obtain xs x where x: "those (map vals args) = Some xs" "calls g xs = Some x" "vals' = vals(result i \<mapsto> x)" "w' = w"
      using run by (auto simp: run_inst_def ICall call_sem_def Option.bind_eq_Some_conv)
    show ?thesis unfolding x(3,4)
      by (rule call_inst [OF r _ _ x(1) calls _ x(2)])
        (use core room room1 in \<open>auto simp: emit_inst_def ICall emit_call_core core_inst_def room_def\<close>)
  qed (use core phi in \<open>simp_all add: core_inst_def is_phi_def\<close>)
qed

end
