(* ===== verification/Emit_Flow.thy ===== *)
theory Emit_Flow
  imports Emit_Sim Opt_Correct
begin

text \<open>
  The machine follows the semantics through a block: its instructions, and the terminator with the
  assignments to the phis of the block it jumps to.
\<close>

section \<open>Straight-line code\<close>

fun core_insts :: "rstring list \<Rightarrow> u32 set \<Rightarrow> u32 set \<Rightarrow> inst list \<Rightarrow> bool" where
  "core_insts names D A [] = True"
| "core_insts names D A (i # is) =
     (core_inst names D A (kind i) \<and> (if is_phi i then result i \<in> D else result i \<notin> D) \<and>
      core_insts names (insert (result i) D) (if is_alloca (kind i) then insert (result i) A else A) is)"

definition cells_in :: "inst list \<Rightarrow> u32 set" where
  "cells_in is = set (map result (filter (\<lambda>i. is_alloca (kind i)) is))"

lemma cells_in_simps [simp]: "cells_in [] = {}"
  "cells_in (i # is) = (if is_alloca (kind i) then insert (result i) (cells_in is) else cells_in is)"
  by (simp_all add: cells_in_def)

lemma tables_insts:
  assumes "core_insts (func_names cenv) D A is" "tables_ok D A n e" "n + length is < 2 ^ 32"
  shows "tables_ok (D \<union> result ` set is) (A \<union> cells_in is) (n + length is) (fold (emit_inst cenv) is e)"
  using assms
proof (induction "is" arbitrary: D A n e)
  case (Cons i "is")
  have "tables_ok (insert (result i) D) (if is_alloca (kind i) then insert (result i) A else A) (n + 1)
      (emit_inst cenv i e)"
    by (rule tables_inst) (use Cons.prems in \<open>auto split: if_splits\<close>)
  from Cons.IH [OF _ this] Cons.prems show ?case by (cases "is_alloca (kind i)") simp_all
qed simp

lemma emit_phi [simp]: "is_phi i \<Longrightarrow> emit_inst cenv i e = e"
  by (auto simp: is_phi_iff emit_inst_def)

lemma entry_insts:
  "core_insts (func_names cenv) D A is \<Longrightarrow> v \<in> D \<Longrightarrow> entry v (fold (emit_inst cenv) is e) = entry v e"
proof (induction "is" arbitrary: D A e)
  case (Cons i "is")
  have "entry v (emit_inst cenv i e) = entry v e"
  proof (cases "is_phi i")
    case False
    with Cons.prems have "v \<noteq> result i" by auto
    with Cons.prems show ?thesis by (intro entry_inst) auto
  qed simp
  moreover have "core_insts (func_names cenv) (insert (result i) D)
      (if is_alloca (kind i) then insert (result i) A else A) is" using Cons.prems(1) by simp
  ultimately show ?case using Cons.IH Cons.prems(2) by simp
qed simp

lemma simulate_insts:
  fixes m :: "'w env"
  assumes "core_insts (func_names cenv) D A is" "\<forall>i\<in>set is. \<not> is_phi i" "tables_ok D A n e"
    "n + length is < 2 ^ 32" "placed p T K e (fold (emit_inst cenv) is e)" "tidy e"
    "length (strings p) \<le> 2 ^ 32"
    "\<forall>v\<in>D \<union> result ` set is. entry v (fold (emit_inst cenv) is e) = entry v E" "slots_ok E"
    "holds_values E vals w fr"
    "run_insts (call_sem (std m) (module_pool cenv) calls) pre env0 is (vals, w) = Some (vals', w')"
    "calls_run m ex p K (func_names cenv) calls s" "room m s 2"
    "\<forall>i\<in>set is. room m s (length (operands (kind i)))"
  shows "\<exists>fr'. leads m ex p (in_state s (length (out_code e)) [] fr)
      (in_state s (length (out_code (fold (emit_inst cenv) is e))) [] fr') \<and> holds_values E vals' w' fr'"
  using assms
proof (induction "is" arbitrary: D A n e vals w fr)
  case Nil
  then show ?case by auto
next
  case (Cons i "is")
  let ?e1 = "emit_inst cenv i e" and ?D = "insert (result i) D"
  let ?A = "if is_alloca (kind i) then insert (result i) A else A"
  have core: "core_inst (func_names cenv) D A (kind i)" "result i \<notin> D" "\<not> is_phi i"
    "core_insts (func_names cenv) ?D ?A is"
    using Cons.prems(1,2) by (auto split: if_splits)
  obtain v1 w1 where run: "run_inst (call_sem (std m) (module_pool cenv) calls) pre env0 i (vals, w) = Some (v1, w1)"
    "run_insts (call_sem (std m) (module_pool cenv) calls) pre env0 is (v1, w1) = Some (vals', w')"
    using Cons.prems(11) by (auto simp: Option.bind_eq_Some_conv)
  have tidy1: "tidy ?e1" using Cons.prems(6) extends_inst by (rule tidy_extends)
  have pl: "placed p T K e (fold (emit_inst cenv) is ?e1)" using Cons.prems(5) by simp
  have pl1: "placed p T K e ?e1" by (rule placed_fst [OF pl extends_insts tidy1])
  have pl2: "placed p T K ?e1 (fold (emit_inst cenv) is ?e1)"
    by (rule placed_snd [OF pl]) (rule extends_length [OF extends_inst])
  have stable: "entry v ?e1 = entry v E" if "v \<in> ?D" for v
    using entry_insts [OF core(4) that, of ?e1] Cons.prems(8) that by auto
  have "ready m p T K D (result i) e ?e1 E vals w fr"
    unfolding ready_def using pl1 Cons.prems stable core entry_inst [OF core(1)] by auto
  from simulate_inst [OF core(1,3) Cons.prems(3) this run(1) Cons.prems(12,13)] Cons.prems(14)
  obtain fr1 where 1: "leads m ex p (in_state s (length (out_code e)) [] fr) (in_state s (length (out_code ?e1)) [] fr1)"
    "holds_values E v1 w1 fr1"
    by auto
  have "tables_ok ?D ?A (n + 1) ?e1"
    by (rule tables_inst [OF core(1) Cons.prems(3)]) (use core Cons.prems(4) in auto)
  from Cons.IH [OF core(4) _ this _ pl2 tidy1 Cons.prems(7) _ Cons.prems(9) 1(2) run(2) Cons.prems(12,13)]
    Cons.prems(2,4,8,14)
  obtain fr2 where "leads m ex p (in_state s (length (out_code ?e1)) [] fr1)
      (in_state s (length (out_code (fold (emit_inst cenv) is ?e1))) [] fr2)" "holds_values E vals' w' fr2"
    by (auto simp: ac_simps)
  with 1(1) show ?case by (auto intro: leads_trans)
qed

section \<open>Phis\<close>

text \<open>
  The assignments are made one after the other; they are the simultaneous assignment of the semantics
  when no operand is a phi assigned before.
\<close>

fun edge_ok :: "u32 set \<Rightarrow> u32 \<Rightarrow> (u32 \<times> (u32 \<times> u32) list) list \<Rightarrow> bool" where
  "edge_ok D b [] = True"
| "edge_ok D b (phi # phis) =
     ((case map_of (snd phi) b of Some v \<Rightarrow> v \<in> D | None \<Rightarrow> True) \<and> edge_ok (D - {fst phi}) b phis)"

definition phi_of :: "inst \<Rightarrow> u32 \<times> (u32 \<times> u32) list" where
  "phi_of i = (result i, case kind i of IPhi ps \<Rightarrow> ps | _ \<Rightarrow> [])"

lemma placed_push:
  fixes m :: "'w env"
  assumes "placed p T K e (push_value v e)" "tidy e" "length (strings p) \<le> 2 ^ 32" "room m s (length st)"
  shows "leads m ex p (in_state s (length (out_code e)) st fr)
    (in_state s (length (out_code (push_value v e))) (value_in e fr v # st) fr)"
proof -
  obtain x where x: "out_code (push_value v e) = out_code e @ [x]" "patch_jumps (push_value v e) = patch_jumps e"
    "call_patches (push_value v e) = call_patches e"
    "\<And>p (m :: 'w env) ex s i st fr. has_strings p (push_value v e) \<Longrightarrow>
       exec_op m ex p x (in_state s i st fr) = Next (in_state s (Suc i) (value_in e fr v # st) fr)"
    using push_value_op [of v e] by metis
  have "code_at p (length (out_code e)) [x]"
    by (rule placed_straight [OF assms(1) _ assms(2)]) (simp_all add: x)
  moreover have "has_strings p (push_value v e)" using assms(1,3) by (auto simp: placed_def has_strings_def)
  ultimately show ?thesis using leads_op [OF _ assms(4) x(4)] by (simp add: x)
qed

lemma placed_op:
  assumes "placed p T K e (put [x] e)" "tidy e" "room m s (length st)"
    "\<And>i. exec_op m ex p x (in_state s i st fr) = Next (in_state s (Suc i) st' fr')"
  shows "leads m ex p (in_state s (length (out_code e)) st fr) (in_state s (length (out_code (put [x] e))) st' fr')"
proof -
  have "code_at p (length (out_code e)) [x]"
    by (rule placed_straight [OF assms(1) _ assms(2)]) simp_all
  from leads_op [OF this assms(3,4)] show ?thesis by simp
qed

lemma extends_assign_phi: "extends e (assign_phi b phi e)"
  by (auto simp: assign_phi_def Let_def intro!: extends_steps4 split: option.split)

lemma entry_assign_phi [keeps]: "entry v (assign_phi b phi e) = entry v e"
  by (simp add: assign_phi_def Let_def keeps split: option.split)

lemma simulate_phis:
  fixes m :: "'w env"
  assumes "\<forall>i\<in>set phis. is_phi i" "placed p T K e (fold (assign_phi b) (map phi_of phis) e)" "tidy e"
    "length (strings p) \<le> 2 ^ 32" "room m s 1"
    "edge_ok D b (map phi_of phis)" "\<forall>v\<in>D. entry v e = entry v E"
    "\<forall>i\<in>set phis. val_local e (result i) \<noteq> None \<and> entry (result i) e = entry (result i) E"
    "slots_ok E" "holds_values E acc w fr" "\<forall>v\<in>D. acc v = vals v"
    "run_insts sem (Some b) vals phis (acc, w) = Some (acc', w')"
  shows "w' = w \<and> (\<exists>fr'. leads m ex p (in_state s (length (out_code e)) [] fr)
      (in_state s (length (out_code (fold (assign_phi b) (map phi_of phis) e))) [] fr') \<and>
      holds_values E acc' w fr')"
  using assms
proof (induction phis arbitrary: D e acc fr)
  case Nil
  then show ?case by auto
next
  case (Cons i phis)
  obtain ps where ps: "kind i = IPhi ps" using Cons.prems(1) by (auto simp: is_phi_iff)
  obtain v x where v: "map_of ps b = Some v" "vals v = Some x"
    and rest: "run_insts sem (Some b) vals phis (acc(result i \<mapsto> x), w) = Some (acc', w')"
    using Cons.prems(12)
    by (auto simp: run_inst_phi [OF ps] phi_value_def Option.bind_eq_Some_conv)
  have phi: "phi_of i = (result i, ps)" by (simp add: phi_of_def ps)
  have edge: "v \<in> D" "edge_ok (D - {result i}) b (map phi_of phis)"
    using Cons.prems(6) v(1) by (auto simp: phi)
  obtain dst where dst: "val_local e (result i) = Some dst" using Cons.prems(8) by auto
  let ?e1 = "push_value v e" let ?e2 = "put [LocalSet dst] ?e1"
  have e2: "assign_phi b (phi_of i) e = ?e2"
    by (simp add: assign_phi_def phi_of_def ps v(1) Let_def dst)
  have pl: "placed p T K e (fold (assign_phi b) (map phi_of phis) ?e2)" using Cons.prems(2) by (simp add: e2)
  have tidy: "tidy ?e1" "tidy ?e2"
    using Cons.prems(3) by (auto intro: tidy_extends [OF _ extends_push_value]
        tidy_extends [OF tidy_extends [OF _ extends_push_value] extends_put])
  have ext: "extends ?e2 (fold (assign_phi b) (map phi_of phis) ?e2)"
    by (rule extends_fold) (rule extends_assign_phi)
  have pl2: "placed p T K e ?e2" by (rule placed_fst [OF pl ext tidy(2)])
  have pl1: "placed p T K e ?e1" by (rule placed_fst [OF pl2 extends_put tidy(1)])
  have "value_in e fr v = value_in E fr v"
    by (rule value_in_entry) (use Cons.prems(7) edge(1) in auto)
  moreover have "acc v = Some x" using Cons.prems(11) edge(1) v(2) by simp
  ultimately have x: "value_in e fr v = x" using Cons.prems(10) by (simp add: holds_values_def)
  have 1: "leads m ex p (in_state s (length (out_code e)) [] fr) (in_state s (length (out_code ?e1)) [x] fr)"
    using placed_push [OF pl1 Cons.prems(3,4), of m s "[]" ex fr] Cons.prems(5) by (simp add: x room_def)
  have 2: "leads m ex p (in_state s (length (out_code ?e1)) [x] fr)
      (in_state s (length (out_code ?e2)) [] (slot_put dst x fr))"
    using placed_snd [OF pl2 extends_length [OF extends_push_value]] Cons.prems(5)
    by (intro placed_op) (auto simp: tidy exec_pushes)
  have "val_local E (result i) = Some dst"
    using dst Cons.prems(8) val_local_keeps [of "result i" e E] by simp
  then have holds: "holds_values E (acc(result i \<mapsto> x)) w (slot_put dst x fr)"
    by (rule holds_set_local [OF Cons.prems(10,9)])
  have same: "entry u ?e2 = entry u e" for u by (simp add: keeps)
  have "w' = w \<and> (\<exists>fr'. leads m ex p (in_state s (length (out_code ?e2)) [] (slot_put dst x fr))
      (in_state s (length (out_code (fold (assign_phi b) (map phi_of phis) ?e2))) [] fr') \<and>
      holds_values E acc' w fr')"
  proof (rule Cons.IH [OF _ _ tidy(2) Cons.prems(4,5) edge(2) _ _ Cons.prems(9) holds _ rest])
    show "placed p T K ?e2 (fold (assign_phi b) (map phi_of phis) ?e2)"
      using extends_length [OF extends_push_value, of e v] by (intro placed_snd [OF pl]) simp
    show "\<forall>v\<in>D - {result i}. (acc(result i \<mapsto> x)) v = vals v" using Cons.prems(11) by simp
  qed (use Cons.prems(1,7,8) same in auto)
  with leads_trans [OF 1 2] show ?case by (auto simp: e2 intro: leads_trans)
qed

section \<open>Terminators\<close>

lemma entry_code: "entry v (e\<lparr>out_code := c\<rparr>) = entry v e"
  by (simp add: entry_def)

text \<open>What the proofs about terminators start from; the edges are those to the block \<open>bb\<close>.\<close>

definition at_end ::
  "'w env \<Rightarrow> program \<Rightarrow> u32 set \<Rightarrow> phi_info \<Rightarrow> emit \<Rightarrow> emit \<Rightarrow> vm_value ssa_env \<Rightarrow> cells \<Rightarrow> frame \<Rightarrow> bool"
where
  "at_end m p D info e E vals w fr \<longleftrightarrow>
     tidy e \<and> length (strings p) \<le> 2 ^ 32 \<and> length (code p) < 2 ^ 32 \<and> (\<forall>v\<in>D. entry v e = entry v E) \<and>
     (\<forall>phi\<in>set (concat info). val_local e (fst phi) \<noteq> None \<and> fst phi \<in> D) \<and>
     slots_ok E \<and> holds_values E vals w fr"

lemma at_end_step:
  assumes "at_end m p D info e E vals w fr" "extends e e'" "\<And>v. entry v e' = entry v e"
  shows "at_end m p D info e' E vals w fr"
  using assms tidy_extends [OF _ assms(2)] val_local_keeps [OF assms(3)]
  unfolding at_end_def by auto

lemma at_end_value:
  assumes "at_end m p D info e E vals w fr" "v \<in> D" "vals v = Some x"
  shows "value_in e fr v = x"
proof -
  have "value_in e fr v = value_in E fr v"
    by (rule value_in_entry) (use assms in \<open>auto simp: at_end_def\<close>)
  with assms show ?thesis by (auto simp: at_end_def holds_values_def)
qed

lemma at_end_push:
  fixes m :: "'w env"
  assumes "at_end m p D info e E vals w fr" "v \<in> D" "vals v = Some x"
    "placed p T K e (push_value v e)" "room m s 1"
  shows "leads m ex p (in_state s (length (out_code e)) [] fr) (in_state s (length (out_code (push_value v e))) [x] fr)"
  using placed_push [OF assms(4), of m s "[]" ex fr] assms(1,5) at_end_value [OF assms(1-3)]
  by (simp add: at_end_def room_def)

text \<open>The phis of a block, as its head.\<close>

definition phis_of :: "phi_info \<Rightarrow> u32 \<Rightarrow> inst list \<Rightarrow> bool" where
  "phis_of info bb phis \<longleftrightarrow>
     unat bb < length info \<and> (\<forall>i\<in>set phis. is_phi i) \<and> info ! unat bb = map phi_of phis"

lemma simulate_jump:
  fixes m :: "'w env"
  assumes st: "at_end m p D info e E vals w fr" and pl: "placed p T K e (jump_to info b bb e)"
    and room: "room m s 1" and phis: "phis_of info bb phis" and edge: "edge_ok D b (info ! unat bb)"
    and run: "run_insts sem (Some b) vals phis (vals, w) = Some (vals', w')"
  shows "w' = w \<and> (\<exists>fr'. leads m ex p (in_state s (length (out_code e)) [] fr) (in_state s (unat (T bb)) [] fr') \<and>
    holds_values E vals' w fr')"
proof -
  let ?e1 = "fold (assign_phi b) (map phi_of phis) e"
  have e1: "emit_phi_assignments info b bb e = ?e1"
    using phis by (simp add: emit_phi_assignments_def phis_of_def)
  have tidy: "tidy e" "tidy ?e1"
    using st by (auto simp: at_end_def intro: tidy_extends [OF _ extends_fold [OF extends_assign_phi]])
  have pl2: "placed p T K e (add_jump (Jump 0) bb ?e1)" using pl by (simp add: jump_to_def e1)
  have pl1: "placed p T K e ?e1" by (rule placed_fst [OF pl2 extends_add_jump tidy(2)])
  have "val_local e (result i) \<noteq> None \<and> entry (result i) e = entry (result i) E" if "i \<in> set phis" for i
  proof -
    have "unat bb < length info" using phis by (simp add: phis_of_def)
    then have "info ! unat bb \<in> set info" by (rule nth_mem)
    moreover have "phi_of i \<in> set (info ! unat bb)" using phis that by (simp add: phis_of_def)
    ultimately have "phi_of i \<in> set (concat info)" unfolding set_concat by blast
    then show ?thesis using st by (fastforce simp: at_end_def phi_of_def)
  qed
  with simulate_phis [OF _ pl1 tidy(1) _ room _ _ _ _ _ _ run, of D E fr ex] st phis edge
  obtain fr' where fr': "w' = w" "leads m ex p (in_state s (length (out_code e)) [] fr)
      (in_state s (length (out_code ?e1)) [] fr')" "holds_values E vals' w fr'"
    by (auto simp: at_end_def phis_of_def)
  have "code_at p (length (out_code ?e1)) [Jump (T bb)]"
    using placed_jump [OF placed_snd [OF pl2 extends_length [OF extends_fold [OF extends_assign_phi]]]]
    by (simp add: retarget_def)
  from leads_op [OF this _ exec_jumps(1), of m s "[]"] room
  have "leads m ex p (in_state s (length (out_code ?e1)) [] fr') (in_state s (unat (T bb)) [] fr')"
    by (auto simp: room_def)
  with fr' show ?thesis by (auto intro: leads_trans)
qed

text \<open>A conditional jump goes behind the code of the body or into it.\<close>

lemma simulate_unless:
  fixes m :: "'w env"
  assumes pl: "placed p T K e (unless_jump body e)" and "tidy e" and room: "room m s 1"
    and ext: "extends (put [JumpIfFalse 0] e) (body (put [JumpIfFalse 0] e))" and "length (code p) < 2 ^ 32"
  shows "leads m ex p (in_state s (length (out_code e)) [Bool c] fr)
      (in_state s (if c then Suc (length (out_code e)) else length (out_code (unless_jump body e))) [] fr)"
    and "placed p T K (put [JumpIfFalse 0] e) (body (put [JumpIfFalse 0] e))"
proof -
  let ?e1 = "body (put [JumpIfFalse 0] e)"
  have same: "length (out_code (unless_jump body e)) = length (out_code ?e1)"
    by (simp add: unless_jump_def Let_def)
  have at: "code_at p (length (out_code e)) [JumpIfFalse (of_nat (length (out_code ?e1)))]"
    by (rule placed_unless(1) [OF pl \<open>tidy e\<close> ext])
  have "length (out_code ?e1) \<le> length (code p)" using pl by (simp add: placed_def same)
  then have "unat (of_nat (length (out_code ?e1)) :: u32) = length (out_code ?e1)"
    using assms(5) by (simp add: unat_of_nat)
  with leads_op [OF at, of m s "[Bool c]" ex fr] room
  show "leads m ex p (in_state s (length (out_code e)) [Bool c] fr)
      (in_state s (if c then Suc (length (out_code e)) else length (out_code (unless_jump body e))) [] fr)"
    by (auto simp: exec_jumps room_def same)
  show "placed p T K (put [JumpIfFalse 0] e) ?e1" by (rule placed_unless(2) [OF pl \<open>tidy e\<close> ext])
qed

definition core_term :: "u32 set \<Rightarrow> phi_info \<Rightarrow> u32 \<Rightarrow> terminator \<Rightarrow> bool" where
  "core_term D info b t =
     (let edge = (\<lambda>bb. unat bb < length info \<and> edge_ok D b (info ! unat bb))
      in case t of
           TRet None \<Rightarrow> True
         | TRet (Some v) \<Rightarrow> v \<in> D
         | TBr bb \<Rightarrow> edge bb
         | TCondBr c x y \<Rightarrow> c \<in> D \<and> edge x \<and> edge y
         | TSwitch v dflt cases \<Rightarrow> v \<in> D \<and> edge dflt \<and> (\<forall>c\<in>set cases. edge (snd c))
         | _ \<Rightarrow> False)"

lemma simulate_cond:
  fixes m :: "'w env"
  assumes st: "at_end m p D info e E vals w fr" and pl: "placed p T K e (emit_cond_br info b c x y e)"
    and c: "c \<in> D" "vals c = Some (Bool t)" and room: "room m s 1"
    and edges: "edge_ok D b (info ! unat x)" "edge_ok D b (info ! unat y)"
    and phis: "phis_of info (if t then x else y) phis"
    and run: "run_insts sem (Some b) vals phis (vals, w) = Some (vals', w')"
  shows "w' = w \<and> (\<exists>fr'. leads m ex p (in_state s (length (out_code e)) [] fr)
    (in_state s (unat (T (if t then x else y))) [] fr') \<and> holds_values E vals' w fr')"
proof -
  let ?e1 = "push_value c e" let ?e2 = "unless_jump (jump_to info b x) ?e1" let ?e3 = "put [JumpIfFalse 0] ?e1"
  have e: "emit_cond_br info b c x y e = jump_to info b y ?e2" by (simp add: emit_cond_br_def)
  have ext: "extends ?e3 (jump_to info b x ?e3)" by (rule extends_jump_to)
  have ext2: "extends ?e1 ?e2" by (rule extends_unless_jump) (rule ext)
  have entries: "entry v ?e1 = entry v e" "entry v ?e2 = entry v e" "entry v ?e3 = entry v e" for v
    by (simp_all add: keeps unless_jump_def Let_def jump_to_def entry_code)
  have st1: "at_end m p D info ?e1 E vals w fr" "at_end m p D info ?e2 E vals w fr"
    "at_end m p D info ?e3 E vals w fr"
    using at_end_step [OF st extends_push_value, of c] at_end_step [OF st extends_trans [OF extends_push_value ext2]]
      at_end_step [OF st extends_trans [OF extends_push_value extends_put], of "[JumpIfFalse 0]" c] entries by auto
  then have tidy: "tidy ?e1" "tidy ?e2" "tidy ?e3" and len: "length (code p) < 2 ^ 32" by (auto simp: at_end_def)
  have pl2: "placed p T K e ?e2" by (rule placed_fst [OF pl [unfolded e] extends_jump_to tidy(2)])
  have pl1: "placed p T K e ?e1" by (rule placed_fst [OF pl2 ext2 tidy(1)])
  have plu: "placed p T K ?e1 ?e2" by (rule placed_snd [OF pl2]) (rule extends_length [OF extends_push_value])
  have ply: "placed p T K ?e2 (jump_to info b y ?e2)"
    by (rule placed_snd [OF pl [unfolded e]])
      (rule extends_length [OF extends_trans [OF extends_push_value ext2]])
  note push = at_end_push [OF st c pl1 room, of ex]
  note jump = simulate_unless(1) [OF plu tidy(1) room ext len, of ex t fr]
    simulate_unless(2) [OF plu tidy(1) room ext len]
  show ?thesis
  proof (cases t)
    case True
    have phis: "phis_of info x phis" using phis True by simp
    from simulate_jump [OF st1(3) jump(2) room phis edges(1) run, of ex]
    show ?thesis using leads_trans [OF push jump(1)] True by (auto intro: leads_trans)
  next
    case False
    have phis: "phis_of info y phis" using phis False by simp
    from simulate_jump [OF st1(2) ply room phis edges(2) run, of ex]
    show ?thesis using leads_trans [OF push jump(1)] False by (auto intro: leads_trans)
  qed
qed

text \<open>A case of a switch compares, and jumps or goes on behind its code.\<close>

lemma simulate_case:
  fixes m :: "'w env"
  assumes st: "at_end m p D info e E vals w fr" and pl: "placed p T K e (emit_case info b v (n, bb) e)"
    and v: "v \<in> D" "vals v = Some x" "eq_values (std m) x (I64 n) = Some t" and room: "room m s 2"
  shows "t \<Longrightarrow> edge_ok D b (info ! unat bb) \<Longrightarrow> phis_of info bb phis \<Longrightarrow>
      run_insts sem (Some b) vals phis (vals, w) = Some (vals', w') \<Longrightarrow>
      w' = w \<and> (\<exists>fr'. leads m ex p (in_state s (length (out_code e)) [] fr) (in_state s (unat (T bb)) [] fr') \<and>
      holds_values E vals' w fr')"
    and "\<not> t \<Longrightarrow> leads m ex p (in_state s (length (out_code e)) [] fr)
      (in_state s (length (out_code (emit_case info b v (n, bb) e))) [] fr)"
    and "at_end m p D info (emit_case info b v (n, bb) e) E vals w fr"
proof -
  let ?e1 = "push_value v e" let ?e2 = "put [PushI64 n, OpArith EqI64] ?e1"
  let ?e4 = "put [JumpIfFalse 0] ?e2" let ?e3 = "unless_jump (jump_to info b bb) ?e2"
  have e: "emit_case info b v (n, bb) e = ?e3" by (simp add: emit_case_def)
  have ext: "extends ?e4 (jump_to info b bb ?e4)" by (rule extends_jump_to)
  have ext2: "extends e ?e2" "extends ?e1 ?e2" by (intro extends_steps4 extends_refl)+
  have ext3: "extends ?e2 ?e3" by (rule extends_unless_jump) (rule ext)
  have entries: "entry u ?e1 = entry u e" "entry u ?e2 = entry u e" "entry u ?e3 = entry u e"
    "entry u ?e4 = entry u e" for u
    by (simp_all add: keeps unless_jump_def Let_def jump_to_def entry_code)
  have st1: "at_end m p D info ?e1 E vals w fr" "at_end m p D info ?e2 E vals w fr"
    "at_end m p D info ?e3 E vals w fr" "at_end m p D info ?e4 E vals w fr"
    using at_end_step [OF st extends_push_value, of v] at_end_step [OF st ext2(1)]
      at_end_step [OF st extends_trans [OF ext2(1) ext3]]
      at_end_step [OF st extends_trans [OF ext2(1) extends_put], of "[JumpIfFalse 0]"] entries by auto
  then show "at_end m p D info (emit_case info b v (n, bb) e) E vals w fr" by (simp add: e)
  have tidy: "tidy ?e1" "tidy ?e2" "tidy ?e4" and len: "length (code p) < 2 ^ 32"
    using st1 by (auto simp: at_end_def)
  have room1: "room m s 1" using room by (simp add: room_def)
  have pl3: "placed p T K e ?e3" using pl by (simp add: e)
  have pl2: "placed p T K e ?e2" by (rule placed_fst [OF pl3 ext3 tidy(2)])
  have pl1: "placed p T K e ?e1" by (rule placed_fst [OF pl2 extends_put tidy(1)])
  have plo: "placed p T K ?e1 ?e2" by (rule placed_snd [OF pl2]) (rule extends_length [OF extends_push_value])
  have plu: "placed p T K ?e2 ?e3" by (rule placed_snd [OF pl3]) (rule extends_length [OF ext2(1)])
  have push: "leads m ex p (in_state s (length (out_code e)) [] fr) (in_state s (length (out_code ?e1)) [x] fr)"
    by (rule at_end_push [OF st v(1,2) pl1 room1])
  have "code_at p (length (out_code ?e1)) [PushI64 n, OpArith EqI64]"
    by (rule placed_straight [OF plo _ tidy(1)]) simp_all
  moreover have "computes m ex p s [PushI64 n, OpArith EqI64] [x] fr [Bool t] fr"
    using room v(3) by (intro computes_Cons [OF computes_op computes_op]) (auto simp: exec_pushes exec_compare room_def)
  ultimately have eq: "leads m ex p (in_state s (length (out_code ?e1)) [x] fr) (in_state s (length (out_code ?e2)) [Bool t] fr)"
    by (simp add: computes_def)
  note jump = leads_trans [OF leads_trans [OF push eq] simulate_unless(1) [OF plu tidy(2) room1 ext len]]
  show "leads m ex p (in_state s (length (out_code e)) [] fr)
      (in_state s (length (out_code (emit_case info b v (n, bb) e))) [] fr)" if "\<not> t"
    using jump that by (simp add: e)
  show "w' = w \<and> (\<exists>fr'. leads m ex p (in_state s (length (out_code e)) [] fr) (in_state s (unat (T bb)) [] fr') \<and>
      holds_values E vals' w fr')"
    if "t" "edge_ok D b (info ! unat bb)" "phis_of info bb phis"
      "run_insts sem (Some b) vals phis (vals, w) = Some (vals', w')"
    using simulate_jump [OF st1(4) simulate_unless(2) [OF plu tidy(2) room1 ext len] room1 that(3,2,4), of ex]
      jump that(1) by (auto intro: leads_trans)
qed

lemma simulate_cases:
  fixes m :: "'w env"
  assumes "at_end m p D info e E vals w fr" "placed p T K e (emit_switch info b v dflt cs e)"
    "v \<in> D" "vals v = Some x" "switch_target (std m) x cs dflt = Some bb" "room m s 2"
    "edge_ok D b (info ! unat dflt)" "\<forall>c\<in>set cs. edge_ok D b (info ! unat (snd c))"
    "phis_of info bb phis" "run_insts sem (Some b) vals phis (vals, w) = Some (vals', w')"
  shows "w' = w \<and> (\<exists>fr'. leads m ex p (in_state s (length (out_code e)) [] fr) (in_state s (unat (T bb)) [] fr') \<and>
      holds_values E vals' w fr')"
  using assms
proof (induction cs arbitrary: e)
  case Nil
  then have room: "room m s 1" and bb: "dflt = bb" by (simp_all add: room_def)
  have "placed p T K e (jump_to info b bb e)" using Nil.prems(2) by (simp add: emit_switch_def bb)
  from simulate_jump [OF Nil.prems(1) this room Nil.prems(9) _ Nil.prems(10), of ex] Nil.prems(7) bb
  show ?case by simp
next
  case (Cons c cs)
  obtain n cb where c: "c = (n, cb)" by fastforce
  let ?e1 = "emit_case info b v (n, cb) e"
  have rest: "emit_switch info b v dflt (c # cs) e = emit_switch info b v dflt cs ?e1"
    by (simp add: emit_switch_def c)
  have ext: "extends ?e1 (emit_switch info b v dflt cs ?e1)" by (rule extends_switch)
  have "tidy e" using Cons.prems(1) by (simp add: at_end_def)
  then have tidy: "tidy ?e1" using extends_case by (rule tidy_extends)
  have pl: "placed p T K e (emit_switch info b v dflt cs ?e1)" using Cons.prems(2) by (simp add: rest)
  have pl1: "placed p T K e ?e1" by (rule placed_fst [OF pl ext tidy])
  have pl2: "placed p T K ?e1 (emit_switch info b v dflt cs ?e1)"
    by (rule placed_snd [OF pl]) (rule extends_length [OF extends_case])
  obtain t where t: "eq_values (std m) x (I64 n) = Some t" "t \<Longrightarrow> bb = cb"
    "\<not> t \<Longrightarrow> switch_target (std m) x cs dflt = Some bb"
  proof (cases "eq_values (std m) x (I64 n)")
    case None
    with Cons.prems(5) show ?thesis by (simp add: c)
  next
    case (Some t)
    with Cons.prems(5) that [of t] show ?thesis by (cases t) (simp_all add: c)
  qed
  note sim = simulate_case [OF Cons.prems(1) pl1 Cons.prems(3,4) t(1) Cons.prems(6)]
  show ?case
  proof (cases t)
    case True
    with sim(1) [of phis sem vals' w' ex] t(2) Cons.prems(8-10) show ?thesis by (simp add: c)
  next
    case False
    from Cons.IH [OF sim(3) pl2 Cons.prems(3,4) t(3) [OF False] Cons.prems(6,7) _ Cons.prems(9,10)] Cons.prems(8)
      sim(2) [of ex] False
    show ?thesis by (auto intro: leads_trans)
  qed
qed

end
