(* ===== verification/Emit_Func.thy ===== *)
theory Emit_Func
  imports Emit_Flow
begin

text \<open>
  The machine follows the semantics through a function: from the first instruction of its code, with
  its arguments on the stack, to a \<^verbatim>\<open>Ret\<close> with its result on the stack.
\<close>

section \<open>Functions covered\<close>

definition block_ok :: "rstring list \<Rightarrow> phi_info \<Rightarrow> u32 set \<Rightarrow> u32 set \<Rightarrow> nat \<Rightarrow> block_data \<Rightarrow> bool" where
  "block_ok names info D A i b \<longleftrightarrow>
     phis_first (insts b) \<and> core_insts names D A (insts b) \<and>
     core_term (D \<union> result ` set (insts b)) info (of_nat i) (block_term b)"

fun core_blocks :: "rstring list \<Rightarrow> phi_info \<Rightarrow> u32 set \<Rightarrow> u32 set \<Rightarrow> nat \<Rightarrow> block_data list \<Rightarrow> bool" where
  "core_blocks names info D A i [] = True"
| "core_blocks names info D A i (b # bs) =
     (block_ok names info D A i b \<and>
      core_blocks names info (D \<union> result ` set (insts b)) (A \<union> cells_in (insts b)) (Suc i) bs)"

text \<open>Known from the start are the parameters and the phis.\<close>

definition phi_results :: "block_data list \<Rightarrow> u32 list" where
  "phi_results bs = map fst (concat (collect_phis bs))"

definition known_first :: "func \<Rightarrow> u32 set" where
  "known_first f = of_nat ` {..<length (params f)} \<union> set (phi_results (blocks f))"

definition inst_count :: "func \<Rightarrow> nat" where
  "inst_count f = sum_list (map (\<lambda>b. length (insts b)) (blocks f))"

definition core_func :: "rstring list \<Rightarrow> func \<Rightarrow> bool" where
  "core_func names f \<longleftrightarrow>
     core_blocks names (collect_phis (blocks f)) (known_first f) {} 0 (blocks f) \<and>
     length (params f) + 2 * inst_count f < 2 ^ 32 \<and> length (blocks f) < 2 ^ 32 \<and> blocks f \<noteq> []"

text \<open>The machine has room for the operands of every instruction, and for the arguments.\<close>

definition operands_fit :: "nat \<Rightarrow> func \<Rightarrow> bool" where
  "operands_fit n f \<longleftrightarrow>
     2 \<le> n \<and> length (params f) \<le> n \<and>
     (\<forall>b\<in>set (blocks f). \<forall>i\<in>set (insts b). is_phi i \<or> length (operands (kind i)) \<le> n)"

section \<open>Blocks\<close>

lemma entry_term:
  "core_term D info b t \<Longrightarrow> entry v (emit_term cenv info b t e) = entry v e"
proof -
  have jump: "entry v (jump_to info b bb e) = entry v e" for bb e by (simp add: jump_to_def keeps)
  have unless: "(\<And>e. entry v (body e) = entry v e) \<Longrightarrow> entry v (unless_jump body e) = entry v e" for body e
    by (simp add: unless_jump_def Let_def entry_code keeps)
  have "entry v (fold (emit_case info b s) cs e) = entry v e" for s cs e
    by (induction cs arbitrary: e) (simp_all add: emit_case_def unless jump keeps)
  then show "core_term D info b t \<Longrightarrow> entry v (emit_term cenv info b t e) = entry v e"
    by (cases t)
      (auto simp: emit_term_def core_term_def emit_cond_br_def emit_switch_def jump unless keeps split: option.split)
qed

lemma simulate_term:
  fixes m :: "'w env"
  assumes st: "at_end m p D info e E vals w fr" and pl: "placed p T K e (emit_term cenv info b t e)"
    and core: "core_term D info b t" and room: "room m s 2"
    and vs: "those (map vals (term_operands t)) = Some vs"
  shows "core_tsem (std m) t vs w = Some (Leave r w1) \<Longrightarrow>
      \<exists>pos. leads m ex p (in_state s (length (out_code e)) [] fr) (in_state s pos (case r of Some x \<Rightarrow> [x] | None \<Rightarrow> []) fr) \<and>
        code_at p pos [OpBase Ret]"
    and "core_tsem (std m) t vs w = Some (Jump_To bb r w1) \<Longrightarrow> phis_of info bb phis \<Longrightarrow>
      run_insts sem (Some b) vals phis (vals, w1) = Some (vals', w') \<Longrightarrow>
      w1 = w \<and> r = None \<and> w' = w \<and>
      (\<exists>fr'. leads m ex p (in_state s (length (out_code e)) [] fr) (in_state s (unat (T bb)) [] fr') \<and>
        holds_values E vals' w fr')"
proof -
  have room1: "room m s 1" using room by (simp add: room_def)
  have tidy: "tidy e" using st by (simp add: at_end_def)
  show "\<exists>pos. leads m ex p (in_state s (length (out_code e)) [] fr) (in_state s pos (case r of Some x \<Rightarrow> [x] | None \<Rightarrow> []) fr) \<and>
        code_at p pos [OpBase Ret]" if sem: "core_tsem (std m) t vs w = Some (Leave r w1)"
  proof -
    obtain v where t: "t = TRet v" using sem by (cases t) (auto simp: core_tsem_def split: list.splits vm_value.splits)
    show ?thesis
    proof (cases v)
      case None
      have "placed p T K e (put [OpBase Ret] e)" using pl by (simp add: t None emit_term_def)
      then have "code_at p (length (out_code e)) [OpBase Ret]"
        by (rule placed_straight [OF _ _ tidy]) simp_all
      moreover have "r = None" using sem by (simp add: core_tsem_def t None)
      ultimately show ?thesis by (auto intro: exI [of _ "length (out_code e)"])
    next
      case (Some u)
      obtain x where x: "vals u = Some x" "r = Some x"
        using sem vs by (auto simp: core_tsem_def t Some split: option.splits)
      have u: "u \<in> D" using core by (simp add: core_term_def t Some)
      have pl2: "placed p T K e (put [OpBase Ret] (push_value u e))" using pl by (simp add: t Some emit_term_def)
      have tidy1: "tidy (push_value u e)" using tidy extends_push_value by (rule tidy_extends)
      have "leads m ex p (in_state s (length (out_code e)) [] fr) (in_state s (length (out_code (push_value u e))) [x] fr)"
        by (rule at_end_push [OF st u x(1) placed_fst [OF pl2 extends_put tidy1] room1])
      moreover have "code_at p (length (out_code (push_value u e))) [OpBase Ret]"
        by (rule placed_straight [OF placed_snd [OF pl2 extends_length [OF extends_push_value]] _ tidy1]) simp_all
      ultimately show ?thesis using x(2) by auto
    qed
  qed
  show "w1 = w \<and> r = None \<and> w' = w \<and>
      (\<exists>fr'. leads m ex p (in_state s (length (out_code e)) [] fr) (in_state s (unat (T bb)) [] fr') \<and>
        holds_values E vals' w fr')"
    if sem: "core_tsem (std m) t vs w = Some (Jump_To bb r w1)" and phis: "phis_of info bb phis"
      and run: "run_insts sem (Some b) vals phis (vals, w1) = Some (vals', w')"
  proof (cases t)
    case (TBr b')
    have eq: "w1 = w" "r = None" "b' = bb" using sem by (auto simp: core_tsem_def TBr)
    have "placed p T K e (jump_to info b bb e)" using pl by (simp add: TBr emit_term_def eq)
    from simulate_jump [OF st this room1 phis _ run [unfolded eq(1)], of ex] core
    show ?thesis by (simp add: eq core_term_def TBr)
  next
    case (TCondBr c x y)
    obtain q where q: "vals c = Some (Bool q)" "w1 = w" "r = None" "bb = (if q then x else y)"
      using sem vs by (auto simp: core_tsem_def TCondBr split: option.splits vm_value.splits)
    have "placed p T K e (emit_cond_br info b c x y e)" using pl by (simp add: TCondBr emit_term_def)
    from simulate_cond [OF st this _ q(1) room1 _ _ phis [unfolded q(4)] run [unfolded q(2)], of ex] core
    show ?thesis by (simp add: q core_term_def TCondBr)
  next
    case (TSwitch v d cs)
    obtain x where x: "vals v = Some x" "w1 = w" "r = None" "switch_target (std m) x cs d = Some bb"
      using sem vs by (auto simp: core_tsem_def TSwitch split: option.splits)
    have "placed p T K e (emit_switch info b v d cs e)" using pl by (simp add: TSwitch emit_term_def)
    from simulate_cases [OF st this _ x(1,4) room _ _ phis run [unfolded x(2)], of ex] core
    show ?thesis by (simp add: x core_term_def TSwitch)
  qed (use sem in \<open>auto simp: core_tsem_def split: option.splits list.splits\<close>)
qed

text \<open>What holds of the emission of a block, and where it is in the program.\<close>

definition emitted ::
  "emit_env \<Rightarrow> phi_info \<Rightarrow> program \<Rightarrow> (u32 \<Rightarrow> u32) \<Rightarrow> (rstring \<Rightarrow> u32) \<Rightarrow> emit \<Rightarrow> u32 set \<Rightarrow> nat \<Rightarrow> block_data \<Rightarrow>
   u32 \<Rightarrow> bool"
where
  "emitted cenv info p T K E D i b off \<longleftrightarrow>
     (\<exists>e D' A n.
        off = of_nat (length (out_code e)) \<and> tables_ok D' A n e \<and> n + length (insts b) < 2 ^ 32 \<and>
        block_ok (func_names cenv) info D' A i b \<and> tidy e \<and> placed p T K e (emit_block cenv info (i, b) e) \<and>
        (\<forall>v\<in>D' \<union> result ` set (insts b). entry v (fold (emit_inst cenv) (insts b) e) = entry v E) \<and> D \<subseteq> D')"

lemma entry_block:
  assumes "block_ok (func_names cenv) info D A i b" "v \<in> D \<union> result ` set (insts b)"
  shows "entry v (emit_block cenv info (i, b) e) = entry v (fold (emit_inst cenv) (insts b) e)"
  using assms by (auto simp: emit_block_def block_ok_def entry_term)

lemma entry_blocks:
  assumes "core_blocks (func_names cenv) info D A i bs" "v \<in> D"
  shows "entry v (snd (emit_blocks cenv info (enumerate i bs) e)) = entry v e"
  using assms
proof (induction bs arbitrary: D A i e)
  case (Cons b bs)
  have "entry v (emit_block cenv info (i, b) e) = entry v e"
    using Cons.prems entry_insts [of cenv D A "insts b" v e]
    by (auto simp: entry_block [where D = D and A = A] block_ok_def)
  with Cons.IH [of "D \<union> result ` set (insts b)" _ "Suc i" "emit_block cenv info (i, b) e"] Cons.prems
  show ?case by (auto simp: split_def Let_def)
qed simp

lemma tables_same:
  "(\<And>v. entry v e' = entry v e) \<Longrightarrow> next_local e' = next_local e \<Longrightarrow> tables_ok D A n e' = tables_ok D A n e"
proof -
  assume entry: "\<And>v. entry v e' = entry v e" and "next_local e' = next_local e"
  moreover have "val_local e' v = val_local e v" "alloca_slot e' v = alloca_slot e v" for v
    using entry_eqD [OF entry [of v]] by simp_all
  ultimately show "tables_ok D A n e' = tables_ok D A n e"
    using slots_ok_cong [of e' e] by (simp add: tables_ok_def fun_eq_iff)
qed

lemma next_local_term:
  "core_term D info b t \<Longrightarrow> next_local (emit_term cenv info b t e) = next_local e"
proof -
  have assign: "next_local (emit_phi_assignments info b bb e) = next_local e" for bb e
  proof -
    have "next_local (fold (assign_phi b) ps e) = next_local e" for ps
      by (induction ps arbitrary: e) (simp_all add: assign_phi_def Let_def split: option.split)
    then show ?thesis by (simp add: emit_phi_assignments_def)
  qed
  have jump: "next_local (jump_to info b bb e) = next_local e" for bb e by (simp add: jump_to_def assign)
  have unless: "(\<And>e. next_local (body e) = next_local e) \<Longrightarrow> next_local (unless_jump body e) = next_local e" for body e
    by (simp add: unless_jump_def Let_def)
  have "next_local (fold (emit_case info b s) cs e) = next_local e" for s cs e
    by (induction cs arbitrary: e) (simp_all add: emit_case_def unless jump)
  then show "core_term D info b t \<Longrightarrow> next_local (emit_term cenv info b t e) = next_local e"
    by (cases t)
      (auto simp: emit_term_def core_term_def emit_cond_br_def emit_switch_def jump unless split: option.split)
qed

lemma tables_block:
  assumes "block_ok (func_names cenv) info D A i b" "tables_ok D A n e" "n + length (insts b) < 2 ^ 32"
  shows "tables_ok (D \<union> result ` set (insts b)) (A \<union> cells_in (insts b)) (n + length (insts b))
    (emit_block cenv info (i, b) e)"
proof -
  have "tables_ok (D \<union> result ` set (insts b)) (A \<union> cells_in (insts b)) (n + length (insts b))
      (fold (emit_inst cenv) (insts b) e)"
    by (rule tables_insts) (use assms in \<open>auto simp: block_ok_def\<close>)
  moreover have core: "core_term (D \<union> result ` set (insts b)) info (of_nat i) (block_term b)"
    using assms(1) by (simp add: block_ok_def)
  ultimately show ?thesis
    by (simp add: emit_block_def tables_same [OF entry_term [OF core] next_local_term [OF core]])
qed

lemma blocks_emitted:
  assumes "core_blocks (func_names cenv) info D A i bs" "tables_ok D A n e" "tidy e"
    "n + sum_list (map (\<lambda>b. length (insts b)) bs) < 2 ^ 32"
    "placed p T K e (snd (emit_blocks cenv info (enumerate i bs) e))" "j < length bs"
  shows "emitted cenv info p T K (snd (emit_blocks cenv info (enumerate i bs) e)) D (i + j) (bs ! j)
    (fst (emit_blocks cenv info (enumerate i bs) e) ! j)"
  using assms
proof (induction bs arbitrary: D A i n e j)
  case (Cons b bs)
  let ?e1 = "emit_block cenv info (i, b) e" let ?E = "snd (emit_blocks cenv info (enumerate (Suc i) bs) ?e1)"
  let ?D = "D \<union> result ` set (insts b)"
  have ok: "block_ok (func_names cenv) info D A i b" "core_blocks (func_names cenv) info ?D (A \<union> cells_in (insts b)) (Suc i) bs"
    using Cons.prems(1) by auto
  have all: "emit_blocks cenv info (enumerate i (b # bs)) e =
      (of_nat (length (out_code e)) # fst (emit_blocks cenv info (enumerate (Suc i) bs) ?e1), ?E)"
    by (simp add: split_def Let_def)
  have tidy: "tidy ?e1" using Cons.prems(3) extends_block by (rule tidy_extends)
  have pl: "placed p T K e ?E" using Cons.prems(5) unfolding all by simp
  have pl1: "placed p T K e ?e1" by (rule placed_fst [OF pl extends_blocks tidy])
  have pl2: "placed p T K ?e1 ?E" by (rule placed_snd [OF pl]) (rule extends_length [OF extends_block])
  show ?case
  proof (cases j)
    case 0
    have "entry v (fold (emit_inst cenv) (insts b) e) = entry v ?E" if "v \<in> ?D" for v
      using entry_blocks [OF ok(2) that, of ?e1] entry_block [OF ok(1) that, of e] by simp
    then have "emitted cenv info p T K ?E D i b (of_nat (length (out_code e)))"
      unfolding emitted_def using Cons.prems(2-4) ok(1) pl1
      by (intro exI [of _ e] exI [of _ D] exI [of _ A] exI [of _ n]) auto
    then show ?thesis unfolding all by (simp add: 0)
  next
    case (Suc j')
    have "tables_ok ?D (A \<union> cells_in (insts b)) (n + length (insts b)) ?e1"
      by (rule tables_block [OF ok(1) Cons.prems(2)]) (use Cons.prems(4) in auto)
    from Cons.IH [OF ok(2) this tidy _ pl2, of j'] Cons.prems(4,6) Suc
    have "emitted cenv info p T K ?E ?D (Suc i + j') (bs ! j') (fst (emit_blocks cenv info (enumerate (Suc i) bs) ?e1) ! j')"
      by (simp add: ac_simps)
    then show ?thesis unfolding all by (auto simp: Suc emitted_def)
  qed
qed simp

section \<open>Runs of a function\<close>

lemma core_insts_phis:
  "\<forall>i\<in>set phis. is_phi i \<Longrightarrow> core_insts names D A (phis @ rest) \<Longrightarrow> core_insts names D A rest"
proof (induction phis)
  case (Cons i phis)
  then have "insert (result i) D = D" "\<not> is_alloca (kind i)" by (auto simp: is_phi_iff is_alloca_def)
  with Cons show ?case by auto
qed simp

lemma emit_phis: "\<forall>i\<in>set phis. is_phi i \<Longrightarrow> fold (emit_inst cenv) phis e = e"
  by (induction phis) auto

lemma map_filter_phis:
  assumes "phis_first is"
  shows "List.map_filter (\<lambda>i. case kind i of IPhi ps \<Rightarrow> Some (result i, ps) | _ \<Rightarrow> None) is =
    map phi_of (takeWhile is_phi is)"
proof -
  let ?g = "\<lambda>i. case kind i of IPhi ps \<Rightarrow> Some (result i, ps) | _ \<Rightarrow> None"
  have phis: "\<forall>i\<in>set xs. is_phi i \<Longrightarrow> List.map_filter ?g xs = map phi_of xs" for xs
    by (induction xs) (auto simp: is_phi_iff List.map_filter_simps phi_of_def)
  have "?g i = None" if "\<not> is_phi i" for i
    using that by (cases "kind i") (simp_all add: is_phi_def)
  then have others: "\<forall>i\<in>set xs. \<not> is_phi i \<Longrightarrow> List.map_filter ?g xs = []" for xs
    by (induction xs) (simp_all add: List.map_filter_simps)
  have "List.map_filter ?g is = List.map_filter ?g (takeWhile is_phi is @ dropWhile is_phi is)" by simp
  also have "\<dots> = List.map_filter ?g (takeWhile is_phi is) @ List.map_filter ?g (dropWhile is_phi is)"
    by (simp only: List.map_filter_def filter_append map_append)
  also have "\<dots> = map phi_of (takeWhile is_phi is)"
    using phis [of "takeWhile is_phi is"] others [of "dropWhile is_phi is"] assms
    by (auto simp: phis_first_def dest: set_takeWhileD)
  finally show ?thesis .
qed

lemma phis_of_block:
  assumes "j < length bs" "phis_first (insts (bs ! j))" "j = unat bb"
  shows "phis_of (collect_phis bs) bb (takeWhile is_phi (insts (bs ! j)))"
proof -
  have "collect_phis bs ! j = map phi_of (takeWhile is_phi (insts (bs ! j)))"
    using assms(1) by (simp add: collect_phis_def map_filter_phis [OF assms(2)])
  moreover have "length (collect_phis bs) = length bs" by (simp add: collect_phis_def)
  ultimately show ?thesis using assms(1,3) by (auto simp: phis_of_def dest: set_takeWhileD)
qed

definition result_stack :: "vm_value option \<Rightarrow> vm_value list" where
  "result_stack v = (case v of Some x \<Rightarrow> [x] | None \<Rightarrow> [])"

text \<open>Where a run of a function starts and ends.\<close>

definition returns ::
  "'w env \<Rightarrow> bool \<Rightarrow> program \<Rightarrow> 'w vm \<Rightarrow> nat \<Rightarrow> vm_value list \<Rightarrow> frame \<Rightarrow> vm_value option \<Rightarrow> bool"
where
  "returns m ex p s i st fr v \<longleftrightarrow>
     (\<exists>pos fr'. leads m ex p (in_state s i st fr) (in_state s pos (result_stack v) fr') \<and>
        code_at p pos [OpBase Ret])"

lemma returns_before:
  "leads m ex p (in_state s i st fr) (in_state s j st' fr') \<Longrightarrow> returns m ex p s j st' fr' v \<Longrightarrow>
   returns m ex p s i st fr v"
  by (auto simp: returns_def intro: leads_trans)

lemma simulate_block:
  fixes m :: "'w env"
  assumes em: "emitted cenv info p T K E D i b off" and phis: "\<forall>phi\<in>set (concat info). fst phi \<in> D \<and> val_local E (fst phi) \<noteq> None"
    and E: "slots_ok E" and size: "length (strings p) \<le> 2 ^ 32" "length (code p) < 2 ^ 32"
    and calls: "calls_run m ex p K (func_names cenv) calls s" and room: "room m s 2"
    and ops: "\<forall>i\<in>set (insts b). is_phi i \<or> room m s (length (operands (kind i)))"
    and run: "run_insts (call_sem (std m) (module_pool cenv) calls) pre env0 (takeWhile is_phi (insts b)) (vals, w) = Some (pv, w)"
      "run_insts (call_sem (std m) (module_pool cenv) calls) pre env0 (insts b) (vals, w) = Some (vals', w')"
    and holds: "holds_values E pv w fr"
  obtains e D' fr' where "leads m ex p (in_state s (unat off) [] fr) (in_state s (length (out_code e)) [] fr')"
    "at_end m p D' info e E vals' w' fr'" "placed p T K e (emit_term cenv info (of_nat i) (block_term b) e)"
    "core_term D' info (of_nat i) (block_term b)"
proof -
  obtain e D' A n where e: "off = of_nat (length (out_code e))" "tables_ok D' A n e" "n + length (insts b) < 2 ^ 32"
    "block_ok (func_names cenv) info D' A i b" "tidy e" "placed p T K e (emit_block cenv info (i, b) e)"
    "\<forall>v\<in>D' \<union> result ` set (insts b). entry v (fold (emit_inst cenv) (insts b) e) = entry v E" "D \<subseteq> D'"
    using em unfolding emitted_def by blast
  define phs rest where "phs = takeWhile is_phi (insts b)" and "rest = dropWhile is_phi (insts b)"
  have split: "insts b = phs @ rest" by (simp add: phs_def rest_def)
  have phs: "\<forall>i\<in>set phs. is_phi i" by (auto simp: phs_def dest: set_takeWhileD)
  have rest: "\<forall>i\<in>set rest. \<not> is_phi i" using e(4) by (simp add: block_ok_def phis_first_def rest_def)
  have core: "core_insts (func_names cenv) D' A rest"
    by (rule core_insts_phis [OF phs]) (use e(4) in \<open>simp add: block_ok_def split\<close>)
  let ?e1 = "fold (emit_inst cenv) (insts b) e"
  have e1: "?e1 = fold (emit_inst cenv) rest e" by (simp add: split emit_phis [OF phs])
  have blk: "emit_block cenv info (i, b) e = emit_term cenv info (of_nat i) (block_term b) ?e1"
    by (simp add: emit_block_def)
  have tidy: "tidy ?e1" using e(5) extends_insts by (rule tidy_extends)
  have pl: "placed p T K e ?e1" by (rule placed_fst [OF e(6) [unfolded blk] extends_term tidy])
  have plt: "placed p T K ?e1 (emit_term cenv info (of_nat i) (block_term b) ?e1)"
    by (rule placed_snd [OF e(6) [unfolded blk]]) (rule extends_length [OF extends_insts])
  have run_rest: "run_insts (call_sem (std m) (module_pool cenv) calls) pre env0 rest (pv, w) = Some (vals', w')"
    using run(1) [folded phs_def] run(2) [unfolded split] by (simp add: run_insts_append)
  have off: "unat off = length (out_code e)"
    using pl size(2) extends_length [OF extends_insts, of e cenv "insts b"]
    by (simp add: e(1) unat_of_nat placed_def)
  obtain fr' where fr': "leads m ex p (in_state s (unat off) [] fr) (in_state s (length (out_code ?e1)) [] fr')"
    "holds_values E vals' w' fr'"
  proof -
    have "n + length rest < 2 ^ 32" using e(3) by (simp add: split)
    moreover have "\<forall>v\<in>D' \<union> result ` set rest. entry v (fold (emit_inst cenv) rest e) = entry v E"
      using e(7) unfolding e1 by (auto simp: split)
    moreover have "\<forall>i\<in>set rest. room m s (length (operands (kind i)))" using ops rest by (auto simp: split)
    ultimately show ?thesis
      using simulate_insts [OF core rest e(2) _ pl [unfolded e1] e(5) size(1) _ E holds run_rest calls room]
        that unfolding off e1 by blast
  qed
  have "core_term (D' \<union> result ` set (insts b)) info (of_nat i) (block_term b)"
    using e(4) by (simp add: block_ok_def)
  moreover have "val_local ?e1 (fst phi) \<noteq> None \<and> fst phi \<in> D'" if "phi \<in> set (concat info)" for phi
  proof -
    have "fst phi \<in> D" "val_local E (fst phi) \<noteq> None" using phis that by auto
    with e(7,8) show ?thesis using val_local_keeps [of "fst phi" ?e1 E] by auto
  qed
  then have "at_end m p (D' \<union> result ` set (insts b)) info ?e1 E vals' w' fr'"
    using tidy size e(7) E fr'(2) by (auto simp: at_end_def)
  ultimately show thesis using that fr'(1) plt by blast
qed

lemma run_insts_takeWhile:
  assumes "run_insts sem pre env0 is s = Some s'"
  obtains s1 where "run_insts sem pre env0 (takeWhile Q is) s = Some s1"
proof -
  have "run_insts sem pre env0 (takeWhile Q is @ dropWhile Q is) s = Some s'" using assms by simp
  then show thesis using that unfolding run_insts_append by (auto simp: Option.bind_eq_Some_conv)
qed

lemma simulate_blocks:
  fixes m :: "'w env"
  assumes em: "\<And>j. j < length (blocks f) \<Longrightarrow>
      emitted cenv (collect_phis (blocks f)) p T K E D j (blocks f ! j) (T (of_nat j))"
    and phis: "\<forall>phi\<in>set (concat (collect_phis (blocks f))). fst phi \<in> D \<and> val_local E (fst phi) \<noteq> None"
    and E: "slots_ok E" and size: "length (strings p) \<le> 2 ^ 32" "length (code p) < 2 ^ 32"
    and calls: "calls_run m ex p K (func_names cenv) calls s" and fit: "operands_fit N f" and room: "room m s N"
    and run: "run_blocks n (call_sem (std m) (module_pool cenv) calls) (core_tsem (std m)) f pre bb vals w = Some (v, w')"
    and entry: "run_insts (call_sem (std m) (module_pool cenv) calls) pre vals
      (takeWhile is_phi (insts (blocks f ! unat bb))) (vals, w) = Some (pv, w)" "holds_values E pv w fr"
  shows "returns m ex p s (unat (T bb)) [] fr v"
  using run entry
proof (induction n arbitrary: pre bb vals w pv fr)
  case (Suc n)
  let ?sem = "call_sem (std m) (module_pool cenv) calls" and ?b = "blocks f ! unat bb" and ?info = "collect_phis (blocks f)"
  have bb: "unat bb < length (blocks f)" using Suc.prems(1) by (simp split: if_splits)
  obtain env1 w1 vs step where run: "run_insts ?sem pre vals (insts ?b) (vals, w) = Some (env1, w1)"
    "those (map env1 (term_operands (block_term ?b))) = Some vs" "core_tsem (std m) (block_term ?b) vs w1 = Some step"
    using Suc.prems(1) bb by (auto simp: Let_def Option.bind_eq_Some_conv split: option.splits)
  have room2: "room m s 2" using room fit by (simp add: room_def operands_fit_def)
  have ops: "\<forall>i\<in>set (insts ?b). is_phi i \<or> room m s (length (operands (kind i)))"
    using fit room bb by (fastforce simp: operands_fit_def room_def)
  obtain e D' fr1 where e: "leads m ex p (in_state s (unat (T bb)) [] fr) (in_state s (length (out_code e)) [] fr1)"
    "at_end m p D' ?info e E env1 w1 fr1"
    "placed p T K e (emit_term cenv ?info (of_nat (unat bb)) (block_term ?b) e)"
    "core_term D' ?info (of_nat (unat bb)) (block_term ?b)"
    by (rule simulate_block [OF _ phis E size calls room2 ops Suc.prems(2) run(1) Suc.prems(3)])
      (use em [OF bb] in simp)
  have "of_nat (unat bb) = bb" by simp
  note e = e(1,2) e(3,4) [unfolded this]
  show ?case
  proof (cases step)
    case (Leave r w2)
    then have "v = r" using Suc.prems(1) bb run by (simp add: Let_def)
    with simulate_term(1) [OF e(2-4) room2 run(2), of r w2 ex] run(3) Leave e(1)
    show ?thesis by (auto simp: returns_def result_stack_def intro: leads_trans)
  next
    case (Jump_To bb' r w2)
    have goes: "run_blocks n ?sem (core_tsem (std m)) f (Some bb) bb' (bind_result (block_term ?b) r env1) w2 = Some (v, w')"
      using Suc.prems(1) bb run Jump_To by (simp add: Let_def)
    have "r = None"
      using run(3) Jump_To e(4)
      by (cases "block_term ?b") (auto simp: core_tsem_def core_term_def split: option.splits list.splits vm_value.splits)
    then have bind: "bind_result (block_term ?b) r env1 = env1"
      by (cases "block_term ?b") (auto simp: bind_result_def split: option.split)
    obtain n' where n: "n = Suc n'" using goes by (cases n) auto
    have bb': "unat bb' < length (blocks f)" using goes by (simp add: n split: if_splits)
    obtain s1 where "run_insts ?sem (Some bb) env1 (insts (blocks f ! unat bb')) (env1, w2) = Some s1"
      using goes bb' by (auto simp: n bind Let_def Option.bind_eq_Some_conv)
    then obtain pv' w3 where phi: "run_insts ?sem (Some bb) env1 (takeWhile is_phi (insts (blocks f ! unat bb'))) (env1, w2) =
        Some (pv', w3)"
      by (rule run_insts_takeWhile [where Q = is_phi]) auto
    have "phis_first (insts (blocks f ! unat bb'))"
      using em [OF bb'] unfolding emitted_def block_ok_def by blast
    from phis_of_block [OF bb' this refl] have "phis_of ?info bb' (takeWhile is_phi (insts (blocks f ! unat bb')))" .
    from simulate_term(2) [OF e(2-4) room2 run(2) _ this phi, of r ex] run(3) Jump_To
    obtain fr2 where fr2: "w2 = w1" "w3 = w1"
      "leads m ex p (in_state s (length (out_code e)) [] fr1) (in_state s (unat (T bb')) [] fr2)"
      "holds_values E pv' w1 fr2"
      by auto
    have "returns m ex p s (unat (T bb')) [] fr2 v"
      using Suc.IH [OF goes [unfolded bind fr2(1)] phi [unfolded fr2(1,2)] fr2(4)] .
    with leads_trans [OF e(1) fr2(3)] show ?thesis by (rule returns_before)
  qed
qed simp

section \<open>The start of a function\<close>

definition param_env :: "vm_value list \<Rightarrow> vm_value ssa_env" where
  "param_env args v = (if unat v < length args then Some (args ! unat v) else None)"

lemma computes_prologue:
  assumes "room m s (length args)" "length args < 2 ^ 32"
  shows "\<exists>fr'. computes m ex p s (map (\<lambda>i. LocalSet (of_nat i)) (rev [0..<length args])) (rev args) fr [] fr' \<and>
    (\<forall>i<length args. slot_get fr' (of_nat i) = args ! i) \<and>
    (\<forall>ix. length args \<le> unat ix \<longrightarrow> slot_get fr' ix = slot_get fr ix)"
  using assms
proof (induction args arbitrary: fr rule: rev_induct)
  case Nil
  show ?case by (rule exI [of _ fr]) simp
next
  case (snoc a args)
  let ?k = "of_nat (length args) :: u32"
  have k: "unat ?k = length args" using snoc.prems(2) by (simp add: unat_of_nat)
  have one: "computes m ex p s [LocalSet ?k] (a # rev args) fr (rev args) (slot_put ?k a fr)"
    using snoc.prems by (intro computes_op) (auto simp: exec_pushes)
  obtain fr' where fr': "computes m ex p s (map (\<lambda>i. LocalSet (of_nat i)) (rev [0..<length args])) (rev args)
      (slot_put ?k a fr) [] fr'" "\<forall>i<length args. slot_get fr' (of_nat i) = args ! i"
    "\<forall>ix. length args \<le> unat ix \<longrightarrow> slot_get fr' ix = slot_get (slot_put ?k a fr) ix"
    using snoc.IH snoc.prems by (fastforce simp: room_def)
  have "slot_get fr' ix = slot_get fr ix" if "length (args @ [a]) \<le> unat ix" for ix
  proof -
    have "ix \<noteq> ?k" using that k by auto
    then show ?thesis using fr'(3) that by simp
  qed
  moreover have "slot_get fr' (of_nat i) = (args @ [a]) ! i" if "i < length (args @ [a])" for i
    using fr'(2,3) that k by (cases "i = length args") (auto simp: nth_append)
  moreover have "computes m ex p s (map (\<lambda>i. LocalSet (of_nat i)) (rev [0..<length (args @ [a])])) (rev (args @ [a])) fr [] fr'"
    using computes_Cons [OF one fr'(1)] by simp
  ultimately show ?case by blast
qed

end
