(* ===== verification/Emit_Start.thy ===== *)
theory Emit_Start
  imports Emit_Func
begin

text \<open>The tables at the start of a function, and a whole run of it.\<close>

definition prologue :: "func \<Rightarrow> op list" where
  "prologue f = map (\<lambda>i. LocalSet (of_nat i)) (rev [0..<length (params f)])"

definition param_start :: "func \<Rightarrow> emit \<Rightarrow> emit" where
  "param_start f e =
     put (prologue f)
       (e\<lparr>const_int := Map.empty, const_str := Map.empty, const_f64 := Map.empty,
          val_local := map_of (map (\<lambda>i. (of_nat i, of_nat i)) [0..<length (params f)]),
          alloca_slot := Map.empty, next_local := of_nat (length (params f)), patch_jumps := []\<rparr>)"

lemma start_func_eq:
  "start_func f e = fold (\<lambda>r e. snd (ensure_local_for r e)) (phi_results (blocks f)) (param_start f e)"
  by (simp add: start_func_def param_start_def prologue_def phi_results_def Let_def fold_map comp_def)

lemma param_local:
  assumes "length (params f) < 2 ^ 32"
  shows "val_local (param_start f e) v = (if unat v < length (params f) then Some v else None)"
proof -
  have "map_of (map (\<lambda>i. (of_nat i :: u32, of_nat i :: u32)) [0..<n]) v = (if unat v < n then Some v else None)"
    if "n < 2 ^ 32" for n
    using that
  proof (induction n)
    case (Suc n)
    have "(of_nat n :: u32) = v \<longleftrightarrow> unat v = n" using Suc.prems by (auto simp: unat_of_nat)
    then show ?case using Suc by (auto simp: map_add_def less_Suc_eq split: option.splits)
  qed simp
  from this [OF assms] show ?thesis by (simp add: param_start_def)
qed

lemma tables_ensure:
  assumes "tables_ok D A n e" "n + 1 < 2 ^ 32"
  shows "tables_ok (insert r D) A (n + 1) (snd (ensure_local_for r e))"
proof -
  have n: "unat (next_local e) + 1 < 2 ^ 32" using assms by (simp add: tables_ok_def)
  have "slots_ok (snd (ensure_local_for r e))"
    by (rule slots_ok_ensure [OF _ n]) (use assms(1) in \<open>simp add: tables_ok_def\<close>)
  then show ?thesis
    using assms(1) next_local_step(1) [OF n, of r] by (auto simp: tables_ok_def keeps)
qed

lemma tables_start:
  assumes "length (params f) + length (phi_results (blocks f)) < 2 ^ 32"
  shows "tables_ok (known_first f) {} (length (params f) + length (phi_results (blocks f))) (start_func f e)"
proof -
  have argc: "length (params f) < 2 ^ 32" using assms by simp
  have "unat v < length (params f)" if "v \<in> of_nat ` {..<length (params f)}" for v :: u32
    using that argc by (auto simp: unat_of_nat)
  moreover have "v \<in> of_nat ` {..<length (params f)}" if "unat v < length (params f)" for v :: u32
    using that by (intro image_eqI [of _ _ "unat v"]) auto
  ultimately have params: "v \<in> of_nat ` {..<length (params f)} \<longleftrightarrow> unat v < length (params f)" for v :: u32
    by blast
  have first: "tables_ok (of_nat ` {..<length (params f)}) {} (length (params f)) (param_start f e)"
    unfolding tables_ok_def slots_ok_def slot_of_def
    using param_local [OF argc, of e] argc
    by (auto simp: params entry_def unused_def param_start_def unat_of_nat word_less_nat_alt split: sum.splits if_splits)
  have "tables_ok (D \<union> set rs) {} (n + length rs) (fold (\<lambda>r e. snd (ensure_local_for r e)) rs e')"
    if "tables_ok D {} n e'" "n + length rs < 2 ^ 32" for D n rs e'
    using that
  proof (induction rs arbitrary: D n e')
    case (Cons r rs)
    with tables_ensure [of D "{}" n e' r] Cons.IH [of "insert r D" "n + 1" "snd (ensure_local_for r e')"]
    show ?case by (simp add: Un_insert_left)
  qed simp
  from this [OF first assms] show ?thesis unfolding start_func_eq known_first_def by simp
qed

lemma start_fields:
  "out_code (start_func f e) = out_code e @ prologue f" "out_strings (start_func f e) = out_strings e"
  "patch_jumps (start_func f e) = []" "call_patches (start_func f e) = call_patches e"
  "closure_patches (start_func f e) = closure_patches e"
proof -
  have "out_code (fold (\<lambda>r e. snd (ensure_local_for r e)) rs e') = out_code e' \<and>
      out_strings (fold (\<lambda>r e. snd (ensure_local_for r e)) rs e') = out_strings e' \<and>
      patch_jumps (fold (\<lambda>r e. snd (ensure_local_for r e)) rs e') = patch_jumps e' \<and>
      call_patches (fold (\<lambda>r e. snd (ensure_local_for r e)) rs e') = call_patches e' \<and>
      closure_patches (fold (\<lambda>r e. snd (ensure_local_for r e)) rs e') = closure_patches e'" for rs e'
    by (induction rs arbitrary: e') (auto simp: ensure_local_for_def split: option.split)
  from this [of "phi_results (blocks f)" "param_start f e"]
  show "out_code (start_func f e) = out_code e @ prologue f" "out_strings (start_func f e) = out_strings e"
    "patch_jumps (start_func f e) = []" "call_patches (start_func f e) = call_patches e"
    "closure_patches (start_func f e) = closure_patches e"
    by (simp_all add: start_func_eq param_start_def put_def)
qed

lemma start_locals:
  assumes "length (params f) < 2 ^ 32"
  shows "unat v < length (params f) \<Longrightarrow> val_local (start_func f e) v = Some v"
    and "v \<in> set (phi_results (blocks f)) \<Longrightarrow> val_local (start_func f e) v \<noteq> None"
proof -
  have one: "val_local (snd (ensure_local_for r e')) v = Some k" if "val_local e' v = Some k" for r e' k
    using that by (auto simp: ensure_local_for_def split: option.split)
  have keep: "val_local (fold (\<lambda>r e. snd (ensure_local_for r e)) rs e') v = Some k"
    if "val_local e' v = Some k" for rs e' k
    using that by (induction rs arbitrary: e') (auto simp: one)
  have "val_local (fold (\<lambda>r e. snd (ensure_local_for r e)) rs e') v \<noteq> None" if "v \<in> set rs" for rs e'
    using that
  proof (induction rs arbitrary: e')
    case (Cons r rs)
    then show ?case using keep [of "snd (ensure_local_for r e')"] by (cases "v = r") auto
  qed simp
  then show "v \<in> set (phi_results (blocks f)) \<Longrightarrow> val_local (start_func f e) v \<noteq> None"
    by (simp add: start_func_eq)
  show "unat v < length (params f) \<Longrightarrow> val_local (start_func f e) v = Some v"
    using keep param_local [OF assms, of e v] by (simp add: start_func_eq)
qed

lemma count_phis: "length (phi_results (blocks f)) \<le> inst_count f"
proof -
  have "length (List.map_filter g xs) \<le> length xs" for g :: "inst \<Rightarrow> (u32 \<times> (u32 \<times> u32) list) option" and xs
    by (simp add: List.map_filter_def)
  then have "length (concat (collect_phis bs)) \<le> sum_list (map (\<lambda>b. length (insts b)) bs)" for bs
    by (induction bs) (simp_all add: collect_phis_def add_mono)
  then show ?thesis by (simp add: phi_results_def inst_count_def)
qed

section \<open>A run of a function\<close>

lemma tables_blocks:
  assumes "core_blocks (func_names cenv) info D A i bs" "tables_ok D A n e"
    "n + sum_list (map (\<lambda>b. length (insts b)) bs) < 2 ^ 32"
  shows "slots_ok (snd (emit_blocks cenv info (enumerate i bs) e))"
  using assms
proof (induction bs arbitrary: D A i n e)
  case Nil
  then show ?case by (simp add: tables_ok_def)
next
  case (Cons b bs)
  have "tables_ok (D \<union> result ` set (insts b)) (A \<union> cells_in (insts b)) (n + length (insts b)) (emit_block cenv info (i, b) e)"
    by (rule tables_block) (use Cons.prems in auto)
  with Cons.IH [OF _ this] Cons.prems show ?case by (simp add: split_def Let_def ac_simps)
qed

lemma no_entry_phis:
  assumes "run_insts sem None env0 is s = Some s'"
  shows "takeWhile is_phi is = []"
proof (cases "takeWhile is_phi is")
  case (Cons i phs)
  then have "is_phi i" using set_takeWhileD [of i is_phi "is"] by simp
  then obtain ps where ps: "kind i = IPhi ps" by (auto simp: is_phi_iff)
  obtain s1 where "run_insts sem None env0 (takeWhile is_phi is) s = Some s1"
    using assms by (rule run_insts_takeWhile [where Q = is_phi])
  then show ?thesis
    by (cases s) (auto simp: Cons Option.bind_eq_Some_conv run_inst_phi [OF ps] phi_value_def)
qed

lemma simulate_func:
  fixes m :: "'w env"
  assumes core: "core_func (func_names cenv) f" and fit: "operands_fit N f" "room m s N"
    and placed: "placed p T K (start_func f e)
      (snd (emit_blocks cenv (collect_phis (blocks f)) (enumerate 0 (blocks f)) (start_func f e)))"
    and at: "code_at p (length (out_code e)) (prologue f)" and tidy: "tidy (start_func f e)"
    and T: "\<And>j. j < length (blocks f) \<Longrightarrow>
      T (of_nat j) = fst (emit_blocks cenv (collect_phis (blocks f)) (enumerate 0 (blocks f)) (start_func f e)) ! j"
    and size: "length (strings p) \<le> 2 ^ 32" "length (code p) < 2 ^ 32"
    and calls: "calls_run m ex p K (func_names cenv) calls s" and args: "length args = length (params f)"
    and run: "run_blocks n (call_sem (std m) (module_pool cenv) calls) (core_tsem (std m)) f None 0
      (param_env args) Map.empty = Some (v, w')"
  shows "returns m ex p s (length (out_code e)) (rev args) fr v"
proof -
  let ?info = "collect_phis (blocks f)" and ?sem = "call_sem (std m) (module_pool cenv) calls"
  let ?e = "start_func f e" let ?E = "snd (emit_blocks cenv ?info (enumerate 0 (blocks f)) ?e)"
  have count: "length (params f) + length (phi_results (blocks f)) + inst_count f < 2 ^ 32"
    and blocks: "core_blocks (func_names cenv) ?info (known_first f) {} 0 (blocks f)" "blocks f \<noteq> []"
    using core count_phis [of f] by (auto simp: core_func_def)
  have tab: "tables_ok (known_first f) {} (length (params f) + length (phi_results (blocks f))) ?e"
    by (rule tables_start) (use count in simp)
  have stable: "entry u ?e = entry u ?E" if "u \<in> known_first f" for u
    using entry_blocks [OF blocks(1) that] by simp
  have em: "emitted cenv ?info p T K ?E (known_first f) j (blocks f ! j) (T (of_nat j))" if "j < length (blocks f)" for j
    using blocks_emitted [OF blocks(1) tab tidy _ placed that] count T [OF that] by (simp add: inst_count_def)
  obtain fr1 where fr1: "computes m ex p s (prologue f) (rev args) fr [] fr1"
    "\<forall>i<length args. slot_get fr1 (of_nat i) = args ! i"
    using computes_prologue [of m s args ex p fr] fit count args
    by (auto simp: prologue_def operands_fit_def room_def)
  have start: "leads m ex p (in_state s (length (out_code e)) (rev args) fr) (in_state s (length (out_code ?e)) [] fr1)"
    using fr1(1) at by (simp add: computes_def start_fields)
  have slots: "slots_ok ?E"
    by (rule tables_blocks [OF blocks(1) tab]) (use count in \<open>simp add: inst_count_def\<close>)
  have holds: "holds_values ?E (param_env args) Map.empty fr1"
  proof -
    have "value_in ?E fr1 u = x" if "param_env args u = Some x" for u x
    proof -
      have u: "unat u < length args" "x = args ! unat u" using that by (auto simp: param_env_def split: if_splits)
      then have "u \<in> known_first f"
        unfolding known_first_def args by (intro UnI1 image_eqI [of _ _ "unat u"]) auto
      from value_in_entry [OF stable [OF this]] have "value_in ?E fr1 u = value_in ?e fr1 u" by simp
      also have "\<dots> = x"
        using start_locals(1) [of f u e] u args count fr1(2) by (auto simp: value_in_def)
      finally show ?thesis .
    qed
    then show ?thesis by (simp add: holds_values_def)
  qed
  have phis: "\<forall>phi\<in>set (concat ?info). fst phi \<in> known_first f \<and> val_local ?E (fst phi) \<noteq> None"
  proof
    fix phi assume "phi \<in> set (concat ?info)"
    then have phi: "fst phi \<in> set (phi_results (blocks f))" by (auto simp: phi_results_def)
    then have known: "fst phi \<in> known_first f" by (simp add: known_first_def)
    moreover have "val_local ?e (fst phi) \<noteq> None" using phi count by (intro start_locals(2)) auto
    ultimately show "fst phi \<in> known_first f \<and> val_local ?E (fst phi) \<noteq> None"
      using val_local_keeps [OF stable [OF known]] by simp
  qed
  have "takeWhile is_phi (insts (blocks f ! 0)) = []"
  proof (cases n)
    case (Suc n')
    with run have "run_insts ?sem None (param_env args) (insts (blocks f ! 0)) (param_env args, Map.empty) \<noteq> None"
      by (auto simp: Let_def Option.bind_eq_Some_conv split: if_splits)
    then show ?thesis using no_entry_phis by blast
  qed (use run in simp)
  then have entry: "run_insts ?sem None (param_env args) (takeWhile is_phi (insts (blocks f ! unat (0 :: u32))))
      (param_env args, Map.empty) = Some (param_env args, Map.empty)" by simp
  have "T 0 = of_nat (length (out_code ?e))"
    using T [of 0] blocks(2) by (cases "blocks f") (simp_all add: split_def Let_def)
  moreover have "length (out_code ?e) < 2 ^ 32"
    using placed size(2) extends_length [OF extends_blocks, of ?e cenv ?info "enumerate 0 (blocks f)"]
    by (simp add: placed_def)
  ultimately have "unat (T 0) = length (out_code ?e)" by (simp add: unat_of_nat)
  with simulate_blocks [OF em phis slots size calls fit run entry holds] start
  show ?thesis by (auto intro: returns_before)
qed

end
