(* ===== verification/Emit_Marks.thy ===== *)
theory Emit_Marks
  imports Emit_Start
begin

text \<open>
  What is patched: jumps and calls that have been written with target 0, each at its own position; and
  the code of a function and of a program after patching.
\<close>

section \<open>Marked instructions\<close>

definition calls_marked :: "rstring list \<Rightarrow> emit \<Rightarrow> bool" where
  "calls_marked names e \<longleftrightarrow>
     places (call_patches e) 0 (length (out_code e)) \<and> closure_patches e = [] \<and>
     (\<forall>(i, n)\<in>set (call_patches e). out_code e ! i = Call 0 \<and> n \<in> set names)"

definition jumps_marked :: "emit \<Rightarrow> bool" where
  "jumps_marked e \<longleftrightarrow>
     places (patch_jumps e) 0 (length (out_code e)) \<and> (\<forall>(i, bb)\<in>set (patch_jumps e). out_code e ! i = Jump 0)"

definition marked :: "rstring list \<Rightarrow> emit \<Rightarrow> bool" where
  "marked names e \<longleftrightarrow> calls_marked names e \<and> jumps_marked e"

definition same_patches :: "emit \<Rightarrow> emit \<Rightarrow> bool" where
  "same_patches e e' \<longleftrightarrow>
     patch_jumps e' = patch_jumps e \<and> call_patches e' = call_patches e \<and> closure_patches e' = closure_patches e"

lemma marked_tidy: "marked names e \<Longrightarrow> tidy e"
  by (simp add: marked_def calls_marked_def jumps_marked_def tidy_def)

lemma marked_same:
  assumes "marked names e" "extends e e'" "same_patches e e'"
  shows "marked names e'"
proof -
  have len: "length (out_code e) \<le> length (out_code e')" by (rule extends_length [OF assms(2)])
  have nth: "out_code e' ! i = out_code e ! i" if "i < length (out_code e)" for i
    using assms(2) that by (rule code_earlier)
  show ?thesis
    using assms(1,3) len nth
    unfolding marked_def calls_marked_def jumps_marked_def same_patches_def places_def by fastforce
qed

lemma same_patches_refl [simp]: "same_patches e e"
  by (simp add: same_patches_def)

lemma same_patches_simps [simp]:
  "patch_jumps (push_value v e) = patch_jumps e" "call_patches (push_value v e) = call_patches e"
  "closure_patches (push_value v e) = closure_patches e" "closure_patches (put ops e) = closure_patches e"
  "closure_patches (snd (ensure_local_for r e)) = closure_patches e"
  "patch_jumps (snd (str_index s e)) = patch_jumps e" "call_patches (snd (str_index s e)) = call_patches e"
proof -
  show *: "patch_jumps (snd (str_index s e)) = patch_jumps e" "call_patches (snd (str_index s e)) = call_patches e" for s
    by (simp_all add: str_index_def Let_def)
  have "closure_patches (snd (str_index s e)) = closure_patches e" for s
    by (simp add: str_index_def Let_def)
  moreover have c: "closure_patches (put ops e) = closure_patches e" for ops and e :: emit by (simp add: put_def)
  ultimately show "patch_jumps (push_value v e) = patch_jumps e" "call_patches (push_value v e) = call_patches e"
    "closure_patches (push_value v e) = closure_patches e"
    by (auto simp: push_value_def put_str_def split_def Let_def * split: option.split)
  show "closure_patches (put ops e) = closure_patches e" by (rule c)
  show "closure_patches (snd (ensure_local_for r e)) = closure_patches e"
    by (simp add: ensure_local_for_def split: option.split)
qed

lemma push_values_patches [simp]:
  "patch_jumps (push_values vs e) = patch_jumps e" "call_patches (push_values vs e) = call_patches e"
  "closure_patches (push_values vs e) = closure_patches e"
  by (induction vs arbitrary: e) (simp_all add: push_values_def)

lemma marked_add_call:
  assumes "marked names e" "n \<in> set names"
  shows "marked names (add_call (Call 0) n e)"
proof -
  have "closure_patches (add_call (Call 0) n e) = closure_patches e" by (simp add: add_call_def)
  moreover have "out_code (add_call (Call 0) n e) = out_code e @ [Call 0]"
    "patch_jumps (add_call (Call 0) n e) = patch_jumps e"
    "call_patches (add_call (Call 0) n e) = call_patches e @ [(length (out_code e), n)]"
    by (simp_all add: add_call_def)
  ultimately show ?thesis
    using assms unfolding marked_def calls_marked_def jumps_marked_def
    by (auto simp: places_def nth_append) fastforce+
qed

lemma marked_add_jump:
  assumes "marked names e"
  shows "marked names (add_jump (Jump 0) bb e)"
proof -
  have "closure_patches (add_jump (Jump 0) bb e) = closure_patches e" by (simp add: add_jump_def)
  moreover have "out_code (add_jump (Jump 0) bb e) = out_code e @ [Jump 0]"
    "call_patches (add_jump (Jump 0) bb e) = call_patches e"
    "patch_jumps (add_jump (Jump 0) bb e) = patch_jumps e @ [(length (out_code e), bb)]"
    by (simp_all add: add_jump_def)
  ultimately show ?thesis
    using assms unfolding marked_def calls_marked_def jumps_marked_def
    by (auto simp: places_def nth_append) fastforce+
qed

lemma copy_patches [simp]:
  "patch_jumps (emit_copy r v e) = patch_jumps e" "call_patches (emit_copy r v e) = call_patches e"
  "closure_patches (emit_copy r v e) = closure_patches e"
  by (simp_all add: emit_copy_def split_def Let_def)

lemma marked_inst:
  assumes "core_inst (func_names cenv) D A (kind i)" "marked (func_names cenv) e"
  shows "marked (func_names cenv) (emit_inst cenv i e)"
proof (cases "\<exists>n args ty. kind i = ICall n args ty")
  case True
  then obtain n args ty where ICall: "kind i = ICall n args ty" by blast
  have "marked (func_names cenv) (push_values args (snd (ensure_local_for (result i) e)))"
    by (rule marked_same [OF assms(2)]) (auto simp: same_patches_def intro!: extends_steps4)
  moreover have n: "n \<in> set (func_names cenv)" "find_intrinsic n (length args) = None"
    using assms(1) by (auto simp: core_inst_def ICall)
  ultimately have "marked (func_names cenv) (add_call (Call 0) n (push_values args (snd (ensure_local_for (result i) e))))"
    by (intro marked_add_call)
  then show ?thesis
    by (simp add: emit_inst_def ICall emit_call_core [OF n])
      (rule marked_same, assumption, rule extends_put, simp add: same_patches_def)
next
  case False
  then have "same_patches e (emit_inst cenv i e)"
    using assms(1)
    by (cases "kind i")
      (auto simp: core_inst_def emit_inst_def emit_const_i64_def emit_const_f64_def emit_const_str_def
        emit_binary_def emit_cmp_def emit_two_def emit_alloca_def emit_load_def emit_store_def split_def
        Let_def same_patches_def split: option.split)
  with assms(2) extends_inst show ?thesis by (rule marked_same)
qed

lemma marked_jump_to:
  assumes "marked names e"
  shows "marked names (jump_to info b bb e)"
proof -
  have "same_patches e (fold (assign_phi b) ps e)" for ps and e
    by (induction ps arbitrary: e) (auto simp: same_patches_def assign_phi_def Let_def split: option.split)
  then have "same_patches e (emit_phi_assignments info b bb e)" by (simp add: emit_phi_assignments_def)
  from marked_same [OF assms extends_assign this] show ?thesis
    unfolding jump_to_def by (rule marked_add_jump)
qed

lemma unless_unpatched:
  assumes "tidy e" "extends (put [JumpIfFalse 0] e) (body (put [JumpIfFalse 0] e))"
  shows "\<not> patched (body (put [JumpIfFalse 0] e)) (length (out_code e))"
  using patched_not_yet [OF assms(1), of "length (out_code e)"] patched_later [OF assms(2), of "length (out_code e)"]
  by (auto simp: patched_def)

lemma marked_unless:
  assumes "marked names e" "\<And>e. marked names e \<Longrightarrow> marked names (body e)"
    and ext: "extends (put [JumpIfFalse 0] e) (body (put [JumpIfFalse 0] e))"
  shows "marked names (unless_jump body e)"
proof -
  let ?e1 = "body (put [JumpIfFalse 0] e)"
  have "marked names ?e1"
    by (rule assms(2)) (rule marked_same [OF assms(1) extends_put], simp add: same_patches_def)
  moreover have "\<not> patched ?e1 (length (out_code e))"
    by (rule unless_unpatched [of e body, OF marked_tidy [OF assms(1)] ext])
  then have "i \<noteq> length (out_code e)" if "(i, x) \<in> set (patch_jumps ?e1) \<or> (i, y) \<in> set (call_patches ?e1)" for i x y
    using that by (force simp: patched_def)
  ultimately show ?thesis
    unfolding marked_def calls_marked_def jumps_marked_def unless_jump_def Let_def
    by (fastforce simp: nth_list_update)
qed

lemma marked_term:
  assumes "core_term D info b t" "marked names e"
  shows "marked names (emit_term cenv info b t e)"
proof -
  have put: "marked names (put ops e')" if "marked names e'" for ops e'
    by (rule marked_same [OF that extends_put]) (simp add: same_patches_def)
  have push: "marked names (push_value v e')" if "marked names e'" for v e'
    by (rule marked_same [OF that extends_push_value]) (simp add: same_patches_def)
  have unless: "marked names (unless_jump (jump_to info b bb) e')" if "marked names e'" for bb e'
    by (rule marked_unless [where body = "jump_to info b bb", OF that])
      (rule marked_jump_to, assumption, rule extends_jump_to)
  have "marked names (fold (emit_case info b s) cs e')" if "marked names e'" for s cs e'
    using that by (induction cs arbitrary: e') (simp_all add: emit_case_def unless put push)
  then show ?thesis
    using assms
    by (cases t)
      (auto simp: emit_term_def core_term_def emit_cond_br_def emit_switch_def put push unless marked_jump_to
        split: option.splits)
qed

lemma marked_insts:
  "core_insts (func_names cenv) D A is \<Longrightarrow> marked (func_names cenv) e \<Longrightarrow>
   marked (func_names cenv) (fold (emit_inst cenv) is e)"
  by (induction "is" arbitrary: D A e) (auto intro: marked_inst)

lemma marked_blocks:
  assumes "core_blocks (func_names cenv) info D A i bs" "marked (func_names cenv) e"
  shows "marked (func_names cenv) (snd (emit_blocks cenv info (enumerate i bs) e))"
  using assms
proof (induction bs arbitrary: D A i e)
  case (Cons b bs)
  have "marked (func_names cenv) (emit_block cenv info (i, b) e)"
    using Cons.prems by (auto simp: emit_block_def block_ok_def intro!: marked_term marked_insts)
  with Cons show ?case by (auto simp: split_def Let_def)
qed simp

end
