(* ===== verification/Emit_Patch.thy ===== *)
theory Emit_Patch
  imports Emit_Marks
begin

text \<open>The code of a module after patching the jumps of its functions and its calls.\<close>

section \<open>Patching lists of instructions\<close>

lemma fold_patch_jump_all:
  assumes "distinct (map fst js)" "\<forall>p\<in>set js. fst p < length ops"
  shows "length (fold (patch_jump offs) js ops) = length ops \<and>
    (\<forall>i. i \<notin> fst ` set js \<longrightarrow> fold (patch_jump offs) js ops ! i = ops ! i) \<and>
    (\<forall>i bb. (i, bb) \<in> set js \<longrightarrow> fold (patch_jump offs) js ops ! i =
      (if unat bb < length offs then retarget (offs ! unat bb) (ops ! i) else ops ! i))"
  using assms
proof (induction js arbitrary: ops)
  case (Cons j js)
  let ?ops = "patch_jump offs j ops"
  have len: "length ?ops = length ops" by (simp add: patch_jump_def)
  have nth: "?ops ! i = ops ! i" if "i \<noteq> fst j" for i using that by (simp add: patch_jump_def)
  have own: "?ops ! fst j = (if unat (snd j) < length offs then retarget (offs ! unat (snd j)) (ops ! fst j) else ops ! fst j)"
    using Cons.prems by (simp add: patch_jump_def)
  have new: "fst j \<notin> fst ` set js" using Cons.prems by simp
  have "length (fold (patch_jump offs) js ?ops) = length ?ops \<and>
      (\<forall>i. i \<notin> fst ` set js \<longrightarrow> fold (patch_jump offs) js ?ops ! i = ?ops ! i) \<and>
      (\<forall>i bb. (i, bb) \<in> set js \<longrightarrow> fold (patch_jump offs) js ?ops ! i =
        (if unat bb < length offs then retarget (offs ! unat bb) (?ops ! i) else ?ops ! i))"
    using Cons.prems by (intro Cons.IH) (auto simp: len)
  note IH = this [unfolded len]
  have "fold (patch_jump offs) (j # js) ops ! i =
      (if unat bb < length offs then retarget (offs ! unat bb) (ops ! i) else ops ! i)"
    if "(i, bb) \<in> set (j # js)" for i bb
  proof (cases "j = (i, bb)")
    case True
    then show ?thesis using IH new own by auto
  next
    case False
    then have "(i, bb) \<in> set js" using that by auto
    moreover from this new have "i \<noteq> fst j" by (metis fst_conv image_eqI)
    ultimately show ?thesis using IH nth by auto
  qed
  then show ?case using IH nth new by auto
qed simp

lemma fold_patch_jump:
  assumes "distinct (map fst js)" "\<forall>p\<in>set js. fst p < length ops"
  shows "length (fold (patch_jump offs) js ops) = length ops"
    and "i \<notin> fst ` set js \<Longrightarrow> fold (patch_jump offs) js ops ! i = ops ! i"
    and "(i, bb) \<in> set js \<Longrightarrow> fold (patch_jump offs) js ops ! i =
      (if unat bb < length offs then retarget (offs ! unat bb) (ops ! i) else ops ! i)"
  using fold_patch_jump_all [OF assms, of offs] by auto

lemma fold_patch_call:
  assumes "distinct (map fst cs)"
    "\<forall>(i, n)\<in>set cs. i < length (out_code e) \<and> out_code e ! i = Call 0 \<and> func_offset offs n \<noteq> None"
  shows "out_strings (fold (patch_call offs) cs e) = out_strings e \<and>
    closure_patches (fold (patch_call offs) cs e) = closure_patches e \<and>
    length (out_code (fold (patch_call offs) cs e)) = length (out_code e) \<and>
    (\<forall>i. i \<notin> fst ` set cs \<longrightarrow> out_code (fold (patch_call offs) cs e) ! i = out_code e ! i) \<and>
    (\<forall>(i, n)\<in>set cs. out_code (fold (patch_call offs) cs e) ! i = Call (the (func_offset offs n)))"
  using assms
proof (induction cs arbitrary: e)
  case (Cons c cs)
  obtain i n where c: "c = (i, n)" by fastforce
  obtain off where off: "func_offset offs n = Some off" and at: "i < length (out_code e)" "out_code e ! i = Call 0"
    using Cons.prems(2) by (auto simp: c)
  let ?e = "patch_call offs c e"
  have e: "?e = e\<lparr>out_code := (out_code e)[i := Call off]\<rparr>"
    by (simp add: patch_call_def c off at)
  have "i \<notin> fst ` set cs" using Cons.prems(1) by (simp add: c)
  then have other: "j \<noteq> i" if "(j, k) \<in> set cs" for j k using that by force
  have "out_strings (fold (patch_call offs) cs ?e) = out_strings ?e \<and>
    closure_patches (fold (patch_call offs) cs ?e) = closure_patches ?e \<and>
    length (out_code (fold (patch_call offs) cs ?e)) = length (out_code ?e) \<and>
    (\<forall>i. i \<notin> fst ` set cs \<longrightarrow> out_code (fold (patch_call offs) cs ?e) ! i = out_code ?e ! i) \<and>
    (\<forall>(i, n)\<in>set cs. out_code (fold (patch_call offs) cs ?e) ! i = Call (the (func_offset offs n)))"
  proof (rule Cons.IH)
    show "\<forall>(k, n)\<in>set cs. k < length (out_code ?e) \<and> out_code ?e ! k = Call 0 \<and> func_offset offs n \<noteq> None"
    proof (intro ballI, clarify)
      fix k m assume k: "(k, m) \<in> set cs"
      with Cons.prems(2) have "k < length (out_code e) \<and> out_code e ! k = Call 0 \<and> func_offset offs m \<noteq> None"
        by auto
      with other [OF k] show "k < length (out_code ?e) \<and> out_code ?e ! k = Call 0 \<and> func_offset offs m \<noteq> None"
        by (simp add: e)
    qed
  qed (use Cons.prems in simp)
  then show ?case
    using \<open>i \<notin> fst ` set cs\<close> at(1) by (auto simp: e [unfolded c] c off nth_list_update)
qed simp

section \<open>Functions\<close>

text \<open>What later functions leave of the code and of the calls to patch.\<close>

definition code_grows :: "emit \<Rightarrow> emit \<Rightarrow> bool" where
  "code_grows e e' \<longleftrightarrow>
     (\<exists>ops ss cs. out_code e' = out_code e @ ops \<and> out_strings e' = out_strings e @ ss \<and>
        call_patches e' = call_patches e @ cs \<and> (\<forall>c\<in>set cs. length (out_code e) \<le> fst c))"

lemma code_grows_refl [simp]: "code_grows e e"
  by (auto simp: code_grows_def)

lemma code_grows_trans: "code_grows a b \<Longrightarrow> code_grows b c \<Longrightarrow> code_grows a c"
  unfolding code_grows_def by fastforce

definition body_of :: "emit_env \<Rightarrow> func \<Rightarrow> emit \<Rightarrow> emit" where
  "body_of cenv f e = snd (emit_blocks cenv (collect_phis (blocks f)) (enumerate 0 (blocks f)) (start_func f e))"

definition block_offsets :: "emit_env \<Rightarrow> func \<Rightarrow> emit \<Rightarrow> u32 list" where
  "block_offsets cenv f e = fst (emit_blocks cenv (collect_phis (blocks f)) (enumerate 0 (blocks f)) (start_func f e))"

lemma emit_func_eq:
  "emit_func cenv f e =
     (body_of cenv f e)\<lparr>out_code :=
        fold (patch_jump (block_offsets cenv f e)) (patch_jumps (body_of cenv f e)) (out_code (body_of cenv f e))\<rparr>"
  by (simp add: emit_func_def body_of_def block_offsets_def split_def Let_def)

lemma marked_start:
  assumes "calls_marked names e"
  shows "marked names (start_func f e)"
proof -
  have "out_code (start_func f e) ! i = Call 0 \<and> n \<in> set names" if "(i, n) \<in> set (call_patches e)" for i n
  proof -
    from assms that have "i < length (out_code e)" "out_code e ! i = Call 0" "n \<in> set names"
      by (fastforce simp: calls_marked_def places_def)+
    then show ?thesis by (simp add: start_fields nth_append)
  qed
  with assms show ?thesis
    by (auto simp: marked_def calls_marked_def jumps_marked_def start_fields places_def)
qed

lemma func_code:
  assumes core: "core_func (func_names cenv) f" and e: "calls_marked (func_names cenv) e"
  shows "marked (func_names cenv) (body_of cenv f e)"
    and "extends (start_func f e) (body_of cenv f e)"
    and "length (out_code (emit_func cenv f e)) = length (out_code (body_of cenv f e))"
    and "\<And>i. i \<notin> fst ` set (patch_jumps (body_of cenv f e)) \<Longrightarrow>
      out_code (emit_func cenv f e) ! i = out_code (body_of cenv f e) ! i"
    and "\<And>i bb. (i, bb) \<in> set (patch_jumps (body_of cenv f e)) \<Longrightarrow> out_code (emit_func cenv f e) ! i =
      Jump (if unat bb < length (block_offsets cenv f e) then block_offsets cenv f e ! unat bb else 0)"
    and "\<And>i bb. (i, bb) \<in> set (patch_jumps (body_of cenv f e)) \<Longrightarrow>
      length (out_code (start_func f e)) \<le> i \<and> i < length (out_code (body_of cenv f e)) \<and>
      i \<notin> fst ` set (call_patches (body_of cenv f e))"
proof -
  have "core_blocks (func_names cenv) (collect_phis (blocks f)) (known_first f) {} 0 (blocks f)"
    using core by (simp add: core_func_def)
  from marked_blocks [OF this marked_start [OF e]]
  show m: "marked (func_names cenv) (body_of cenv f e)" by (simp add: body_of_def)
  show ext: "extends (start_func f e) (body_of cenv f e)" unfolding body_of_def by (rule extends_blocks)
  have d: "distinct (map fst (patch_jumps (body_of cenv f e)))"
    "\<forall>p\<in>set (patch_jumps (body_of cenv f e)). fst p < length (out_code (body_of cenv f e))"
    using m by (auto simp: marked_def jumps_marked_def places_def)
  note patch = fold_patch_jump [OF d, where offs = "block_offsets cenv f e"]
  show "length (out_code (emit_func cenv f e)) = length (out_code (body_of cenv f e))"
    by (simp add: emit_func_eq patch(1))
  show "out_code (emit_func cenv f e) ! i = out_code (body_of cenv f e) ! i"
    if "i \<notin> fst ` set (patch_jumps (body_of cenv f e))" for i
    using patch(2) [OF that] by (simp add: emit_func_eq)
  fix i bb assume i: "(i, bb) \<in> set (patch_jumps (body_of cenv f e))"
  have jump: "out_code (body_of cenv f e) ! i = Jump 0" using m i by (auto simp: marked_def jumps_marked_def)
  show "out_code (emit_func cenv f e) ! i =
      Jump (if unat bb < length (block_offsets cenv f e) then block_offsets cenv f e ! unat bb else 0)"
    using patch(3) [OF i] by (simp add: emit_func_eq jump retarget_def)
  have "length (out_code (start_func f e)) \<le> i"
  proof -
    obtain js where "patch_jumps (body_of cenv f e) = patch_jumps (start_func f e) @ js"
      "places js (length (out_code (start_func f e))) (length (out_code (body_of cenv f e)))"
      using ext unfolding extends_def Let_def by blast
    with i show ?thesis by (auto simp: start_fields places_def)
  qed
  moreover have "i \<notin> fst ` set (call_patches (body_of cenv f e))"
    using m jump by (auto simp: marked_def calls_marked_def)
  ultimately show "length (out_code (start_func f e)) \<le> i \<and> i < length (out_code (body_of cenv f e)) \<and>
      i \<notin> fst ` set (call_patches (body_of cenv f e))"
    using d(2) i by auto
qed

lemma func_grows:
  assumes "core_func (func_names cenv) f" "calls_marked (func_names cenv) e"
  shows "calls_marked (func_names cenv) (emit_func cenv f e)" "code_grows e (emit_func cenv f e)"
proof -
  let ?E = "body_of cenv f e" and ?F = "emit_func cenv f e"
  note code = func_code [OF assms]
  have fields: "call_patches ?F = call_patches ?E" "closure_patches ?F = closure_patches ?E" "out_strings ?F = out_strings ?E"
    by (simp_all add: emit_func_eq)
  have "out_code ?F ! i = out_code ?E ! i" if "(i, n) \<in> set (call_patches ?E)" for i n
    using code(4) [of i] code(6) [of i] that by force
  then show "calls_marked (func_names cenv) ?F"
    using code(1) unfolding marked_def calls_marked_def fields code(3) by fastforce
  obtain ops ss cs where ext: "out_code ?E = out_code (start_func f e) @ ops"
    "out_strings ?E = out_strings (start_func f e) @ ss" "call_patches ?E = call_patches (start_func f e) @ cs"
    "places cs (length (out_code (start_func f e))) (length (out_code ?E))"
    using code(2) unfolding extends_def Let_def by blast
  have nth: "out_code ?F ! i = out_code e ! i" if "i < length (out_code e)" for i
  proof -
    have "i \<notin> fst ` set (patch_jumps ?E)" using code(6) that by (fastforce simp: start_fields)
    from code(4) [OF this] that show ?thesis by (simp add: ext(1) start_fields nth_append)
  qed
  have len: "length (out_code e) \<le> length (out_code ?F)" by (simp add: code(3) ext(1) start_fields)
  have "out_code ?F = take (length (out_code e)) (out_code ?F) @ drop (length (out_code e)) (out_code ?F)" by simp
  also have "take (length (out_code e)) (out_code ?F) = out_code e"
    by (rule nth_equalityI) (simp_all add: nth len)
  finally have "out_code ?F = out_code e @ drop (length (out_code e)) (out_code ?F)" .
  then show "code_grows e ?F"
    unfolding code_grows_def fields using ext by (auto simp: start_fields places_def)
qed

end
