(* ===== verification/Emit_Correct.thy ===== *)
theory Emit_Correct
  imports Emit_Patch
begin

text \<open>
  The correctness of \<^verbatim>\<open>compile_ir_to_program\<close> for modules of functions on values, stack cells, branches,
  phis and calls: what the semantics computes, the machine computes on the compiled program.
\<close>

section \<open>The functions of a module\<close>

lemma funcs_emitted:
  assumes "\<forall>f\<in>set fs. core_func (func_names cenv) f" "calls_marked (func_names cenv) e"
    "emit_funcs cenv fs e = (offs, dbg, E)"
  shows "calls_marked (func_names cenv) E \<and> code_grows e E \<and> length offs = length fs \<and>
    map (\<lambda>d. (function_name d, entry_offset d)) dbg = offs \<and> map fst offs = map func_name fs \<and>
    (\<forall>j<length fs. \<exists>ej. calls_marked (func_names cenv) ej \<and>
       snd (offs ! j) = of_nat (length (out_code ej)) \<and> code_grows (emit_func cenv (fs ! j) ej) E)"
  using assms
proof (induction fs arbitrary: e offs dbg)
  case (Cons f fs)
  obtain offs' dbg' where rest: "emit_funcs cenv fs (emit_func cenv f e) = (offs', dbg', E)"
    "offs = (func_name f, of_nat (length (out_code e))) # offs'" "dbg = func_debug f (length (out_code e)) # dbg'"
    using Cons.prems(3) by (auto simp: Let_def split: prod.splits)
  have f: "core_func (func_names cenv) f" using Cons.prems(1) by simp
  note grows = func_grows [OF f Cons.prems(2)]
  have IH: "calls_marked (func_names cenv) E \<and> code_grows (emit_func cenv f e) E \<and> length offs' = length fs \<and>
      map (\<lambda>d. (function_name d, entry_offset d)) dbg' = offs' \<and> map fst offs' = map func_name fs \<and>
      (\<forall>j<length fs. \<exists>ej. calls_marked (func_names cenv) ej \<and>
         snd (offs' ! j) = of_nat (length (out_code ej)) \<and> code_grows (emit_func cenv (fs ! j) ej) E)"
    by (rule Cons.IH [OF _ grows(1) rest(1)]) (use Cons.prems(1) in simp)
  have debug: "function_name (func_debug f n) = func_name f" "entry_offset (func_debug f n) = of_nat n" for n
    by (simp_all add: func_debug_def debug_entry_new_def debug_entry_with_location_def split: option.split)
  show ?case
    using IH grows(2) Cons.prems(2)
    by (auto simp: rest(2,3) debug nth_Cons' less_Suc_eq_0_disj intro: code_grows_trans)
qed simp

text \<open>The patched program and the emission state of one of its functions.\<close>

lemma placed_func:
  assumes core: "core_func (func_names cenv) f" and e: "calls_marked (func_names cenv) e"
    and E: "calls_marked (func_names cenv) E" "code_grows (emit_func cenv f e) E"
    and offs: "\<forall>n\<in>set (func_names cenv). func_offset offs n \<noteq> None"
    and p: "code p = out_code (fold (patch_call offs) (call_patches E) E) @ [OpBase Halt]"
      "strings p = out_strings (fold (patch_call offs) (call_patches E) E)"
    and T: "\<And>bb. T bb = (if unat bb < length (block_offsets cenv f e) then block_offsets cenv f e ! unat bb else 0)"
    and K: "\<And>n. K n = the (func_offset offs n)"
  shows "placed p T K (start_func f e) (body_of cenv f e)" "code_at p (length (out_code e)) (prologue f)"
proof -
  let ?B = "body_of cenv f e" and ?F = "emit_func cenv f e"
  note code = func_code [OF core e]
  have calls: "distinct (map fst (call_patches E))"
    "\<forall>(i, n)\<in>set (call_patches E). i < length (out_code E) \<and> out_code E ! i = Call 0 \<and> func_offset offs n \<noteq> None"
    using E(1) offs by (fastforce simp: calls_marked_def places_def)+
  note patched = fold_patch_call [OF calls]
  have F: "call_patches ?F = call_patches ?B" "out_strings ?F = out_strings ?B"
    by (simp_all add: emit_func_eq)
  obtain ops ss cs where grows: "out_code E = out_code ?F @ ops" "out_strings E = out_strings ?F @ ss"
    "call_patches E = call_patches ?F @ cs" "\<forall>c\<in>set cs. length (out_code ?F) \<le> fst c"
    using E(2) by (auto simp: code_grows_def)
  have len: "length (out_code ?F) = length (out_code ?B)" by (rule code(3))
  have other: "code p ! i = out_code ?F ! i"
    if "i < length (out_code ?B)" "i \<notin> fst ` set (call_patches ?B)" for i
  proof -
    have "i \<notin> fst ` set (call_patches E)"
      using that grows(3,4) by (auto simp: F len image_Un)
    then show ?thesis using patched that by (simp add: p nth_append grows(1) len)
  qed
  have called: "code p ! i = Call (K n)" if "(i, n) \<in> set (call_patches ?B)" for i n
  proof -
    have "(i, n) \<in> set (call_patches E)" using that by (simp add: grows(3) F)
    then show ?thesis using patched calls(2) by (fastforce simp: p nth_append K)
  qed
  show "placed p T K (start_func f e) ?B"
    unfolding placed_def
  proof (intro conjI)
    show "length (out_code ?B) \<le> length (code p)" using patched by (simp add: p grows(1) len)
    show "\<exists>ss. strings p = out_strings ?B @ ss" using patched by (simp add: p grows(2) F)
    show "\<forall>i. length (out_code (start_func f e)) \<le> i \<and> i < length (out_code ?B) \<and> \<not> patched ?B i \<longrightarrow>
        code p ! i = out_code ?B ! i"
      using other code(4) by (simp add: patched_def)
    show "\<forall>(i, bb)\<in>set (patch_jumps ?B). length (out_code (start_func f e)) \<le> i \<longrightarrow>
        code p ! i = retarget (T bb) (out_code ?B ! i)"
    proof clarify
      fix i bb assume i: "(i, bb) \<in> set (patch_jumps ?B)"
      have "out_code ?B ! i = Jump 0" using code(1) i by (auto simp: marked_def jumps_marked_def)
      with code(6) [OF i] code(5) [OF i] other [of i] show "code p ! i = retarget (T bb) (out_code ?B ! i)"
        by (simp add: retarget_def T)
    qed
    show "\<forall>(i, n)\<in>set (call_patches ?B). length (out_code (start_func f e)) \<le> i \<longrightarrow> code p ! i = Call (K n)"
      using called by auto
  qed
  have body: "out_code ?B ! i = out_code (start_func f e) ! i" if "i < length (out_code (start_func f e))" for i
    using code_earlier [OF code(2) that] .
  have lenB: "length (out_code (start_func f e)) \<le> length (out_code ?B)" by (rule extends_length [OF code(2)])
  have "code p ! i = out_code (start_func f e) ! i"
    if "length (out_code e) \<le> i" "i < length (out_code (start_func f e))" for i
  proof -
    obtain cs' where cs': "call_patches ?B = call_patches (start_func f e) @ cs'"
      "places cs' (length (out_code (start_func f e))) (length (out_code ?B))"
      using code(2) unfolding extends_def Let_def by blast
    have "i \<notin> fst ` set (call_patches (start_func f e))"
      using e that(1) by (fastforce simp: start_fields calls_marked_def places_def)
    moreover have "i \<notin> fst ` set cs'" using cs'(2) that(2) by (auto simp: places_def)
    ultimately have "code p ! i = out_code ?F ! i" using other [of i] that lenB by (simp add: cs'(1) image_Un)
    moreover have "i \<notin> fst ` set (patch_jumps ?B)" using code(6) that(2) by fastforce
    ultimately show ?thesis using code(4) body that(2) by simp
  qed
  then show "code_at p (length (out_code e)) (prologue f)"
    using lenB patched by (auto simp: code_at_def start_fields p grows(1) len nth_append)
qed

section \<open>Calls\<close>

text \<open>
  A function of the module on arguments, with at most as many nested calls, and blocks in one
  activation, as the first argument says. A function that returns nothing is called for the value 0.
\<close>

fun run_func ::
  "nat \<Rightarrow> rust_std \<Rightarrow> rstring list \<Rightarrow> func list \<Rightarrow> rstring \<Rightarrow> vm_value list \<Rightarrow> vm_value option option"
where
  "run_func 0 fl pool fs n vs = None"
| "run_func (Suc d) fl pool fs n vs =
     (case find (\<lambda>f. func_name f = n) fs of
        None \<Rightarrow> None
      | Some f \<Rightarrow>
          if length vs = length (params f) then
            map_option fst (run_blocks d
              (call_sem fl pool (\<lambda>c us. map_option (\<lambda>r. or_else r (I64 0)) (run_func d fl pool fs c us)))
              (core_tsem fl) f None 0 (param_env vs) Map.empty)
          else None)"

abbreviation func_calls ::
  "nat \<Rightarrow> rust_std \<Rightarrow> rstring list \<Rightarrow> func list \<Rightarrow> rstring \<Rightarrow> vm_value list \<Rightarrow> vm_value option"
where
  "func_calls d fl pool fs \<equiv> \<lambda>c us. map_option (\<lambda>r. or_else r (I64 0)) (run_func d fl pool fs c us)"

text \<open>A module whose functions are all covered; \<open>N\<close> bounds the operands on the stack.\<close>

definition core_module :: "nat \<Rightarrow> rstring list \<Rightarrow> func list \<Rightarrow> bool" where
  "core_module N names fs \<longleftrightarrow>
     distinct (map func_name fs) \<and> set names = func_name ` set fs \<and>
     (\<forall>f\<in>set fs. core_func names f \<and> operands_fit N f)"

text \<open>Where a function of the module is, and what a run of it does.\<close>

definition located :: "emit_env \<Rightarrow> program \<Rightarrow> (rstring \<Rightarrow> u32) \<Rightarrow> func \<Rightarrow> bool" where
  "located cenv p K f \<longleftrightarrow>
     (\<exists>e T. unat (K (func_name f)) = length (out_code e) \<and> calls_marked (func_names cenv) e \<and>
        placed p T K (start_func f e) (body_of cenv f e) \<and> code_at p (length (out_code e)) (prologue f) \<and>
        (\<forall>j<length (blocks f). T (of_nat j) = block_offsets cenv f e ! j))"

lemma located_start:
  "located cenv p K f \<Longrightarrow>
   \<exists>e :: emit. unat (K (func_name f)) = length (out_code e) \<and> code_at p (length (out_code e)) (prologue f)"
  unfolding located_def by blast

definition runs_ok :: "emit_env \<Rightarrow> program \<Rightarrow> (rstring \<Rightarrow> u32) \<Rightarrow> func list \<Rightarrow> nat \<Rightarrow> 'w env \<Rightarrow> bool" where
  "runs_ok cenv p K fs N m \<longleftrightarrow>
     core_module N (func_names cenv) fs \<and> (\<forall>f\<in>set fs. located cenv p K f) \<and>
     length (strings p) \<le> 2 ^ 32 \<and> length (code p) < 2 ^ 32 \<and> N \<le> max_stack_depth m"

definition callee_state :: "'w vm \<Rightarrow> nat \<Rightarrow> frame \<Rightarrow> 'w vm" where
  "callee_state s i fr = s\<lparr>frames := fr # frames s, ret_stack := Suc i # ret_stack s\<rparr>"

lemma exec_call_prologue:
  assumes "code_at p (unat tgt) (prologue f)" "length vs = length (params f)"
  shows "exec_op m ex p (Call tgt) (in_state s i (rev vs) fr) =
    Next (in_state (callee_state s i fr) (unat tgt) (rev vs) (replicate (scan_function_local_count p tgt) None))"
proof (cases "params f")
  case Nil
  then show ?thesis using assms(2)
    by (simp add: exec_op_def exec_call_def Let_def enter_def in_state_def callee_state_def)
next
  case (Cons a as)
  then have "prologue f = LocalSet (of_nat (length as)) # map (\<lambda>i. LocalSet (of_nat i)) (rev [0..<length as])"
    by (simp add: prologue_def)
  with assms(1) have "has_prologue p (unat tgt)" by (simp add: has_prologue_def kind_of_def)
  then show ?thesis by (simp add: exec_op_def exec_call_def Let_def enter_def in_state_def callee_state_def)
qed

lemma exec_ret_callee:
  "exec_op m ex p (OpBase Ret) (in_state (callee_state s i fr) pos (result_stack v) fr') =
   Next (in_state s (Suc i) (result_stack v) fr)"
  by (cases v) (simp_all add: exec_op_def exec_base_def exec_ret_def in_state_def callee_state_def result_stack_def
      Let_def)

lemma run_located:
  fixes m :: "'w env"
  assumes ok: "runs_ok cenv p K fs N m" and f: "f \<in> set fs" and room: "room m s N"
    and calls: "calls_run m ex p K (func_names cenv) calls s" and args: "length vs = length (params f)"
    and run: "run_blocks d (call_sem (std m) (module_pool cenv) calls) (core_tsem (std m)) f None 0
      (param_env vs) Map.empty = Some (v, w')"
  shows "returns m ex p s (unat (K (func_name f))) (rev vs) fr v"
proof -
  obtain e T where e: "unat (K (func_name f)) = length (out_code e)" "calls_marked (func_names cenv) e"
    "placed p T K (start_func f e) (body_of cenv f e)" "code_at p (length (out_code e)) (prologue f)"
    "\<forall>j<length (blocks f). T (of_nat j) = block_offsets cenv f e ! j"
    using ok f by (auto simp: runs_ok_def located_def)
  have core: "core_func (func_names cenv) f" "operands_fit N f"
    using ok f by (auto simp: runs_ok_def core_module_def)
  have tidy: "tidy (start_func f e)" by (rule marked_tidy [OF marked_start [OF e(2)]])
  show ?thesis
    unfolding e(1)
    by (rule simulate_func [OF core(1,2) room e(3) [unfolded body_of_def] e(4) tidy _ _ _ calls args run])
      (use e(5) ok in \<open>auto simp: block_offsets_def runs_ok_def\<close>)
qed

lemma calls_simulated:
  fixes m :: "'w env"
  assumes "runs_ok cenv p K fs N m" "length (frames s) + d \<le> max_call_depth m"
  shows "calls_run m ex p K (func_names cenv) (func_calls d (std m) (module_pool cenv) fs) s"
  using assms(2)
proof (induction d arbitrary: s)
  case 0
  show ?case by (simp add: calls_run_def)
next
  case (Suc d)
  let ?calls = "func_calls d (std m) (module_pool cenv) fs"
  show ?case
    unfolding calls_run_def
  proof (intro allI impI)
    fix n vs x i fr
    assume call: "n \<in> set (func_names cenv) \<and> func_calls (Suc d) (std m) (module_pool cenv) fs n vs = Some x \<and>
      code_at p i [Call (K n)]"
    then obtain r where r: "run_func (Suc d) (std m) (module_pool cenv) fs n vs = Some r" "x = or_else r (I64 0)"
      by auto
    then obtain f w' where f: "find (\<lambda>f. func_name f = n) fs = Some f" "length vs = length (params f)"
      "run_blocks d (call_sem (std m) (module_pool cenv) ?calls) (core_tsem (std m)) f None 0 (param_env vs) Map.empty = Some (r, w')"
      by (auto split: option.splits if_splits)
    have fs: "f \<in> set fs" "func_name f = n" using f(1) by (auto simp: find_Some_iff)
    have N: "length vs \<le> N" using assms(1) fs f(2) by (auto simp: runs_ok_def core_module_def operands_fit_def)
    have room: "room m s N" "room m (callee_state s i fr) N"
      using assms(1) Suc.prems by (auto simp: room_def runs_ok_def callee_state_def)
    have "located cenv p K f" using assms(1) fs by (simp add: runs_ok_def)
    from located_start [OF this] obtain e :: emit where e: "unat (K n) = length (out_code e)"
      "code_at p (length (out_code e)) (prologue f)"
      unfolding fs(2) by blast
    let ?fr = "replicate (scan_function_local_count p (K n)) None"
    have "exec_op m ex p (Call (K n)) (in_state s i (rev vs) fr) =
        Next (in_state (callee_state s i fr) (unat (K n)) (rev vs) ?fr)"
      by (rule exec_call_prologue [OF _ f(2)]) (simp add: e)
    then have 1: "leads m ex p (in_state s i (rev vs) fr) (in_state (callee_state s i fr) (unat (K n)) (rev vs) ?fr)"
      using call room N by (intro leads_op) (auto simp: room_def)
    have "calls_run m ex p K (func_names cenv) ?calls (callee_state s i fr)"
      by (rule Suc.IH) (use Suc.prems in \<open>simp add: callee_state_def\<close>)
    from run_located [OF assms(1) fs(1) room(2) this f(2,3), of ?fr]
    obtain pos fr' where 2: "leads m ex p (in_state (callee_state s i fr) (unat (K n)) (rev vs) ?fr)
        (in_state (callee_state s i fr) pos (result_stack r) fr')" "code_at p pos [OpBase Ret]"
      by (auto simp: returns_def fs(2))
    have "2 \<le> N" using assms(1) fs by (auto simp: runs_ok_def core_module_def operands_fit_def)
    then have 3: "leads m ex p (in_state (callee_state s i fr) pos (result_stack r) fr') (in_state s (Suc i) (result_stack r) fr)"
      using room(2) by (intro leads_op [OF 2(2)] exec_ret_callee) (auto simp: room_def result_stack_def split: option.split)
    have "result_stack r = [x] \<or> result_stack r = [] \<and> x = I64 0"
      by (cases r) (simp_all add: r(2) result_stack_def or_else_def)
    with leads_trans [OF 1 leads_trans [OF 2(1) 3]]
    show "\<exists>st. leads m ex p (in_state s i (rev vs) fr) (in_state s (Suc i) st fr) \<and> (st = [x] \<or> st = [] \<and> x = I64 0)"
      by blast
  qed
qed

section \<open>The budget\<close>

lemma exec_op_max_steps: "exec_op (m\<lparr>max_steps := j\<rparr>) ex p x s = exec_op m ex p x s"
proof -
  have fields: "std (m\<lparr>max_steps := j\<rparr>) = std m" "limits (m\<lparr>max_steps := j\<rparr>) = limits m"
    "other_op (m\<lparr>max_steps := j\<rparr>) = other_op m" "linked_symbols (m\<lparr>max_steps := j\<rparr>) = linked_symbols m"
    by simp_all
  have lookup: "lookup_symbol (m\<lparr>max_steps := j\<rparr>) n = lookup_symbol m n" for n
    by (simp add: lookup_symbol_def)
  show ?thesis
    unfolding exec_op_def exec_str_def exec_list_def exec_map_def exec_struct_def exec_json_def
      exec_call_symbol_def lookup fields by (rule refl)
qed

lemma steps_max_steps: "steps (m\<lparr>max_steps := j\<rparr>) ex p k a b \<longleftrightarrow> steps m ex p k a b"
proof -
  have "step (m\<lparr>max_steps := j\<rparr>) ex p = step m ex p"
    by (intro ext) (simp add: step_iff exec_op_max_steps within_limits_def)
  moreover have "steps m2 ex p k a b" if "step m1 ex p = step m2 ex p" "steps m1 ex p k a b"
    for m1 m2 :: "'a env" and k a b
    using that(2) by (induction rule: steps.induct) (auto simp: that(1) intro: steps.intros)
  ultimately show ?thesis by metis
qed

section \<open>Compiled modules\<close>

lemma module_offsets:
  assumes module: "core_module N (func_names cenv) fs" and emit: "emit_funcs cenv fs empty_emit = (offs, dbg, E)"
  shows "calls_marked (func_names cenv) E" "j < length fs \<Longrightarrow> func_offset offs (func_name (fs ! j)) = Some (snd (offs ! j))"
    "\<forall>n\<in>set (func_names cenv). func_offset offs n \<noteq> None"
    "length (out_code (fold (patch_call offs) (call_patches E) E)) = length (out_code E)"
    "closure_patches (fold (patch_call offs) (call_patches E) E) = []"
    "j < length fs \<Longrightarrow> \<exists>ej. calls_marked (func_names cenv) ej \<and> snd (offs ! j) = of_nat (length (out_code ej)) \<and>
       code_grows (emit_func cenv (fs ! j) ej) E"
    "map (\<lambda>d. (function_name d, entry_offset d)) dbg = offs"
proof -
  have core: "\<forall>f\<in>set fs. core_func (func_names cenv) f" and names: "distinct (map func_name fs)"
    "set (func_names cenv) = func_name ` set fs"
    using module by (auto simp: core_module_def)
  have start: "calls_marked (func_names cenv) empty_emit" by (simp add: calls_marked_def empty_emit_def)
  note em = funcs_emitted [OF core start emit]
  show marked: "calls_marked (func_names cenv) E" using em by simp
  show "map (\<lambda>d. (function_name d, entry_offset d)) dbg = offs" using em by simp
  show "\<exists>ej. calls_marked (func_names cenv) ej \<and> snd (offs ! j) = of_nat (length (out_code ej)) \<and>
       code_grows (emit_func cenv (fs ! j) ej) E" if "j < length fs"
    using em that by blast
  have offset: "func_offset offs (func_name (fs ! i)) = Some (snd (offs ! i))" if "i < length fs" for i
  proof -
    have "distinct (map fst (rev offs))" using em names(1) by (simp add: rev_map [symmetric])
    moreover have eqs: "length offs = length fs" "map fst offs = map func_name fs" using em by auto
    have "fst (offs ! i) = func_name (fs ! i)" using eqs that by (metis nth_map)
    then have "(func_name (fs ! i), snd (offs ! i)) \<in> set (rev offs)"
      using em that by (metis nth_mem prod.collapse set_rev)
    ultimately show ?thesis by (simp add: func_offset_def)
  qed
  then show "func_offset offs (func_name (fs ! j)) = Some (snd (offs ! j))" if "j < length fs" using that by blast
  show all: "\<forall>n\<in>set (func_names cenv). func_offset offs n \<noteq> None"
    using offset by (auto simp: names(2) in_set_conv_nth)
  have "distinct (map fst (call_patches E))"
    "\<forall>(i, n)\<in>set (call_patches E). i < length (out_code E) \<and> out_code E ! i = Call 0 \<and> func_offset offs n \<noteq> None"
    using marked all by (fastforce simp: calls_marked_def places_def)+
  from fold_patch_call [OF this]
  show "length (out_code (fold (patch_call offs) (call_patches E) E)) = length (out_code E)"
    "closure_patches (fold (patch_call offs) (call_patches E) E) = []"
    using marked by (auto simp: calls_marked_def)
qed

lemma located_funcs:
  assumes module: "core_module N (func_names cenv) fs" and emit: "emit_funcs cenv fs empty_emit = (offs, dbg, E)"
    and p: "code p = out_code (fold (patch_call offs) (call_patches E) E) @ [OpBase Halt]"
      "strings p = out_strings (fold (patch_call offs) (call_patches E) E)" "length (code p) < 2 ^ 32"
    and f: "f \<in> set fs"
  shows "located cenv p (\<lambda>n. the (func_offset offs n)) f" "func_offset offs (func_name f) \<noteq> None"
    "unat (the (func_offset offs (func_name f))) < length (code p)"
proof -
  note mod = module_offsets [OF module emit]
  have core: "core_func (func_names cenv) f" using module f by (auto simp: core_module_def)
  obtain j where j: "j < length fs" "f = fs ! j" using f by (auto simp: in_set_conv_nth)
  then obtain e where e: "calls_marked (func_names cenv) e" "snd (offs ! j) = of_nat (length (out_code e))"
    "code_grows (emit_func cenv f e) E"
    using mod(6) by blast
  note pl = placed_func [OF core e(1) mod(1) e(3) mod(3) p(1,2) refl refl]
  have "length (out_code e) \<le> length (out_code (emit_func cenv f e))"
    using func_grows(2) [OF core e(1)] by (auto simp: code_grows_def)
  also have "\<dots> \<le> length (out_code E)" using e(3) by (auto simp: code_grows_def)
  finally have len: "length (out_code e) < length (code p)" by (simp add: p(1) mod(4))
  have at: "unat (the (func_offset offs (func_name f))) = length (out_code e)"
    using mod(2) [OF j(1)] len p(3) by (simp add: j(2) [symmetric] e(2) unat_of_nat)
  then show "unat (the (func_offset offs (func_name f))) < length (code p)" using len by simp
  show "func_offset offs (func_name f) \<noteq> None" using mod(2) [OF j(1)] j(2) by simp
  let ?T = "\<lambda>bb :: u32. if unat bb < length (block_offsets cenv f e) then block_offsets cenv f e ! unat bb else 0"
  have offs_len: "length (fst (emit_blocks cenv info bs e')) = length bs" for info bs e'
    by (induction bs arbitrary: e') (auto simp: split_def Let_def)
  have "?T (of_nat i) = block_offsets cenv f e ! i" if "i < length (blocks f)" for i
  proof -
    have "length (blocks f) < 2 ^ 32" using core by (simp add: core_func_def)
    then show ?thesis using that by (simp add: block_offsets_def offs_len unat_of_nat)
  qed
  with at e(1) pl show "located cenv p (\<lambda>n. the (func_offset offs n)) f"
    unfolding located_def by (intro exI [of _ e] exI [of _ ?T]) auto
qed

lemma compile_parts:
  assumes "fs \<noteq> []" "emit_funcs \<lparr>module_pool = strs, provider_meta = provider_table ps, func_names = names\<rparr> fs empty_emit =
      (offs, dbg, E)" "closure_patches (fold (patch_call offs) (call_patches E) E) = []"
    "p = compile_ir_to_program names bodies fs strs ps"
  shows "code p = out_code (fold (patch_call offs) (call_patches E) E) @ [OpBase Halt]"
    "strings p = out_strings (fold (patch_call offs) (call_patches E) E)" "debug_entries p = dbg"
  using assms(1-3) unfolding assms(4) compile_ir_to_program_def
  by (simp_all add: program_with_debug_info_def Let_def)

text \<open>The empty frame and stack of an export call without arguments.\<close>

lemma start_vm_state: "start_vm off g = in_state (g\<lparr>frames := [], ret_stack := []\<rparr>) off [] []"
  by (simp add: start_vm_def in_state_def)

lemma exec_ret_export:
  "exec_op m True p (OpBase Ret) (in_state (g\<lparr>frames := [], ret_stack := []\<rparr>) pos (result_stack r) fr) =
   Return (ReturnValue (i64_result r)) (g\<lparr>ip := pos, stack := [], frames := [], ret_stack := []\<rparr>)"
  by (cases r) (simp_all add: exec_op_def exec_base_def exec_ret_def in_state_def result_stack_def Let_def i64_result_def)

lemma export_returns:
  fixes m :: "'w env"
  assumes returns: "returns m True p (g\<lparr>frames := [], ret_stack := []\<rparr>) (unat off) [] [] r"
    and at: "unat off < length (code p)" and room: "1 \<le> max_stack_depth m"
  shows "\<exists>pos k. \<forall>j\<ge>k. call_export (m\<lparr>max_steps := j\<rparr>) p off 0 [] g =
    Finished (Success (i64_result r)) (g\<lparr>ip := pos, stack := [], frames := [], ret_stack := []\<rparr>)"
proof -
  let ?g = "g\<lparr>frames := [], ret_stack := []\<rparr>"
  obtain pos fr where run: "leads m True p (in_state ?g (unat off) [] []) (in_state ?g pos (result_stack r) fr)"
    "code_at p pos [OpBase Ret]"
    using returns by (auto simp: returns_def)
  have len: "length (result_stack r) \<le> 1" by (simp add: result_stack_def split: option.split)
  obtain k where k: "steps m True p k (in_state ?g (unat off) [] []) (in_state ?g pos (result_stack r) fr)"
    using run(1) by (auto simp: leads_def)
  let ?final = "g\<lparr>ip := pos, stack := [], frames := [], ret_stack := []\<rparr>"
  have "call_export (m\<lparr>max_steps := j\<rparr>) p off 0 [] g = Finished (Success (i64_result r)) ?final" if "Suc k \<le> j" for j
  proof -
    let ?m = "m\<lparr>max_steps := j\<rparr>"
    obtain i where i: "j = k + Suc i" using \<open>Suc k \<le> j\<close> by (metis add_Suc_shift le_Suc_ex)
    have "stops ?m True p (in_state ?g pos (result_stack r) fr) (Finished (ReturnValue (i64_result r)) ?final)"
    proof -
      have "ip (in_state ?g pos (result_stack r) fr) = pos" "stack (in_state ?g pos (result_stack r) fr) = result_stack r"
        "frames (in_state ?g pos (result_stack r) fr) = [fr]"
        by (simp_all add: in_state_def)
      moreover have "pos < length (code p)" "code p ! pos = OpBase Ret" using run(2) by auto
      ultimately show ?thesis
        using len room unfolding stops_def within_limits_def by (simp only: exec_ret_export) simp
    qed
    from run_loop_stops [OF this, of i]
    have "run_loop ?m True p j (in_state ?g (unat off) [] []) = Finished (ReturnValue (i64_result r)) ?final"
      using run_loop_steps [OF iffD2 [OF steps_max_steps k], of j "Suc i"] unfolding i by simp
    then show ?thesis
      using at by (simp add: call_export_def call_export_internal_def run_program_internal_def start_vm_state Let_def)
  qed
  then show ?thesis by blast
qed

text \<open>
  C1: what the semantics computes for a function of a compiled module without parameters, calls of
  other functions of the module and recursion included, a call of its export returns, given enough
  steps; and the call leaves everything else of the machine as it was.
\<close>

theorem compiled_module_correct:
  fixes m :: "'w env"
  assumes module: "core_module N names fs"
    and compiled: "compile_ir_to_program_with_offsets names bodies fs strs ps = (p, offs)"
    and size: "length (code p) < 2 ^ 32" "length (strings p) \<le> 2 ^ 32"
    and limits: "N \<le> max_stack_depth m" "d \<le> max_call_depth m"
    and run: "run_func d (std m) strs fs n [] = Some r"
  shows "\<exists>off pos k. offs n = Some off \<and>
    (\<forall>j\<ge>k. call_export (m\<lparr>max_steps := j\<rparr>) p off 0 [] g =
       Finished (Success (i64_result r)) (g\<lparr>ip := pos, stack := [], frames := [], ret_stack := []\<rparr>))"
proof -
  let ?cenv = "\<lparr>module_pool = strs, provider_meta = provider_table ps, func_names = names\<rparr>"
  obtain d' f w' where f: "d = Suc d'" "find (\<lambda>f. func_name f = n) fs = Some f" "length (params f) = 0"
    "run_blocks d' (call_sem (std m) (module_pool ?cenv) (func_calls d' (std m) (module_pool ?cenv) fs))
       (core_tsem (std m)) f None 0 (param_env []) Map.empty = Some (r, w')"
    using run by (cases d) (auto split: option.splits if_splits)
  have fs: "f \<in> set fs" "func_name f = n" using f(2) by (auto simp: find_Some_iff)
  obtain es dbg E where E: "emit_funcs ?cenv fs empty_emit = (es, dbg, E)" by (metis prod_cases3)
  have core: "core_module N (func_names ?cenv) fs" using module by simp
  have p: "p = compile_ir_to_program names bodies fs strs ps"
    "offs = map_of (rev (map (\<lambda>d. (function_name d, entry_offset d)) (debug_entries p)))"
    using compiled by (auto simp: compile_ir_to_program_with_offsets_def Let_def)
  note mod = module_offsets [OF core E]
  have "fs \<noteq> []" using fs(1) by auto
  note compile_parts [OF this E mod(5) p(1)]
  then have parts: "code p = out_code (fold (patch_call es) (call_patches E) E) @ [OpBase Halt]"
    "strings p = out_strings (fold (patch_call es) (call_patches E) E)" "debug_entries p = dbg" by simp_all
  note located = located_funcs [OF core E parts(1,2) size(1)]
  let ?K = "\<lambda>n. the (func_offset es n)"
  have "offs = func_offset es" using mod(7) p(2) by (simp add: parts(3) func_offset_def)
  then have off: "offs n = Some (?K n)" using located(2) [OF fs(1)] fs(2) by auto
  have ok: "runs_ok ?cenv p ?K fs N m"
    using core located(1) size limits(1) by (simp add: runs_ok_def)
  let ?g = "g\<lparr>frames := [], ret_stack := []\<rparr>"
  have "calls_run m True p ?K (func_names ?cenv) (func_calls d' (std m) (module_pool ?cenv) fs) ?g"
    by (rule calls_simulated [OF ok]) (use limits(2) f(1) in simp)
  moreover have "room m ?g N" using limits(1) by (simp add: room_def)
  ultimately have "returns m True p ?g (unat (?K (func_name f))) (rev []) [] r"
    by (intro run_located [OF ok fs(1) _ _ _ f(4)]) (simp_all add: f(3))
  moreover have "2 \<le> N" using core fs(1) by (auto simp: core_module_def operands_fit_def)
  ultimately show ?thesis
    using export_returns [of m p g "?K n" r] located(3) [OF fs(1)] limits(1) fs(2) off by auto
qed

end
