(* ===== verification/Emit_Example.thy ===== *)
theory Emit_Example
  imports Emit_Correct Opt_Props
begin

text \<open>A module of two functions, and the theorem about compiled modules on it.\<close>

section \<open>An example\<close>

text \<open>
  \<open>main\<close> adds \<open>double(i)\<close> for i from 1 to 2 in a loop with two phis; \<open>double\<close> takes a parameter.
\<close>

definition no_span :: "ir_value \<Rightarrow> inst_kind \<Rightarrow> inst" where
  "no_span r k = \<lparr>result = r, kind = k, inst_span = None\<rparr>"

definition plain_block :: "inst list \<Rightarrow> terminator \<Rightarrow> block_data" where
  "plain_block is t = \<lparr>block_name = [], insts = is, block_term = t, block_span = None\<rparr>"

definition plain_func :: "rstring \<Rightarrow> ty list \<Rightarrow> block_data list \<Rightarrow> func" where
  "plain_func n ps bs = \<lparr>func_name = n, params = ps, func_ret = Ty_I64, blocks = bs, func_linkage = Link_External,
     func_span = None\<rparr>"

definition double_name :: rstring where
  "double_name = bytes_of ''double''"

definition main_name :: rstring where
  "main_name = bytes_of ''main''"

definition double_func :: func where
  "double_func = plain_func double_name [Ty_I64]
     [plain_block [no_span 1 (IBinary Bin_Add 0 0)] (TRet (Some 1))]"

definition main_func :: func where
  "main_func = plain_func main_name []
     [plain_block [no_span 1 (IConstI64 1), no_span 2 (IConstI64 0), no_span 3 (IConstI64 2)] (TBr 1),
      plain_block [no_span 4 (IPhi [(0, 1), (2, 8)]), no_span 5 (IPhi [(0, 2), (2, 7)]),
          no_span 6 (ICmp Cmp_Le 4 3)] (TCondBr 6 2 3),
      plain_block [no_span 9 (ICall double_name [4] Ty_I64), no_span 7 (IBinary Bin_Add 5 9),
          no_span 8 (IBinary Bin_Add 4 1)] (TBr 1),
      plain_block [] (TRet (Some 5))]"

lemmas example_defs = double_func_def main_func_def plain_func_def plain_block_def no_span_def

text \<open>The names of intrinsics start with an underscore, or are \<^verbatim>\<open>host_call\<close>.\<close>

lemma intrinsic_names: "list_all (\<lambda>x. hd (fst x) = CHR ''_'' \<or> hd (fst x) = CHR ''h'') intrinsics"
  by (simp add: intrinsics_def cast_calls_def shared_calls_def executor_calls_def mpmc_calls_1_def mpmc_calls_2_def
    mpmc_calls_3_def actor_calls_1_def actor_calls_2_def atomic_calls_1_def atomic_calls_2_def
    event_loop_calls_1_def event_loop_calls_2_def timer_calls_1_def task_calls_1_def timer_calls_2_def
    tcp_calls_1_def tcp_calls_2_def tcp_calls_3_def http_calls_1_def http_calls_2_def
    http_calls_3_def http_calls_4_def print_calls_1_def math_calls_def print_calls_2_def
    list_calls_def map_calls_1_def map_calls_2_def str_calls_1_def str_calls_2_def
    str_calls_3_def opt_calls_def struct_calls_1_def struct_calls_2_def enum_calls_def
    http_calls_5_def json_calls_1_def struct_calls_3_def json_calls_2_def json_calls_3_def
    log_calls_def file_calls_1_def file_calls_2_def file_calls_3_def console_calls_def
    datetime_calls_def sqlite_calls_1_def sqlite_calls_2_def sqlite_calls_3_def sqlite_calls_4_def
    pg_calls_1_def pg_calls_2_def pg_calls_3_def pg_calls_4_def pg_calls_5_def
    sqlite_calls_5_def pg_calls_6_def sqlite_calls_6_def pg_calls_7_def bigdecimal_calls_1_def
    bigdecimal_calls_2_def bigdecimal_calls_3_def bigint_calls_1_def bigint_calls_2_def task_calls_2_def
    misc_calls_def)

lemma intrinsic_not_nil: "list_all (\<lambda>x. fst x \<noteq> []) intrinsics"
  by (simp add: intrinsics_def cast_calls_def shared_calls_def executor_calls_def mpmc_calls_1_def mpmc_calls_2_def
    mpmc_calls_3_def actor_calls_1_def actor_calls_2_def atomic_calls_1_def atomic_calls_2_def
    event_loop_calls_1_def event_loop_calls_2_def timer_calls_1_def task_calls_1_def timer_calls_2_def
    tcp_calls_1_def tcp_calls_2_def tcp_calls_3_def http_calls_1_def http_calls_2_def
    http_calls_3_def http_calls_4_def print_calls_1_def math_calls_def print_calls_2_def
    list_calls_def map_calls_1_def map_calls_2_def str_calls_1_def str_calls_2_def
    str_calls_3_def opt_calls_def struct_calls_1_def struct_calls_2_def enum_calls_def
    http_calls_5_def json_calls_1_def struct_calls_3_def json_calls_2_def json_calls_3_def
    log_calls_def file_calls_1_def file_calls_2_def file_calls_3_def console_calls_def
    datetime_calls_def sqlite_calls_1_def sqlite_calls_2_def sqlite_calls_3_def sqlite_calls_4_def
    pg_calls_1_def pg_calls_2_def pg_calls_3_def pg_calls_4_def pg_calls_5_def
    sqlite_calls_5_def pg_calls_6_def sqlite_calls_6_def pg_calls_7_def bigdecimal_calls_1_def
    bigdecimal_calls_2_def bigdecimal_calls_3_def bigint_calls_1_def bigint_calls_2_def task_calls_2_def
    misc_calls_def)

lemma example_names [simp]: "double_name \<noteq> main_name" "main_name \<noteq> double_name"
  by (simp_all add: double_name_def main_name_def bytes_of_def)

lemma example_no_intrinsic [simp]: "find_intrinsic double_name k = None"
proof -
  have "\<not> (bytes_of (fst x) = bytes_of ''double'')" if x: "x \<in> set intrinsics" for x
  proof -
    obtain c cs where c: "fst x = c # cs" "c = CHR ''_'' \<or> c = CHR ''h''"
    proof -
      have "fst x \<noteq> []" "hd (fst x) = CHR ''_'' \<or> hd (fst x) = CHR ''h''"
        using x intrinsic_names intrinsic_not_nil by (auto simp: list_all_iff)
      then show ?thesis by (cases "fst x") (auto intro: that)
    qed
    then show ?thesis by (auto simp: bytes_of_def)
  qed
  then have "find (\<lambda>(s, t, _). bytes_of s = bytes_of ''double'' \<and> accepts t k) intrinsics = None"
    by (fastforce simp: find_None_iff)
  then show ?thesis by (simp add: find_intrinsic_def double_name_def)
qed

lemma example_module: "core_module 2 [double_name, main_name] [double_func, main_func]"
  by (simp add: core_module_def core_func_def operands_fit_def example_defs collect_phis_def List.map_filter_simps
        known_first_def phi_results_def block_ok_def phis_first_def is_phi_def core_inst_def is_alloca_def
        core_term_def inst_count_def lessThan_Suc)

lemmas run_numeral =
  run_func.simps(2) [where d = "pred_numeral k" for k, folded numeral_eq_Suc]
  run_blocks.simps(2) [where n = "pred_numeral k" for k, folded numeral_eq_Suc]

lemma example_runs:
  "run_func 8 sample_std [] [double_func, main_func] main_name [] = Some (Some (I64 6))"
  by (simp add: run_numeral example_defs param_env_def run_inst_def call_sem_def core_sem_def core_tsem_def
        bin_values_def cmp_values_def add_values_def lt_values_def phi_value_def bind_result_def or_else_def)

definition example_program :: program where
  "example_program = compile_ir_to_program [double_name, main_name] [] [double_func, main_func] [] []"

lemma example_code:
  "code example_program =
     [LocalSet 0, LocalGet 0, LocalGet 0, OpArith AddI64, LocalSet 1, LocalGet 1, OpBase Ret,
      PushI64 1, LocalSet 2, PushI64 0, LocalSet 3, PushI64 2, LocalSet 4, LocalGet 2, LocalSet 0,
      LocalGet 3, LocalSet 1, Jump 18, LocalGet 4, LocalGet 0, OpArith LtI64, PushBool 0, OpArith EqI64,
      LocalSet 5, LocalGet 5, JumpIfFalse 27, Jump 28, Jump 44, LocalGet 0, Call 0, LocalSet 6,
      LocalGet 1, LocalGet 6, OpArith AddI64, LocalSet 7, LocalGet 0, LocalGet 2, OpArith AddI64,
      LocalSet 8, LocalGet 8, LocalSet 0, LocalGet 7, LocalSet 1, Jump 18, LocalGet 1, OpBase Ret,
      OpBase Halt]"
  "strings example_program = []"
  by (simp_all add: example_program_def example_defs emit_defs emit_binary_def bin_code_def emit_call_def example_no_intrinsic
        emit_generic_call_def qualified_name_def known_func_def push_values_def add_call_def set_result_def
        patch_call_def func_offset_def assign_phi_def)

lemma compiled_module_correct_witness:
  "\<exists>j pos. call_export (sample_env j) example_program
     (the (snd (compile_ir_to_program_with_offsets [double_name, main_name] [] [double_func, main_func] [] [])
       main_name)) 0 [] idle_vm =
   Finished (Success (Some 6)) (idle_vm\<lparr>ip := pos, stack := [], frames := [], ret_stack := []\<rparr>)"
proof -
  let ?c = "compile_ir_to_program_with_offsets [double_name, main_name] [] [double_func, main_func] [] []"
  have p: "?c = (example_program, snd ?c)"
    by (simp add: compile_ir_to_program_with_offsets_def Let_def example_program_def)
  have env: "std (sample_env 0) = sample_std" "(sample_env 0)\<lparr>max_steps := j\<rparr> = sample_env j"
    "max_stack_depth (sample_env 0) = 1000000" "max_call_depth (sample_env 0) = 64000" for j
    by (simp_all add: sample_env_def)
  have "\<exists>off pos k. snd ?c main_name = Some off \<and>
      (\<forall>j\<ge>k. call_export ((sample_env 0)\<lparr>max_steps := j\<rparr>) example_program off 0 [] idle_vm =
        Finished (Success (i64_result (Some (I64 6)))) (idle_vm\<lparr>ip := pos, stack := [], frames := [], ret_stack := []\<rparr>))"
    by (rule compiled_module_correct [OF example_module p, where d = 8])
      (simp_all add: example_code env example_runs)
  then obtain off pos k where "snd ?c main_name = Some off"
    "call_export ((sample_env 0)\<lparr>max_steps := k\<rparr>) example_program off 0 [] idle_vm =
      Finished (Success (i64_result (Some (I64 6)))) (idle_vm\<lparr>ip := pos, stack := [], frames := [], ret_stack := []\<rparr>)"
    by blast
  then show ?thesis by (intro exI [of _ k] exI [of _ pos]) (simp add: env i64_result_def)
qed

end
