(* ===== verification/Executor.thy ===== *)
theory Executor
  imports Prelude "HOL-Library.Multiset"
begin

text \<open>
  The concurrent executor of the virtual machine (\<^verbatim>\<open>crates/arth-vm/src/runtime/executor.inc.rs\<close>): a
  table of tasks shared by worker threads, a global queue, a local queue per worker, and the life
  of a task through its states. Every access to shared state (an atomic load or exchange, a locked
  section, a queue operation) is a step of its own, so a run is an interleaving of the workers'
  steps and the client's calls; the accesses of one thread to data no other thread can reach at
  that moment are merged. The queues of the crate \<^verbatim>\<open>crossbeam_deque\<close> are a parameter, and
  \<open>deque_ok\<close> says what the executor relies on: an element pushed is handed out exactly once. A
  failed attempt (\<^verbatim>\<open>Steal::Retry\<close>) is repeated by the code and belongs to the taking operation.
\<close>

section \<open>Queues\<close>

record 'q deque =
  dq_new :: 'q
  dq_push :: "'q \<Rightarrow> u64 \<Rightarrow> 'q"
  dq_take :: "'q \<Rightarrow> (u64 \<times> 'q) option"

definition deque_ok :: "'q deque \<Rightarrow> ('q \<Rightarrow> u64 multiset) \<Rightarrow> bool" where
  "deque_ok dq items \<longleftrightarrow>
     items (dq_new dq) = {#} \<and>
     (\<forall>q t. items (dq_push dq q t) = add_mset t (items q)) \<and>
     (\<forall>q. dq_take dq q = None \<longrightarrow> items q = {#}) \<and>
     (\<forall>q t q'. dq_take dq q = Some (t, q') \<longrightarrow> items q = add_mset t (items q'))"

section \<open>Tasks\<close>

datatype task_state = Task_Pending | Task_Running | Task_Completed | Task_Cancelled | Task_Suspended

record task =
  fn_id :: i64
  task_args :: "i64 list"
  task_state :: task_state
  task_result :: "i64 option"
  saved_ip :: "usize option"
  saved_locals :: "i64 list option"
  waiters :: "u64 list"
  executed_by :: "usize option"
  waiting_on :: "u64 option"

definition new_task :: "i64 \<Rightarrow> i64 list \<Rightarrow> task" where
  "new_task f args =
     \<lparr>fn_id = f, task_args = args, task_state = Task_Pending, task_result = None, saved_ip = None,
      saved_locals = None, waiters = [], executed_by = None, waiting_on = None\<rparr>"

definition set_state :: "task_state \<Rightarrow> task \<Rightarrow> task" where
  "set_state st k = k\<lparr>task_state := st\<rparr>"

text \<open>The atomic exchange of the state; \<open>None\<close> when the task is in another state.\<close>

definition try_transition :: "task_state \<Rightarrow> task_state \<Rightarrow> task \<Rightarrow> task option" where
  "try_transition expected st k = (if task_state k = expected then Some (set_state st k) else None)"

definition suspend :: "usize \<Rightarrow> i64 list \<Rightarrow> u64 option \<Rightarrow> task \<Rightarrow> task" where
  "suspend ip ls target k =
     set_state Task_Suspended (k\<lparr>saved_ip := Some ip, saved_locals := Some ls, waiting_on := target\<rparr>)"

definition clear_saved :: "task \<Rightarrow> task" where
  "clear_saved k = k\<lparr>saved_ip := None, saved_locals := None, waiting_on := None\<rparr>"

section \<open>The work of a task\<close>

text \<open>The loop of work type 1, \<open>n\<close> rounds of \<^verbatim>\<open>sum = (sum + i) * 31\<close> on \<^verbatim>\<open>u64\<close>.\<close>

primrec busy_sum :: "nat \<Rightarrow> u64" where
  "busy_sum 0 = 0"
| "busy_sum (Suc n) = (busy_sum n + of_nat n) * 31"

fun compute_fibonacci :: "nat \<Rightarrow> u64" where
  "compute_fibonacci n =
     (if n \<le> 1 then of_nat n else compute_fibonacci (n - 1) + compute_fibonacci (n - 2))"

declare compute_fibonacci.simps [simp del]

text \<open>The arguments of the task that work type 3 spawns, and its accumulator, with their defaults.\<close>

definition sub_arg :: "i64 list \<Rightarrow> i64" where
  "sub_arg args = (case args of _ # b # _ \<Rightarrow> b | _ \<Rightarrow> 10)"

definition accumulator :: "i64 list \<Rightarrow> i64" where
  "accumulator args = (case args of _ # _ # c # _ \<Rightarrow> c | _ \<Rightarrow> 100)"

datatype work = Value i64 | Await i64 "i64 list" i64

definition work_of :: "i64 \<Rightarrow> i64 list \<Rightarrow> work" where
  "work_of f args =
     (case args of
        [] \<Rightarrow> Value f
      | a # _ \<Rightarrow>
          if f = 1 then Value (busy_sum (unat a))
          else if f = 2 then Value (compute_fibonacci (unat a))
          else if f = 3 then Await a [sub_arg args] (accumulator args)
          else Value f)"

section \<open>The pool\<close>

text \<open>Where a worker is: searching, or at one of the accesses of the task it runs.\<close>

datatype pc =
    Start | Loop | TryLocal | TrySteal nat | TryInject | Park | Leave | Stopped
  | CasPending u64 | CasSuspended u64
  | Execute u64 | Resume u64 u64 | ResumeResult u64 u64 | DoWork u64
  | CheckSub u64 u64 i64 | SubResult u64 u64 i64 | DoSuspend u64 u64 i64 | AddWaiter u64 u64
  | Complete u64 i64 | MarkCompleted u64 | TakeWaiters u64
  | Wake "u64 list" | WakeUp u64 "u64 list" | Resubmit u64 "u64 list"

record 'q pool =
  tasks :: "u64 \<Rightarrow> task option"
  injector :: 'q
  local_queues :: "'q list"
  workers :: "pc list"
  next_task_id :: u64
  shutdown :: bool
  active_workers :: usize
  worker_task_counts :: "u64 list"

definition pool_new :: "'q deque \<Rightarrow> nat \<Rightarrow> 'q pool" where
  "pool_new dq n =
     (let n = max n 1
      in \<lparr>tasks = Map.empty, injector = dq_new dq, local_queues = replicate n (dq_new dq),
          workers = replicate n Start, next_task_id = 1, shutdown = False, active_workers = 0,
          worker_task_counts = replicate n 0\<rparr>)"

definition goto :: "nat \<Rightarrow> pc \<Rightarrow> 'q pool \<Rightarrow> 'q pool" where
  "goto w l s = s\<lparr>workers := (workers s)[w := l]\<rparr>"

definition update_task :: "u64 \<Rightarrow> (task \<Rightarrow> task) \<Rightarrow> 'q pool \<Rightarrow> 'q pool" where
  "update_task t f s = s\<lparr>tasks := (tasks s)(t := map_option f (tasks s t))\<rparr>"

definition the_task :: "'q pool \<Rightarrow> u64 \<Rightarrow> task" where
  "the_task s t = the (tasks s t)"

text \<open>\<^verbatim>\<open>spawn\<close>: a fresh id, the table entry, and the push to the global queue.\<close>

definition submit :: "'q deque \<Rightarrow> i64 \<Rightarrow> i64 list \<Rightarrow> 'q pool \<Rightarrow> 'q pool" where
  "submit dq f args s =
     (let t = next_task_id s
      in s\<lparr>next_task_id := t + 1, tasks := (tasks s)(t \<mapsto> new_task f args),
           injector := dq_push dq (injector s) t\<rparr>)"

section \<open>A worker's step\<close>

text \<open>\<^verbatim>\<open>try_steal\<close>: the worker's own queue, the others in their order, then the global queue.\<close>

definition try_steal :: "'q deque \<Rightarrow> nat \<Rightarrow> pc \<Rightarrow> 'q pool \<Rightarrow> 'q pool" where
  "try_steal dq w l s =
     (let from_local = (\<lambda>i otherwise.
            case dq_take dq (local_queues s ! i) of
              Some (t, q) \<Rightarrow> goto w (CasPending t) (s\<lparr>local_queues := (local_queues s)[i := q]\<rparr>)
            | None \<Rightarrow> goto w otherwise s)
      in case l of
           TryLocal \<Rightarrow> from_local w (TrySteal 0)
         | TrySteal i \<Rightarrow>
             if length (local_queues s) \<le> i then goto w TryInject s
             else if i = w then goto w (TrySteal (Suc i)) s
             else from_local i (TrySteal (Suc i))
         | _ \<Rightarrow>
             case dq_take dq (injector s) of
               Some (t, q) \<Rightarrow> goto w (CasPending t) (s\<lparr>injector := q\<rparr>)
             | None \<Rightarrow> goto w Park s)"

text \<open>\<^verbatim>\<open>concurrent_worker_loop\<close>, the search aside.\<close>

definition loop_step :: "nat \<Rightarrow> pc \<Rightarrow> 'q pool \<Rightarrow> 'q pool" where
  "loop_step w l s =
     (case l of
        Start \<Rightarrow> goto w Loop (s\<lparr>active_workers := active_workers s + 1\<rparr>)
      | Loop \<Rightarrow> goto w (if shutdown s then Leave else TryLocal) s
      | Park \<Rightarrow> goto w Loop s
      | Leave \<Rightarrow> goto w Stopped (s\<lparr>active_workers := active_workers s - 1\<rparr>)
      | CasPending t \<Rightarrow>
          (case try_transition Task_Pending Task_Running (the_task s t) of
             Some k \<Rightarrow> goto w (Execute t) (update_task t (\<lambda>_. k) s)
           | None \<Rightarrow> goto w (CasSuspended t) s)
      | CasSuspended t \<Rightarrow>
          (case try_transition Task_Suspended Task_Running (the_task s t) of
             Some k \<Rightarrow> goto w (Execute t) (update_task t (\<lambda>_. k) s)
           | None \<Rightarrow> goto w Loop s)
      | _ \<Rightarrow> s)"

text \<open>\<^verbatim>\<open>wake_waiters\<close>: take the list, then each waiter that is suspended is queued again.\<close>

definition wake_step :: "'q deque \<Rightarrow> nat \<Rightarrow> pc \<Rightarrow> 'q pool \<Rightarrow> 'q pool" where
  "wake_step dq w l s =
     (case l of
        TakeWaiters t \<Rightarrow>
          goto w (Wake (waiters (the_task s t))) (update_task t (\<lambda>k. k\<lparr>waiters := []\<rparr>) s)
      | Wake (x # xs) \<Rightarrow>
          (case tasks s x of
             Some k \<Rightarrow> goto w (if task_state k = Task_Suspended then WakeUp x xs else Wake xs) s
           | None \<Rightarrow> goto w (Wake xs) s)
      | WakeUp x xs \<Rightarrow> goto w (Resubmit x xs) (update_task x (set_state Task_Pending) s)
      | Resubmit x xs \<Rightarrow> goto w (Wake xs) (s\<lparr>injector := dq_push dq (injector s) x\<rparr>)
      | _ \<Rightarrow> goto w Loop s)"

text \<open>\<^verbatim>\<open>execute_concurrent_task\<close>: resuming a suspended task, or its work.\<close>

definition record_execution :: "nat \<Rightarrow> u64 \<Rightarrow> 'q pool \<Rightarrow> 'q pool" where
  "record_execution w t s =
     update_task t (\<lambda>k. k\<lparr>executed_by := Some w\<rparr>)
       (s\<lparr>worker_task_counts :=
            (if w < length (worker_task_counts s)
             then (worker_task_counts s)[w := worker_task_counts s ! w + 1] else worker_task_counts s)\<rparr>)"

definition resume_step :: "nat \<Rightarrow> u64 \<Rightarrow> u64 \<Rightarrow> 'q pool \<Rightarrow> 'q pool" where
  "resume_step w t target s =
     (case tasks s target of
        None \<Rightarrow> goto w (Complete t (- 1)) (update_task t clear_saved s)
      | Some g \<Rightarrow>
          (case task_state g of
             Task_Completed \<Rightarrow> goto w (ResumeResult t target) s
           | Task_Cancelled \<Rightarrow> goto w (Complete t (- 1)) (update_task t clear_saved s)
           | _ \<Rightarrow> goto w Loop (update_task t (set_state Task_Suspended) s)))"

definition result_or_minus_1 :: "task \<Rightarrow> i64" where
  "result_or_minus_1 k = (case task_result k of Some v \<Rightarrow> v | None \<Rightarrow> - 1)"

definition execute_step :: "'q deque \<Rightarrow> nat \<Rightarrow> pc \<Rightarrow> 'q pool \<Rightarrow> 'q pool" where
  "execute_step dq w l s =
     (case l of
        Execute t \<Rightarrow>
          goto w
            (case (saved_ip (the_task s t), waiting_on (the_task s t)) of
               (Some _, Some target) \<Rightarrow> Resume t target
             | _ \<Rightarrow> DoWork t)
            (record_execution w t s)
      | Resume t target \<Rightarrow> resume_step w t target s
      | ResumeResult t target \<Rightarrow>
          let acc = (case saved_locals (the_task s t) of Some (x # _) \<Rightarrow> x | _ \<Rightarrow> 0)
          in goto w (Complete t (acc + result_or_minus_1 (the_task s target))) (update_task t clear_saved s)
      | DoWork t \<Rightarrow>
          (case work_of (fn_id (the_task s t)) (task_args (the_task s t)) of
             Value v \<Rightarrow> goto w (Complete t v) s
           | Await f args acc \<Rightarrow> goto w (CheckSub t (next_task_id s) acc) (submit dq f args s))
      | CheckSub t sub acc \<Rightarrow>
          goto w (if task_state (the_task s sub) = Task_Completed then SubResult t sub acc
                  else DoSuspend t sub acc) s
      | SubResult t sub acc \<Rightarrow> goto w (Complete t (acc + result_or_minus_1 (the_task s sub))) s
      | DoSuspend t sub acc \<Rightarrow> goto w (AddWaiter t sub) (update_task t (suspend 0 [acc] (Some sub)) s)
      | AddWaiter t sub \<Rightarrow> goto w Loop (update_task sub (\<lambda>k. k\<lparr>waiters := waiters k @ [t]\<rparr>) s)
      | Complete t v \<Rightarrow> goto w (MarkCompleted t) (update_task t (\<lambda>k. k\<lparr>task_result := Some v\<rparr>) s)
      | MarkCompleted t \<Rightarrow> goto w (TakeWaiters t) (update_task t (set_state Task_Completed) s)
      | _ \<Rightarrow> s)"

definition worker_step :: "'q deque \<Rightarrow> nat \<Rightarrow> 'q pool \<Rightarrow> 'q pool" where
  "worker_step dq w s =
     (if length (workers s) \<le> w then s
      else
        let l = workers s ! w
        in case l of
             Start \<Rightarrow> loop_step w l s
           | Loop \<Rightarrow> loop_step w l s
           | Park \<Rightarrow> loop_step w l s
           | Leave \<Rightarrow> loop_step w l s
           | CasPending _ \<Rightarrow> loop_step w l s
           | CasSuspended _ \<Rightarrow> loop_step w l s
           | Stopped \<Rightarrow> s
           | TryLocal \<Rightarrow> try_steal dq w l s
           | TrySteal _ \<Rightarrow> try_steal dq w l s
           | TryInject \<Rightarrow> try_steal dq w l s
           | TakeWaiters _ \<Rightarrow> wake_step dq w l s
           | Wake _ \<Rightarrow> wake_step dq w l s
           | WakeUp _ _ \<Rightarrow> wake_step dq w l s
           | Resubmit _ _ \<Rightarrow> wake_step dq w l s
           | _ \<Rightarrow> execute_step dq w l s)"

section \<open>Runs\<close>

datatype pool_action = Worker nat | Spawn i64 "i64 list" | Shutdown

fun act :: "'q deque \<Rightarrow> pool_action \<Rightarrow> 'q pool \<Rightarrow> 'q pool" where
  "act dq (Worker w) s = worker_step dq w s"
| "act dq (Spawn f args) s = submit dq f args s"
| "act dq Shutdown s = s\<lparr>shutdown := True\<rparr>"

definition run_pool :: "'q deque \<Rightarrow> pool_action list \<Rightarrow> 'q pool \<Rightarrow> 'q pool" where
  "run_pool dq acts s = fold (act dq) acts s"

text \<open>One round of \<^verbatim>\<open>join\<close>: \<open>None\<close> when it has to wait, or what it returns.\<close>

definition join_poll :: "u64 \<Rightarrow> 'q pool \<Rightarrow> i64 option option" where
  "join_poll t s =
     (case tasks s t of
        None \<Rightarrow> Some None
      | Some k \<Rightarrow>
          (case task_state k of
             Task_Completed \<Rightarrow> Some (task_result k)
           | Task_Cancelled \<Rightarrow> Some None
           | _ \<Rightarrow> None))"

end
