(* ===== verification/Executor_Props.thy ===== *)
theory Executor_Props
  imports Executor
begin

text \<open>
  What the executor keeps in every interleaving: a task is held by one place at a time (a queue, a
  worker, a list of waiters), its state says which, and its result is the value of its work.
\<close>

section \<open>The value of a task\<close>

text \<open>What a task should compute: its work, a task it spawns included.\<close>

fun awaits_left :: "i64 \<Rightarrow> i64 list \<Rightarrow> nat" where
  "awaits_left f [] = 0"
| "awaits_left f (a # as) =
     (if f \<noteq> 3 then 0 else if a \<noteq> 3 then 1 else if sub_arg (a # as) \<noteq> 3 then 2 else 3)"

function task_value :: "i64 \<Rightarrow> i64 list \<Rightarrow> i64" where
  "task_value f args =
     (case work_of f args of Value v \<Rightarrow> v | Await g as acc \<Rightarrow> acc + task_value g as)"
  by pat_completeness auto
termination
  by (relation "measure (\<lambda>(f, args). awaits_left f args)")
    (auto simp: work_of_def sub_arg_def split: list.splits if_splits)

declare task_value.simps [simp del]

section \<open>Places that hold a task\<close>

fun held :: "pc \<Rightarrow> u64 list" where
  "held (CasPending t) = [t]"
| "held (CasSuspended t) = [t]"
| "held (Execute t) = [t]"
| "held (Resume t _) = [t]"
| "held (ResumeResult t _) = [t]"
| "held (DoWork t) = [t]"
| "held (CheckSub t _ _) = [t]"
| "held (SubResult t _ _) = [t]"
| "held (DoSuspend t _ _) = [t]"
| "held (AddWaiter t _) = [t]"
| "held (Complete t _) = [t]"
| "held (MarkCompleted t) = [t]"
| "held (Wake xs) = xs"
| "held (WakeUp x xs) = x # xs"
| "held (Resubmit x xs) = x # xs"
| "held _ = []"

definition waiters_of :: "task option \<Rightarrow> u64 multiset" where
  "waiters_of k = (case k of None \<Rightarrow> {#} | Some k \<Rightarrow> mset (waiters k))"

definition waiting :: "(u64 \<Rightarrow> task option) \<Rightarrow> u64 multiset" where
  "waiting tb = (\<Sum>t\<in>UNIV. waiters_of (tb t))"

definition live :: "(u64 \<Rightarrow> task option) \<Rightarrow> u64 set" where
  "live tb = {t. \<exists>k. tb t = Some k \<and> task_state k \<noteq> Task_Completed}"

definition holders :: "pc list \<Rightarrow> u64 multiset" where
  "holders ls = mset (concat (map held ls))"

lemma holders_update:
  "w < length ls \<Longrightarrow> holders (ls[w := l]) + mset (held (ls ! w)) = holders ls + mset (held l)"
  by (induction ls arbitrary: w) (auto simp: holders_def nth_Cons split: nat.splits)

lemma holders_member: "l \<in> set ls \<Longrightarrow> mset (held l) \<subseteq># holders ls"
  by (induction ls) (auto simp: holders_def intro: subset_mset.add_increasing subset_mset.add_increasing2)

lemma waiting_update: "waiting (tb(t := k)) + waiters_of (tb t) = waiting tb + waiters_of k"
proof -
  have "waiting tb = waiters_of (tb t) + (\<Sum>x\<in>UNIV - {t}. waiters_of (tb x))"
    unfolding waiting_def by (simp add: sum.remove)
  moreover have "waiting (tb(t := k)) = waiters_of k + (\<Sum>x\<in>UNIV - {t}. waiters_of ((tb(t := k)) x))"
    unfolding waiting_def by (subst sum.remove [of _ t]) simp_all
  moreover have "(\<Sum>x\<in>UNIV - {t}. waiters_of ((tb(t := k)) x)) = (\<Sum>x\<in>UNIV - {t}. waiters_of (tb x))"
    by (rule sum.cong) simp_all
  ultimately show ?thesis by (simp add: ac_simps)
qed

lemma waiting_member: "t \<in># waiting tb \<longleftrightarrow> (\<exists>x k. tb x = Some k \<and> t \<in> set (waiters k))"
  by (auto simp: waiting_def waiters_of_def set_mset_sum split: option.splits)

section \<open>The invariant\<close>

definition in_state :: "'q pool \<Rightarrow> u64 \<Rightarrow> task_state \<Rightarrow> bool" where
  "in_state s t st \<longleftrightarrow> (\<exists>k. tasks s t = Some k \<and> task_state k = st)"

definition has_result :: "'q pool \<Rightarrow> u64 \<Rightarrow> bool" where
  "has_result s t \<longleftrightarrow> (\<exists>k v. tasks s t = Some k \<and> task_result k = Some v)"

definition valued :: "'q pool \<Rightarrow> u64 \<Rightarrow> i64 \<Rightarrow> bool" where
  "valued s t v \<longleftrightarrow> (\<exists>k. tasks s t = Some k \<and> v = task_value (fn_id k) (task_args k))"

definition awaits :: "'q pool \<Rightarrow> u64 \<Rightarrow> u64 \<Rightarrow> i64 \<Rightarrow> bool" where
  "awaits s t sub acc \<longleftrightarrow>
     (\<exists>k g. tasks s t = Some k \<and> tasks s sub = Some g \<and>
        work_of (fn_id k) (task_args k) = Await (fn_id g) (task_args g) acc)"

definition saved :: "'q pool \<Rightarrow> u64 \<Rightarrow> u64 \<Rightarrow> bool" where
  "saved s t sub \<longleftrightarrow>
     (\<exists>k acc. tasks s t = Some k \<and> saved_locals k = Some [acc] \<and> awaits s t sub acc)"

definition waits_for :: "'q pool \<Rightarrow> u64 \<Rightarrow> u64 \<Rightarrow> bool" where
  "waits_for s t sub \<longleftrightarrow> (\<exists>k. tasks s t = Some k \<and> waiting_on k = Some sub)"

definition ready :: "'q pool \<Rightarrow> u64 \<Rightarrow> bool" where
  "ready s t \<longleftrightarrow> (\<exists>sub. waits_for s t sub \<and> in_state s sub Task_Completed)"

definition wakeable :: "'q pool \<Rightarrow> u64 \<Rightarrow> bool" where
  "wakeable s t \<longleftrightarrow> in_state s t Task_Suspended \<and> ready s t"

fun pc_ok :: "'q pool \<Rightarrow> pc \<Rightarrow> bool" where
  "pc_ok s (CasPending t) \<longleftrightarrow> in_state s t Task_Pending"
| "pc_ok s (CasSuspended t) \<longleftrightarrow> False"
| "pc_ok s (Execute t) \<longleftrightarrow> in_state s t Task_Running"
| "pc_ok s (Resume t sub) \<longleftrightarrow>
     in_state s t Task_Running \<and> saved s t sub \<and> in_state s sub Task_Completed"
| "pc_ok s (ResumeResult t sub) \<longleftrightarrow> in_state s t Task_Running \<and> saved s t sub \<and> has_result s sub"
| "pc_ok s (DoWork t) \<longleftrightarrow> in_state s t Task_Running"
| "pc_ok s (CheckSub t sub acc) \<longleftrightarrow> in_state s t Task_Running \<and> awaits s t sub acc"
| "pc_ok s (SubResult t sub acc) \<longleftrightarrow>
     in_state s t Task_Running \<and> awaits s t sub acc \<and> has_result s sub"
| "pc_ok s (DoSuspend t sub acc) \<longleftrightarrow> in_state s t Task_Running \<and> awaits s t sub acc"
| "pc_ok s (AddWaiter t sub) \<longleftrightarrow>
     in_state s t Task_Suspended \<and> waits_for s t sub \<and> tasks s sub \<noteq> None"
| "pc_ok s (Complete t v) \<longleftrightarrow> in_state s t Task_Running \<and> valued s t v"
| "pc_ok s (MarkCompleted t) \<longleftrightarrow> in_state s t Task_Running \<and> has_result s t"
| "pc_ok s (TakeWaiters t) \<longleftrightarrow> in_state s t Task_Completed"
| "pc_ok s (Wake xs) \<longleftrightarrow> (\<forall>x\<in>set xs. wakeable s x)"
| "pc_ok s (WakeUp x xs) \<longleftrightarrow> wakeable s x \<and> (\<forall>x\<in>set xs. wakeable s x)"
| "pc_ok s (Resubmit x xs) \<longleftrightarrow> in_state s x Task_Pending \<and> (\<forall>x\<in>set xs. wakeable s x)"
| "pc_ok s _ \<longleftrightarrow> True"

definition task_ok :: "'q pool \<Rightarrow> u64 \<Rightarrow> bool" where
  "task_ok s t \<longleftrightarrow>
     (\<forall>k. tasks s t = Some k \<longrightarrow>
        (\<forall>v. task_result k = Some v \<longrightarrow> v = task_value (fn_id k) (task_args k)) \<and>
        (task_state k = Task_Completed \<longrightarrow> task_result k \<noteq> None) \<and> task_state k \<noteq> Task_Cancelled \<and>
        (saved_ip k \<noteq> None \<longrightarrow> (\<exists>sub. waiting_on k = Some sub \<and> saved s t sub \<and>
           (task_state k \<noteq> Task_Suspended \<longrightarrow> in_state s sub Task_Completed))))"

text \<open>\<open>m\<close> is the number of ids that may still be given out before they repeat.\<close>

definition pool_ok :: "('q \<Rightarrow> u64 multiset) \<Rightarrow> nat \<Rightarrow> 'q pool \<Rightarrow> bool" where
  "pool_ok items m s \<longleftrightarrow>
     length (local_queues s) = length (workers s) \<and> (\<forall>q\<in>set (local_queues s). items q = {#}) \<and>
     unat (next_task_id s) + m < 2 ^ 64 \<and> (\<forall>t\<in>dom (tasks s). unat t < unat (next_task_id s)) \<and>
     (\<forall>t. task_ok s t) \<and> (\<forall>l\<in>set (workers s). pc_ok s l) \<and>
     (\<forall>t\<in>#items (injector s). in_state s t Task_Pending) \<and>
     (\<forall>x k. tasks s x = Some k \<longrightarrow>
        (\<forall>t\<in>set (waiters k). in_state s t Task_Suspended \<and> waits_for s t x)) \<and>
     items (injector s) + holders (workers s) + waiting (tasks s) = mset_set (live (tasks s))"

text \<open>What every step keeps of the tasks, and what it keeps of a task it does not hold.\<close>

definition keeps :: "'q pool \<Rightarrow> 'q pool \<Rightarrow> bool" where
  "keeps s s' \<longleftrightarrow>
     (\<forall>t k. tasks s t = Some k \<longrightarrow>
        (\<exists>k'. tasks s' t = Some k' \<and> fn_id k' = fn_id k \<and> task_args k' = task_args k \<and>
           (task_result k \<noteq> None \<longrightarrow> task_result k' = task_result k) \<and>
           (task_state k = Task_Completed \<longrightarrow> task_state k' = Task_Completed)))"

definition same_state :: "'q pool \<Rightarrow> 'q pool \<Rightarrow> u64 \<Rightarrow> bool" where
  "same_state s s' t \<longleftrightarrow>
     (\<forall>k. tasks s t = Some k \<longrightarrow>
        (\<exists>k'. tasks s' t = Some k' \<and> task_state k' = task_state k \<and> saved_locals k' = saved_locals k \<and>
           waiting_on k' = waiting_on k))"

lemma keepsD:
  assumes "keeps s s'" "tasks s t = Some k"
  obtains k' where "tasks s' t = Some k'" "fn_id k' = fn_id k" "task_args k' = task_args k"
    "task_result k \<noteq> None \<Longrightarrow> task_result k' = task_result k"
    "task_state k = Task_Completed \<Longrightarrow> task_state k' = Task_Completed"
  using assms unfolding keeps_def by blast

lemma keeps_awaits:
  assumes "keeps s s'" "awaits s t sub acc"
  shows "awaits s' t sub acc"
proof -
  obtain k g where k: "tasks s t = Some k" "tasks s sub = Some g"
    "work_of (fn_id k) (task_args k) = Await (fn_id g) (task_args g) acc"
    using assms(2) by (auto simp: awaits_def)
  obtain k' where k': "tasks s' t = Some k'" "fn_id k' = fn_id k" "task_args k' = task_args k"
    using keepsD [OF assms(1) k(1)] .
  obtain g' where g': "tasks s' sub = Some g'" "fn_id g' = fn_id g" "task_args g' = task_args g"
    using keepsD [OF assms(1) k(2)] .
  show ?thesis unfolding awaits_def using k' g' k(3) by (intro exI [of _ k'] exI [of _ g']) simp
qed

lemma keeps_result: "keeps s s' \<Longrightarrow> has_result s t \<Longrightarrow> has_result s' t"
  unfolding has_result_def by (elim exE conjE) (erule (1) keepsD, simp)

lemma keeps_valued: "keeps s s' \<Longrightarrow> valued s t v \<Longrightarrow> valued s' t v"
  unfolding valued_def by (elim exE conjE) (erule (1) keepsD, simp)

lemma keeps_known: "keeps s s' \<Longrightarrow> tasks s t = Some k \<Longrightarrow> \<exists>k'. tasks s' t = Some k'"
  by (erule (1) keepsD) simp

lemma keeps_completed: "keeps s s' \<Longrightarrow> in_state s t Task_Completed \<Longrightarrow> in_state s' t Task_Completed"
  unfolding in_state_def by (elim exE conjE) (erule (1) keepsD, simp)

lemmas keeps_facts = keeps_awaits keeps_result keeps_valued keeps_known keeps_completed

lemma same_state_in: "same_state s s' t \<Longrightarrow> in_state s t st \<Longrightarrow> in_state s' t st"
  by (auto simp: same_state_def in_state_def)

lemma same_state_saved: "same_state s s' t \<Longrightarrow> keeps s s' \<Longrightarrow> saved s t sub \<Longrightarrow> saved s' t sub"
  unfolding saved_def same_state_def by (metis keeps_awaits)

lemma same_state_waits: "same_state s s' t \<Longrightarrow> waits_for s t sub \<Longrightarrow> waits_for s' t sub"
  unfolding same_state_def waits_for_def by metis

lemma same_state_wakeable: "same_state s s' t \<Longrightarrow> keeps s s' \<Longrightarrow> wakeable s t \<Longrightarrow> wakeable s' t"
  unfolding wakeable_def ready_def by (metis same_state_in same_state_waits keeps_completed)

lemma pc_ok_keeps:
  assumes "pc_ok s l" "keeps s s'" "\<forall>t\<in>set (held l). same_state s s' t"
  shows "pc_ok s' l"
  using assms
  by (cases l) (auto dest: same_state_saved keeps_facts intro: same_state_in same_state_waits same_state_wakeable)

section \<open>One place per task\<close>

lemma finite_live [simp]: "finite (live tb)"
  by simp

lemma count_live_le: "count (mset_set (live tb)) t \<le> 1"
  by (simp add: count_mset_set')

text \<open>What a worker holds is in no queue, waits nowhere and is held by no other worker.\<close>

lemma held_alone:
  assumes ok: "pool_ok items m s" and w: "w < length (workers s)" and t: "t \<in> set (held (workers s ! w))"
  shows "t \<notin># items (injector s)" "t \<notin># waiting (tasks s)"
    "\<And>w'. w' < length (workers s) \<Longrightarrow> w' \<noteq> w \<Longrightarrow> t \<notin> set (held (workers s ! w'))"
    "count (mset (held (workers s ! w))) t = 1" "t \<in> live (tasks s)"
proof -
  let ?h = "\<lambda>l. mset (held l)"
  have total: "count (items (injector s)) t + count (holders (workers s)) t + count (waiting (tasks s)) t =
      (if t \<in> live (tasks s) then 1 else 0)"
    using ok unfolding pool_ok_def by (metis (no_types, lifting) count_mset_set' count_union finite_live)
  have sub: "?h (workers s ! w) \<subseteq># holders (workers s)" by (rule holders_member) (use w in simp)
  have one: "1 \<le> count (?h (workers s ! w)) t" using t by (simp add: Suc_le_eq)
  have le: "count (?h (workers s ! w)) t \<le> count (holders (workers s)) t" using sub by (simp add: mset_subset_eq_count)
  have live: "t \<in> live (tasks s)"
  proof (rule ccontr)
    assume "t \<notin> live (tasks s)"
    then have "count (items (injector s)) t + count (holders (workers s)) t + count (waiting (tasks s)) t = 0"
      using total by (simp only: if_False)
    then show False using one le by linarith
  qed
  then have "count (items (injector s)) t = 0 \<and> count (waiting (tasks s)) t = 0 \<and> count (?h (workers s ! w)) t = 1"
    using total one le unfolding if_P [OF live] by linarith
  with live show "t \<notin># items (injector s)" "t \<notin># waiting (tasks s)" "count (?h (workers s ! w)) t = 1"
    "t \<in> live (tasks s)" by (simp_all only: not_in_iff)
  show "t \<notin> set (held (workers s ! w'))" if w': "w' < length (workers s)" "w' \<noteq> w" for w'
  proof
    assume t': "t \<in> set (held (workers s ! w'))"
    have "count (holders ((workers s)[w := Loop]) + ?h (workers s ! w)) t = count (holders (workers s) + ?h Loop) t"
      using holders_update [OF w, of Loop] by (rule arg_cong)
    then have "count (holders (workers s)) t = count (holders ((workers s)[w := Loop])) t + count (?h (workers s ! w)) t"
      unfolding count_union by simp
    moreover have "?h ((workers s)[w := Loop] ! w') \<subseteq># holders ((workers s)[w := Loop])"
      by (rule holders_member, rule nth_mem) (use w'(1) in simp)
    then have "count (?h ((workers s)[w := Loop] ! w')) t \<le> count (holders ((workers s)[w := Loop])) t"
      by (rule mset_subset_eq_count)
    moreover have "1 \<le> count (?h ((workers s)[w := Loop] ! w')) t" using t' w'(2) by (simp add: Suc_le_eq)
    ultimately show False using total one unfolding if_P [OF live] by linarith
  qed
qed

text \<open>
  The shape of all steps of a worker: it changes its own place, the state of tasks it holds, and
  moves a task from one place to another.
\<close>

lemma pool_ok_step:
  assumes ok: "pool_ok items m s" and w: "w < length (workers s)"
    and ws: "workers s' = (workers s)[w := l]"
    and qs: "length (local_queues s') = length (local_queues s)" "\<forall>q\<in>set (local_queues s'). items q = {#}"
    and ids: "unat (next_task_id s') + m' < 2 ^ 64" "\<forall>t\<in>dom (tasks s'). unat t < unat (next_task_id s')"
    and keeps: "keeps s s'" and same: "\<And>t. t \<notin> set (held (workers s ! w)) \<Longrightarrow> same_state s s' t"
    and tasks: "\<And>t. task_ok s' t" and pc: "pc_ok s' l"
    and inj: "\<And>t. t \<in># items (injector s') \<Longrightarrow> t \<in># items (injector s) \<or> in_state s' t Task_Pending"
    and wait: "\<And>x k t. tasks s' x = Some k \<Longrightarrow> t \<in> set (waiters k) \<Longrightarrow>
      (\<exists>k. tasks s x = Some k \<and> t \<in> set (waiters k)) \<or> in_state s' t Task_Suspended \<and> waits_for s' t x"
    and total: "items (injector s') + mset (held l) + waiting (tasks s') + mset_set (live (tasks s)) =
      items (injector s) + mset (held (workers s ! w)) + waiting (tasks s) + mset_set (live (tasks s'))"
  shows "pool_ok items m' s'"
proof -
  note alone = held_alone [OF ok w]
  have others: "pc_ok s' l'" if l': "l' \<in> set (workers s')" for l'
  proof -
    obtain w' where w': "w' < length (workers s)" "l' = (workers s)[w := l] ! w'"
      using l' ws by (metis in_set_conv_nth length_list_update)
    show ?thesis
    proof (cases "w' = w")
      case True
      then show ?thesis using w' w pc by simp
    next
      case False
      then have "l' = workers s ! w'" using w' by simp
      moreover have "pc_ok s (workers s ! w')" using ok w' by (auto simp: pool_ok_def)
      moreover have "\<forall>t\<in>set (held (workers s ! w')). same_state s s' t"
        using alone(3) [OF _ w'(1) False] same by blast
      ultimately show ?thesis using pc_ok_keeps keeps by blast
    qed
  qed
  have sum: "items (injector s) + holders (workers s) + waiting (tasks s) = mset_set (live (tasks s))"
    using ok by (simp add: pool_ok_def)
  have "holders (workers s') + mset (held (workers s ! w)) = holders (workers s) + mset (held l)"
    using holders_update [OF w] ws by simp
  then have "items (injector s') + holders (workers s') + waiting (tasks s') = mset_set (live (tasks s'))"
    using total sum by (smt (verit) add.assoc add.commute add_left_cancel)
  moreover have "in_state s' t Task_Pending" if "t \<in># items (injector s')" for t
    using inj [OF that]
  proof
    assume t: "t \<in># items (injector s)"
    then have "in_state s t Task_Pending" using ok by (simp add: pool_ok_def)
    moreover have "t \<notin> set (held (workers s ! w))" using alone(1) t by blast
    ultimately show ?thesis using same same_state_in by blast
  qed
  moreover have "in_state s' t Task_Suspended \<and> waits_for s' t x" if x: "tasks s' x = Some k" "t \<in> set (waiters k)" for x k t
    using wait [OF x]
  proof
    assume "\<exists>k. tasks s x = Some k \<and> t \<in> set (waiters k)"
    then have "in_state s t Task_Suspended" "waits_for s t x" "t \<in># waiting (tasks s)"
      using ok by (auto simp: pool_ok_def waiting_member)
    moreover have "t \<notin> set (held (workers s ! w))" using alone(2) calculation(3) by blast
    ultimately show ?thesis using same same_state_in same_state_waits by blast
  qed
  moreover have "length (local_queues s) = length (workers s)" using ok by (simp add: pool_ok_def)
  ultimately show ?thesis
    using others qs ids tasks ws by (simp add: pool_ok_def)
qed

section \<open>The steps keep the invariant\<close>

lemma pool_simps [simp]:
  "tasks (goto w l s) = tasks s" "injector (goto w l s) = injector s"
  "local_queues (goto w l s) = local_queues s" "workers (goto w l s) = (workers s)[w := l]"
  "next_task_id (goto w l s) = next_task_id s" "shutdown (goto w l s) = shutdown s"
  "tasks (update_task t f s) = (tasks s)(t := map_option f (tasks s t))"
  "injector (update_task t f s) = injector s" "local_queues (update_task t f s) = local_queues s"
  "workers (update_task t f s) = workers s" "next_task_id (update_task t f s) = next_task_id s"
  "shutdown (update_task t f s) = shutdown s"
  by (simp_all add: goto_def update_task_def)

lemma pool_okD:
  assumes "pool_ok items m s"
  shows "length (local_queues s) = length (workers s)" "\<And>q. q \<in> set (local_queues s) \<Longrightarrow> items q = {#}"
    "unat (next_task_id s) + m < 2 ^ 64" "\<And>t. t \<in> dom (tasks s) \<Longrightarrow> unat t < unat (next_task_id s)"
    "\<And>t. task_ok s t" "\<And>w. w < length (workers s) \<Longrightarrow> pc_ok s (workers s ! w)"
    "\<And>t. t \<in># items (injector s) \<Longrightarrow> in_state s t Task_Pending"
    "\<And>x k t. tasks s x = Some k \<Longrightarrow> t \<in> set (waiters k) \<Longrightarrow> in_state s t Task_Suspended \<and> waits_for s t x"
    "items (injector s) + holders (workers s) + waiting (tasks s) = mset_set (live (tasks s))"
  using assms by (auto simp: pool_ok_def)

lemma keeps_refl [simp]: "tasks s' = tasks s \<Longrightarrow> keeps s s'"
  by (simp add: keeps_def)

lemma same_state_refl [simp]: "tasks s' t = tasks s t \<Longrightarrow> same_state s s' t"
  by (simp add: same_state_def)

text \<open>The checks look at the task table only.\<close>

lemma table_only:
  assumes "tasks s' = tasks s"
  shows "in_state s' = in_state s" "has_result s' = has_result s" "valued s' = valued s" "awaits s' = awaits s"
    "saved s' = saved s" "waits_for s' = waits_for s" "pc_ok s' = pc_ok s" "task_ok s' = task_ok s"
proof -
  show same: "in_state s' = in_state s" "has_result s' = has_result s" "valued s' = valued s" "awaits s' = awaits s"
    using assms by (auto simp: fun_eq_iff in_state_def has_result_def valued_def awaits_def)
  then show saved: "saved s' = saved s" using assms by (auto simp: fun_eq_iff saved_def)
  show waits: "waits_for s' = waits_for s" using assms by (auto simp: fun_eq_iff waits_for_def)
  have "wakeable s' = wakeable s" by (simp add: fun_eq_iff wakeable_def ready_def waits same)
  then have "pc_ok s' l = pc_ok s l" for l using assms by (cases l) (simp_all add: same saved waits)
  then show "pc_ok s' = pc_ok s" by blast
  show "task_ok s' = task_ok s" using assms by (simp add: fun_eq_iff task_ok_def saved same)
qed

lemma pool_ok_cong:
  assumes "tasks s' = tasks s" "local_queues s' = local_queues s" "workers s' = workers s"
    "next_task_id s' = next_task_id s" "injector s' = injector s"
  shows "pool_ok items m s' = pool_ok items m s"
  unfolding pool_ok_def table_only [OF assms(1)] assms ..

lemma task_ok_keeps:
  assumes "task_ok s t" "keeps s s'" "tasks s' t = tasks s t"
  shows "task_ok s' t"
  using assms same_state_saved [OF same_state_refl [OF assms(3)] assms(2)] keeps_completed [OF assms(2)]
  by (fastforce simp: task_ok_def)

text \<open>A step that changes the worker's place only.\<close>

lemma pool_ok_goto:
  assumes ok: "pool_ok items m s" and w: "w < length (workers s)"
    and pc: "pc_ok s l" and l: "mset (held l) = mset (held (workers s ! w))"
  shows "pool_ok items m (goto w l s)"
  by (rule pool_ok_step [OF ok w, where l = l])
    (use pool_okD [OF ok] pc l in \<open>auto simp: table_only [of "goto w l s" s]\<close>)

text \<open>A step that changes a task the worker holds.\<close>

lemma pool_ok_update:
  assumes ok: "pool_ok items m s" and w: "w < length (workers s)"
    and t: "t \<in> set (held (workers s ! w))" and k: "tasks s t = Some k"
    and f: "fn_id (f k) = fn_id k" "task_args (f k) = task_args k" "waiters (f k) = waiters k"
      "task_result k \<noteq> None \<Longrightarrow> task_result (f k) = task_result k"
    and good: "task_ok (update_task t f s) t" and pc: "pc_ok (update_task t f s) l"
    and l: "mset (held l) + (if task_state (f k) = Task_Completed then {#t#} else {#}) = mset (held (workers s ! w))"
  shows "pool_ok items m (goto w l (update_task t f s))"
proof -
  let ?s = "update_task t f s"
  note alone = held_alone [OF ok w t]
  have live: "task_state k \<noteq> Task_Completed" using alone(5) k by (simp add: live_def)
  have keeps: "keeps s ?s" using f k live by (auto simp: keeps_def)
  have tasks: "tasks ?s = (tasks s)(t \<mapsto> f k)" using k by simp
  have "live (tasks ?s) = (if task_state (f k) = Task_Completed then live (tasks s) - {t} else live (tasks s))"
    using tasks live k by (auto simp: live_def)
  moreover have "mset_set (live (tasks s)) = add_mset t (mset_set (live (tasks s) - {t}))"
    using alone(5) by (simp add: mset_set.remove)
  ultimately have lives: "mset_set (live (tasks ?s)) + (if task_state (f k) = Task_Completed then {#t#} else {#}) =
      mset_set (live (tasks s))" by simp
  have waits: "waiting (tasks ?s) = waiting (tasks s)"
    using waiting_update [of "tasks s" t "Some (f k)"] tasks k f(3) by (simp add: waiters_of_def)
  have task: "task_ok ?s x" for x
  proof (cases "x = t")
    case False
    then show ?thesis using task_ok_keeps [OF pool_okD(5) [OF ok] keeps] by simp
  qed (use good in simp)
  show ?thesis
  proof (rule pool_ok_step [OF ok w, where l = l])
    show "keeps s (goto w l ?s)" using keeps by (simp add: keeps_def)
    show "same_state s (goto w l ?s) x" if "x \<notin> set (held (workers s ! w))" for x
      by (rule same_state_refl) (use that t in auto)
    show "task_ok (goto w l ?s) x" for x using task by (simp add: table_only [of "goto w l ?s" ?s])
    show "pc_ok (goto w l ?s) l" using pc by (simp add: table_only [of "goto w l ?s" ?s])
    show "items (injector (goto w l ?s)) + mset (held l) + waiting (tasks (goto w l ?s)) + mset_set (live (tasks s)) =
      items (injector s) + mset (held (workers s ! w)) + waiting (tasks s) + mset_set (live (tasks (goto w l ?s)))"
      unfolding lives [symmetric] l [symmetric] using waits by (simp add: ac_simps)
    show "(\<exists>k. tasks s x = Some k \<and> y \<in> set (waiters k)) \<or>
        in_state (goto w l ?s) y Task_Suspended \<and> waits_for (goto w l ?s) y x"
      if "tasks (goto w l ?s) x = Some kx" "y \<in> set (waiters kx)" for x kx y
      using that k f(3) by (auto split: if_splits)
  qed (use pool_okD [OF ok] k in auto)
qed

text \<open>Taking from a queue and adding to the global one.\<close>

lemma pool_ok_take:
  assumes ok: "pool_ok items m s" and w: "w < length (workers s)" "held (workers s ! w) = []"
    and q: "items (injector s) = add_mset t (items q)"
  shows "pool_ok items m (goto w (CasPending t) (s\<lparr>injector := q\<rparr>))"
  by (rule pool_ok_step [OF ok w(1), where l = "CasPending t"])
    (use pool_okD [OF ok] q w(2) in \<open>auto simp: table_only [of "goto w (CasPending t) (s\<lparr>injector := q\<rparr>)" s]\<close>)

lemma pool_ok_resubmit:
  assumes ok: "pool_ok items m s" and w: "w < length (workers s)" "workers s ! w = Resubmit x xs"
    and q: "items q = add_mset x (items (injector s))"
  shows "pool_ok items m (goto w (Wake xs) (s\<lparr>injector := q\<rparr>))"
  by (rule pool_ok_step [OF ok w(1), where l = "Wake xs"])
    (use pool_okD [OF ok] pool_okD(6) [OF ok w(1)] q w(2) in
      \<open>auto simp: table_only [of "goto w (Wake xs) (s\<lparr>injector := q\<rparr>)" s]\<close>)

text \<open>Taking and extending a list of waiters.\<close>

lemma pool_ok_take_waiters:
  assumes ok: "pool_ok items m s" and w: "w < length (workers s)" "workers s ! w = TakeWaiters t"
  shows "pool_ok items m (goto w (Wake (waiters (the_task s t))) (update_task t (\<lambda>k. k\<lparr>waiters := []\<rparr>) s))"
    (is "pool_ok items m ?s")
proof -
  obtain k where k: "tasks s t = Some k" using pool_okD(6) [OF ok w(1)] w(2) by (auto simp: in_state_def)
  have tb: "tasks ?s = (tasks s)(t \<mapsto> k\<lparr>waiters := []\<rparr>)" using k by simp
  have waits: "waiting (tasks ?s) + mset (waiters k) = waiting (tasks s)"
    using waiting_update [of "tasks s" t "Some (k\<lparr>waiters := []\<rparr>)"] k by (simp add: waiters_of_def)
  have live: "live (tasks ?s) = live (tasks s)" unfolding tb using k by (auto simp: live_def)
  have keeps: "keeps s ?s" using k by (auto simp: keeps_def)
  have same: "same_state s ?s x" for x using k by (auto simp: same_state_def)
  have waiter: "wakeable ?s x" if "x \<in> set (waiters k)" for x
    by (rule same_state_wakeable [OF same keeps])
      (use pool_okD(8) [OF ok k that] pool_okD(6) [OF ok w(1)] w(2) in \<open>auto simp: wakeable_def ready_def\<close>)
  have task: "task_ok ?s x" for x
  proof (cases "x = t")
    case True
    have "saved s t sub \<Longrightarrow> saved ?s t sub" for sub by (rule same_state_saved [OF same keeps])
    then show ?thesis using pool_okD(5) [OF ok, of t] k True same_state_in [OF same] by (auto simp: task_ok_def)
  next
    case False
    then show ?thesis using task_ok_keeps [OF pool_okD(5) [OF ok] keeps] by simp
  qed
  have wk: "waiters (the_task s t) = waiters k" using k by (simp add: the_task_def)
  show ?thesis
  proof (rule pool_ok_step [OF ok w(1), where l = "Wake (waiters k)"])
    show "(\<exists>k. tasks s x = Some k \<and> y \<in> set (waiters k)) \<or> in_state ?s y Task_Suspended \<and> waits_for ?s y x"
      if "tasks ?s x = Some kx" "y \<in> set (waiters kx)" for x kx y
      using that k by (auto split: if_splits)
    show "items (injector ?s) + mset (held (Wake (waiters k))) + waiting (tasks ?s) + mset_set (live (tasks s)) =
      items (injector s) + mset (held (workers s ! w)) + waiting (tasks s) + mset_set (live (tasks ?s))"
      unfolding live waits [symmetric] using w(2) by (simp add: ac_simps)
  qed (use pool_okD [OF ok] k keeps same task waiter wk in auto)
qed

lemma pool_ok_add_waiter:
  assumes ok: "pool_ok items m s" and w: "w < length (workers s)" "workers s ! w = AddWaiter t sub"
  shows "pool_ok items m (goto w Loop (update_task sub (\<lambda>k. k\<lparr>waiters := waiters k @ [t]\<rparr>) s))"
    (is "pool_ok items m ?s")
proof -
  obtain k where k: "tasks s sub = Some k" and t: "in_state s t Task_Suspended" "waits_for s t sub"
    using pool_okD(6) [OF ok w(1)] w(2) by auto
  have tb: "tasks ?s = (tasks s)(sub \<mapsto> k\<lparr>waiters := waiters k @ [t]\<rparr>)" using k by simp
  have waits: "waiting (tasks ?s) = add_mset t (waiting (tasks s))"
    using waiting_update [of "tasks s" sub "Some (k\<lparr>waiters := waiters k @ [t]\<rparr>)"] k by (simp add: waiters_of_def)
  have live: "live (tasks ?s) = live (tasks s)" unfolding tb using k by (auto simp: live_def)
  have keeps: "keeps s ?s" using k by (auto simp: keeps_def)
  have same: "same_state s ?s x" for x using k by (auto simp: same_state_def)
  have task: "task_ok ?s x" for x
  proof (cases "x = sub")
    case True
    have "saved s sub y \<Longrightarrow> saved ?s sub y" for y by (rule same_state_saved [OF same keeps])
    then show ?thesis using pool_okD(5) [OF ok, of sub] k True same_state_in [OF same] by (auto simp: task_ok_def)
  next
    case False
    then show ?thesis using task_ok_keeps [OF pool_okD(5) [OF ok] keeps] by simp
  qed
  show ?thesis
  proof (rule pool_ok_step [OF ok w(1), where l = Loop])
    show "(\<exists>k. tasks s x = Some k \<and> y \<in> set (waiters k)) \<or> in_state ?s y Task_Suspended \<and> waits_for ?s y x"
      if "tasks ?s x = Some kx" "y \<in> set (waiters kx)" for x kx y
      using that k same_state_in [OF same t(1)] same_state_waits [OF same t(2)] by (auto split: if_splits)
    show "items (injector ?s) + mset (held Loop) + waiting (tasks ?s) + mset_set (live (tasks s)) =
      items (injector s) + mset (held (workers s ! w)) + waiting (tasks s) + mset_set (live (tasks ?s))"
      unfolding live waits using w(2) by (simp add: ac_simps)
  qed (use pool_okD [OF ok] k keeps same task in auto)
qed

text \<open>A task keeps what it should when only its state changes, or when its saved state is cleared.\<close>

lemma awaits_update:
  assumes k: "tasks s t = Some k" and f: "fn_id (f k) = fn_id k" "task_args (f k) = task_args k"
  shows "awaits (update_task t f s) x sub acc = awaits s x sub acc"
  using assms by (auto simp: awaits_def)

lemma task_ok_update:
  assumes ok: "task_ok s t" and k: "tasks s t = Some k" "task_state k \<noteq> Task_Completed"
    and f: "fn_id (f k) = fn_id k" "task_args (f k) = task_args k"
      "\<And>v. task_result (f k) = Some v \<Longrightarrow> v = task_value (fn_id k) (task_args k)"
      "task_state (f k) \<noteq> Task_Cancelled" "task_state (f k) = Task_Completed \<Longrightarrow> task_result (f k) \<noteq> None"
    and saved: "saved_ip (f k) = None \<or>
      saved_ip (f k) = saved_ip k \<and> saved_locals (f k) = saved_locals k \<and> waiting_on (f k) = waiting_on k \<and>
      (task_state k \<noteq> Task_Suspended \<or> ready s t)"
  shows "task_ok (update_task t f s) t"
proof -
  have completed: "in_state (update_task t f s) x Task_Completed" if "in_state s x Task_Completed" for x
    using that k by (auto simp: in_state_def)
  show ?thesis
    using ok k f saved awaits_update [where f = f, OF k(1) f(1,2)] completed
    by (auto simp: task_ok_def saved_def ready_def waits_for_def)
qed

lemma task_result_ok:
  "task_ok s t \<Longrightarrow> tasks s t = Some k \<Longrightarrow> task_result k = Some v \<Longrightarrow> v = task_value (fn_id k) (task_args k)"
  by (simp add: task_ok_def)

text \<open>A fresh task.\<close>

lemma pool_ok_submit:
  assumes dq: "deque_ok dq items" and ok: "pool_ok items (Suc m) s"
  shows "pool_ok items m (submit dq f args s)"
proof -
  let ?s = "submit dq f args s" and ?t = "next_task_id s"
  note D = pool_okD [OF ok]
  have fresh: "tasks s ?t = None" using D(4) [of ?t] by auto
  have tb: "tasks ?s = (tasks s)(?t \<mapsto> new_task f args)" by (simp add: submit_def Let_def)
  have keeps: "keeps s ?s" using fresh tb by (auto simp: keeps_def)
  have same: "same_state s ?s x" for x using fresh tb by (auto simp: same_state_def)
  have next_id: "unat (?t + 1) = Suc (unat ?t)" using D(3) by (simp add: unat_word_ariths)
  have pcs: "\<forall>l\<in>set (workers s). pc_ok ?s l"
    using ok pc_ok_keeps [OF _ keeps] same by (auto simp: pool_ok_def)
  have task: "task_ok ?s x" for x
  proof (cases "x = ?t")
    case True
    then show ?thesis using tb by (simp add: task_ok_def new_task_def)
  next
    case False
    then show ?thesis using task_ok_keeps [OF D(5) keeps] tb by simp
  qed
  have waits: "waiting (tasks ?s) = waiting (tasks s)"
    using waiting_update [of "tasks s" ?t "Some (new_task f args)"] fresh tb by (simp add: waiters_of_def new_task_def)
  have live: "live (tasks ?s) = insert ?t (live (tasks s))" and new: "?t \<notin> live (tasks s)"
    using fresh tb by (auto simp: live_def new_task_def)
  have inj: "items (injector ?s) = add_mset ?t (items (injector s))"
    using dq by (simp add: deque_ok_def submit_def Let_def)
  have "in_state ?s x Task_Pending" if "x \<in># items (injector ?s)" for x
    using that inj tb D(7) same_state_in [OF same] by (auto simp: in_state_def new_task_def)
  moreover have "in_state ?s y Task_Suspended \<and> waits_for ?s y x" if "tasks ?s x = Some k" "y \<in> set (waiters k)" for x k y
    using that D(8) same_state_in [OF same] same_state_waits [OF same] tb
    by (auto simp: new_task_def split: if_splits)
  moreover have "items (injector ?s) + holders (workers s) + waiting (tasks ?s) = mset_set (live (tasks ?s))"
    using D(9) new by (simp add: inj waits live)
  moreover have "\<forall>x\<in>dom (tasks ?s). unat x < unat (?t + 1)" using D(4) next_id tb by (auto simp: less_Suc_eq)
  ultimately show ?thesis
    using D(1,2,3) pcs task next_id by (simp add: pool_ok_def submit_def Let_def)
qed

lemma pool_ok_mono: "pool_ok items m s \<Longrightarrow> n \<le> m \<Longrightarrow> pool_ok items n s"
  by (auto simp: pool_ok_def)

text \<open>One step of a worker, by the part of the loop it is in.\<close>

lemma local_queue_empty:
  assumes dq: "deque_ok dq items" and ok: "pool_ok items m s" and i: "i < length (local_queues s)"
  shows "dq_take dq (local_queues s ! i) = None"
proof (cases "dq_take dq (local_queues s ! i)")
  case (Some r)
  then have "items (local_queues s ! i) \<noteq> {#}"
    using dq unfolding deque_ok_def by (metis add_mset_not_empty prod.exhaust)
  then show ?thesis using pool_okD(2) [OF ok nth_mem [OF i]] by simp
qed

lemma try_steal_ok:
  assumes dq: "deque_ok dq items" and ok: "pool_ok items m s" and w: "w < length (workers s)"
    and l: "workers s ! w = l" "l = TryLocal \<or> l = TryInject \<or> (\<exists>i. l = TrySteal i)"
  shows "pool_ok items m (try_steal dq w l s)"
proof -
  have held: "held (workers s ! w) = []" using l by auto
  have go: "pool_ok items m (goto w l' s)" if "pc_ok s l'" "held l' = []" for l'
    by (rule pool_ok_goto [OF ok w]) (use that held in auto)
  note loc = local_queue_empty [OF dq ok]
  have take: "pool_ok items m (goto w (CasPending t) (s\<lparr>injector := q\<rparr>))"
    if "dq_take dq (injector s) = Some (t, q)" for t q
    by (rule pool_ok_take [OF ok w held]) (use dq that in \<open>simp add: deque_ok_def\<close>)
  show ?thesis
    using l(2) go take loc w pool_okD(1) [OF ok]
    by (auto simp: try_steal_def Let_def split: option.splits)
qed

lemma pc_ok_at: "pool_ok items m s \<Longrightarrow> w < length (workers s) \<Longrightarrow> workers s ! w = l \<Longrightarrow> pc_ok s l"
  using pool_okD(6) by blast

lemma loop_step_ok:
  assumes ok: "pool_ok items m s" and w: "w < length (workers s)"
    and l: "workers s ! w = l" "l \<in> {Start, Loop, Park, Leave} \<or> (\<exists>t. l = CasPending t \<or> l = CasSuspended t)"
  shows "pool_ok items m (loop_step w l s)"
proof -
  have pc: "pc_ok s l" by (rule pc_ok_at [OF ok w l(1)])
  have count: "pool_ok items m (goto w l' (s\<lparr>active_workers := n\<rparr>))" if "held l = []" "pc_ok s l'" "held l' = []" for l' n
  proof -
    have "pool_ok items m (goto w l' s)" by (rule pool_ok_goto [OF ok w]) (use that l in auto)
    then show ?thesis by (rule iffD2 [OF pool_ok_cong, rotated -1]) simp_all
  qed
  have go: "pool_ok items m (goto w l' s)" if "held l = []" "pc_ok s l'" "held l' = []" for l'
    by (rule pool_ok_goto [OF ok w]) (use that l in auto)
  have cas: "pool_ok items m (loop_step w l s)" if at: "l = CasPending t" for t
  proof -
    obtain k where k: "tasks s t = Some k" "the_task s t = k" "task_state k = Task_Pending"
      using pc at by (auto simp: in_state_def the_task_def)
    let ?f = "\<lambda>_. set_state Task_Running k"
    have "task_ok (update_task t ?f s) t"
      by (rule task_ok_update [OF pool_okD(5) [OF ok] k(1)])
        (use task_result_ok [OF pool_okD(5) [OF ok] k(1)] k pc in \<open>auto simp: set_state_def wakeable_def\<close>)
    then have "pool_ok items m (goto w (Execute t) (update_task t ?f s))"
      by (intro pool_ok_update [OF ok w _ k(1)]) (use l(1) that k in \<open>auto simp: set_state_def in_state_def\<close>)
    then show ?thesis using k that by (simp add: loop_step_def try_transition_def)
  qed
  show ?thesis
    using l(2) go count cas pool_okD(6) [OF ok w] l(1) by (auto simp: loop_step_def)
qed

lemma wakeable_other:
  "in_state s x Task_Suspended \<Longrightarrow> y \<noteq> x \<Longrightarrow> wakeable s y \<Longrightarrow> wakeable (update_task x f s) y"
  by (auto simp: wakeable_def ready_def in_state_def waits_for_def)

lemma wake_step_ok:
  assumes dq: "deque_ok dq items" and ok: "pool_ok items m s" and w: "w < length (workers s)"
    and l: "workers s ! w = l" "(\<exists>t. l = TakeWaiters t) \<or> (\<exists>xs. l = Wake xs \<or> (\<exists>x. l = WakeUp x xs \<or> l = Resubmit x xs))"
  shows "pool_ok items m (wake_step dq w l s)"
proof -
  have pc: "pc_ok s l" using pool_okD(6) [OF ok w] l(1) by simp
  have take: ?thesis if "l = TakeWaiters t" for t
    using pool_ok_take_waiters [OF ok w] that l by (simp add: wake_step_def)
  have wake: ?thesis if xs: "l = Wake xs" for xs
  proof (cases xs)
    case Nil
    then show ?thesis using xs l pool_ok_goto [OF ok w, of Loop] by (simp add: wake_step_def)
  next
    case (Cons x ys)
    then obtain k where "tasks s x = Some k" "task_state k = Task_Suspended"
      using pc xs by (auto simp: in_state_def wakeable_def)
    then show ?thesis using Cons xs l pc pool_ok_goto [OF ok w, of "WakeUp x ys"]
      by (simp add: wake_step_def)
  qed
  have up: ?thesis if xs: "l = WakeUp x xs" for x xs
  proof -
    obtain k where k: "tasks s x = Some k" "task_state k = Task_Suspended"
      using pc xs by (auto simp: in_state_def wakeable_def)
    have alone: "x \<notin> set xs" using held_alone(4) [OF ok w, of x] l xs by (auto simp: count_eq_zero_iff)
    let ?f = "set_state Task_Pending"
    have "task_ok (update_task x ?f s) x"
      by (rule task_ok_update [OF pool_okD(5) [OF ok] k(1)])
        (use task_result_ok [OF pool_okD(5) [OF ok] k(1)] k pc xs in \<open>auto simp: set_state_def wakeable_def\<close>)
    moreover have others: "wakeable (update_task x ?f s) y" if "y \<in> set xs" for y
      by (rule wakeable_other) (use that pc xs alone in \<open>auto simp: wakeable_def\<close>)
    ultimately have "pool_ok items m (goto w (Resubmit x xs) (update_task x ?f s))"
      by (intro pool_ok_update [OF ok w _ k(1)])
        (use l(1) xs k pc alone others in \<open>auto simp: set_state_def in_state_def\<close>)
    then show ?thesis using xs by (simp add: wake_step_def)
  qed
  have again: ?thesis if "l = Resubmit x xs" for x xs
  proof -
    have "items (dq_push dq (injector s) x) = add_mset x (items (injector s))" using dq by (simp add: deque_ok_def)
    then show ?thesis using pool_ok_resubmit [OF ok w] that l by (simp add: wake_step_def)
  qed
  show ?thesis using l(2) take wake up again by blast
qed

text \<open>Running a task.\<close>

lemma execute_step_ok:
  assumes dq: "deque_ok dq items" and ok: "pool_ok items (Suc m) s" and w: "w < length (workers s)"
    and l: "workers s ! w = l"
  shows "pool_ok items m (execute_step dq w l s)"
proof -
  note ok' = pool_ok_mono [OF ok, of m, simplified]
  note pc = pc_ok_at [OF ok w l]
  have go: "pool_ok items m (goto w l' s)" if "pc_ok s l'" "held l' = held l" for l'
    by (rule pool_ok_goto [OF ok' w]) (use that l in auto)
  have same: "pool_ok items m s" using ok' .
  have start: ?thesis if at: "l = Execute t" for t
  proof -
    obtain k where k: "tasks s t = Some k" "the_task s t = k" "task_state k = Task_Running"
      using pc at by (auto simp: in_state_def the_task_def)
    let ?f = "\<lambda>k. k\<lparr>executed_by := Some w\<rparr>"
    have good: "task_ok (update_task t ?f s) t"
      by (rule task_ok_update [OF pool_okD(5) [OF ok] k(1)])
        (use task_result_ok [OF pool_okD(5) [OF ok] k(1)] k in auto)
    let ?l = "case (saved_ip k, waiting_on k) of (Some _, Some target) \<Rightarrow> Resume t target | _ \<Rightarrow> DoWork t"
    have "pc_ok (update_task t ?f s) ?l"
      using good k pool_okD(5) [OF ok, of t]
      by (auto simp: task_ok_def in_state_def split: option.splits)
    then have "pool_ok items m (goto w ?l (update_task t ?f s))"
      by (intro pool_ok_update [OF ok' w _ k(1) _ _ _ _ good]) (use l at k in \<open>auto split: option.splits\<close>)
    then have "pool_ok items m (goto w ?l (record_execution w t s))"
      by (rule iffD2 [OF pool_ok_cong, rotated -1]) (simp_all add: record_execution_def)
    then show ?thesis using k at by (simp add: execute_step_def)
  qed
  have resume: ?thesis if at: "l = Resume t target" for t target
  proof -
    have "tasks s target \<noteq> None" "task_state (the (tasks s target)) = Task_Completed" "has_result s target"
      using pc at pool_okD(5) [OF ok, of target] by (auto simp: in_state_def task_ok_def has_result_def)
    then show ?thesis using at pc go [of "ResumeResult t target"]
      by (auto simp: execute_step_def resume_step_def)
  qed
  have with_value: "pool_ok items m (goto w (Complete t v) (update_task t clear_saved s))"
    if at: "held l = [t]" "in_state s t Task_Running" "valued s t v" for t v
  proof -
    obtain k where k: "tasks s t = Some k" "task_state k = Task_Running" using at by (auto simp: in_state_def)
    have "task_ok (update_task t clear_saved s) t"
      by (rule task_ok_update [OF pool_okD(5) [OF ok] k(1)])
        (use task_result_ok [OF pool_okD(5) [OF ok] k(1)] k in \<open>auto simp: clear_saved_def\<close>)
    moreover have "pc_ok (update_task t clear_saved s) (Complete t v)"
      using k at by (auto simp: in_state_def valued_def clear_saved_def)
    ultimately show ?thesis
      by (intro pool_ok_update [OF ok' w _ k(1)]) (use l at k in \<open>auto simp: clear_saved_def\<close>)
  qed
  have sum: "valued s t (acc + result_or_minus_1 (the_task s sub))"
    if "awaits s t sub acc" "has_result s sub" for t sub acc
    using that pool_okD(5) [OF ok, of sub]
    by (auto simp: awaits_def has_result_def valued_def task_ok_def result_or_minus_1_def the_task_def
        task_value.simps [of "fn_id _"])
  have resumed: ?thesis if at: "l = ResumeResult t target" for t target
  proof -
    obtain k acc where k: "tasks s t = Some k" "saved_locals k = Some [acc]" "awaits s t target acc"
      using pc at by (auto simp: saved_def)
    then show ?thesis using pc at with_value [of t] sum by (simp add: execute_step_def the_task_def)
  qed
  have complete: ?thesis if at: "l = Complete t v" for t v
  proof -
    obtain k where k: "tasks s t = Some k" "task_state k = Task_Running" "v = task_value (fn_id k) (task_args k)"
      using pc at by (auto simp: in_state_def valued_def)
    let ?f = "\<lambda>k. k\<lparr>task_result := Some v\<rparr>"
    have "task_ok (update_task t ?f s) t"
      by (rule task_ok_update [OF pool_okD(5) [OF ok] k(1)]) (use k in auto)
    moreover have "task_result k = Some v" if "task_result k \<noteq> None"
      using that task_result_ok [OF pool_okD(5) [OF ok] k(1)] k by auto
    ultimately have "pool_ok items m (goto w (MarkCompleted t) (update_task t ?f s))"
      by (intro pool_ok_update [OF ok' w _ k(1)]) (use l at k in \<open>auto simp: in_state_def has_result_def\<close>)
    then show ?thesis using at by (simp add: execute_step_def)
  qed
  have finish: ?thesis if at: "l = MarkCompleted t" for t
  proof -
    obtain k v where k: "tasks s t = Some k" "task_state k = Task_Running" "task_result k = Some v"
      using pc at by (auto simp: in_state_def has_result_def)
    have "task_ok (update_task t (set_state Task_Completed) s) t"
      by (rule task_ok_update [OF pool_okD(5) [OF ok] k(1)])
        (use k task_result_ok [OF pool_okD(5) [OF ok] k(1)] in \<open>auto simp: set_state_def\<close>)
    then have "pool_ok items m (goto w (TakeWaiters t) (update_task t (set_state Task_Completed) s))"
      by (intro pool_ok_update [OF ok' w _ k(1)]) (use l at k in \<open>auto simp: set_state_def in_state_def\<close>)
    then show ?thesis using at by (simp add: execute_step_def)
  qed
  have work: ?thesis if at: "l = DoWork t" for t
  proof -
    obtain k where k: "tasks s t = Some k" "the_task s t = k" "task_state k = Task_Running"
      using pc at by (auto simp: in_state_def the_task_def)
    show ?thesis
    proof (cases "work_of (fn_id k) (task_args k)")
      case (Value v)
      then have "valued s t v" using k by (simp add: valued_def task_value.simps [of "fn_id k"])
      then show ?thesis using go [of "Complete t v"] pc at k Value by (simp add: execute_step_def)
    next
      case (Await f args acc)
      let ?s = "submit dq f args s" and ?sub = "next_task_id s"
      have fresh: "tasks s ?sub = None" using pool_okD(4) [OF ok, of ?sub] by auto
      then have tb: "tasks ?s t = Some k" "tasks ?s ?sub = Some (new_task f args)"
        using k by (auto simp: submit_def Let_def)
      have "pool_ok items m (goto w (CheckSub t ?sub acc) ?s)"
        by (rule pool_ok_goto [OF pool_ok_submit [OF dq ok]])
          (use w l at tb k Await in \<open>simp_all add: submit_def Let_def in_state_def awaits_def new_task_def\<close>)
      then show ?thesis using at k Await by (simp add: execute_step_def)
    qed
  qed
  have check: ?thesis if at: "l = CheckSub t sub acc" for t sub acc
  proof -
    obtain g where g: "tasks s sub = Some g" using pc at by (auto simp: awaits_def)
    have "has_result s sub" if "task_state g = Task_Completed"
      using pool_okD(5) [OF ok, of sub] g that by (auto simp: task_ok_def has_result_def)
    then show ?thesis using go pc at g by (auto simp: execute_step_def the_task_def)
  qed
  have taken: ?thesis if at: "l = SubResult t sub acc" for t sub acc
    using go [of "Complete t (acc + result_or_minus_1 (the_task s sub))"] pc at sum
    by (simp add: execute_step_def)
  have suspended: ?thesis if at: "l = DoSuspend t sub acc" for t sub acc
  proof -
    obtain k where k: "tasks s t = Some k" "task_state k = Task_Running" "awaits s t sub acc"
      using pc at by (auto simp: in_state_def)
    let ?f = "suspend 0 [acc] (Some sub)"
    have aw: "awaits (update_task t ?f s) t sub acc"
      using k awaits_update [of s t k ?f] by (simp add: suspend_def set_state_def)
    then have "task_ok (update_task t ?f s) t"
      using k task_result_ok [OF pool_okD(5) [OF ok] k(1)]
      by (auto simp: task_ok_def saved_def suspend_def set_state_def)
    moreover have "pc_ok (update_task t ?f s) (AddWaiter t sub)"
      using k aw by (auto simp: in_state_def waits_for_def awaits_def suspend_def set_state_def)
    ultimately have "pool_ok items m (goto w (AddWaiter t sub) (update_task t ?f s))"
      by (intro pool_ok_update [OF ok' w _ k(1)]) (use l at k in \<open>auto simp: suspend_def set_state_def\<close>)
    then show ?thesis using at by (simp add: execute_step_def)
  qed
  have waiting: ?thesis if "l = AddWaiter t sub" for t sub
    using pool_ok_add_waiter [OF ok' w] that l by (simp add: execute_step_def)
  show ?thesis
    using start resume resumed complete finish work check taken suspended waiting same
    by (cases l) (simp_all add: execute_step_def)
qed

lemma worker_step_ok:
  assumes dq: "deque_ok dq items" and ok: "pool_ok items (Suc m) s"
  shows "pool_ok items m (worker_step dq w s)"
proof (cases "length (workers s) \<le> w")
  case True
  then show ?thesis using pool_ok_mono [OF ok, of m] by (simp add: worker_step_def)
next
  case False
  then have w: "w < length (workers s)" by simp
  note ok' = pool_ok_mono [OF ok, of m, simplified]
  note steps = loop_step_ok [OF ok' w refl] try_steal_ok [OF dq ok' w refl] wake_step_ok [OF dq ok' w refl]
    execute_step_ok [OF dq ok w refl]
  show ?thesis
    using w ok' steps by (auto simp: worker_step_def Let_def split: pc.split)
qed

lemma pool_new_ok:
  assumes "deque_ok dq items" "m < 2 ^ 64 - 1"
  shows "pool_ok items m (pool_new dq n)"
  using assms
  by (auto simp: pool_ok_def pool_new_def Let_def deque_ok_def task_ok_def holders_def waiting_def waiters_of_def live_def)

lemma run_pool_ok:
  assumes dq: "deque_ok dq items" and ok: "pool_ok items (length acts + m) s"
  shows "pool_ok items m (run_pool dq acts s)"
  using ok
proof (induction acts arbitrary: s)
  case (Cons a acts)
  have "pool_ok items (length acts + m) (act dq a s)"
  proof (cases a)
    case Shutdown
    have "pool_ok items (length acts + m) s" using Cons.prems by (rule pool_ok_mono) simp
    then show ?thesis unfolding Shutdown act.simps by (rule iffD2 [OF pool_ok_cong, rotated -1]) simp_all
  qed (use Cons.prems worker_step_ok [OF dq] pool_ok_submit [OF dq] in auto)
  then show ?case using Cons.IH by (simp add: run_pool_def)
qed (simp add: run_pool_def)

end
