(* ===== verification/Executor_Results.thy ===== *)
theory Executor_Results
  imports Executor_Props
begin

text \<open>
  What the clients of the executor see: every task is in one place, a join waits or returns the
  value of the task, and a wakeup can be lost between the check of an awaited task and the
  registration as its waiter.
\<close>

section \<open>Runs\<close>

lemma run_pool_append: "run_pool dq (as @ bs) s = run_pool dq bs (run_pool dq as s)"
  by (simp add: run_pool_def)

lemma run_pool_simps [simp]: "run_pool dq [] s = s" "run_pool dq (a # as) s = run_pool dq as (act dq a s)"
  by (simp_all add: run_pool_def)

lemma act_ok: "deque_ok dq items \<Longrightarrow> pool_ok items (Suc m) s \<Longrightarrow> pool_ok items m (act dq a s)"
  using run_pool_ok [of dq items "[a]" m s] by simp

lemma reachable_ok:
  "deque_ok dq items \<Longrightarrow> length acts + m < 2 ^ 64 - 1 \<Longrightarrow> pool_ok items m (run_pool dq acts (pool_new dq n))"
  by (rule run_pool_ok) (auto intro: pool_new_ok)

section \<open>What a step leaves\<close>

text \<open>A task keeps its function and arguments, and stays completed.\<close>

definition describes :: "task \<Rightarrow> task \<Rightarrow> bool" where
  "describes k k' \<longleftrightarrow> fn_id k' = fn_id k \<and> task_args k' = task_args k \<and>
     (task_state k = Task_Completed \<longrightarrow> task_state k' = Task_Completed)"

lemma describes_trans: "describes k k' \<Longrightarrow> describes k' k'' \<Longrightarrow> describes k k''"
  by (simp add: describes_def)

lemma update_describes:
  assumes "tasks s t = Some k" "\<And>k. tasks s x = Some k \<Longrightarrow> describes k (f k)"
  shows "\<exists>k'. tasks (update_task x f s) t = Some k' \<and> describes k k'"
  using assms by (auto simp: describes_def)

lemma submit_describes:
  assumes "pool_ok items m s" "tasks s t = Some k"
  shows "\<exists>k'. tasks (submit dq f args s) t = Some k' \<and> describes k k'"
  using assms pool_okD(4) [OF assms(1), of "next_task_id s"] by (auto simp: submit_def Let_def describes_def)

lemma tasks_record_execution [simp]:
  "tasks (record_execution w t s) = (tasks s)(t := map_option (\<lambda>k. k\<lparr>executed_by := Some w\<rparr>) (tasks s t))"
  by (simp add: record_execution_def)

lemmas task_changes = describes_def set_state_def try_transition_def suspend_def clear_saved_def
  resume_step_def the_task_def in_state_def

lemma loop_step_describes:
  assumes "pc_ok s l" "tasks s t = Some k"
  shows "\<exists>k'. tasks (loop_step w l s) t = Some k' \<and> describes k k'"
  using assms by (cases l) (auto simp: loop_step_def task_changes)

lemma wake_step_describes:
  assumes "pc_ok s l" "tasks s t = Some k"
  shows "\<exists>k'. tasks (wake_step dq w l s) t = Some k' \<and> describes k k'"
  using assms by (cases l) (auto simp: wake_step_def task_changes wakeable_def split: list.split option.split)

lemma try_steal_describes:
  "tasks s t = Some k \<Longrightarrow> \<exists>k'. tasks (try_steal dq w l s) t = Some k' \<and> describes k k'"
  by (cases l) (auto simp: try_steal_def Let_def describes_def split: option.split)

lemma execute_step_describes:
  assumes "pool_ok items m s" "pc_ok s l" "tasks s t = Some k"
  shows "\<exists>k'. tasks (execute_step dq w l s) t = Some k' \<and> describes k k'"
  using assms(2,3) submit_describes [OF assms(1,3)]
  by (cases l)
    (auto simp: execute_step_def task_changes Let_def split: option.split list.split work.split task_state.split)

lemma act_describes:
  assumes ok: "pool_ok items m s" and k: "tasks s t = Some k"
  shows "\<exists>k'. tasks (act dq a s) t = Some k' \<and> describes k k'"
proof (cases a)
  case (Worker w)
  have same: "\<exists>k'. tasks s t = Some k' \<and> describes k k'" using k by (simp add: describes_def)
  show ?thesis
  proof (cases "w < length (workers s)")
    case True
    note pc = pc_ok_at [OF ok True refl]
    show ?thesis
      using True same loop_step_describes [OF pc k] wake_step_describes [OF pc k] try_steal_describes [OF k]
        execute_step_describes [OF ok pc k]
      by (auto simp: Worker worker_step_def Let_def split: pc.split)
  qed (use same in \<open>simp add: Worker worker_step_def\<close>)
qed (use k submit_describes [OF ok k] in \<open>auto simp: describes_def\<close>)

lemma run_describes:
  assumes dq: "deque_ok dq items" and ok: "pool_ok items (length acts + m) s" and k: "tasks s t = Some k"
  shows "\<exists>k'. tasks (run_pool dq acts s) t = Some k' \<and> describes k k'"
  using ok k
proof (induction acts arbitrary: s k)
  case Nil
  then show ?case by (simp add: describes_def)
next
  case (Cons a acts)
  obtain k1 where k1: "tasks (act dq a s) t = Some k1" "describes k k1"
    using act_describes [OF Cons.prems] by blast
  have "pool_ok items (length acts + m) (act dq a s)" using act_ok [OF dq] Cons.prems(1) by simp
  from Cons.IH [OF this k1(1)] show ?case using k1(2) describes_trans by auto
qed

section \<open>One place per task\<close>

text \<open>
  C16: in every run a task that is not completed is in one place, once: in the global queue, with
  one worker, or in one list of waiters; a completed task is in none. So no task is lost, and no
  task is run by two workers. The local queues, from which workers would steal, stay empty.
\<close>

theorem tasks_have_one_place:
  assumes "deque_ok dq items" and "length acts < 2 ^ 64 - 1" and "s = run_pool dq acts (pool_new dq n)"
  shows "items (injector s) + holders (workers s) + waiting (tasks s) = mset_set (live (tasks s)) \<and>
    (\<forall>q\<in>set (local_queues s). items q = {#})"
  using reachable_ok [of dq items acts 0 n] assms by (simp add: pool_ok_def)

section \<open>Results\<close>

text \<open>
  C13: after a spawn, whatever happened before and happens later and in whatever interleaving, a
  join of the task waits or returns the value of its work, awaited tasks included; it never
  returns the \<^verbatim>\<open>None\<close> of a missing or cancelled task.
\<close>

theorem join_waits_or_returns_value:
  assumes dq: "deque_ok dq items" and len: "length before + length after < 2 ^ 64 - 2"
    and s: "s = run_pool dq before (pool_new dq n)" and t: "t = next_task_id s"
  shows "join_poll t (run_pool dq after (act dq (Spawn f args) s)) \<in> {None, Some (Some (task_value f args))}"
proof -
  let ?s = "act dq (Spawn f args) s" and ?r = "run_pool dq after (act dq (Spawn f args) s)"
  have ok: "pool_ok items (length after) ?s"
    using reachable_ok [OF dq, of "before @ [Spawn f args]" "length after" n] len
    by (simp add: run_pool_append s)
  have "tasks ?s t = Some (new_task f args)" by (simp add: t submit_def Let_def)
  then obtain k where k: "tasks ?r t = Some k" "fn_id k = f" "task_args k = args"
    using run_describes [OF dq, of after 0] ok by (force simp: describes_def new_task_def)
  have "task_ok ?r t" using run_pool_ok [OF dq, of after 0] ok pool_okD(5) by fastforce
  then show ?thesis using k by (auto simp: task_ok_def join_poll_def split: task_state.split)
qed

section \<open>A lost wakeup\<close>

text \<open>
  A task in the list of waiters of a completed task whose list has been taken already waits
  forever: no step takes that list again.
\<close>

definition abandoned :: "u64 \<Rightarrow> u64 \<Rightarrow> 'q pool \<Rightarrow> bool" where
  "abandoned x t s \<longleftrightarrow>
     (\<exists>k. tasks s x = Some k \<and> task_state k = Task_Completed \<and> t \<in> set (waiters k)) \<and>
     TakeWaiters x \<notin> set (workers s)"

lemma abandoned_simps [simp]:
  "abandoned x t (s\<lparr>active_workers := n\<rparr>) = abandoned x t s"
  "abandoned x t (s\<lparr>local_queues := qs\<rparr>) = abandoned x t s"
  "abandoned x t (s\<lparr>injector := q\<rparr>) = abandoned x t s"
  "abandoned x t (s\<lparr>shutdown := b\<rparr>) = abandoned x t s"
  "abandoned x t (s\<lparr>worker_task_counts := c\<rparr>) = abandoned x t s"
  by (simp_all add: abandoned_def)

lemma abandoned_goto [intro]:
  "abandoned x t s \<Longrightarrow> l \<noteq> TakeWaiters x \<Longrightarrow> abandoned x t (goto w l s)"
  using set_update_subset_insert [of "workers s" w l] by (auto simp: abandoned_def)

lemma abandoned_update [intro]:
  "abandoned x t s \<Longrightarrow> y \<noteq> x \<Longrightarrow> abandoned x t (update_task y f s)"
  "abandoned x t s \<Longrightarrow> abandoned x t (update_task y (\<lambda>k. k\<lparr>waiters := waiters k @ [z]\<rparr>) s)"
  "abandoned x t s \<Longrightarrow> y \<noteq> x \<Longrightarrow> abandoned x t (record_execution w y s)"
  by (auto simp: abandoned_def record_execution_def)

lemma abandoned_submit [intro]:
  "pool_ok items m s \<Longrightarrow> abandoned x t s \<Longrightarrow> abandoned x t (submit dq f args s)"
  using pool_okD(4) [of items m s "next_task_id s"] by (auto simp: abandoned_def submit_def Let_def)

lemma abandoned_worker:
  assumes ok: "pool_ok items m s" and ab: "abandoned x t s"
  shows "abandoned x t (worker_step dq w s)"
proof (cases "w < length (workers s)")
  case True
  note pc = pc_ok_at [OF ok True refl]
  have x: "in_state s x st \<longleftrightarrow> st = Task_Completed" for st using ab by (auto simp: abandoned_def in_state_def)
  have not: "workers s ! w \<noteq> TakeWaiters x" using ab nth_mem [OF True] by (auto simp: abandoned_def)
  have other: "in_state s y st \<Longrightarrow> st \<noteq> Task_Completed \<Longrightarrow> y \<noteq> x" for y st using x by blast
  have tw: "workers s ! w = TakeWaiters y \<Longrightarrow> y \<noteq> x" for y using not by auto
  show ?thesis
    using True pc not ab
    by (cases "workers s ! w")
      (auto simp: worker_step_def Let_def loop_step_def try_steal_def wake_step_def execute_step_def resume_step_def
        try_transition_def wakeable_def
        split: option.split list.split work.split task_state.split dest!: other tw intro!: abandoned_submit [OF ok])
qed (use ab in \<open>simp add: worker_step_def\<close>)

lemma abandoned_run:
  assumes dq: "deque_ok dq items" and "pool_ok items (length acts + m) s" "abandoned x t s"
  shows "abandoned x t (run_pool dq acts s)"
  using assms(2,3)
proof (induction acts arbitrary: s)
  case (Cons a acts)
  have "abandoned x t (act dq a s)"
    by (cases a) (use Cons.prems abandoned_worker abandoned_submit in auto)
  moreover have "pool_ok items (length acts + m) (act dq a s)" using act_ok [OF dq] Cons.prems(1) by simp
  ultimately show ?case using Cons.IH by simp
qed simp

lemma abandoned_waits:
  assumes "pool_ok items m s" "abandoned x t s"
  shows "join_poll t s = None"
  using assms pool_okD(8) [OF assms(1)] unfolding abandoned_def in_state_def join_poll_def by fastforce

definition list_deque :: "u64 list deque" where
  "list_deque =
     \<lparr>dq_new = [], dq_push = (\<lambda>q t. q @ [t]), dq_take = (\<lambda>q. case q of [] \<Rightarrow> None | t # q \<Rightarrow> Some (t, q))\<rparr>"

lemma list_deque_ok: "deque_ok list_deque mset"
  by (auto simp: deque_ok_def list_deque_def split: list.splits)

text \<open>
  Two workers and one task that spawns a task and awaits it. The second worker completes the awaited
  task after the first has seen it unfinished and before it registers the waiting one.
\<close>

definition lost_schedule :: "pool_action list" where
  "lost_schedule =
     Spawn 3 [5] # replicate 11 (Worker 0) @ replicate 14 (Worker 1) @ replicate 2 (Worker 0)"

definition lost_state :: "u64 list pool" where
  "lost_state = run_pool list_deque lost_schedule (pool_new list_deque 2)"

lemma lost: "case tasks lost_state 2 of None \<Rightarrow> False | Some k \<Rightarrow> task_state k = Task_Completed \<and>
     waiters k = [1] \<and> fn_id k = 5 \<and> task_args k = [10]"
   "workers lost_state = [Loop, Loop]"
  by code_simp+

text \<open>
  C14: a wakeup can be lost. After this interleaving the awaited task is completed, yet a join of the
  waiting task waits whatever the workers and the clients do from then on.
\<close>

theorem lost_wakeup:
  assumes "length acts < 2 ^ 63"
  shows "join_poll 1 (run_pool list_deque (lost_schedule @ acts) (pool_new list_deque 2)) = None \<and>
    join_poll 2 (run_pool list_deque (lost_schedule @ acts) (pool_new list_deque 2)) = Some (Some 5)"
proof -
  let ?s = "run_pool list_deque lost_schedule (pool_new list_deque 2)"
  have "length lost_schedule = 28" by (simp add: lost_schedule_def)
  then have ok: "pool_ok mset (length acts) ?s" and ok': "pool_ok mset 0 (run_pool list_deque acts ?s)"
    using reachable_ok [OF list_deque_ok, of lost_schedule "length acts" 2] assms
      reachable_ok [OF list_deque_ok, of "lost_schedule @ acts" 0 2] by (auto simp: run_pool_append)
  have "abandoned 2 1 ?s" using lost by (auto simp: abandoned_def lost_state_def split: option.splits)
  then have ab: "abandoned 2 1 (run_pool list_deque acts ?s)"
    using abandoned_run [OF list_deque_ok, of acts 0] ok by simp
  obtain k where "tasks ?s 2 = Some k" "fn_id k = 5" "task_args k = [10]"
    using lost by (auto simp: lost_state_def split: option.splits)
  then obtain k' where k': "tasks (run_pool list_deque acts ?s) 2 = Some k'" "fn_id k' = 5" "task_args k' = [10]"
    using run_describes [OF list_deque_ok, of acts 0 ?s 2] ok by (force simp: describes_def)
  then have "task_state k' = Task_Completed" using ab by (auto simp: abandoned_def)
  moreover have "task_ok (run_pool list_deque acts ?s) 2" by (rule pool_okD(5) [OF ok'])
  moreover have "task_value 5 [10] = 5" by (simp add: task_value.simps work_of_def)
  ultimately show ?thesis
    using abandoned_waits [OF ok' ab] k' by (auto simp: run_pool_append join_poll_def task_ok_def)
qed

theorem lost_wakeup_witness:
  "join_poll 1 (run_pool list_deque (lost_schedule @ [Worker 0, Worker 1]) (pool_new list_deque 2)) = None"
  using lost_wakeup [of "[Worker 0, Worker 1]"] by simp

theorem tasks_have_one_place_witness:
  "mset (injector lost_state) + holders (workers lost_state) + waiting (tasks lost_state) = mset_set (live (tasks lost_state))"
  using tasks_have_one_place [OF list_deque_ok, of lost_schedule lost_state 2]
  by (simp add: lost_state_def lost_schedule_def)

theorem join_waits_or_returns_value_witness:
  "join_poll 1 (run_pool list_deque (replicate 30 (Worker 0)) (act list_deque (Spawn 7 []) (pool_new list_deque 2)))
     \<in> {None, Some (Some (task_value 7 []))}"
  using join_waits_or_returns_value
    [OF list_deque_ok, of "[]" "replicate 30 (Worker 0)" "pool_new list_deque 2" 2 1 7 "[]"]
  by (simp add: pool_new_def Let_def)

end
