(* ===== verification/Executor_Live.thy ===== *)
theory Executor_Live
  imports Executor_Results
begin

text \<open>
  Liveness of the executor on tasks that do not await others: once every worker is scheduled often
  enough, in whatever order, every task is completed.
\<close>

section \<open>Pools without awaiting tasks\<close>

definition plain_action :: "pool_action \<Rightarrow> bool" where
  "plain_action a = (case a of Worker _ \<Rightarrow> True | Spawn f args \<Rightarrow> f \<noteq> 3 \<or> args = [] | Shutdown \<Rightarrow> False)"

definition plain_task :: "task \<Rightarrow> bool" where
  "plain_task k \<longleftrightarrow> (fn_id k \<noteq> 3 \<or> task_args k = []) \<and> waiters k = [] \<and> saved_ip k = None"

fun plain_pc :: "pc \<Rightarrow> bool" where
  "plain_pc Leave = False"
| "plain_pc Stopped = False"
| "plain_pc (CasSuspended _) = False"
| "plain_pc (Resume _ _) = False"
| "plain_pc (ResumeResult _ _) = False"
| "plain_pc (CheckSub _ _ _) = False"
| "plain_pc (SubResult _ _ _) = False"
| "plain_pc (DoSuspend _ _ _) = False"
| "plain_pc (AddWaiter _ _) = False"
| "plain_pc (WakeUp _ _) = False"
| "plain_pc (Resubmit _ _) = False"
| "plain_pc (Wake xs) = (xs = [])"
| "plain_pc _ = True"

definition plain_pool :: "'q pool \<Rightarrow> bool" where
  "plain_pool s \<longleftrightarrow> \<not> shutdown s \<and> (\<forall>t k. tasks s t = Some k \<longrightarrow> plain_task k) \<and> (\<forall>l\<in>set (workers s). plain_pc l)"

text \<open>What is left to do, and how far a searching worker is from the global queue.\<close>

fun weight :: "pc \<Rightarrow> nat" where
  "weight (CasPending _) = 6"
| "weight (Execute _) = 5"
| "weight (DoWork _) = 4"
| "weight (Complete _ _) = 3"
| "weight (MarkCompleted _) = 2"
| "weight (TakeWaiters _) = 1"
| "weight _ = 0"

fun distance :: "nat \<Rightarrow> pc \<Rightarrow> nat" where
  "distance n TryInject = 0"
| "distance n (TrySteal i) = Suc (n - i)"
| "distance n TryLocal = n + 2"
| "distance n Loop = n + 3"
| "distance n _ = n + 4"

definition load :: "('q \<Rightarrow> u64 multiset) \<Rightarrow> 'q pool \<Rightarrow> nat" where
  "load items s = 7 * size (items (injector s)) + sum_list (map weight (workers s))"

lemma sum_list_update_nat:
  fixes xs :: "nat list"
  shows "w < length xs \<Longrightarrow> sum_list (xs[w := x]) + xs ! w = sum_list xs + x"
  by (induction xs arbitrary: w) (auto simp: nth_Cons split: nat.splits)

lemma weights_update:
  "w < length ls \<Longrightarrow> sum_list (map weight (ls[w := l])) + weight (ls ! w) = sum_list (map weight ls) + weight l"
  using sum_list_update_nat [of w "map weight ls" "weight l"] by (simp add: map_update)

text \<open>
  A step of a worker either lowers the load, or leaves it, changes only the searching worker's
  place, and brings it nearer to the global queue unless that is empty.
\<close>

definition moves :: "('q \<Rightarrow> u64 multiset) \<Rightarrow> nat \<Rightarrow> 'q pool \<Rightarrow> 'q pool \<Rightarrow> bool" where
  "moves items w s s' \<longleftrightarrow>
     load items s' < load items s \<or>
     (items (injector s') = items (injector s) \<and> weight (workers s ! w) = 0 \<and>
      (\<exists>l. workers s' = (workers s)[w := l] \<and> weight l = 0 \<and>
         (items (injector s) = {#} \<or>
          distance (length (workers s)) l < distance (length (workers s)) (workers s ! w))))"

definition quiet :: "'q pool \<Rightarrow> 'q pool \<Rightarrow> bool" where
  "quiet s s' \<longleftrightarrow> plain_pool s' \<and> next_task_id s' = next_task_id s \<and> length (workers s') = length (workers s)"

lemma quiet_goto:
  assumes "quiet s s'" "plain_pc l"
  shows "quiet s (goto w l s')"
  using assms set_update_subset_insert [of "workers s'" w l] by (auto simp: quiet_def plain_pool_def)

lemma quiet_update:
  assumes "quiet s s'" "\<And>k. tasks s' t = Some k \<Longrightarrow> plain_task k \<Longrightarrow> plain_task (f k)"
  shows "quiet s (update_task t f s')"
  using assms by (auto simp: quiet_def plain_pool_def)

lemma quiet_simps [simp]:
  "quiet s (s'\<lparr>active_workers := n\<rparr>) = quiet s s'" "quiet s (s'\<lparr>injector := q\<rparr>) = quiet s s'"
  "quiet s (record_execution w t s') = quiet s (update_task t (\<lambda>k. k\<lparr>executed_by := Some w\<rparr>) s')"
  by (simp_all add: quiet_def plain_pool_def record_execution_def)

lemma moves_lower:
  assumes "w < length (workers s)" "items (injector s') = items (injector s)" "workers s' = (workers s)[w := l]"
    "weight l < weight (workers s ! w)"
  shows "moves items w s s'"
  using weights_update [OF assms(1), of l] assms by (simp add: moves_def load_def)

lemma moves_search:
  assumes "items (injector s') = items (injector s)" "workers s' = (workers s)[w := l]"
    "weight l = 0" "weight (workers s ! w) = 0"
    "items (injector s) = {#} \<or> distance (length (workers s)) l < distance (length (workers s)) (workers s ! w)"
  shows "moves items w s s'"
  using assms by (auto simp: moves_def)

lemma plain_search:
  assumes dq: "deque_ok dq items" and ok: "pool_ok items m s" and plain: "plain_pool s" and w: "w < length (workers s)"
    and l: "workers s ! w = l" "l = TryLocal \<or> l = TryInject \<or> (\<exists>i. l = TrySteal i)"
  shows "quiet s (try_steal dq w l s) \<and> moves items w s (try_steal dq w l s)"
proof -
  have loc: "dq_take dq (local_queues s ! i) = None" if "i < length (workers s)" for i
    by (rule local_queue_empty [OF dq ok]) (use that pool_okD(1) [OF ok] in simp)
  have same: "quiet s s" using plain by (simp add: quiet_def)
  have inject: "moves items w s (goto w (CasPending t) (s\<lparr>injector := q\<rparr>))"
    if "workers s ! w = TryInject" "dq_take dq (injector s) = Some (t, q)" for t q
  proof -
    have "items (injector s) = add_mset t (items q)" using dq that(2) by (simp add: deque_ok_def)
    then show ?thesis using weights_update [OF w, of "CasPending t"] that(1) by (simp add: moves_def load_def)
  qed
  have empty: "items (injector s) = {#}" if "dq_take dq (injector s) = None"
    using dq that by (simp add: deque_ok_def)
  have go: "quiet s (goto w l' s) \<and> moves items w s (goto w l' s)"
    if "plain_pc l'" "weight l' = 0" "items (injector s) = {#} \<or> distance (length (workers s)) l' < distance (length (workers s)) l" for l'
    using that l quiet_goto [OF same] by (auto intro!: moves_search [where l = l'])
  have taken: "quiet s (goto w (CasPending t) (s\<lparr>injector := q\<rparr>))" for t q
    by (rule quiet_goto) (simp_all add: same)
  show ?thesis
    using l(2)
  proof (elim disjE exE)
    fix i assume i: "l = TrySteal i"
    have "distance (length (workers s)) (TrySteal (Suc i)) < distance (length (workers s)) l" if "i < length (workers s)"
      using that i by (simp add: diff_less_mono2)
    then show ?thesis using i l(1) w loc [of i] pool_okD(1) [OF ok] go [of TryInject] go [of "TrySteal (Suc i)"]
      by (auto simp: try_steal_def Let_def not_le)
  qed (use l(1) w loc [OF w] pool_okD(1) [OF ok] go taken inject empty in
      \<open>auto simp: try_steal_def Let_def split: option.split\<close>)
qed

lemma plain_change:
  assumes plain: "plain_pool s" and w: "w < length (workers s)" and k: "tasks s t = Some k"
    and f: "\<And>k. plain_task k \<Longrightarrow> plain_task (f k)" and l: "plain_pc l" "weight l < weight (workers s ! w)"
  shows "quiet s (goto w l (update_task t f s)) \<and> moves items w s (goto w l (update_task t f s))"
proof -
  have "quiet s s" using plain by (simp add: quiet_def)
  then have "quiet s (update_task t f s)" using f by (intro quiet_update)
  then show ?thesis using l by (auto intro: quiet_goto moves_lower [OF w _ _ l(2)])
qed

lemma plain_step:
  assumes dq: "deque_ok dq items" and ok: "pool_ok items m s" and plain: "plain_pool s" and w: "w < length (workers s)"
  shows "quiet s (worker_step dq w s) \<and> moves items w s (worker_step dq w s)"
proof -
  note pc = pc_ok_at [OF ok w refl]
  have l: "plain_pc (workers s ! w)" using plain w by (simp add: plain_pool_def)
  have same: "quiet s s" and running: "\<not> shutdown s" using plain by (simp_all add: quiet_def plain_pool_def)
  have task: "plain_task k" if "tasks s t = Some k" for t k using plain that by (simp add: plain_pool_def)
  have go: "quiet s (goto w l' s) \<and> moves items w s (goto w l' s)"
    if "plain_pc l'" "weight l' = 0" "weight (workers s ! w) = 0"
      "distance (length (workers s)) l' < distance (length (workers s)) (workers s ! w)" for l'
    using that quiet_goto [OF same] by (auto intro!: moves_search [where l = l'])
  have down: "quiet s (goto w l' s) \<and> moves items w s (goto w l' s)"
    if "plain_pc l'" "weight l' < weight (workers s ! w)" for l'
    using that quiet_goto [OF same] by (auto intro!: moves_lower [OF w, where l = l'])
  have starts: "quiet s (goto w Loop (s\<lparr>active_workers := n\<rparr>)) \<and> moves items w s (goto w Loop (s\<lparr>active_workers := n\<rparr>))"
    if "workers s ! w = Start" for n
    using that by (auto intro!: quiet_goto same moves_search [where l = Loop])
  note change = plain_change [OF plain w]
  show ?thesis
  proof (cases "workers s ! w")
    case (CasPending t)
    then obtain k where k: "tasks s t = Some k" "task_state k = Task_Pending" using pc by (auto simp: in_state_def)
    have "quiet s (goto w (Execute t) (update_task t (\<lambda>_. set_state Task_Running k) s)) \<and>
      moves items w s (goto w (Execute t) (update_task t (\<lambda>_. set_state Task_Running k) s))"
      by (rule change [OF k(1)]) (use CasPending task [OF k(1)] in \<open>auto simp: plain_task_def set_state_def\<close>)
    then show ?thesis using w CasPending k
      by (simp add: worker_step_def loop_step_def the_task_def try_transition_def)
  next
    case (Execute t)
    then obtain k where k: "tasks s t = Some k" using pc by (auto simp: in_state_def)
    let ?f = "\<lambda>k. k\<lparr>executed_by := Some w\<rparr>"
    have "quiet s (goto w (DoWork t) (update_task t ?f s)) \<and> moves items w s (goto w (DoWork t) (update_task t ?f s))"
      by (rule change [OF k]) (use Execute in \<open>auto simp: plain_task_def\<close>)
    then have "quiet s (goto w (DoWork t) (record_execution w t s)) \<and> moves items w s (goto w (DoWork t) (record_execution w t s))"
      by (simp add: quiet_def plain_pool_def moves_def load_def record_execution_def)
    then show ?thesis using w Execute k task [OF k]
      by (simp add: worker_step_def execute_step_def the_task_def plain_task_def)
  next
    case (DoWork t)
    then obtain k where k: "tasks s t = Some k" using pc by (auto simp: in_state_def)
    have "\<exists>v. work_of (fn_id k) (task_args k) = Value v"
      using task [OF k] by (cases "task_args k") (auto simp: plain_task_def work_of_def)
    then obtain v where "work_of (fn_id k) (task_args k) = Value v" ..
    then show ?thesis using w DoWork k down [of "Complete t v"]
      by (simp add: worker_step_def execute_step_def the_task_def)
  next
    case (TakeWaiters t)
    then obtain k where k: "tasks s t = Some k" using pc by (auto simp: in_state_def)
    have "quiet s (goto w (Wake []) (update_task t (\<lambda>k. k\<lparr>waiters := []\<rparr>) s)) \<and>
      moves items w s (goto w (Wake []) (update_task t (\<lambda>k. k\<lparr>waiters := []\<rparr>) s))"
      by (rule change [OF k]) (use TakeWaiters in \<open>auto simp: plain_task_def\<close>)
    then show ?thesis using w TakeWaiters k task [OF k]
      by (simp add: worker_step_def wake_step_def the_task_def plain_task_def)
  next
    case (Complete t v)
    then show ?thesis using w pc change
      by (auto simp: worker_step_def execute_step_def in_state_def plain_task_def)
  next
    case (MarkCompleted t)
    then show ?thesis using w pc change
      by (auto simp: worker_step_def execute_step_def in_state_def plain_task_def set_state_def)
  qed (use w l running go starts plain_search [OF dq ok plain w] in
      \<open>auto simp: worker_step_def loop_step_def wake_step_def\<close>)
qed

section \<open>Rounds\<close>

text \<open>What a sequence of workers' steps does when it does not lower the load.\<close>

definition idle :: "('q \<Rightarrow> u64 multiset) \<Rightarrow> nat list \<Rightarrow> 'q pool \<Rightarrow> 'q pool \<Rightarrow> bool" where
  "idle items ws s s' \<longleftrightarrow>
     items (injector s') = items (injector s) \<and> load items s' = load items s \<and>
     (\<forall>w\<in>set ws. weight (workers s ! w) = 0) \<and>
     (\<forall>w<length (workers s). weight (workers s' ! w) = weight (workers s ! w) \<and>
        (items (injector s) = {#} \<or>
         distance (length (workers s)) (workers s' ! w) + (if w \<in> set ws then 1 else 0)
           \<le> distance (length (workers s)) (workers s ! w)))"

lemma idle_Cons:
  assumes "moves items w s s1" "w < length (workers s)" "\<not> load items s1 < load items s"
    "idle items ws s1 s'" "length (workers s1) = length (workers s)"
  shows "idle items (w # ws) s s'"
proof -
  obtain l where l: "items (injector s1) = items (injector s)" "weight (workers s ! w) = 0"
    "workers s1 = (workers s)[w := l]" "weight l = 0"
    "items (injector s) = {#} \<or> distance (length (workers s)) l < distance (length (workers s)) (workers s ! w)"
    using assms(1,3) by (auto simp: moves_def)
  have load: "load items s1 = load items s"
    using weights_update [OF assms(2), of l] l by (simp add: load_def)
  have weights: "weight (workers s1 ! v) = weight (workers s ! v)" if "v < length (workers s)" for v
    using that l by (cases "v = w") auto
  let ?n = "length (workers s)" and ?d = "\<lambda>s v. distance (length (workers s1)) (workers s ! v)"
  have first: "?d s1 v + (if v = w then 1 else 0) \<le> ?d s v" if "v < ?n" "items (injector s) \<noteq> {#}" for v
    using that l assms(2,5) by (cases "v = w") auto
  have second: "?d s' v + (if v \<in> set ws then 1 else 0) \<le> ?d s1 v" if "v < ?n" "items (injector s) \<noteq> {#}" for v
    using that assms(4,5) l(1) by (simp add: idle_def)
  have both: "?d s' v + (if v \<in> set (w # ws) then 1 else 0) \<le> ?d s v" if "v < ?n" "items (injector s) \<noteq> {#}" for v
    using first [OF that] second [OF that] by (cases "v = w"; cases "v \<in> set ws") auto
  have still: "weight (workers s ! v) = 0" if "v \<in> set ws" for v
  proof (cases "v = w")
    case False
    then show ?thesis using assms(4) that l(3) by (auto simp: idle_def)
  qed (use l in simp)
  have kept: "weight (workers s' ! v) = weight (workers s ! v)" if "v < ?n" for v
    using assms(4,5) weights [OF that] that by (simp add: idle_def)
  show ?thesis
    unfolding idle_def
  proof (intro conjI ballI allI impI)
    show "items (injector s') = items (injector s)" "load items s' = load items s"
      using assms(4) l(1) load by (simp_all add: idle_def)
    show "weight (workers s ! v) = 0" if "v \<in> set (w # ws)" for v using that l(2) still by auto
    show "weight (workers s' ! v) = weight (workers s ! v)" if "v < ?n" for v by (rule kept [OF that])
    show "items (injector s) = {#} \<or> distance ?n (workers s' ! v) + (if v \<in> set (w # ws) then 1 else 0)
        \<le> distance ?n (workers s ! v)" if "v < ?n" for v
      by (cases "items (injector s) = {#}") (use both [OF that] assms(5) in simp_all)
  qed
qed

lemma plain_run:
  assumes dq: "deque_ok dq items" and ok: "pool_ok items 1 s" and plain: "plain_pool s"
    and ws: "\<forall>w\<in>set ws. w < length (workers s)" and s': "s' = run_pool dq (map Worker ws) s"
  shows "pool_ok items 1 s' \<and> quiet s s' \<and> (load items s' < load items s \<or> idle items ws s s')"
  using ok plain ws s'
proof (induction ws arbitrary: s)
  case Nil
  then show ?case by (simp add: quiet_def idle_def)
next
  case (Cons w ws)
  let ?s = "worker_step dq w s"
  have w: "w < length (workers s)" using Cons.prems by simp
  note step = plain_step [OF dq Cons.prems(1,2) w]
  have "pool_ok items 0 ?s" using worker_step_ok [OF dq] Cons.prems(1) by simp
  then have ok: "pool_ok items 1 ?s" using step Cons.prems(1) by (simp add: pool_ok_def quiet_def)
  have len: "length (workers ?s) = length (workers s)" "plain_pool ?s" using step by (simp_all add: quiet_def)
  have IH: "pool_ok items 1 s' \<and> quiet ?s s' \<and> (load items s' < load items ?s \<or> idle items ws ?s s')"
    by (rule Cons.IH [OF ok len(2)]) (use Cons.prems len in auto)
  have "load items ?s \<le> load items s"
    using step weights_update [OF w] by (fastforce simp: moves_def load_def)
  then have "load items s' < load items s \<or> idle items (w # ws) s s'"
    using IH idle_Cons [of items w s ?s ws s'] step w len by (fastforce simp: idle_def)
  then show ?case using IH step by (auto simp: quiet_def)
qed

text \<open>A round lets every worker take a step; each round lowers this measure.\<close>

definition rank :: "('q \<Rightarrow> u64 multiset) \<Rightarrow> 'q pool \<Rightarrow> nat" where
  "rank items s =
     (let n = length (workers s)
      in if load items s = 0 then 0 else load items s * (n + 5) + distance n (workers s ! 0))"

lemma distance_le: "distance n l \<le> n + 4"
  by (cases l) auto

lemma round_lowers_rank:
  assumes dq: "deque_ok dq items" and ok: "pool_ok items 1 s" and plain: "plain_pool s"
    and ws: "set ws = {0..<length (workers s)}" "workers s \<noteq> []" and busy: "0 < load items s"
    and s': "s' = run_pool dq (map Worker ws) s"
  shows "rank items s' < rank items s"
proof -
  let ?n = "length (workers s)"
  have run: "quiet s s' \<and> (load items s' < load items s \<or> idle items ws s s')"
    using plain_run [OF dq ok plain _ s'] ws by simp
  show ?thesis
  proof (cases "load items s' < load items s")
    case True
    then have "Suc (load items s') * (?n + 5) \<le> load items s * (?n + 5)" by (intro mult_le_mono1) simp
    then have "load items s' * (?n + 5) + (?n + 5) \<le> load items s * (?n + 5)" by simp
    moreover have "distance ?n (workers s' ! 0) < ?n + 5" using distance_le [of ?n "workers s' ! 0"] by linarith
    ultimately show ?thesis using run busy by (simp add: rank_def quiet_def Let_def)
  next
    case False
    then have idle: "idle items ws s s'" using run by simp
    have "weight (workers s ! w) = 0" if "w < ?n" for w using idle ws(1) that by (simp add: idle_def)
    then have "\<forall>l\<in>set (workers s). weight l = 0" by (metis in_set_conv_nth)
    then have weights: "sum_list (map weight (workers s)) = 0" by simp
    have "items (injector s) \<noteq> {#}"
    proof
      assume "items (injector s) = {#}"
      then show False using busy weights unfolding load_def by simp
    qed
    then have "distance ?n (workers s' ! 0) + (if 0 \<in> set ws then 1 else 0) \<le> distance ?n (workers s ! 0)"
      using idle ws(2) by (simp add: idle_def)
    moreover have "0 \<in> set ws" using ws by simp
    moreover have "load items s' = load items s" using idle by (simp add: idle_def)
    ultimately have "distance ?n (workers s' ! 0) < distance ?n (workers s ! 0)" "load items s' = load items s"
      by simp_all
    then show ?thesis using run busy by (simp add: rank_def quiet_def Let_def)
  qed
qed

lemma rounds_finish:
  assumes dq: "deque_ok dq items" and ok: "pool_ok items 1 s" and plain: "plain_pool s" and some: "workers s \<noteq> []"
    and rounds: "\<forall>r\<in>set rounds. set r = {0..<length (workers s)}" "rank items s \<le> length rounds"
    and s': "s' = run_pool dq (map Worker (concat rounds)) s"
  shows "pool_ok items 1 s' \<and> plain_pool s' \<and> load items s' = 0"
  using ok plain some rounds s'
proof (induction rounds arbitrary: s)
  case Nil
  then have "rank items s = 0" by simp
  then have "load items s = 0" by (simp add: rank_def Let_def split: if_splits)
  then show ?case using Nil by simp
next
  case (Cons r rounds)
  let ?s = "run_pool dq (map Worker r) s"
  have r: "set r = {0..<length (workers s)}" using Cons.prems by simp
  then have "\<forall>w\<in>set r. w < length (workers s)" by simp
  note run = plain_run [OF dq Cons.prems(1,2) this refl]
  have rank: "rank items ?s \<le> length rounds"
  proof (cases "load items s = 0")
    case True
    then have "load items ?s = 0" using run by (auto simp: idle_def)
    then show ?thesis by (simp add: rank_def)
  next
    case False
    then show ?thesis using round_lowers_rank [OF dq Cons.prems(1,2) r Cons.prems(3) _ refl] Cons.prems(5) by simp
  qed
  show ?case
    by (rule Cons.IH) (use run Cons.prems rank in \<open>auto simp: quiet_def run_pool_append\<close>)
qed

section \<open>Every task completes\<close>

lemma plain_acts:
  assumes dq: "deque_ok dq items" and "pool_ok items (length acts + m) s" "plain_pool s" "\<forall>a\<in>set acts. plain_action a"
  shows "plain_pool (run_pool dq acts s)"
  using assms(2-)
proof (induction acts arbitrary: s)
  case (Cons a acts)
  have ok: "pool_ok items (length acts + m) (act dq a s)" using act_ok [OF dq] Cons.prems(1) by simp
  have "plain_pool (act dq a s)"
  proof (cases a)
    case (Worker w)
    show ?thesis
    proof (cases "w < length (workers s)")
      case True
      then show ?thesis using plain_step [OF dq Cons.prems(1,2) True] Worker by (simp add: quiet_def)
    qed (use Worker Cons.prems(2) in \<open>simp add: worker_step_def\<close>)
  next
    case (Spawn f args)
    then show ?thesis using Cons.prems(2,3)
      by (auto simp: plain_pool_def submit_def Let_def plain_action_def plain_task_def new_task_def)
  qed (use Cons.prems(3) in \<open>simp add: plain_action_def\<close>)
  then show ?case using Cons.IH [OF ok] Cons.prems(3) by simp
qed simp

lemma run_length: "length (workers (run_pool dq acts s)) = length (workers s)"
proof (induction acts arbitrary: s)
  case (Cons a acts)
  have "length (workers (act dq a s)) = length (workers s)"
    by (cases a) (auto simp: submit_def Let_def worker_step_def loop_step_def try_steal_def wake_step_def
        execute_step_def resume_step_def record_execution_def split: pc.split option.split list.split work.split task_state.split)
  then show ?case using Cons.IH by simp
qed simp

lemma done_when_unloaded:
  assumes ok: "pool_ok items m s" and plain: "plain_pool s" and load: "load items s = 0" and k: "tasks s t = Some k"
  shows "join_poll t s = Some (Some (task_value (fn_id k) (task_args k)))"
proof -
  have inj: "items (injector s) = {#}" and "\<forall>l\<in>set (workers s). weight l = 0" using load by (simp_all add: load_def)
  moreover have "held l = []" if "plain_pc l" "weight l = 0" for l using that by (cases l) auto
  ultimately have "holders (workers s) = {#}" using plain by (simp add: holders_def plain_pool_def)
  moreover have "waiting (tasks s) = {#}"
    unfolding waiting_def by (rule sum.neutral) (use plain in \<open>auto simp: waiters_of_def plain_pool_def plain_task_def split: option.split\<close>)
  ultimately have "live (tasks s) = {}"
    using pool_okD(9) [OF ok] inj by (metis add.right_neutral finite_live mset_set_empty_iff)
  then have "task_state k = Task_Completed" using k by (auto simp: live_def)
  moreover have "task_ok s t" by (rule pool_okD(5) [OF ok])
  ultimately show ?thesis using k by (auto simp: join_poll_def task_ok_def)
qed

text \<open>
  C15: liveness. After any spawns of tasks that do not await others, and any steps, a number of
  rounds, in each of which every worker is scheduled at least once and in any order, completes
  every task: a join of each returns its value.
\<close>

theorem tasks_complete:
  assumes dq: "deque_ok dq items" and plain: "\<forall>a\<in>set acts. plain_action a" and len: "length acts < 2 ^ 64 - 2"
  shows "\<exists>N. \<forall>rounds. N \<le> length rounds \<longrightarrow> (\<forall>r\<in>set rounds. set r = {0..<max n 1}) \<longrightarrow>
    (let s = run_pool dq (acts @ map Worker (concat rounds)) (pool_new dq n)
     in \<forall>t k. tasks s t = Some k \<longrightarrow> join_poll t s = Some (Some (task_value (fn_id k) (task_args k))))"
proof -
  let ?s = "run_pool dq acts (pool_new dq n)"
  have ok: "pool_ok items 1 ?s" by (rule reachable_ok [OF dq]) (use len in simp)
  have "pool_ok items (length acts + 0) (pool_new dq n)" by (rule pool_new_ok [OF dq]) (use len in simp)
  then have pl: "plain_pool ?s"
    by (rule plain_acts [OF dq]) (use plain in \<open>auto simp: pool_new_def plain_pool_def Let_def\<close>)
  have n: "length (workers ?s) = max n 1" by (simp add: run_length pool_new_def Let_def)
  then have some: "workers ?s \<noteq> []" by (cases "workers ?s") auto
  show ?thesis
  proof (intro exI allI impI)
    fix rounds assume "rank items ?s \<le> length rounds" "\<forall>r\<in>set rounds. set r = {0..<max n 1}"
    then have "pool_ok items 1 (run_pool dq (map Worker (concat rounds)) ?s)"
      "plain_pool (run_pool dq (map Worker (concat rounds)) ?s)" "load items (run_pool dq (map Worker (concat rounds)) ?s) = 0"
      using rounds_finish [OF dq ok pl some _ _ refl, of rounds] n by auto
    then show "let s = run_pool dq (acts @ map Worker (concat rounds)) (pool_new dq n)
     in \<forall>t k. tasks s t = Some k \<longrightarrow> join_poll t s = Some (Some (task_value (fn_id k) (task_args k)))"
      using done_when_unloaded by (simp add: run_pool_append Let_def) blast
  qed
qed

theorem tasks_complete_witness:
  "\<exists>rounds. dom (tasks (run_pool list_deque ([Spawn 2 [6], Spawn 7 []] @ map Worker (concat rounds)) (pool_new list_deque 2)))
     \<subseteq> {t. join_poll t (run_pool list_deque ([Spawn 2 [6], Spawn 7 []] @ map Worker (concat rounds)) (pool_new list_deque 2)) \<noteq> None}"
proof -
  let ?s = "\<lambda>rounds. run_pool list_deque ([Spawn 2 [6], Spawn 7 []] @ map Worker (concat rounds)) (pool_new list_deque 2)"
  obtain N where N: "\<forall>rounds. N \<le> length rounds \<longrightarrow> (\<forall>r\<in>set rounds. set r = {0..<max 2 1}) \<longrightarrow>
    (let s = ?s rounds in \<forall>t k. tasks s t = Some k \<longrightarrow> join_poll t s = Some (Some (task_value (fn_id k) (task_args k))))"
    using tasks_complete [OF list_deque_ok, of "[Spawn 2 [6], Spawn 7 []]" 2] by (auto simp only: plain_action_def) auto
  have "\<forall>r\<in>set (replicate N [0, 1 :: nat]). set r = {0..<max 2 1}" by auto
  then have "\<forall>t k. tasks (?s (replicate N [0, 1])) t = Some k \<longrightarrow> join_poll t (?s (replicate N [0, 1])) \<noteq> None"
    using spec [OF N, of "replicate N [0, 1]"] by (simp only: Let_def length_replicate) blast
  then show ?thesis by (intro exI [of _ "replicate N [0, 1]"]) blast
qed

end
