(* ===== verification/Verify.thy ===== *)
theory Verify
  imports Cfg_Search Opt_Props
begin

text \<open>
  The verifier of the intermediate representation, \<^verbatim>\<open>src/compiler/ir/verify.rs\<close>, and its agreement
  with a declarative notion of a well-formed function. An error keeps the numbers its message
  prints; the order of the errors is that of the source.
\<close>

section \<open>The checks\<close>

datatype (plugins only: code size) verify_error =
    Out_Of_Range nat string nat nat
  | Duplicate_Case nat i64
  | Void_Result nat
  | Missing_Result nat
  | Phi_After_Other nat
  | Phi_Count nat nat nat
  | Phi_Set nat "nat list" "nat list"
  | Phi_Order nat nat nat nat
  | Critical_Edge nat nat

definition check_block_in_range :: "nat \<Rightarrow> block_id \<Rightarrow> nat \<Rightarrow> string \<Rightarrow> verify_error list" where
  "check_block_in_range cur bb n what = (if unat bb \<ge> n then [Out_Of_Range cur what (unat bb) n] else [])"

fun switch_errors :: "nat \<Rightarrow> nat \<Rightarrow> i64 list \<Rightarrow> (i64 \<times> block_id) list \<Rightarrow> verify_error list" where
  "switch_errors i n seen [] = []"
| "switch_errors i n seen ((v, bb) # cases) =
     check_block_in_range i bb n ''switch case'' @
     (if v \<in> set seen then [Duplicate_Case i v] else []) @ switch_errors i n (v # seen) cases"

definition term_errors :: "nat \<Rightarrow> nat \<Rightarrow> terminator \<Rightarrow> verify_error list" where
  "term_errors n i t =
     (case t of
        TBr bb \<Rightarrow> check_block_in_range i bb n ''br target''
      | TCondBr c then_bb else_bb \<Rightarrow>
          check_block_in_range i then_bb n ''condbr then'' @ check_block_in_range i else_bb n ''condbr else''
      | TSwitch scrut dflt cases \<Rightarrow>
          check_block_in_range i dflt n ''switch default'' @ switch_errors i n [] cases
      | TInvoke callee args ret res normal unwind \<Rightarrow>
          check_block_in_range i normal n ''invoke normal'' @
          check_block_in_range i unwind n ''invoke unwind'' @
          (if ret = Ty_Void then (if res \<noteq> None then [Void_Result i] else [])
           else if res = None then [Missing_Result i] else [])
      | _ \<Rightarrow> [])"

text \<open>The first operand that is not from the predecessor at its place.\<close>

fun phi_order :: "nat \<Rightarrow> nat \<Rightarrow> nat list \<Rightarrow> nat list \<Rightarrow> verify_error list" where
  "phi_order i k (p # ps) (q # qs) = (if p \<noteq> q then [Phi_Order i k p q] else phi_order i (Suc k) ps qs)"
| "phi_order i k _ _ = []"

definition phi_errors :: "nat \<Rightarrow> nat list \<Rightarrow> (block_id \<times> ir_value) list \<Rightarrow> verify_error list" where
  "phi_errors i prs ops =
     (let srcs = map (\<lambda>(bb, _). unat bb) ops
      in (if length ops \<noteq> length prs then [Phi_Count i (length ops) (length prs)] else []) @
         (if set srcs \<noteq> set prs then [Phi_Set i srcs prs] else []) @ phi_order i 0 srcs prs)"

fun inst_errors :: "nat \<Rightarrow> nat list \<Rightarrow> bool \<Rightarrow> inst list \<Rightarrow> verify_error list" where
  "inst_errors i prs seen_non_phi [] = []"
| "inst_errors i prs seen_non_phi (x # xs) =
     (case kind x of
        IPhi ops \<Rightarrow>
          (if seen_non_phi then [Phi_After_Other i] else []) @ phi_errors i prs ops @
          inst_errors i prs seen_non_phi xs
      | _ \<Rightarrow> inst_errors i prs True xs)"

definition edge_errors :: "cfg \<Rightarrow> nat \<Rightarrow> verify_error list" where
  "edge_errors c s =
     (if length (succs c ! s) > 1
      then concat (map (\<lambda>t. if length (preds c ! t) > 1 then [Critical_Edge s t] else []) (succs c ! s))
      else [])"

text \<open>The errors of a function; \<open>[]\<close> is \<^verbatim>\<open>Ok(())\<close>.\<close>

definition verify_func :: "func \<Rightarrow> verify_error list" where
  "verify_func f =
     (let n = length (blocks f); c = build f
      in concat (map (\<lambda>(i, b). term_errors n i (block_term b)) (enumerate 0 (blocks f))) @
         concat (map (\<lambda>(i, b). inst_errors i (preds c ! i) False (insts b)) (enumerate 0 (blocks f))) @
         concat (map (edge_errors c) [0..<n]))"

section \<open>Well-formed functions\<close>

definition wf_term :: "nat \<Rightarrow> terminator \<Rightarrow> bool" where
  "wf_term n t \<longleftrightarrow>
     (\<forall>bb\<in>set (term_targets t). unat bb < n) \<and>
     (case t of
        TSwitch scrut dflt cases \<Rightarrow> distinct (map fst cases)
      | TInvoke callee args ret res normal unwind \<Rightarrow> (res = None) = (ret = Ty_Void)
      | _ \<Rightarrow> True)"

text \<open>Phis come first, and each has one operand per incoming edge, in the order of the edges.\<close>

definition wf_insts :: "nat list \<Rightarrow> inst list \<Rightarrow> bool" where
  "wf_insts prs xs \<longleftrightarrow>
     (\<exists>phis rest. xs = phis @ rest \<and> (\<forall>x\<in>set rest. \<not> is_phi x) \<and>
        (\<forall>x\<in>set phis. \<exists>ops. kind x = IPhi ops \<and> map (\<lambda>(bb, _). unat bb) ops = prs))"

definition well_formed :: "func \<Rightarrow> bool" where
  "well_formed f \<longleftrightarrow>
     (\<forall>i<length (blocks f). wf_term (length (blocks f)) (block_term (blocks f ! i)) \<and>
        wf_insts (preds (build f) ! i) (insts (blocks f ! i))) \<and>
     (\<forall>s<length (blocks f). \<forall>t\<in>set (succs (build f) ! s).
        length (succs (build f) ! s) = 1 \<or> length (preds (build f) ! t) \<le> 1)"

section \<open>The checks decide it\<close>

lemma check_range_iff [simp]: "check_block_in_range i bb n what = [] \<longleftrightarrow> unat bb < n"
  by (auto simp: check_block_in_range_def)

lemma switch_errors_iff:
  "switch_errors i n seen cases = [] \<longleftrightarrow>
     (\<forall>bb\<in>set (map snd cases). unat bb < n) \<and> distinct (map fst cases) \<and> set (map fst cases) \<inter> set seen = {}"
  by (induction i n seen cases rule: switch_errors.induct) auto

lemma term_errors_iff: "term_errors n i t = [] \<longleftrightarrow> wf_term n t"
  by (cases t) (auto simp: term_errors_def wf_term_def term_targets_def switch_errors_iff)

lemma phi_order_iff: "length ps = length qs \<Longrightarrow> phi_order i k ps qs = [] \<longleftrightarrow> ps = qs"
  by (induction i k ps qs rule: phi_order.induct) auto

lemma phi_errors_iff: "phi_errors i prs ops = [] \<longleftrightarrow> map (\<lambda>(bb, _). unat bb) ops = prs"
proof
  assume none: "phi_errors i prs ops = []"
  then have "length (map (\<lambda>(bb, _). unat bb) ops) = length prs"
    by (simp add: phi_errors_def Let_def split: if_splits)
  then show "map (\<lambda>(bb, _). unat bb) ops = prs"
    using none phi_order_iff [of "map (\<lambda>(bb, _). unat bb) ops" prs i 0]
    by (simp add: phi_errors_def Let_def split: if_splits)
next
  assume eq: "map (\<lambda>(bb, _). unat bb) ops = prs"
  then have "length ops = length prs" by auto
  then show "phi_errors i prs ops = []"
    using eq phi_order_iff [of prs prs i 0] by (simp add: phi_errors_def Let_def)
qed

lemma inst_errors_True: "inst_errors i prs True xs = [] \<longleftrightarrow> (\<forall>x\<in>set xs. \<not> is_phi x)"
  by (induction xs) (auto simp: is_phi_def split: inst_kind.splits)

lemma inst_errors_iff: "inst_errors i prs False xs = [] \<longleftrightarrow> wf_insts prs xs"
proof (induction xs)
  case Nil
  then show ?case by (auto simp: wf_insts_def)
next
  case (Cons x xs)
  show ?case
  proof (cases "is_phi x")
    case True
    then obtain ops where ops: "kind x = IPhi ops" by (auto simp: is_phi_iff)
    have "wf_insts prs (x # xs) \<longleftrightarrow> map (\<lambda>(bb, _). unat bb) ops = prs \<and> wf_insts prs xs"
    proof
      assume "wf_insts prs (x # xs)"
      then obtain phis rest where s: "x # xs = phis @ rest" "\<forall>x\<in>set rest. \<not> is_phi x"
        "\<forall>x\<in>set phis. \<exists>ops. kind x = IPhi ops \<and> map (\<lambda>(bb, _). unat bb) ops = prs"
        unfolding wf_insts_def by blast
      then obtain phis' where "phis = x # phis'" "xs = phis' @ rest" using True by (cases phis) auto
      then show "map (\<lambda>(bb, _). unat bb) ops = prs \<and> wf_insts prs xs"
        using s ops unfolding wf_insts_def by auto
    next
      assume "map (\<lambda>(bb, _). unat bb) ops = prs \<and> wf_insts prs xs"
      then obtain phis rest where s: "map (\<lambda>(bb, _). unat bb) ops = prs" "xs = phis @ rest" "\<forall>x\<in>set rest. \<not> is_phi x"
        "\<forall>x\<in>set phis. \<exists>ops. kind x = IPhi ops \<and> map (\<lambda>(bb, _). unat bb) ops = prs"
        unfolding wf_insts_def by blast
      then show "wf_insts prs (x # xs)"
        unfolding wf_insts_def using ops by (intro exI [of _ "x # phis"] exI [of _ rest]) auto
    qed
    then show ?thesis using ops Cons by (simp add: phi_errors_iff)
  next
    case False
    then have "inst_errors i prs False (x # xs) = inst_errors i prs True xs"
      by (auto simp: is_phi_iff split: inst_kind.split)
    moreover have "wf_insts prs (x # xs) \<longleftrightarrow> (\<forall>x\<in>set xs. \<not> is_phi x)"
    proof
      assume "wf_insts prs (x # xs)"
      then obtain phis rest where s: "x # xs = phis @ rest" "\<forall>x\<in>set rest. \<not> is_phi x"
        "\<forall>x\<in>set phis. \<exists>ops. kind x = IPhi ops \<and> map (\<lambda>(bb, _). unat bb) ops = prs"
        unfolding wf_insts_def by blast
      then have "phis = []" using False by (cases phis) (auto simp: is_phi_iff)
      then show "\<forall>x\<in>set xs. \<not> is_phi x" using s by auto
    next
      assume "\<forall>x\<in>set xs. \<not> is_phi x"
      then show "wf_insts prs (x # xs)"
        unfolding wf_insts_def using False by (intro exI [of _ "[]"] exI [of _ "x # xs"]) auto
    qed
    ultimately show ?thesis by (simp add: inst_errors_True)
  qed
qed

lemma enumerate_all: "(\<forall>p\<in>set (enumerate 0 xs). P (fst p) (snd p)) \<longleftrightarrow> (\<forall>i<length xs. P i (xs ! i))"
proof -
  have "set (enumerate 0 xs) = (\<lambda>i. (i, xs ! i)) ` {..<length xs}"
    by (force simp: enumerate_eq_zip set_zip)
  then show ?thesis by auto
qed

lemma edge_errors_iff:
  "edge_errors c s = [] \<longleftrightarrow>
     (\<forall>t\<in>set (succs c ! s). length (succs c ! s) = 1 \<or> length (preds c ! t) \<le> 1)"
proof (cases "length (succs c ! s) > 1")
  case True
  have "(concat (map (\<lambda>t. if length (preds c ! t) > 1 then [Critical_Edge s t] else []) ts) = []) =
      (\<forall>t\<in>set ts. length (preds c ! t) \<le> 1)" for ts
    by (induction ts) auto
  then show ?thesis using True by (simp add: edge_errors_def)
next
  case False
  then have "length (succs c ! s) = 1" if "t \<in> set (succs c ! s)" for t
    using length_pos_if_in_set [OF that] by linarith
  then show ?thesis using False by (simp add: edge_errors_def)
qed

lemma verifier_accepts_iff: "verify_func f = [] \<longleftrightarrow> well_formed f"
proof -
  have terms: "(\<forall>p\<in>set (enumerate 0 (blocks f)). term_errors (length (blocks f)) (fst p) (block_term (snd p)) = []) \<longleftrightarrow>
      (\<forall>i<length (blocks f). wf_term (length (blocks f)) (block_term (blocks f ! i)))"
    using enumerate_all [of "blocks f" "\<lambda>i b. term_errors (length (blocks f)) i (block_term b) = []"]
    by (simp add: term_errors_iff)
  have insts: "(\<forall>p\<in>set (enumerate 0 (blocks f)). inst_errors (fst p) (preds (build f) ! fst p) False (insts (snd p)) = []) \<longleftrightarrow>
      (\<forall>i<length (blocks f). wf_insts (preds (build f) ! i) (insts (blocks f ! i)))"
    using enumerate_all [of "blocks f" "\<lambda>i b. inst_errors i (preds (build f) ! i) False (insts b) = []"]
    by (simp add: inst_errors_iff)
  show ?thesis
    using terms insts
    by (auto simp: verify_func_def well_formed_def Let_def split_beta edge_errors_iff)
qed

text \<open>
  C6: the verifier accepts exactly the well-formed functions: targets exist, cases are distinct, an
  invocation has a result exactly when it returns one, phis lead their blocks with one operand per
  incoming edge in the order of the edges, and no edge from a branching block enters a join.
\<close>

theorem verifier_accepts: "verify_func f = [] \<longleftrightarrow> well_formed f"
  by (rule verifier_accepts_iff)

section \<open>The optimiser keeps functions well-formed\<close>

lemma build_terms:
  assumes "list_all2 (\<lambda>b b'. block_term b' = block_term b) (blocks f) (blocks f')"
  shows "build f' = build f"
proof -
  have "map block_term (blocks f') = map block_term (blocks f)"
    using assms by (induction rule: list_all2_induct) auto
  moreover have "build_succs g = map (\<lambda>t. List.map_filter (\<lambda>bb. block_index bb (length (blocks g))) (term_targets t))
      (map block_term (blocks g))" for g by (simp add: build_succs_def)
  moreover have "length (blocks f') = length (blocks f)" using assms by (simp add: list_all2_lengthD)
  ultimately have "build_succs f' = build_succs f" by metis
  then show ?thesis by (simp add: build_def)
qed

lemma well_formed_blocks:
  assumes wf: "well_formed f"
    and b: "list_all2 (\<lambda>b b'. block_term b' = block_term b \<and> (\<forall>prs. wf_insts prs (insts b) \<longrightarrow> wf_insts prs (insts b')))
      (blocks f) (blocks f')"
  shows "well_formed f'"
proof -
  have "build f' = build f" by (rule build_terms) (use b in \<open>auto elim: list_all2_mono\<close>)
  then show ?thesis
    using wf b by (auto simp: well_formed_def list_all2_conv_all_nth)
qed

lemma wf_insts_simps:
  "wf_insts prs []"
  "kind x = IPhi ops \<Longrightarrow> wf_insts prs (x # xs) \<longleftrightarrow> map (\<lambda>(bb, _). unat bb) ops = prs \<and> wf_insts prs xs"
  "\<not> is_phi x \<Longrightarrow> wf_insts prs (x # xs) \<longleftrightarrow> (\<forall>y\<in>set xs. \<not> is_phi y)"
proof -
  show "wf_insts prs []" by (simp add: wf_insts_def)
  show "wf_insts prs (x # xs) \<longleftrightarrow> map (\<lambda>(bb, _). unat bb) ops = prs \<and> wf_insts prs xs" if "kind x = IPhi ops"
    using inst_errors_iff [of 0 prs "x # xs"] inst_errors_iff [of 0 prs xs] that by (simp add: phi_errors_iff)
  have "inst_errors 0 prs False (x # xs) = inst_errors 0 prs True xs" if "\<not> is_phi x"
    using that by (auto simp: is_phi_iff split: inst_kind.split)
  then show "wf_insts prs (x # xs) \<longleftrightarrow> (\<forall>y\<in>set xs. \<not> is_phi y)" if "\<not> is_phi x"
    using inst_errors_iff [of 0 prs "x # xs"] that by (simp add: inst_errors_True)
qed

lemma no_phis_wf: "\<forall>y\<in>set xs. \<not> is_phi y \<Longrightarrow> wf_insts prs xs"
  by (cases xs) (auto simp: wf_insts_simps)

lemma prunes_set: "prunes D xs ys \<Longrightarrow> set ys \<subseteq> set xs"
  by (induction rule: prunes.induct) auto

lemma prunes_wf: "prunes D xs ys \<Longrightarrow> wf_insts prs xs \<Longrightarrow> wf_insts prs ys"
proof (induction rule: prunes.induct)
  case (prunes_keep xs js i)
  show ?case
  proof (cases "is_phi i")
    case True
    then show ?thesis using prunes_keep by (auto simp: is_phi_iff wf_insts_simps)
  next
    case False
    then show ?thesis using prunes_keep prunes_set by (fastforce simp: wf_insts_simps)
  qed
next
  case (prunes_drop xs js i)
  have "wf_insts prs xs"
  proof (cases "is_phi i")
    case True
    then show ?thesis using prunes_drop by (auto simp: is_phi_iff wf_insts_simps)
  next
    case False
    then show ?thesis using prunes_drop by (simp add: wf_insts_simps no_phis_wf)
  qed
  then show ?case by (rule prunes_drop.IH)
qed (simp add: wf_insts_simps)

lemma dce_well_formed: "well_formed f \<Longrightarrow> well_formed (fst (dce f))"
proof -
  assume wf: "well_formed f"
  obtain D where "list_all2 (pruned_block D) (blocks f) (blocks (fst (dce f)))" by (rule dce_correct)
  then have "list_all2 (\<lambda>b b'. block_term b' = block_term b \<and> (\<forall>prs. wf_insts prs (insts b) \<longrightarrow> wf_insts prs (insts b')))
      (blocks f) (blocks (fst (dce f)))"
    by (rule list_all2_mono) (auto simp: pruned_block_def prunes_wf)
  then show ?thesis by (rule well_formed_blocks [OF wf])
qed

text \<open>Folding starts each block without constants, so leading phis stay as they are.\<close>

lemma fold_insts_no_phis:
  "fold_insts cs xs = Some (ys, chg) \<Longrightarrow> \<forall>x\<in>set xs. \<not> is_phi x \<Longrightarrow> \<forall>y\<in>set ys. \<not> is_phi y"
proof (induction xs arbitrary: cs ys chg)
  case (Cons x xs)
  from Cons.prems(1) show ?case
    by (cases rule: fold_insts_cases) (use Cons in \<open>auto simp: is_phi_iff\<close>)
qed simp

lemma fold_insts_wf:
  "fold_insts Map.empty xs = Some (ys, chg) \<Longrightarrow> wf_insts prs xs \<Longrightarrow> wf_insts prs ys"
proof (induction xs arbitrary: ys chg)
  case (Cons x xs)
  show ?case
  proof (cases "is_phi x")
    case True
    then obtain ops where ops: "kind x = IPhi ops" by (auto simp: is_phi_iff)
    then have "folded Map.empty (kind x) = Some None"
      by (auto simp: folded_def fold_phi_def split: list.split)
    then obtain zs chg' where z: "fold_insts Map.empty xs = Some (zs, chg')" "ys = x # zs"
      using Cons.prems(1) ops by auto
    then show ?thesis using Cons.IH Cons.prems(2) ops by (simp add: wf_insts_simps)
  next
    case False
    then have "\<forall>y\<in>set (x # xs). \<not> is_phi y" using Cons.prems(2) by (simp add: wf_insts_simps)
    then show ?thesis using fold_insts_no_phis [OF Cons.prems(1)] no_phis_wf by blast
  qed
qed simp

lemma fold_blocks_wf:
  "fold_blocks bs = Some (bs', chg) \<Longrightarrow>
   list_all2 (\<lambda>b b'. block_term b' = block_term b \<and> (\<forall>prs. wf_insts prs (insts b) \<longrightarrow> wf_insts prs (insts b'))) bs bs'"
proof (induction bs arbitrary: bs' chg)
  case (Cons b bs)
  then show ?case by (auto simp: bind_eq_Some_conv intro: fold_insts_wf)
qed simp

lemma const_fold_well_formed: "well_formed f \<Longrightarrow> const_fold f = Some (f', chg) \<Longrightarrow> well_formed f'"
  by (rule well_formed_blocks) (auto simp: const_fold_def intro: fold_blocks_wf)

lemma opt_round_well_formed: "well_formed f \<Longrightarrow> opt_round f = Some (f', chg) \<Longrightarrow> well_formed f'"
  using const_fold_well_formed dce_well_formed
  by (fastforce simp: opt_round_def bind_eq_Some_conv Let_def split_beta)

text \<open>
  C10: the optimiser keeps what the verifier checks: a verified function that it optimises, in one
  round or two, is accepted again.
\<close>

theorem optimised_verifies:
  assumes "verify_func f = []" and "run_simple_opts f = Some f'"
  shows "verify_func f' = []"
proof -
  obtain f1 chg where f1: "opt_round f = Some (f1, chg)" "f' = f1 \<or> (\<exists>chg'. opt_round f1 = Some (f', chg'))"
    using assms(2) by (auto simp: run_simple_opts_def bind_eq_Some_conv split: if_splits)
  have "well_formed f" using assms(1) verifier_accepts_iff by simp
  then have "well_formed f1" using f1(1) opt_round_well_formed by blast
  then show ?thesis using f1(2) opt_round_well_formed verifier_accepts_iff by blast
qed

lemma build_branch: "succs (build branch_func) = [[1, 2], [], []]" "preds (build branch_func) = [[], [0], [0]]"
  by code_simp+

lemma branch_verifies: "verify_func branch_func = []"
  unfolding verify_func_def Let_def build_branch edge_errors_def
  by (simp add: branch_func_def entry_only_def term_errors_def check_block_in_range_def build_branch)

lemma optimised_verifies_witness: "verify_func folded_func = []"
  using optimised_verifies [OF branch_verifies opt_branch] .

end
