(* ===== verification/Encoding.thy ===== *)
theory Encoding
  imports Prelude
begin

text \<open>
  The text encodings of the native runtime, \<^verbatim>\<open>crates/arth-rt/src/encoding.rs\<close>: Base64, its URL-safe
  variant and hexadecimal. The functions have a C interface: a pointer that may be null is an
  option, the bytes it points to are a list as long as the length passed with it, and a result is
  the returned code with the output buffer as the call leaves it, partial writes included. Indices
  into the encoding tables are computed on \<^verbatim>\<open>usize\<close> in the source; none exceeds a byte.
\<close>

section \<open>Tables\<close>

definition BASE64_ENCODE_TABLE :: "u8 list" where
  "BASE64_ENCODE_TABLE = bytes_of ''ABCDEFGHIJKLMNOPQRSTUVWXYZabcdefghijklmnopqrstuvwxyz0123456789+/''"

definition BASE64URL_ENCODE_TABLE :: "u8 list" where
  "BASE64URL_ENCODE_TABLE = bytes_of ''ABCDEFGHIJKLMNOPQRSTUVWXYZabcdefghijklmnopqrstuvwxyz0123456789-_''"

text \<open>255 marks a byte that is not in the alphabet, 64 the padding \<^verbatim>\<open>=\<close>.\<close>

definition decode_table :: "u8 list \<Rightarrow> u8 \<Rightarrow> u8" where
  "decode_table enc = (fold (\<lambda>i t. t(enc ! i := of_nat i)) [0..<64] (\<lambda>_. 255))(0x3D := 64)"

definition HEX_LOWER :: "u8 list" where
  "HEX_LOWER = bytes_of ''0123456789abcdef''"

text \<open>\<open>None\<close> is the entry \<^verbatim>\<open>-1\<close>.\<close>

definition HEX_DECODE_TABLE :: "u8 \<Rightarrow> u8 option" where
  "HEX_DECODE_TABLE c =
     (if 0x30 \<le> c \<and> c \<le> 0x39 then Some (c - 0x30)
      else if 0x61 \<le> c \<and> c \<le> 0x66 then Some (c - 0x61 + 10)
      else if 0x41 \<le> c \<and> c \<le> 0x46 then Some (c - 0x41 + 10)
      else None)"

section \<open>Base64\<close>

definition arth_rt_base64_encode_len :: "usize \<Rightarrow> usize" where
  "arth_rt_base64_encode_len n = (if n = 0 then 0 else (n + 2) div 3 * 4)"

definition arth_rt_base64_decode_len :: "usize \<Rightarrow> usize" where
  "arth_rt_base64_decode_len n = (if n = 0 then 0 else n div 4 * 3)"

definition sextet :: "u8 list \<Rightarrow> u8 \<Rightarrow> u8" where
  "sextet enc v = enc ! unat v"

text \<open>The output for the bytes left; \<open>pad\<close> adds the padding of the standard variant.\<close>

fun encode_groups :: "u8 list \<Rightarrow> bool \<Rightarrow> u8 list \<Rightarrow> u8 list" where
  "encode_groups enc pad (b0 # b1 # b2 # bs) =
     [sextet enc (drop_bit 2 b0), sextet enc (push_bit 4 (b0 AND 0x03) OR drop_bit 4 b1),
      sextet enc (push_bit 2 (b1 AND 0x0F) OR drop_bit 6 b2), sextet enc (b2 AND 0x3F)] @
     encode_groups enc pad bs"
| "encode_groups enc pad [b0, b1] =
     [sextet enc (drop_bit 2 b0), sextet enc (push_bit 4 (b0 AND 0x03) OR drop_bit 4 b1),
      sextet enc (push_bit 2 (b1 AND 0x0F))] @ (if pad then [0x3D] else [])"
| "encode_groups enc pad [b0] =
     [sextet enc (drop_bit 2 b0), sextet enc (push_bit 4 (b0 AND 0x03))] @ (if pad then [0x3D, 0x3D] else [])"
| "encode_groups enc pad [] = []"

definition write_over :: "u8 list \<Rightarrow> u8 list \<Rightarrow> u8 list" where
  "write_over out bs = bs @ drop (length bs) out"

definition arth_rt_base64_encode :: "u8 list option \<Rightarrow> u8 list option \<Rightarrow> int \<times> u8 list option" where
  "arth_rt_base64_encode input output =
     (case (input, output) of
        (Some bs, Some out) \<Rightarrow>
          if bs = [] then (0, output)
          else if length out < arth_rt_base64_encode_len (length bs) then (- 1, output)
          else
            let res = encode_groups BASE64_ENCODE_TABLE True bs
            in (int (length res), Some (write_over out res))
      | _ \<Rightarrow> (- 2, output))"

text \<open>The bytes produced before the end or the first invalid group, and whether all were valid.\<close>

fun decode_groups :: "u8 list \<Rightarrow> u8 list \<times> bool" where
  "decode_groups (x0 # x1 # x2 # x3 # xs) =
     (let dec = decode_table BASE64_ENCODE_TABLE;
          c0 = dec x0; c1 = dec x1; c2 = dec x2; c3 = dec x3
      in if c0 = 255 \<or> c1 = 255 \<or> c2 = 255 \<and> c2 \<noteq> 64 \<or> c3 = 255 \<and> c3 \<noteq> 64 then ([], False)
         else
           let (rest, ok) = decode_groups xs;
               first = push_bit 2 c0 OR drop_bit 4 c1;
               second = push_bit 4 (c1 AND 0x0F) OR drop_bit 2 c2;
               third = push_bit 6 (c2 AND 0x03) OR c3
           in ((if c2 = 64 then [first] else if c3 = 64 then [first, second] else [first, second, third]) @ rest, ok))"
| "decode_groups _ = ([], True)"

definition arth_rt_base64_decode :: "u8 list option \<Rightarrow> u8 list option \<Rightarrow> int \<times> u8 list option" where
  "arth_rt_base64_decode input output =
     (case (input, output) of
        (Some xs, Some out) \<Rightarrow>
          if xs = [] then (0, output)
          else if length xs mod 4 \<noteq> 0 then (- 3, output)
          else if length out < arth_rt_base64_decode_len (length xs) then (- 1, output)
          else
            let (res, ok) = decode_groups xs
            in (if ok then int (length res) else - 3, Some (write_over out res))
      | _ \<Rightarrow> (- 2, output))"

section \<open>Hexadecimal\<close>

definition arth_rt_hex_encode_len :: "usize \<Rightarrow> usize" where
  "arth_rt_hex_encode_len n = n * 2"

definition arth_rt_hex_decode_len :: "usize \<Rightarrow> usize" where
  "arth_rt_hex_decode_len n = n div 2"

definition hex_pair :: "u8 \<Rightarrow> u8 list" where
  "hex_pair b = [HEX_LOWER ! unat (drop_bit 4 b), HEX_LOWER ! unat (b AND 0x0F)]"

definition arth_rt_hex_encode :: "u8 list option \<Rightarrow> u8 list option \<Rightarrow> int \<times> u8 list option" where
  "arth_rt_hex_encode input output =
     (case (input, output) of
        (Some bs, Some out) \<Rightarrow>
          let needed = length bs * 2
          in if length out < needed then (- 1, output)
             else (int needed, Some (write_over out (concat (map hex_pair bs))))
      | _ \<Rightarrow> (- 2, output))"

fun hex_decode_pairs :: "u8 list \<Rightarrow> u8 list \<times> bool" where
  "hex_decode_pairs (h # l # xs) =
     (case (HEX_DECODE_TABLE h, HEX_DECODE_TABLE l) of
        (Some hi, Some lo) \<Rightarrow>
          let (rest, ok) = hex_decode_pairs xs in ((push_bit 4 hi OR lo) # rest, ok)
      | _ \<Rightarrow> ([], False))"
| "hex_decode_pairs _ = ([], True)"

definition arth_rt_hex_decode :: "u8 list option \<Rightarrow> u8 list option \<Rightarrow> int \<times> u8 list option" where
  "arth_rt_hex_decode input output =
     (case (input, output) of
        (Some xs, Some out) \<Rightarrow>
          if length xs mod 2 \<noteq> 0 then (- 4, output)
          else if length out < length xs div 2 then (- 1, output)
          else
            let (res, ok) = hex_decode_pairs xs
            in (if ok then int (length xs div 2) else - 3, Some (write_over out res))
      | _ \<Rightarrow> (- 2, output))"

section \<open>URL-safe Base64\<close>

definition arth_rt_base64url_encode :: "u8 list option \<Rightarrow> u8 list option \<Rightarrow> int \<times> u8 list option" where
  "arth_rt_base64url_encode input output =
     (case (input, output) of
        (Some bs, Some out) \<Rightarrow>
          if bs = [] then (0, output)
          else if length out < (length bs * 4 + 2) div 3 then (- 1, output)
          else
            let res = encode_groups BASE64URL_ENCODE_TABLE False bs
            in (int (length res), Some (write_over out res))
      | _ \<Rightarrow> (- 2, output))"

definition shift_in :: "u32 \<Rightarrow> u8 \<Rightarrow> u32" where
  "shift_in accum v = push_bit 6 accum OR ucast v"

text \<open>The accumulator and the number of its bits that are not yet written.\<close>

fun url_decode :: "u8 list \<Rightarrow> u32 \<Rightarrow> nat \<Rightarrow> u8 list \<times> bool" where
  "url_decode [] accum bits = ([], True)"
| "url_decode (c # cs) accum bits =
     (let v = decode_table BASE64URL_ENCODE_TABLE c
      in if v = 255 then ([], False)
         else if v = 64 then ([], True)
         else
           let accum = shift_in accum v; bits = bits + 6
           in if 8 \<le> bits then
                let (rest, ok) = url_decode cs accum (bits - 8)
                in (ucast (drop_bit (bits - 8) accum AND 0xFF) # rest, ok)
              else url_decode cs accum bits)"

definition arth_rt_base64url_decode :: "u8 list option \<Rightarrow> u8 list option \<Rightarrow> int \<times> u8 list option" where
  "arth_rt_base64url_decode input output =
     (case (input, output) of
        (Some xs, Some out) \<Rightarrow>
          let content = rev (dropWhile (\<lambda>c. c = 0x3D) (rev xs))
          in if content = [] then (0, output)
             else if length out < length content * 3 div 4 then (- 1, output)
             else
               let (res, ok) = url_decode content 0 0
               in (if ok then int (length res) else - 3, Some (write_over out res))
      | _ \<Rightarrow> (- 2, output))"

section \<open>The tables invert each other\<close>

lemma all_sextets:
  "\<forall>i\<in>set [0..<64]. decode_table BASE64_ENCODE_TABLE (BASE64_ENCODE_TABLE ! i) = of_nat i"
  "\<forall>i\<in>set [0..<64]. decode_table BASE64URL_ENCODE_TABLE (BASE64URL_ENCODE_TABLE ! i) = of_nat i"
  "\<forall>i\<in>set [0..<64]. BASE64URL_ENCODE_TABLE ! i \<noteq> 0x3D"
  by code_simp+

lemma all_hex: "\<forall>i\<in>set [0..<16]. HEX_DECODE_TABLE (HEX_LOWER ! i) = Some (of_nat i)"
  by code_simp

section \<open>Bits\<close>

lemma small_sextet:
  fixes v :: u8
  assumes "\<And>n. bit v n \<Longrightarrow> n < 6"
  shows "unat v < 64"
proof -
  have "take_bit 6 v = v" using assms by (auto simp: bit_eq_iff bit_take_bit_iff)
  then have "unat v = take_bit 6 (unat v)" by (metis unsigned_take_bit_eq)
  also have "\<dots> < 2 ^ 6" by (rule take_bit_nat_less_exp)
  finally show ?thesis by simp
qed

lemma mask_numerals: "(0x03 :: u8) = mask 2" "(0x0F :: u8) = mask 4" "(0x3F :: u8) = mask 6" "(0xFF :: u32) = mask 8"
  by (simp_all add: mask_eq_decr_exp)

lemmas byte_bits = bit_push_bit_iff bit_drop_bit_eq bit_or_iff bit_and_iff bit_mask_iff

lemma byte_bit: "bit (w :: u8) n \<Longrightarrow> n < 8"
  using bit_imp_le_length [of w n] by simp

lemma sextets_small:
  fixes b0 b1 b2 :: u8
  shows "unat (drop_bit 2 b0) < 64" "unat (push_bit 4 (b0 AND 0x03) OR drop_bit 4 b1) < 64"
    "unat (push_bit 2 (b1 AND 0x0F) OR drop_bit 6 b2) < 64" "unat (b2 AND 0x3F) < 64"
    "unat (push_bit 4 (b0 AND 0x03)) < 64" "unat (push_bit 2 (b1 AND 0x0F)) < 64"
  by (rule small_sextet, auto simp: mask_numerals byte_bits dest!: byte_bit)+

lemma byte_eqI:
  fixes v w :: u8
  assumes "bit v 0 = bit w 0" "bit v 1 = bit w 1" "bit v 2 = bit w 2" "bit v 3 = bit w 3"
    "bit v 4 = bit w 4" "bit v 5 = bit w 5" "bit v 6 = bit w 6" "bit v 7 = bit w 7"
  shows "v = w"
proof (rule bit_word_eqI)
  fix n assume "n < LENGTH(8)"
  then have "n \<in> {0, 1, 2, 3, 4, 5, 6, 7}" by auto
  then show "bit v n = bit w n" using assms by auto
qed

lemma bytes_back:
  fixes b0 b1 b2 x :: u8
  shows "push_bit 2 (drop_bit 2 b0) OR drop_bit 4 (push_bit 4 (b0 AND 0x03) OR drop_bit 4 b1) = b0"
    "push_bit 4 ((push_bit 4 (b0 AND 0x03) OR drop_bit 4 b1) AND 0x0F) OR drop_bit 2 (push_bit 2 (b1 AND 0x0F) OR drop_bit 6 b2) = b1"
    "push_bit 6 ((push_bit 2 (b1 AND 0x0F) OR drop_bit 6 b2) AND 0x03) OR (b2 AND 0x3F) = b2"
    "push_bit 2 (drop_bit 2 b0) OR drop_bit 4 (push_bit 4 (b0 AND 0x03)) = b0"
    "push_bit 4 ((push_bit 4 (b0 AND 0x03) OR drop_bit 4 b1) AND 0x0F) OR drop_bit 2 (push_bit 2 (b1 AND 0x0F)) = b1"
  by (rule byte_eqI; simp add: mask_numerals byte_bits)+

section \<open>Round trips\<close>

lemma decode_sextet:
  assumes "unat v < 64"
  shows "decode_table BASE64_ENCODE_TABLE (sextet BASE64_ENCODE_TABLE v) = v"
    "decode_table BASE64URL_ENCODE_TABLE (sextet BASE64URL_ENCODE_TABLE v) = v"
    "v \<noteq> 255" "v \<noteq> 64" "sextet BASE64URL_ENCODE_TABLE v \<noteq> 0x3D"
  using all_sextets assms by (auto simp: sextet_def)

lemma decode_padding: "decode_table BASE64_ENCODE_TABLE 0x3D = 64"
  by (simp add: decode_table_def)

text \<open>A group of four characters, whole or padded, and a whole group of the URL-safe variant.\<close>

lemma decode_whole:
  assumes "unat v0 < 64" "unat v1 < 64" "unat v2 < 64" "unat v3 < 64" "decode_groups xs = (rest, ok)"
  shows "decode_groups (map (sextet BASE64_ENCODE_TABLE) [v0, v1, v2, v3] @ xs) =
    ((push_bit 2 v0 OR drop_bit 4 v1) # (push_bit 4 (v1 AND 0x0F) OR drop_bit 2 v2) #
      (push_bit 6 (v2 AND 0x03) OR v3) # rest, ok)"
  using assms by (simp add: decode_sextet Let_def)

lemma decode_padded:
  assumes "unat v0 < 64" "unat v1 < 64" "unat v2 < 64"
  shows "decode_groups (map (sextet BASE64_ENCODE_TABLE) [v0, v1, v2] @ [0x3D]) =
      ([push_bit 2 v0 OR drop_bit 4 v1, push_bit 4 (v1 AND 0x0F) OR drop_bit 2 v2], True)"
    "decode_groups (map (sextet BASE64_ENCODE_TABLE) [v0, v1] @ [0x3D, 0x3D]) =
      ([push_bit 2 v0 OR drop_bit 4 v1], True)"
  using assms by (simp_all add: decode_sextet decode_padding Let_def)

lemma encode_groups_sextets:
  "encode_groups enc pad (b0 # b1 # b2 # bs) =
     map (sextet enc) [drop_bit 2 b0, push_bit 4 (b0 AND 0x03) OR drop_bit 4 b1,
       push_bit 2 (b1 AND 0x0F) OR drop_bit 6 b2, b2 AND 0x3F] @ encode_groups enc pad bs"
  "encode_groups enc pad [b0, b1] =
     map (sextet enc) [drop_bit 2 b0, push_bit 4 (b0 AND 0x03) OR drop_bit 4 b1, push_bit 2 (b1 AND 0x0F)] @
     (if pad then [0x3D] else [])"
  "encode_groups enc pad [b0] =
     map (sextet enc) [drop_bit 2 b0, push_bit 4 (b0 AND 0x03)] @ (if pad then [0x3D, 0x3D] else [])"
  by (simp_all only: encode_groups.simps list.map append.simps)

lemma decode_encode_groups: "decode_groups (encode_groups BASE64_ENCODE_TABLE True bs) = (bs, True)"
proof (induction BASE64_ENCODE_TABLE True bs rule: encode_groups.induct)
  case (1 b0 b1 b2 bs)
  show ?case unfolding encode_groups_sextets decode_whole [OF sextets_small(1-4) 1] bytes_back ..
next
  case (2 b0 b1)
  show ?case unfolding encode_groups_sextets if_True decode_padded(1) [OF sextets_small(1,2,6)] bytes_back ..
next
  case (3 b0)
  show ?case unfolding encode_groups_sextets if_True decode_padded(2) [OF sextets_small(1,5,5)] bytes_back ..
qed simp

lemma length_encode_groups:
  "length (encode_groups enc True bs) = arth_rt_base64_encode_len (length bs)"
  "length (encode_groups enc False bs) = (length bs * 4 + 2) div 3"
proof -
  have step: "(Suc (Suc (Suc m)) + 2) div 3 = Suc ((m + 2) div 3)"
    "(Suc (Suc (Suc m)) * 4 + 2) div 3 = Suc (Suc (Suc (Suc ((m * 4 + 2) div 3))))" for m :: nat
    by presburger+
  have "length (encode_groups enc True bs) = (length bs + 2) div 3 * 4"
  proof (induction enc True bs rule: encode_groups.induct)
    case (1 enc b0 b1 b2 bs)
    have three: "length (b0 # b1 # b2 # bs) = Suc (Suc (Suc (length bs)))" by simp
    show ?case unfolding three step(1) using 1 by simp
  qed simp_all
  then show "length (encode_groups enc True bs) = arth_rt_base64_encode_len (length bs)"
    by (simp add: arth_rt_base64_encode_len_def)
  show "length (encode_groups enc False bs) = (length bs * 4 + 2) div 3"
  proof (induction enc False bs rule: encode_groups.induct)
    case (1 enc b0 b1 b2 bs)
    have three: "length (b0 # b1 # b2 # bs) = Suc (Suc (Suc (length bs)))" by simp
    show ?case unfolding three step(2) using 1 by simp
  qed simp_all
qed

text \<open>
  C20: encoding bytes in Base64 and decoding the text gives the bytes back, for every input and every
  pair of buffers at least as long as the length functions announce.
\<close>

theorem base64_roundtrip:
  assumes "arth_rt_base64_encode_len (length bs) \<le> length out"
    and "arth_rt_base64_encode (Some bs) (Some out) = (n, Some out')" and "txt = take (nat n) out'"
    and "arth_rt_base64_decode_len (length txt) \<le> length buf"
  shows "\<exists>buf'. arth_rt_base64_decode (Some txt) (Some buf) = (int (length bs), Some (bs @ buf'))"
proof (cases "bs = []")
  case True
  then show ?thesis using assms by (simp add: arth_rt_base64_encode_def arth_rt_base64_decode_def)
next
  case False
  let ?e = "encode_groups BASE64_ENCODE_TABLE True bs"
  have e: "txt = ?e" "length ?e mod 4 = 0" "?e \<noteq> []"
    using assms(1-3) False
    by (auto simp: arth_rt_base64_encode_def Let_def write_over_def length_encode_groups arth_rt_base64_encode_len_def
        simp flip: length_greater_0_conv)
  then show ?thesis
    using assms(4) by (simp add: arth_rt_base64_decode_def decode_encode_groups write_over_def)
qed

theorem base64_roundtrip_witness:
  "\<exists>buf'. arth_rt_base64_decode (Some (bytes_of ''TQ=='')) (Some [0, 0, 0]) = (1, Some (bytes_of ''M'' @ buf'))"
proof -
  have e: "arth_rt_base64_encode (Some (bytes_of ''M'')) (Some [0, 0, 0, 0]) = (4, Some (bytes_of ''TQ==''))"
    by code_simp
  show ?thesis
    using base64_roundtrip [OF _ e refl, of "[0, 0, 0]"]
    by (simp add: arth_rt_base64_encode_len_def arth_rt_base64_decode_len_def)
qed

lemma hex_digits_back:
  assumes "unat v < 16"
  shows "HEX_DECODE_TABLE (HEX_LOWER ! unat v) = Some v"
  using all_hex assms by auto

lemma nibbles: "unat (drop_bit 4 b) < 16" "unat (b AND 0x0F) < 16" "push_bit 4 (drop_bit 4 b) OR (b AND 0x0F) = b" for b :: u8
proof -
  have small: "unat v < 16" if "\<And>n. bit v n \<Longrightarrow> n < 4" for v :: u8
  proof -
    have "take_bit 4 v = v" using that by (auto simp: bit_eq_iff bit_take_bit_iff)
    then have "unat v = take_bit 4 (unat v)" by (metis unsigned_take_bit_eq)
    also have "\<dots> < 2 ^ 4" by (rule take_bit_nat_less_exp)
    finally show ?thesis by simp
  qed
  show "unat (drop_bit 4 b) < 16" "unat (b AND 0x0F) < 16"
    by (rule small, auto simp: mask_numerals byte_bits dest!: byte_bit)+
  show "push_bit 4 (drop_bit 4 b) OR (b AND 0x0F) = b"
    by (rule byte_eqI; simp add: mask_numerals byte_bits)
qed

lemma hex_pairs_back: "hex_decode_pairs (concat (map hex_pair bs)) = (bs, True)"
proof (induction bs)
  case (Cons b bs)
  then show ?case
    by (simp add: hex_pair_def hex_digits_back [OF nibbles(1)] hex_digits_back [OF nibbles(2)] nibbles(3))
qed simp

text \<open>
  Encoding bytes in hexadecimal and decoding the digits gives the bytes back.
\<close>

theorem hex_roundtrip:
  assumes "arth_rt_hex_encode (Some bs) (Some out) = (n, Some out')" and "0 \<le> n" and "txt = take (nat n) out'"
    and "length bs \<le> length buf"
  shows "\<exists>buf'. arth_rt_hex_decode (Some txt) (Some buf) = (int (length bs), Some (bs @ buf'))"
proof -
  have len: "length (concat (map hex_pair bs)) = length bs * 2" by (induction bs) (auto simp: hex_pair_def)
  then have "txt = concat (map hex_pair bs)"
    using assms(1-3) by (auto simp: arth_rt_hex_encode_def Let_def write_over_def split: if_splits)
  then show ?thesis
    using assms(4) len by (simp add: arth_rt_hex_decode_def hex_pairs_back write_over_def)
qed

theorem hex_roundtrip_witness:
  "\<exists>buf'. arth_rt_hex_decode (Some (bytes_of ''4d'')) (Some [0, 0]) = (1, Some (bytes_of ''M'' @ buf'))"
proof -
  have e: "arth_rt_hex_encode (Some (bytes_of ''M'')) (Some [0, 0, 0]) = (2, Some (bytes_of ''4d'' @ [0]))"
    by code_simp
  show ?thesis using hex_roundtrip [OF e _ refl, of "[0, 0]"] by simp
qed

section \<open>The URL-safe variant\<close>

lemma sextet_bits:
  fixes v :: u8
  assumes "unat v < 64"
  shows "\<not> bit v 6" "\<not> bit v 7"
proof -
  have "unat (take_bit 6 v) = unat v"
    using assms by (simp add: unsigned_take_bit_eq take_bit_nat_eq_self)
  then have "take_bit 6 v = v" by (simp add: word_unat_eq_iff)
  then have "bit v n \<Longrightarrow> n < 6" for n by (metis bit_take_bit_iff)
  then show "\<not> bit v 6" "\<not> bit v 7" by force+
qed

lemma url_bytes:
  fixes v0 v1 v2 v3 :: u8 and a :: u32
  assumes "unat v1 < 64" "unat v2 < 64" "unat v3 < 64"
  shows "ucast (drop_bit 4 (shift_in (shift_in a v0) v1) AND (0xFF :: u32)) =
      push_bit 2 v0 OR drop_bit 4 v1"
    "ucast (drop_bit 2 (shift_in (shift_in a v1) v2) AND (0xFF :: u32)) =
      push_bit 4 (v1 AND 0x0F) OR drop_bit 2 v2"
    "ucast (shift_in (shift_in a v2) v3 AND (0xFF :: u32)) =
      push_bit 6 (v2 AND 0x03) OR v3"
  using sextet_bits [OF assms(1)] sextet_bits [OF assms(2)] sextet_bits [OF assms(3)]
  by (rule_tac [!] byte_eqI) (simp_all add: shift_in_def mask_numerals byte_bits bit_ucast_iff)

text \<open>One sextet more; what the accumulator held before its last eight bits does not matter.\<close>

lemma url_step:
  assumes "unat v < 64"
  shows "url_decode (sextet BASE64URL_ENCODE_TABLE v # cs) a bits =
    (let a' = shift_in a v
     in if bits < 2 then url_decode cs a' (bits + 6)
        else apfst ((#) (ucast (drop_bit (bits - 2) a' AND 0xFF))) (url_decode cs a' (bits - 2)))"
  using assms by (auto simp: decode_sextet Let_def case_prod_beta apfst_def map_prod_def)

lemma url_whole:
  assumes "unat v0 < 64" "unat v1 < 64" "unat v2 < 64" "unat v3 < 64" "\<And>a. url_decode xs a 0 = (rest, ok)"
  shows "url_decode (map (sextet BASE64URL_ENCODE_TABLE) [v0, v1, v2, v3] @ xs) a 0 =
    ((push_bit 2 v0 OR drop_bit 4 v1) # (push_bit 4 (v1 AND 0x0F) OR drop_bit 2 v2) #
      (push_bit 6 (v2 AND 0x03) OR v3) # rest, ok)"
  using assms by (simp add: url_step url_bytes Let_def del: url_decode.simps)

lemma url_left:
  assumes "unat v0 < 64" "unat v1 < 64" "unat v2 < 64"
  shows "url_decode (map (sextet BASE64URL_ENCODE_TABLE) [v0, v1, v2]) a 0 =
      ([push_bit 2 v0 OR drop_bit 4 v1, push_bit 4 (v1 AND 0x0F) OR drop_bit 2 v2], True)"
    "url_decode (map (sextet BASE64URL_ENCODE_TABLE) [v0, v1]) a 0 = ([push_bit 2 v0 OR drop_bit 4 v1], True)"
  using assms by (simp_all add: url_step url_bytes Let_def del: url_decode.simps(2))

lemma url_decode_encode: "url_decode (encode_groups BASE64URL_ENCODE_TABLE False bs) a 0 = (bs, True)"
proof (induction BASE64URL_ENCODE_TABLE False bs arbitrary: a rule: encode_groups.induct)
  case (1 b0 b1 b2 bs)
  show ?case unfolding encode_groups_sextets url_whole [OF sextets_small(1-4) 1] bytes_back ..
next
  case (2 b0 b1)
  show ?case
    unfolding encode_groups_sextets if_False append_Nil2 url_left(1) [OF sextets_small(1,2,6)] bytes_back
    by simp
next
  case (3 b0)
  show ?case
    unfolding encode_groups_sextets if_False append_Nil2 url_left(2) [OF sextets_small(1,5,5)] bytes_back
    by simp
qed simp

lemma url_text_unpadded: "c \<in> set (encode_groups BASE64URL_ENCODE_TABLE False bs) \<Longrightarrow> c \<noteq> 0x3D"
proof (induction BASE64URL_ENCODE_TABLE False bs rule: encode_groups.induct)
  case (1 b0 b1 b2 bs)
  then show ?case
    unfolding encode_groups_sextets using decode_sextet(5) [OF sextets_small(1)] decode_sextet(5) [OF sextets_small(2)]
      decode_sextet(5) [OF sextets_small(3)] decode_sextet(5) [OF sextets_small(4)] by auto
next
  case (2 b0 b1)
  then show ?case
    unfolding encode_groups_sextets using decode_sextet(5) [OF sextets_small(1)] decode_sextet(5) [OF sextets_small(2)]
      decode_sextet(5) [OF sextets_small(6)] by auto
next
  case (3 b0)
  then show ?case
    unfolding encode_groups_sextets using decode_sextet(5) [OF sextets_small(1)] decode_sextet(5) [OF sextets_small(5)]
    by auto
qed simp

lemma dropWhile_none: "(\<And>x. x \<in> set xs \<Longrightarrow> \<not> P x) \<Longrightarrow> rev (dropWhile P (rev xs)) = xs"
  by (cases xs rule: rev_cases) auto

text \<open>
  C21: encoding bytes in the URL-safe variant and decoding the text, which has no padding, gives the
  bytes back.
\<close>

theorem base64url_roundtrip:
  assumes "arth_rt_base64url_encode (Some bs) (Some out) = (n, Some out')" and "0 \<le> n"
    and "txt = take (nat n) out'" and "length txt * 3 div 4 \<le> length buf"
  shows "\<exists>buf'. arth_rt_base64url_decode (Some txt) (Some buf) = (int (length bs), Some (bs @ buf'))"
proof (cases "bs = []")
  case True
  then show ?thesis using assms by (simp add: arth_rt_base64url_encode_def arth_rt_base64url_decode_def)
next
  case False
  let ?e = "encode_groups BASE64URL_ENCODE_TABLE False bs"
  have e: "txt = ?e" "?e \<noteq> []"
    using assms(1-3) False
    by (auto simp: arth_rt_base64url_encode_def Let_def write_over_def length_encode_groups split: if_splits
        simp flip: length_greater_0_conv)
  moreover have "rev (dropWhile (\<lambda>c. c = 0x3D) (rev ?e)) = ?e"
    by (rule dropWhile_none) (use url_text_unpadded in blast)
  ultimately show ?thesis
    using assms(4) by (simp add: arth_rt_base64url_decode_def url_decode_encode write_over_def)
qed

theorem base64url_roundtrip_witness:
  "\<exists>buf'. arth_rt_base64url_decode (Some (bytes_of ''--8'')) (Some [0, 0]) = (2, Some ([0xFB, 0xEF] @ buf'))"
proof -
  have e: "arth_rt_base64url_encode (Some [0xFB, 0xEF]) (Some [0, 0, 0, 0]) = (3, Some (bytes_of ''--8'' @ [0]))"
    by code_simp
  show ?thesis
    using base64url_roundtrip [OF e _ refl, of "[0, 0]"] by simp
qed

section \<open>Padding\<close>


end
