(* ===== verification/Dep_Graph.thy ===== *)
theory Dep_Graph
  imports Prelude "HOL-Library.List_Lexorder"
begin

text \<open>
  The dependency graph of incremental builds, \<^verbatim>\<open>src/compiler/driver/incremental/dep_graph.rs\<close>, and the
  fingerprints its nodes carry. A \<^verbatim>\<open>BTreeMap\<close> is an association list in strictly ascending order of
  its keys and a \<^verbatim>\<open>BTreeSet\<close> a strictly ascending list, so that iterating is walking the list; names
  are ordered by their bytes. A \<^verbatim>\<open>HashSet\<close> whose order does not matter is a set.
\<close>

section \<open>Ordered maps and sets\<close>

type_synonym 'v btree_map = "(rstring \<times> 'v) list"
type_synonym btree_set = "rstring list"

fun bt_insert :: "rstring \<Rightarrow> 'v \<Rightarrow> 'v btree_map \<Rightarrow> 'v btree_map" where
  "bt_insert k v [] = [(k, v)]"
| "bt_insert k v ((k', v') # m) =
     (if k < k' then (k, v) # (k', v') # m
      else if k = k' then (k, v) # m
      else (k', v') # bt_insert k v m)"

abbreviation keys :: "'v btree_map \<Rightarrow> rstring list" where
  "keys m \<equiv> map fst m"

definition ordered :: "'v btree_map \<Rightarrow> bool" where
  "ordered m \<longleftrightarrow> sorted_wrt (<) (keys m)"

text \<open>\<^verbatim>\<open>entry(k).or_insert(v)\<close>\<close>

definition bt_entry :: "rstring \<Rightarrow> 'v \<Rightarrow> 'v btree_map \<Rightarrow> 'v btree_map" where
  "bt_entry k v m = (if map_of m k = None then bt_insert k v m else m)"

text \<open>A change through \<^verbatim>\<open>get_mut(k)\<close>, when there is an entry.\<close>

fun bt_modify :: "rstring \<Rightarrow> ('v \<Rightarrow> 'v) \<Rightarrow> 'v btree_map \<Rightarrow> 'v btree_map" where
  "bt_modify k f [] = []"
| "bt_modify k f ((k', v) # m) = (if k = k' then (k', f v) # m else (k', v) # bt_modify k f m)"

section \<open>Fingerprints and nodes\<close>

datatype fingerprint_kind = FK_Source | FK_Interface | FK_Package | FK_Config

record fingerprint =
  fp_hash :: rstring
  fp_kind :: fingerprint_kind

record dep_node =
  package :: rstring
  files :: "rstring list"
  source_fingerprint :: fingerprint
  interface_fingerprint :: "fingerprint option"
  dependencies :: btree_set
  dependents :: btree_set

definition dep_node_new :: "rstring \<Rightarrow> dep_node" where
  "dep_node_new name =
     \<lparr>package = name, files = [], source_fingerprint = \<lparr>fp_hash = [], fp_kind = FK_Source\<rparr>,
      interface_fingerprint = None, dependencies = [], dependents = []\<rparr>"

definition with_source_fingerprint :: "fingerprint \<Rightarrow> dep_node \<Rightarrow> dep_node" where
  "with_source_fingerprint fp n = n\<lparr>source_fingerprint := fp\<rparr>"

definition with_interface_fingerprint :: "fingerprint \<Rightarrow> dep_node \<Rightarrow> dep_node" where
  "with_interface_fingerprint fp n = n\<lparr>interface_fingerprint := Some fp\<rparr>"

definition node_add_file :: "rstring \<Rightarrow> dep_node \<Rightarrow> dep_node" where
  "node_add_file path n = n\<lparr>files := files n @ [path]\<rparr>"

definition add_dependency :: "rstring \<Rightarrow> dep_node \<Rightarrow> dep_node" where
  "add_dependency pkg n = n\<lparr>dependencies := List.insort_insert pkg (dependencies n)\<rparr>"

definition add_dependent :: "rstring \<Rightarrow> dep_node \<Rightarrow> dep_node" where
  "add_dependent pkg n = n\<lparr>dependents := List.insort_insert pkg (dependents n)\<rparr>"

section \<open>Graphs\<close>

record dep_graph =
  nodes :: "dep_node btree_map"
  build_order :: "rstring list"

definition graph_new :: dep_graph where
  "graph_new = \<lparr>nodes = [], build_order = []\<rparr>"

definition add_node :: "dep_node \<Rightarrow> dep_graph \<Rightarrow> dep_graph" where
  "add_node n g = g\<lparr>nodes := bt_insert (package n) n (nodes g)\<rparr>"

definition get_node :: "dep_graph \<Rightarrow> rstring \<Rightarrow> dep_node option" where
  "get_node g pkg = map_of (nodes g) pkg"

definition add_edge :: "rstring \<Rightarrow> rstring \<Rightarrow> dep_graph \<Rightarrow> dep_graph" where
  "add_edge src dst g =
     g\<lparr>nodes := bt_modify dst (add_dependent src) (bt_modify src (add_dependency dst) (nodes g))\<rparr>"

definition dependencies_of :: "dep_graph \<Rightarrow> rstring \<Rightarrow> btree_set option" where
  "dependencies_of g pkg = map_option dependencies (get_node g pkg)"

definition dependents_of :: "dep_graph \<Rightarrow> rstring \<Rightarrow> btree_set option" where
  "dependents_of g pkg = map_option dependents (get_node g pkg)"

section \<open>Build order\<close>

text \<open>The number of dependencies of every package, and the packages that depend on it.\<close>

definition count_dep ::
    "dep_graph \<Rightarrow> rstring \<Rightarrow> rstring \<Rightarrow> nat btree_map \<times> rstring list btree_map \<Rightarrow> nat btree_map \<times> rstring list btree_map" where
  "count_dep g pkg dep da =
     (if get_node g dep = None then da
      else (bt_modify pkg Suc (bt_entry pkg 0 (fst da)),
            bt_modify dep (\<lambda>ps. ps @ [pkg]) (bt_entry dep [] (snd da))))"

definition count_node ::
    "dep_graph \<Rightarrow> rstring \<times> dep_node \<Rightarrow> nat btree_map \<times> rstring list btree_map \<Rightarrow> nat btree_map \<times> rstring list btree_map" where
  "count_node g kn da =
     fold (count_dep g (fst kn)) (dependencies (snd kn)) (bt_entry (fst kn) 0 (fst da), bt_entry (fst kn) [] (snd da))"

text \<open>One package built: \<open>None\<close> when a counter would go below zero, which panics.\<close>

fun relax :: "rstring list \<Rightarrow> nat btree_map \<Rightarrow> rstring list \<Rightarrow> (nat btree_map \<times> rstring list) option" where
  "relax [] deg queue = Some (deg, queue)"
| "relax (n # ns) deg queue =
     (case map_of deg n of
        None \<Rightarrow> relax ns deg queue
      | Some 0 \<Rightarrow> None
      | Some (Suc d) \<Rightarrow> relax ns (bt_modify n (\<lambda>_. d) deg) (if d = 0 then queue @ [n] else queue))"

lemma sum_bt_modify:
  "map_of m k = Some v \<Longrightarrow> sum_list (map snd (bt_modify k (\<lambda>_. w :: nat) m)) + v = sum_list (map snd m) + w"
  by (induction k "\<lambda>_ :: nat. w" m rule: bt_modify.induct) (auto split: if_splits)

lemma relax_measure:
  "relax ns deg queue = Some (deg', queue') \<Longrightarrow>
   sum_list (map snd deg') + length queue' \<le> sum_list (map snd deg) + length queue"
proof (induction ns deg queue arbitrary: deg' queue' rule: relax.induct)
  case (2 n ns deg queue)
  show ?case
  proof (cases "map_of deg n")
    case (Some d)
    then obtain d' where d: "d = Suc d'" using 2(3) by (cases d) auto
    have "sum_list (map snd (bt_modify n (\<lambda>_. d') deg)) + d = sum_list (map snd deg) + d'"
      using sum_bt_modify [OF Some] .
    then show ?thesis using 2(2) [OF Some d] 2(3) Some d by (auto split: if_splits)
  qed (use 2 in simp)
qed simp

text \<open>
  Kahn's algorithm; the counters and the queue get smaller together. The outer \<open>None\<close> is a panic.
\<close>

function kahn :: "rstring list btree_map \<Rightarrow> nat btree_map \<Rightarrow> rstring list \<Rightarrow> rstring list \<Rightarrow> rstring list option" where
  "kahn adj deg [] result = Some result"
| "kahn adj deg (pkg # queue) result =
     (case map_of adj pkg of
        None \<Rightarrow> kahn adj deg queue (result @ [pkg])
      | Some ns \<Rightarrow>
          (case relax ns deg queue of
             None \<Rightarrow> None
           | Some (deg', queue') \<Rightarrow> kahn adj deg' queue' (result @ [pkg])))"
  by pat_completeness auto
termination
  by (relation "measure (\<lambda>(adj, deg, queue, result). sum_list (map snd deg) + length queue)")
    (auto dest!: relax_measure)

definition topological_sort :: "dep_graph \<Rightarrow> rstring list option option" where
  "topological_sort g =
     (let (deg, adj) = fold (count_node g) (nodes g) ([], []);
          queue = keys (filter (\<lambda>(_, d). d = 0) deg)
      in map_option (\<lambda>result. if length result = length (nodes g) then Some result else None) (kahn adj deg queue []))"

definition compute_build_order :: "dep_graph \<Rightarrow> (bool \<times> dep_graph) option" where
  "compute_build_order g =
     map_option (\<lambda>r. case r of Some order \<Rightarrow> (True, g\<lparr>build_order := order\<rparr>) | None \<Rightarrow> (False, g))
       (topological_sort g)"

section \<open>Invalidation\<close>

definition nexts :: "(dep_node \<Rightarrow> btree_set) \<Rightarrow> dep_graph \<Rightarrow> rstring \<Rightarrow> rstring list" where
  "nexts sel g pkg = (case get_node g pkg of Some n \<Rightarrow> sel n | None \<Rightarrow> [])"

definition targets :: "(dep_node \<Rightarrow> btree_set) \<Rightarrow> dep_graph \<Rightarrow> rstring set" where
  "targets sel g = (\<Union>n\<in>set (map snd (nodes g)). set (sel n))"

lemma finite_targets [simp]: "finite (targets sel g)"
  by (simp add: targets_def)

lemma nexts_targets: "set (nexts sel g pkg) \<subseteq> targets sel g"
  by (clarsimp simp: nexts_def get_node_def targets_def split: option.splits) (metis map_of_SomeD snd_conv)

text \<open>The packages seen, and the queue of those whose dependents are not.\<close>

fun enqueue_new :: "rstring list \<Rightarrow> rstring list \<Rightarrow> rstring set \<Rightarrow> rstring list \<times> rstring set" where
  "enqueue_new [] queue seen = (queue, seen)"
| "enqueue_new (p # ps) queue seen =
     (if p \<in> seen then enqueue_new ps queue seen else enqueue_new ps (queue @ [p]) (insert p seen))"

lemma enqueue_new_simp:
  "enqueue_new ps queue seen = (queue', seen') \<Longrightarrow>
   seen' = seen \<union> set ps \<and> (\<exists>new. queue' = queue @ new \<and> distinct new \<and> set new = set ps - seen)"
proof (induction ps queue seen rule: enqueue_new.induct)
  case (2 p ps queue seen)
  show ?case
  proof (cases "p \<in> seen")
    case True
    then show ?thesis using 2 by auto
  next
    case False
    then obtain new where "seen' = insert p seen \<union> set ps" "queue' = queue @ [p] @ new"
      "distinct new" "set new = set ps - insert p seen" using 2 by auto
    then show ?thesis using False by (intro conjI exI [of _ "p # new"]) auto
  qed
qed simp

function invalidate :: "dep_graph \<Rightarrow> rstring list \<Rightarrow> rstring set \<Rightarrow> rstring set" where
  "invalidate g [] seen = seen"
| "invalidate g (pkg # queue) seen =
     (let (queue', seen') = enqueue_new (nexts dependents g pkg) queue seen in invalidate g queue' seen')"
  by pat_completeness auto
termination
proof (relation "measure (\<lambda>(g, queue, seen). card (targets dependents g - seen) + length queue)")
  fix g pkg queue seen p queue' seen'
  assume "p = enqueue_new (nexts dependents g pkg) queue seen" "(queue', seen') = p"
  then obtain new where n: "seen' = seen \<union> set (nexts dependents g pkg)" "queue' = queue @ new"
    "distinct new" "set new = set (nexts dependents g pkg) - seen"
    using enqueue_new_simp [of "nexts dependents g pkg" queue seen queue' seen'] by auto
  let ?T = "targets dependents g - seen"
  have "?T = (targets dependents g - seen') \<union> set new" "(targets dependents g - seen') \<inter> set new = {}"
    using n(1,4) nexts_targets [of dependents g pkg] by auto
  then have "card ?T = card (targets dependents g - seen') + card (set new)"
    using card_Un_disjoint [of "targets dependents g - seen'" "set new"] by simp
  then show "((g, queue', seen'), (g, pkg # queue, seen))
      \<in> measure (\<lambda>(g, queue, seen). card (targets dependents g - seen) + length queue)"
    using n(2,3) by (simp add: distinct_card)
qed simp

text \<open>\<open>changed\<close> lists the packages in the order the hash set yields them.\<close>

definition invalidated_by :: "dep_graph \<Rightarrow> rstring list \<Rightarrow> rstring set" where
  "invalidated_by g changed = invalidate g changed (set changed)"

definition invalidated_by_interface_change :: "dep_graph \<Rightarrow> rstring list \<Rightarrow> rstring set" where
  "invalidated_by_interface_change g interface_changed = invalidated_by g interface_changed"

function collect :: "dep_graph \<Rightarrow> rstring list \<Rightarrow> rstring set \<Rightarrow> rstring set" where
  "collect g [] visited = visited"
| "collect g (pkg # queue) visited =
     (if pkg \<in> visited then collect g queue visited
      else
        let visited = insert pkg visited
        in collect g (queue @ filter (\<lambda>dep. dep \<notin> visited) (nexts dependencies g pkg)) visited)"
  by pat_completeness auto
termination
proof (relation "inv_image (less_than <*lex*> less_than)
    (\<lambda>(g, queue, visited). (card (set (keys (nodes g)) - visited), length queue))", goal_cases)
  case (3 g pkg queue visited x)
  have none: "nexts dependencies g pkg = []" if "pkg \<notin> set (keys (nodes g))"
  proof -
    have "map_of (nodes g) pkg = None" using that by (simp add: map_of_eq_None_iff)
    then show ?thesis by (simp add: nexts_def get_node_def)
  qed
  have "card (set (keys (nodes g)) - x) < card (set (keys (nodes g)) - visited)" if "pkg \<in> set (keys (nodes g))"
    using 3 that by (intro psubset_card_mono) auto
  moreover have "set (keys (nodes g)) - x = set (keys (nodes g)) - visited" if "pkg \<notin> set (keys (nodes g))"
    using 3 that by auto
  ultimately show ?case using none by (cases "pkg \<in> set (keys (nodes g))") auto
qed auto

definition transitive_dependencies :: "dep_graph \<Rightarrow> rstring \<Rightarrow> rstring set" where
  "transitive_dependencies g pkg = collect g (nexts dependencies g pkg) {}"

section \<open>Cycles\<close>

datatype visit_state = Unvisited | InProgress | Done

type_synonym visits = "rstring \<Rightarrow> visit_state option"

text \<open>
  The depth-first search: \<open>Inl\<close> is the path that ran into a package in progress, \<open>Inr\<close> the states and
  the path afterwards. The recursion depth is bounded, as every call marks a package; running out is
  \<open>None\<close>.
\<close>

fun dfs_package :: "nat \<Rightarrow> dep_graph \<Rightarrow> rstring \<Rightarrow> visits \<Rightarrow> rstring list \<Rightarrow> (rstring list + visits \<times> rstring list) option"
and dfs_deps :: "nat \<Rightarrow> dep_graph \<Rightarrow> rstring list \<Rightarrow> visits \<Rightarrow> rstring list \<Rightarrow>
    (rstring list + visits \<times> rstring list) option" where
  "dfs_package 0 g pkg st path = None"
| "dfs_package (Suc n) g pkg st path =
     (case dfs_deps n g (nexts dependencies g pkg) (st(pkg \<mapsto> InProgress)) (path @ [pkg]) of
        Some (Inr (st', path')) \<Rightarrow> Some (Inr (st'(pkg \<mapsto> Done), butlast path'))
      | r \<Rightarrow> r)"
| "dfs_deps n g [] st path = Some (Inr (st, path))"
| "dfs_deps n g (dep # deps) st path =
     (if get_node g dep = None then dfs_deps n g deps st path
      else
        case st dep of
          Some InProgress \<Rightarrow> Some (Inl (path @ [dep]))
        | Some Unvisited \<Rightarrow>
            (case dfs_package n g dep st path of
               Some (Inr (st', path')) \<Rightarrow> dfs_deps n g deps st' path'
             | r \<Rightarrow> r)
        | _ \<Rightarrow> dfs_deps n g deps st path)"

fun dfs_roots :: "dep_graph \<Rightarrow> rstring list \<Rightarrow> visits \<Rightarrow> rstring list \<Rightarrow> rstring list option option" where
  "dfs_roots g [] st path = Some None"
| "dfs_roots g (pkg # pkgs) st path =
     (if st pkg = Some Unvisited then
        (case dfs_package (length (nodes g)) g pkg st path of
           None \<Rightarrow> None
         | Some (Inl cycle) \<Rightarrow> Some (Some cycle)
         | Some (Inr (st', path')) \<Rightarrow> dfs_roots g pkgs st' path')
      else dfs_roots g pkgs st path)"

definition detect_cycle :: "dep_graph \<Rightarrow> rstring list option option" where
  "detect_cycle g =
     dfs_roots g (keys (nodes g)) (map_of (map (\<lambda>k. (k, Unvisited)) (keys (nodes g)))) []"

section \<open>The builder\<close>

record dep_graph_builder =
  builder_nodes :: "dep_node btree_map"
  builder_edges :: "(rstring \<times> rstring) list"

definition builder_new :: dep_graph_builder where
  "builder_new = \<lparr>builder_nodes = [], builder_edges = []\<rparr>"

definition add_package :: "rstring \<Rightarrow> dep_graph_builder \<Rightarrow> dep_graph_builder" where
  "add_package name b = b\<lparr>builder_nodes := bt_entry name (dep_node_new name) (builder_nodes b)\<rparr>"

definition add_package_with_fingerprint :: "rstring \<Rightarrow> fingerprint \<Rightarrow> dep_graph_builder \<Rightarrow> dep_graph_builder" where
  "add_package_with_fingerprint name fp b =
     b\<lparr>builder_nodes := bt_insert name (with_source_fingerprint fp (dep_node_new name)) (builder_nodes b)\<rparr>"

definition builder_add_file :: "rstring \<Rightarrow> rstring \<Rightarrow> dep_graph_builder \<Rightarrow> dep_graph_builder" where
  "builder_add_file pkg path b = b\<lparr>builder_nodes := bt_modify pkg (node_add_file path) (builder_nodes b)\<rparr>"

definition add_import :: "rstring \<Rightarrow> rstring \<Rightarrow> dep_graph_builder \<Rightarrow> dep_graph_builder" where
  "add_import src dst b = b\<lparr>builder_edges := builder_edges b @ [(src, dst)]\<rparr>"

definition builder_build :: "dep_graph_builder \<Rightarrow> dep_graph option" where
  "builder_build b =
     (let g = fold (\<lambda>(_, n). add_node n) (builder_nodes b) graph_new;
          g = fold (\<lambda>(src, dst). add_edge src dst) (builder_edges b) g
      in map_option snd (compute_build_order g))"

end
