(* ===== verification/Dep_Order.thy ===== *)
theory Dep_Order
  imports Dep_Graph
begin

text \<open>
  What the searches of the dependency graph compute. Kahn's algorithm lists the packages with their
  dependencies first exactly when the imports have no cycle, and never counts below zero; the search
  for a cycle finds one exactly when there is one; invalidation is the closure under dependents.
\<close>

section \<open>Ordered maps\<close>

lemma ordered_distinct: "ordered m \<Longrightarrow> distinct (keys m)"
  by (simp add: ordered_def strict_sorted_iff)

lemma set_keys_bt_insert [simp]: "set (keys (bt_insert k v m)) = insert k (set (keys m))"
  by (induction k v m rule: bt_insert.induct) auto

lemma ordered_bt_insert [simp]: "ordered m \<Longrightarrow> ordered (bt_insert k v m)"
proof (induction k v m rule: bt_insert.induct)
  case (2 k v k' v' m)
  then show ?case
    using set_keys_bt_insert [of k v m] by (fastforce simp: ordered_def simp del: set_map set_keys_bt_insert)
qed (simp add: ordered_def)

lemma map_of_bt_insert [simp]: "ordered m \<Longrightarrow> map_of (bt_insert k v m) = (map_of m)(k \<mapsto> v)"
proof (induction k v m rule: bt_insert.induct)
  case (2 k v k' v' m)
  then show ?case by (auto simp: ordered_def fun_eq_iff)
qed simp

lemma keys_bt_modify [simp]: "keys (bt_modify k f m) = keys m"
  by (induction k f m rule: bt_modify.induct) auto

lemma map_of_bt_modify [simp]: "map_of (bt_modify k f m) = (map_of m)(k := map_option f (map_of m k))"
  by (induction k f m rule: bt_modify.induct) auto

lemma ordered_bt_modify [simp]: "ordered (bt_modify k f m) = ordered m"
  by (simp add: ordered_def)

lemma bt_entry_simps [simp]:
  "ordered m \<Longrightarrow> ordered (bt_entry k v m)"
  "ordered m \<Longrightarrow> map_of (bt_entry k v m) k' = (if k' = k \<and> map_of m k = None then Some v else map_of m k')"
  by (auto simp: bt_entry_def)

section \<open>Counting dependencies\<close>

definition packages :: "dep_graph \<Rightarrow> rstring set" where
  "packages g = {p. get_node g p \<noteq> None}"

lemma packages_keys: "packages g = set (keys (nodes g))"
  by (simp add: packages_def get_node_def map_of_eq_None_iff del: not_None_eq)

lemma finite_packages [simp]: "finite (packages g)"
  by (simp add: packages_keys)

text \<open>The dependencies of a package that are packages of the graph.\<close>

definition deps_in :: "dep_graph \<Rightarrow> rstring \<Rightarrow> rstring set" where
  "deps_in g p = {d \<in> set (nexts dependencies g p). get_node g d \<noteq> None}"

definition dep_edges :: "dep_graph \<Rightarrow> (rstring \<times> rstring) set" where
  "dep_edges g = {(p, d). d \<in> deps_in g p}"

definition graph_ok :: "dep_graph \<Rightarrow> bool" where
  "graph_ok g \<longleftrightarrow> ordered (nodes g) \<and> (\<forall>n\<in>set (map snd (nodes g)). distinct (dependencies n) \<and> distinct (dependents n))"

lemma deps_in_packages: "deps_in g p \<subseteq> packages g"
  by (auto simp: deps_in_def packages_def)

lemma finite_deps_in [simp]: "finite (deps_in g p)"
  by (simp add: deps_in_def)

lemma dep_edges_packages: "dep_edges g \<subseteq> packages g \<times> packages g"
proof -
  have "p \<in> packages g" if "d \<in> deps_in g p" for p d
    using that by (cases "get_node g p") (auto simp: deps_in_def nexts_def packages_def)
  then show ?thesis using deps_in_packages by (fastforce simp: dep_edges_def)
qed

lemma finite_dep_edges: "finite (dep_edges g)"
  by (rule finite_subset [OF dep_edges_packages]) simp

definition outs :: "rstring list btree_map \<Rightarrow> rstring \<Rightarrow> rstring list" where
  "outs adj p = (case map_of adj p of None \<Rightarrow> [] | Some ns \<Rightarrow> ns)"

lemma count_deps:
  fixes g :: dep_graph
  assumes "distinct ds" and "ordered (fst da)" "ordered (snd da)" and "map_of (fst da) p = Some k"
  defines "r \<equiv> fold (count_dep g p) ds da"
  shows "ordered (fst r) \<and> ordered (snd r) \<and>
    map_of (fst r) = (map_of (fst da))(p \<mapsto> k + card {d \<in> set ds. get_node g d \<noteq> None}) \<and>
    (\<forall>d. outs (snd r) d = outs (snd da) d @ (if d \<in> set ds \<and> get_node g d \<noteq> None then [p] else []))"
  using assms(1-4) unfolding r_def
proof (induction ds arbitrary: da k)
  case (Cons d ds)
  show ?case
  proof (cases "get_node g d = None")
    case True
    then have "{x \<in> set (d # ds). get_node g x \<noteq> None} = {x \<in> set ds. get_node g x \<noteq> None}" by auto
    moreover have "fold (count_dep g p) (d # ds) da = fold (count_dep g p) ds da"
      using True by (simp add: count_dep_def)
    ultimately show ?thesis using Cons True by auto
  next
    case False
    let ?da = "count_dep g p d da"
    have da: "ordered (fst ?da)" "ordered (snd ?da)" "map_of (fst ?da) = (map_of (fst da))(p \<mapsto> Suc k)"
      "outs (snd ?da) x = outs (snd da) x @ (if x = d then [p] else [])" for x
      using False Cons.prems(2-4)
      by (auto simp: count_dep_def bt_entry_def outs_def fun_eq_iff split: option.splits)
    have "{x \<in> set (d # ds). get_node g x \<noteq> None} = insert d {x \<in> set ds. get_node g x \<noteq> None}"
      using False by auto
    then have "card {x \<in> set (d # ds). get_node g x \<noteq> None} = Suc (card {x \<in> set ds. get_node g x \<noteq> None})"
      using Cons.prems(1) by simp
    then show ?thesis
      using Cons.IH [of ?da "Suc k"] Cons.prems(1) da False by auto
  qed
qed (simp add: fun_upd_idem)

lemma count_nodes:
  fixes ns :: "dep_node btree_map"
  assumes ok: "graph_ok g" and sub: "set ns \<subseteq> set (nodes g)" and dist: "distinct (keys ns)"
  defines "r \<equiv> fold (count_node g) ns ([], [])"
  shows "ordered (fst r) \<and> ordered (snd r) \<and>
    (\<forall>p. map_of (fst r) p = (if p \<in> set (keys ns) then Some (card (deps_in g p)) else None)) \<and>
    (\<forall>d. outs (snd r) d = filter (\<lambda>p. d \<in> deps_in g p) (keys ns))"
  using sub dist unfolding r_def
proof (induction ns rule: rev_induct)
  case Nil
  then show ?case by (simp add: ordered_def outs_def)
next
  case (snoc kn ns)
  obtain k n where kn: "kn = (k, n)" by (cases kn)
  let ?r = "fold (count_node g) ns ([], [])"
  have r: "ordered (fst ?r)" "ordered (snd ?r)"
    "\<And>p. map_of (fst ?r) p = (if p \<in> set (keys ns) then Some (card (deps_in g p)) else None)"
    "\<And>d. outs (snd ?r) d = filter (\<lambda>p. d \<in> deps_in g p) (keys ns)"
    using snoc by auto
  have "(k, n) \<in> set (nodes g)" using snoc.prems(1) kn by simp
  then have n: "get_node g k = Some n" "distinct (dependencies n)"
    using ok ordered_distinct by (force simp: get_node_def graph_ok_def)+
  then have deps: "deps_in g k = {d \<in> set (dependencies n). get_node g d \<noteq> None}"
    by (simp add: deps_in_def nexts_def)
  have new: "k \<notin> set (keys ns)" using snoc.prems(2) kn by simp
  let ?da = "(bt_entry k 0 (fst ?r), bt_entry k [] (snd ?r))"
  have da: "ordered (fst ?da)" "ordered (snd ?da)" "map_of (fst ?da) k = Some 0" using r(1-3) new by simp_all
  have outs: "outs (bt_entry k [] (snd ?r)) d = outs (snd ?r) d" for d
    using r(2) by (simp add: outs_def split: option.splits)
  have step: "fold (count_node g) (ns @ [kn]) ([], []) = fold (count_dep g k) (dependencies n) ?da"
    using kn by (simp add: count_node_def)
  have "map_of (fst ?da) = (map_of (fst ?r))(k \<mapsto> 0)"
    using r(1,3) new by (auto simp: fun_eq_iff)
  then show ?case
    unfolding step using count_deps [OF n(2) da, of g] r(3,4) kn deps new by (auto simp: outs)
qed

section \<open>Kahn's algorithm\<close>

lemma kahn_Cons:
  "kahn adj deg (p # queue) result =
     (case relax (outs adj p) deg queue of
        None \<Rightarrow> None
      | Some (deg', queue') \<Rightarrow> kahn adj deg' queue' (result @ [p]))"
  by (simp add: outs_def split: option.split)

lemma relax_correct:
  assumes "distinct ns" and "\<forall>n\<in>set ns. \<exists>d. map_of deg n = Some (Suc d)"
  shows "\<exists>deg'. relax ns deg queue = Some (deg', queue @ filter (\<lambda>n. map_of deg n = Some 1) ns) \<and>
    map_of deg' = (\<lambda>n. if n \<in> set ns then map_option (\<lambda>d. d - 1) (map_of deg n) else map_of deg n)"
  using assms
proof (induction ns arbitrary: deg queue)
  case (Cons n ns)
  then obtain d where d: "map_of deg n = Some (Suc d)" by auto
  let ?deg = "bt_modify n (\<lambda>_. d) deg"
  have deg: "map_of ?deg = (map_of deg)(n \<mapsto> d)" using d by simp
  have "\<forall>x\<in>set ns. \<exists>d. map_of ?deg x = Some (Suc d)" using Cons.prems deg by auto
  then obtain deg' where deg':
    "relax ns ?deg (if d = 0 then queue @ [n] else queue) =
       Some (deg', (if d = 0 then queue @ [n] else queue) @ filter (\<lambda>n. map_of ?deg n = Some 1) ns)"
    "map_of deg' = (\<lambda>x. if x \<in> set ns then map_option (\<lambda>d. d - 1) (map_of ?deg x) else map_of ?deg x)"
    using Cons.IH [of ?deg "if d = 0 then queue @ [n] else queue"] Cons.prems(1) by auto
  have "filter (\<lambda>x. map_of ?deg x = Some 1) ns = filter (\<lambda>x. map_of deg x = Some 1) ns"
    using Cons.prems(1) deg by (intro filter_cong) auto
  then show ?case
    using deg' d Cons.prems(1) by (intro exI [of _ deg']) (auto simp: fun_eq_iff)
qed auto

text \<open>What holds before every round: the counters, the queue, and the order of the packages built.\<close>

definition kahn_inv :: "dep_graph \<Rightarrow> nat btree_map \<Rightarrow> rstring list \<Rightarrow> rstring list \<Rightarrow> bool" where
  "kahn_inv g deg queue result \<longleftrightarrow>
     distinct (result @ queue) \<and> set (result @ queue) \<subseteq> packages g \<and>
     (\<forall>p\<in>packages g. map_of deg p = Some (card (deps_in g p - set result)) \<and>
        (p \<in> set (result @ queue) \<longleftrightarrow> deps_in g p \<subseteq> set result)) \<and>
     (\<forall>i<length result. deps_in g (result ! i) \<subseteq> set (take i result))"

lemma kahn_step:
  assumes inv: "kahn_inv g deg (p # queue) result" and ok: "graph_ok g"
    and outs: "outs adj p = filter (\<lambda>n. p \<in> deps_in g n) (keys (nodes g))"
  shows "\<exists>deg' queue'. relax (outs adj p) deg queue = Some (deg', queue') \<and> kahn_inv g deg' queue' (result @ [p])"
proof -
  let ?ns = "outs adj p"
  have ns: "distinct ?ns" "set ?ns = {n \<in> packages g. p \<in> deps_in g n}"
    using ok ordered_distinct [of "nodes g"] unfolding outs by (simp_all add: graph_ok_def packages_keys)
  have p: "p \<notin> set result" "p \<notin> set queue" "p \<in> packages g" "deps_in g p \<subseteq> set result"
    using inv by (auto simp: kahn_inv_def)
  have deg: "map_of deg n = Some (card (deps_in g n - set result))" if "n \<in> packages g" for n
    using inv that by (simp add: kahn_inv_def)
  have cards: "card (deps_in g n - set result) = Suc (card (deps_in g n - set (result @ [p])))" if "n \<in> set ?ns" for n
  proof -
    have "p \<in> deps_in g n" using that unfolding ns(2) by blast
    then have "p \<in> deps_in g n - set result" using p(1) by blast
    moreover have "deps_in g n - set (result @ [p]) = deps_in g n - set result - {p}" by auto
    ultimately show ?thesis using card_Suc_Diff1 [of "deps_in g n - set result" p] by simp
  qed
  have degs: "map_of deg n = Some (Suc (card (deps_in g n - set (result @ [p]))))" if "n \<in> set ?ns" for n
    using deg [of n] cards [OF that] that unfolding ns(2) by simp
  then have "\<forall>n\<in>set ?ns. \<exists>d. map_of deg n = Some (Suc d)" by blast
  from relax_correct [OF ns(1) this, of queue] obtain deg' where deg':
    "relax ?ns deg queue = Some (deg', queue @ filter (\<lambda>n. map_of deg n = Some 1) ?ns)"
    "map_of deg' = (\<lambda>n. if n \<in> set ?ns then map_option (\<lambda>d. d - 1) (map_of deg n) else map_of deg n)" by blast
  let ?new = "filter (\<lambda>n. map_of deg n = Some 1) ?ns"
  have new: "n \<in> set ?new \<longleftrightarrow> n \<in> set ?ns \<and> deps_in g n \<subseteq> set (result @ [p])" for n
  proof -
    have "map_of deg n = Some 1 \<longleftrightarrow> deps_in g n - set (result @ [p]) = {}" if "n \<in> set ?ns"
      using degs [OF that] by (simp add: finite_subset [OF Diff_subset])
    then show ?thesis by auto
  qed
  have member: "n \<in> set ((result @ [p]) @ queue @ ?new) \<longleftrightarrow> deps_in g n \<subseteq> set (result @ [p])" if "n \<in> packages g" for n
  proof (cases "p \<in> deps_in g n")
    case True
    then have "n \<notin> set (result @ p # queue)" using inv that p(1) by (auto simp: kahn_inv_def)
    then show ?thesis using new [of n] ns(2) True that by auto
  next
    case False
    then have "deps_in g n \<subseteq> set (result @ [p]) \<longleftrightarrow> deps_in g n \<subseteq> set result" by auto
    then show ?thesis using inv that False ns(2) by (auto simp: kahn_inv_def)
  qed
  have "set (result @ p # queue) \<inter> set ?ns = {}"
    using inv p(1) ns(2) by (auto simp: kahn_inv_def)
  then have "distinct ((result @ [p]) @ queue @ ?new)" "set ((result @ [p]) @ queue @ ?new) \<subseteq> packages g"
    using inv ns by (auto simp: kahn_inv_def)
  moreover have "map_of deg' n = Some (card (deps_in g n - set (result @ [p])))" if "n \<in> packages g" for n
  proof (cases "n \<in> set ?ns")
    case True
    then show ?thesis using deg [OF that] cards deg'(2) by simp
  next
    case False
    then have "deps_in g n - set (result @ [p]) = deps_in g n - set result" using ns(2) that by auto
    then show ?thesis using deg [OF that] deg'(2) False by simp
  qed
  moreover have "deps_in g ((result @ [p]) ! i) \<subseteq> set (take i (result @ [p]))" if "i < length (result @ [p])" for i
    using inv p(4) that by (auto simp: kahn_inv_def nth_append less_Suc_eq)
  ultimately have "kahn_inv g deg' (queue @ ?new) (result @ [p])"
    unfolding kahn_inv_def using member by blast
  then show ?thesis using deg'(1) by blast
qed

lemma kahn_correct:
  assumes "graph_ok g" and "kahn_inv g deg queue result"
    and "\<And>p. outs adj p = filter (\<lambda>n. p \<in> deps_in g n) (keys (nodes g))"
  shows "\<exists>deg' order. kahn adj deg queue result = Some order \<and> kahn_inv g deg' [] order"
  using assms(2,3)
proof (induction adj deg queue result rule: kahn.induct)
  case (1 adj deg result)
  then show ?case by auto
next
  case (2 adj deg p queue result)
  obtain deg' queue' where step: "relax (outs adj p) deg queue = Some (deg', queue')"
    "kahn_inv g deg' queue' (result @ [p])"
    using kahn_step [OF 2(3) assms(1) 2(4)] by blast
  show ?case
  proof (cases "map_of adj p")
    case None
    then have "deg' = deg" "queue' = queue" using step(1) by (auto simp: outs_def)
    then show ?thesis using 2(1) [OF None _ 2(4)] step None by simp
  next
    case (Some ns)
    then have "relax ns deg queue = Some (deg', queue')" using step(1) by (simp add: outs_def)
    then show ?thesis using 2(2) [OF Some _ refl step(2) 2(4)] Some by simp
  qed
qed

definition build_order_of :: "dep_graph \<Rightarrow> rstring list \<Rightarrow> bool" where
  "build_order_of g order \<longleftrightarrow>
     distinct order \<and> set order = packages g \<and>
     (\<forall>i<length order. deps_in g (order ! i) \<subseteq> set (take i order))"

lemma build_order_acyclic:
  assumes "build_order_of g order"
  shows "acyclic (dep_edges g)"
proof -
  let ?pos = "\<lambda>p. (THE i. i < length order \<and> order ! i = p)"
  have pos: "?pos (order ! i) = i" if "i < length order" for i
    using assms that by (intro the_equality) (auto simp: build_order_of_def nth_eq_iff_index_eq)
  have "(dep_edges g)\<inverse> \<subseteq> measure ?pos"
  proof (clarify)
    fix d p assume "(p, d) \<in> dep_edges g"
    then have e: "d \<in> deps_in g p" "p \<in> packages g"
      using dep_edges_packages [of g] by (auto simp: dep_edges_def)
    then obtain i where i: "i < length order" "p = order ! i"
      using assms unfolding build_order_of_def in_set_conv_nth set_eq_iff by metis
    then have "d \<in> set (take i order)" using assms e by (auto simp: build_order_of_def)
    then obtain j where "j < i" "d = order ! j" by (auto simp: in_set_conv_nth)
    then show "(d, p) \<in> measure ?pos" using pos [of i] pos [of j] i by simp
  qed
  then have "acyclic ((dep_edges g)\<inverse>)" by (intro wf_acyclic wf_subset [OF wf_measure])
  then show ?thesis by simp
qed

lemma kahn_complete:
  assumes inv: "kahn_inv g deg [] order" and "acyclic (dep_edges g)"
  shows "set order = packages g"
proof (rule ccontr)
  assume "set order \<noteq> packages g"
  then obtain p where p: "p \<in> packages g - set order" using inv by (auto simp: kahn_inv_def)
  have "wf ((dep_edges g)\<inverse>)" using finite_acyclic_wf_converse [OF finite_dep_edges assms(2)] .
  from wfE_min [OF this p] obtain m where m: "m \<in> packages g - set order"
    "\<And>d. (d, m) \<in> (dep_edges g)\<inverse> \<Longrightarrow> d \<notin> packages g - set order" by blast
  then have "deps_in g m \<subseteq> set order" using deps_in_packages by (fastforce simp: dep_edges_def)
  then show False using inv m(1) by (auto simp: kahn_inv_def)
qed

lemma topological_sort_correct:
  assumes ok: "graph_ok g"
  shows "\<exists>r. topological_sort g = Some r \<and>
    (if acyclic (dep_edges g) then \<exists>order. r = Some order \<and> build_order_of g order else r = None)"
proof -
  obtain deg adj where da: "fold (count_node g) (nodes g) ([], []) = (deg, adj)" by fastforce
  have c: "ordered deg" "\<And>p. map_of deg p = (if p \<in> packages g then Some (card (deps_in g p)) else None)"
    "\<And>d. outs adj d = filter (\<lambda>p. d \<in> deps_in g p) (keys (nodes g))"
    using count_nodes [OF ok subset_refl] ordered_distinct [of "nodes g"] ok da by (auto simp: graph_ok_def packages_keys)
  let ?queue = "keys (filter (\<lambda>(_, d). d = 0) deg)"
  have mem: "p \<in> set ?queue \<longleftrightarrow> map_of deg p = Some 0" for p
    using ordered_distinct [OF c(1)] by (force simp: map_of_eq_Some_iff)
  have "distinct ?queue" using ordered_distinct [OF c(1)] by (simp add: distinct_map_filter)
  then have "kahn_inv g deg ?queue []"
    using mem unfolding c(2) kahn_inv_def by (simp add: subset_eq del: set_map) (metis option.distinct(1))
  then obtain deg' order where k: "kahn adj deg ?queue [] = Some order" "kahn_inv g deg' [] order"
    using kahn_correct [OF ok _ c(3)] by blast
  have o: "distinct order" "set order \<subseteq> packages g" "\<forall>i<length order. deps_in g (order ! i) \<subseteq> set (take i order)"
    using k(2) by (auto simp: kahn_inv_def)
  have "distinct (keys (nodes g))" using ok ordered_distinct by (auto simp: graph_ok_def)
  then have "card (packages g) = length (nodes g)" unfolding packages_keys by (metis distinct_card length_map)
  then have len: "length order = length (nodes g) \<longleftrightarrow> set order = packages g"
    using o(1,2) by (metis card_subset_eq distinct_card finite_packages)
  have all: "set order = packages g \<longleftrightarrow> acyclic (dep_edges g)"
    using kahn_complete [OF k(2)] build_order_acyclic [of g order] o by (auto simp: build_order_of_def)
  show ?thesis
    using len all o by (simp add: topological_sort_def da k(1) build_order_of_def)
qed

end
