(* ===== verification/Dep_Search.thy ===== *)
theory Dep_Search
  imports Dep_Order
begin

text \<open>
  The two closures of the dependency graph and its search for a cycle.
\<close>

section \<open>Closures\<close>

definition next_edges :: "(dep_node \<Rightarrow> btree_set) \<Rightarrow> dep_graph \<Rightarrow> (rstring \<times> rstring) set" where
  "next_edges sel g = {(p, q). q \<in> set (nexts sel g p)}"

lemma closed_reaches: "r `` R \<subseteq> R \<Longrightarrow> A \<subseteq> R \<Longrightarrow> r\<^sup>* `` A \<subseteq> R"
  by (metis Image_closed_trancl Image_mono order_refl)

lemma reached_closed: "r `` (r\<^sup>* `` A) \<subseteq> r\<^sup>* `` A"
  by (auto intro: rtrancl_into_rtrancl)

lemma reaches_with:
  assumes "r `` V \<subseteq> V \<union> Q"
  shows "r `` (V \<union> r\<^sup>* `` Q) \<subseteq> V \<union> r\<^sup>* `` Q"
proof -
  have "Q \<subseteq> r\<^sup>* `` Q" by auto
  then show ?thesis using assms reached_closed [of r Q] unfolding Image_Un by blast
qed

lemma invalidate_closure:
  assumes "set queue \<subseteq> seen" and "\<forall>p\<in>seen. p \<in> set queue \<or> set (nexts dependents g p) \<subseteq> seen"
  shows "invalidate g queue seen = (next_edges dependents g)\<^sup>* `` seen"
  using assms
proof (induction g queue seen rule: invalidate.induct)
  case (1 g seen)
  then have "next_edges dependents g `` seen \<subseteq> seen" by (auto simp: next_edges_def)
  then show ?case by (simp add: Image_closed_trancl)
next
  case (2 g p queue seen)
  obtain queue' seen' where e: "enqueue_new (nexts dependents g p) queue seen = (queue', seen')" by fastforce
  then obtain new where n: "seen' = seen \<union> set (nexts dependents g p)" "queue' = queue @ new"
    "set new = set (nexts dependents g p) - seen"
    using enqueue_new_simp by metis
  have "(next_edges dependents g)\<^sup>* `` seen' = (next_edges dependents g)\<^sup>* `` seen"
  proof -
    have "p \<in> seen" using 2(2) by simp
    then have "set (nexts dependents g p) \<subseteq> (next_edges dependents g)\<^sup>* `` seen"
      by (auto simp: next_edges_def)
    then have "seen' \<subseteq> (next_edges dependents g)\<^sup>* `` seen" using n(1) by auto
    then show ?thesis using closed_reaches [OF reached_closed] n(1) by blast
  qed
  moreover have "invalidate g queue' seen' = (next_edges dependents g)\<^sup>* `` seen'"
  proof (rule 2(1) [OF e [symmetric] refl])
    show "set queue' \<subseteq> seen'" using 2(2) n by auto
    show "\<forall>q\<in>seen'. q \<in> set queue' \<or> set (nexts dependents g q) \<subseteq> seen'" using 2(3) n by auto
  qed
  ultimately show ?case using e by simp
qed

lemma invalidated_by_closure: "invalidated_by g changed = (next_edges dependents g)\<^sup>* `` set changed"
  by (simp add: invalidated_by_def invalidate_closure)

lemma collect_closure:
  assumes "\<forall>p\<in>visited. set (nexts dependencies g p) \<subseteq> visited \<union> set queue"
  shows "collect g queue visited = visited \<union> (next_edges dependencies g)\<^sup>* `` set queue"
  using assms
proof (induction g queue visited rule: collect.induct)
  case (2 g p queue visited)
  let ?E = "next_edges dependencies g"
  show ?case
  proof (cases "p \<in> visited")
    case True
    then have "?E `` visited \<subseteq> visited \<union> set queue" using 2(3) by (auto simp: next_edges_def)
    from closed_reaches [OF reaches_with [OF this], of "{p}"] True
    have "?E\<^sup>* `` {p} \<subseteq> visited \<union> ?E\<^sup>* `` set queue" by simp
    moreover have "\<forall>q\<in>visited. set (nexts dependencies g q) \<subseteq> visited \<union> set queue" using 2(3) True by auto
    ultimately show ?thesis using 2(1) True by auto
  next
    case False
    let ?new = "filter (\<lambda>dep. dep \<notin> insert p visited) (nexts dependencies g p)"
    let ?R = "insert p visited \<union> ?E\<^sup>* `` set (queue @ ?new)"
    have "\<forall>q\<in>insert p visited. set (nexts dependencies g q) \<subseteq> insert p visited \<union> set (queue @ ?new)"
      using 2(3) by auto
    then have collect: "collect g (queue @ ?new) (insert p visited) = ?R" using 2(2) [OF False refl] by blast
    have "?E `` insert p visited \<subseteq> insert p visited \<union> set (queue @ ?new)"
      using 2(3) by (auto simp: next_edges_def)
    from closed_reaches [OF reaches_with [OF this], of "insert p (set queue)"]
    have "?E\<^sup>* `` insert p (set queue) \<subseteq> ?R" by auto
    moreover have "set (queue @ ?new) \<subseteq> ?E\<^sup>* `` insert p (set queue)"
      by (auto simp: next_edges_def Image_iff)
    then have "?R \<subseteq> visited \<union> ?E\<^sup>* `` insert p (set queue)"
      using closed_reaches [OF reached_closed] by blast
    moreover have "visited \<subseteq> ?R" by blast
    ultimately have "?R = visited \<union> ?E\<^sup>* `` insert p (set queue)" by blast
    then show ?thesis using False collect by simp
  qed
qed simp

lemma transitive_dependencies_closure: "transitive_dependencies g p = (next_edges dependencies g)\<^sup>+ `` {p}"
proof -
  have "(next_edges dependencies g)\<^sup>+ `` {p} = (next_edges dependencies g)\<^sup>* `` set (nexts dependencies g p)"
    by (auto simp: trancl_unfold_left next_edges_def Image_iff relcomp_unfold)
  then show ?thesis by (simp add: transitive_dependencies_def collect_closure)
qed

section \<open>The search for a cycle\<close>

abbreviation walk :: "dep_graph \<Rightarrow> rstring list \<Rightarrow> bool" where
  "walk g \<equiv> successively (\<lambda>p d. (p, d) \<in> dep_edges g)"

text \<open>A walk that ends in a package it has been at.\<close>

definition runs_into_itself :: "dep_graph \<Rightarrow> rstring list \<Rightarrow> bool" where
  "runs_into_itself g c \<longleftrightarrow> walk g c \<and> c \<noteq> [] \<and> last c \<in> set (butlast c)"

lemma walk_trancl: "walk g (p # ps @ [q]) \<Longrightarrow> (p, q) \<in> (dep_edges g)\<^sup>+"
proof (induction ps arbitrary: p)
  case (Cons x ps)
  then show ?case using trancl_into_trancl2 [of p x "dep_edges g" q] by simp
qed simp

lemma runs_into_itself_cyclic: "runs_into_itself g c \<Longrightarrow> \<not> acyclic (dep_edges g)"
proof -
  assume "runs_into_itself g c"
  then obtain b l where c: "c = b @ [l]" "l \<in> set b" "walk g c"
    unfolding runs_into_itself_def by (metis append_butlast_last_id)
  then obtain us vs where "b = us @ l # vs" by (auto simp: in_set_conv_decomp)
  then have "walk g (l # vs @ [l])" using c by (simp add: successively_append_iff)
  then have "(l, l) \<in> (dep_edges g)\<^sup>+" by (rule walk_trancl)
  then show ?thesis unfolding acyclic_def by blast
qed

definition finished :: "visits \<Rightarrow> rstring set" where
  "finished st = {p. st p = Some Done}"

definition unvisited :: "visits \<Rightarrow> rstring set" where
  "unvisited st = {p. st p = Some Unvisited}"

definition dfs_inv :: "dep_graph \<Rightarrow> visits \<Rightarrow> rstring list \<Rightarrow> bool" where
  "dfs_inv g st path \<longleftrightarrow>
     dom st = packages g \<and> distinct path \<and> (\<forall>p. st p = Some InProgress \<longleftrightarrow> p \<in> set path) \<and> walk g path \<and>
     (\<forall>p\<in>finished st. deps_in g p \<subseteq> finished st) \<and> acyclic (dep_edges g \<inter> finished st \<times> UNIV)"

lemma acyclic_new_source:
  assumes "acyclic R" and "Range (R \<union> S) \<subseteq> D" and "S \<subseteq> {p} \<times> UNIV" and "p \<notin> D"
  shows "acyclic (R \<union> S)"
proof -
  have "y \<in> D \<and> (x \<noteq> p \<longrightarrow> (x, y) \<in> R\<^sup>+)" if "(x, y) \<in> (R \<union> S)\<^sup>+" for x y
    using that
  proof (induction rule: trancl_induct)
    case (base y)
    then show ?case using assms(2,3) by auto
  next
    case (step y z)
    then have "(y, z) \<in> R" "z \<in> D" using assms(2,3,4) by auto
    then show ?case using step.IH by (auto intro: trancl_into_trancl)
  qed
  then show ?thesis using assms(1,4) unfolding acyclic_def by metis
qed

text \<open>Marking a package whose dependencies are all done.\<close>

lemma dfs_finish:
  assumes inv: "dfs_inv g st (path @ [p])" and deps: "deps_in g p \<subseteq> finished st"
  shows "dfs_inv g (st(p \<mapsto> Done)) path"
proof -
  have p: "st p = Some InProgress" "p \<notin> set path"
    using inv by (auto simp: dfs_inv_def)
  then have "p \<notin> finished st" by (simp add: finished_def)
  note p = p this
  then have fin: "finished (st(p \<mapsto> Done)) = insert p (finished st)" by (auto simp: finished_def)
  have edges: "dep_edges g \<inter> insert p (finished st) \<times> UNIV = (dep_edges g \<inter> finished st \<times> UNIV) \<union> {p} \<times> deps_in g p"
    by (auto simp: dep_edges_def)
  have "acyclic ((dep_edges g \<inter> finished st \<times> UNIV) \<union> {p} \<times> deps_in g p)"
    by (rule acyclic_new_source [of _ _ "finished st" p])
      (use inv deps p in \<open>auto simp: dfs_inv_def dep_edges_def\<close>)
  moreover have "\<forall>q. (st(p \<mapsto> Done)) q = Some InProgress \<longleftrightarrow> q \<in> set path"
    using inv p(2) by (auto simp: dfs_inv_def split: if_splits)
  moreover have "dom (st(p \<mapsto> Done)) = packages g" "distinct path" "walk g path"
    using inv p(1) by (auto simp: dfs_inv_def successively_append_iff)
  moreover have "\<forall>q\<in>insert p (finished st). deps_in g q \<subseteq> insert p (finished st)"
    using inv deps by (auto simp: dfs_inv_def)
  ultimately show ?thesis unfolding dfs_inv_def fin edges by blast
qed

lemma dfs_start:
  assumes "dfs_inv g st path" and "st p = Some Unvisited" and "path = [] \<or> (last path, p) \<in> dep_edges g"
  shows "dfs_inv g (st(p \<mapsto> InProgress)) (path @ [p])" "unvisited (st(p \<mapsto> InProgress)) = unvisited st - {p}"
proof -
  have fin: "finished (st(p \<mapsto> InProgress)) = finished st" using assms(2) by (auto simp: finished_def)
  have "p \<notin> set path" using assms(1,2) unfolding dfs_inv_def by (metis option.inject visit_state.distinct(1))
  moreover have "dom (st(p \<mapsto> InProgress)) = dom st" using assms(2) by auto
  moreover have "walk g (path @ [p])"
    using assms(1,3) by (cases "path = []") (auto simp: dfs_inv_def successively_append_iff)
  ultimately show "dfs_inv g (st(p \<mapsto> InProgress)) (path @ [p])"
    using assms(1) fin by (auto simp: dfs_inv_def)
  show "unvisited (st(p \<mapsto> InProgress)) = unvisited st - {p}" by (auto simp: unvisited_def)
qed

text \<open>What a search that comes back has done: the path is as before, and states only advanced.\<close>

definition searched :: "dep_graph \<Rightarrow> visits \<Rightarrow> rstring list \<Rightarrow> rstring set \<Rightarrow>
    (rstring list + visits \<times> rstring list) option \<Rightarrow> bool" where
  "searched g st path ds r =
     (case r of
        None \<Rightarrow> False
      | Some (Inl c) \<Rightarrow> runs_into_itself g c
      | Some (Inr (st', path')) \<Rightarrow>
          path' = path \<and> dfs_inv g st' path \<and> finished st \<union> ds \<subseteq> finished st' \<and> unvisited st' \<subseteq> unvisited st)"

lemma searched_trans:
  assumes "searched g st path A (Some (Inr (st', path')))" and "searched g st' path' B r"
  shows "searched g st path (A \<union> B) r"
  using assms by (auto simp: searched_def split: option.splits sum.splits)

lemma unvisited_packages: "dfs_inv g st path \<Longrightarrow> unvisited st \<subseteq> packages g"
  unfolding dfs_inv_def unvisited_def by (metis (mono_tags) domI mem_Collect_eq subsetI)

lemma finite_unvisited: "dfs_inv g st path \<Longrightarrow> finite (unvisited st)"
  using finite_subset [OF unvisited_packages finite_packages] .

lemma dfs_package_correct:
  "dfs_inv g st path \<Longrightarrow> st p = Some Unvisited \<Longrightarrow> path = [] \<or> (last path, p) \<in> dep_edges g \<Longrightarrow>
   card (unvisited st) \<le> n \<Longrightarrow> searched g st path {p} (dfs_package n g p st path)"
  "dfs_inv g st path \<Longrightarrow> path \<noteq> [] \<Longrightarrow> set ds \<inter> packages g \<subseteq> deps_in g (last path) \<Longrightarrow>
   card (unvisited st) \<le> n \<Longrightarrow> searched g st path (set ds \<inter> packages g) (dfs_deps n g ds st path)"
proof (induction n g p st path and n g ds st path rule: dfs_package_dfs_deps.induct)
  case (1 g p st path)
  then have "p \<in> unvisited st" "finite (unvisited st)" using finite_unvisited by (auto simp: unvisited_def)
  then show ?case using 1(4) by auto
next
  case (2 n g p st path)
  let ?st = "st(p \<mapsto> InProgress)"
  note start = dfs_start [OF 2(2-4)]
  have "p \<in> unvisited st" "finite (unvisited st)" using 2(3) finite_unvisited [OF 2(2)] by (auto simp: unvisited_def)
  then have "card (unvisited ?st) \<le> n" using 2(5) start(2) by simp
  moreover have deps: "set (nexts dependencies g p) \<inter> packages g = deps_in g p"
    by (auto simp: deps_in_def packages_def)
  ultimately have s: "searched g ?st (path @ [p]) (deps_in g p) (dfs_deps n g (nexts dependencies g p) ?st (path @ [p]))"
    using 2(1) start(1) by (simp add: fun_upd_def)
  have fin: "finished ?st = finished st" using 2(3) by (auto simp: finished_def)
  show ?case
  proof (cases "dfs_deps n g (nexts dependencies g p) ?st (path @ [p])")
    case (Some r)
    show ?thesis
    proof (cases r)
      case (Inr sp)
      then obtain st' where r: "r = Inr (st', path @ [p])" "dfs_inv g st' (path @ [p])"
        "finished st \<union> deps_in g p \<subseteq> finished st'" "unvisited st' \<subseteq> unvisited st - {p}"
        using s Some start(2) fin by (cases sp) (auto simp: searched_def)
      then have "dfs_inv g (st'(p \<mapsto> Done)) path" using dfs_finish by blast
      moreover have "finished (st'(p \<mapsto> Done)) = insert p (finished st')" "unvisited (st'(p \<mapsto> Done)) \<subseteq> unvisited st'"
        by (auto simp: finished_def unvisited_def)
      ultimately show ?thesis using r Some by (auto simp: searched_def)
    qed (use s Some in \<open>simp add: searched_def\<close>)
  qed (use s in \<open>simp add: searched_def\<close>)
next
  case (3 n g st path)
  then show ?case by (simp add: searched_def)
next
  case (4 n g d ds st path)
  show ?case
  proof (cases "get_node g d = None")
    case True
    then show ?thesis using 4 by (simp add: packages_def)
  next
    case False
    then have d: "d \<in> packages g" "(last path, d) \<in> dep_edges g" "set ds \<inter> packages g \<subseteq> deps_in g (last path)"
      using 4(8) by (auto simp: packages_def dep_edges_def)
    have split: "set (d # ds) \<inter> packages g = {d} \<union> (set ds \<inter> packages g)" using d(1) by auto
    have "d \<in> dom st" using 4(6) d(1) by (simp add: dfs_inv_def)
    then obtain v where v: "st d = Some v" by auto
    show ?thesis
    proof (cases v)
      case InProgress
      then have "d \<in> set path" using 4(6) v by (auto simp: dfs_inv_def)
      moreover have "walk g (path @ [d])" using 4(6,7) d(2) by (auto simp: dfs_inv_def successively_append_iff)
      ultimately have "runs_into_itself g (path @ [d])" by (simp add: runs_into_itself_def)
      moreover have "dfs_deps n g (d # ds) st path = Some (Inl (path @ [d]))" using False v InProgress by (simp del: not_None_eq)
      ultimately show ?thesis by (simp only: searched_def option.case sum.case)
    next
      case Done
      then have "searched g st path {d} (Some (Inr (st, path)))"
        using 4(6) v by (auto simp: searched_def finished_def)
      then show ?thesis
        unfolding split using searched_trans 4(5) [OF False v Done 4(6,7) d(3) 4(9)] False v Done by (simp del: Un_insert_left not_None_eq)
    next
      case Unvisited
      have s: "searched g st path {d} (dfs_package n g d st path)"
        using 4(3) [OF False v Unvisited 4(6)] v Unvisited d(2) 4(9) by simp
      show ?thesis
      proof (cases "dfs_package n g d st path")
        case (Some r)
        show ?thesis
        proof (cases r)
          case (Inl c)
          then show ?thesis using s Some False v Unvisited by (simp add: searched_def del: not_None_eq)
        next
          case (Inr sp)
          then obtain st' where r: "dfs_package n g d st path = Some (Inr (st', path))" "dfs_inv g st' path"
            "unvisited st' \<subseteq> unvisited st"
            using s Some by (cases sp) (auto simp: searched_def)
          have "card (unvisited st') \<le> n"
            using card_mono [OF finite_unvisited [OF 4(6)] r(3)] 4(9) by simp
          then have "searched g st' path (set ds \<inter> packages g) (dfs_deps n g ds st' path)"
            using 4(4) [OF False v Unvisited r(1) refl refl r(2) 4(7) d(3)] by simp
          then show ?thesis
            unfolding split using searched_trans [OF s [unfolded r(1)]] False v Unvisited r(1) by (simp del: not_None_eq)
        qed
      qed (use s in \<open>simp add: searched_def\<close>)
    qed
  qed
qed

lemma dfs_roots_correct:
  assumes "dfs_inv g st []" and "set pkgs \<subseteq> packages g" and "packages g \<subseteq> set pkgs \<union> finished st"
    and "length (nodes g) = card (packages g)"
  shows "\<exists>r. dfs_roots g pkgs st [] = Some r \<and>
    (case r of None \<Rightarrow> acyclic (dep_edges g) | Some c \<Rightarrow> runs_into_itself g c)"
  using assms(1-3)
proof (induction pkgs arbitrary: st)
  case Nil
  then have "dep_edges g \<inter> finished st \<times> UNIV = dep_edges g" using dep_edges_packages [of g] by auto
  then show ?case using Nil(1) by (simp add: dfs_inv_def)
next
  case (Cons p pkgs)
  show ?case
  proof (cases "st p = Some Unvisited")
    case True
    have "card (unvisited st) \<le> length (nodes g)"
      using card_mono [OF finite_packages unvisited_packages [OF Cons.prems(1)]] assms(4) by simp
    then have s: "searched g st [] {p} (dfs_package (length (nodes g)) g p st [])"
      using dfs_package_correct(1) [OF Cons.prems(1) True] by simp
    show ?thesis
    proof (cases "dfs_package (length (nodes g)) g p st []")
      case (Some r)
      show ?thesis
      proof (cases r)
        case (Inr sp)
        then obtain st' where r: "r = Inr (st', [])" "dfs_inv g st' []" "insert p (finished st) \<subseteq> finished st'"
          using s Some by (cases sp) (auto simp: searched_def)
        moreover have "packages g \<subseteq> set pkgs \<union> finished st'" using Cons.prems(3) r(3) by auto
        ultimately show ?thesis using Cons.IH [OF r(2)] Cons.prems(2) True Some by simp
      qed (use s Some True in \<open>simp add: searched_def\<close>)
    qed (use s in \<open>simp add: searched_def\<close>)
  next
    case False
    have "p \<in> dom st" "st p \<noteq> Some InProgress" using Cons.prems(1,2) by (auto simp: dfs_inv_def)
    then obtain v where "st p = Some v" "v \<noteq> InProgress" by auto
    then have "p \<in> finished st" using False by (cases v) (auto simp: finished_def)
    then have "packages g \<subseteq> set pkgs \<union> finished st" using Cons.prems(3) by auto
    then show ?thesis using Cons.IH [OF Cons.prems(1)] Cons.prems(2) False by simp
  qed
qed

lemma detect_cycle_correct:
  assumes "graph_ok g"
  shows "\<exists>r. detect_cycle g = Some r \<and> (case r of None \<Rightarrow> acyclic (dep_edges g) | Some c \<Rightarrow> runs_into_itself g c)"
proof -
  let ?st = "map_of (map (\<lambda>k. (k, Unvisited)) (keys (nodes g)))"
  have st: "?st = (\<lambda>p. if p \<in> packages g then Some Unvisited else None)"
  proof -
    have "map_of (map (\<lambda>k. (k, v)) ks) p = (if p \<in> set ks then Some v else None)" for v ks p
      by (induction ks) auto
    from this [of Unvisited "keys (nodes g)"] show ?thesis
      by (intro ext) (simp only: packages_keys)
  qed
  have "card (packages g) = length (nodes g)"
    using ordered_distinct assms unfolding packages_keys graph_ok_def by (metis distinct_card length_map)
  moreover have "dfs_inv g ?st []"
    unfolding st by (auto simp: dfs_inv_def finished_def acyclic_def split: if_splits)
  ultimately show ?thesis
    using dfs_roots_correct [of g ?st "keys (nodes g)"] by (simp add: detect_cycle_def packages_keys)
qed

section \<open>The builder\<close>

definition builder_ok :: "dep_graph_builder \<Rightarrow> bool" where
  "builder_ok b \<longleftrightarrow>
     ordered (builder_nodes b) \<and>
     (\<forall>(k, n)\<in>set (builder_nodes b). package n = k \<and> dependencies n = [] \<and> dependents n = [])"

lemma set_bt_insert: "set (bt_insert k v m) \<subseteq> insert (k, v) (set m)"
  by (induction k v m rule: bt_insert.induct) auto

lemma set_bt_modify: "set (bt_modify k f m) \<subseteq> set m \<union> {(k, f v) |v. (k, v) \<in> set m}"
  by (induction k f m rule: bt_modify.induct) auto

text \<open>Every operation of the builder keeps it so.\<close>

lemma builder_ok_operations:
  "builder_ok builder_new"
  "builder_ok b \<Longrightarrow> builder_ok (add_package name b)"
  "builder_ok b \<Longrightarrow> builder_ok (add_package_with_fingerprint name fp b)"
  "builder_ok b \<Longrightarrow> builder_ok (builder_add_file name path b)"
  "builder_ok b \<Longrightarrow> builder_ok (add_import src dst b)"
proof -
  show "builder_ok builder_new" by (simp add: builder_ok_def builder_new_def ordered_def)
  show "builder_ok (add_package name b)" if "builder_ok b"
    using that set_bt_insert [of name "dep_node_new name" "builder_nodes b"]
    by (auto simp: builder_ok_def add_package_def bt_entry_def dep_node_new_def)
  show "builder_ok (add_package_with_fingerprint name fp b)" if "builder_ok b"
    using that set_bt_insert [of name "with_source_fingerprint fp (dep_node_new name)" "builder_nodes b"]
    by (fastforce simp: builder_ok_def add_package_with_fingerprint_def with_source_fingerprint_def dep_node_new_def)
  show "builder_ok (builder_add_file name path b)" if "builder_ok b"
    using that set_bt_modify [of name "node_add_file path" "builder_nodes b"]
    by (fastforce simp: builder_ok_def builder_add_file_def node_add_file_def)
  show "builder_ok (add_import src dst b)" if "builder_ok b"
    using that by (simp add: builder_ok_def add_import_def)
qed

text \<open>A graph whose nodes record exactly the imports \<open>es\<close>.\<close>

definition records :: "rstring set \<Rightarrow> (rstring \<times> rstring) set \<Rightarrow> dep_graph \<Rightarrow> bool" where
  "records N es g \<longleftrightarrow>
     ordered (nodes g) \<and> packages g = N \<and>
     (\<forall>p n. get_node g p = Some n \<longrightarrow>
        sorted_wrt (<) (dependencies n) \<and> set (dependencies n) = {d. (p, d) \<in> es} \<and>
        sorted_wrt (<) (dependents n) \<and> set (dependents n) = {u. (u, p) \<in> es})"

lemma records_add_edge:
  assumes "records N es g"
  shows "records N (insert (src, dst) es) (add_edge src dst g)"
proof -
  have get: "get_node (add_edge src dst g) p =
      map_option (\<lambda>n. (if p = dst then add_dependent src else id) ((if p = src then add_dependency dst else id) n)) (get_node g p)"
    for p by (cases "get_node g p") (auto simp: get_node_def add_edge_def)
  then have "packages (add_edge src dst g) = packages g" by (simp add: packages_def)
  moreover have "ordered (nodes (add_edge src dst g))" using assms by (simp add: add_edge_def records_def)
  ultimately show ?thesis
    using assms by (auto simp: records_def get add_dependent_def add_dependency_def strict_sorted_iff
      set_insort_insert sorted_insort_insert distinct_insort_insert split: if_splits)
qed

lemma records_edges: "records N es0 g \<Longrightarrow> records N (es0 \<union> set es) (fold (\<lambda>(src, dst). add_edge src dst) es g)"
proof (induction es arbitrary: es0 g)
  case (Cons e es)
  then show ?case using Cons.IH [OF records_add_edge [OF Cons.prems, of "fst e" "snd e"]] by (simp add: case_prod_beta)
qed simp

lemma add_nodes:
  assumes "distinct (keys ns)" and "\<forall>(k, n)\<in>set ns. package n = k" and "ordered (nodes g)"
  shows "ordered (nodes (fold (\<lambda>(_, n). add_node n) ns g)) \<and>
    get_node (fold (\<lambda>(_, n). add_node n) ns g) p = (case map_of ns p of Some n \<Rightarrow> Some n | None \<Rightarrow> get_node g p)"
  using assms
proof (induction ns arbitrary: g)
  case (Cons kn ns)
  obtain k n where kn: "kn = (k, n)" by (cases kn)
  have "nodes (add_node n g) = bt_insert k n (nodes g)" using Cons.prems(2) kn by (simp add: add_node_def)
  moreover have "map_of ns k = None" using Cons.prems(1) kn by (simp add: map_of_eq_None_iff)
  ultimately show ?case
    using Cons.IH [of "add_node n g"] Cons.prems kn by (auto simp: get_node_def split: option.split)
qed simp

text \<open>The imports that the builder has recorded, between packages it knows.\<close>

definition imports_of :: "dep_graph_builder \<Rightarrow> (rstring \<times> rstring) set" where
  "imports_of b = set (builder_edges b) \<inter> set (keys (builder_nodes b)) \<times> set (keys (builder_nodes b))"

lemma records_graph:
  assumes "records N es g"
  shows "graph_ok g" "dep_edges g = es \<inter> N \<times> N" "next_edges dependents g = {(d, p). (p, d) \<in> es \<and> d \<in> N}"
    "next_edges dependencies g = {(p, d). (p, d) \<in> es \<and> p \<in> N}"
proof -
  have node: "get_node g k = Some n" if "(k, n) \<in> set (nodes g)" for k n
    using assms that map_of_is_SomeI [OF ordered_distinct [of "nodes g"]] by (simp add: records_def get_node_def)
  then show "graph_ok g"
    using assms by (force simp: graph_ok_def records_def strict_sorted_iff)
  have N: "p \<in> N \<longleftrightarrow> get_node g p \<noteq> None" for p using assms by (auto simp: records_def packages_def)
  show deps: "next_edges dependencies g = {(p, d). (p, d) \<in> es \<and> p \<in> N}"
    using assms N by (auto simp: next_edges_def nexts_def records_def split: option.splits)
  show "next_edges dependents g = {(d, p). (p, d) \<in> es \<and> d \<in> N}"
    using assms N by (auto simp: next_edges_def nexts_def records_def split: option.splits)
  have "dep_edges g = {(p, d). (p, d) \<in> next_edges dependencies g \<and> d \<in> N}"
    using N by (auto simp: dep_edges_def deps_in_def next_edges_def)
  then show "dep_edges g = es \<inter> N \<times> N" unfolding deps by auto
qed

lemma builder_build_correct:
  assumes ok: "builder_ok b"
  shows "\<exists>g. builder_build b = Some g \<and> records (set (keys (builder_nodes b))) (set (builder_edges b)) g \<and>
    (if acyclic (imports_of b) then build_order_of g (build_order g) else build_order g = [])"
proof -
  let ?N = "set (keys (builder_nodes b))"
  let ?start = "fold (\<lambda>(_, n). add_node n) (builder_nodes b) graph_new"
  let ?g = "fold (\<lambda>(src, dst). add_edge src dst) (builder_edges b) ?start"
  have "distinct (keys (builder_nodes b))" "\<forall>(k, n)\<in>set (builder_nodes b). package n = k"
    using ok ordered_distinct [of "builder_nodes b"] by (auto simp: builder_ok_def)
  moreover have "ordered (nodes graph_new)" "get_node graph_new p = None" for p
    by (simp_all add: graph_new_def ordered_def get_node_def)
  ultimately have start: "ordered (nodes ?start)" "get_node ?start p = map_of (builder_nodes b) p" for p
    using add_nodes [of "builder_nodes b" graph_new p] by (auto split: option.splits)
  have "records ?N {} ?start"
    using start ok unfolding records_def packages_def builder_ok_def
    by (auto simp: map_of_eq_None_iff dest!: map_of_SomeD simp del: not_None_eq)
  from records_edges [OF this] have g: "records ?N (set (builder_edges b)) ?g" by simp
  obtain r where r: "topological_sort ?g = Some r"
    "if acyclic (dep_edges ?g) then \<exists>order. r = Some order \<and> build_order_of ?g order else r = None"
    using topological_sort_correct [OF records_graph(1) [OF g]] by blast
  let ?g' = "case r of Some order \<Rightarrow> ?g\<lparr>build_order := order\<rparr> | None \<Rightarrow> ?g"
  have b: "builder_build b = Some ?g'"
    using r(1) by (simp add: builder_build_def compute_build_order_def split: option.split)
  have same: "records N es (h\<lparr>build_order := os\<rparr>) = records N es h" "build_order_of (h\<lparr>build_order := os\<rparr>) = build_order_of h"
    for N es os and h :: dep_graph
    by (auto simp: records_def packages_def get_node_def build_order_of_def deps_in_def nexts_def fun_eq_iff)
  have "build_order (add_edge u v h) = build_order h" "build_order (add_node n h) = build_order h" for u v n h
    by (simp_all add: add_edge_def add_node_def)
  then have "build_order (fold (\<lambda>(_, n). add_node n) ns h) = build_order h"
    "build_order (fold (\<lambda>(src, dst). add_edge src dst) es h) = build_order h" for ns :: "dep_node btree_map" and es h
    by (induction ns arbitrary: h, simp_all add: case_prod_beta) (induction es arbitrary: h, simp_all add: case_prod_beta)
  then have "build_order ?g = []" by (simp add: graph_new_def)
  moreover have "dep_edges ?g = imports_of b" using records_graph(2) [OF g] by (simp add: imports_of_def)
  ultimately show ?thesis using b g r(2) same by (auto split: if_splits)
qed

section \<open>What a built graph promises\<close>

text \<open>
  C8: the builder orders the packages so that each comes behind all it imports, when the imports
  between its packages have no cycle, and leaves the build order empty when they have one; the
  dependency counters never go below zero.
\<close>

theorem builder_orders_packages:
  assumes "builder_ok b"
  shows "\<exists>g. builder_build b = Some g \<and>
    (if acyclic (imports_of b)
     then distinct (build_order g) \<and> set (build_order g) = set (keys (builder_nodes b)) \<and>
       (\<forall>i<length (build_order g). \<forall>d. (build_order g ! i, d) \<in> imports_of b \<longrightarrow> d \<in> set (take i (build_order g)))
     else build_order g = [])"
proof -
  obtain g where g: "builder_build b = Some g" "records (set (keys (builder_nodes b))) (set (builder_edges b)) g"
    "if acyclic (imports_of b) then build_order_of g (build_order g) else build_order g = []"
    using builder_build_correct [OF assms] by blast
  have "dep_edges g = imports_of b" "packages g = set (keys (builder_nodes b))"
    using records_graph(2) [OF g(2)] g(2) by (auto simp: imports_of_def records_def)
  moreover have "d \<in> deps_in g p \<longleftrightarrow> (p, d) \<in> dep_edges g" for p d by (simp add: dep_edges_def)
  ultimately show ?thesis
    using g(1,3) unfolding build_order_of_def subset_eq by (simp del: set_map)
qed

text \<open>Packages A, B and C; B imports A, and C imports A and B.\<close>

definition sample_builder :: dep_graph_builder where
  "sample_builder =
     add_import [67] [66] (add_import [67] [65] (add_import [66] [65]
       (add_package [67] (add_package [66] (add_package [65] builder_new)))))"

lemma sample_ok: "builder_ok sample_builder"
  unfolding sample_builder_def by (intro builder_ok_operations)

lemma sample_nodes: "keys (builder_nodes sample_builder) = [[65], [66], [67]]"
  by code_simp

lemma sample_imports: "imports_of sample_builder = {([66], [65]), ([67], [65]), ([67], [66])}"
proof -
  have "set (builder_edges sample_builder) = {([66], [65]), ([67], [65]), ([67], [66])}"
    by (auto simp: sample_builder_def add_import_def add_package_def builder_new_def)
  then show ?thesis unfolding imports_of_def sample_nodes by auto
qed

lemma sample_acyclic: "acyclic (imports_of sample_builder)"
proof -
  have "imports_of sample_builder \<subseteq> (measure (\<lambda>p. unat (hd p)))\<inverse>" by (auto simp: sample_imports)
  moreover have "acyclic ((measure (\<lambda>p :: rstring. unat (hd p)))\<inverse>)" by (simp add: wf_acyclic)
  ultimately show ?thesis by (rule acyclic_subset [rotated])
qed

theorem builder_orders_packages_witness:
  "\<exists>g. builder_build sample_builder = Some g \<and> set (build_order g) = {[65], [66], [67]}"
  using builder_orders_packages [OF sample_ok] sample_acyclic by (auto simp: sample_nodes simp flip: set_map)

text \<open>
  C9: on a built graph the search for a cycle ends within its depth, and finds one exactly when the
  topological sort gives up; what it returns is a chain of imports that ends in a package it has passed.
\<close>

theorem cycle_search_agrees:
  assumes "builder_ok b" and "builder_build b = Some g"
  shows "\<exists>r. detect_cycle g = Some r \<and> (r = None \<longleftrightarrow> topological_sort g \<noteq> Some None) \<and>
    (\<forall>c. r = Some c \<longrightarrow>
       successively (\<lambda>p d. (p, d) \<in> imports_of b) c \<and> c \<noteq> [] \<and> last c \<in> set (butlast c))"
proof -
  have g: "records (set (keys (builder_nodes b))) (set (builder_edges b)) g"
    using builder_build_correct [OF assms(1)] assms(2) by auto
  then have e: "dep_edges g = imports_of b" using records_graph(2) by (simp add: imports_of_def)
  note ok = records_graph(1) [OF g]
  obtain r where r: "detect_cycle g = Some r"
    "case r of None \<Rightarrow> acyclic (dep_edges g) | Some c \<Rightarrow> runs_into_itself g c"
    using detect_cycle_correct [OF ok] by blast
  have "r = None \<longleftrightarrow> acyclic (dep_edges g)" using r(2) runs_into_itself_cyclic by (cases r) auto
  moreover have "topological_sort g \<noteq> Some None \<longleftrightarrow> acyclic (dep_edges g)"
    using topological_sort_correct [OF ok] by (auto split: if_splits)
  ultimately show ?thesis using r e by (auto simp: runs_into_itself_def)
qed

text \<open>The sample with an import of C by A.\<close>

theorem cycle_search_agrees_witness:
  "\<exists>g r. builder_build (add_import [65] [67] sample_builder) = Some g \<and> detect_cycle g = Some r"
proof -
  have ok: "builder_ok (add_import [65] [67] sample_builder)" using sample_ok builder_ok_operations(5) by blast
  obtain g where "builder_build (add_import [65] [67] sample_builder) = Some g"
    using builder_build_correct [OF ok] by blast
  then show ?thesis using cycle_search_agrees [OF ok] by blast
qed

end
