(* ===== verification/Incremental.thy ===== *)
theory Incremental
  imports Dep_Search
begin

text \<open>
  Incremental builds: the index of the project cache, \<^verbatim>\<open>project_cache.rs\<close>, and the plan a compile
  session makes, \<^verbatim>\<open>incremental/mod.rs\<close>. The clock and the existence of files are parameters;
  reading and writing the files themselves is left out, and so is the fingerprinting with SHA-256.
\<close>

section \<open>The cache index\<close>

record cached_artifacts =
  ir_path :: "rstring option"
  bytecode_path :: "rstring option"

record cached_package =
  cp_name :: rstring
  input_fingerprint :: fingerprint
  cp_interface_fingerprint :: fingerprint
  created_at :: u64
  artifacts :: cached_artifacts

record cache_index =
  index_version :: u32
  updated_at :: u64
  config_fingerprint :: rstring
  cached_packages :: "cached_package btree_map"

datatype package_cache_status = Hit | Miss | Stale | Corrupt

record project_cache =
  cache_root :: rstring
  index :: cache_index
  dirty :: bool

definition CACHE_FORMAT_VERSION :: u32 where
  "CACHE_FORMAT_VERSION = 1"

definition cache_index_new :: "u64 \<Rightarrow> rstring \<Rightarrow> cache_index" where
  "cache_index_new now config =
     \<lparr>index_version = CACHE_FORMAT_VERSION, updated_at = now, config_fingerprint = config, cached_packages = []\<rparr>"

definition is_compatible :: "cache_index \<Rightarrow> bool" where
  "is_compatible i \<longleftrightarrow> index_version i = CACHE_FORMAT_VERSION"

definition touch :: "u64 \<Rightarrow> cache_index \<Rightarrow> cache_index" where
  "touch now i = i\<lparr>updated_at := now\<rparr>"

text \<open>The index read from the cache directory, if there is one.\<close>

definition open_cache :: "u64 \<Rightarrow> rstring \<Rightarrow> rstring \<Rightarrow> cache_index option \<Rightarrow> project_cache" where
  "open_cache now root config stored =
     \<lparr>cache_root = root,
      index =
        (case stored of
           Some i \<Rightarrow>
             if \<not> is_compatible i \<or> config_fingerprint i \<noteq> config then cache_index_new now config
             else touch now i
         | None \<Rightarrow> cache_index_new now config),
      dirty = False\<rparr>"

definition artifacts_exist :: "(rstring \<Rightarrow> bool) \<Rightarrow> cached_package \<Rightarrow> bool" where
  "artifacts_exist exists_file e =
     ((case ir_path (artifacts e) of Some p \<Rightarrow> exists_file p | None \<Rightarrow> True) \<and>
      (case bytecode_path (artifacts e) of Some p \<Rightarrow> exists_file p | None \<Rightarrow> True))"

definition cache_get :: "project_cache \<Rightarrow> rstring \<Rightarrow> cached_package option" where
  "cache_get c pkg = map_of (cached_packages (index c)) pkg"

definition status :: "(rstring \<Rightarrow> bool) \<Rightarrow> project_cache \<Rightarrow> rstring \<Rightarrow> fingerprint \<Rightarrow> package_cache_status" where
  "status exists_file c pkg fp =
     (case cache_get c pkg of
        None \<Rightarrow> Miss
      | Some e \<Rightarrow>
          if fp_hash (input_fingerprint e) \<noteq> fp_hash fp then Stale
          else if \<not> artifacts_exist exists_file e then Corrupt
          else Hit)"

definition get_if_valid :: "(rstring \<Rightarrow> bool) \<Rightarrow> project_cache \<Rightarrow> rstring \<Rightarrow> fingerprint \<Rightarrow> cached_package option" where
  "get_if_valid exists_file c pkg fp = (if status exists_file c pkg fp = Hit then cache_get c pkg else None)"

definition cache_insert :: "u64 \<Rightarrow> cached_package \<Rightarrow> project_cache \<Rightarrow> project_cache" where
  "cache_insert now e c =
     c\<lparr>index := touch now ((index c)\<lparr>cached_packages := bt_insert (cp_name e) e (cached_packages (index c))\<rparr>),
       dirty := True\<rparr>"

fun bt_remove :: "rstring \<Rightarrow> 'v btree_map \<Rightarrow> 'v btree_map" where
  "bt_remove k [] = []"
| "bt_remove k ((k', v) # m) = (if k = k' then m else (k', v) # bt_remove k m)"

definition cache_invalidate :: "u64 \<Rightarrow> rstring list \<Rightarrow> project_cache \<Rightarrow> project_cache" where
  "cache_invalidate now pkgs c =
     c\<lparr>index := touch now ((index c)\<lparr>cached_packages := fold bt_remove pkgs (cached_packages (index c))\<rparr>),
       dirty := True\<rparr>"

definition cache_clear :: "u64 \<Rightarrow> project_cache \<Rightarrow> project_cache" where
  "cache_clear now c = c\<lparr>index := touch now ((index c)\<lparr>cached_packages := []\<rparr>), dirty := True\<rparr>"

text \<open>Collection of the entries older than some days: the numbers removed and kept, and the cache.\<close>

definition cache_gc :: "u64 \<Rightarrow> u32 \<Rightarrow> project_cache \<Rightarrow> (nat \<times> nat) \<times> project_cache" where
  "cache_gc now max_age_days c =
     (let max_age = ucast max_age_days * 24 * 60 * 60;
          cutoff = (if max_age \<le> now then now - max_age else 0);
          old = filter (\<lambda>(k, e). created_at e < cutoff) (cached_packages (index c));
          kept = filter (\<lambda>(k, e). \<not> created_at e < cutoff) (cached_packages (index c))
      in ((length old, length kept), cache_invalidate now (keys old) c))"

section \<open>Planning a build\<close>

datatype recompile_reason =
    NotCached | SourceChanged | DependencyChanged rstring | ConfigChanged | CacheCorrupt

record session_stats =
  cache_hits :: nat
  cache_misses :: nat
  dep_invalidations :: nat
  incremental :: bool

record incremental_plan =
  recompile :: "rstring list"
  cached :: "rstring list"
  plan_build_order :: "rstring list"
  reasons :: "recompile_reason btree_map"

definition needs_build :: "incremental_plan \<Rightarrow> bool" where
  "needs_build p \<longleftrightarrow> recompile p \<noteq> []"

definition plan_new :: incremental_plan where
  "plan_new = \<lparr>recompile = [], cached = [], plan_build_order = [], reasons = []\<rparr>"

definition needs :: "recompile_reason \<Rightarrow> rstring \<Rightarrow> incremental_plan \<times> session_stats \<times> rstring set \<Rightarrow>
    incremental_plan \<times> session_stats \<times> rstring set" where
  "needs why pkg =
     (\<lambda>(plan, stats, changed). (plan\<lparr>reasons := bt_insert pkg why (reasons plan)\<rparr>, stats, insert pkg changed))"

definition classify ::
    "(rstring \<Rightarrow> bool) \<Rightarrow> project_cache \<Rightarrow> rstring \<times> fingerprint \<Rightarrow> incremental_plan \<times> session_stats \<times> rstring set \<Rightarrow>
     incremental_plan \<times> session_stats \<times> rstring set" where
  "classify exists_file c =
     (\<lambda>(pkg, fp) (plan, stats, changed).
        case status exists_file c pkg fp of
          Hit \<Rightarrow>
            if cache_get c pkg \<noteq> None then
              (plan\<lparr>cached := cached plan @ [pkg]\<rparr>, stats\<lparr>cache_hits := cache_hits stats + 1\<rparr>, changed)
            else needs NotCached pkg (plan, stats, changed)
        | Miss \<Rightarrow> needs NotCached pkg (plan, stats, changed)
        | Stale \<Rightarrow> needs SourceChanged pkg (plan, stats, changed)
        | Corrupt \<Rightarrow> needs CacheCorrupt pkg (plan, stats, changed))"

definition invalidate_dependent ::
    "dep_graph \<Rightarrow> rstring set \<Rightarrow> rstring \<Rightarrow> incremental_plan \<times> session_stats \<Rightarrow> incremental_plan \<times> session_stats" where
  "invalidate_dependent g changed pkg =
     (\<lambda>(plan, stats).
        let (plan, stats) =
          (case dependencies_of g pkg of
             None \<Rightarrow> (plan, stats)
           | Some deps \<Rightarrow>
               (case find (\<lambda>dep. dep \<in> changed) deps of
                  None \<Rightarrow> (plan, stats)
                | Some dep \<Rightarrow>
                    (plan\<lparr>reasons := bt_insert pkg (DependencyChanged dep) (reasons plan)\<rparr>,
                     stats\<lparr>dep_invalidations := dep_invalidations stats + 1\<rparr>)))
        in (plan\<lparr>cached := filter (\<lambda>p. p \<noteq> pkg) (cached plan)\<rparr>, stats\<lparr>cache_hits := cache_hits stats - 1\<rparr>))"

definition schedule :: "rstring \<Rightarrow> incremental_plan \<times> session_stats \<Rightarrow> incremental_plan \<times> session_stats" where
  "schedule pkg =
     (\<lambda>(plan, stats).
        (plan\<lparr>recompile := recompile plan @ [pkg]\<rparr>, stats\<lparr>cache_misses := cache_misses stats + 1\<rparr>))"

definition propagate ::
    "dep_graph \<Rightarrow> rstring set \<Rightarrow> rstring \<Rightarrow> incremental_plan \<times> session_stats \<Rightarrow> incremental_plan \<times> session_stats" where
  "propagate g changed pkg ps =
     schedule pkg (if pkg \<notin> changed then invalidate_dependent g changed pkg ps else ps)"

fun position :: "rstring list \<Rightarrow> rstring \<Rightarrow> nat option" where
  "position [] x = None"
| "position (y # ys) x = (if y = x then Some 0 else map_option Suc (position ys x))"

text \<open>\<open>order\<close> is the order in which the hash sets yield their elements, \<open>2 ^ 64 - 1\<close> is \<^verbatim>\<open>usize::MAX\<close>.\<close>

definition make_plan ::
    "(rstring set \<Rightarrow> rstring list) \<Rightarrow> (rstring \<Rightarrow> bool) \<Rightarrow> project_cache \<Rightarrow> session_stats \<Rightarrow>
     fingerprint btree_map \<Rightarrow> dep_graph \<Rightarrow> incremental_plan \<times> session_stats" where
  "make_plan order exists_file c stats fps g =
     (let (plan, stats, changed) = fold (classify exists_file c) fps (plan_new, stats, {});
          all_invalidated = invalidated_by g (order changed);
          ps = fold (propagate g changed) (order all_invalidated) (plan, stats);
          ps = fold (\<lambda>pkg ps. if pkg \<in> set (recompile (fst ps)) then ps else schedule pkg ps) (order changed) ps;
          (plan, stats) = ps;
          key = (\<lambda>pkg. case position (build_order g) pkg of Some i \<Rightarrow> i | None \<Rightarrow> 2 ^ 64 - 1)
      in (plan\<lparr>recompile := sort_key key (recompile plan), plan_build_order := build_order g\<rparr>, stats))"

section \<open>What a plan recompiles\<close>

lemma classify_one:
  "\<exists>plan1 stats1. classify exists_file c (p, fp) (plan, stats, changed) =
     (plan1, stats1, if status exists_file c p fp = Hit then changed else insert p changed) \<and>
     recompile plan1 = recompile plan \<and>
     cached plan1 = cached plan @ (if status exists_file c p fp = Hit then [p] else [])"
proof -
  have "cache_get c p \<noteq> None" if "status exists_file c p fp = Hit"
    using that by (auto simp: status_def split: option.splits)
  then show ?thesis by (cases "status exists_file c p fp") (auto simp: classify_def needs_def)
qed

lemma classify_all:
  "fold (classify exists_file c) fps (plan, stats, changed) = (plan', stats', changed') \<Longrightarrow>
   recompile plan' = recompile plan \<and>
   cached plan' = cached plan @ keys (filter (\<lambda>(p, fp). status exists_file c p fp = Hit) fps) \<and>
   changed' = changed \<union> set (keys (filter (\<lambda>(p, fp). status exists_file c p fp \<noteq> Hit) fps))"
proof (induction fps arbitrary: plan stats changed)
  case (Cons pf fps)
  obtain p fp where pf: "pf = (p, fp)" by (cases pf)
  obtain plan1 stats1 where one: "classify exists_file c (p, fp) (plan, stats, changed) =
     (plan1, stats1, if status exists_file c p fp = Hit then changed else insert p changed)"
    "recompile plan1 = recompile plan" "cached plan1 = cached plan @ (if status exists_file c p fp = Hit then [p] else [])"
    using classify_one by blast
  then have "fold (classify exists_file c) fps (plan1, stats1,
      if status exists_file c p fp = Hit then changed else insert p changed) = (plan', stats', changed')"
    using Cons.prems pf by simp
  from Cons.IH [OF this] show ?case using one pf by auto
qed simp

lemma invalidate_dependent_lists:
  "recompile (fst (invalidate_dependent g changed p ps)) = recompile (fst ps)"
  "cached (fst (invalidate_dependent g changed p ps)) = filter (\<lambda>q. q \<noteq> p) (cached (fst ps))"
  by (simp_all add: invalidate_dependent_def case_prod_beta split: option.split)

lemma propagate_one:
  "recompile (fst (propagate g changed p ps)) = recompile (fst ps) @ [p]"
  "cached (fst (propagate g changed p ps)) = filter (\<lambda>q. q \<noteq> p \<or> q \<in> changed) (cached (fst ps))"
proof -
  show "recompile (fst (propagate g changed p ps)) = recompile (fst ps) @ [p]"
    by (simp add: propagate_def schedule_def case_prod_beta invalidate_dependent_lists)
  have "cached (fst (propagate g changed p ps)) = (if p \<notin> changed then filter (\<lambda>q. q \<noteq> p) (cached (fst ps)) else cached (fst ps))"
    by (simp add: propagate_def schedule_def case_prod_beta invalidate_dependent_lists)
  also have "\<dots> = filter (\<lambda>q. q \<noteq> p \<or> q \<in> changed) (cached (fst ps))"
    by (cases "p \<in> changed") (auto intro!: filter_cong filter_True [symmetric])
  finally show "cached (fst (propagate g changed p ps)) = filter (\<lambda>q. q \<noteq> p \<or> q \<in> changed) (cached (fst ps))" .
qed

lemma propagate_all:
  "recompile (fst (fold (propagate g changed) xs ps)) = recompile (fst ps) @ xs \<and>
   cached (fst (fold (propagate g changed) xs ps)) = filter (\<lambda>q. q \<notin> set xs \<or> q \<in> changed) (cached (fst ps))"
  by (induction xs arbitrary: ps) (auto simp: propagate_one intro!: filter_cong)

lemma position_nth: "distinct xs \<Longrightarrow> i < length xs \<Longrightarrow> position xs (xs ! i) = Some i"
  by (induction xs arbitrary: i) (auto simp: nth_Cons' split: if_splits)

lemma finite_invalidated: "finite (invalidated_by g changed)"
proof -
  have "next_edges dependents g \<subseteq> UNIV \<times> targets dependents g"
    using nexts_targets by (auto simp: next_edges_def)
  then have "invalidated_by g changed \<subseteq> set changed \<union> targets dependents g"
    unfolding invalidated_by_closure by (auto elim: rtranclE)
  then show ?thesis by (rule finite_subset) simp
qed

lemma make_plan_lists:
  assumes "\<forall>S. finite S \<longrightarrow> distinct (order S) \<and> set (order S) = S"
    and "make_plan order exists_file c stats fps g = (plan, stats')"
  defines "changed \<equiv> {p. \<exists>fp. (p, fp) \<in> set fps \<and> status exists_file c p fp \<noteq> Hit}"
  shows "set (recompile plan) = (next_edges dependents g)\<^sup>* `` changed" "distinct (recompile plan)"
    "cached plan = filter (\<lambda>q. q \<notin> set (recompile plan) \<or> q \<in> changed)
      (keys (filter (\<lambda>(p, fp). status exists_file c p fp = Hit) fps))"
    "\<And>i j p q k l. i < j \<Longrightarrow> j < length (recompile plan) \<Longrightarrow> position (build_order g) (recompile plan ! i) = Some k \<Longrightarrow>
      position (build_order g) (recompile plan ! j) = Some l \<Longrightarrow> k \<le> l"
proof -
  obtain plan1 stats1 changed1 where c1: "fold (classify exists_file c) fps (plan_new, stats, {}) = (plan1, stats1, changed1)"
    by (metis prod_cases3)
  have p1: "recompile plan1 = []" "cached plan1 = keys (filter (\<lambda>(p, fp). status exists_file c p fp = Hit) fps)"
    "changed1 = set (keys (filter (\<lambda>(p, fp). status exists_file c p fp \<noteq> Hit) fps))"
    using classify_all [OF c1] by (auto simp: plan_new_def)
  then have ch: "changed1 = changed" unfolding changed_def by force
  then have fin: "finite changed" using p1(3) by auto
  let ?inv = "invalidated_by g (order changed)"
  have inv: "?inv = (next_edges dependents g)\<^sup>* `` changed"
    using assms(1) [rule_format, OF fin] by (simp add: invalidated_by_closure)
  note o = assms(1) [rule_format, OF finite_invalidated [of g "order changed"]]
  let ?ps = "fold (propagate g changed) (order ?inv) (plan1, stats1)"
  have ps: "recompile (fst ?ps) = order ?inv" "cached (fst ?ps) = filter (\<lambda>q. q \<notin> ?inv \<or> q \<in> changed) (cached plan1)"
    using propagate_all [of g changed "order ?inv" "(plan1, stats1)"] p1(1) o by auto
  have "changed \<subseteq> ?inv" unfolding inv by auto
  then have "set (order changed) \<subseteq> set (recompile (fst ?ps))" using assms(1) [rule_format, OF fin] o ps(1) by simp
  then have skip: "fold (\<lambda>pkg ps. if pkg \<in> set (recompile (fst ps)) then ps else schedule pkg ps) xs ?ps = ?ps"
    if "set xs \<subseteq> set (order changed)" for xs
    using that by (induction xs) auto
  let ?key = "\<lambda>pkg. case position (build_order g) pkg of Some i \<Rightarrow> i | None \<Rightarrow> 2 ^ 64 - 1"
  have plan: "plan = (fst ?ps)\<lparr>recompile := sort_key ?key (order ?inv), plan_build_order := build_order g\<rparr>"
    using assms(2) c1 ch skip [OF order_refl] ps(1) by (auto simp: make_plan_def Let_def case_prod_beta)
  show "set (recompile plan) = (next_edges dependents g)\<^sup>* `` changed" "distinct (recompile plan)"
    using o inv by (simp_all add: plan)
  show "cached plan = filter (\<lambda>q. q \<notin> set (recompile plan) \<or> q \<in> changed)
      (keys (filter (\<lambda>(p, fp). status exists_file c p fp = Hit) fps))"
    using o ps(2) p1(2) by (simp add: plan)
  fix i j k l
  assume a: "i < j" "j < length (recompile plan)" "position (build_order g) (recompile plan ! i) = Some k"
    "position (build_order g) (recompile plan ! j) = Some l"
  have "sorted (map ?key (recompile plan))" by (simp add: plan)
  then have "?key (recompile plan ! i) \<le> ?key (recompile plan ! j)"
    using a(1,2) by (simp add: sorted_iff_nth_mono)
  then show "k \<le> l" using a(3,4) by simp
qed

text \<open>
  C7: a plan for a built graph recompiles exactly the packages that import, directly or through
  others, a package without a valid cache entry, and those packages themselves; all others it takes
  from the cache; and when the imports have no cycle, nothing is recompiled before what it imports.
\<close>

theorem plan_recompiles_importers:
  assumes "builder_ok b" and "builder_build b = Some g" and "distinct (keys fps)"
    and "\<forall>S. finite S \<longrightarrow> distinct (order S) \<and> set (order S) = S"
    and "make_plan order exists_file c stats fps g = (plan, stats')"
  shows "set (recompile plan) =
      {p. \<exists>q fp. (q, fp) \<in> set fps \<and> status exists_file c q fp \<noteq> Hit \<and>
         (p, q) \<in> {(u, v) \<in> set (builder_edges b). v \<in> set (keys (builder_nodes b))}\<^sup>*} \<and>
    distinct (recompile plan) \<and>
    set (cached plan) = set (keys fps) - set (recompile plan) \<and>
    (acyclic (imports_of b) \<longrightarrow>
       (\<forall>j<length (recompile plan). \<forall>i<j. (recompile plan ! i, recompile plan ! j) \<notin> imports_of b))"
proof -
  let ?N = "set (keys (builder_nodes b))"
  let ?changed = "{p. \<exists>fp. (p, fp) \<in> set fps \<and> status exists_file c p fp \<noteq> Hit}"
  have g: "records ?N (set (builder_edges b)) g" "acyclic (imports_of b) \<Longrightarrow> build_order_of g (build_order g)"
    using builder_build_correct [OF assms(1)] assms(2) by auto
  note lists = make_plan_lists [OF assms(4,5)]
  have "next_edges dependents g = {(u, v) \<in> set (builder_edges b). v \<in> ?N}\<inverse>"
    using records_graph(3) [OF g(1)] by auto
  then have "set (recompile plan) = ({(u, v) \<in> set (builder_edges b). v \<in> ?N}\<inverse>)\<^sup>* `` ?changed"
    using lists(1) by simp
  also have "\<dots> = {p. \<exists>q fp. (q, fp) \<in> set fps \<and> status exists_file c q fp \<noteq> Hit \<and>
      (p, q) \<in> {(u, v) \<in> set (builder_edges b). v \<in> ?N}\<^sup>*}"
    unfolding rtrancl_converse by blast
  finally have changed: "set (recompile plan) = {p. \<exists>q fp. (q, fp) \<in> set fps \<and> status exists_file c q fp \<noteq> Hit \<and>
      (p, q) \<in> {(u, v) \<in> set (builder_edges b). v \<in> ?N}\<^sup>*}" .
  have sub: "?changed \<subseteq> set (recompile plan)" using lists(1) by auto
  have hit: "q \<notin> ?changed" if "(q, fp) \<in> set fps" "status exists_file c q fp = Hit" for q fp
    using assms(3) that eq_key_imp_eq_value by fastforce
  have cached: "set (cached plan) = set (keys fps) - set (recompile plan)"
  proof (rule set_eqI)
    fix q
    have "q \<in> set (cached plan) \<longleftrightarrow>
        q \<in> set (keys (filter (\<lambda>(p, fp). status exists_file c p fp = Hit) fps)) \<and> (q \<notin> set (recompile plan) \<or> q \<in> ?changed)"
      using lists(3) by simp
    also have "q \<in> set (keys (filter (\<lambda>(p, fp). status exists_file c p fp = Hit) fps)) \<longleftrightarrow>
        (\<exists>fp. (q, fp) \<in> set fps \<and> status exists_file c q fp = Hit)" by force
    finally have c: "q \<in> set (cached plan) \<longleftrightarrow>
        (\<exists>fp. (q, fp) \<in> set fps \<and> status exists_file c q fp = Hit) \<and> (q \<notin> set (recompile plan) \<or> q \<in> ?changed)" .
    have "q \<in> set (keys fps) \<longleftrightarrow> (\<exists>fp. (q, fp) \<in> set fps)" by force
    then show "q \<in> set (cached plan) \<longleftrightarrow> q \<in> set (keys fps) - set (recompile plan)"
      unfolding c using sub hit by blast
  qed
  have first: "(recompile plan ! i, recompile plan ! j) \<notin> imports_of b"
    if "acyclic (imports_of b)" "i < j" "j < length (recompile plan)" for i j
  proof
    assume dep: "(recompile plan ! i, recompile plan ! j) \<in> imports_of b"
    note o = g(2) [OF that(1), unfolded build_order_of_def]
    have "recompile plan ! i \<in> set (build_order g)"
      using dep o g(1) by (auto simp: imports_of_def records_def)
    then obtain k where k: "k < length (build_order g)" "build_order g ! k = recompile plan ! i"
      by (auto simp: in_set_conv_nth)
    have "recompile plan ! j \<in> deps_in g (build_order g ! k)"
      using dep k(2) records_graph(2) [OF g(1)] by (auto simp: dep_edges_def imports_of_def)
    then have "recompile plan ! j \<in> set (take k (build_order g))" using o k(1) by blast
    then obtain l where l: "l < k" "build_order g ! l = recompile plan ! j"
      unfolding in_set_conv_nth using k(1) by auto
    have "position (build_order g) (recompile plan ! i) = Some k" "position (build_order g) (recompile plan ! j) = Some l"
      using position_nth [of "build_order g" k] position_nth [of "build_order g" l] o k l by simp_all
    from lists(4) [OF that(2,3) this] l(1) show False by simp
  qed
  show ?thesis using changed lists(2) cached first by blast
qed

text \<open>The cache has valid entries for B and C of the sample, and none for A.\<close>

definition sample_entry :: "rstring \<Rightarrow> cached_package" where
  "sample_entry name =
     \<lparr>cp_name = name, input_fingerprint = \<lparr>fp_hash = [1], fp_kind = FK_Source\<rparr>,
      cp_interface_fingerprint = \<lparr>fp_hash = [2], fp_kind = FK_Interface\<rparr>, created_at = 0,
      artifacts = \<lparr>ir_path = None, bytecode_path = None\<rparr>\<rparr>"

definition sample_cache :: project_cache where
  "sample_cache =
     cache_insert 0 (sample_entry [67]) (cache_insert 0 (sample_entry [66]) (open_cache 0 [] [] None))"

definition sample_fps :: "fingerprint btree_map" where
  "sample_fps = map (\<lambda>p. (p, \<lparr>fp_hash = [1], fp_kind = FK_Source\<rparr>)) [[65], [66], [67]]"

theorem plan_recompiles_importers_witness:
  "\<exists>g plan stats'. builder_build sample_builder = Some g \<and>
     make_plan sorted_list_of_set (\<lambda>_. True) sample_cache
       \<lparr>cache_hits = 0, cache_misses = 0, dep_invalidations = 0, incremental = True\<rparr> sample_fps g = (plan, stats') \<and>
     {[65], [66], [67]} \<subseteq> set (recompile plan) \<and> cached plan = []"
proof -
  let ?stats = "\<lparr>cache_hits = 0, cache_misses = 0, dep_invalidations = 0, incremental = True\<rparr>"
  obtain g where g: "builder_build sample_builder = Some g" using builder_build_correct [OF sample_ok] by blast
  obtain plan stats' where p: "make_plan sorted_list_of_set (\<lambda>_. True) sample_cache ?stats sample_fps g = (plan, stats')"
    by fastforce
  let ?R = "{(u, v) \<in> set (builder_edges sample_builder). v \<in> set (keys (builder_nodes sample_builder))}"
  have d: "distinct (keys sample_fps)" by (simp add: sample_fps_def)
  have o: "\<forall>S :: rstring set. finite S \<longrightarrow> distinct (sorted_list_of_set S) \<and> set (sorted_list_of_set S) = S"
    by simp
  have plan: "set (recompile plan) = {p. \<exists>q fp. (q, fp) \<in> set sample_fps \<and> status (\<lambda>_. True) sample_cache q fp \<noteq> Hit \<and> (p, q) \<in> ?R\<^sup>*}"
    "set (cached plan) = set (keys sample_fps) - set (recompile plan)"
    using plan_recompiles_importers [OF sample_ok g d o p] by blast+
  have edges: "set (builder_edges sample_builder) = {([66], [65]), ([67], [65]), ([67], [66])}"
    by (auto simp: sample_builder_def add_import_def add_package_def builder_new_def)
  have "status (\<lambda>_. True) sample_cache [65] fp \<noteq> Hit" for fp
    by (simp add: status_def cache_get_def sample_cache_def cache_insert_def open_cache_def cache_index_new_def
        touch_def sample_entry_def)
  moreover have "([65], \<lparr>fp_hash = [1], fp_kind = FK_Source\<rparr>) \<in> set sample_fps" by (simp add: sample_fps_def)
  moreover have "([66], [65]) \<in> ?R" "([67], [65]) \<in> ?R" unfolding edges sample_nodes by simp_all
  then have "([65], [65]) \<in> ?R\<^sup>*" "([66], [65]) \<in> ?R\<^sup>*" "([67], [65]) \<in> ?R\<^sup>*" by blast+
  ultimately have rec: "{[65], [66], [67]} \<subseteq> set (recompile plan)" using plan(1) by blast
  moreover have "set (keys sample_fps) = {[65], [66], [67]}" by (simp add: sample_fps_def)
  then have "cached plan = []" using plan(2) rec by auto
  ultimately show ?thesis using g p by blast
qed

end
