(* ===== verification/Ssa.thy ===== *)
theory Ssa
  imports Dom_Props Ir_Vm
begin

text \<open>
  Construction of SSA form, \<^verbatim>\<open>src/compiler/ir/ssa.rs\<close>: the placement of phis on iterated dominance
  frontiers, and the promotion of stack cells to values (\<^verbatim>\<open>mem2reg_promote\<close>). The blocks that define a
  variable are listed in the order the hash set yields them. The counter of fresh values wraps.
\<close>

section \<open>Placement of phis\<close>

fun visit_frontier :: "nat list \<Rightarrow> nat list \<Rightarrow> nat list \<Rightarrow> nat set \<Rightarrow> nat list \<Rightarrow> nat list \<times> nat set \<times> nat list" where
  "visit_frontier defs [] work has placed = (work, has, placed)"
| "visit_frontier defs (y # ys) work has placed =
     (if y \<in> has then visit_frontier defs ys work has placed
      else
        visit_frontier defs ys (if y \<notin> set defs then work @ [y] else work) (insert y has) (placed @ [y]))"

lemma visit_frontier_simp:
  "visit_frontier defs ys work has placed = (work', has', placed') \<Longrightarrow>
   \<exists>new. distinct new \<and> set new = set ys - has \<and> has' = has \<union> set ys \<and> placed' = placed @ new \<and>
     work' = work @ filter (\<lambda>y. y \<notin> set defs) new"
proof (induction defs ys work has placed rule: visit_frontier.induct)
  case (2 defs y ys work has placed)
  show ?case
  proof (cases "y \<in> has")
    case True
    then show ?thesis using 2(1,3) by (simp add: insert_Diff_if) blast
  next
    case False
    then obtain new where "distinct new" "set new = set ys - insert y has" "has' = insert y has \<union> set ys"
      "placed' = (placed @ [y]) @ new"
      "work' = (if y \<notin> set defs then work @ [y] else work) @ filter (\<lambda>y. y \<notin> set defs) new"
      using 2(2,3) by auto
    then show ?thesis using False by (intro exI [of _ "y # new"]) auto
  qed
qed simp

text \<open>The blocks that get a phi for one variable, in the order they get it.\<close>

function spread_phis :: "nat list list \<Rightarrow> nat list \<Rightarrow> nat list \<Rightarrow> nat set \<Rightarrow> nat list \<Rightarrow> nat list" where
  "spread_phis fr defs [] has placed = placed"
| "spread_phis fr defs (x # work) has placed =
     (let (work', has', placed') = visit_frontier defs (if x < length fr then fr ! x else []) work has placed
      in spread_phis fr defs work' has' placed')"
  by pat_completeness auto
termination
proof (relation "measure (\<lambda>(fr, defs, work, has, placed). card (\<Union>(set (map set fr)) - has) + length work)")
  fix fr :: "nat list list" and defs :: "nat list" and x work has placed p work' q has' placed'
  let ?ys = "if x < length fr then fr ! x else []"
  assume "p = visit_frontier defs ?ys work has placed" "(work', q) = p" "(has', placed') = q"
  then obtain new where n: "distinct new" "set new = set ?ys - has" "has' = has \<union> set ?ys"
    "work' = work @ filter (\<lambda>y. y \<notin> set defs) new"
    using visit_frontier_simp [of defs ?ys work has placed work' has' placed'] by auto
  let ?U = "\<Union>(set (map set fr))"
  have "set ?ys \<subseteq> ?U" using nth_mem [of x fr] by (auto simp del: nth_mem)
  then have "?U - has = (?U - has') \<union> set new" "(?U - has') \<inter> set new = {}"
    unfolding n(2,3) by blast+
  then have "card (?U - has) = card (?U - has') + length new"
    using card_Un_disjoint [of "?U - has'" "set new"] n(1) by (simp add: distinct_card)
  moreover have "length (filter (\<lambda>y. y \<notin> set defs) new) \<le> length new" by simp
  ultimately show "((fr, defs, work', has', placed'), (fr, defs, x # work, has, placed))
      \<in> measure (\<lambda>(fr, defs, work, has, placed). card (\<Union>(set (map set fr)) - has) + length work)"
    using n(4) by (simp add: less_Suc_eq_le)
qed simp

definition place_phis :: "cfg \<Rightarrow> dom_info \<Rightarrow> nat list list \<Rightarrow> nat list list" where
  "place_phis c d var_defs =
     (let n = length (succs c)
      in fold
           (\<lambda>(v, defs) phis.
              fold (\<lambda>y phis. phis[y := phis ! y @ [v]])
                (spread_phis (frontier d) defs (filter (\<lambda>b. b < n) defs) {} []) phis)
           (enumerate 0 var_defs) (replicate n []))"

definition placeholder :: "cfg \<Rightarrow> nat \<Rightarrow> inst" where
  "placeholder c b =
     \<lparr>result = 0, kind = IPhi (map (\<lambda>p. (of_nat p, 0)) (preds c ! b)), inst_span = None\<rparr>"

definition insert_phis :: "cfg \<Rightarrow> nat list list \<Rightarrow> block_data list \<Rightarrow> block_data list" where
  "insert_phis c phis bs =
     fold (\<lambda>(b, vars) bs. fold (\<lambda>_ bs. bs[b := (bs ! b)\<lparr>insts := placeholder c b # insts (bs ! b)\<rparr>]) vars bs)
       (enumerate 0 phis) bs"

section \<open>Cells that can be promoted\<close>

text \<open>The operands that are used as values; the value that a store writes is not counted.\<close>

definition other_uses :: "inst_kind \<Rightarrow> ir_value list" where
  "other_uses k = (case k of ILoad _ \<Rightarrow> [] | IStore _ _ \<Rightarrow> [] | _ \<Rightarrow> operands k)"

definition all_insts :: "block_data list \<Rightarrow> inst list" where
  "all_insts bs = concat (map insts bs)"

definition allocas :: "block_data list \<Rightarrow> ir_value list" where
  "allocas bs = map result (filter (\<lambda>i. kind i = IAlloca) (all_insts bs))"

definition promotable :: "block_data list \<Rightarrow> ir_value list" where
  "promotable bs = filter (\<lambda>a. \<forall>i\<in>set (all_insts bs). a \<notin> set (other_uses (kind i))) (allocas bs)"

text \<open>A later cell of the same value takes the place of an earlier one.\<close>

definition var_index :: "ir_value list \<Rightarrow> ir_value \<Rightarrow> nat option" where
  "var_index cells = map_of (rev (zip cells [0..<length cells]))"

definition defining_blocks :: "(ir_value \<Rightarrow> nat option) \<Rightarrow> block_data list \<Rightarrow> nat \<Rightarrow> nat list" where
  "defining_blocks vx bs v =
     map fst (filter (\<lambda>(_, b). \<exists>i\<in>set (insts b). case kind i of IStore p _ \<Rightarrow> vx p = Some v | _ \<Rightarrow> False)
       (enumerate 0 bs))"

definition largest_result :: "block_data list \<Rightarrow> ir_value" where
  "largest_result bs = fold (\<lambda>i m. if result i > m then result i else m) (all_insts bs) 0"

section \<open>Renaming\<close>

record renaming =
  rn_blocks :: "block_data list"
  stacks :: "ir_value list list"
  max_id :: ir_value

definition push_name :: "nat \<Rightarrow> ir_value \<Rightarrow> ir_value list list \<Rightarrow> ir_value list list" where
  "push_name v x sts = sts[v := x # sts ! v]"

definition set_inst :: "nat \<Rightarrow> nat \<Rightarrow> (inst \<Rightarrow> inst) \<Rightarrow> block_data list \<Rightarrow> block_data list" where
  "set_inst b pos f bs =
     (if pos < length (insts (bs ! b)) then bs[b := (bs ! b)\<lparr>insts := (insts (bs ! b))[pos := f (insts (bs ! b) ! pos)]\<rparr>]
      else bs)"

text \<open>The phis of a block get their names.\<close>

definition name_phi :: "nat \<Rightarrow> nat \<times> nat \<Rightarrow> renaming \<Rightarrow> renaming" where
  "name_phi b =
     (\<lambda>(pos, v) r.
        let x = max_id r + 1
        in \<lparr>rn_blocks = set_inst b pos (\<lambda>i. i\<lparr>result := x\<rparr>) (rn_blocks r),
            stacks = push_name v x (stacks r), max_id = x\<rparr>)"

fun rewrite_insts :: "(ir_value \<Rightarrow> nat option) \<Rightarrow> inst list \<Rightarrow> ir_value list list \<Rightarrow> inst list \<times> ir_value list list" where
  "rewrite_insts vx [] sts = ([], sts)"
| "rewrite_insts vx (i # is) sts =
     (let (i', sts') =
        (case kind i of
           ILoad p \<Rightarrow>
             (case vx p of
                None \<Rightarrow> (i, sts)
              | Some v \<Rightarrow>
                  (i\<lparr>kind := (case sts ! v of cur # _ \<Rightarrow> ICopy cur | [] \<Rightarrow> IConstI64 0)\<rparr>, sts))
         | IStore p x \<Rightarrow>
             (case vx p of
                None \<Rightarrow> (i, sts)
              | Some v \<Rightarrow> (i\<lparr>kind := ICopy x\<rparr>, push_name v x sts))
         | _ \<Rightarrow> (i, sts));
          (is', sts'') = rewrite_insts vx is sts'
      in (i' # is', sts''))"

text \<open>The first operand that comes from block \<open>b\<close>.\<close>

fun set_operand :: "nat \<Rightarrow> ir_value \<Rightarrow> (block_id \<times> ir_value) list \<Rightarrow> (block_id \<times> ir_value) list" where
  "set_operand b x [] = []"
| "set_operand b x ((bb, y) # ops) = (if unat bb = b then (bb, x) # ops else (bb, y) # set_operand b x ops)"

definition feed_phi :: "nat \<Rightarrow> nat \<times> nat \<times> nat \<Rightarrow> renaming \<Rightarrow> renaming" where
  "feed_phi b =
     (\<lambda>(succ, pos, v) r.
        let (x, r) =
          (case stacks r ! v of
             cur # _ \<Rightarrow> (cur, r)
           | [] \<Rightarrow>
               let z = max_id r + 1;
                   zero = \<lparr>result = z, kind = IConstI64 0, inst_span = None\<rparr>;
                   bs = rn_blocks r
               in (z, r\<lparr>rn_blocks := bs[b := (bs ! b)\<lparr>insts := insts (bs ! b) @ [zero]\<rparr>], max_id := z\<rparr>))
        in r\<lparr>rn_blocks :=
               set_inst succ pos
                 (\<lambda>i. case kind i of IPhi ops \<Rightarrow> i\<lparr>kind := IPhi (set_operand b x ops)\<rparr> | _ \<Rightarrow> i) (rn_blocks r)\<rparr>)"

text \<open>One block: its phis, its loads and stores, and the phis of its successors.\<close>

definition rename_one :: "cfg \<Rightarrow> nat list list \<Rightarrow> (ir_value \<Rightarrow> nat option) \<Rightarrow> nat \<Rightarrow> renaming \<Rightarrow> renaming" where
  "rename_one c phis vx b r =
     (let r = fold (name_phi b) (enumerate 0 (phis ! b)) r;
          k = length (phis ! b);
          blk = rn_blocks r ! b;
          (is, sts) = rewrite_insts vx (drop k (insts blk)) (stacks r);
          r = r\<lparr>rn_blocks := (rn_blocks r)[b := blk\<lparr>insts := take k (insts blk) @ is\<rparr>], stacks := sts\<rparr>
      in fold (feed_phi b) (concat (map (\<lambda>s. map (\<lambda>(pos, v). (s, pos, v)) (enumerate 0 (phis ! s))) (succs c ! b))) r)"

text \<open>
  The walk over the dominator tree; after a block, the names it pushed are taken off the stacks. The
  depth is bounded by the fuel.
\<close>

fun rename_block ::
    "nat \<Rightarrow> cfg \<Rightarrow> dom_info \<Rightarrow> nat list list \<Rightarrow> (ir_value \<Rightarrow> nat option) \<Rightarrow> nat \<Rightarrow> renaming \<Rightarrow> renaming option"
and rename_blocks ::
    "nat \<Rightarrow> cfg \<Rightarrow> dom_info \<Rightarrow> nat list list \<Rightarrow> (ir_value \<Rightarrow> nat option) \<Rightarrow> nat list \<Rightarrow> renaming \<Rightarrow> renaming option"
where
  "rename_block 0 c d phis vx b r = None"
| "rename_block (Suc n) c d phis vx b r =
     (let r1 = rename_one c phis vx b r;
          pushed = map2 (\<lambda>new old. length new - length old) (stacks r1) (stacks r)
      in map_option (\<lambda>r'. r'\<lparr>stacks := map2 drop pushed (stacks r')\<rparr>)
           (rename_blocks n c d phis vx (tree d ! b) r1))"
| "rename_blocks n c d phis vx [] r = Some r"
| "rename_blocks n c d phis vx (b # bs) r =
     Option.bind (rename_block n c d phis vx b r) (rename_blocks n c d phis vx bs)"

definition mem2reg_promote :: "func \<Rightarrow> func option" where
  "mem2reg_promote f =
     (let cells = promotable (blocks f); vx = var_index cells
      in if cells = [] then Some f
         else
           let c = build f
           in Option.bind (compute f c) (\<lambda>d.
                let phis = place_phis c d (map (defining_blocks vx (blocks f)) [0..<length cells]);
                    bs = insert_phis c phis (blocks f);
                    start = \<lparr>rn_blocks = bs, stacks = replicate (length cells) [], max_id = largest_result bs\<rparr>
                in map_option (\<lambda>r. f\<lparr>blocks := rn_blocks r\<rparr>)
                     (rename_block (length bs) c d phis vx (entry_block c) start)))"

end
