(* ===== verification/Ssa_Props.thy ===== *)
theory Ssa_Props
  imports Ssa
begin

text \<open>
  Phis are placed exactly on the iterated dominance frontier of the blocks that define a variable, and
  rewriting a block's loads and stores keeps the values it computes.
\<close>

section \<open>Iterated frontiers\<close>

definition frontier_of :: "nat list list \<Rightarrow> nat \<Rightarrow> nat set" where
  "frontier_of fr x = (if x < length fr then set (fr ! x) else {})"

inductive iterated :: "nat list list \<Rightarrow> nat set \<Rightarrow> nat \<Rightarrow> bool" for fr D where
  iterated_def: "x \<in> D \<Longrightarrow> y \<in> frontier_of fr x \<Longrightarrow> iterated fr D y"
| iterated_phi: "iterated fr D x \<Longrightarrow> y \<in> frontier_of fr x \<Longrightarrow> iterated fr D y"

lemma iterated_least:
  assumes "\<And>x. x \<in> D \<union> J \<Longrightarrow> frontier_of fr x \<subseteq> J" and "iterated fr D y"
  shows "y \<in> J"
  using assms(2) by induction (use assms(1) in blast)+

text \<open>
  Between two rounds: what is placed belongs on the frontier, and what defines the variable or has a
  phi is still queued or has its frontier placed.
\<close>

lemma spread_phis_correct:
  assumes "D \<subseteq> set defs" and "set work \<subseteq> D \<union> {y. iterated fr D y}" and "has \<subseteq> {y. iterated fr D y}"
    and "\<forall>x\<in>D \<union> has. x \<in> set work \<or> frontier_of fr x \<subseteq> has" and "\<forall>x\<in>set defs - D. frontier_of fr x = {}"
    and "distinct placed" and "set placed = has"
  shows "distinct (spread_phis fr defs work has placed) \<and> set (spread_phis fr defs work has placed) = {y. iterated fr D y}"
  using assms(2-7)
proof (induction fr defs work has placed rule: spread_phis.induct)
  case (1 fr defs has placed)
  then have "iterated fr D y \<Longrightarrow> y \<in> has" for y using iterated_least [of D has fr] by auto
  then show ?case using 1 by auto
next
  case (2 fr defs x work has placed)
  let ?ys = "if x < length fr then fr ! x else []"
  obtain work' has' placed' where v: "visit_frontier defs ?ys work has placed = (work', has', placed')"
    by (metis prod_cases3)
  then obtain new where n: "distinct new" "set new = set ?ys - has" "has' = has \<union> set ?ys" "placed' = placed @ new"
    "work' = work @ filter (\<lambda>y. y \<notin> set defs) new"
    using visit_frontier_simp by blast
  have ys: "set ?ys = frontier_of fr x" by (simp add: frontier_of_def)
  have "x \<in> D \<or> iterated fr D x" using 2(2) by auto
  then have front: "set ?ys \<subseteq> {y. iterated fr D y}" unfolding ys by (auto intro: iterated.intros)
  have "distinct (spread_phis fr defs work' has' placed') \<and> set (spread_phis fr defs work' has' placed') = {y. iterated fr D y}"
  proof (rule 2(1) [OF v [symmetric] refl refl])
    show "set work' \<subseteq> D \<union> {y. iterated fr D y}" "has' \<subseteq> {y. iterated fr D y}"
      using 2(2,3) front n by auto
    show "\<forall>z\<in>D \<union> has'. z \<in> set work' \<or> frontier_of fr z \<subseteq> has'"
    proof
      fix z assume z: "z \<in> D \<union> has'"
      consider "z = x" | "z \<in> set work" | "z \<in> D \<union> has" "frontier_of fr z \<subseteq> has" | "z \<in> set new" "z \<notin> D"
        using z 2(4) n(2,3) by fastforce
      then show "z \<in> set work' \<or> frontier_of fr z \<subseteq> has'"
      proof cases
        case 1
        then show ?thesis using ys n(3) by blast
      next
        case 4
        then show ?thesis using 2(5) n(5) by (cases "z \<in> set defs") auto
      qed (use n in auto)
    qed
    show "\<forall>x\<in>set defs - D. frontier_of fr x = {}" by (rule 2(5))
    show "distinct placed'" "set placed' = has'" using 2(6,7) n by auto
  qed
  then show ?case using v by (simp add: Let_def del: visit_frontier.simps)
qed

lemma fold_push:
  assumes "distinct ys" and "x < length phis"
  shows "fold (\<lambda>y phis. phis[y := phis ! y @ [v]]) ys phis ! x = (if x \<in> set ys then phis ! x @ [v] else phis ! x)"
    "length (fold (\<lambda>y phis. phis[y := phis ! y @ [v]]) ys phis) = length phis"
  using assms
proof (induction ys arbitrary: phis)
  case (Cons a ys)
  {
    case 1
    then show ?case using Cons.IH(1) by (cases "x = a") auto
  next
    case 2
    then show ?case using Cons.IH(2) by simp
  }
qed simp_all

lemma place_all:
  assumes "\<forall>(v, defs)\<in>set vds. distinct (g defs)" and "x < length phis"
  shows "fold (\<lambda>(v, defs) phis. fold (\<lambda>y phis. phis[y := phis ! y @ [v]]) (g defs) phis) vds phis ! x =
    phis ! x @ map fst (filter (\<lambda>(v, defs). x \<in> set (g defs)) vds)"
  using assms
proof (induction vds arbitrary: phis)
  case (Cons vd vds)
  obtain v defs where vd: "vd = (v, defs)" by (cases vd)
  then have "distinct (g defs)" using Cons.prems(1) by simp
  note one = fold_push [OF this Cons.prems(2), of v]
  show ?case using Cons.IH [of "fold (\<lambda>y phis. phis[y := phis ! y @ [v]]) (g defs) phis"] one Cons.prems vd by auto
qed simp



section \<open>Rewriting a block\<close>

text \<open>
  The state after rewriting simulates the one before: values agree except on the results \<open>S\<close> of
  rewritten stores, cells that are not promoted are the same, and the name on top of a promoted
  cell's stack has the cell's content.
\<close>

definition simulated ::
    "(ir_value \<Rightarrow> nat option) \<Rightarrow> ir_value set \<Rightarrow> ir_value list list \<Rightarrow>
     vm_value ssa_env \<Rightarrow> cells \<Rightarrow> vm_value ssa_env \<Rightarrow> cells \<Rightarrow> bool" where
  "simulated vx S sts env w env' w' \<longleftrightarrow>
     (\<forall>x. x \<notin> S \<longrightarrow> env' x = env x) \<and> (\<forall>p. vx p = None \<longrightarrow> w' p = w p) \<and>
     (\<forall>p v x. vx p = Some v \<and> w p = Some x \<longrightarrow> (\<exists>cur rest. sts ! v = cur # rest \<and> env' cur = Some x))"

text \<open>
  What the rewriting relies on in a block in SSA form: the results of stores are not used, a name on a
  stack is not defined again, and neither is a stored value after it is stored.
\<close>

fun stored_before :: "inst list \<Rightarrow> bool" where
  "stored_before [] = True"
| "stored_before (i # is) =
     ((case kind i of IStore p x \<Rightarrow> x \<notin> result ` set (i # is) | _ \<Rightarrow> True) \<and> stored_before is)"

definition rewritable :: "(ir_value \<Rightarrow> nat option) \<Rightarrow> ir_value set \<Rightarrow> inst list \<Rightarrow> ir_value list list \<Rightarrow> bool" where
  "rewritable vx S is sts \<longleftrightarrow>
     (\<forall>i\<in>set is. set (operands (kind i)) \<inter> S = {} \<and>
        (case kind i of IStore p x \<Rightarrow> vx p \<noteq> None \<longrightarrow> result i \<in> S | _ \<Rightarrow> result i \<notin> S)) \<and>
     (\<forall>st\<in>set sts. set st \<inter> result ` set is = {}) \<and> stored_before is"

definition indexes :: "(ir_value \<Rightarrow> nat option) \<Rightarrow> nat \<Rightarrow> bool" where
  "indexes vx n \<longleftrightarrow> (\<forall>p v. vx p = Some v \<longrightarrow> v < n) \<and> (\<forall>p q v. vx p = Some v \<and> vx q = Some v \<longrightarrow> p = q)"

lemma indexes_var_index:
  assumes "distinct cells"
  shows "indexes (var_index cells) (length cells)"
proof -
  have "p = cells ! v \<and> v < length cells" if "var_index cells p = Some v" for p v
  proof -
    have "(p, v) \<in> set (zip cells [0..<length cells])"
      using map_of_SomeD [OF that [unfolded var_index_def]] by simp
    then show ?thesis by (auto simp: in_set_zip)
  qed
  then show ?thesis unfolding indexes_def by metis
qed

lemma simulated_values:
  "simulated vx S sts env w env' w' \<Longrightarrow> set xs \<inter> S = {} \<Longrightarrow> map env' xs = map env xs"
  by (auto simp: simulated_def)

text \<open>A result that is on no stack leaves the tops alone.\<close>

lemma simulated_bind:
  assumes "simulated vx S sts env w env' w'" and "indexes vx (length sts)" and "\<forall>st\<in>set sts. y \<notin> set st"
  shows "simulated vx S sts (env(y \<mapsto> a)) w (env'(y \<mapsto> a)) w'"
proof -
  have "cur \<noteq> y" if "vx p = Some v" "sts ! v = cur # rest" for p v cur rest
    using assms(2,3) that unfolding indexes_def by (metis list.set_intros(1) nth_mem)
  then show ?thesis using assms(1) unfolding simulated_def by (simp add: fun_upd_def) blast
qed

text \<open>One instruction, as \<open>rewrite_insts\<close> treats it.\<close>

definition rewrite_inst :: "(ir_value \<Rightarrow> nat option) \<Rightarrow> inst \<Rightarrow> ir_value list list \<Rightarrow> inst \<times> ir_value list list" where
  "rewrite_inst vx i sts =
     (case kind i of
        ILoad p \<Rightarrow>
          (case vx p of
             None \<Rightarrow> (i, sts)
           | Some v \<Rightarrow> (i\<lparr>kind := (case sts ! v of cur # _ \<Rightarrow> ICopy cur | [] \<Rightarrow> IConstI64 0)\<rparr>, sts))
      | IStore p x \<Rightarrow>
          (case vx p of
             None \<Rightarrow> (i, sts)
           | Some v \<Rightarrow> (i\<lparr>kind := ICopy x\<rparr>, push_name v x sts))
      | _ \<Rightarrow> (i, sts))"

lemma rewrite_insts_Cons:
  "rewrite_insts vx (i # is) sts =
     (let (i', sts') = rewrite_inst vx i sts; (is', sts'') = rewrite_insts vx is sts' in (i' # is', sts''))"
  by (simp add: rewrite_inst_def)

lemma run_inst_plain:
  "\<not> is_phi i \<Longrightarrow> run_inst sem pre env0 i (env, w) =
     Option.bind (those (map env (operands (kind i)))) (\<lambda>vs. map_option (\<lambda>(x, w'). (env(result i \<mapsto> x), w')) (sem (kind i) vs w))"
  by (cases "kind i") (auto simp: run_inst_def is_phi_def)

lemma load_simulated:
  assumes "simulated vx S sts env w env' w'" "indexes vx (length sts)" "\<forall>st\<in>set sts. result i \<notin> set st"
    and "run_inst (core_sem fl pool) pre env0 i (env, w) = Some (env1, w1)" "kind i = ILoad p" "vx p = Some v"
  shows "\<exists>env1' w1'. run_inst (core_sem fl pool) pre env0' (fst (rewrite_inst vx i sts)) (env', w') = Some (env1', w1') \<and>
    simulated vx S sts env1 w1 env1' w1'"
proof -
  have plain: "\<not> is_phi i" using assms(5) by (simp add: is_phi_def)
  obtain x where x: "w p = Some x" "env1 = env(result i \<mapsto> x)" "w1 = w"
    using assms(4,5) plain by (auto simp: run_inst_plain core_sem_def bind_eq_Some_conv)
  then obtain cur rest where cur: "sts ! v = cur # rest" "env' cur = Some x"
    using assms(1,6) unfolding simulated_def by blast
  have "run_inst (core_sem fl pool) pre env0' (fst (rewrite_inst vx i sts)) (env', w') = Some (env'(result i \<mapsto> x), w')"
    using assms(5,6) cur by (simp add: rewrite_inst_def run_inst_def core_sem_def)
  then show ?thesis using simulated_bind [OF assms(1-3)] x by blast
qed

lemma store_simulated:
  assumes sim: "simulated vx S sts env w env' w'" and ix: "indexes vx (length sts)" and "\<forall>st\<in>set sts. result i \<notin> set st"
    and "run_inst (core_sem fl pool) pre env0 i (env, w) = Some (env1, w1)" "kind i = IStore p x" "vx p = Some v"
    and "x \<noteq> result i" "x \<notin> S" "result i \<in> S"
  shows "\<exists>env1' w1'. run_inst (core_sem fl pool) pre env0' (fst (rewrite_inst vx i sts)) (env', w') = Some (env1', w1') \<and>
    simulated vx S (push_name v x sts) env1 w1 env1' w1'"
proof -
  have plain: "\<not> is_phi i" using assms(5) by (simp add: is_phi_def)
  obtain a where a: "env x = Some a" "env1 = env(result i \<mapsto> I64 0)" "w1 = w(p \<mapsto> a)"
    using assms(4,5) plain by (auto simp: run_inst_plain core_sem_def bind_eq_Some_conv split: option.splits)
  have ax: "env' x = Some a" using sim a(1) assms(8) by (simp add: simulated_def)
  have "run_inst (core_sem fl pool) pre env0' (fst (rewrite_inst vx i sts)) (env', w') = Some (env'(result i \<mapsto> a), w')"
    using assms(5,6) ax by (simp add: rewrite_inst_def run_inst_def core_sem_def)
  moreover have "simulated vx S (push_name v x sts) env1 w1 (env'(result i \<mapsto> a)) w'"
    unfolding simulated_def
  proof (intro conjI allI impI)
    show "(env'(result i \<mapsto> a)) y = env1 y" if "y \<notin> S" for y
      using sim that assms(9) a(2) by (auto simp: simulated_def)
    show "w' q = w1 q" if "vx q = None" for q
      using sim that assms(6) a(3) by (auto simp: simulated_def)
    fix q u y assume q: "vx q = Some u \<and> w1 q = Some y"
    show "\<exists>cur rest. push_name v x sts ! u = cur # rest \<and> (env'(result i \<mapsto> a)) cur = Some y"
    proof (cases "q = p")
      case True
      then show ?thesis using q assms(6,7) a(3) ax ix by (auto simp: push_name_def indexes_def)
    next
      case False
      then have "u \<noteq> v" using q assms(6) ix by (auto simp: indexes_def)
      have "w q = Some y" using q False a(3) by simp
      then obtain cur rest where cur: "sts ! u = cur # rest" "env' cur = Some y"
        using sim q unfolding simulated_def by blast
      then have "cur \<noteq> result i" using assms(3) ix q unfolding indexes_def by (metis list.set_intros(1) nth_mem)
      then show ?thesis using \<open>u \<noteq> v\<close> cur by (simp add: push_name_def)
    qed
  qed
  ultimately show ?thesis by blast
qed

lemma core_sem_elsewhere:
  assumes "core_sem fl pool k vs w = Some (x, w1)" and "\<forall>p y. k \<noteq> ILoad p \<and> k \<noteq> IStore p y"
  shows "w1 = w \<and> core_sem fl pool k vs w' = Some (x, w')"
  using assms by (cases k) (auto simp: core_sem_def split: list.splits)

lemma kept_simulated:
  assumes sim: "simulated vx S sts env w env' w'" and ix: "indexes vx (length sts)" and fresh: "\<forall>st\<in>set sts. result i \<notin> set st"
    and run: "run_inst (core_sem fl pool) pre env0 i (env, w) = Some (env1, w1)"
    and env0: "\<forall>x. x \<notin> S \<longrightarrow> env0' x = env0 x" and ops: "set (operands (kind i)) \<inter> S = {}"
    and kept: "\<forall>p. kind i = ILoad p \<longrightarrow> vx p = None" "\<forall>p x. kind i = IStore p x \<longrightarrow> vx p = None"
  shows "\<exists>env1' w1'. run_inst (core_sem fl pool) pre env0' i (env', w') = Some (env1', w1') \<and>
    simulated vx S sts env1 w1 env1' w1'"
proof (cases "is_phi i")
  case True
  then obtain ps where ps: "kind i = IPhi ps" by (cases "kind i") (auto simp: is_phi_def)
  then obtain a where a: "phi_value pre ps env0 = Some a" "env1 = env(result i \<mapsto> a)" "w1 = w"
    using run by (auto simp: run_inst_def)
  have "env0' y = env0 y" if "(b, y) \<in> set ps" for b y
    using that ops env0 ps by (force simp: disjoint_iff)
  then have "phi_value pre ps env0' = phi_value pre ps env0"
    by (auto simp: phi_value_def dest: map_of_SomeD split: bind_splits)
  then have "run_inst (core_sem fl pool) pre env0' i (env', w') = Some (env'(result i \<mapsto> a), w')"
    using ps a(1) by (simp add: run_inst_def)
  then show ?thesis using simulated_bind [OF sim ix fresh] a by blast
next
  case False
  obtain vs a where a: "those (map env (operands (kind i))) = Some vs" "core_sem fl pool (kind i) vs w = Some (a, w1)"
    "env1 = env(result i \<mapsto> a)"
    using run by (auto simp: run_inst_plain [OF False] bind_eq_Some_conv)
  have vs: "those (map env' (operands (kind i))) = Some vs" by (simp only: simulated_values [OF sim ops] a(1))
  obtain w1' where w1': "core_sem fl pool (kind i) vs w' = Some (a, w1')" "simulated vx S sts env w1 env' w1'"
  proof (cases "\<exists>p x. kind i = ILoad p \<or> kind i = IStore p x")
    case True
    then consider p where "kind i = ILoad p" | p x where "kind i = IStore p x" by blast
    then show thesis
    proof cases
      case (1 p)
      then have "w' p = w p" using kept sim by (simp add: simulated_def)
      moreover have "w1 = w" "w p = Some a" using a(2) 1 by (auto simp: core_sem_def)
      ultimately show thesis using that [of w'] sim 1 by (simp add: core_sem_def)
    next
      case (2 p x)
      then obtain b y where b: "vs = [b, y]" "a = I64 0" "w1 = w(p \<mapsto> y)"
        using a(2) by (auto simp: core_sem_def split: list.splits)
      have "simulated vx S sts env w1 env' (w'(p \<mapsto> y))"
        using sim kept(2) 2 b(3) unfolding simulated_def by (simp add: fun_upd_def)
      then show thesis using that [of "w'(p \<mapsto> y)"] b 2 by (simp add: core_sem_def)
    qed
  next
    case False
    then show thesis using core_sem_elsewhere [OF a(2), of w'] that [of w'] sim by auto
  qed
  then have "run_inst (core_sem fl pool) pre env0' i (env', w') = Some (env'(result i \<mapsto> a), w1')"
    using vs by (simp add: run_inst_plain [OF False])
  then show ?thesis using simulated_bind [OF w1'(2) ix fresh] a(3) by blast
qed

lemma rewrite_inst_simulated:
  assumes sim: "simulated vx S sts env w env' w'" and ix: "indexes vx (length sts)"
    and run: "run_inst (core_sem fl pool) pre env0 i (env, w) = Some (env1, w1)"
    and env0: "\<forall>x. x \<notin> S \<longrightarrow> env0' x = env0 x" and rw: "rewritable vx S (i # is) sts"
    and new: "rewrite_inst vx i sts = (i', sts')"
  shows "(\<exists>env1' w1'. run_inst (core_sem fl pool) pre env0' i' (env', w') = Some (env1', w1') \<and>
      simulated vx S sts' env1 w1 env1' w1') \<and> indexes vx (length sts') \<and> rewritable vx S is sts'"
proof -
  have ops: "set (operands (kind i)) \<inter> S = {}" and fresh: "\<forall>st\<in>set sts. result i \<notin> set st"
    and rest: "rewritable vx S is sts"
    using rw by (auto simp: rewritable_def split: inst_kind.splits)
  consider p v where "kind i = ILoad p" "vx p = Some v" | p x v where "kind i = IStore p x" "vx p = Some v"
    | "\<forall>p. kind i = ILoad p \<longrightarrow> vx p = None" "\<forall>p x. kind i = IStore p x \<longrightarrow> vx p = None"
    by (metis not_None_eq)
  then show ?thesis
  proof cases
    case (1 p v)
    then have "sts' = sts" using new by (simp add: rewrite_inst_def)
    then show ?thesis using load_simulated [OF sim ix fresh run 1] new rest ix by simp
  next
    case (2 p x v)
    have sts': "sts' = push_name v x sts" using new 2 by (simp add: rewrite_inst_def)
    have x: "x \<noteq> result i" "x \<notin> S" "result i \<in> S" "x \<notin> result ` set is"
      using rw 2 by (auto simp: rewritable_def)
    have "v < length sts" using ix 2 by (auto simp: indexes_def)
    then have v: "sts ! v \<in> set sts" by simp
    have "set sts' \<subseteq> insert (x # sts ! v) (set sts)"
      unfolding sts' push_name_def by (rule set_update_subset_insert)
    moreover have "set st \<inter> result ` set is = {}" if "st \<in> insert (x # sts ! v) (set sts)" for st
      using that rest v x(4) unfolding rewritable_def by (metis Int_insert_left_if0 insertE list.simps(15))
    ultimately have "\<forall>st\<in>set sts'. set st \<inter> result ` set is = {}" by blast
    then have "rewritable vx S is sts'" "length sts' = length sts"
      using rest unfolding rewritable_def by (auto simp: sts' push_name_def)
    then show ?thesis using store_simulated [OF sim ix fresh run 2 x(1-3)] new sts' ix by simp
  next
    case 3
    have "rewrite_inst vx i sts = (i, sts)" using 3 by (cases "kind i") (auto simp: rewrite_inst_def)
    then show ?thesis using kept_simulated [OF sim ix fresh run env0 ops 3] new rest ix by auto
  qed
qed

text \<open>
  C11: rewriting the loads and stores of a block in SSA form keeps what it computes. From states where
  the name on top of each promoted cell's stack has the cell's content, the rewritten instructions run
  wherever the original ones do, without touching the promoted cells, all values but the results of
  stores agree, and the stacks name the contents again.
\<close>

theorem rewriting_keeps_values:
  assumes "simulated vx S sts env w env' w'" and "indexes vx (length sts)" and "rewritable vx S is sts"
    and "\<forall>x. x \<notin> S \<longrightarrow> env0' x = env0 x"
    and "run_insts (core_sem fl pool) pre env0 is (env, w) = Some (env1, w1)"
    and "rewrite_insts vx is sts = (is', sts')"
  shows "\<exists>env1' w1'. run_insts (core_sem fl pool) pre env0' is' (env', w') = Some (env1', w1') \<and>
    simulated vx S sts' env1 w1 env1' w1'"
  using assms(1-3,5,6)
proof (induction "is" arbitrary: sts env w env' w' is')
  case (Cons i js)
  obtain i' sts1 where i': "rewrite_inst vx i sts = (i', sts1)" by fastforce
  obtain is1 where is1: "rewrite_insts vx js sts1 = (is1, sts')" "is' = i' # is1"
    using Cons.prems(5) i' unfolding rewrite_insts_Cons by (auto simp: Let_def split: prod.splits)
  obtain env2 w2 where run: "run_inst (core_sem fl pool) pre env0 i (env, w) = Some (env2, w2)"
    "run_insts (core_sem fl pool) pre env0 js (env2, w2) = Some (env1, w1)"
    using Cons.prems(4) by (auto simp: bind_eq_Some_conv)
  from rewrite_inst_simulated [OF Cons.prems(1,2) run(1) assms(4) Cons.prems(3) i']
  obtain env2' w2' where one: "run_inst (core_sem fl pool) pre env0' i' (env', w') = Some (env2', w2')"
    "simulated vx S sts1 env2 w2 env2' w2'" "indexes vx (length sts1)" "rewritable vx S js sts1" by blast
  from Cons.IH [OF one(2-4) run(2) is1(1)] show ?case using one(1) is1(2) by auto
qed auto

text \<open>A cell 1 that gets the value 2 and is read as the value 4.\<close>

definition cell_block :: "inst list" where
  "cell_block =
     [\<lparr>result = 2, kind = IConstI64 7, inst_span = None\<rparr>, \<lparr>result = 3, kind = IStore 1 2, inst_span = None\<rparr>,
      \<lparr>result = 4, kind = ILoad 1, inst_span = None\<rparr>]"

theorem rewriting_keeps_values_witness:
  "\<exists>fl env1' w1'. run_insts (core_sem fl []) None Map.empty
      [\<lparr>result = 2, kind = IConstI64 7, inst_span = None\<rparr>, \<lparr>result = 3, kind = ICopy 2, inst_span = None\<rparr>,
       \<lparr>result = 4, kind = ICopy 2, inst_span = None\<rparr>] ([1 \<mapsto> I64 0], Map.empty) = Some (env1', w1') \<and>
    env1' 4 = Some (I64 7)"
proof -
  let ?vx = "[1 \<mapsto> 0] :: ir_value \<rightharpoonup> nat" and ?env = "[1 \<mapsto> I64 0] :: vm_value ssa_env"
  have sim: "simulated ?vx {3} [[]] ?env Map.empty ?env Map.empty" by (simp add: simulated_def)
  have ix: "indexes ?vx (length [[] :: ir_value list])" by (simp add: indexes_def split: if_splits)
  have rw: "rewritable ?vx {3} cell_block [[]]" by (simp add: rewritable_def cell_block_def)
  have run: "run_insts (core_sem fl []) None Map.empty cell_block (?env, Map.empty) =
      Some (?env(2 \<mapsto> I64 7, 3 \<mapsto> I64 0, 4 \<mapsto> I64 7), [1 \<mapsto> I64 7])" for fl
    by (simp add: cell_block_def run_inst_def core_sem_def)
  have new: "rewrite_insts ?vx cell_block [[]] =
      ([\<lparr>result = 2, kind = IConstI64 7, inst_span = None\<rparr>, \<lparr>result = 3, kind = ICopy 2, inst_span = None\<rparr>,
        \<lparr>result = 4, kind = ICopy 2, inst_span = None\<rparr>], [[2]])"
    by (simp add: cell_block_def push_name_def)
  have same: "\<forall>x. x \<notin> {3} \<longrightarrow> (Map.empty :: vm_value ssa_env) x = Map.empty x" by simp
  from rewriting_keeps_values [OF sim ix rw same run new]
  obtain fl env1' w1' where r: "run_insts (core_sem fl []) None Map.empty
      [\<lparr>result = 2, kind = IConstI64 7, inst_span = None\<rparr>, \<lparr>result = 3, kind = ICopy 2, inst_span = None\<rparr>,
       \<lparr>result = 4, kind = ICopy 2, inst_span = None\<rparr>] (?env, Map.empty) = Some (env1', w1')"
    "simulated ?vx {3} [[2]] (?env(2 \<mapsto> I64 7, 3 \<mapsto> I64 0, 4 \<mapsto> I64 7)) [1 \<mapsto> I64 7] env1' w1'" by blast
  have "env1' 4 = (?env(2 \<mapsto> I64 7, 3 \<mapsto> I64 0, 4 \<mapsto> I64 7)) 4" using r(2) unfolding simulated_def by simp
  then show ?thesis using r(1) by auto
qed

end
