(* ===== verification/Ssa_Walk.thy ===== *)
theory Ssa_Walk
  imports Ssa_Props
begin

text \<open>
  The walk of \<^verbatim>\<open>mem2reg_promote\<close> over the dominator tree: it ends, keeps the terminators, and leaves no
  access to a promoted cell in a block that the entry reaches.
\<close>

section \<open>What every step keeps\<close>

definition clean_inst :: "(ir_value \<Rightarrow> nat option) \<Rightarrow> inst \<Rightarrow> bool" where
  "clean_inst vx i \<longleftrightarrow> (case kind i of ILoad p \<Rightarrow> vx p = None | IStore p _ \<Rightarrow> vx p = None | _ \<Rightarrow> True)"

definition clean :: "(ir_value \<Rightarrow> nat option) \<Rightarrow> block_data \<Rightarrow> bool" where
  "clean vx b \<longleftrightarrow> (\<forall>i\<in>set (insts b). clean_inst vx i)"

definition headed :: "nat \<Rightarrow> block_data \<Rightarrow> bool" where
  "headed k b \<longleftrightarrow> k \<le> length (insts b) \<and> (\<forall>i<k. is_phi (insts b ! i))"

definition shape_kept :: "nat list list \<Rightarrow> (ir_value \<Rightarrow> nat option) \<Rightarrow> block_data list \<Rightarrow> block_data list \<Rightarrow> bool" where
  "shape_kept phis vx bs bs' \<longleftrightarrow>
     map block_term bs' = map block_term bs \<and>
     (\<forall>b<length bs. (headed (length (phis ! b)) (bs ! b) \<longrightarrow> headed (length (phis ! b)) (bs' ! b)) \<and>
        (clean vx (bs ! b) \<longrightarrow> clean vx (bs' ! b)))"

lemma shape_refl: "shape_kept phis vx bs bs"
  by (simp add: shape_kept_def)

lemma shape_length: "shape_kept phis vx bs bs' \<Longrightarrow> length bs' = length bs"
  unfolding shape_kept_def by (metis length_map)

lemma shape_trans: "shape_kept phis vx bs bs' \<Longrightarrow> shape_kept phis vx bs' bs'' \<Longrightarrow> shape_kept phis vx bs bs''"
  using shape_length [of phis vx bs bs'] unfolding shape_kept_def by simp

lemma clean_shape: "shape_kept phis vx bs bs' \<Longrightarrow> x < length bs \<Longrightarrow> clean vx (bs ! x) \<Longrightarrow> clean vx (bs' ! x)"
  by (simp add: shape_kept_def)

lemma shape_update:
  assumes "block_term blk = block_term (bs ! b)"
    and "headed (length (phis ! b)) (bs ! b) \<Longrightarrow> headed (length (phis ! b)) blk" and "clean vx (bs ! b) \<Longrightarrow> clean vx blk"
  shows "shape_kept phis vx bs (bs[b := blk])"
proof -
  have "map block_term (bs[b := blk]) = map block_term bs"
    using assms(1) by (simp add: map_update) (metis list_update_id map_update)
  moreover have "(headed (length (phis ! x)) (bs ! x) \<longrightarrow> headed (length (phis ! x)) (bs[b := blk] ! x)) \<and>
      (clean vx (bs ! x) \<longrightarrow> clean vx (bs[b := blk] ! x))" if "x < length bs" for x
    using assms(2,3) that by (cases "x = b") simp_all
  ultimately show ?thesis unfolding shape_kept_def by blast
qed

lemma shape_set_inst:
  assumes "\<And>i. is_phi i \<Longrightarrow> is_phi (g i)" and "\<And>i. clean_inst vx i \<Longrightarrow> clean_inst vx (g i)"
  shows "shape_kept phis vx bs (set_inst b pos g bs)"
proof (cases "pos < length (insts (bs ! b))")
  case True
  let ?is = "insts (bs ! b)"
  have "shape_kept phis vx bs (bs[b := (bs ! b)\<lparr>insts := ?is[pos := g (?is ! pos)]\<rparr>])"
  proof (rule shape_update)
    show "headed k ((bs ! b)\<lparr>insts := ?is[pos := g (?is ! pos)]\<rparr>)" if "headed k (bs ! b)" for k
      using that assms(1) True by (auto simp: headed_def nth_list_update)
    show "clean vx ((bs ! b)\<lparr>insts := ?is[pos := g (?is ! pos)]\<rparr>)" if "clean vx (bs ! b)"
      using that assms(2) True set_update_subset_insert [of ?is pos "g (?is ! pos)"] by (auto simp: clean_def)
  qed simp
  then show ?thesis using True by (simp add: set_inst_def)
qed (simp add: set_inst_def shape_refl)

lemma shape_name_phi: "shape_kept phis vx (rn_blocks r) (rn_blocks (name_phi b pv r))"
  by (auto simp: name_phi_def Let_def case_prod_beta is_phi_def clean_inst_def intro!: shape_set_inst)

lemma shape_feed_phi: "shape_kept phis vx (rn_blocks r) (rn_blocks (feed_phi b spv r))"
proof -
  obtain s pos v where spv: "spv = (s, pos, v)" by (cases spv)
  let ?set = "\<lambda>x. set_inst s pos (\<lambda>i. case kind i of IPhi ops \<Rightarrow> i\<lparr>kind := IPhi (set_operand b x ops)\<rparr> | _ \<Rightarrow> i)"
  have set: "shape_kept phis vx bs (?set x bs)" for x bs
    by (rule shape_set_inst) (auto simp: is_phi_def clean_inst_def split: inst_kind.splits)
  let ?bs = "rn_blocks r"
  let ?zero = "\<lparr>result = max_id r + 1, kind = IConstI64 0, inst_span = None\<rparr>"
  have "shape_kept phis vx ?bs (?bs[b := (?bs ! b)\<lparr>insts := insts (?bs ! b) @ [?zero]\<rparr>])"
    by (rule shape_update) (auto simp: headed_def clean_def clean_inst_def nth_append)
  then show ?thesis
    using set shape_trans by (auto simp: feed_phi_def spv Let_def split: list.split)
qed

lemma shape_fold:
  assumes "\<And>x r. shape_kept phis vx (rn_blocks r) (rn_blocks (g x r))"
  shows "shape_kept phis vx (rn_blocks r) (rn_blocks (fold g xs r))"
proof (induction xs arbitrary: r)
  case (Cons x xs)
  then show ?case using assms shape_trans by fastforce
qed (simp add: shape_refl)

section \<open>One block\<close>

lemma rewrite_clean: "list_all (clean_inst vx) (fst (rewrite_insts vx xs sts))"
proof (induction xs arbitrary: sts)
  case (Cons x xs)
  have one: "clean_inst vx (fst (rewrite_inst vx x sts))"
    by (cases "kind x") (auto simp: rewrite_inst_def clean_inst_def split: option.split list.split)
  obtain i sts1 where i: "rewrite_inst vx x sts = (i, sts1)" by fastforce
  obtain js sts2 where js: "rewrite_insts vx xs sts1 = (js, sts2)" by fastforce
  have "list_all (clean_inst vx) js" using Cons [of sts1] js by simp
  moreover have "fst (rewrite_insts vx (x # xs) sts) = i # js" unfolding rewrite_insts_Cons by (simp add: i js)
  ultimately show ?case using one i by simp
qed simp

lemma phi_clean: "is_phi i \<Longrightarrow> clean_inst vx i"
  by (cases "kind i") (auto simp: is_phi_def clean_inst_def)

lemma rename_one_shape:
  assumes "b < length (rn_blocks r)" and "headed (length (phis ! b)) (rn_blocks r ! b)"
  shows "shape_kept phis vx (rn_blocks r) (rn_blocks (rename_one c phis vx b r)) \<and>
    clean vx (rn_blocks (rename_one c phis vx b r) ! b)"
proof -
  let ?k = "length (phis ! b)"
  let ?r1 = "fold (name_phi b) (enumerate 0 (phis ! b)) r"
  let ?blk = "rn_blocks ?r1 ! b"
  let ?is = "fst (rewrite_insts vx (drop ?k (insts ?blk)) (stacks ?r1))"
  let ?blk2 = "?blk\<lparr>insts := take ?k (insts ?blk) @ ?is\<rparr>"
  let ?r2 = "?r1\<lparr>rn_blocks := (rn_blocks ?r1)[b := ?blk2], stacks := snd (rewrite_insts vx (drop ?k (insts ?blk)) (stacks ?r1))\<rparr>"
  let ?feeds = "concat (map (\<lambda>s. map (\<lambda>(pos, v). (s, pos, v)) (enumerate 0 (phis ! s))) (succs c ! b))"
  have one: "rename_one c phis vx b r = fold (feed_phi b) ?feeds ?r2"
    by (simp add: rename_one_def Let_def case_prod_beta)
  have k1: "shape_kept phis vx (rn_blocks r) (rn_blocks ?r1)" by (rule shape_fold) (rule shape_name_phi)
  then have head: "headed ?k ?blk" and len: "b < length (rn_blocks ?r1)"
    using assms shape_length by (auto simp: shape_kept_def)
  have phi: "\<forall>i\<in>set (take ?k (insts ?blk)). is_phi i"
    using head unfolding headed_def by (simp add: all_set_conv_all_nth)
  have clean: "clean vx ?blk2"
    using phi rewrite_clean [of vx "drop ?k (insts ?blk)" "stacks ?r1"] unfolding clean_def list_all_iff
    by (simp add: ball_Un phi_clean)
  have "headed ?k ?blk2" using head by (simp add: headed_def nth_append)
  then have k2: "shape_kept phis vx (rn_blocks ?r1) (rn_blocks ?r2)"
    using shape_update [of ?blk2 "rn_blocks ?r1" b phis vx] clean by simp
  have k3: "shape_kept phis vx (rn_blocks ?r2) (rn_blocks (rename_one c phis vx b r))"
    unfolding one by (rule shape_fold) (rule shape_feed_phi)
  have "clean vx (rn_blocks ?r2 ! b)" "b < length (rn_blocks ?r2)" using clean len by simp_all
  then have "clean vx (rn_blocks (rename_one c phis vx b r) ! b)" using clean_shape [OF k3] by blast
  then show ?thesis using shape_trans [OF shape_trans [OF k1 k2] k3] by blast
qed

section \<open>The walk\<close>

definition topped :: "nat list list \<Rightarrow> nat \<Rightarrow> block_data list \<Rightarrow> bool" where
  "topped phis n bs \<longleftrightarrow> length bs = n \<and> (\<forall>b<n. headed (length (phis ! b)) (bs ! b))"

lemma topped_shape: "topped phis n bs \<Longrightarrow> shape_kept phis vx bs bs' \<Longrightarrow> topped phis n bs'"
  using shape_length [of phis vx bs bs'] by (auto simp: topped_def shape_kept_def)

definition cleans :: "nat list list \<Rightarrow> (ir_value \<Rightarrow> nat option) \<Rightarrow> nat set \<Rightarrow> renaming \<Rightarrow> renaming option \<Rightarrow> bool" where
  "cleans phis vx A r res \<longleftrightarrow>
     (\<exists>r'. res = Some r' \<and> shape_kept phis vx (rn_blocks r) (rn_blocks r') \<and> (\<forall>x\<in>A. clean vx (rn_blocks r' ! x)))"

lemma rename_children:
  assumes "\<And>b r. b \<in> set bs \<Longrightarrow> topped phis n (rn_blocks r) \<Longrightarrow> cleans phis vx (A b) r (rename_block k c d phis vx b r)"
    and "topped phis n (rn_blocks r)" and "\<And>b. b \<in> set bs \<Longrightarrow> A b \<subseteq> {..<n}"
  shows "cleans phis vx (\<Union>b\<in>set bs. A b) r (rename_blocks k c d phis vx bs r)"
  using assms
proof (induction bs arbitrary: r)
  case Nil
  then show ?case by (simp add: cleans_def shape_refl)
next
  case (Cons b bs)
  obtain r1 where r1: "rename_block k c d phis vx b r = Some r1" "shape_kept phis vx (rn_blocks r) (rn_blocks r1)"
    "\<forall>x\<in>A b. clean vx (rn_blocks r1 ! x)"
    using Cons.prems(1) [of b r] Cons.prems(2) by (auto simp: cleans_def)
  have top: "topped phis n (rn_blocks r1)" by (rule topped_shape [OF Cons.prems(2) r1(2)])
  have "cleans phis vx (\<Union>b\<in>set bs. A b) r1 (rename_blocks k c d phis vx bs r1)"
    by (rule Cons.IH) (use Cons.prems top in auto)
  then obtain r2 where r2: "rename_blocks k c d phis vx bs r1 = Some r2" "shape_kept phis vx (rn_blocks r1) (rn_blocks r2)"
    "\<forall>x\<in>(\<Union>b\<in>set bs. A b). clean vx (rn_blocks r2 ! x)" by (auto simp: cleans_def)
  have "clean vx (rn_blocks r2 ! x)" if "x \<in> A b" for x
    using clean_shape [OF r2(2), of x] r1(3) that Cons.prems(3) [of b] top by (auto simp: topped_def)
  then show ?case using r1 r2 shape_trans [OF r1(2) r2(2)] by (auto simp: cleans_def)
qed

text \<open>Every block with an immediate dominator is a child of it in the tree.\<close>

lemma dom_tree_child:
  assumes "\<sigma> ! k = Some p" and "p \<noteq> k" and "k < length \<sigma>" and "p < length \<sigma>"
  shows "k \<in> set (dom_tree \<sigma> ! p)"
proof -
  let ?step = "\<lambda>(b :: nat, d) t. case d of Some p \<Rightarrow> if p \<noteq> b then t[p := t ! p @ [b]] else t | None \<Rightarrow> t"
  have "k \<in> set (fold ?step es t ! p)" if "(k, Some p) \<in> set es \<or> k \<in> set (t ! p)" "p < length t" for es t
    using that
  proof (induction es arbitrary: t)
    case (Cons x es)
    obtain b q where x: "x = (b, q)" by force
    have "(k, Some p) \<in> set es \<or> k \<in> set (?step x t ! p)"
      using Cons.prems assms(2) by (cases q; cases "q = Some p") (auto simp: x nth_list_update)
    moreover have "length (?step x t) = length t" by (auto simp: x split: option.split)
    ultimately show ?case using Cons.IH [of "?step x t"] Cons.prems(2) by simp
  qed simp
  from this [of "enumerate 0 \<sigma>" "replicate (length \<sigma>) []"] show ?thesis
    using assms by (simp add: dom_tree_def in_set_enumerate_eq)
qed

lemma anc_below:
  assumes "anc \<sigma> b x" and "b \<noteq> x"
  shows "\<exists>k. \<sigma> ! k = Some b \<and> b \<noteq> k \<and> anc \<sigma> k x"
  using assms
proof (induction rule: anc.induct)
  case (anc_up x d b)
  then show ?case by (cases "b = d") (auto intro: anc.anc_up)
qed simp

text \<open>
  The walk from a block ends within as much fuel as there are positions from the block on in the
  reverse postorder, and cleans the blocks it dominates.
\<close>

lemma rename_block_walk:
  assumes "built.chained f (idom d)" and "tree d = dom_tree (idom d)"
    and "length (blocks f) \<le> k + rpo_index (length (blocks f)) (rpo (build f)) ! b"
    and "b < length (blocks f)" and "idom d ! b = Some p" and "topped phis (length (blocks f)) (rn_blocks r)"
  shows "cleans phis vx {x. x < length (blocks f) \<and> idom d ! x \<noteq> None \<and> anc (idom d) b x} r
    (rename_block k c d phis vx b r)"
  using assms(3-6)
proof (induction k arbitrary: b p r)
  case 0
  have "b \<in> set (rpo (build f))" using built.chainedD(1) [OF assms(1) 0(2,3)] .
  then show ?case using 0(1) built.ix_less_n [of b f] by simp
next
  case (Suc k)
  let ?n = "length (blocks f)"
  let ?A = "\<lambda>b. {x. x < ?n \<and> idom d ! x \<noteq> None \<and> anc (idom d) b x}"
  let ?r1 = "rename_one c phis vx b r"
  have len: "length (idom d) = ?n" using built.chained_entry [OF assms(1)] by simp
  have one: "shape_kept phis vx (rn_blocks r) (rn_blocks ?r1)" "clean vx (rn_blocks ?r1 ! b)"
    using rename_one_shape [of b r phis vx c] Suc.prems(2,4) by (auto simp: topped_def)
  have top: "topped phis ?n (rn_blocks ?r1)" by (rule topped_shape [OF Suc.prems(4) one(1)])
  have range: "\<forall>b q. b < length (idom d) \<and> idom d ! b = Some q \<longrightarrow> q < length (idom d)"
    using built.chainedD(4) [OF assms(1)] unfolding len by blast
  have children: "cleans phis vx (\<Union>k\<in>set (tree d ! b). ?A k) ?r1 (rename_blocks k c d phis vx (tree d ! b) ?r1)"
  proof (rule rename_children [OF _ top])
    fix j and r :: renaming assume j: "j \<in> set (tree d ! b)" "topped phis ?n (rn_blocks r)"
    have child: "j < ?n" "idom d ! j = Some b" "b \<noteq> j"
      using set_dom_tree(2) [OF range, of b j] j(1) Suc.prems(2) len assms(2) by auto
    then have "j \<noteq> entry_block (build f)" using built.chained_entry [OF assms(1)] by auto
    with built.chainedD(5) [OF assms(1) child(1,2)]
    show "cleans phis vx (?A j) r (rename_block k c d phis vx j r)"
      using Suc.prems(1) by (intro Suc.IH [OF _ child(1,2) j(2)]) simp
  qed auto
  then obtain r2 where r2: "rename_blocks k c d phis vx (tree d ! b) ?r1 = Some r2"
    "shape_kept phis vx (rn_blocks ?r1) (rn_blocks r2)" "\<forall>x\<in>(\<Union>k\<in>set (tree d ! b). ?A k). clean vx (rn_blocks r2 ! x)"
    by (auto simp: cleans_def)
  have "clean vx (rn_blocks r2 ! x)" if x: "x \<in> ?A b" for x
  proof (cases "b = x")
    case True
    then show ?thesis using clean_shape [OF r2(2)] one(2) top x by (simp add: topped_def)
  next
    case False
    then obtain j where j: "idom d ! j = Some b" "b \<noteq> j" "anc (idom d) j x" using anc_below x by blast
    obtain q where q: "idom d ! x = Some q" using x by auto
    have "j < ?n" using built.anc_found [OF j(3) assms(1) _ q] x by simp
    then have "j \<in> set (tree d ! b)" using dom_tree_child [OF j(1,2)] len Suc.prems(2) assms(2) by simp
    then show ?thesis using r2(3) x j(3) by blast
  qed
  then show ?case using r2 shape_trans [OF one(1) r2(2)] by (simp add: cleans_def Let_def)
qed

section \<open>The start of the walk\<close>

lemma insert_vars:
  "b < length bs \<Longrightarrow>
   fold (\<lambda>_ bs. bs[b := (bs ! b)\<lparr>insts := p # insts (bs ! b)\<rparr>]) vars bs =
     bs[b := (bs ! b)\<lparr>insts := replicate (length vars) p @ insts (bs ! b)\<rparr>]"
proof (induction vars arbitrary: bs)
  case (Cons v vars)
  then show ?case by (simp add: replicate_app_Cons_same)
qed simp

lemma insert_phis_nth:
  assumes "length phis \<le> length bs"
  shows "length (insert_phis c phis bs) = length bs \<and>
    (\<forall>x<length bs. insert_phis c phis bs ! x =
      (if x < length phis then (bs ! x)\<lparr>insts := replicate (length (phis ! x)) (placeholder c x) @ insts (bs ! x)\<rparr>
       else bs ! x))"
  using assms
proof (induction phis rule: rev_induct)
  case (snoc vars phis)
  let ?bs = "insert_phis c phis bs" and ?b = "length phis"
  have IH: "length ?bs = length bs" "\<And>x. x < length bs \<Longrightarrow> ?bs ! x =
      (if x < length phis then (bs ! x)\<lparr>insts := replicate (length (phis ! x)) (placeholder c x) @ insts (bs ! x)\<rparr>
       else bs ! x)"
    using snoc by simp_all
  have "insert_phis c (phis @ [vars]) bs =
      ?bs[?b := (?bs ! ?b)\<lparr>insts := replicate (length vars) (placeholder c ?b) @ insts (?bs ! ?b)\<rparr>]"
    using snoc.prems IH(1) by (simp add: insert_phis_def enumerate_append_eq insert_vars)
  then show ?case using IH snoc.prems by (auto simp: nth_list_update nth_append less_Suc_eq)
qed (simp add: insert_phis_def)

lemma length_place_phis: "length (place_phis c d vds) = length (succs c)"
proof -
  have push: "length (fold (\<lambda>y phis. phis[y := phis ! y @ [v]]) ys phis) = length phis"
    for v :: nat and ys and phis :: "nat list list"
    by (induction ys arbitrary: phis) simp_all
  have "length (fold (\<lambda>(v, defs) phis. fold (\<lambda>y phis. phis[y := phis ! y @ [v]]) (g defs) phis) es phis) = length phis"
    for g :: "nat list \<Rightarrow> nat list" and es and phis :: "nat list list"
    by (induction es arbitrary: phis) (auto simp: push)
  then show ?thesis by (simp add: place_phis_def Let_def)
qed

lemma start_topped:
  assumes "length phis = length bs"
  shows "topped phis (length bs) (insert_phis c phis bs) \<and>
    map block_term (insert_phis c phis bs) = map block_term bs"
proof -
  note ins = insert_phis_nth [of phis bs c, unfolded assms, OF order.refl]
  have "map block_term (insert_phis c phis bs) = map block_term bs"
    using ins by (intro nth_equalityI) simp_all
  moreover have "headed (length (phis ! x)) (insert_phis c phis bs ! x)" if "x < length bs" for x
    using ins that by (simp add: headed_def nth_append placeholder_def is_phi_def)
  ultimately show ?thesis using ins by (simp add: topped_def)
qed

lemma var_index_None: "var_index cells p = None \<longleftrightarrow> p \<notin> set cells"
proof -
  have "fst ` set (zip cells [0..<length cells]) = set cells"
    by (metis map_fst_zip length_upt diff_zero list.set_map)
  then show ?thesis by (simp add: var_index_def map_of_eq_None_iff)
qed

text \<open>
  C12: promoting the cells of a function ends, whatever its blocks and jumps are, keeps the terminator
  of every block, and leaves no load from and no store to a promoted cell in a block that the entry
  reaches.
\<close>

theorem promotion_removes_accesses:
  "\<exists>g. mem2reg_promote f = Some g \<and> map block_term (blocks g) = map block_term (blocks f) \<and>
    (\<forall>b i p x. b < length (blocks f) \<and> reachable (build f) ! b \<and> i \<in> set (insts (blocks g ! b)) \<and>
      p \<in> set (promotable (blocks f)) \<longrightarrow> kind i \<noteq> ILoad p \<and> kind i \<noteq> IStore p x)"
proof (cases "promotable (blocks f) = []")
  case True
  then show ?thesis by (simp add: mem2reg_promote_def Let_def)
next
  case False
  let ?n = "length (blocks f)" and ?c = "build f" and ?cells = "promotable (blocks f)"
  let ?vx = "var_index ?cells"
  have ne: "blocks f \<noteq> []" using False by (auto simp: promotable_def allocas_def all_insts_def)
  obtain \<sigma> fr where d: "compute f ?c = Some \<lparr>idom = \<sigma>, tree = dom_tree \<sigma>, frontier = fr\<rparr>" "built.solved f \<sigma>"
    using compute_solved [OF ne] by metis
  let ?d = "\<lparr>idom = \<sigma>, tree = dom_tree \<sigma>, frontier = fr\<rparr>"
  let ?phis = "place_phis ?c ?d (map (defining_blocks ?vx (blocks f)) [0..<length ?cells])"
  let ?bs = "insert_phis ?c ?phis (blocks f)"
  let ?start = "\<lparr>rn_blocks = ?bs, stacks = replicate (length ?cells) [], max_id = largest_result ?bs\<rparr>"
  note ch = built.solvedD(2) [OF d(2)]
  note entry = built.chained_entry [OF ch]
  have len: "length ?phis = ?n" by (simp add: length_place_phis build_def Let_def)
  note start = start_topped [OF len, of ?c]
  then have n: "length ?bs = ?n" by (simp add: topped_def)
  have "cleans ?phis ?vx {x. x < ?n \<and> idom ?d ! x \<noteq> None \<and> anc (idom ?d) (entry_block ?c) x} ?start
      (rename_block (length ?bs) ?c ?d ?phis ?vx (entry_block ?c) ?start)"
    using ch entry start n by (intro rename_block_walk [where p = "entry_block ?c"]) simp_all
  then obtain r where r: "rename_block (length ?bs) ?c ?d ?phis ?vx (entry_block ?c) ?start = Some r"
    "shape_kept ?phis ?vx ?bs (rn_blocks r)"
    "\<forall>x<?n. \<sigma> ! x \<noteq> None \<and> anc \<sigma> (entry_block ?c) x \<longrightarrow> clean ?vx (rn_blocks r ! x)"
    by (auto simp: cleans_def)
  have g: "mem2reg_promote f = Some (f\<lparr>blocks := rn_blocks r\<rparr>)"
    using False d(1) r(1) by (simp add: mem2reg_promote_def Let_def)
  have "clean ?vx (rn_blocks r ! b)" if b: "b < ?n" "reachable ?c ! b" for b
  proof -
    have "b \<in> set (rpo ?c)" using built_R [OF b(1)] b(2) by simp
    then obtain q where "\<sigma> ! b = Some q" using built.solved_found [OF d(2) b(1)] by auto
    then show ?thesis using r(3) b(1) built.anc_entry [OF ch b(1)] by blast
  qed
  then have "kind i \<noteq> ILoad p \<and> kind i \<noteq> IStore p x"
    if "b < ?n" "reachable ?c ! b" "i \<in> set (insts (rn_blocks r ! b))" "p \<in> set ?cells" for b i p x
    using that var_index_None [of ?cells p] by (fastforce simp: clean_def clean_inst_def)
  moreover have "map block_term (rn_blocks r) = map block_term (blocks f)" using r(2) start by (simp add: shape_kept_def)
  ultimately show ?thesis using g by auto
qed

text \<open>A cell 1 in the only block, that gets the value 2 and is read as the value 4.\<close>

definition cell_func :: func where
  "cell_func =
     sample_func
       [(sample_block (TRet (Some 4)))\<lparr>insts := \<lparr>result = 1, kind = IAlloca, inst_span = None\<rparr> # cell_block\<rparr>]"

theorem promotion_removes_accesses_witness:
  "promotable (blocks cell_func) = [1] \<and>
   (\<exists>g. mem2reg_promote cell_func = Some g \<and> (\<forall>i\<in>set (insts (blocks g ! 0)). kind i \<noteq> ILoad 1))"
proof -
  have c: "promotable (blocks cell_func) = [1]"
    by (simp add: promotable_def allocas_def all_insts_def other_uses_def cell_func_def cell_block_def
        sample_func_def sample_block_def)
  moreover have "0 < length (blocks cell_func)" by (simp add: cell_func_def sample_func_def)
  moreover have "reachable (build cell_func) ! 0"
    using compute_rpo_correct(3) [OF wf_build_succs, of 0 cell_func] mark_reachable_iff(2) [OF wf_build_succs, of 0 cell_func 0]
    by (simp add: build_fields reaches_refl cell_func_def sample_func_def)
  ultimately show ?thesis using promotion_removes_accesses [of cell_func] by fastforce
qed

end
